(* ===== verification/Go_Prelude.thy ===== *)
theory Go_Prelude
  imports Main "HOL-Library.Word" "HOL-Library.Char_ord" "HOL-Library.List_Lexorder"
begin

text \<open>
  The vocabulary shared by every component: bytes and Go strings, the error values of the
  source, results that are a value, an error or a run-time panic, slices, and the big-endian
  and arbitrary-precision integer encodings of the Go library (\<^verbatim>\<open>encoding/binary\<close>,
  \<^verbatim>\<open>math/big\<close>) that the source relies on.
\<close>

unbundle bit_operations_syntax

named_theorems wire_simps \<open>unfolding rules of the wire parsers and printers\<close>
named_theorems wire_length \<open>lengths of printed values\<close>
named_theorems step_defs \<open>definitions of the handlers and transition functions\<close>

section \<open>Bytes and strings\<close>

type_synonym byte = "8 word"
type_synonym bytes = "byte list"
type_synonym uint32 = "32 word"
type_synonym uint64 = "64 word"

text \<open>
  A Go string is an immutable sequence of bytes; it is a HOL \<open>string\<close>, whose characters are
  the bytes. The conversions \<^verbatim>\<open>[]byte(s)\<close> and \<^verbatim>\<open>string(b)\<close> are:
\<close>

definition bytes_of :: "string \<Rightarrow> bytes" where
  "bytes_of s = map of_char s"

definition str_of :: "bytes \<Rightarrow> string" where
  "str_of b = map (\<lambda>w. char_of (unat w)) b"

section \<open>Errors, results and panics\<close>

datatype goarg = AStr string | AInt int | ANil

text \<open>
  \<open>EOF\<close> and \<open>ErrUnexpectedEOF\<close> are the values of package \<^verbatim>\<open>io\<close>; \<open>ErrNew\<close> carries the
  text given to \<^verbatim>\<open>errors.New\<close>; \<open>Errorf\<close> the format and the arguments given to
  \<^verbatim>\<open>fmt.Errorf\<close>; \<open>WrapErr\<close> a format whose argument is an error, which may be nil; \<open>IOErr\<close> is an error that comes out of the network or the file system.
\<close>

datatype goerr = EOF | ErrUnexpectedEOF | ErrNew string | Errorf string "goarg list" | WrapErr string "goerr option" | IOErr nat

datatype 'a res = Ok 'a | Err goerr | Panic string

primrec rbind :: "'a res \<Rightarrow> ('a \<Rightarrow> 'b res) \<Rightarrow> 'b res" where
  "rbind (Ok x) f = f x"
| "rbind (Err e) f = Err e"
| "rbind (Panic p) f = Panic p"

text \<open>A sequence of statements over a state, each of which may return an error or panic.\<close>

type_synonym ('s, 'a) goStep = "'s \<Rightarrow> 's \<times> 'a res"

definition sbind :: "('s, 'a) goStep \<Rightarrow> ('a \<Rightarrow> ('s, 'b) goStep) \<Rightarrow> ('s, 'b) goStep" where
  "sbind m f = (\<lambda>s. case m s of (s, Ok x) \<Rightarrow> f x s | (s, Err e) \<Rightarrow> (s, Err e) | (s, Panic p) \<Rightarrow> (s, Panic p))"

definition sres :: "'a res \<Rightarrow> ('s, 'a) goStep" where
  "sres r = (\<lambda>s. (s, r))"

text \<open>The same, where \<open>None\<close> is a sequence that never returns.\<close>

type_synonym ('s, 'a) goProc = "'s \<Rightarrow> ('s \<times> 'a res) option"

definition hbind :: "('s, 'a) goProc \<Rightarrow> ('a \<Rightarrow> ('s, 'b) goProc) \<Rightarrow> ('s, 'b) goProc" where
  "hbind m f = (\<lambda>t. Option.bind (m t) (\<lambda>(t, r). case r of Ok x \<Rightarrow> f x t | Err e \<Rightarrow> Some (t, Err e) | Panic p \<Rightarrow> Some (t, Panic p)))"

definition hres :: "'a res \<Rightarrow> ('s, 'a) goProc" where
  "hres r = (\<lambda>t. Some (t, r))"

primrec is_ok :: "'a res \<Rightarrow> bool" where
  "is_ok (Ok x) = True"
| "is_ok (Err e) = False"
| "is_ok (Panic p) = False"

primrec panics :: "'a res \<Rightarrow> bool" where
  "panics (Ok x) = False"
| "panics (Err e) = False"
| "panics (Panic p) = True"

text \<open>
  The parsers of the wire format return \<^verbatim>\<open>(value, rest, ok)\<close>. \<open>NotOk\<close> is \<^verbatim>\<open>ok == false\<close>;
  a slice expression out of range makes the Go program panic instead.
\<close>

datatype 'a parsed = NotOk | Parsed 'a bytes | ParsePanic string

primrec or_err :: "'a parsed \<Rightarrow> goerr \<Rightarrow> ('a \<times> bytes) res" where
  "or_err NotOk e = Err e"
| "or_err (Parsed x r) e = Ok (x, r)"
| "or_err (ParsePanic p) e = Panic p"

primrec map_parsed :: "('a \<Rightarrow> 'b) \<Rightarrow> 'a parsed \<Rightarrow> 'b parsed" where
  "map_parsed f NotOk = NotOk"
| "map_parsed f (Parsed x r) = Parsed (f x) r"
| "map_parsed f (ParsePanic p) = ParsePanic p"

text \<open>The slice expression \<^verbatim>\<open>s[lo:hi]\<close>; outside \<open>0 \<le> lo \<le> hi \<le> len(s)\<close> it panics.\<close>

definition slice :: "'a list \<Rightarrow> nat \<Rightarrow> nat \<Rightarrow> 'a list res" where
  "slice s lo hi =
     (if lo \<le> hi \<and> hi \<le> length s then Ok (take (hi - lo) (drop lo s))
      else Panic ''slice bounds out of range'')"

text \<open>The index expression \<^verbatim>\<open>s[i]\<close>.\<close>

definition index :: "'a list \<Rightarrow> nat \<Rightarrow> 'a res" where
  "index s i = (if i < length s then Ok (s ! i) else Panic ''index out of range'')"

section \<open>Big-endian integers\<close>

definition be32 :: "uint32 \<Rightarrow> bytes" where
  "be32 n = [ucast (drop_bit 24 n), ucast (drop_bit 16 n), ucast (drop_bit 8 n), ucast n]"

definition be64 :: "uint64 \<Rightarrow> bytes" where
  "be64 n = [ucast (drop_bit 56 n), ucast (drop_bit 48 n), ucast (drop_bit 40 n),
     ucast (drop_bit 32 n), ucast (drop_bit 24 n), ucast (drop_bit 16 n),
     ucast (drop_bit 8 n), ucast n]"

text \<open>\<^verbatim>\<open>big.Int.SetBytes\<close>, \<^verbatim>\<open>big.Int.Bytes\<close> and \<^verbatim>\<open>big.Int.BitLen\<close> on magnitudes.\<close>

definition be_val :: "bytes \<Rightarrow> nat" where
  "be_val bs = foldl (\<lambda>a b. a * 256 + unat b) 0 bs"

fun be_bytes :: "nat \<Rightarrow> bytes" where
  "be_bytes n = (if n = 0 then [] else be_bytes (n div 256) @ [of_nat (n mod 256)])"

fun bitlen :: "nat \<Rightarrow> nat" where
  "bitlen n = (if n = 0 then 0 else Suc (bitlen (n div 2)))"

declare be_bytes.simps [simp del] bitlen.simps [simp del]

text \<open>\<^verbatim>\<open>binary.BigEndian.Uint32\<close> and \<^verbatim>\<open>Uint64\<close> of the first bytes of a slice.\<close>

definition get32 :: "bytes \<Rightarrow> uint32" where
  "get32 b = of_nat (be_val (take 4 b))"

definition get64 :: "bytes \<Rightarrow> uint64" where
  "get64 b = of_nat (be_val (take 8 b))"

section \<open>Lemmas on bytes and strings\<close>

lemma unat_byte [simp]: "unat (b :: byte) < 256"
  using unsigned_less [of b, where ?'a = nat] by simp

lemma unat_of_nat_lt: "n < 2 ^ LENGTH('a::len) \<Longrightarrow> unat (of_nat n :: 'a word) = n"
  by (simp add: unat_of_nat)

lemma str_of_bytes_of [simp]: "str_of (bytes_of s) = s"
proof -
  have "char_of (unat (of_char c :: byte)) = c" for c :: char
  proof -
    have "unat (of_nat (of_char c) :: byte) = of_char c"
      by (rule unat_of_nat_lt) simp
    then show ?thesis by (simp add: of_nat_of_char)
  qed
  then show ?thesis by (induction s) (simp_all add: str_of_def bytes_of_def)
qed

lemma of_char_char_of_byte [simp]: "(of_char (char_of (unat w)) :: byte) = w"
proof -
  have "(of_char (char_of (unat w)) :: byte) = of_nat (of_char (char_of (unat w)))"
    by (simp only: of_nat_of_char)
  also have "\<dots> = w" by simp
  finally show ?thesis .
qed

lemma bytes_of_str_of [simp]: "bytes_of (str_of b) = b"
  by (induction b) (simp_all add: str_of_def bytes_of_def)

lemma length_bytes_of [simp]: "length (bytes_of s) = length s"
  by (simp add: bytes_of_def)

lemma length_str_of [simp]: "length (str_of b) = length b"
  by (simp add: str_of_def)

lemma bytes_of_append [simp]: "bytes_of (s @ t) = bytes_of s @ bytes_of t"
  by (simp add: bytes_of_def)

lemma str_of_append [simp]: "str_of (s @ t) = str_of s @ str_of t"
  by (simp add: str_of_def)

lemma bytes_of_Nil [simp]: "bytes_of [] = []" and str_of_Nil [simp]: "str_of [] = []"
  by (simp_all add: bytes_of_def str_of_def)

lemma bytes_of_inject [simp]: "bytes_of s = bytes_of t \<longleftrightarrow> s = t"
  by (metis str_of_bytes_of)

lemma str_of_inject [simp]: "str_of s = str_of t \<longleftrightarrow> s = t"
  by (metis bytes_of_str_of)

lemma bytes_of_eq_Nil [simp]: "bytes_of s = [] \<longleftrightarrow> s = []"
  by (simp add: bytes_of_def)

lemma str_of_eq_Nil [simp]: "str_of s = [] \<longleftrightarrow> s = []"
  by (simp add: str_of_def)

section \<open>Lemmas on results\<close>

lemma rbind_eq_Ok [simp]: "rbind r f = Ok y \<longleftrightarrow> (\<exists>x. r = Ok x \<and> f x = Ok y)"
  by (cases r) auto

lemma rbind_cong [fundef_cong]:
  "r = r' \<Longrightarrow> (\<And>x. r' = Ok x \<Longrightarrow> f x = g x) \<Longrightarrow> rbind r f = rbind r' g"
  by (cases r') auto

lemma sbind_cases:
  assumes "sbind m f s = (s', r)"
  obtains (ok) s1 x where "m s = (s1, Ok x)" "f x s1 = (s', r)" | (err) e where "m s = (s', Err e)" "r = Err e"
  | (panic) p where "m s = (s', Panic p)" "r = Panic p"
  using assms by (auto simp: sbind_def split: prod.splits res.splits)

lemma panics_rbind: "panics (rbind r f) \<longleftrightarrow> panics r \<or> (\<exists>x. r = Ok x \<and> panics (f x))"
  by (cases r) auto

lemma or_err_eq_Ok [simp]: "or_err p e = Ok (x, r) \<longleftrightarrow> p = Parsed x r"
  by (cases p) auto

lemma panics_or_err: "panics (or_err p e) \<longleftrightarrow> (\<exists>s. p = ParsePanic s)"
  by (cases p) auto

lemma map_parsed_eq_Parsed [simp]:
  "map_parsed f p = Parsed y r \<longleftrightarrow> (\<exists>x. p = Parsed x r \<and> y = f x)"
  by (cases p) auto

lemma slice_Ok [simp]: "slice s lo hi = Ok x \<longleftrightarrow> lo \<le> hi \<and> hi \<le> length s \<and> x = take (hi - lo) (drop lo s)"
  by (auto simp: slice_def)

lemma index_Ok [simp]: "index s i = Ok x \<longleftrightarrow> i < length s \<and> x = s ! i"
  by (auto simp: index_def)

section \<open>Lemmas on magnitudes\<close>

lemma be_val_Nil [simp]: "be_val [] = 0"
  by (simp add: be_val_def)

lemma be_val_snoc [simp]: "be_val (bs @ [b]) = be_val bs * 256 + unat b"
  by (simp add: be_val_def)

lemma be_val_append: "be_val (xs @ ys) = be_val xs * 256 ^ length ys + be_val ys"
proof (induction ys rule: rev_induct)
  case Nil
  then show ?case by simp
next
  case (snoc y ys)
  then show ?case
    by (simp add: append_assoc [symmetric] algebra_simps del: append_assoc)
qed

lemma be_val_Cons: "be_val (b # bs) = unat b * 256 ^ length bs + be_val bs"
  using be_val_append [of "[b]" bs] by (simp add: be_val_def)

lemma be_val_less: "be_val bs < 256 ^ length bs"
proof (induction bs rule: rev_induct)
  case Nil
  then show ?case by simp
next
  case (snoc b bs)
  have "be_val bs * 256 + unat b < (be_val bs + 1) * 256"
    using unat_byte [of b] by simp
  also have "\<dots> \<le> 256 ^ length bs * 256"
    using snoc by (intro mult_le_mono1) simp
  finally show ?case by (simp add: mult.commute)
qed

lemma be_bytes_0 [simp]: "be_bytes 0 = []"
  by (simp add: be_bytes.simps)

lemma be_bytes_pos: "n > 0 \<Longrightarrow> be_bytes n = be_bytes (n div 256) @ [of_nat (n mod 256)]"
  by (simp add: be_bytes.simps [of n])

lemma be_bytes_eq_Nil [simp]: "be_bytes n = [] \<longleftrightarrow> n = 0"
  by (cases "n = 0") (simp_all add: be_bytes_pos)

lemma unat_of_nat_mod256 [simp]: "unat (of_nat (n mod 256) :: byte) = n mod 256"
  by (rule unat_of_nat_lt) simp

lemma be_val_be_bytes [simp]: "be_val (be_bytes n) = n"
proof (induction n rule: be_bytes.induct)
  case (1 n)
  show ?case
  proof (cases "n = 0")
    case False
    with 1 show ?thesis by (simp add: be_bytes_pos)
  qed simp
qed

lemma hd_be_bytes: "n > 0 \<Longrightarrow> hd (be_bytes n) \<noteq> 0"
proof (induction n rule: be_bytes.induct)
  case (1 n)
  show ?case
  proof (cases "n div 256 = 0")
    case True
    with "1.prems" have "n mod 256 = n" and "n < 256" by (simp_all add: div_eq_0_iff)
    with "1.prems" True have "be_bytes n = [of_nat n]" and "n < 256"
      by (simp_all add: be_bytes_pos)
    with "1.prems" show ?thesis
      by (simp add: word_of_nat_eq_0_iff) (use nat_dvd_not_less in fastforce)
  next
    case False
    with 1 have "hd (be_bytes (n div 256)) \<noteq> 0" by simp
    with False "1.prems" show ?thesis by (simp add: be_bytes_pos [of n])
  qed
qed

lemma be_bytes_be_val: "bs \<noteq> [] \<Longrightarrow> hd bs \<noteq> 0 \<Longrightarrow> be_bytes (be_val bs) = bs"
proof (induction bs rule: rev_induct)
  case Nil
  then show ?case by simp
next
  case (snoc b bs)
  have len: "unat b < 256" by simp
  show ?case
  proof (cases "bs = []")
    case True
    with snoc.prems have "unat b > 0" by (simp add: unat_gt_0)
    with True len show ?thesis by (simp add: be_bytes_pos be_val_def)
  next
    case False
    with snoc have IH: "be_bytes (be_val bs) = bs" by simp
    then have "be_val bs > 0" using False by (metis be_bytes_0 gr0I)
    with IH len show ?thesis by (simp add: be_bytes_pos)
  qed
qed

lemma be_val_drop_zeros: "be_val (replicate k 0 @ bs) = be_val bs"
  by (induction k) (simp_all add: be_val_Cons)

lemma length_be_bytes_le: "length (be_bytes (be_val bs)) \<le> length bs"
proof (cases "be_val bs = 0")
  case False
  define cs where "cs = dropWhile (\<lambda>b. b = 0) bs"
  have split: "bs = takeWhile (\<lambda>b. b = 0) bs @ cs" by (simp add: cs_def)
  have "replicate (length (takeWhile (\<lambda>b. b = 0) bs)) 0 = takeWhile (\<lambda>b. b = 0) bs"
    by (rule replicate_length_same) (auto dest: set_takeWhileD)
  with split have val: "be_val bs = be_val cs" by (metis be_val_drop_zeros)
  with False have "cs \<noteq> []" by auto
  then have "hd cs \<noteq> 0" unfolding cs_def using hd_dropWhile [of "\<lambda>b. b = 0" bs] by simp
  with \<open>cs \<noteq> []\<close> have "be_bytes (be_val cs) = cs" by (simp add: be_bytes_be_val)
  with val split show ?thesis by (metis length_append le_add2)
qed simp

lemma bitlen_0 [simp]: "bitlen 0 = 0"
  by (simp add: bitlen.simps)

lemma bitlen_pos: "n > 0 \<Longrightarrow> bitlen n = Suc (bitlen (n div 2))"
  by (simp add: bitlen.simps [of n])

lemma bitlen_div256: "n \<ge> 256 \<Longrightarrow> bitlen n = 8 + bitlen (n div 256)"
proof -
  assume "n \<ge> 256"
  have two: "m \<ge> 4 \<Longrightarrow> bitlen m = 2 + bitlen (m div 4)" for m
    by (simp add: bitlen_pos [of m] bitlen_pos [of "m div 2"] div_mult2_eq [symmetric])
  have four: "m \<ge> 16 \<Longrightarrow> bitlen m = 4 + bitlen (m div 16)" for m
    by (simp add: two [of m] two [of "m div 4"] div_mult2_eq [symmetric])
  from \<open>n \<ge> 256\<close> show ?thesis
    by (simp add: four [of n] four [of "n div 16"] div_mult2_eq [symmetric])
qed

lemma bitlen_bounds: "n > 0 \<Longrightarrow> 2 ^ (bitlen n - 1) \<le> n \<and> n < 2 ^ bitlen n"
proof (induction n rule: bitlen.induct)
  case (1 n)
  show ?case
  proof (cases "n div 2 = 0")
    case True
    with "1.prems" have "n = 1" by simp
    then show ?thesis by (simp add: bitlen_pos)
  next
    case False
    with 1 have IH: "2 ^ (bitlen (n div 2) - 1) \<le> n div 2 \<and> n div 2 < 2 ^ bitlen (n div 2)"
      by simp
    from False have "bitlen (n div 2) > 0" by (simp add: bitlen_pos)
    then obtain k where k: "bitlen (n div 2) = Suc k" by (cases "bitlen (n div 2)") auto
    from IH k "1.prems" show ?thesis by (simp add: bitlen_pos) arith
  qed
qed

lemma bitlen_unique: "2 ^ k \<le> n \<Longrightarrow> n < 2 ^ Suc k \<Longrightarrow> bitlen n = Suc k"
proof -
  assume lo: "2 ^ k \<le> n" and hi: "n < 2 ^ Suc k"
  then have "n > 0" by (metis gr0I not_le zero_less_numeral zero_less_power)
  then have b: "2 ^ (bitlen n - 1) \<le> n" "n < 2 ^ bitlen n" using bitlen_bounds by auto
  from lo b(2) have "(2::nat) ^ k < 2 ^ bitlen n" by (rule le_less_trans)
  then have "k < bitlen n" by (rule power_less_imp_less_exp [rotated]) simp
  moreover from b(1) hi have "(2::nat) ^ (bitlen n - 1) < 2 ^ Suc k" by (rule le_less_trans)
  then have "bitlen n - 1 < Suc k" by (rule power_less_imp_less_exp [rotated]) simp
  ultimately show ?thesis by simp
qed

lemma bitlen_less_256: "0 < n \<Longrightarrow> n < 256 \<Longrightarrow> 1 \<le> bitlen n \<and> bitlen n \<le> 8"
proof -
  assume n: "0 < n" "n < 256"
  then have "(2::nat) ^ (bitlen n - 1) < 2 ^ 8" using bitlen_bounds [of n] by simp
  then have "bitlen n - 1 < 8" by (rule power_less_imp_less_exp [rotated]) simp
  with n show ?thesis by (simp add: bitlen_pos)
qed

text \<open>The byte length and the top bit of a magnitude, from its bit length.\<close>

lemma length_be_bytes: "length (be_bytes n) = (bitlen n + 7) div 8"
proof (induction n rule: be_bytes.induct)
  case (1 n)
  consider "n = 0" | "0 < n" "n < 256" | "256 \<le> n" by linarith
  then show ?case
  proof cases
    case 2
    then have "be_bytes n = [of_nat n]" by (simp add: be_bytes_pos)
    with bitlen_less_256 [OF 2] show ?thesis by auto
  next
    case 3
    with 1 show ?thesis by (simp add: be_bytes_pos bitlen_div256)
  qed simp
qed

lemma hd_be_bytes_top: "n > 0 \<Longrightarrow> 128 \<le> unat (hd (be_bytes n)) \<longleftrightarrow> bitlen n mod 8 = 0"
proof (induction n rule: be_bytes.induct)
  case (1 n)
  consider "n < 128" | "128 \<le> n" "n < 256" | "256 \<le> n" by linarith
  then show ?case
  proof cases
    case A: 1
    with "1.prems" have b: "be_bytes n = [of_nat n]" by (simp add: be_bytes_pos)
    have "(2::nat) ^ (bitlen n - 1) < 2 ^ 7" using bitlen_bounds [OF "1.prems"] A by simp
    then have "bitlen n - 1 < 7" by (rule power_less_imp_less_exp [rotated]) simp
    with "1.prems" have "1 \<le> bitlen n" "bitlen n \<le> 7" by (simp_all add: bitlen_pos)
    moreover have "unat (of_nat n :: byte) = n" using A by (intro unat_of_nat_lt) simp
    ultimately show ?thesis using b A by simp
  next
    case 2
    with "1.prems" have b: "be_bytes n = [of_nat n]" by (simp add: be_bytes_pos)
    have "bitlen n = Suc 7" by (rule bitlen_unique) (use 2 in simp_all)
    moreover have "unat (of_nat n :: byte) = n" using 2 by (intro unat_of_nat_lt) simp
    ultimately show ?thesis using b 2 by simp
  next
    case 3
    with 1 have "128 \<le> unat (hd (be_bytes (n div 256))) \<longleftrightarrow> bitlen (n div 256) mod 8 = 0"
      by simp
    with 3 show ?thesis by (simp add: be_bytes_pos [of n] bitlen_div256)
  qed
qed

lemma bit7_iff: "bit (b :: byte) 7 \<longleftrightarrow> 128 \<le> unat b"
proof -
  have "bit b 7 \<longleftrightarrow> bit (unat b) 7" by (simp add: bit_unsigned_iff)
  also have "\<dots> \<longleftrightarrow> odd (unat b div 2 ^ 7)" by (simp add: bit_iff_odd)
  also have "\<dots> \<longleftrightarrow> 128 \<le> unat b"
  proof (cases "128 \<le> unat b")
    case True
    then have "unat b div 128 = 1" using unat_byte [of b] by (intro div_nat_eqI) simp_all
    with True show ?thesis by simp
  qed simp
  finally show ?thesis .
qed

lemma and_exp_eq_exp: "k < LENGTH('a::len) \<Longrightarrow> (w :: 'a word) AND 2 ^ k = 2 ^ k \<longleftrightarrow> bit w k"
proof -
  assume k: "k < LENGTH('a)"
  have "bit w k" if "w AND 2 ^ k = 2 ^ k"
  proof -
    from that k have "bit (w AND 2 ^ k) k" by (simp add: bit_exp_iff)
    then show ?thesis by (simp add: bit_and_iff)
  qed
  moreover have "w AND 2 ^ k = 2 ^ k" if "bit w k"
    using that by (intro bit_word_eqI) (auto simp: bit_and_iff bit_exp_iff)
  ultimately show ?thesis by blast
qed

lemma and_exp_eq_0: "k < LENGTH('a::len) \<Longrightarrow> (w :: 'a word) AND 2 ^ k = 0 \<longleftrightarrow> \<not> bit w k"
proof -
  assume k: "k < LENGTH('a)"
  have "\<not> bit w k" if "w AND 2 ^ k = 0"
  proof -
    from that have "\<not> bit (w AND 2 ^ k) k" by simp
    with k show ?thesis by (simp add: bit_and_iff bit_exp_iff)
  qed
  moreover have "w AND 2 ^ k = 0" if "\<not> bit w k"
    using that by (intro bit_word_eqI) (auto simp: bit_and_iff bit_exp_iff)
  ultimately show ?thesis by blast
qed

lemma top_bit_iff: "(b :: byte) AND 0x80 = 0x80 \<longleftrightarrow> 128 \<le> unat b"
  using and_exp_eq_exp [of 7 b] bit7_iff [of b] by simp

lemma top_bit_0_iff: "(b :: byte) AND 0x80 = 0 \<longleftrightarrow> unat b < 128"
  using and_exp_eq_0 [of 7 b] bit7_iff [of b] by auto

section \<open>Decimal numbers\<close>

text \<open>The digits of a number as \<^verbatim>\<open>fmt\<close> and \<^verbatim>\<open>strconv.Itoa\<close> print it.\<close>

fun showNat :: "nat \<Rightarrow> string" where
  "showNat n = (if n < 10 then [char_of (48 + n)] else showNat (n div 10) @ [char_of (48 + n mod 10)])"

declare showNat.simps [simp del]

end
