(* ===== verification/Wire.thy ===== *)
theory Wire
  imports Go_Prelude
begin

text \<open>
  The primitive parsers and printers of the SSH wire format: \<^verbatim>\<open>ssh/messages.go\<close> (from
  \<open>parseString\<close> to \<open>marshalString\<close>) and the append helpers of \<^verbatim>\<open>ssh/common.go\<close>.
  The contract they share is the locale \<open>wire_codec\<close>: what is printed parses back, and
  whatever parses is printed in at most as many bytes.
\<close>

section \<open>Parsers\<close>

definition parseString :: "bytes \<Rightarrow> bytes parsed" where
  "parseString inp =
     (if length inp < 4 then NotOk
      else let len = get32 inp in
        if (of_nat (length inp) :: uint32) < 4 + len then NotOk
        else case slice inp 4 (unat (4 + len)) of
            Ok out \<Rightarrow> (case slice inp (unat (4 + len)) (length inp) of
                Ok rest \<Rightarrow> Parsed out rest
              | _ \<Rightarrow> ParsePanic ''slice bounds out of range'')
          | _ \<Rightarrow> ParsePanic ''slice bounds out of range'')"

text \<open>\<^verbatim>\<open>bytes.Split\<close> with a one-byte separator.\<close>

fun split_on :: "byte \<Rightarrow> bytes \<Rightarrow> bytes list" where
  "split_on c [] = [[]]"
| "split_on c (x # xs) =
     (if x = c then [] # split_on c xs
      else case split_on c xs of [] \<Rightarrow> [[x]] | y # ys \<Rightarrow> (x # y) # ys)"

definition comma :: byte where
  "comma = 0x2c"

definition parseNameList :: "bytes \<Rightarrow> string list parsed" where
  "parseNameList inp = map_parsed
     (\<lambda>contents. if length contents = 0 then [] else map str_of (split_on comma contents))
     (parseString inp)"

definition parseIntContents :: "bytes \<Rightarrow> int" where
  "parseIntContents contents =
     (if length contents > 0 \<and> hd contents AND 0x80 = 0x80
      then - (int (be_val (map (\<lambda>b. NOT b) contents)) + 1)
      else int (be_val contents))"

definition parseInt :: "bytes \<Rightarrow> int parsed" where
  "parseInt inp = map_parsed parseIntContents (parseString inp)"

definition parseUint32 :: "bytes \<Rightarrow> uint32 parsed" where
  "parseUint32 inp = (if length inp < 4 then NotOk else Parsed (get32 inp) (drop 4 inp))"

definition parseUint64 :: "bytes \<Rightarrow> uint64 parsed" where
  "parseUint64 inp = (if length inp < 8 then NotOk else Parsed (get64 inp) (drop 8 inp))"

section \<open>Printers\<close>

definition BitLen :: "int \<Rightarrow> nat" where
  "BitLen n = bitlen (nat \<bar>n\<bar>)"

definition intLength :: "int \<Rightarrow> nat" where
  "intLength n =
     (if n < 0 then
        let bitLen = BitLen (- n - 1)
        in 4 + (if bitLen mod 8 = 0 then 1 else 0) + (bitLen + 7) div 8
      else if n = 0 then 4
      else
        let bitLen = BitLen n
        in 4 + (if bitLen mod 8 = 0 then 1 else 0) + (bitLen + 7) div 8)"

text \<open>
  \<^verbatim>\<open>marshalInt(to, n)\<close> fills the front of \<^verbatim>\<open>to\<close> and returns the rest of it, a slice of the
  same array. The model returns both: the bytes written in front, and the rest. The padding
  byte and the magnitude go to \<^verbatim>\<open>to[4:]\<close> as far as they fit (\<^verbatim>\<open>copy\<close> stops at the end).
\<close>

definition marshalIntBytes :: "int \<Rightarrow> bytes" where
  "marshalIntBytes n =
     (if n < 0 then
        let b = map (\<lambda>x. x XOR 0xff) (be_bytes (nat (- n - 1)))
        in if length b = 0 \<or> hd b AND 0x80 = 0 then 0xff # b else b
      else if n = 0 then []
      else
        let b = be_bytes (nat n)
        in if length b > 0 \<and> hd b AND 0x80 \<noteq> 0 then 0 # b else b)"

definition marshalIntPads :: "int \<Rightarrow> bool" where
  "marshalIntPads n =
     (if n < 0 then
        let b = map (\<lambda>x. x XOR 0xff) (be_bytes (nat (- n - 1)))
        in length b = 0 \<or> hd b AND 0x80 = 0
      else if n = 0 then False
      else let b = be_bytes (nat n) in length b > 0 \<and> hd b AND 0x80 \<noteq> 0)"

definition marshalInt :: "bytes \<Rightarrow> int \<Rightarrow> (bytes \<times> bytes) res" where
  "marshalInt to n =
     (if length to < 4 then Panic ''slice bounds out of range''
      else if marshalIntPads n \<and> length to = 4 then Panic ''index out of range''
      else let m = min (length to - 4) (length (marshalIntBytes n))
        in Ok (be32 (of_nat m) @ take m (marshalIntBytes n), drop (4 + m) to))"

definition appendU16 :: "bytes \<Rightarrow> 16 word \<Rightarrow> bytes" where
  "appendU16 buf n = buf @ [ucast (drop_bit 8 n), ucast n]"

definition appendU32 :: "bytes \<Rightarrow> uint32 \<Rightarrow> bytes" where
  "appendU32 buf n = buf @ be32 n"

definition appendU64 :: "bytes \<Rightarrow> uint64 \<Rightarrow> bytes" where
  "appendU64 buf n = buf @ be64 n"

definition appendInt :: "bytes \<Rightarrow> nat \<Rightarrow> bytes" where
  "appendInt buf n = appendU32 buf (of_nat n)"

definition appendString :: "bytes \<Rightarrow> string \<Rightarrow> bytes" where
  "appendString buf s = appendU32 buf (of_nat (length s)) @ bytes_of s"

definition appendBool :: "bytes \<Rightarrow> bool \<Rightarrow> bytes" where
  "appendBool buf b = (if b then buf @ [1] else buf @ [0])"

definition marshalUint32 :: "bytes \<Rightarrow> uint32 \<Rightarrow> (bytes \<times> bytes) res" where
  "marshalUint32 to n =
     (if length to < 4 then Panic ''index out of range'' else Ok (be32 n, drop 4 to))"

definition marshalUint64 :: "bytes \<Rightarrow> uint64 \<Rightarrow> (bytes \<times> bytes) res" where
  "marshalUint64 to n =
     (if length to < 8 then Panic ''index out of range'' else Ok (be64 n, drop 8 to))"

definition stringLength :: "nat \<Rightarrow> nat" where
  "stringLength n = 4 + n"

definition marshalString :: "bytes \<Rightarrow> bytes \<Rightarrow> (bytes \<times> bytes) res" where
  "marshalString to s =
     (if length to < 4 then Panic ''index out of range''
      else if length to - 4 < length s then Panic ''slice bounds out of range''
      else Ok (be32 (of_nat (length s)) @ s, drop (4 + length s) to))"

text \<open>\<^verbatim>\<open>io.Writer\<close> arguments are the bytes written so far.\<close>

definition writeString :: "bytes \<Rightarrow> bytes \<Rightarrow> bytes" where
  "writeString w s = w @ be32 (of_nat (length s)) @ s"

definition writeInt :: "bytes \<Rightarrow> int \<Rightarrow> bytes res" where
  "writeInt w n = rbind (marshalInt (replicate (intLength n) 0) n) (\<lambda>(buf, _). Ok (w @ buf))"

text \<open>The comma-separated contents of a name list.\<close>

fun joinNames :: "string list \<Rightarrow> bytes" where
  "joinNames [] = []"
| "joinNames [s] = bytes_of s"
| "joinNames (s # t # ss) = bytes_of s @ comma # joinNames (t # ss)"

section \<open>Fixed-width integers\<close>

fun be_fixed :: "nat \<Rightarrow> nat \<Rightarrow> bytes" where
  "be_fixed 0 n = []"
| "be_fixed (Suc k) n = be_fixed k (n div 256) @ [of_nat (n mod 256)]"

lemma length_be_fixed [simp]: "length (be_fixed k n) = k"
  by (induction k arbitrary: n) simp_all

lemma be_val_be_fixed: "be_val (be_fixed k n) = n mod 256 ^ k"
proof (induction k arbitrary: n)
  case (Suc k)
  then show ?case by (simp add: mod_mult2_eq)
qed simp

lemma be_fixed_be_val: "be_fixed (length bs) (be_val bs) = bs"
proof (induction bs rule: rev_induct)
  case (snoc b bs)
  then show ?case by simp
qed simp

lemma unat_drop_bit_div: "unat (drop_bit k (w :: 'a::len word)) = unat w div 2 ^ k"
  by (simp only: unat_drop_bit_eq) (simp add: drop_bit_eq_div)

lemma ucast_low_byte: "(ucast (w :: 'a::len word) :: byte) = of_nat (unat w mod 256)"
proof -
  have "unat (ucast w :: byte) = unat w mod 256" by (simp add: unsigned_ucast_eq take_bit_eq_mod)
  then have "of_nat (unat (ucast w :: byte)) = (of_nat (unat w mod 256) :: byte)" by simp
  then show ?thesis by simp
qed

lemma be_fixed_numeral:
  "be_fixed (numeral k) n = be_fixed (pred_numeral k) (n div 256) @ [of_nat (n mod 256)]"
  by (subst numeral_eq_Suc) simp

lemma be32_fixed: "be32 w = be_fixed 4 (unat w)"
  by (simp add: be32_def ucast_low_byte unat_drop_bit_div be_fixed_numeral div_mult2_eq [symmetric])

lemma be64_fixed: "be64 w = be_fixed 8 (unat w)"
  by (simp add: be64_def ucast_low_byte unat_drop_bit_div be_fixed_numeral div_mult2_eq [symmetric])

lemma length_be32 [simp]: "length (be32 w) = 4"
  by (simp add: be32_def)

lemma length_be64 [simp]: "length (be64 w) = 8"
  by (simp add: be64_def)

lemma be_val_be32 [simp]: "be_val (be32 w) = unat w"
  using unsigned_less [of w, where ?'a = nat] by (simp add: be32_fixed be_val_be_fixed)

lemma be_val_be64 [simp]: "be_val (be64 w) = unat w"
  using unsigned_less [of w, where ?'a = nat] by (simp add: be64_fixed be_val_be_fixed)

lemma get32_be32 [simp]: "get32 (be32 w @ r) = w"
  by (simp add: get32_def)

lemma get64_be64 [simp]: "get64 (be64 w @ r) = w"
  by (simp add: get64_def)

lemma unat_get32: "unat (get32 b) = be_val (take 4 b)"
proof -
  have "be_val (take 4 b) < 256 ^ length (take 4 b)" by (rule be_val_less)
  also have "\<dots> \<le> 256 ^ 4" by (rule power_increasing) simp_all
  finally show ?thesis by (simp add: get32_def unat_of_nat)
qed

lemma be32_get32: "4 \<le> length b \<Longrightarrow> be32 (get32 b) = take 4 b"
  using be_fixed_be_val [of "take 4 b"] by (simp add: be32_fixed unat_get32)

lemma unat_get64: "unat (get64 b) = be_val (take 8 b)"
proof -
  have "be_val (take 8 b) < 256 ^ length (take 8 b)" by (rule be_val_less)
  also have "\<dots> \<le> 256 ^ 8" by (rule power_increasing) simp_all
  finally show ?thesis by (simp add: get64_def unat_of_nat)
qed

lemma be64_get64: "8 \<le> length b \<Longrightarrow> be64 (get64 b) = take 8 b"
  using be_fixed_be_val [of "take 8 b"] by (simp add: be64_fixed unat_get64)

section \<open>Length-prefixed strings\<close>

text \<open>The bytes a string is printed as, everywhere in the source.\<close>

definition encString :: "bytes \<Rightarrow> bytes" where
  "encString s = be32 (of_nat (length s)) @ s"

lemma unat_4_plus: "unat (4 + len :: uint32) = (if unat len < 2 ^ 32 - 4 then 4 + unat len else 4 + unat len - 2 ^ 32)"
proof -
  have "unat len < 2 ^ 32" using unsigned_less [of len, where ?'a = nat] by simp
  then show ?thesis by (auto simp: unat_word_ariths le_mod_geq)
qed

lemma parseString_ParsedD:
  assumes "parseString inp = Parsed out rest"
  shows "inp = take 4 inp @ out @ rest" and "4 \<le> length inp" and "unat (get32 inp) = length out"
    and "length inp = 4 + length out + length rest"
proof -
  from assms have len: "4 \<le> length inp"
    and b: "4 \<le> unat (4 + get32 inp)" "unat (4 + get32 inp) \<le> length inp"
    and o: "out = take (unat (4 + get32 inp) - 4) (drop 4 inp)"
    and r: "rest = drop (unat (4 + get32 inp)) inp"
    by (auto simp: parseString_def Let_def slice_def split: if_splits res.splits)
  from b(1) have u: "unat (4 + get32 inp) = 4 + unat (get32 inp)"
    using unsigned_less [of "get32 inp", where ?'a = nat] by (simp add: unat_4_plus split: if_splits)
  show "4 \<le> length inp" by (fact len)
  show lo: "unat (get32 inp) = length out" using b o u by simp
  have "drop 4 inp = out @ rest"
    unfolding o r u by (metis add.commute append_take_drop_id diff_add_inverse drop_drop)
  then show "inp = take 4 inp @ out @ rest" by (metis append_take_drop_id)
  show "length inp = 4 + length out + length rest"
    using b lo u by (simp add: r)
qed

lemma parseString_encString:
  assumes "length (encString s @ rest) < 2 ^ 32"
  shows "parseString (encString s @ rest) = Parsed s rest"
proof -
  let ?inp = "encString s @ rest"
  from assms have l: "length s < 2 ^ 32 - 4" "length ?inp < 2 ^ 32" by (simp_all add: encString_def)
  then have "get32 ?inp = of_nat (length s)" by (simp add: encString_def)
  moreover have u: "unat (of_nat (length s) :: uint32) = length s"
    using l by (intro unat_of_nat_lt) simp
  ultimately have u4: "unat (4 + get32 ?inp) = 4 + length s" using l by (simp add: unat_4_plus)
  have li: "unat (of_nat (length ?inp) :: uint32) = length ?inp"
    using l by (intro unat_of_nat_lt) simp
  have "\<not> (of_nat (length ?inp) :: uint32) < 4 + get32 ?inp"
    using l unfolding word_less_nat_alt li u4 by (simp add: encString_def)
  then show ?thesis
    unfolding parseString_def Let_def u4 by (simp add: slice_def encString_def)
qed

lemma parseString_rest_less: "parseString inp = Parsed out rest \<Longrightarrow> length rest < length inp"
  using parseString_ParsedD(4) by fastforce

text \<open>
  The bound check of \<open>parseString\<close> adds 4 to a 32-bit length: for the four largest lengths
  the sum wraps to less than 4, the check passes, and the slice expression panics.
\<close>

lemma parseString_panics_iff:
  "(\<exists>m. parseString inp = ParsePanic m) \<longleftrightarrow> 4 \<le> length inp \<and> 2 ^ 32 - 4 \<le> unat (get32 inp)
     \<and> unat (get32 inp) - (2 ^ 32 - 4) \<le> unat (of_nat (length inp) :: uint32)"
proof -
  have g: "unat (get32 inp) < 2 ^ 32" using unsigned_less [of "get32 inp", where ?'a = nat] by simp
  have le: "unat (of_nat (length inp) :: uint32) \<le> length inp" by (simp add: unat_of_nat)
  show ?thesis
    using g le
    by (auto simp: parseString_def Let_def slice_def word_less_nat_alt unat_4_plus split: if_splits res.splits)
qed

section \<open>The contract of the parsers and printers\<close>

locale wire_codec =
  fixes enc :: "'a \<Rightarrow> bytes" and dec :: "bytes \<Rightarrow> 'a parsed" and wf :: "'a \<Rightarrow> bool"
  assumes dec_enc: "wf x \<Longrightarrow> length (enc x @ rest) < 2 ^ 32 \<Longrightarrow> dec (enc x @ rest) = Parsed x rest"
    and dec_wf: "dec inp = Parsed x rest \<Longrightarrow> wf x"
    and dec_length: "dec inp = Parsed x rest \<Longrightarrow> length (enc x @ rest) \<le> length inp"
    and dec_progress: "dec inp = Parsed x rest \<Longrightarrow> length rest < length inp"
    and enc_nonempty: "enc x \<noteq> []"
begin

text \<open>Printing what was parsed and parsing it again gives the same value and rest.\<close>

lemma reencode:
  "dec inp = Parsed x rest \<Longrightarrow> length inp < 2 ^ 32 \<Longrightarrow> dec (enc x @ rest) = Parsed x rest"
  by (rule dec_enc) (auto dest: dec_wf dec_length)

text \<open>Printed values are self-delimiting: no printed value is a proper prefix of another.\<close>

lemma enc_prefix_free:
  assumes "wf x" "wf y" "enc x @ r = enc y @ s" "length (enc x @ r) < 2 ^ 32"
  shows "x = y \<and> r = s"
proof -
  have "dec (enc x @ r) = Parsed x r" by (rule dec_enc [OF assms(1,4)])
  moreover have "dec (enc y @ s) = Parsed y s"
    by (rule dec_enc [OF assms(2)]) (simp only: assms(3) [symmetric] assms(4))
  ultimately have "Parsed x r = Parsed y s" by (simp only: assms(3))
  then show ?thesis by simp
qed

lemma enc_inj: "wf x \<Longrightarrow> wf y \<Longrightarrow> length (enc x) < 2 ^ 32 \<Longrightarrow> enc x = enc y \<Longrightarrow> x = y"
  using enc_prefix_free [of x y "[]" "[]"] by simp

end

section \<open>Integers of arbitrary precision\<close>

lemma byte_XOR_NOT [simp]: "(b :: byte) XOR 0xff = NOT b"
proof -
  have "(0xff :: byte) = - 1" by simp
  then show ?thesis by (simp only: word_log_esimps(6))
qed

lemma top_NOT: "128 \<le> unat (NOT b :: byte) \<longleftrightarrow> unat b < 128"
  using bit7_iff [of b] bit7_iff [of "NOT b"] by (auto simp: bit_not_iff)

lemma top_NOT_less: "unat (NOT b :: byte) < 128 \<longleftrightarrow> 128 \<le> unat b"
  using top_NOT [of b] by linarith

lemmas top_simps = top_bit_iff top_bit_0_iff top_NOT top_NOT_less not_less not_le

lemma NOT_comp_NOT [simp]: "NOT \<circ> NOT = (id :: byte \<Rightarrow> byte)"
  by (rule ext) simp

lemma be_bytes_eq_of_length:
  assumes "length (be_bytes (be_val bs)) = length bs"
  shows "be_bytes (be_val bs) = bs"
  using be_fixed_be_val [of bs] be_fixed_be_val [of "be_bytes (be_val bs)"] assms by simp

definition encInt :: "int \<Rightarrow> bytes" where
  "encInt n = encString (marshalIntBytes n)"

lemma parseIntContents_marshal: "parseIntContents (marshalIntBytes n) = n"
proof -
  consider "n < 0" | "n = 0" | "n > 0" by linarith
  then show ?thesis
  proof cases
    case 1
    define b where "b = be_bytes (nat (- n - 1))"
    have v: "be_val b = nat (- n - 1)" by (simp add: b_def)
    have "marshalIntBytes n = (if b = [] \<or> 128 \<le> unat (hd b) then 0xff # map (\<lambda>x. NOT x) b else map (\<lambda>x. NOT x) b)"
      using 1 by (cases b) (simp_all add: marshalIntBytes_def Let_def b_def [symmetric] top_simps)
    moreover have "parseIntContents (0xff # map (\<lambda>x. NOT x) b) = n"
      using 1 v by (simp add: parseIntContents_def top_simps be_val_Cons)
    moreover have "parseIntContents (map (\<lambda>x. NOT x) b) = n" if "b \<noteq> []" "unat (hd b) < 128"
      using 1 v that by (cases b) (simp_all add: parseIntContents_def top_simps)
    ultimately show ?thesis by (auto simp: not_le)
  next
    case 2
    then show ?thesis by (simp add: parseIntContents_def marshalIntBytes_def)
  next
    case 3
    define b where "b = be_bytes (nat n)"
    have v: "be_val b = nat n" by (simp add: b_def)
    have b: "b \<noteq> []" using 3 by (simp add: b_def)
    then have "marshalIntBytes n = (if 128 \<le> unat (hd b) then 0 # b else b)"
      using 3 by (simp add: marshalIntBytes_def Let_def b_def [symmetric] top_simps)
    moreover have "parseIntContents (0 # b) = n"
      using 3 v by (simp add: parseIntContents_def be_val_Cons)
    moreover have "parseIntContents b = n" if "unat (hd b) < 128"
      using 3 v that by (simp add: parseIntContents_def top_simps)
    ultimately show ?thesis by (auto simp: not_le)
  qed
qed

lemma length_marshalIntBytes_parse: "length (marshalIntBytes (parseIntContents c)) \<le> length c"
proof (cases "c \<noteq> [] \<and> 128 \<le> unat (hd c)")
  case True
  define d where "d = map (\<lambda>b. NOT b) c"
  define b where "b = be_bytes (be_val d)"
  have n: "parseIntContents c = - (int (be_val d) + 1)"
    using True by (simp add: parseIntContents_def d_def top_simps)
  have d: "d \<noteq> []" "unat (hd d) < 128" "length d = length c"
    using True by (cases c; simp add: d_def top_simps)+
  have lb: "length b \<le> length d" unfolding b_def by (rule length_be_bytes_le)
  have "length b < length d" if "b \<noteq> []" "128 \<le> unat (hd b)"
  proof (rule ccontr)
    assume "\<not> length b < length d"
    with lb have "b = d" unfolding b_def by (intro be_bytes_eq_of_length) simp
    with that d show False by simp
  qed
  moreover have "marshalIntBytes (parseIntContents c) =
      (if b = [] \<or> 128 \<le> unat (hd b) then 0xff # map (\<lambda>x. NOT x) b else map (\<lambda>x. NOT x) b)"
    unfolding n by (cases b) (simp_all add: marshalIntBytes_def Let_def b_def [symmetric] top_simps)
  ultimately show ?thesis using lb d by (cases b) (auto simp: Suc_le_eq)
next
  case False
  define b where "b = be_bytes (be_val c)"
  have n: "parseIntContents c = int (be_val c)"
    using False by (auto simp: parseIntContents_def top_simps)
  have lb: "length b \<le> length c" unfolding b_def by (rule length_be_bytes_le)
  have "length b < length c" if "b \<noteq> []" "128 \<le> unat (hd b)"
  proof (rule ccontr)
    assume "\<not> length b < length c"
    with lb have "b = c" unfolding b_def by (intro be_bytes_eq_of_length) simp
    with that False show False by simp
  qed
  moreover have "marshalIntBytes (parseIntContents c) = (if b \<noteq> [] \<and> 128 \<le> unat (hd b) then 0 # b else b)"
    unfolding n by (auto simp: marshalIntBytes_def Let_def b_def top_simps)
  ultimately show ?thesis using lb by auto
qed

text \<open>\<open>intLength\<close> is exactly the space that \<open>marshalInt\<close> needs, so the buffers the source allocates fit.\<close>

lemma intLength_eq: "intLength n = 4 + length (marshalIntBytes n)"
proof -
  have pad: "bitlen m mod 8 = 0 \<longleftrightarrow> m = 0 \<or> 128 \<le> unat (hd (be_bytes m))" for m
    using hd_be_bytes_top [of m] by (cases "m = 0") auto
  have hd_map: "m > 0 \<Longrightarrow> hd (map (\<lambda>x. NOT x) (be_bytes m)) = NOT (hd (be_bytes m))" for m
    by (cases "be_bytes m") auto
  show ?thesis
    by (auto simp: intLength_def marshalIntBytes_def Let_def BitLen_def pad top_simps hd_map
        length_be_bytes [symmetric] nat_minus_as_int)
qed

lemma marshalIntPads_length: "marshalIntPads n \<Longrightarrow> 0 < length (marshalIntBytes n)"
  by (auto simp: marshalIntPads_def marshalIntBytes_def Let_def split: if_splits)

lemma marshalInt_fits:
  assumes "length to = intLength n + k"
  shows "marshalInt to n = Ok (encInt n, drop (intLength n) to)"
proof -
  have m: "min (length to - 4) (length (marshalIntBytes n)) = length (marshalIntBytes n)"
    using assms by (simp add: intLength_eq)
  have "\<not> (marshalIntPads n \<and> length to = 4)"
    using assms marshalIntPads_length [of n] by (auto simp: intLength_eq)
  with assms show ?thesis
    by (simp add: marshalInt_def m Let_def encInt_def encString_def intLength_eq)
qed

lemma writeInt_eq: "writeInt w n = Ok (w @ encInt n)"
  using marshalInt_fits [of "replicate (intLength n) 0" n 0] by (simp add: writeInt_def)

section \<open>Name lists\<close>

definition encNames :: "string list \<Rightarrow> bytes" where
  "encNames ns = encString (joinNames ns)"

definition wf_names :: "string list \<Rightarrow> bool" where
  "wf_names ns \<longleftrightarrow> (\<forall>n \<in> set ns. comma \<notin> set (bytes_of n)) \<and> ns \<noteq> [[]]"

lemma split_on_nonempty [simp]: "split_on c bs \<noteq> []"
  by (induction bs) (auto split: list.splits)

lemma split_on_append_comma:
  "c \<notin> set xs \<Longrightarrow> split_on c (xs @ c # ys) = xs # split_on c ys"
  by (induction xs) auto

lemma split_on_no_sep: "c \<notin> set xs \<Longrightarrow> split_on c xs = [xs]"
  by (induction xs) auto

lemma split_on_no_comma: "p \<in> set (split_on c bs) \<Longrightarrow> c \<notin> set p"
  by (induction bs arbitrary: p) (auto split: list.splits if_splits)

lemma split_joinNames:
  "ns \<noteq> [] \<Longrightarrow> \<forall>n \<in> set ns. comma \<notin> set (bytes_of n) \<Longrightarrow> split_on comma (joinNames ns) = map bytes_of ns"
  by (induction ns rule: joinNames.induct) (auto simp: split_on_append_comma split_on_no_sep)

lemma joinNames_eq_Nil: "joinNames ns = [] \<longleftrightarrow> ns = [] \<or> ns = [[]]"
  by (cases ns rule: joinNames.cases) auto

lemma joinNames_Cons_byte:
  "joinNames (str_of (x # y) # ys) = x # joinNames (str_of y # ys)"
  by (cases ys) (simp_all flip: str_of_append add: bytes_of_def str_of_def)

lemma joinNames_split: "joinNames (map str_of (split_on comma bs)) = bs"
proof (induction bs)
  case (Cons x xs)
  obtain y ys where s: "split_on comma xs = y # ys" by (cases "split_on comma xs") auto
  with Cons show ?case by (auto simp: joinNames_Cons_byte)
qed simp

section \<open>The parsers and printers meet the contract\<close>

interpretation u32: wire_codec be32 parseUint32 "\<lambda>_. True"
proof unfold_locales
  fix inp x rest assume "parseUint32 inp = Parsed x rest"
  then have "length inp \<ge> 4" "rest = drop 4 inp" by (auto simp: parseUint32_def split: if_splits)
  then show "length (be32 x @ rest) \<le> length inp" "length rest < length inp" by auto
next
  fix x show "be32 x \<noteq> []" by (simp add: be32_def)
qed (simp_all add: parseUint32_def)

interpretation u64: wire_codec be64 parseUint64 "\<lambda>_. True"
proof unfold_locales
  fix inp x rest assume "parseUint64 inp = Parsed x rest"
  then have "length inp \<ge> 8" "rest = drop 8 inp" by (auto simp: parseUint64_def split: if_splits)
  then show "length (be64 x @ rest) \<le> length inp" "length rest < length inp" by auto
next
  fix x show "be64 x \<noteq> []" by (simp add: be64_def)
qed (simp_all add: parseUint64_def)

interpretation wstr: wire_codec encString parseString "\<lambda>_. True"
proof unfold_locales
  fix inp x rest assume p: "parseString inp = Parsed x rest"
  then show "length (encString x @ rest) \<le> length inp"
    by (simp add: encString_def parseString_ParsedD(4))
  from p show "length rest < length inp" by (rule parseString_rest_less)
next
  fix x show "encString x \<noteq> []" by (simp add: encString_def be32_def)
qed (simp_all only: parseString_encString)

interpretation mpint: wire_codec encInt parseInt "\<lambda>_. True"
proof unfold_locales
  fix x rest assume "length (encInt x @ rest) < 2 ^ 32"
  then show "parseInt (encInt x @ rest) = Parsed x rest"
    by (simp add: parseInt_def encInt_def parseString_encString parseIntContents_marshal)
next
  fix inp x rest assume "parseInt inp = Parsed x rest"
  then obtain c where c: "parseString inp = Parsed c rest" and x: "x = parseIntContents c"
    by (auto simp: parseInt_def)
  from length_marshalIntBytes_parse [of c] show "length (encInt x @ rest) \<le> length inp"
    by (simp add: encInt_def encString_def x parseString_ParsedD(4) [OF c])
  from c show "length rest < length inp" by (rule parseString_rest_less)
next
  fix x show "encInt x \<noteq> []" by (simp add: encInt_def encString_def be32_def)
qed simp_all

interpretation names: wire_codec encNames parseNameList wf_names
proof unfold_locales
  fix ns rest assume wf: "wf_names ns" and len: "length (encNames ns @ rest) < 2 ^ 32"
  then have p: "parseString (encNames ns @ rest) = Parsed (joinNames ns) rest"
    by (simp add: encNames_def parseString_encString)
  show "parseNameList (encNames ns @ rest) = Parsed ns rest"
  proof (cases "ns = []")
    case False
    with wf have "split_on comma (joinNames ns) = map bytes_of ns" "joinNames ns \<noteq> []"
      by (auto simp: wf_names_def split_joinNames joinNames_eq_Nil)
    with p show ?thesis by (simp add: parseNameList_def comp_def)
  qed (use p in \<open>simp add: parseNameList_def\<close>)
next
  fix inp ns rest assume "parseNameList inp = Parsed ns rest"
  then obtain c where c: "parseString inp = Parsed c rest"
    and ns: "ns = (if c = [] then [] else map str_of (split_on comma c))"
    by (auto simp: parseNameList_def)
  have "map str_of (split_on comma c) \<noteq> [[]]" if "c \<noteq> []"
    using joinNames_split [of c] that by auto
  then show "wf_names ns"
    by (auto simp: wf_names_def ns dest: split_on_no_comma)
  have "joinNames ns = c" by (simp add: ns joinNames_split)
  then show "length (encNames ns @ rest) \<le> length inp"
    by (simp add: encNames_def encString_def parseString_ParsedD(4) [OF c])
  from c show "length rest < length inp" by (rule parseString_rest_less)
next
  fix x show "encNames x \<noteq> []" by (simp add: encNames_def encString_def be32_def)
qed

end
