(* ===== verification/Messages.thy ===== *)
theory Messages
  imports Wire
begin

text \<open>
  The reflective encoder of \<^verbatim>\<open>ssh/messages.go\<close>: a Go struct type is a name, the \<^verbatim>\<open>sshtype\<close> tag of
  its first field and the kinds of its fields; \<open>Unmarshal\<close> and \<open>Marshal\<close> walk over them as the
  source does, with the unsupported kinds as error or panic branches. The message structs of the
  protocol and \<open>decode\<close> follow.
\<close>

section \<open>Struct types and values\<close>

text \<open>
  The kinds the source distinguishes. \<open>KRest\<close> is \<^verbatim>\<open>[]byte\<close> with the tag \<^verbatim>\<open>ssh:"rest"\<close>; the
  \<open>\<dots>Other\<close> kinds are arrays, slices and pointers of other types; \<open>KOther\<close> is every other kind.
\<close>

datatype fkind = KBool | KArray nat | KArrayOther | KUint64 | KUint32 | KUint8 | KString
  | KBytes | KRest | KStrings | KSliceOther | KBigInt | KPtrOther | KOther

datatype fval = VBool bool | VArray bytes | VUint64 uint64 | VUint32 uint32 | VUint8 byte
  | VString string | VBytes bytes | VStrings "string list" | VInt int | VOther

record structType =
  st_name :: string
  st_tag :: string
  st_fields :: "(string \<times> fkind) list"

text \<open>\<^verbatim>\<open>strconv.Atoi\<close> on a 64-bit platform; \<open>None\<close> is its error.\<close>

fun digits_val :: "int \<Rightarrow> string \<Rightarrow> int option" where
  "digits_val acc [] = Some acc"
| "digits_val acc (c # cs) =
     (if CHR ''0'' \<le> c \<and> c \<le> CHR ''9'' then digits_val (10 * acc + int (of_char c) - 48) cs else None)"

definition Atoi :: "string \<Rightarrow> int option" where
  "Atoi s =
     (let neg = (s \<noteq> [] \<and> hd s = CHR ''-'');
          ds = (if s \<noteq> [] \<and> (hd s = CHR ''-'' \<or> hd s = CHR ''+'') then tl s else s)
      in if ds = [] then None
         else case digits_val 0 ds of
             None \<Rightarrow> None
           | Some v \<Rightarrow> (let w = (if neg then - v else v)
               in if - (2 ^ 63) \<le> w \<and> w < 2 ^ 63 then Some w else None))"

definition typeTag :: "structType \<Rightarrow> byte" where
  "typeTag st = (case Atoi (st_tag st) of Some i \<Rightarrow> word_of_int i | None \<Rightarrow> 0)"

section \<open>Errors\<close>

definition errShortRead :: goerr where
  "errShortRead = ErrNew ''ssh: short read''"

definition parseError :: "byte \<Rightarrow> goerr" where
  "parseError tag = Errorf ''ssh: parse error in message type %d'' [AInt (uint tag)]"

definition unexpectedMessageError :: "byte \<Rightarrow> byte \<Rightarrow> goerr" where
  "unexpectedMessageError expected got =
     Errorf ''ssh: unexpected message type %d (expected %d)'' [AInt (uint got), AInt (uint expected)]"

definition fieldError :: "structType \<Rightarrow> string \<Rightarrow> string \<Rightarrow> goerr" where
  "fieldError st field problem =
     (let problem = (if problem \<noteq> '''' then '': '' @ problem else problem)
      in Errorf ''ssh: unmarshal error for field %s of type %s%s''
           [AStr field, AStr (st_name st), AStr problem])"

section \<open>Unmarshal\<close>

fun unmarshalField :: "structType \<Rightarrow> string \<Rightarrow> fkind \<Rightarrow> bytes \<Rightarrow> (fval \<times> bytes) res" where
  "unmarshalField st nm KBool data =
     (if length data < 1 then Err errShortRead else Ok (VBool (hd data \<noteq> 0), drop 1 data))"
| "unmarshalField st nm (KArray n) data =
     (if length data < n then Err errShortRead else Ok (VArray (take n data), drop n data))"
| "unmarshalField st nm KArrayOther data = Err (fieldError st nm ''array of unsupported type'')"
| "unmarshalField st nm KUint64 data =
     rbind (or_err (parseUint64 data) errShortRead) (\<lambda>(x, data). Ok (VUint64 x, data))"
| "unmarshalField st nm KUint32 data =
     rbind (or_err (parseUint32 data) errShortRead) (\<lambda>(x, data). Ok (VUint32 x, data))"
| "unmarshalField st nm KUint8 data =
     (if length data < 1 then Err errShortRead else Ok (VUint8 (hd data), drop 1 data))"
| "unmarshalField st nm KString data =
     rbind (or_err (parseString data) (fieldError st nm '''')) (\<lambda>(s, data). Ok (VString (str_of s), data))"
| "unmarshalField st nm KBytes data =
     rbind (or_err (parseString data) errShortRead) (\<lambda>(s, data). Ok (VBytes s, data))"
| "unmarshalField st nm KRest data = Ok (VBytes data, [])"
| "unmarshalField st nm KStrings data =
     rbind (or_err (parseNameList data) errShortRead) (\<lambda>(nl, data). Ok (VStrings nl, data))"
| "unmarshalField st nm KSliceOther data = Err (fieldError st nm ''slice of unsupported type'')"
| "unmarshalField st nm KBigInt data =
     rbind (or_err (parseInt data) errShortRead) (\<lambda>(n, data). Ok (VInt n, data))"
| "unmarshalField st nm KPtrOther data = Err (fieldError st nm ''pointer to unsupported type'')"
| "unmarshalField st nm KOther data = Err (fieldError st nm ''unsupported type'')"

fun unmarshalFields :: "structType \<Rightarrow> (string \<times> fkind) list \<Rightarrow> bytes \<Rightarrow> (fval list \<times> bytes) res" where
  "unmarshalFields st [] data = Ok ([], data)"
| "unmarshalFields st ((nm, k) # fs) data =
     rbind (unmarshalField st nm k data) (\<lambda>(v, data).
       rbind (unmarshalFields st fs data) (\<lambda>(vs, data). Ok (v # vs, data)))"

text \<open>
  The result lists the values stored in the fields of the struct, in order. A struct without
  fields makes \<^verbatim>\<open>structType.Field(0)\<close> panic.
\<close>

definition Unmarshal :: "bytes \<Rightarrow> structType \<Rightarrow> fval list res" where
  "Unmarshal data st =
     (if st_fields st = [] then Panic ''reflect: Field index out of bounds''
      else let expectedType = typeTag st in
        if length data = 0 then Err (parseError expectedType)
        else if expectedType > 0 \<and> hd data \<noteq> expectedType
        then Err (unexpectedMessageError expectedType (hd data))
        else let data = (if expectedType > 0 then drop 1 data else data) in
          rbind (unmarshalFields st (st_fields st) data) (\<lambda>(vs, data).
            if length data \<noteq> 0 then Err (parseError expectedType) else Ok vs))"

section \<open>Marshal\<close>

text \<open>
  The accessors of \<^verbatim>\<open>reflect.Value\<close>: called on a value of another kind they panic.
\<close>

definition kind_panic :: "'a res" where
  "kind_panic = Panic ''reflect: call on a value of another kind''"

definition rBool :: "fval \<Rightarrow> bool res" where
  "rBool v = (case v of VBool b \<Rightarrow> Ok b | _ \<Rightarrow> kind_panic)"

definition rArray :: "fval \<Rightarrow> bytes res" where
  "rArray v = (case v of VArray a \<Rightarrow> Ok a | _ \<Rightarrow> kind_panic)"

definition rUint32 :: "fval \<Rightarrow> uint32 res" where
  "rUint32 v = (case v of VUint32 x \<Rightarrow> Ok x | _ \<Rightarrow> kind_panic)"

definition rUint64 :: "fval \<Rightarrow> uint64 res" where
  "rUint64 v = (case v of VUint64 x \<Rightarrow> Ok x | _ \<Rightarrow> kind_panic)"

definition rUint8 :: "fval \<Rightarrow> byte res" where
  "rUint8 v = (case v of VUint8 x \<Rightarrow> Ok x | _ \<Rightarrow> kind_panic)"

definition rString :: "fval \<Rightarrow> string res" where
  "rString v = (case v of VString x \<Rightarrow> Ok x | _ \<Rightarrow> kind_panic)"

definition rBytes :: "fval \<Rightarrow> bytes res" where
  "rBytes v = (case v of VBytes x \<Rightarrow> Ok x | _ \<Rightarrow> kind_panic)"

definition rStrings :: "fval \<Rightarrow> string list res" where
  "rStrings v = (case v of VStrings x \<Rightarrow> Ok x | _ \<Rightarrow> kind_panic)"

definition rInt :: "fval \<Rightarrow> int res" where
  "rInt v = (case v of VInt x \<Rightarrow> Ok x | _ \<Rightarrow> kind_panic)"

lemmas reflect_defs = rBool_def rArray_def rUint32_def rUint64_def rUint8_def rString_def
  rBytes_def rStrings_def rInt_def

text \<open>
  One iteration of the loop of \<open>marshalStruct\<close>. The name list is written with a zero length first
  and the length is filled in afterwards; the space for an integer is reserved with \<open>intLength\<close>
  and filled by \<open>marshalInt\<close>. A field of any other kind is skipped: the outer switch of the
  source has no default case.
\<close>

fun marshalField :: "bytes \<Rightarrow> fkind \<Rightarrow> fval \<Rightarrow> bytes res" where
  "marshalField out KBool v = rbind (rBool v) (\<lambda>b. Ok (out @ [if b then 1 else 0]))"
| "marshalField out (KArray n) v = rbind (rArray v) (\<lambda>a. Ok (out @ a))"
| "marshalField out KArrayOther v = Panic ''array of non-uint8''"
| "marshalField out KUint32 v = rbind (rUint32 v) (\<lambda>x. Ok (appendU32 out x))"
| "marshalField out KUint64 v = rbind (rUint64 v) (\<lambda>x. Ok (appendU64 out x))"
| "marshalField out KUint8 v = rbind (rUint8 v) (\<lambda>x. Ok (out @ [x]))"
| "marshalField out KString v =
     rbind (rString v) (\<lambda>s. Ok (appendInt out (length s) @ bytes_of s))"
| "marshalField out KBytes v = rbind (rBytes v) (\<lambda>s. Ok (appendInt out (length s) @ s))"
| "marshalField out KRest v = rbind (rBytes v) (\<lambda>s. Ok (out @ s))"
| "marshalField out KStrings v = rbind (rStrings v) (\<lambda>ns.
     let offset = length out; out' = appendU32 out 0
     in if length ns > 0
        then let out'' = out' @ joinNames ns
             in Ok (take offset out'' @ be32 (of_nat (length out'' - offset - 4)) @ drop (offset + 4) out'')
        else Ok out')"
| "marshalField out KSliceOther v = Panic ''slice of unknown type''"
| "marshalField out KBigInt v = rbind (rInt v) (\<lambda>n.
     rbind (marshalInt (replicate (intLength n) 0) n) (\<lambda>(w, rest). Ok (out @ w @ rest)))"
| "marshalField out KPtrOther v = Panic ''pointer to unknown type''"
| "marshalField out KOther v = Ok out"

fun marshalFields :: "bytes \<Rightarrow> (string \<times> fkind) list \<Rightarrow> fval list \<Rightarrow> bytes res" where
  "marshalFields out [] [] = Ok out"
| "marshalFields out ((nm, k) # fs) (v # vs) =
     rbind (marshalField out k v) (\<lambda>out. marshalFields out fs vs)"
| "marshalFields out _ _ = Panic ''reflect: Field index out of bounds''"

definition marshalStruct :: "bytes \<Rightarrow> structType \<Rightarrow> fval list \<Rightarrow> bytes res" where
  "marshalStruct out st vs =
     (if st_fields st = [] then Panic ''reflect: Field index out of bounds''
      else let msgType = typeTag st;
               out = (if msgType > 0 then out @ [msgType] else out)
        in marshalFields out (st_fields st) vs)"

definition Marshal :: "structType \<Rightarrow> fval list \<Rightarrow> bytes res" where
  "Marshal st vs = marshalStruct [] st vs"

section \<open>Correctness of the encoder\<close>

text \<open>What a value of a supported kind is printed as, and the values that print back.\<close>

primrec encField :: "fkind \<Rightarrow> fval \<Rightarrow> bytes" where
  "encField k (VBool b) = [if b then 1 else 0]"
| "encField k (VArray a) = a"
| "encField k (VUint32 x) = be32 x"
| "encField k (VUint64 x) = be64 x"
| "encField k (VUint8 x) = [x]"
| "encField k (VString s) = encString (bytes_of s)"
| "encField k (VBytes s) = (if k = KRest then s else encString s)"
| "encField k (VStrings ns) = encNames ns"
| "encField k (VInt n) = encInt n"
| "encField k VOther = []"

primrec wf_val :: "fkind \<Rightarrow> fval \<Rightarrow> bool" where
  "wf_val k (VBool b) = (k = KBool)"
| "wf_val k (VArray a) = (k = KArray (length a))"
| "wf_val k (VUint32 x) = (k = KUint32)"
| "wf_val k (VUint64 x) = (k = KUint64)"
| "wf_val k (VUint8 x) = (k = KUint8)"
| "wf_val k (VString s) = (k = KString)"
| "wf_val k (VBytes s) = (k = KBytes \<or> k = KRest)"
| "wf_val k (VStrings ns) = (k = KStrings \<and> wf_names ns)"
| "wf_val k (VInt n) = (k = KBigInt)"
| "wf_val k VOther = False"

fun wf_vals :: "(string \<times> fkind) list \<Rightarrow> fval list \<Rightarrow> bool" where
  "wf_vals [] [] = True"
| "wf_vals ((nm, k) # fs) (v # vs) = (wf_val k v \<and> wf_vals fs vs)"
| "wf_vals _ _ = False"

fun encFields :: "(string \<times> fkind) list \<Rightarrow> fval list \<Rightarrow> bytes" where
  "encFields ((nm, k) # fs) (v # vs) = encField k v @ encFields fs vs"
| "encFields _ _ = []"

text \<open>Only the last field may take the rest of the packet.\<close>

fun rest_last :: "(string \<times> fkind) list \<Rightarrow> bool" where
  "rest_last [] = True"
| "rest_last [f] = True"
| "rest_last (f # g # fs) = (snd f \<noteq> KRest \<and> rest_last (g # fs))"

definition encStruct :: "structType \<Rightarrow> fval list \<Rightarrow> bytes" where
  "encStruct st vs = (if typeTag st > 0 then [typeTag st] else []) @ encFields (st_fields st) vs"

lemma marshalInt_replicate: "marshalInt (replicate (intLength n) 0) n = Ok (encInt n, [])"
  using marshalInt_fits [of "replicate (intLength n) 0" n 0] by simp

lemma marshalField_enc:
  assumes "wf_val k v"
  shows "marshalField out k v = Ok (out @ encField k v)"
proof (cases v)
  case (VStrings ns)
  with assms show ?thesis
    by (cases ns) (simp_all add: reflect_defs appendU32_def encNames_def encString_def Let_def)
qed (use assms in \<open>auto simp: reflect_defs appendU32_def appendU64_def appendInt_def encString_def
      marshalInt_replicate\<close>)

lemma marshalFields_enc:
  "wf_vals fs vs \<Longrightarrow> marshalFields out fs vs = Ok (out @ encFields fs vs)"
  by (induction fs vs arbitrary: out rule: wf_vals.induct) (simp_all add: marshalField_enc)

text \<open>\<open>Marshal\<close> succeeds on every well-formed value, and the result is its printed form.\<close>

lemma Marshal_enc:
  "st_fields st \<noteq> [] \<Longrightarrow> wf_vals (st_fields st) vs \<Longrightarrow> Marshal st vs = Ok (encStruct st vs)"
  by (simp add: Marshal_def marshalStruct_def encStruct_def marshalFields_enc Let_def)

lemma unmarshalField_enc:
  assumes "wf_val k v" "length (encField k v @ rest) < 2 ^ 32" "k = KRest \<longrightarrow> rest = []"
  shows "unmarshalField st nm k (encField k v @ rest) = Ok (v, rest)"
proof (cases v)
  case (VUint32 x)
  with assms show ?thesis using u32.dec_enc [of x rest] by simp
next
  case (VUint64 x)
  with assms show ?thesis using u64.dec_enc [of x rest] by simp
next
  case (VString s)
  with assms show ?thesis using wstr.dec_enc [of "bytes_of s" rest] by simp
next
  case (VBytes s)
  with assms show ?thesis using wstr.dec_enc [of s rest] by auto
next
  case (VStrings ns)
  with assms show ?thesis using names.dec_enc [of ns rest] by simp
next
  case (VInt n)
  with assms show ?thesis using mpint.dec_enc [of n rest] by simp
qed (use assms in auto)

lemma unmarshalFields_enc:
  "wf_vals fs vs \<Longrightarrow> rest_last fs \<Longrightarrow> length (encFields fs vs) < 2 ^ 32
    \<Longrightarrow> unmarshalFields st fs (encFields fs vs) = Ok (vs, [])"
proof (induction fs vs rule: wf_vals.induct)
  case (2 nm k fs v vs)
  have last: "k = KRest \<longrightarrow> encFields fs vs = []" and rl: "rest_last fs"
    using "2.prems" by (cases fs; cases vs; auto)+
  have "unmarshalField st nm k (encField k v @ encFields fs vs) = Ok (v, encFields fs vs)"
    using "2.prems" last by (intro unmarshalField_enc) simp_all
  with "2.prems" "2.IH" rl show ?case by simp
qed simp_all

lemma Unmarshal_enc:
  assumes "st_fields st \<noteq> []" "rest_last (st_fields st)" "wf_vals (st_fields st) vs"
    and "encStruct st vs \<noteq> []" "length (encStruct st vs) < 2 ^ 32"
  shows "Unmarshal (encStruct st vs) st = Ok vs"
proof -
  have "length (encFields (st_fields st) vs) < 2 ^ 32" using assms(5) by (simp add: encStruct_def)
  with assms have "unmarshalFields st (st_fields st) (encFields (st_fields st) vs) = Ok (vs, [])"
    by (intro unmarshalFields_enc)
  with assms(1,4) show ?thesis
    by (auto simp: Unmarshal_def encStruct_def Let_def)
qed

text \<open>Conversely, whatever \<open>Unmarshal\<close> accepts is well-formed and prints in no more bytes.\<close>

lemma unmarshalField_wf:
  assumes "unmarshalField st nm k data = Ok (v, rest)"
  shows "wf_val k v \<and> length (encField k v @ rest) \<le> length data"
proof (cases k)
  case KUint32
  with assms show ?thesis using u32.dec_length [of data] by auto
next
  case KUint64
  with assms show ?thesis using u64.dec_length [of data] by auto
next
  case KString
  with assms show ?thesis using wstr.dec_length [of data] by auto
next
  case KBytes
  with assms show ?thesis using wstr.dec_length [of data] by auto
next
  case KStrings
  with assms show ?thesis using names.dec_length [of data] names.dec_wf [of data] by auto
next
  case KBigInt
  with assms show ?thesis using mpint.dec_length [of data] by auto
qed (use assms in \<open>auto split: if_splits\<close>)

lemma unmarshalFields_wf:
  "unmarshalFields st fs data = Ok (vs, rest) \<Longrightarrow> wf_vals fs vs \<and> length (encFields fs vs @ rest) \<le> length data"
proof (induction fs arbitrary: data vs)
  case (Cons f fs)
  obtain nm k where f: "f = (nm, k)" by (cases f)
  with Cons.prems obtain v data' vs' where v: "unmarshalField st nm k data = Ok (v, data')"
    and r: "unmarshalFields st fs data' = Ok (vs', rest)" and vs: "vs = v # vs'" by auto
  from unmarshalField_wf [OF v] Cons.IH [OF r] show ?case by (simp add: f vs)
qed simp

lemma Unmarshal_wf:
  assumes "Unmarshal data st = Ok vs"
  shows "st_fields st \<noteq> []" and "wf_vals (st_fields st) vs"
    and "length (encStruct st vs) \<le> length data" and "data \<noteq> []"
proof -
  from assms have ne: "st_fields st \<noteq> []" and d: "data \<noteq> []"
    and u: "unmarshalFields st (st_fields st) (if typeTag st > 0 then drop 1 data else data) = Ok (vs, [])"
    by (auto simp: Unmarshal_def Let_def split: if_splits)
  show "st_fields st \<noteq> []" by (fact ne)
  show "data \<noteq> []" by (fact d)
  from unmarshalFields_wf [OF u] show "wf_vals (st_fields st) vs" by simp
  from unmarshalFields_wf [OF u] d show "length (encStruct st vs) \<le> length data"
    by (cases data) (auto simp: encStruct_def split: if_splits)
qed

lemma wf_vals_Cons_iff:
  "wf_vals ((nm, k) # fs) vs \<longleftrightarrow> (\<exists>v vs'. vs = v # vs' \<and> wf_val k v \<and> wf_vals fs vs')"
  by (cases vs) auto

lemma wf_vals_Nil_iff: "wf_vals [] vs \<longleftrightarrow> vs = []"
  by (cases vs) auto

lemma wf_val_kind_iff:
  "wf_val KBool v \<longleftrightarrow> (\<exists>b. v = VBool b)"
  "wf_val (KArray n) v \<longleftrightarrow> (\<exists>a. v = VArray a \<and> length a = n)"
  "wf_val KUint32 v \<longleftrightarrow> (\<exists>x. v = VUint32 x)"
  "wf_val KUint64 v \<longleftrightarrow> (\<exists>x. v = VUint64 x)"
  "wf_val KUint8 v \<longleftrightarrow> (\<exists>x. v = VUint8 x)"
  "wf_val KString v \<longleftrightarrow> (\<exists>s. v = VString s)"
  "wf_val KBytes v \<longleftrightarrow> (\<exists>s. v = VBytes s)"
  "wf_val KRest v \<longleftrightarrow> (\<exists>s. v = VBytes s)"
  "wf_val KStrings v \<longleftrightarrow> (\<exists>ns. v = VStrings ns \<and> wf_names ns)"
  "wf_val KBigInt v \<longleftrightarrow> (\<exists>n. v = VInt n)"
  by (cases v; auto)+

lemmas wf_vals_iffs = wf_vals_Cons_iff wf_vals_Nil_iff wf_val_kind_iff

section \<open>The contract of a message struct\<close>

text \<open>
  A message is a Go struct with its type: \<open>vals\<close> reads the fields of a value, \<open>of_vals\<close> is the
  struct that \<open>Unmarshal\<close> fills in.
\<close>

locale wire_message =
  fixes T :: structType and vals :: "'m \<Rightarrow> fval list" and of_vals :: "fval list \<Rightarrow> 'm res"
  assumes of_vals_vals: "of_vals (vals m) = Ok m"
    and of_vals_total: "wf_vals (st_fields T) vs \<Longrightarrow> \<exists>m. of_vals vs = Ok m \<and> vals m = vs"
    and fields_nonempty: "st_fields T \<noteq> []"
    and fields_rest_last: "rest_last (st_fields T)"
begin

lemma marshal_ok: "wf_vals (st_fields T) (vals m) \<Longrightarrow> Marshal T (vals m) = Ok (encStruct T (vals m))"
  by (rule Marshal_enc [OF fields_nonempty])

lemma unmarshal_enc:
  "wf_vals (st_fields T) (vals m) \<Longrightarrow> encStruct T (vals m) \<noteq> [] \<Longrightarrow> length (encStruct T (vals m)) < 2 ^ 32
    \<Longrightarrow> rbind (Unmarshal (encStruct T (vals m)) T) of_vals = Ok m"
  using Unmarshal_enc [OF fields_nonempty fields_rest_last] by (simp add: of_vals_vals)

lemma unmarshal_marshal:
  assumes "wf_vals (st_fields T) (vals m)" "Marshal T (vals m) = Ok p" "p \<noteq> []" "length p < 2 ^ 32"
  shows "rbind (Unmarshal p T) of_vals = Ok m"
  using unmarshal_enc [of m] assms by (simp add: marshal_ok)

text \<open>Filling in the struct never fails once \<open>Unmarshal\<close> accepted the packet.\<close>

lemma unmarshal_total: "Unmarshal p T = Ok vs \<Longrightarrow> \<exists>m. of_vals vs = Ok m \<and> vals m = vs"
  by (rule of_vals_total) (rule Unmarshal_wf)

lemma unmarshal_vals: "Unmarshal p T = Ok vs \<Longrightarrow> of_vals vs = Ok m \<Longrightarrow> vals m = vs"
  using unmarshal_total by fastforce

text \<open>A received message prints back to a packet that is no longer and parses to the same message.\<close>

lemma remarshal:
  assumes "rbind (Unmarshal p T) of_vals = Ok m" "length p < 2 ^ 32"
  shows "\<exists>q. Marshal T (vals m) = Ok q \<and> length q \<le> length p
           \<and> (q \<noteq> [] \<longrightarrow> rbind (Unmarshal q T) of_vals = Ok m)"
proof -
  from assms(1) obtain vs where vs: "Unmarshal p T = Ok vs" "of_vals vs = Ok m" by auto
  with unmarshal_total have m: "vals m = vs" by fastforce
  note wf = Unmarshal_wf [OF vs(1), folded m]
  have len: "length (encStruct T (vals m)) < 2 ^ 32" using wf(3) assms(2) by simp
  show ?thesis
    using wf len unmarshal_enc [of m] by (intro exI [of _ "encStruct T (vals m)"]) (simp add: marshal_ok)
qed

end

end
