(* ===== verification/Message_Types.thy ===== *)
theory Message_Types
  imports Messages
begin

text \<open>
  The message structs of \<^verbatim>\<open>ssh/messages.go\<close>, each with its struct type (\<open>\<dots>_T\<close>), the values of
  its fields (\<open>\<dots>_vals\<close>) and the struct built from unmarshalled values (\<open>\<dots>_of\<close>), and the
  dispatcher \<open>decode\<close>. Every struct is an interpretation of \<open>wire_message\<close>.
\<close>

section \<open>Message numbers\<close>

abbreviation msgIgnore :: byte where "msgIgnore \<equiv> 2"
abbreviation msgUnimplemented :: byte where "msgUnimplemented \<equiv> 3"
abbreviation msgDebug :: byte where "msgDebug \<equiv> 4"
abbreviation msgNewKeys :: byte where "msgNewKeys \<equiv> 21"
abbreviation msgUserAuthSuccess :: byte where "msgUserAuthSuccess \<equiv> 52"
abbreviation msgUserAuthBanner :: byte where "msgUserAuthBanner \<equiv> 53"
abbreviation msgDisconnect :: byte where "msgDisconnect \<equiv> 1"
abbreviation msgKexInit :: byte where "msgKexInit \<equiv> 20"
abbreviation msgKexDHInit :: byte where "msgKexDHInit \<equiv> 30"
abbreviation msgKexECDHInit :: byte where "msgKexECDHInit \<equiv> 30"
abbreviation msgKexECDHReply :: byte where "msgKexECDHReply \<equiv> 31"
abbreviation msgKexDHReply :: byte where "msgKexDHReply \<equiv> 31"
abbreviation msgServiceRequest :: byte where "msgServiceRequest \<equiv> 5"
abbreviation msgServiceAccept :: byte where "msgServiceAccept \<equiv> 6"
abbreviation msgUserAuthRequest :: byte where "msgUserAuthRequest \<equiv> 50"
abbreviation msgUserAuthFailure :: byte where "msgUserAuthFailure \<equiv> 51"
abbreviation msgUserAuthInfoRequest :: byte where "msgUserAuthInfoRequest \<equiv> 60"
abbreviation msgUserAuthInfoResponse :: byte where "msgUserAuthInfoResponse \<equiv> 61"
abbreviation msgChannelOpen :: byte where "msgChannelOpen \<equiv> 90"
abbreviation msgChannelExtendedData :: byte where "msgChannelExtendedData \<equiv> 95"
abbreviation msgChannelData :: byte where "msgChannelData \<equiv> 94"
abbreviation msgChannelOpenConfirm :: byte where "msgChannelOpenConfirm \<equiv> 91"
abbreviation msgChannelOpenFailure :: byte where "msgChannelOpenFailure \<equiv> 92"
abbreviation msgChannelRequest :: byte where "msgChannelRequest \<equiv> 98"
abbreviation msgChannelSuccess :: byte where "msgChannelSuccess \<equiv> 99"
abbreviation msgChannelFailure :: byte where "msgChannelFailure \<equiv> 100"
abbreviation msgChannelClose :: byte where "msgChannelClose \<equiv> 97"
abbreviation msgChannelEOF :: byte where "msgChannelEOF \<equiv> 96"
abbreviation msgGlobalRequest :: byte where "msgGlobalRequest \<equiv> 80"
abbreviation msgRequestSuccess :: byte where "msgRequestSuccess \<equiv> 81"
abbreviation msgRequestFailure :: byte where "msgRequestFailure \<equiv> 82"
abbreviation msgChannelWindowAdjust :: byte where "msgChannelWindowAdjust \<equiv> 93"
abbreviation msgUserAuthPubKeyOk :: byte where "msgUserAuthPubKeyOk \<equiv> 60"

section \<open>The structs\<close>

record disconnectMsg =
  disconnectMsg_Reason :: uint32
  disconnectMsg_Message :: string
  disconnectMsg_Language :: string

definition disconnectMsg_T :: structType where
  "disconnectMsg_T = \<lparr>st_name = ''disconnectMsg'', st_tag = ''1'', st_fields =
      [(''Reason'', KUint32), (''Message'', KString), (''Language'', KString)]\<rparr>"

definition disconnectMsg_vals :: "disconnectMsg \<Rightarrow> fval list" where
  "disconnectMsg_vals m =
     [VUint32 (disconnectMsg_Reason m), VString (disconnectMsg_Message m),
      VString (disconnectMsg_Language m)]"

definition disconnectMsg_of :: "fval list \<Rightarrow> disconnectMsg res" where
  "disconnectMsg_of vs = (case vs of [v0, v1, v2] \<Rightarrow>
       rbind (rUint32 v0) (\<lambda>x0.
       rbind (rString v1) (\<lambda>x1.
       rbind (rString v2) (\<lambda>x2.
         Ok \<lparr>disconnectMsg_Reason = x0, disconnectMsg_Message = x1, disconnectMsg_Language = x2\<rparr>)))
     | _ \<Rightarrow> kind_panic)"

record kexInitMsg =
  kexInitMsg_Cookie :: bytes
  kexInitMsg_KexAlgos :: "string list"
  kexInitMsg_ServerHostKeyAlgos :: "string list"
  kexInitMsg_CiphersClientServer :: "string list"
  kexInitMsg_CiphersServerClient :: "string list"
  kexInitMsg_MACsClientServer :: "string list"
  kexInitMsg_MACsServerClient :: "string list"
  kexInitMsg_CompressionClientServer :: "string list"
  kexInitMsg_CompressionServerClient :: "string list"
  kexInitMsg_LanguagesClientServer :: "string list"
  kexInitMsg_LanguagesServerClient :: "string list"
  kexInitMsg_FirstKexFollows :: bool
  kexInitMsg_Reserved :: uint32

definition kexInitMsg_T :: structType where
  "kexInitMsg_T = \<lparr>st_name = ''kexInitMsg'', st_tag = ''20'', st_fields =
      [(''Cookie'', KArray 16), (''KexAlgos'', KStrings),
       (''ServerHostKeyAlgos'', KStrings), (''CiphersClientServer'', KStrings),
       (''CiphersServerClient'', KStrings), (''MACsClientServer'', KStrings),
       (''MACsServerClient'', KStrings), (''CompressionClientServer'', KStrings),
       (''CompressionServerClient'', KStrings), (''LanguagesClientServer'', KStrings),
       (''LanguagesServerClient'', KStrings), (''FirstKexFollows'', KBool),
       (''Reserved'', KUint32)]\<rparr>"

definition kexInitMsg_vals :: "kexInitMsg \<Rightarrow> fval list" where
  "kexInitMsg_vals m =
     [VArray (kexInitMsg_Cookie m), VStrings (kexInitMsg_KexAlgos m),
      VStrings (kexInitMsg_ServerHostKeyAlgos m),
      VStrings (kexInitMsg_CiphersClientServer m),
      VStrings (kexInitMsg_CiphersServerClient m),
      VStrings (kexInitMsg_MACsClientServer m),
      VStrings (kexInitMsg_MACsServerClient m),
      VStrings (kexInitMsg_CompressionClientServer m),
      VStrings (kexInitMsg_CompressionServerClient m),
      VStrings (kexInitMsg_LanguagesClientServer m),
      VStrings (kexInitMsg_LanguagesServerClient m),
      VBool (kexInitMsg_FirstKexFollows m), VUint32 (kexInitMsg_Reserved m)]"

definition kexInitMsg_of :: "fval list \<Rightarrow> kexInitMsg res" where
  "kexInitMsg_of vs = (case vs of [v0, v1, v2, v3, v4, v5, v6, v7, v8, v9, v10, v11, v12] \<Rightarrow>
       rbind (rArray v0) (\<lambda>x0.
       rbind (rStrings v1) (\<lambda>x1.
       rbind (rStrings v2) (\<lambda>x2.
       rbind (rStrings v3) (\<lambda>x3.
       rbind (rStrings v4) (\<lambda>x4.
       rbind (rStrings v5) (\<lambda>x5.
       rbind (rStrings v6) (\<lambda>x6.
       rbind (rStrings v7) (\<lambda>x7.
       rbind (rStrings v8) (\<lambda>x8.
       rbind (rStrings v9) (\<lambda>x9.
       rbind (rStrings v10) (\<lambda>x10.
       rbind (rBool v11) (\<lambda>x11.
       rbind (rUint32 v12) (\<lambda>x12.
         Ok \<lparr>kexInitMsg_Cookie = x0, kexInitMsg_KexAlgos = x1, kexInitMsg_ServerHostKeyAlgos = x2, kexInitMsg_CiphersClientServer = x3, kexInitMsg_CiphersServerClient = x4, kexInitMsg_MACsClientServer = x5, kexInitMsg_MACsServerClient = x6, kexInitMsg_CompressionClientServer = x7, kexInitMsg_CompressionServerClient = x8, kexInitMsg_LanguagesClientServer = x9, kexInitMsg_LanguagesServerClient = x10, kexInitMsg_FirstKexFollows = x11, kexInitMsg_Reserved = x12\<rparr>)))))))))))))
     | _ \<Rightarrow> kind_panic)"

record kexDHInitMsg =
  kexDHInitMsg_X :: int

definition kexDHInitMsg_T :: structType where
  "kexDHInitMsg_T = \<lparr>st_name = ''kexDHInitMsg'', st_tag = ''30'', st_fields =
      [(''X'', KBigInt)]\<rparr>"

definition kexDHInitMsg_vals :: "kexDHInitMsg \<Rightarrow> fval list" where
  "kexDHInitMsg_vals m =
     [VInt (kexDHInitMsg_X m)]"

definition kexDHInitMsg_of :: "fval list \<Rightarrow> kexDHInitMsg res" where
  "kexDHInitMsg_of vs = (case vs of [v0] \<Rightarrow>
       rbind (rInt v0) (\<lambda>x0.
         Ok \<lparr>kexDHInitMsg_X = x0\<rparr>)
     | _ \<Rightarrow> kind_panic)"

record kexECDHInitMsg =
  kexECDHInitMsg_ClientPubKey :: bytes

definition kexECDHInitMsg_T :: structType where
  "kexECDHInitMsg_T = \<lparr>st_name = ''kexECDHInitMsg'', st_tag = ''30'', st_fields =
      [(''ClientPubKey'', KBytes)]\<rparr>"

definition kexECDHInitMsg_vals :: "kexECDHInitMsg \<Rightarrow> fval list" where
  "kexECDHInitMsg_vals m =
     [VBytes (kexECDHInitMsg_ClientPubKey m)]"

definition kexECDHInitMsg_of :: "fval list \<Rightarrow> kexECDHInitMsg res" where
  "kexECDHInitMsg_of vs = (case vs of [v0] \<Rightarrow>
       rbind (rBytes v0) (\<lambda>x0.
         Ok \<lparr>kexECDHInitMsg_ClientPubKey = x0\<rparr>)
     | _ \<Rightarrow> kind_panic)"

record kexECDHReplyMsg =
  kexECDHReplyMsg_HostKey :: bytes
  kexECDHReplyMsg_EphemeralPubKey :: bytes
  kexECDHReplyMsg_Signature :: bytes

definition kexECDHReplyMsg_T :: structType where
  "kexECDHReplyMsg_T = \<lparr>st_name = ''kexECDHReplyMsg'', st_tag = ''31'', st_fields =
      [(''HostKey'', KBytes), (''EphemeralPubKey'', KBytes), (''Signature'', KBytes)]\<rparr>"

definition kexECDHReplyMsg_vals :: "kexECDHReplyMsg \<Rightarrow> fval list" where
  "kexECDHReplyMsg_vals m =
     [VBytes (kexECDHReplyMsg_HostKey m), VBytes (kexECDHReplyMsg_EphemeralPubKey m),
      VBytes (kexECDHReplyMsg_Signature m)]"

definition kexECDHReplyMsg_of :: "fval list \<Rightarrow> kexECDHReplyMsg res" where
  "kexECDHReplyMsg_of vs = (case vs of [v0, v1, v2] \<Rightarrow>
       rbind (rBytes v0) (\<lambda>x0.
       rbind (rBytes v1) (\<lambda>x1.
       rbind (rBytes v2) (\<lambda>x2.
         Ok \<lparr>kexECDHReplyMsg_HostKey = x0, kexECDHReplyMsg_EphemeralPubKey = x1, kexECDHReplyMsg_Signature = x2\<rparr>)))
     | _ \<Rightarrow> kind_panic)"

record kexDHReplyMsg =
  kexDHReplyMsg_HostKey :: bytes
  kexDHReplyMsg_Y :: int
  kexDHReplyMsg_Signature :: bytes

definition kexDHReplyMsg_T :: structType where
  "kexDHReplyMsg_T = \<lparr>st_name = ''kexDHReplyMsg'', st_tag = ''31'', st_fields =
      [(''HostKey'', KBytes), (''Y'', KBigInt), (''Signature'', KBytes)]\<rparr>"

definition kexDHReplyMsg_vals :: "kexDHReplyMsg \<Rightarrow> fval list" where
  "kexDHReplyMsg_vals m =
     [VBytes (kexDHReplyMsg_HostKey m), VInt (kexDHReplyMsg_Y m),
      VBytes (kexDHReplyMsg_Signature m)]"

definition kexDHReplyMsg_of :: "fval list \<Rightarrow> kexDHReplyMsg res" where
  "kexDHReplyMsg_of vs = (case vs of [v0, v1, v2] \<Rightarrow>
       rbind (rBytes v0) (\<lambda>x0.
       rbind (rInt v1) (\<lambda>x1.
       rbind (rBytes v2) (\<lambda>x2.
         Ok \<lparr>kexDHReplyMsg_HostKey = x0, kexDHReplyMsg_Y = x1, kexDHReplyMsg_Signature = x2\<rparr>)))
     | _ \<Rightarrow> kind_panic)"

record serviceRequestMsg =
  serviceRequestMsg_Service :: string

definition serviceRequestMsg_T :: structType where
  "serviceRequestMsg_T = \<lparr>st_name = ''serviceRequestMsg'', st_tag = ''5'', st_fields =
      [(''Service'', KString)]\<rparr>"

definition serviceRequestMsg_vals :: "serviceRequestMsg \<Rightarrow> fval list" where
  "serviceRequestMsg_vals m =
     [VString (serviceRequestMsg_Service m)]"

definition serviceRequestMsg_of :: "fval list \<Rightarrow> serviceRequestMsg res" where
  "serviceRequestMsg_of vs = (case vs of [v0] \<Rightarrow>
       rbind (rString v0) (\<lambda>x0.
         Ok \<lparr>serviceRequestMsg_Service = x0\<rparr>)
     | _ \<Rightarrow> kind_panic)"

record serviceAcceptMsg =
  serviceAcceptMsg_Service :: string

definition serviceAcceptMsg_T :: structType where
  "serviceAcceptMsg_T = \<lparr>st_name = ''serviceAcceptMsg'', st_tag = ''6'', st_fields =
      [(''Service'', KString)]\<rparr>"

definition serviceAcceptMsg_vals :: "serviceAcceptMsg \<Rightarrow> fval list" where
  "serviceAcceptMsg_vals m =
     [VString (serviceAcceptMsg_Service m)]"

definition serviceAcceptMsg_of :: "fval list \<Rightarrow> serviceAcceptMsg res" where
  "serviceAcceptMsg_of vs = (case vs of [v0] \<Rightarrow>
       rbind (rString v0) (\<lambda>x0.
         Ok \<lparr>serviceAcceptMsg_Service = x0\<rparr>)
     | _ \<Rightarrow> kind_panic)"

record userAuthRequestMsg =
  userAuthRequestMsg_User :: string
  userAuthRequestMsg_Service :: string
  userAuthRequestMsg_Method :: string
  userAuthRequestMsg_Payload :: bytes

definition userAuthRequestMsg_T :: structType where
  "userAuthRequestMsg_T = \<lparr>st_name = ''userAuthRequestMsg'', st_tag = ''50'', st_fields =
      [(''User'', KString), (''Service'', KString), (''Method'', KString),
       (''Payload'', KRest)]\<rparr>"

definition userAuthRequestMsg_vals :: "userAuthRequestMsg \<Rightarrow> fval list" where
  "userAuthRequestMsg_vals m =
     [VString (userAuthRequestMsg_User m), VString (userAuthRequestMsg_Service m),
      VString (userAuthRequestMsg_Method m), VBytes (userAuthRequestMsg_Payload m)]"

definition userAuthRequestMsg_of :: "fval list \<Rightarrow> userAuthRequestMsg res" where
  "userAuthRequestMsg_of vs = (case vs of [v0, v1, v2, v3] \<Rightarrow>
       rbind (rString v0) (\<lambda>x0.
       rbind (rString v1) (\<lambda>x1.
       rbind (rString v2) (\<lambda>x2.
       rbind (rBytes v3) (\<lambda>x3.
         Ok \<lparr>userAuthRequestMsg_User = x0, userAuthRequestMsg_Service = x1, userAuthRequestMsg_Method = x2, userAuthRequestMsg_Payload = x3\<rparr>))))
     | _ \<Rightarrow> kind_panic)"

record userAuthFailureMsg =
  userAuthFailureMsg_Methods :: "string list"
  userAuthFailureMsg_PartialSuccess :: bool

definition userAuthFailureMsg_T :: structType where
  "userAuthFailureMsg_T = \<lparr>st_name = ''userAuthFailureMsg'', st_tag = ''51'', st_fields =
      [(''Methods'', KStrings), (''PartialSuccess'', KBool)]\<rparr>"

definition userAuthFailureMsg_vals :: "userAuthFailureMsg \<Rightarrow> fval list" where
  "userAuthFailureMsg_vals m =
     [VStrings (userAuthFailureMsg_Methods m),
      VBool (userAuthFailureMsg_PartialSuccess m)]"

definition userAuthFailureMsg_of :: "fval list \<Rightarrow> userAuthFailureMsg res" where
  "userAuthFailureMsg_of vs = (case vs of [v0, v1] \<Rightarrow>
       rbind (rStrings v0) (\<lambda>x0.
       rbind (rBool v1) (\<lambda>x1.
         Ok \<lparr>userAuthFailureMsg_Methods = x0, userAuthFailureMsg_PartialSuccess = x1\<rparr>))
     | _ \<Rightarrow> kind_panic)"

record userAuthInfoRequestMsg =
  userAuthInfoRequestMsg_User :: string
  userAuthInfoRequestMsg_Instruction :: string
  userAuthInfoRequestMsg_DeprecatedLanguage :: string
  userAuthInfoRequestMsg_NumPrompts :: uint32
  userAuthInfoRequestMsg_Prompts :: bytes

definition userAuthInfoRequestMsg_T :: structType where
  "userAuthInfoRequestMsg_T = \<lparr>st_name = ''userAuthInfoRequestMsg'', st_tag = ''60'', st_fields =
      [(''User'', KString), (''Instruction'', KString),
       (''DeprecatedLanguage'', KString), (''NumPrompts'', KUint32),
       (''Prompts'', KRest)]\<rparr>"

definition userAuthInfoRequestMsg_vals :: "userAuthInfoRequestMsg \<Rightarrow> fval list" where
  "userAuthInfoRequestMsg_vals m =
     [VString (userAuthInfoRequestMsg_User m),
      VString (userAuthInfoRequestMsg_Instruction m),
      VString (userAuthInfoRequestMsg_DeprecatedLanguage m),
      VUint32 (userAuthInfoRequestMsg_NumPrompts m),
      VBytes (userAuthInfoRequestMsg_Prompts m)]"

definition userAuthInfoRequestMsg_of :: "fval list \<Rightarrow> userAuthInfoRequestMsg res" where
  "userAuthInfoRequestMsg_of vs = (case vs of [v0, v1, v2, v3, v4] \<Rightarrow>
       rbind (rString v0) (\<lambda>x0.
       rbind (rString v1) (\<lambda>x1.
       rbind (rString v2) (\<lambda>x2.
       rbind (rUint32 v3) (\<lambda>x3.
       rbind (rBytes v4) (\<lambda>x4.
         Ok \<lparr>userAuthInfoRequestMsg_User = x0, userAuthInfoRequestMsg_Instruction = x1, userAuthInfoRequestMsg_DeprecatedLanguage = x2, userAuthInfoRequestMsg_NumPrompts = x3, userAuthInfoRequestMsg_Prompts = x4\<rparr>)))))
     | _ \<Rightarrow> kind_panic)"

record channelOpenMsg =
  channelOpenMsg_ChanType :: string
  channelOpenMsg_PeersId :: uint32
  channelOpenMsg_PeersWindow :: uint32
  channelOpenMsg_MaxPacketSize :: uint32
  channelOpenMsg_TypeSpecificData :: bytes

definition channelOpenMsg_T :: structType where
  "channelOpenMsg_T = \<lparr>st_name = ''channelOpenMsg'', st_tag = ''90'', st_fields =
      [(''ChanType'', KString), (''PeersId'', KUint32), (''PeersWindow'', KUint32),
       (''MaxPacketSize'', KUint32), (''TypeSpecificData'', KRest)]\<rparr>"

definition channelOpenMsg_vals :: "channelOpenMsg \<Rightarrow> fval list" where
  "channelOpenMsg_vals m =
     [VString (channelOpenMsg_ChanType m), VUint32 (channelOpenMsg_PeersId m),
      VUint32 (channelOpenMsg_PeersWindow m), VUint32 (channelOpenMsg_MaxPacketSize m),
      VBytes (channelOpenMsg_TypeSpecificData m)]"

definition channelOpenMsg_of :: "fval list \<Rightarrow> channelOpenMsg res" where
  "channelOpenMsg_of vs = (case vs of [v0, v1, v2, v3, v4] \<Rightarrow>
       rbind (rString v0) (\<lambda>x0.
       rbind (rUint32 v1) (\<lambda>x1.
       rbind (rUint32 v2) (\<lambda>x2.
       rbind (rUint32 v3) (\<lambda>x3.
       rbind (rBytes v4) (\<lambda>x4.
         Ok \<lparr>channelOpenMsg_ChanType = x0, channelOpenMsg_PeersId = x1, channelOpenMsg_PeersWindow = x2, channelOpenMsg_MaxPacketSize = x3, channelOpenMsg_TypeSpecificData = x4\<rparr>)))))
     | _ \<Rightarrow> kind_panic)"

record channelOpenConfirmMsg =
  channelOpenConfirmMsg_PeersId :: uint32
  channelOpenConfirmMsg_MyId :: uint32
  channelOpenConfirmMsg_MyWindow :: uint32
  channelOpenConfirmMsg_MaxPacketSize :: uint32
  channelOpenConfirmMsg_TypeSpecificData :: bytes

definition channelOpenConfirmMsg_T :: structType where
  "channelOpenConfirmMsg_T = \<lparr>st_name = ''channelOpenConfirmMsg'', st_tag = ''91'', st_fields =
      [(''PeersId'', KUint32), (''MyId'', KUint32), (''MyWindow'', KUint32),
       (''MaxPacketSize'', KUint32), (''TypeSpecificData'', KRest)]\<rparr>"

definition channelOpenConfirmMsg_vals :: "channelOpenConfirmMsg \<Rightarrow> fval list" where
  "channelOpenConfirmMsg_vals m =
     [VUint32 (channelOpenConfirmMsg_PeersId m),
      VUint32 (channelOpenConfirmMsg_MyId m),
      VUint32 (channelOpenConfirmMsg_MyWindow m),
      VUint32 (channelOpenConfirmMsg_MaxPacketSize m),
      VBytes (channelOpenConfirmMsg_TypeSpecificData m)]"

definition channelOpenConfirmMsg_of :: "fval list \<Rightarrow> channelOpenConfirmMsg res" where
  "channelOpenConfirmMsg_of vs = (case vs of [v0, v1, v2, v3, v4] \<Rightarrow>
       rbind (rUint32 v0) (\<lambda>x0.
       rbind (rUint32 v1) (\<lambda>x1.
       rbind (rUint32 v2) (\<lambda>x2.
       rbind (rUint32 v3) (\<lambda>x3.
       rbind (rBytes v4) (\<lambda>x4.
         Ok \<lparr>channelOpenConfirmMsg_PeersId = x0, channelOpenConfirmMsg_MyId = x1, channelOpenConfirmMsg_MyWindow = x2, channelOpenConfirmMsg_MaxPacketSize = x3, channelOpenConfirmMsg_TypeSpecificData = x4\<rparr>)))))
     | _ \<Rightarrow> kind_panic)"

record channelOpenFailureMsg =
  channelOpenFailureMsg_PeersId :: uint32
  channelOpenFailureMsg_Reason :: uint32
  channelOpenFailureMsg_Message :: string
  channelOpenFailureMsg_Language :: string

definition channelOpenFailureMsg_T :: structType where
  "channelOpenFailureMsg_T = \<lparr>st_name = ''channelOpenFailureMsg'', st_tag = ''92'', st_fields =
      [(''PeersId'', KUint32), (''Reason'', KUint32), (''Message'', KString),
       (''Language'', KString)]\<rparr>"

definition channelOpenFailureMsg_vals :: "channelOpenFailureMsg \<Rightarrow> fval list" where
  "channelOpenFailureMsg_vals m =
     [VUint32 (channelOpenFailureMsg_PeersId m),
      VUint32 (channelOpenFailureMsg_Reason m),
      VString (channelOpenFailureMsg_Message m),
      VString (channelOpenFailureMsg_Language m)]"

definition channelOpenFailureMsg_of :: "fval list \<Rightarrow> channelOpenFailureMsg res" where
  "channelOpenFailureMsg_of vs = (case vs of [v0, v1, v2, v3] \<Rightarrow>
       rbind (rUint32 v0) (\<lambda>x0.
       rbind (rUint32 v1) (\<lambda>x1.
       rbind (rString v2) (\<lambda>x2.
       rbind (rString v3) (\<lambda>x3.
         Ok \<lparr>channelOpenFailureMsg_PeersId = x0, channelOpenFailureMsg_Reason = x1, channelOpenFailureMsg_Message = x2, channelOpenFailureMsg_Language = x3\<rparr>))))
     | _ \<Rightarrow> kind_panic)"

record channelRequestMsg =
  channelRequestMsg_PeersId :: uint32
  channelRequestMsg_Request :: string
  channelRequestMsg_WantReply :: bool
  channelRequestMsg_RequestSpecificData :: bytes

definition channelRequestMsg_T :: structType where
  "channelRequestMsg_T = \<lparr>st_name = ''channelRequestMsg'', st_tag = ''98'', st_fields =
      [(''PeersId'', KUint32), (''Request'', KString), (''WantReply'', KBool),
       (''RequestSpecificData'', KRest)]\<rparr>"

definition channelRequestMsg_vals :: "channelRequestMsg \<Rightarrow> fval list" where
  "channelRequestMsg_vals m =
     [VUint32 (channelRequestMsg_PeersId m), VString (channelRequestMsg_Request m),
      VBool (channelRequestMsg_WantReply m),
      VBytes (channelRequestMsg_RequestSpecificData m)]"

definition channelRequestMsg_of :: "fval list \<Rightarrow> channelRequestMsg res" where
  "channelRequestMsg_of vs = (case vs of [v0, v1, v2, v3] \<Rightarrow>
       rbind (rUint32 v0) (\<lambda>x0.
       rbind (rString v1) (\<lambda>x1.
       rbind (rBool v2) (\<lambda>x2.
       rbind (rBytes v3) (\<lambda>x3.
         Ok \<lparr>channelRequestMsg_PeersId = x0, channelRequestMsg_Request = x1, channelRequestMsg_WantReply = x2, channelRequestMsg_RequestSpecificData = x3\<rparr>))))
     | _ \<Rightarrow> kind_panic)"

record channelRequestSuccessMsg =
  channelRequestSuccessMsg_PeersId :: uint32

definition channelRequestSuccessMsg_T :: structType where
  "channelRequestSuccessMsg_T = \<lparr>st_name = ''channelRequestSuccessMsg'', st_tag = ''99'', st_fields =
      [(''PeersId'', KUint32)]\<rparr>"

definition channelRequestSuccessMsg_vals :: "channelRequestSuccessMsg \<Rightarrow> fval list" where
  "channelRequestSuccessMsg_vals m =
     [VUint32 (channelRequestSuccessMsg_PeersId m)]"

definition channelRequestSuccessMsg_of :: "fval list \<Rightarrow> channelRequestSuccessMsg res" where
  "channelRequestSuccessMsg_of vs = (case vs of [v0] \<Rightarrow>
       rbind (rUint32 v0) (\<lambda>x0.
         Ok \<lparr>channelRequestSuccessMsg_PeersId = x0\<rparr>)
     | _ \<Rightarrow> kind_panic)"

record channelRequestFailureMsg =
  channelRequestFailureMsg_PeersId :: uint32

definition channelRequestFailureMsg_T :: structType where
  "channelRequestFailureMsg_T = \<lparr>st_name = ''channelRequestFailureMsg'', st_tag = ''100'', st_fields =
      [(''PeersId'', KUint32)]\<rparr>"

definition channelRequestFailureMsg_vals :: "channelRequestFailureMsg \<Rightarrow> fval list" where
  "channelRequestFailureMsg_vals m =
     [VUint32 (channelRequestFailureMsg_PeersId m)]"

definition channelRequestFailureMsg_of :: "fval list \<Rightarrow> channelRequestFailureMsg res" where
  "channelRequestFailureMsg_of vs = (case vs of [v0] \<Rightarrow>
       rbind (rUint32 v0) (\<lambda>x0.
         Ok \<lparr>channelRequestFailureMsg_PeersId = x0\<rparr>)
     | _ \<Rightarrow> kind_panic)"

record channelCloseMsg =
  channelCloseMsg_PeersId :: uint32

definition channelCloseMsg_T :: structType where
  "channelCloseMsg_T = \<lparr>st_name = ''channelCloseMsg'', st_tag = ''97'', st_fields =
      [(''PeersId'', KUint32)]\<rparr>"

definition channelCloseMsg_vals :: "channelCloseMsg \<Rightarrow> fval list" where
  "channelCloseMsg_vals m =
     [VUint32 (channelCloseMsg_PeersId m)]"

definition channelCloseMsg_of :: "fval list \<Rightarrow> channelCloseMsg res" where
  "channelCloseMsg_of vs = (case vs of [v0] \<Rightarrow>
       rbind (rUint32 v0) (\<lambda>x0.
         Ok \<lparr>channelCloseMsg_PeersId = x0\<rparr>)
     | _ \<Rightarrow> kind_panic)"

record channelEOFMsg =
  channelEOFMsg_PeersId :: uint32

definition channelEOFMsg_T :: structType where
  "channelEOFMsg_T = \<lparr>st_name = ''channelEOFMsg'', st_tag = ''96'', st_fields =
      [(''PeersId'', KUint32)]\<rparr>"

definition channelEOFMsg_vals :: "channelEOFMsg \<Rightarrow> fval list" where
  "channelEOFMsg_vals m =
     [VUint32 (channelEOFMsg_PeersId m)]"

definition channelEOFMsg_of :: "fval list \<Rightarrow> channelEOFMsg res" where
  "channelEOFMsg_of vs = (case vs of [v0] \<Rightarrow>
       rbind (rUint32 v0) (\<lambda>x0.
         Ok \<lparr>channelEOFMsg_PeersId = x0\<rparr>)
     | _ \<Rightarrow> kind_panic)"

record globalRequestMsg =
  globalRequestMsg_Type :: string
  globalRequestMsg_WantReply :: bool
  globalRequestMsg_Data :: bytes

definition globalRequestMsg_T :: structType where
  "globalRequestMsg_T = \<lparr>st_name = ''globalRequestMsg'', st_tag = ''80'', st_fields =
      [(''Type'', KString), (''WantReply'', KBool), (''Data'', KRest)]\<rparr>"

definition globalRequestMsg_vals :: "globalRequestMsg \<Rightarrow> fval list" where
  "globalRequestMsg_vals m =
     [VString (globalRequestMsg_Type m), VBool (globalRequestMsg_WantReply m),
      VBytes (globalRequestMsg_Data m)]"

definition globalRequestMsg_of :: "fval list \<Rightarrow> globalRequestMsg res" where
  "globalRequestMsg_of vs = (case vs of [v0, v1, v2] \<Rightarrow>
       rbind (rString v0) (\<lambda>x0.
       rbind (rBool v1) (\<lambda>x1.
       rbind (rBytes v2) (\<lambda>x2.
         Ok \<lparr>globalRequestMsg_Type = x0, globalRequestMsg_WantReply = x1, globalRequestMsg_Data = x2\<rparr>)))
     | _ \<Rightarrow> kind_panic)"

record globalRequestSuccessMsg =
  globalRequestSuccessMsg_Data :: bytes

definition globalRequestSuccessMsg_T :: structType where
  "globalRequestSuccessMsg_T = \<lparr>st_name = ''globalRequestSuccessMsg'', st_tag = ''81'', st_fields =
      [(''Data'', KRest)]\<rparr>"

definition globalRequestSuccessMsg_vals :: "globalRequestSuccessMsg \<Rightarrow> fval list" where
  "globalRequestSuccessMsg_vals m =
     [VBytes (globalRequestSuccessMsg_Data m)]"

definition globalRequestSuccessMsg_of :: "fval list \<Rightarrow> globalRequestSuccessMsg res" where
  "globalRequestSuccessMsg_of vs = (case vs of [v0] \<Rightarrow>
       rbind (rBytes v0) (\<lambda>x0.
         Ok \<lparr>globalRequestSuccessMsg_Data = x0\<rparr>)
     | _ \<Rightarrow> kind_panic)"

record globalRequestFailureMsg =
  globalRequestFailureMsg_Data :: bytes

definition globalRequestFailureMsg_T :: structType where
  "globalRequestFailureMsg_T = \<lparr>st_name = ''globalRequestFailureMsg'', st_tag = ''82'', st_fields =
      [(''Data'', KRest)]\<rparr>"

definition globalRequestFailureMsg_vals :: "globalRequestFailureMsg \<Rightarrow> fval list" where
  "globalRequestFailureMsg_vals m =
     [VBytes (globalRequestFailureMsg_Data m)]"

definition globalRequestFailureMsg_of :: "fval list \<Rightarrow> globalRequestFailureMsg res" where
  "globalRequestFailureMsg_of vs = (case vs of [v0] \<Rightarrow>
       rbind (rBytes v0) (\<lambda>x0.
         Ok \<lparr>globalRequestFailureMsg_Data = x0\<rparr>)
     | _ \<Rightarrow> kind_panic)"

record windowAdjustMsg =
  windowAdjustMsg_PeersId :: uint32
  windowAdjustMsg_AdditionalBytes :: uint32

definition windowAdjustMsg_T :: structType where
  "windowAdjustMsg_T = \<lparr>st_name = ''windowAdjustMsg'', st_tag = ''93'', st_fields =
      [(''PeersId'', KUint32), (''AdditionalBytes'', KUint32)]\<rparr>"

definition windowAdjustMsg_vals :: "windowAdjustMsg \<Rightarrow> fval list" where
  "windowAdjustMsg_vals m =
     [VUint32 (windowAdjustMsg_PeersId m), VUint32 (windowAdjustMsg_AdditionalBytes m)]"

definition windowAdjustMsg_of :: "fval list \<Rightarrow> windowAdjustMsg res" where
  "windowAdjustMsg_of vs = (case vs of [v0, v1] \<Rightarrow>
       rbind (rUint32 v0) (\<lambda>x0.
       rbind (rUint32 v1) (\<lambda>x1.
         Ok \<lparr>windowAdjustMsg_PeersId = x0, windowAdjustMsg_AdditionalBytes = x1\<rparr>))
     | _ \<Rightarrow> kind_panic)"

record userAuthPubKeyOkMsg =
  userAuthPubKeyOkMsg_Algo :: string
  userAuthPubKeyOkMsg_PubKey :: bytes

definition userAuthPubKeyOkMsg_T :: structType where
  "userAuthPubKeyOkMsg_T = \<lparr>st_name = ''userAuthPubKeyOkMsg'', st_tag = ''60'', st_fields =
      [(''Algo'', KString), (''PubKey'', KBytes)]\<rparr>"

definition userAuthPubKeyOkMsg_vals :: "userAuthPubKeyOkMsg \<Rightarrow> fval list" where
  "userAuthPubKeyOkMsg_vals m =
     [VString (userAuthPubKeyOkMsg_Algo m), VBytes (userAuthPubKeyOkMsg_PubKey m)]"

definition userAuthPubKeyOkMsg_of :: "fval list \<Rightarrow> userAuthPubKeyOkMsg res" where
  "userAuthPubKeyOkMsg_of vs = (case vs of [v0, v1] \<Rightarrow>
       rbind (rString v0) (\<lambda>x0.
       rbind (rBytes v1) (\<lambda>x1.
         Ok \<lparr>userAuthPubKeyOkMsg_Algo = x0, userAuthPubKeyOkMsg_PubKey = x1\<rparr>))
     | _ \<Rightarrow> kind_panic)"

section \<open>Decoding\<close>

text \<open>The dynamic type of the value that \<open>decode\<close> returns.\<close>

datatype message =
    MDisconnectMsg disconnectMsg
  | MServiceRequestMsg serviceRequestMsg
  | MServiceAcceptMsg serviceAcceptMsg
  | MKexInitMsg kexInitMsg
  | MKexDHInitMsg kexDHInitMsg
  | MKexDHReplyMsg kexDHReplyMsg
  | MUserAuthRequestMsg userAuthRequestMsg
  | MUserAuthFailureMsg userAuthFailureMsg
  | MUserAuthPubKeyOkMsg userAuthPubKeyOkMsg
  | MGlobalRequestMsg globalRequestMsg
  | MGlobalRequestSuccessMsg globalRequestSuccessMsg
  | MGlobalRequestFailureMsg globalRequestFailureMsg
  | MChannelOpenMsg channelOpenMsg
  | MChannelOpenConfirmMsg channelOpenConfirmMsg
  | MChannelOpenFailureMsg channelOpenFailureMsg
  | MWindowAdjustMsg windowAdjustMsg
  | MChannelEOFMsg channelEOFMsg
  | MChannelCloseMsg channelCloseMsg
  | MChannelRequestMsg channelRequestMsg
  | MChannelRequestSuccessMsg channelRequestSuccessMsg
  | MChannelRequestFailureMsg channelRequestFailureMsg

definition decode :: "bytes \<Rightarrow> message res" where
  "decode packet = rbind (index packet 0) (\<lambda>t.
     if t = msgDisconnect then rbind (rbind (Unmarshal packet disconnectMsg_T) disconnectMsg_of) (\<lambda>m. Ok (MDisconnectMsg m)) else
     if t = msgServiceRequest then rbind (rbind (Unmarshal packet serviceRequestMsg_T) serviceRequestMsg_of) (\<lambda>m. Ok (MServiceRequestMsg m)) else
     if t = msgServiceAccept then rbind (rbind (Unmarshal packet serviceAcceptMsg_T) serviceAcceptMsg_of) (\<lambda>m. Ok (MServiceAcceptMsg m)) else
     if t = msgKexInit then rbind (rbind (Unmarshal packet kexInitMsg_T) kexInitMsg_of) (\<lambda>m. Ok (MKexInitMsg m)) else
     if t = msgKexDHInit then rbind (rbind (Unmarshal packet kexDHInitMsg_T) kexDHInitMsg_of) (\<lambda>m. Ok (MKexDHInitMsg m)) else
     if t = msgKexDHReply then rbind (rbind (Unmarshal packet kexDHReplyMsg_T) kexDHReplyMsg_of) (\<lambda>m. Ok (MKexDHReplyMsg m)) else
     if t = msgUserAuthRequest then rbind (rbind (Unmarshal packet userAuthRequestMsg_T) userAuthRequestMsg_of) (\<lambda>m. Ok (MUserAuthRequestMsg m)) else
     if t = msgUserAuthFailure then rbind (rbind (Unmarshal packet userAuthFailureMsg_T) userAuthFailureMsg_of) (\<lambda>m. Ok (MUserAuthFailureMsg m)) else
     if t = msgUserAuthPubKeyOk then rbind (rbind (Unmarshal packet userAuthPubKeyOkMsg_T) userAuthPubKeyOkMsg_of) (\<lambda>m. Ok (MUserAuthPubKeyOkMsg m)) else
     if t = msgGlobalRequest then rbind (rbind (Unmarshal packet globalRequestMsg_T) globalRequestMsg_of) (\<lambda>m. Ok (MGlobalRequestMsg m)) else
     if t = msgRequestSuccess then rbind (rbind (Unmarshal packet globalRequestSuccessMsg_T) globalRequestSuccessMsg_of) (\<lambda>m. Ok (MGlobalRequestSuccessMsg m)) else
     if t = msgRequestFailure then rbind (rbind (Unmarshal packet globalRequestFailureMsg_T) globalRequestFailureMsg_of) (\<lambda>m. Ok (MGlobalRequestFailureMsg m)) else
     if t = msgChannelOpen then rbind (rbind (Unmarshal packet channelOpenMsg_T) channelOpenMsg_of) (\<lambda>m. Ok (MChannelOpenMsg m)) else
     if t = msgChannelOpenConfirm then rbind (rbind (Unmarshal packet channelOpenConfirmMsg_T) channelOpenConfirmMsg_of) (\<lambda>m. Ok (MChannelOpenConfirmMsg m)) else
     if t = msgChannelOpenFailure then rbind (rbind (Unmarshal packet channelOpenFailureMsg_T) channelOpenFailureMsg_of) (\<lambda>m. Ok (MChannelOpenFailureMsg m)) else
     if t = msgChannelWindowAdjust then rbind (rbind (Unmarshal packet windowAdjustMsg_T) windowAdjustMsg_of) (\<lambda>m. Ok (MWindowAdjustMsg m)) else
     if t = msgChannelEOF then rbind (rbind (Unmarshal packet channelEOFMsg_T) channelEOFMsg_of) (\<lambda>m. Ok (MChannelEOFMsg m)) else
     if t = msgChannelClose then rbind (rbind (Unmarshal packet channelCloseMsg_T) channelCloseMsg_of) (\<lambda>m. Ok (MChannelCloseMsg m)) else
     if t = msgChannelRequest then rbind (rbind (Unmarshal packet channelRequestMsg_T) channelRequestMsg_of) (\<lambda>m. Ok (MChannelRequestMsg m)) else
     if t = msgChannelSuccess then rbind (rbind (Unmarshal packet channelRequestSuccessMsg_T) channelRequestSuccessMsg_of) (\<lambda>m. Ok (MChannelRequestSuccessMsg m)) else
     if t = msgChannelFailure then rbind (rbind (Unmarshal packet channelRequestFailureMsg_T) channelRequestFailureMsg_of) (\<lambda>m. Ok (MChannelRequestFailureMsg m)) else
     Err (unexpectedMessageError 0 t))"

primrec message_T :: "message \<Rightarrow> structType" where
  "message_T (MDisconnectMsg m) = disconnectMsg_T"
| "message_T (MServiceRequestMsg m) = serviceRequestMsg_T"
| "message_T (MServiceAcceptMsg m) = serviceAcceptMsg_T"
| "message_T (MKexInitMsg m) = kexInitMsg_T"
| "message_T (MKexDHInitMsg m) = kexDHInitMsg_T"
| "message_T (MKexDHReplyMsg m) = kexDHReplyMsg_T"
| "message_T (MUserAuthRequestMsg m) = userAuthRequestMsg_T"
| "message_T (MUserAuthFailureMsg m) = userAuthFailureMsg_T"
| "message_T (MUserAuthPubKeyOkMsg m) = userAuthPubKeyOkMsg_T"
| "message_T (MGlobalRequestMsg m) = globalRequestMsg_T"
| "message_T (MGlobalRequestSuccessMsg m) = globalRequestSuccessMsg_T"
| "message_T (MGlobalRequestFailureMsg m) = globalRequestFailureMsg_T"
| "message_T (MChannelOpenMsg m) = channelOpenMsg_T"
| "message_T (MChannelOpenConfirmMsg m) = channelOpenConfirmMsg_T"
| "message_T (MChannelOpenFailureMsg m) = channelOpenFailureMsg_T"
| "message_T (MWindowAdjustMsg m) = windowAdjustMsg_T"
| "message_T (MChannelEOFMsg m) = channelEOFMsg_T"
| "message_T (MChannelCloseMsg m) = channelCloseMsg_T"
| "message_T (MChannelRequestMsg m) = channelRequestMsg_T"
| "message_T (MChannelRequestSuccessMsg m) = channelRequestSuccessMsg_T"
| "message_T (MChannelRequestFailureMsg m) = channelRequestFailureMsg_T"

primrec message_vals :: "message \<Rightarrow> fval list" where
  "message_vals (MDisconnectMsg m) = disconnectMsg_vals m"
| "message_vals (MServiceRequestMsg m) = serviceRequestMsg_vals m"
| "message_vals (MServiceAcceptMsg m) = serviceAcceptMsg_vals m"
| "message_vals (MKexInitMsg m) = kexInitMsg_vals m"
| "message_vals (MKexDHInitMsg m) = kexDHInitMsg_vals m"
| "message_vals (MKexDHReplyMsg m) = kexDHReplyMsg_vals m"
| "message_vals (MUserAuthRequestMsg m) = userAuthRequestMsg_vals m"
| "message_vals (MUserAuthFailureMsg m) = userAuthFailureMsg_vals m"
| "message_vals (MUserAuthPubKeyOkMsg m) = userAuthPubKeyOkMsg_vals m"
| "message_vals (MGlobalRequestMsg m) = globalRequestMsg_vals m"
| "message_vals (MGlobalRequestSuccessMsg m) = globalRequestSuccessMsg_vals m"
| "message_vals (MGlobalRequestFailureMsg m) = globalRequestFailureMsg_vals m"
| "message_vals (MChannelOpenMsg m) = channelOpenMsg_vals m"
| "message_vals (MChannelOpenConfirmMsg m) = channelOpenConfirmMsg_vals m"
| "message_vals (MChannelOpenFailureMsg m) = channelOpenFailureMsg_vals m"
| "message_vals (MWindowAdjustMsg m) = windowAdjustMsg_vals m"
| "message_vals (MChannelEOFMsg m) = channelEOFMsg_vals m"
| "message_vals (MChannelCloseMsg m) = channelCloseMsg_vals m"
| "message_vals (MChannelRequestMsg m) = channelRequestMsg_vals m"
| "message_vals (MChannelRequestSuccessMsg m) = channelRequestSuccessMsg_vals m"
| "message_vals (MChannelRequestFailureMsg m) = channelRequestFailureMsg_vals m"

section \<open>The structs are wire messages\<close>

interpretation disconnectMsg: wire_message disconnectMsg_T disconnectMsg_vals disconnectMsg_of
  by unfold_locales
    (auto simp: disconnectMsg_T_def disconnectMsg_vals_def disconnectMsg_of_def reflect_defs wf_vals_iffs)

interpretation kexInitMsg: wire_message kexInitMsg_T kexInitMsg_vals kexInitMsg_of
  by unfold_locales
    (auto simp: kexInitMsg_T_def kexInitMsg_vals_def kexInitMsg_of_def reflect_defs wf_vals_iffs)

interpretation kexDHInitMsg: wire_message kexDHInitMsg_T kexDHInitMsg_vals kexDHInitMsg_of
  by unfold_locales
    (auto simp: kexDHInitMsg_T_def kexDHInitMsg_vals_def kexDHInitMsg_of_def reflect_defs wf_vals_iffs)

interpretation kexECDHInitMsg: wire_message kexECDHInitMsg_T kexECDHInitMsg_vals kexECDHInitMsg_of
  by unfold_locales
    (auto simp: kexECDHInitMsg_T_def kexECDHInitMsg_vals_def kexECDHInitMsg_of_def reflect_defs wf_vals_iffs)

interpretation kexECDHReplyMsg: wire_message kexECDHReplyMsg_T kexECDHReplyMsg_vals kexECDHReplyMsg_of
  by unfold_locales
    (auto simp: kexECDHReplyMsg_T_def kexECDHReplyMsg_vals_def kexECDHReplyMsg_of_def reflect_defs wf_vals_iffs)

interpretation kexDHReplyMsg: wire_message kexDHReplyMsg_T kexDHReplyMsg_vals kexDHReplyMsg_of
  by unfold_locales
    (auto simp: kexDHReplyMsg_T_def kexDHReplyMsg_vals_def kexDHReplyMsg_of_def reflect_defs wf_vals_iffs)

interpretation serviceRequestMsg: wire_message serviceRequestMsg_T serviceRequestMsg_vals serviceRequestMsg_of
  by unfold_locales
    (auto simp: serviceRequestMsg_T_def serviceRequestMsg_vals_def serviceRequestMsg_of_def reflect_defs wf_vals_iffs)

interpretation serviceAcceptMsg: wire_message serviceAcceptMsg_T serviceAcceptMsg_vals serviceAcceptMsg_of
  by unfold_locales
    (auto simp: serviceAcceptMsg_T_def serviceAcceptMsg_vals_def serviceAcceptMsg_of_def reflect_defs wf_vals_iffs)

interpretation userAuthRequestMsg: wire_message userAuthRequestMsg_T userAuthRequestMsg_vals userAuthRequestMsg_of
  by unfold_locales
    (auto simp: userAuthRequestMsg_T_def userAuthRequestMsg_vals_def userAuthRequestMsg_of_def reflect_defs wf_vals_iffs)

interpretation userAuthFailureMsg: wire_message userAuthFailureMsg_T userAuthFailureMsg_vals userAuthFailureMsg_of
  by unfold_locales
    (auto simp: userAuthFailureMsg_T_def userAuthFailureMsg_vals_def userAuthFailureMsg_of_def reflect_defs wf_vals_iffs)

interpretation userAuthInfoRequestMsg: wire_message userAuthInfoRequestMsg_T userAuthInfoRequestMsg_vals userAuthInfoRequestMsg_of
  by unfold_locales
    (auto simp: userAuthInfoRequestMsg_T_def userAuthInfoRequestMsg_vals_def userAuthInfoRequestMsg_of_def reflect_defs wf_vals_iffs)

interpretation channelOpenMsg: wire_message channelOpenMsg_T channelOpenMsg_vals channelOpenMsg_of
  by unfold_locales
    (auto simp: channelOpenMsg_T_def channelOpenMsg_vals_def channelOpenMsg_of_def reflect_defs wf_vals_iffs)

interpretation channelOpenConfirmMsg: wire_message channelOpenConfirmMsg_T channelOpenConfirmMsg_vals channelOpenConfirmMsg_of
  by unfold_locales
    (auto simp: channelOpenConfirmMsg_T_def channelOpenConfirmMsg_vals_def channelOpenConfirmMsg_of_def reflect_defs wf_vals_iffs)

interpretation channelOpenFailureMsg: wire_message channelOpenFailureMsg_T channelOpenFailureMsg_vals channelOpenFailureMsg_of
  by unfold_locales
    (auto simp: channelOpenFailureMsg_T_def channelOpenFailureMsg_vals_def channelOpenFailureMsg_of_def reflect_defs wf_vals_iffs)

interpretation channelRequestMsg: wire_message channelRequestMsg_T channelRequestMsg_vals channelRequestMsg_of
  by unfold_locales
    (auto simp: channelRequestMsg_T_def channelRequestMsg_vals_def channelRequestMsg_of_def reflect_defs wf_vals_iffs)

interpretation channelRequestSuccessMsg: wire_message channelRequestSuccessMsg_T channelRequestSuccessMsg_vals channelRequestSuccessMsg_of
  by unfold_locales
    (auto simp: channelRequestSuccessMsg_T_def channelRequestSuccessMsg_vals_def channelRequestSuccessMsg_of_def reflect_defs wf_vals_iffs)

interpretation channelRequestFailureMsg: wire_message channelRequestFailureMsg_T channelRequestFailureMsg_vals channelRequestFailureMsg_of
  by unfold_locales
    (auto simp: channelRequestFailureMsg_T_def channelRequestFailureMsg_vals_def channelRequestFailureMsg_of_def reflect_defs wf_vals_iffs)

interpretation channelCloseMsg: wire_message channelCloseMsg_T channelCloseMsg_vals channelCloseMsg_of
  by unfold_locales
    (auto simp: channelCloseMsg_T_def channelCloseMsg_vals_def channelCloseMsg_of_def reflect_defs wf_vals_iffs)

interpretation channelEOFMsg: wire_message channelEOFMsg_T channelEOFMsg_vals channelEOFMsg_of
  by unfold_locales
    (auto simp: channelEOFMsg_T_def channelEOFMsg_vals_def channelEOFMsg_of_def reflect_defs wf_vals_iffs)

interpretation globalRequestMsg: wire_message globalRequestMsg_T globalRequestMsg_vals globalRequestMsg_of
  by unfold_locales
    (auto simp: globalRequestMsg_T_def globalRequestMsg_vals_def globalRequestMsg_of_def reflect_defs wf_vals_iffs)

interpretation globalRequestSuccessMsg: wire_message globalRequestSuccessMsg_T globalRequestSuccessMsg_vals globalRequestSuccessMsg_of
  by unfold_locales
    (auto simp: globalRequestSuccessMsg_T_def globalRequestSuccessMsg_vals_def globalRequestSuccessMsg_of_def reflect_defs wf_vals_iffs)

interpretation globalRequestFailureMsg: wire_message globalRequestFailureMsg_T globalRequestFailureMsg_vals globalRequestFailureMsg_of
  by unfold_locales
    (auto simp: globalRequestFailureMsg_T_def globalRequestFailureMsg_vals_def globalRequestFailureMsg_of_def reflect_defs wf_vals_iffs)

interpretation windowAdjustMsg: wire_message windowAdjustMsg_T windowAdjustMsg_vals windowAdjustMsg_of
  by unfold_locales
    (auto simp: windowAdjustMsg_T_def windowAdjustMsg_vals_def windowAdjustMsg_of_def reflect_defs wf_vals_iffs)

interpretation userAuthPubKeyOkMsg: wire_message userAuthPubKeyOkMsg_T userAuthPubKeyOkMsg_vals userAuthPubKeyOkMsg_of
  by unfold_locales
    (auto simp: userAuthPubKeyOkMsg_T_def userAuthPubKeyOkMsg_vals_def userAuthPubKeyOkMsg_of_def reflect_defs wf_vals_iffs)

lemma typeTag_simps [simp]:
  "typeTag disconnectMsg_T = 1"
  "typeTag kexInitMsg_T = 20"
  "typeTag kexDHInitMsg_T = 30"
  "typeTag kexECDHInitMsg_T = 30"
  "typeTag kexECDHReplyMsg_T = 31"
  "typeTag kexDHReplyMsg_T = 31"
  "typeTag serviceRequestMsg_T = 5"
  "typeTag serviceAcceptMsg_T = 6"
  "typeTag userAuthRequestMsg_T = 50"
  "typeTag userAuthFailureMsg_T = 51"
  "typeTag userAuthInfoRequestMsg_T = 60"
  "typeTag channelOpenMsg_T = 90"
  "typeTag channelOpenConfirmMsg_T = 91"
  "typeTag channelOpenFailureMsg_T = 92"
  "typeTag channelRequestMsg_T = 98"
  "typeTag channelRequestSuccessMsg_T = 99"
  "typeTag channelRequestFailureMsg_T = 100"
  "typeTag channelCloseMsg_T = 97"
  "typeTag channelEOFMsg_T = 96"
  "typeTag globalRequestMsg_T = 80"
  "typeTag globalRequestSuccessMsg_T = 81"
  "typeTag globalRequestFailureMsg_T = 82"
  "typeTag windowAdjustMsg_T = 93"
  "typeTag userAuthPubKeyOkMsg_T = 60"
  by (simp_all add: typeTag_def Atoi_def disconnectMsg_T_def kexInitMsg_T_def kexDHInitMsg_T_def kexECDHInitMsg_T_def kexECDHReplyMsg_T_def kexDHReplyMsg_T_def serviceRequestMsg_T_def serviceAcceptMsg_T_def userAuthRequestMsg_T_def userAuthFailureMsg_T_def userAuthInfoRequestMsg_T_def channelOpenMsg_T_def channelOpenConfirmMsg_T_def channelOpenFailureMsg_T_def channelRequestMsg_T_def channelRequestSuccessMsg_T_def channelRequestFailureMsg_T_def channelCloseMsg_T_def channelEOFMsg_T_def globalRequestMsg_T_def globalRequestSuccessMsg_T_def globalRequestFailureMsg_T_def windowAdjustMsg_T_def userAuthPubKeyOkMsg_T_def)

definition wf_message :: "message \<Rightarrow> bool" where
  "wf_message m \<longleftrightarrow> wf_vals (st_fields (message_T m)) (message_vals m)"


lemmas message_of_vals =
  disconnectMsg.of_vals_vals
  kexInitMsg.of_vals_vals
  kexDHInitMsg.of_vals_vals
  kexECDHInitMsg.of_vals_vals
  kexECDHReplyMsg.of_vals_vals
  kexDHReplyMsg.of_vals_vals
  serviceRequestMsg.of_vals_vals
  serviceAcceptMsg.of_vals_vals
  userAuthRequestMsg.of_vals_vals
  userAuthFailureMsg.of_vals_vals
  userAuthInfoRequestMsg.of_vals_vals
  channelOpenMsg.of_vals_vals
  channelOpenConfirmMsg.of_vals_vals
  channelOpenFailureMsg.of_vals_vals
  channelRequestMsg.of_vals_vals
  channelRequestSuccessMsg.of_vals_vals
  channelRequestFailureMsg.of_vals_vals
  channelCloseMsg.of_vals_vals
  channelEOFMsg.of_vals_vals
  globalRequestMsg.of_vals_vals
  globalRequestSuccessMsg.of_vals_vals
  globalRequestFailureMsg.of_vals_vals
  windowAdjustMsg.of_vals_vals
  userAuthPubKeyOkMsg.of_vals_vals

lemmas message_fields_nonempty =
  disconnectMsg.fields_nonempty
  kexInitMsg.fields_nonempty
  kexDHInitMsg.fields_nonempty
  kexECDHInitMsg.fields_nonempty
  kexECDHReplyMsg.fields_nonempty
  kexDHReplyMsg.fields_nonempty
  serviceRequestMsg.fields_nonempty
  serviceAcceptMsg.fields_nonempty
  userAuthRequestMsg.fields_nonempty
  userAuthFailureMsg.fields_nonempty
  userAuthInfoRequestMsg.fields_nonempty
  channelOpenMsg.fields_nonempty
  channelOpenConfirmMsg.fields_nonempty
  channelOpenFailureMsg.fields_nonempty
  channelRequestMsg.fields_nonempty
  channelRequestSuccessMsg.fields_nonempty
  channelRequestFailureMsg.fields_nonempty
  channelCloseMsg.fields_nonempty
  channelEOFMsg.fields_nonempty
  globalRequestMsg.fields_nonempty
  globalRequestSuccessMsg.fields_nonempty
  globalRequestFailureMsg.fields_nonempty
  windowAdjustMsg.fields_nonempty
  userAuthPubKeyOkMsg.fields_nonempty

lemmas message_fields_rest_last =
  disconnectMsg.fields_rest_last
  kexInitMsg.fields_rest_last
  kexDHInitMsg.fields_rest_last
  kexECDHInitMsg.fields_rest_last
  kexECDHReplyMsg.fields_rest_last
  kexDHReplyMsg.fields_rest_last
  serviceRequestMsg.fields_rest_last
  serviceAcceptMsg.fields_rest_last
  userAuthRequestMsg.fields_rest_last
  userAuthFailureMsg.fields_rest_last
  userAuthInfoRequestMsg.fields_rest_last
  channelOpenMsg.fields_rest_last
  channelOpenConfirmMsg.fields_rest_last
  channelOpenFailureMsg.fields_rest_last
  channelRequestMsg.fields_rest_last
  channelRequestSuccessMsg.fields_rest_last
  channelRequestFailureMsg.fields_rest_last
  channelCloseMsg.fields_rest_last
  channelEOFMsg.fields_rest_last
  globalRequestMsg.fields_rest_last
  globalRequestSuccessMsg.fields_rest_last
  globalRequestFailureMsg.fields_rest_last
  windowAdjustMsg.fields_rest_last
  userAuthPubKeyOkMsg.fields_rest_last

section \<open>Correctness of decode\<close>

lemma encStruct_tagged: "typeTag st > 0 \<Longrightarrow> encStruct st vs = typeTag st # encFields (st_fields st) vs"
  by (simp add: encStruct_def)

lemma message_T_props:
  "typeTag (message_T m) > 0" "st_fields (message_T m) \<noteq> []" "rest_last (st_fields (message_T m))"
  by (cases m; simp add: message_fields_nonempty message_fields_rest_last)+

lemma Marshal_message:
  "wf_message m \<Longrightarrow> Marshal (message_T m) (message_vals m) = Ok (encStruct (message_T m) (message_vals m))"
  by (simp add: wf_message_def Marshal_enc message_T_props)

lemma decode_enc:
  assumes "wf_message m" "length (encStruct (message_T m) (message_vals m)) < 2 ^ 32"
  shows "decode (encStruct (message_T m) (message_vals m)) = Ok m"
proof -
  have i: "index (encStruct (message_T m) (message_vals m)) 0 = Ok (typeTag (message_T m))"
    by (simp add: encStruct_tagged message_T_props)
  have ne: "encStruct (message_T m) (message_vals m) \<noteq> []"
    by (simp add: encStruct_tagged message_T_props)
  have u: "Unmarshal (encStruct (message_T m) (message_vals m)) (message_T m) = Ok (message_vals m)"
    using assms by (intro Unmarshal_enc ne message_T_props) (simp_all add: wf_message_def)
  show ?thesis
    unfolding decode_def i rbind.simps(1)
    using u by (cases m) (simp_all add: message_of_vals)
qed

text \<open>
  What \<open>decode\<close> returns is the message whose type number the packet starts with, filled in from
  the packet; an unknown number is an error and an empty packet makes it panic.
\<close>

lemma decode_Ok:
  assumes "decode p = Ok m"
  shows "p \<noteq> []" and "hd p = typeTag (message_T m)"
    and "Unmarshal p (message_T m) = Ok (message_vals m)" and "wf_message m"
proof -
  from assms show ne: "p \<noteq> []" by (auto simp: decode_def index_def split: if_splits)
  then have i: "index p 0 = Ok (hd p)" by (cases p) simp_all
  show u: "Unmarshal p (message_T m) = Ok (message_vals m)"
    using assms unfolding decode_def i rbind.simps(1)
    by (auto split: if_splits dest: disconnectMsg.unmarshal_vals
      serviceRequestMsg.unmarshal_vals
      serviceAcceptMsg.unmarshal_vals
      kexInitMsg.unmarshal_vals
      kexDHInitMsg.unmarshal_vals
      kexDHReplyMsg.unmarshal_vals
      userAuthRequestMsg.unmarshal_vals
      userAuthFailureMsg.unmarshal_vals
      userAuthPubKeyOkMsg.unmarshal_vals
      globalRequestMsg.unmarshal_vals
      globalRequestSuccessMsg.unmarshal_vals
      globalRequestFailureMsg.unmarshal_vals
      channelOpenMsg.unmarshal_vals
      channelOpenConfirmMsg.unmarshal_vals
      channelOpenFailureMsg.unmarshal_vals
      windowAdjustMsg.unmarshal_vals
      channelEOFMsg.unmarshal_vals
      channelCloseMsg.unmarshal_vals
      channelRequestMsg.unmarshal_vals
      channelRequestSuccessMsg.unmarshal_vals
      channelRequestFailureMsg.unmarshal_vals)
  show "hd p = typeTag (message_T m)"
    using assms unfolding decode_def i rbind.simps(1) by (auto split: if_splits)
  show "wf_message m" using Unmarshal_wf(2) [OF u] by (simp add: wf_message_def)
qed

end
