(* ===== verification/Keys.thy ===== *)
theory Keys
  imports Message_Types
begin

text \<open>
  Public keys and certificates: \<^verbatim>\<open>ssh/keys.go\<close> and the parsing and printing half of
  \<^verbatim>\<open>ssh/certs.go\<close>. \<open>ParsePublicKey\<close>, \<open>parsePubKey\<close> and \<open>parseCert\<close> call each other, since a
  certificate carries the key that signed it. The cryptographic primitives of the Go library are
  the fields of the record \<open>crypto\<close>, an argument of every definition that calls them.
\<close>

section \<open>Algorithm names\<close>

abbreviation KeyAlgoRSA :: string where "KeyAlgoRSA \<equiv> ''ssh-rsa''"
abbreviation KeyAlgoDSA :: string where "KeyAlgoDSA \<equiv> ''ssh-dss''"
abbreviation KeyAlgoECDSA256 :: string where "KeyAlgoECDSA256 \<equiv> ''ecdsa-sha2-nistp256''"
abbreviation KeyAlgoECDSA384 :: string where "KeyAlgoECDSA384 \<equiv> ''ecdsa-sha2-nistp384''"
abbreviation KeyAlgoECDSA521 :: string where "KeyAlgoECDSA521 \<equiv> ''ecdsa-sha2-nistp521''"

abbreviation CertAlgoRSAv01 :: string where
  "CertAlgoRSAv01 \<equiv> ''ssh-rsa-cert-v01@openssh.com''"
abbreviation CertAlgoDSAv01 :: string where
  "CertAlgoDSAv01 \<equiv> ''ssh-dss-cert-v01@openssh.com''"
abbreviation CertAlgoECDSA256v01 :: string where
  "CertAlgoECDSA256v01 \<equiv> ''ecdsa-sha2-nistp256-cert-v01@openssh.com''"
abbreviation CertAlgoECDSA384v01 :: string where
  "CertAlgoECDSA384v01 \<equiv> ''ecdsa-sha2-nistp384-cert-v01@openssh.com''"
abbreviation CertAlgoECDSA521v01 :: string where
  "CertAlgoECDSA521v01 \<equiv> ''ecdsa-sha2-nistp521-cert-v01@openssh.com''"

definition certAlgoNames :: "(string \<times> string) list" where
  "certAlgoNames =
     [(KeyAlgoRSA, CertAlgoRSAv01), (KeyAlgoDSA, CertAlgoDSAv01),
      (KeyAlgoECDSA256, CertAlgoECDSA256v01), (KeyAlgoECDSA384, CertAlgoECDSA384v01),
      (KeyAlgoECDSA521, CertAlgoECDSA521v01)]"

text \<open>The range over the map finds the only entry with that value.\<close>

definition certToPrivAlgo :: "string \<Rightarrow> string res" where
  "certToPrivAlgo algo =
     (case find (\<lambda>(privAlgo, pubAlgo). pubAlgo = algo) certAlgoNames of
        Some (privAlgo, _) \<Rightarrow> Ok privAlgo
      | None \<Rightarrow> Panic ''unknown cert algorithm'')"

section \<open>Key data\<close>

datatype hash = MD5 | SHA1 | SHA256 | SHA384 | SHA512

text \<open>
  Values of \<^verbatim>\<open>elliptic.Curve\<close>: the NIST curves of the Go library and any other curve, of which
  only the bit size matters here.
\<close>

datatype ecurve = P224 | P256 | P384 | P521 | OtherCurve nat

primrec BitSize :: "ecurve \<Rightarrow> nat" where
  "BitSize P224 = 224"
| "BitSize P256 = 256"
| "BitSize P384 = 384"
| "BitSize P521 = 521"
| "BitSize (OtherCurve n) = n"

record rsaPublicKey =
  rsa_E :: int
  rsa_N :: int

record dsaPublicKey =
  dsa_P :: int
  dsa_Q :: int
  dsa_G :: int
  dsa_Y :: int

record ecdsaPublicKey =
  ec_Curve :: ecurve
  ec_X :: int
  ec_Y :: int

record Signature =
  sig_Format :: string
  sig_Blob :: bytes

text \<open>
  The maps of \<^verbatim>\<open>Permissions\<close> are association lists; their keys are distinct.
\<close>

record Permissions =
  CriticalOptions :: "(string \<times> string) list"
  Extensions :: "(string \<times> string) list"

datatype PublicKey =
    RSAKey rsaPublicKey
  | DSAKey dsaPublicKey
  | ECDSAKey ecdsaPublicKey
  | CertKey Certificate
and Certificate = Certificate
    (Nonce: bytes) (Key: PublicKey) (Serial: uint64) (CertType: uint32) (KeyId: string)
    (ValidPrincipals: "string list") (ValidAfter: uint64) (ValidBefore: uint64)
    (CertPermissions: Permissions) (Reserved: bytes)
    (SignatureKey: "PublicKey option") (CertSignature: "Signature option")

text \<open>
  The primitives of \<^verbatim>\<open>crypto/*\<close>. A verification returns the error, or none; \<open>cr_on_curve\<close> is the
  point check that \<^verbatim>\<open>elliptic.Unmarshal\<close> makes.
\<close>

record crypto =
  cr_hash :: "hash \<Rightarrow> bytes \<Rightarrow> bytes"
  cr_rsa_verify :: "rsaPublicKey \<Rightarrow> hash \<Rightarrow> bytes \<Rightarrow> bytes \<Rightarrow> goerr option"
  cr_dsa_verify :: "dsaPublicKey \<Rightarrow> bytes \<Rightarrow> int \<Rightarrow> int \<Rightarrow> bool"
  cr_ecdsa_verify :: "ecdsaPublicKey \<Rightarrow> bytes \<Rightarrow> int \<Rightarrow> int \<Rightarrow> bool"
  cr_on_curve :: "ecurve \<Rightarrow> int \<Rightarrow> int \<Rightarrow> bool"

section \<open>Points of elliptic curves\<close>

text \<open>\<^verbatim>\<open>copy(ret[i:], b)\<close> where the bytes fit: the slice panics past the end or before the start.\<close>

definition overlay :: "bytes \<Rightarrow> int \<Rightarrow> bytes \<Rightarrow> bytes res" where
  "overlay ret i b =
     (if i < 0 \<or> int (length ret) < i then Panic ''slice bounds out of range''
      else let j = nat i; n = min (length b) (length ret - j)
        in Ok (take j ret @ take n b @ drop (j + n) ret))"

text \<open>\<^verbatim>\<open>elliptic.Marshal\<close> and \<^verbatim>\<open>elliptic.Unmarshal\<close>: the uncompressed form of ANSI X9.62.\<close>

definition ec_Marshal :: "ecurve \<Rightarrow> int \<Rightarrow> int \<Rightarrow> bytes res" where
  "ec_Marshal c x y =
     (let byteLen = (BitSize c + 7) div 8;
          ret = 4 # replicate (2 * byteLen) 0;
          xBytes = be_bytes (nat \<bar>x\<bar>);
          yBytes = be_bytes (nat \<bar>y\<bar>)
      in rbind (overlay ret (1 + int byteLen - int (length xBytes)) xBytes) (\<lambda>ret.
           overlay ret (1 + 2 * int byteLen - int (length yBytes)) yBytes))"

definition ec_Unmarshal :: "crypto \<Rightarrow> ecurve \<Rightarrow> bytes \<Rightarrow> (int \<times> int) option" where
  "ec_Unmarshal cr c data =
     (let byteLen = (BitSize c + 7) div 8 in
      if length data \<noteq> 1 + 2 * byteLen then None
      else if hd data \<noteq> 4 then None
      else let x = int (be_val (take byteLen (drop 1 data)));
               y = int (be_val (drop (1 + byteLen) data))
        in if cr_on_curve cr c x y then Some (x, y) else None)"

definition nistID :: "ecdsaPublicKey \<Rightarrow> string res" where
  "nistID key =
     (if BitSize (ec_Curve key) = 256 then Ok ''nistp256''
      else if BitSize (ec_Curve key) = 384 then Ok ''nistp384''
      else if BitSize (ec_Curve key) = 521 then Ok ''nistp521''
      else Panic ''ssh: unsupported ecdsa key size'')"

definition supportedEllipticCurve :: "ecurve \<Rightarrow> bool" where
  "supportedEllipticCurve curve \<longleftrightarrow> curve = P256 \<or> curve = P384 \<or> curve = P521"

definition ecHash :: "ecurve \<Rightarrow> hash" where
  "ecHash curve =
     (if BitSize curve \<le> 256 then SHA256 else if BitSize curve \<le> 384 then SHA384 else SHA512)"

section \<open>Parsing plain keys\<close>

definition rsaWire_T :: structType where
  "rsaWire_T = \<lparr>st_name = '''', st_tag = '''',
     st_fields = [(''E'', KBigInt), (''N'', KBigInt), (''Rest'', KRest)]\<rparr>"

definition parseRSA :: "bytes \<Rightarrow> (PublicKey \<times> bytes) res" where
  "parseRSA inp = rbind (Unmarshal inp rsaWire_T) (\<lambda>w. case w of
       [VInt e, VInt n, VBytes rest] \<Rightarrow>
         if BitLen e > 24 then Err (ErrNew ''ssh: exponent too large'')
         else if e < 3 \<or> even e then Err (ErrNew ''ssh: incorrect exponent'')
         else Ok (RSAKey \<lparr>rsa_E = e, rsa_N = n\<rparr>, rest)
     | _ \<Rightarrow> kind_panic)"

definition dsaWire_T :: structType where
  "dsaWire_T = \<lparr>st_name = '''', st_tag = '''', st_fields =
     [(''P'', KBigInt), (''Q'', KBigInt), (''G'', KBigInt), (''Y'', KBigInt), (''Rest'', KRest)]\<rparr>"

definition parseDSA :: "bytes \<Rightarrow> (PublicKey \<times> bytes) res" where
  "parseDSA inp = rbind (Unmarshal inp dsaWire_T) (\<lambda>w. case w of
       [VInt p, VInt q, VInt g, VInt y, VBytes rest] \<Rightarrow>
         Ok (DSAKey \<lparr>dsa_P = p, dsa_Q = q, dsa_G = g, dsa_Y = y\<rparr>, rest)
     | _ \<Rightarrow> kind_panic)"

definition curve_of_id :: "string \<Rightarrow> ecurve option" where
  "curve_of_id s = (if s = ''nistp256'' then Some P256 else if s = ''nistp384'' then Some P384
     else if s = ''nistp521'' then Some P521 else None)"

definition parseECDSA :: "crypto \<Rightarrow> bytes \<Rightarrow> (PublicKey \<times> bytes) res" where
  "parseECDSA cr inp =
     rbind (or_err (parseString inp) errShortRead) (\<lambda>(identifier, inp).
       case curve_of_id (str_of identifier) of
         None \<Rightarrow> Err (ErrNew ''ssh: unsupported curve'')
       | Some c \<Rightarrow> rbind (or_err (parseString inp) errShortRead) (\<lambda>(keyBytes, inp).
           case ec_Unmarshal cr c keyBytes of
             None \<Rightarrow> Err (ErrNew ''ssh: invalid curve point'')
           | Some (x, y) \<Rightarrow> Ok (ECDSAKey \<lparr>ec_Curve = c, ec_X = x, ec_Y = y\<rparr>, inp)))"

section \<open>Certificate data\<close>

record genericCertData =
  g_Serial :: uint64
  g_CertType :: uint32
  g_KeyId :: string
  g_ValidPrincipals :: bytes
  g_ValidAfter :: uint64
  g_ValidBefore :: uint64
  g_CriticalOptions :: bytes
  g_Extensions :: bytes
  g_Reserved :: bytes
  g_SignatureKey :: bytes
  g_Signature :: bytes

definition genericCertData_T :: structType where
  "genericCertData_T = \<lparr>st_name = ''genericCertData'', st_tag = '''', st_fields =
     [(''Serial'', KUint64), (''CertType'', KUint32), (''KeyId'', KString),
      (''ValidPrincipals'', KBytes), (''ValidAfter'', KUint64), (''ValidBefore'', KUint64),
      (''CriticalOptions'', KBytes), (''Extensions'', KBytes), (''Reserved'', KBytes),
      (''SignatureKey'', KBytes), (''Signature'', KBytes)]\<rparr>"

definition genericCertData_vals :: "genericCertData \<Rightarrow> fval list" where
  "genericCertData_vals g =
     [VUint64 (g_Serial g), VUint32 (g_CertType g), VString (g_KeyId g),
      VBytes (g_ValidPrincipals g), VUint64 (g_ValidAfter g), VUint64 (g_ValidBefore g),
      VBytes (g_CriticalOptions g), VBytes (g_Extensions g), VBytes (g_Reserved g),
      VBytes (g_SignatureKey g), VBytes (g_Signature g)]"

definition genericCertData_of :: "fval list \<Rightarrow> genericCertData res" where
  "genericCertData_of vs = (case vs of [v0, v1, v2, v3, v4, v5, v6, v7, v8, v9, v10] \<Rightarrow>
       rbind (rUint64 v0) (\<lambda>x0. rbind (rUint32 v1) (\<lambda>x1. rbind (rString v2) (\<lambda>x2.
       rbind (rBytes v3) (\<lambda>x3. rbind (rUint64 v4) (\<lambda>x4. rbind (rUint64 v5) (\<lambda>x5.
       rbind (rBytes v6) (\<lambda>x6. rbind (rBytes v7) (\<lambda>x7. rbind (rBytes v8) (\<lambda>x8.
       rbind (rBytes v9) (\<lambda>x9. rbind (rBytes v10) (\<lambda>x10.
         Ok \<lparr>g_Serial = x0, g_CertType = x1, g_KeyId = x2, g_ValidPrincipals = x3,
             g_ValidAfter = x4, g_ValidBefore = x5, g_CriticalOptions = x6, g_Extensions = x7,
             g_Reserved = x8, g_SignatureKey = x9, g_Signature = x10\<rparr>)))))))))))
     | _ \<Rightarrow> kind_panic)"

definition Signature_T :: structType where
  "Signature_T = \<lparr>st_name = ''Signature'', st_tag = '''',
     st_fields = [(''Format'', KString), (''Blob'', KBytes)]\<rparr>"

definition Signature_vals :: "Signature \<Rightarrow> fval list" where
  "Signature_vals s = [VString (sig_Format s), VBytes (sig_Blob s)]"

definition parseSignatureBody :: "bytes \<Rightarrow> Signature parsed" where
  "parseSignatureBody inp = (case parseString inp of
       NotOk \<Rightarrow> NotOk
     | ParsePanic p \<Rightarrow> ParsePanic p
     | Parsed format inp \<Rightarrow> map_parsed (\<lambda>blob. \<lparr>sig_Format = str_of format, sig_Blob = blob\<rparr>) (parseString inp))"

definition parseSignature :: "bytes \<Rightarrow> Signature parsed" where
  "parseSignature inp = (case parseString inp of
       NotOk \<Rightarrow> NotOk
     | ParsePanic p \<Rightarrow> ParsePanic p
     | Parsed sigBytes rest \<Rightarrow> (case parseSignatureBody sigBytes of
           NotOk \<Rightarrow> NotOk
         | ParsePanic p \<Rightarrow> ParsePanic p
         | Parsed out trailing \<Rightarrow> if length trailing > 0 then NotOk else Parsed out rest))"

text \<open>The loops over length-prefixed strings; each iteration consumes at least four bytes.\<close>

function parsePrincipals :: "bytes \<Rightarrow> string list res" where
  "parsePrincipals principals =
     (if length principals > 0 then
        rbind (or_err (parseString principals) errShortRead) (\<lambda>(principal, rest).
          rbind (parsePrincipals rest) (\<lambda>ps. Ok (str_of principal # ps)))
      else Ok [])"
  by pat_completeness auto
termination
  by (relation "measure length") (auto dest: parseString_rest_less)

text \<open>The last argument is \<^verbatim>\<open>lastKey\<close>, none while \<^verbatim>\<open>haveLastKey\<close> is false.\<close>

function parseTuplesLoop :: "bytes \<Rightarrow> string option \<Rightarrow> (string \<times> string) list res" where
  "parseTuplesLoop inp lastKey =
     (if length inp > 0 then
        rbind (or_err (parseString inp) errShortRead) (\<lambda>(nameBytes, rest).
          rbind (or_err (parseString rest) errShortRead) (\<lambda>(data, rest).
            let name = str_of nameBytes in
            if (case lastKey of Some k \<Rightarrow> name \<le> k | None \<Rightarrow> False)
            then Err (Errorf ''ssh: certificate options are not in lexical order'' [])
            else rbind (parseTuplesLoop rest (Some name)) (\<lambda>tups. Ok ((name, str_of data) # tups))))
      else Ok [])"
  by pat_completeness auto
termination
  by (relation "measure (\<lambda>(inp, _). length inp)") (auto dest!: parseString_rest_less)

definition parseTuples :: "bytes \<Rightarrow> (string \<times> string) list res" where
  "parseTuples inp = parseTuplesLoop inp None"

declare parsePrincipals.simps [simp del] parseTuplesLoop.simps [simp del]

section \<open>Parsing keys and certificates\<close>

text \<open>
  The tail of \<open>parseCert\<close>, once the signature key is known: it does not recurse.
\<close>

definition parseCertTail :: "bytes \<Rightarrow> PublicKey \<Rightarrow> genericCertData \<Rightarrow> string list
    \<Rightarrow> (string \<times> string) list \<Rightarrow> (string \<times> string) list \<Rightarrow> PublicKey \<Rightarrow> Certificate res" where
  "parseCertTail nonce key g principals crit exts sigKey =
     (case parseSignatureBody (g_Signature g) of
        NotOk \<Rightarrow> Err (ErrNew ''ssh: signature parse error'')
      | ParsePanic p \<Rightarrow> Panic p
      | Parsed sig rest \<Rightarrow>
          if length rest > 0 then Err (ErrNew ''ssh: signature parse error'')
          else Ok (Certificate nonce key (g_Serial g) (g_CertType g) (g_KeyId g) principals
                 (g_ValidAfter g) (g_ValidBefore g) \<lparr>CriticalOptions = crit, Extensions = exts\<rparr>
                 (g_Reserved g) (Some sigKey) (Some sig)))"

lemma genericCertData_signature_key_less:
  assumes "Unmarshal rest genericCertData_T = Ok vs" "genericCertData_of vs = Ok g"
  shows "length (g_SignatureKey g) < length rest"
proof -
  note wf = Unmarshal_wf [OF assms(1)]
  from wf(2) assms(2) have v: "vs = genericCertData_vals g"
    by (auto simp: genericCertData_T_def genericCertData_of_def genericCertData_vals_def
        wf_vals_iffs reflect_defs)
  show ?thesis
    using wf(3) unfolding v
    by (auto simp: encStruct_def genericCertData_T_def genericCertData_vals_def encString_def
        split: if_splits)
qed

lemma parseRSA_rest: "parseRSA inp = Ok (k, rest) \<Longrightarrow> length rest < length inp"
proof -
  assume p: "parseRSA inp = Ok (k, rest)"
  then obtain vs where u: "Unmarshal inp rsaWire_T = Ok vs" by (auto simp: parseRSA_def)
  from Unmarshal_wf(2) [OF u] obtain e n r where vs: "vs = [VInt e, VInt n, VBytes r]"
    by (auto simp: rsaWire_T_def wf_vals_iffs)
  with p u have "r = rest" by (auto simp: parseRSA_def split: if_splits)
  with Unmarshal_wf(3) [OF u] show ?thesis
    by (auto simp: vs encStruct_def rsaWire_T_def encInt_def encString_def split: if_splits)
qed

lemma parseDSA_rest: "parseDSA inp = Ok (k, rest) \<Longrightarrow> length rest < length inp"
proof -
  assume p: "parseDSA inp = Ok (k, rest)"
  then obtain vs where u: "Unmarshal inp dsaWire_T = Ok vs" by (auto simp: parseDSA_def)
  from Unmarshal_wf(2) [OF u] obtain p q g y r
    where vs: "vs = [VInt p, VInt q, VInt g, VInt y, VBytes r]"
    by (auto simp: dsaWire_T_def wf_vals_iffs)
  with p u have "r = rest" by (auto simp: parseDSA_def)
  with Unmarshal_wf(3) [OF u] show ?thesis
    by (auto simp: vs encStruct_def dsaWire_T_def encInt_def encString_def split: if_splits)
qed

lemma parseECDSA_rest: "parseECDSA cr inp = Ok (k, rest) \<Longrightarrow> length rest < length inp"
proof -
  assume "parseECDSA cr inp = Ok (k, rest)"
  then obtain i r1 kb where "parseString inp = Parsed i r1" "parseString r1 = Parsed kb rest"
    by (auto simp: parseECDSA_def split: option.split_asm)
  then show ?thesis using parseString_rest_less less_trans by blast
qed

definition parsePlainKey :: "crypto \<Rightarrow> bytes \<Rightarrow> string \<Rightarrow> (PublicKey \<times> bytes) res" where
  "parsePlainKey cr inp algo =
     (if algo = KeyAlgoRSA then parseRSA inp
      else if algo = KeyAlgoDSA then parseDSA inp
      else if algo = KeyAlgoECDSA256 \<or> algo = KeyAlgoECDSA384 \<or> algo = KeyAlgoECDSA521
      then parseECDSA cr inp
      else Err (Errorf ''ssh: unknown key algorithm: %v'' [ANil]))"

lemma parsePlainKey_rest: "parsePlainKey cr inp algo = Ok (k, rest) \<Longrightarrow> length rest < length inp"
  unfolding parsePlainKey_def
  by (simp only: res.distinct split: if_split_asm) (blast dest: parseRSA_rest parseDSA_rest parseECDSA_rest)+

definition isCertAlgo :: "string \<Rightarrow> bool" where
  "isCertAlgo algo \<longleftrightarrow> algo = CertAlgoRSAv01 \<or> algo = CertAlgoDSAv01 \<or> algo = CertAlgoECDSA256v01
     \<or> algo = CertAlgoECDSA384v01 \<or> algo = CertAlgoECDSA521v01"

text \<open>
  \<open>ParsePublicKey\<close> reads the algorithm in front of the key and \<open>parsePubKey\<close> splits on it.
  \<open>parseCert\<close> is called with the algorithm of the key inside the certificate, one of the plain
  ones, for which \<open>parsePubKey\<close> is \<open>parsePlainKey\<close> (\<open>parseCert_unfold\<close> below is the equation of
  the source). The only recursion is on the key that signed the certificate.
\<close>

function (sequential)
  ParsePublicKey :: "crypto \<Rightarrow> bytes \<Rightarrow> PublicKey res"
and parsePubKey :: "crypto \<Rightarrow> bytes \<Rightarrow> string \<Rightarrow> (PublicKey \<times> bytes) res"
and parseCert :: "crypto \<Rightarrow> bytes \<Rightarrow> string \<Rightarrow> Certificate res"
where
  "ParsePublicKey cr inp =
     rbind (or_err (parseString inp) errShortRead) (\<lambda>(algo, inp).
       rbind (parsePubKey cr inp (str_of algo)) (\<lambda>(out, rest).
         if length rest > 0 then Err (ErrNew ''ssh: trailing junk in public key'') else Ok out))"
| "parsePubKey cr inp algo =
     (if isCertAlgo algo
      then rbind (certToPrivAlgo algo) (\<lambda>privAlgo.
        rbind (parseCert cr inp privAlgo) (\<lambda>cert. Ok (CertKey cert, [])))
      else parsePlainKey cr inp algo)"
| "parseCert cr inp privAlgo =
     rbind (or_err (parseString inp) errShortRead) (\<lambda>(nonce, rest).
       rbind (parsePlainKey cr rest privAlgo) (\<lambda>(key, rest).
         rbind (Unmarshal rest genericCertData_T) (\<lambda>vs.
         rbind (genericCertData_of vs) (\<lambda>g.
         rbind (parsePrincipals (g_ValidPrincipals g)) (\<lambda>principals.
         rbind (parseTuples (g_CriticalOptions g)) (\<lambda>crit.
         rbind (parseTuples (g_Extensions g)) (\<lambda>exts.
         rbind (ParsePublicKey cr (g_SignatureKey g)) (\<lambda>k.
           parseCertTail nonce key g principals crit exts k))))))))"
  by pat_completeness auto
termination
proof (relation "measures [
     \<lambda>x. case x of Inl (cr, inp) \<Rightarrow> length inp | Inr (Inl (cr, inp, a)) \<Rightarrow> length inp
        | Inr (Inr (cr, inp, a)) \<Rightarrow> length inp,
     \<lambda>x. case x of Inl _ \<Rightarrow> 0 | Inr (Inl _) \<Rightarrow> 1 | Inr (Inr _) \<Rightarrow> 0]", goal_cases)
qed (auto dest!: parseString_rest_less parsePlainKey_rest genericCertData_signature_key_less)

declare ParsePublicKey.simps [simp del] parsePubKey.simps [simp del] parseCert.simps [simp del]

lemma certToPrivAlgo_plain:
  "certToPrivAlgo algo = Ok p \<Longrightarrow> isCertAlgo algo \<and> \<not> isCertAlgo p"
  by (auto simp: certToPrivAlgo_def certAlgoNames_def isCertAlgo_def split: if_splits)

lemma parseCert_unfold:
  assumes "certToPrivAlgo algo = Ok privAlgo"
  shows "parseCert cr inp privAlgo =
     rbind (or_err (parseString inp) errShortRead) (\<lambda>(nonce, rest).
       rbind (parsePubKey cr rest privAlgo) (\<lambda>(key, rest).
         rbind (Unmarshal rest genericCertData_T) (\<lambda>vs.
         rbind (genericCertData_of vs) (\<lambda>g.
         rbind (parsePrincipals (g_ValidPrincipals g)) (\<lambda>principals.
         rbind (parseTuples (g_CriticalOptions g)) (\<lambda>crit.
         rbind (parseTuples (g_Extensions g)) (\<lambda>exts.
         rbind (ParsePublicKey cr (g_SignatureKey g)) (\<lambda>k.
           parseCertTail nonce key g principals crit exts k))))))))"
  using certToPrivAlgo_plain [OF assms] by (simp add: parsePubKey.simps parseCert.simps)

section \<open>Printing keys and certificates\<close>

definition rsaKey_T :: structType where
  "rsaKey_T = \<lparr>st_name = '''', st_tag = '''',
     st_fields = [(''Name'', KString), (''E'', KBigInt), (''N'', KBigInt)]\<rparr>"

definition dsaKey_T :: structType where
  "dsaKey_T = \<lparr>st_name = '''', st_tag = '''', st_fields = [(''Name'', KString),
     (''P'', KBigInt), (''Q'', KBigInt), (''G'', KBigInt), (''Y'', KBigInt)]\<rparr>"

definition ecdsaKey_T :: structType where
  "ecdsaKey_T = \<lparr>st_name = '''', st_tag = '''',
     st_fields = [(''Name'', KString), (''ID'', KString), (''Key'', KBytes)]\<rparr>"

definition certPrefix_T :: structType where
  "certPrefix_T = \<lparr>st_name = '''', st_tag = '''',
     st_fields = [(''Name'', KString), (''Nonce'', KBytes), (''Key'', KRest)]\<rparr>"

definition stringElem_T :: structType where
  "stringElem_T = \<lparr>st_name = '''', st_tag = '''', st_fields = [(''N'', KString)]\<rparr>"

definition tupleElem_T :: structType where
  "tupleElem_T = \<lparr>st_name = '''', st_tag = '''', st_fields = [(''K'', KString), (''V'', KString)]\<rparr>"

lemmas key_T_defs = rsaKey_T_def dsaKey_T_def ecdsaKey_T_def certPrefix_T_def stringElem_T_def
  tupleElem_T_def rsaWire_T_def dsaWire_T_def genericCertData_T_def Signature_T_def

fun marshalStringList :: "string list \<Rightarrow> bytes res" where
  "marshalStringList [] = Ok []"
| "marshalStringList (name # namelist) =
     rbind (Marshal stringElem_T [VString name]) (\<lambda>b.
       rbind (marshalStringList namelist) (\<lambda>to. Ok (b @ to)))"

text \<open>A map lookup gives the zero value for an absent key.\<close>

definition map_get :: "(string \<times> string) list \<Rightarrow> string \<Rightarrow> string" where
  "map_get m k = (case map_of m k of Some v \<Rightarrow> v | None \<Rightarrow> '''')"

fun marshalTuplesLoop :: "(string \<times> string) list \<Rightarrow> string list \<Rightarrow> bytes res" where
  "marshalTuplesLoop tups [] = Ok []"
| "marshalTuplesLoop tups (k # ks) =
     rbind (Marshal tupleElem_T [VString k, VString (map_get tups k)]) (\<lambda>b.
       rbind (marshalTuplesLoop tups ks) (\<lambda>r. Ok (b @ r)))"

definition marshalTuples :: "(string \<times> string) list \<Rightarrow> bytes res" where
  "marshalTuples tups = marshalTuplesLoop tups (sort (map fst tups))"

text \<open>The method \<^verbatim>\<open>Type\<close> of the four implementations of the interface.\<close>

fun keyType :: "PublicKey \<Rightarrow> string res"
and certTypeName :: "Certificate \<Rightarrow> string res" where
  "keyType (RSAKey r) = Ok ''ssh-rsa''"
| "keyType (DSAKey k) = Ok ''ssh-dss''"
| "keyType (ECDSAKey key) = rbind (nistID key) (\<lambda>i. Ok (''ecdsa-sha2-'' @ i))"
| "keyType (CertKey c) = certTypeName c"
| "certTypeName (Certificate nonce key serial ctype kid princ va vb perm resv skey sig) =
     rbind (keyType key) (\<lambda>t. case map_of certAlgoNames t of
         Some algo \<Rightarrow> Ok algo
       | None \<Rightarrow> Panic ''unknown cert key type'')"

definition rsaMarshal :: "rsaPublicKey \<Rightarrow> bytes res" where
  "rsaMarshal r = Marshal rsaKey_T [VString KeyAlgoRSA, VInt (rsa_E r), VInt (rsa_N r)]"

definition dsaMarshal :: "dsaPublicKey \<Rightarrow> bytes res" where
  "dsaMarshal k = rbind (keyType (DSAKey k)) (\<lambda>t.
     Marshal dsaKey_T [VString t, VInt (dsa_P k), VInt (dsa_Q k), VInt (dsa_G k), VInt (dsa_Y k)])"

definition ecdsaMarshal :: "ecdsaPublicKey \<Rightarrow> bytes res" where
  "ecdsaMarshal key =
     rbind (ec_Marshal (ec_Curve key) (ec_X key) (ec_Y key)) (\<lambda>keyBytes.
     rbind (keyType (ECDSAKey key)) (\<lambda>t. rbind (nistID key) (\<lambda>i.
       Marshal ecdsaKey_T [VString t, VString i, VBytes keyBytes])))"

text \<open>The rest returned by \<open>parseString\<close> when the success flag is ignored.\<close>

primrec parsed_rest :: "'a parsed \<Rightarrow> bytes res" where
  "parsed_rest NotOk = Ok []"
| "parsed_rest (Parsed x r) = Ok r"
| "parsed_rest (ParsePanic p) = Panic p"

fun keyMarshal :: "PublicKey \<Rightarrow> bytes res"
and certMarshal :: "Certificate \<Rightarrow> bytes res" where
  "keyMarshal (RSAKey r) = rsaMarshal r"
| "keyMarshal (DSAKey k) = dsaMarshal k"
| "keyMarshal (ECDSAKey key) = ecdsaMarshal key"
| "keyMarshal (CertKey c) = certMarshal c"
| "certMarshal (Certificate nonce key serial ctype kid princ va vb perm resv skey sig) =
     rbind (marshalStringList princ) (\<lambda>vp.
     rbind (marshalTuples (CriticalOptions perm)) (\<lambda>co.
     rbind (marshalTuples (Extensions perm)) (\<lambda>ex.
     rbind (case skey of None \<Rightarrow> Panic ''nil pointer dereference'' | Some k \<Rightarrow> keyMarshal k) (\<lambda>sk.
     rbind (case sig of None \<Rightarrow> Ok [] | Some s \<Rightarrow> Marshal Signature_T (Signature_vals s)) (\<lambda>sg.
     rbind (Marshal genericCertData_T (genericCertData_vals
        \<lparr>g_Serial = serial, g_CertType = ctype, g_KeyId = kid, g_ValidPrincipals = vp,
         g_ValidAfter = va, g_ValidBefore = vb, g_CriticalOptions = co, g_Extensions = ex,
         g_Reserved = resv, g_SignatureKey = sk, g_Signature = sg\<rparr>)) (\<lambda>genericBytes.
     rbind (keyMarshal key) (\<lambda>keyBytes.
     rbind (parsed_rest (parseString keyBytes)) (\<lambda>keyBytes.
     rbind (certTypeName (Certificate nonce key serial ctype kid princ va vb perm resv skey sig)) (\<lambda>t.
     rbind (Marshal certPrefix_T [VString t, VBytes nonce, VBytes keyBytes]) (\<lambda>prefix.
       Ok (prefix @ genericBytes)))))))))))"

fun with_signature :: "Certificate \<Rightarrow> Signature option \<Rightarrow> Certificate" where
  "with_signature (Certificate nonce key serial ctype kid princ va vb perm resv skey _) sig =
     Certificate nonce key serial ctype kid princ va vb perm resv skey sig"

definition bytesForSigning :: "Certificate \<Rightarrow> bytes res" where
  "bytesForSigning cert = rbind (certMarshal (with_signature cert None)) (\<lambda>out.
     if length out < 4 then Panic ''slice bounds out of range'' else Ok (take (length out - 4) out))"

section \<open>Verifying signatures\<close>

definition ok_unless :: "goerr option \<Rightarrow> unit res" where
  "ok_unless e = (case e of None \<Rightarrow> Ok () | Some x \<Rightarrow> Err x)"

definition ecSig_T :: structType where
  "ecSig_T = \<lparr>st_name = '''', st_tag = '''', st_fields = [(''R'', KBigInt), (''S'', KBigInt)]\<rparr>"

definition sigTypeError :: "string \<Rightarrow> string \<Rightarrow> goerr" where
  "sigTypeError f t = Errorf ''ssh: signature type %s for key type %s'' [AStr f, AStr t]"

definition rsaVerify :: "crypto \<Rightarrow> rsaPublicKey \<Rightarrow> bytes \<Rightarrow> Signature \<Rightarrow> unit res" where
  "rsaVerify cr r data sig =
     (if sig_Format sig \<noteq> ''ssh-rsa'' then Err (sigTypeError (sig_Format sig) ''ssh-rsa'')
      else ok_unless (cr_rsa_verify cr r SHA1 (cr_hash cr SHA1 data) (sig_Blob sig)))"

definition dsaVerify :: "crypto \<Rightarrow> dsaPublicKey \<Rightarrow> bytes \<Rightarrow> Signature \<Rightarrow> unit res" where
  "dsaVerify cr k data sig =
     (if sig_Format sig \<noteq> ''ssh-dss'' then Err (sigTypeError (sig_Format sig) ''ssh-dss'')
      else if length (sig_Blob sig) \<noteq> 40 then Err (ErrNew ''ssh: DSA signature parse error'')
      else if cr_dsa_verify cr k (cr_hash cr SHA1 data)
        (int (be_val (take 20 (sig_Blob sig)))) (int (be_val (drop 20 (sig_Blob sig)))) then Ok ()
      else Err (ErrNew ''ssh: signature did not verify''))"

definition ecdsaVerify :: "crypto \<Rightarrow> ecdsaPublicKey \<Rightarrow> bytes \<Rightarrow> Signature \<Rightarrow> unit res" where
  "ecdsaVerify cr key data sig = rbind (keyType (ECDSAKey key)) (\<lambda>t.
     if sig_Format sig \<noteq> t then Err (sigTypeError (sig_Format sig) t)
     else rbind (Unmarshal (sig_Blob sig) ecSig_T) (\<lambda>vs. case vs of
         [v0, v1] \<Rightarrow> rbind (rInt v0) (\<lambda>r. rbind (rInt v1) (\<lambda>s.
           if cr_ecdsa_verify cr key (cr_hash cr (ecHash (ec_Curve key)) data) r s then Ok ()
           else Err (ErrNew ''ssh: signature did not verify'')))
       | _ \<Rightarrow> kind_panic))"

fun keyVerify :: "crypto \<Rightarrow> PublicKey \<Rightarrow> bytes \<Rightarrow> Signature \<Rightarrow> unit res"
and certVerify :: "crypto \<Rightarrow> Certificate \<Rightarrow> bytes \<Rightarrow> Signature \<Rightarrow> unit res" where
  "keyVerify cr (RSAKey r) data sig = rsaVerify cr r data sig"
| "keyVerify cr (DSAKey k) data sig = dsaVerify cr k data sig"
| "keyVerify cr (ECDSAKey key) data sig = ecdsaVerify cr key data sig"
| "keyVerify cr (CertKey c) data sig = certVerify cr c data sig"
| "certVerify cr (Certificate nonce key serial ctype kid princ va vb perm resv skey s) data sig =
     keyVerify cr key data sig"

end
