(* ===== verification/Key_Codec.thy ===== *)
theory Key_Codec
  imports Keys
begin

text \<open>
  Correctness of the key parser and printer of \<^theory_text>\<open>Keys\<close>: every key and certificate that
  \<open>ParsePublicKey\<close> accepts satisfies \<open>wf_key\<close>, can be printed, and its printed form parses back
  to it; conversely every key with \<open>wf_key\<close> survives printing and parsing.
\<close>

section \<open>Printed forms\<close>

definition curveBytes :: "ecurve \<Rightarrow> nat" where
  "curveBytes c = (BitSize c + 7) div 8"

definition encPoint :: "ecurve \<Rightarrow> int \<Rightarrow> int \<Rightarrow> bytes" where
  "encPoint c x y = 4 # be_fixed (curveBytes c) (nat x) @ be_fixed (curveBytes c) (nat y)"

definition wf_point :: "crypto \<Rightarrow> ecurve \<Rightarrow> int \<Rightarrow> int \<Rightarrow> bool" where
  "wf_point cr c x y \<longleftrightarrow> 0 \<le> x \<and> x < 256 ^ curveBytes c \<and> 0 \<le> y \<and> y < 256 ^ curveBytes c
     \<and> cr_on_curve cr c x y"

lemma be_fixed_pad: "n < 256 ^ k \<Longrightarrow> be_fixed k n = replicate (k - length (be_bytes n)) 0 @ be_bytes n"
proof -
  assume n: "n < 256 ^ k"
  have len: "length (be_bytes n) \<le> k"
  proof (cases "n = 0")
    case False
    show ?thesis
    proof (rule ccontr)
      assume "\<not> ?thesis"
      then obtain b bs where b: "be_bytes n = b # bs" and l: "k \<le> length bs" by (cases "be_bytes n") auto
      with False hd_be_bytes [of n] have "unat b > 0" by (simp add: unat_gt_0)
      then have "256 ^ length bs \<le> be_val (b # bs)" by (simp add: be_val_Cons Suc_leI trans_le_add1)
      moreover have "(256::nat) ^ k \<le> 256 ^ length bs" using l by (rule power_increasing) simp
      ultimately have "256 ^ k \<le> be_val (b # bs)" by (rule order_trans [rotated])
      with n show False by (simp flip: b)
    qed
  qed simp
  have "be_fixed (length (replicate (k - length (be_bytes n)) (0::byte) @ be_bytes n))
      (be_val (replicate (k - length (be_bytes n)) 0 @ be_bytes n))
    = replicate (k - length (be_bytes n)) 0 @ be_bytes n" by (rule be_fixed_be_val)
  with len show ?thesis by (simp add: be_val_drop_zeros)
qed

lemma length_be_bytes_fits: "n < 256 ^ k \<Longrightarrow> length (be_bytes n) \<le> k"
  using be_fixed_pad [of n k] length_be_fixed [of k n] by simp

lemma ec_Marshal_enc:
  assumes "0 \<le> x" "x < 256 ^ curveBytes c" "0 \<le> y" "y < 256 ^ curveBytes c"
  shows "ec_Marshal c x y = Ok (encPoint c x y)"
proof -
  have n: "nat x < 256 ^ curveBytes c" "nat y < 256 ^ curveBytes c"
    using assms by (simp_all add: nat_less_iff)
  note l = n [THEN length_be_bytes_fits]
  show ?thesis
    using assms l
    unfolding ec_Marshal_def encPoint_def be_fixed_pad [OF n(1)] be_fixed_pad [OF n(2)]
      curveBytes_def [symmetric] Let_def overlay_def
    by (simp add: nat_diff_distrib nat_add_distrib nat_mult_distrib int_ops(6) [symmetric] replicate_add [symmetric] take_Cons' drop_Cons')
qed

lemma ec_Unmarshal_iff:
  "ec_Unmarshal cr c data = Some (x, y) \<longleftrightarrow> wf_point cr c x y \<and> data = encPoint c x y"
proof
  assume u: "ec_Unmarshal cr c data = Some (x, y)"
  then obtain d where d: "data = 4 # d" "length d = 2 * curveBytes c"
    by (cases data) (auto simp: ec_Unmarshal_def Let_def curveBytes_def split: if_splits)
  with u have x: "x = int (be_val (take (curveBytes c) d))" and y: "y = int (be_val (drop (curveBytes c) d))"
    and oc: "cr_on_curve cr c x y"
    by (auto simp: ec_Unmarshal_def Let_def curveBytes_def split: if_splits)
  have l: "length (take (curveBytes c) d) = curveBytes c" "length (drop (curveBytes c) d) = curveBytes c"
    using d by simp_all
  have b: "be_val (take (curveBytes c) d) < 256 ^ curveBytes c" "be_val (drop (curveBytes c) d) < 256 ^ curveBytes c"
    using be_val_less [of "take (curveBytes c) d"] be_val_less [of "drop (curveBytes c) d"] l by simp_all
  have "be_fixed (curveBytes c) (nat x) = take (curveBytes c) d" "be_fixed (curveBytes c) (nat y) = drop (curveBytes c) d"
    using be_fixed_be_val [of "take (curveBytes c) d"] be_fixed_be_val [of "drop (curveBytes c) d"] l
    by (simp_all add: x y)
  with d oc x y b show "wf_point cr c x y \<and> data = encPoint c x y"
    by (simp add: wf_point_def encPoint_def)
next
  assume a: "wf_point cr c x y \<and> data = encPoint c x y"
  then have "nat x < 256 ^ curveBytes c" "nat y < 256 ^ curveBytes c"
    by (simp_all add: wf_point_def nat_less_iff)
  with a show "ec_Unmarshal cr c data = Some (x, y)"
    by (simp add: ec_Unmarshal_def Let_def encPoint_def be_val_be_fixed wf_point_def flip: curveBytes_def)
qed

section \<open>Plain keys\<close>

definition curveID :: "ecurve \<Rightarrow> string" where
  "curveID c = (if c = P256 then ''nistp256'' else if c = P384 then ''nistp384'' else ''nistp521'')"

text \<open>The name in front of a key, and the fields that follow it.\<close>

primrec plainName :: "PublicKey \<Rightarrow> string" where
  "plainName (RSAKey r) = KeyAlgoRSA"
| "plainName (DSAKey k) = KeyAlgoDSA"
| "plainName (ECDSAKey k) = ''ecdsa-sha2-'' @ curveID (ec_Curve k)"
| "plainName (CertKey c) = ''''"

primrec encBody :: "PublicKey \<Rightarrow> bytes" where
  "encBody (RSAKey r) = encInt (rsa_E r) @ encInt (rsa_N r)"
| "encBody (DSAKey k) = encInt (dsa_P k) @ encInt (dsa_Q k) @ encInt (dsa_G k) @ encInt (dsa_Y k)"
| "encBody (ECDSAKey k) = encString (bytes_of (curveID (ec_Curve k)))
     @ encString (encPoint (ec_Curve k) (ec_X k) (ec_Y k))"
| "encBody (CertKey c) = []"

definition encPlain :: "PublicKey \<Rightarrow> bytes" where
  "encPlain k = encString (bytes_of (plainName k)) @ encBody k"

text \<open>The keys that the parsers of plain keys build.\<close>

primrec wf_plain :: "crypto \<Rightarrow> PublicKey \<Rightarrow> bool" where
  "wf_plain cr (RSAKey r) = (BitLen (rsa_E r) \<le> 24 \<and> 3 \<le> rsa_E r \<and> odd (rsa_E r))"
| "wf_plain cr (DSAKey k) = True"
| "wf_plain cr (ECDSAKey k) = (supportedEllipticCurve (ec_Curve k)
     \<and> wf_point cr (ec_Curve k) (ec_X k) (ec_Y k))"
| "wf_plain cr (CertKey c) = False"

lemma supported_cases:
  assumes "supportedEllipticCurve c"
  obtains "c = P256" | "c = P384" | "c = P521"
  using assms by (auto simp: supportedEllipticCurve_def)

lemma nistID_supported: "supportedEllipticCurve (ec_Curve k) \<Longrightarrow> nistID k = Ok (curveID (ec_Curve k))"
  by (auto simp: nistID_def curveID_def elim: supported_cases)

lemma curve_of_id_iff: "curve_of_id s = Some c \<longleftrightarrow> supportedEllipticCurve c \<and> s = curveID c"
  by (auto simp: curve_of_id_def curveID_def supportedEllipticCurve_def)

lemma keyType_plain: "wf_plain cr k \<Longrightarrow> keyType k = Ok (plainName k)"
  by (cases k) (simp_all add: nistID_supported)

lemma typeTag_untagged [simp]: "st_tag st = '''' \<Longrightarrow> typeTag st = 0"
  by (simp add: typeTag_def Atoi_def)

lemma keyMarshal_plain: "wf_plain cr k \<Longrightarrow> keyMarshal k = Ok (encPlain k)"
proof (cases k)
  case (ECDSAKey e)
  moreover assume "wf_plain cr k"
  ultimately have s: "supportedEllipticCurve (ec_Curve e)"
    and "ec_Marshal (ec_Curve e) (ec_X e) (ec_Y e) = Ok (encPoint (ec_Curve e) (ec_X e) (ec_Y e))"
    by (auto simp: wf_point_def ec_Marshal_enc)
  with ECDSAKey show ?thesis
    by (simp add: ecdsaMarshal_def nistID_supported Marshal_enc key_T_defs encStruct_def encPlain_def)
qed (simp_all add: rsaMarshal_def dsaMarshal_def Marshal_enc key_T_defs encStruct_def encPlain_def)

lemma parseRSA_enc:
  assumes "wf_plain cr (RSAKey r)" "length (encBody (RSAKey r) @ rest) < 2 ^ 32"
  shows "parseRSA (encBody (RSAKey r) @ rest) = Ok (RSAKey r, rest)"
proof -
  let ?vs = "[VInt (rsa_E r), VInt (rsa_N r), VBytes rest]"
  have e: "encStruct rsaWire_T ?vs = encBody (RSAKey r) @ rest"
    by (simp add: encStruct_def rsaWire_T_def)
  have "Unmarshal (encStruct rsaWire_T ?vs) rsaWire_T = Ok ?vs"
    using assms(2) mpint.enc_nonempty by (intro Unmarshal_enc; simp only: e) (simp_all add: rsaWire_T_def)
  with assms(1) show ?thesis by (simp add: e parseRSA_def)
qed

lemma parseDSA_enc:
  assumes "length (encBody (DSAKey k) @ rest) < 2 ^ 32"
  shows "parseDSA (encBody (DSAKey k) @ rest) = Ok (DSAKey k, rest)"
proof -
  let ?vs = "[VInt (dsa_P k), VInt (dsa_Q k), VInt (dsa_G k), VInt (dsa_Y k), VBytes rest]"
  have e: "encStruct dsaWire_T ?vs = encBody (DSAKey k) @ rest"
    by (simp add: encStruct_def dsaWire_T_def)
  have "Unmarshal (encStruct dsaWire_T ?vs) dsaWire_T = Ok ?vs"
    using assms mpint.enc_nonempty by (intro Unmarshal_enc; simp only: e) (simp_all add: dsaWire_T_def)
  then show ?thesis by (simp add: e parseDSA_def)
qed

lemma parseECDSA_enc:
  assumes "wf_plain cr (ECDSAKey k)" "length (encBody (ECDSAKey k) @ rest) < 2 ^ 32"
  shows "parseECDSA cr (encBody (ECDSAKey k) @ rest) = Ok (ECDSAKey k, rest)"
proof -
  let ?p = "encString (encPoint (ec_Curve k) (ec_X k) (ec_Y k)) @ rest"
  have "parseString (encString (bytes_of (curveID (ec_Curve k))) @ ?p)
      = Parsed (bytes_of (curveID (ec_Curve k))) ?p" "parseString ?p = Parsed (encPoint (ec_Curve k) (ec_X k) (ec_Y k)) rest"
    using assms(2) by (intro parseString_encString; simp)+
  moreover have "curve_of_id (curveID (ec_Curve k)) = Some (ec_Curve k)"
    using assms(1) by (simp add: curve_of_id_iff)
  moreover have "ec_Unmarshal cr (ec_Curve k) (encPoint (ec_Curve k) (ec_X k) (ec_Y k)) = Some (ec_X k, ec_Y k)"
    using assms(1) by (simp add: ec_Unmarshal_iff)
  ultimately show ?thesis by (simp add: parseECDSA_def)
qed

lemma parsePlainKey_enc:
  assumes "wf_plain cr k" "length (encBody k @ rest) < 2 ^ 32"
  shows "parsePlainKey cr (encBody k @ rest) (plainName k) = Ok (k, rest)"
proof (cases k)
  case (RSAKey r)
  with assms show ?thesis using parseRSA_enc [of cr r rest] by (simp add: parsePlainKey_def del: encBody.simps)
next
  case (DSAKey d)
  with assms show ?thesis using parseDSA_enc [of d rest] by (simp add: parsePlainKey_def del: encBody.simps)
next
  case (ECDSAKey e)
  with assms have "parsePlainKey cr (encBody k @ rest) (plainName k) = parseECDSA cr (encBody k @ rest)"
    by (auto simp: parsePlainKey_def curveID_def supportedEllipticCurve_def simp del: encBody.simps)
  with assms ECDSAKey show ?thesis using parseECDSA_enc [of cr e rest] by (simp del: encBody.simps)
qed (use assms in simp)

text \<open>Conversely, what the parsers of plain keys accept.\<close>

lemma parseRSA_wf:
  assumes "parseRSA inp = Ok (k, rest)"
  shows "wf_plain cr k \<and> length (encBody k @ rest) \<le> length inp \<and> plainName k = KeyAlgoRSA"
proof -
  from assms obtain vs where u: "Unmarshal inp rsaWire_T = Ok vs" by (auto simp: parseRSA_def)
  from Unmarshal_wf(2) [OF u] obtain e n r where vs: "vs = [VInt e, VInt n, VBytes r]"
    by (auto simp: rsaWire_T_def wf_vals_iffs)
  with assms u have "r = rest" "k = RSAKey \<lparr>rsa_E = e, rsa_N = n\<rparr>" "BitLen e \<le> 24" "3 \<le> e" "odd e"
    by (auto simp: parseRSA_def split: if_splits)
  with Unmarshal_wf(3) [OF u] show ?thesis by (simp add: vs encStruct_def rsaWire_T_def)
qed

lemma parseDSA_wf:
  assumes "parseDSA inp = Ok (k, rest)"
  shows "wf_plain cr k \<and> length (encBody k @ rest) \<le> length inp \<and> plainName k = KeyAlgoDSA"
proof -
  from assms obtain vs where u: "Unmarshal inp dsaWire_T = Ok vs" by (auto simp: parseDSA_def)
  from Unmarshal_wf(2) [OF u] obtain p q g y r
    where vs: "vs = [VInt p, VInt q, VInt g, VInt y, VBytes r]"
    by (auto simp: dsaWire_T_def wf_vals_iffs)
  with assms u have "r = rest" "k = DSAKey \<lparr>dsa_P = p, dsa_Q = q, dsa_G = g, dsa_Y = y\<rparr>"
    by (auto simp: parseDSA_def)
  with Unmarshal_wf(3) [OF u] show ?thesis by (simp add: vs encStruct_def dsaWire_T_def)
qed

lemma parseECDSA_wf:
  assumes "parseECDSA cr inp = Ok (k, rest)"
  shows "wf_plain cr k \<and> length (encBody k @ rest) \<le> length inp
    \<and> (\<exists>e. k = ECDSAKey e)"
proof -
  from assms obtain i r1 kb c x y where p: "parseString inp = Parsed i r1" "parseString r1 = Parsed kb rest"
    and c: "curve_of_id (str_of i) = Some c" and u: "ec_Unmarshal cr c kb = Some (x, y)"
    and k: "k = ECDSAKey \<lparr>ec_Curve = c, ec_X = x, ec_Y = y\<rparr>"
    by (auto simp: parseECDSA_def split: option.split_asm)
  have "length (encString i @ r1) \<le> length inp" "length (encString kb @ rest) \<le> length r1"
    using wstr.dec_length p by blast+
  moreover from c have "supportedEllipticCurve c" "i = bytes_of (curveID c)"
    using bytes_of_str_of [of i] by (simp_all add: curve_of_id_iff)
  ultimately show ?thesis using u by (simp add: k ec_Unmarshal_iff encString_def)
qed

lemma length_plainName_ECDSA: "supportedEllipticCurve (ec_Curve e) \<Longrightarrow> length (plainName (ECDSAKey e)) = 19"
  by (auto simp: curveID_def elim: supported_cases)

lemma parsePlainKey_wf:
  assumes "parsePlainKey cr inp algo = Ok (k, rest)"
  shows "wf_plain cr k \<and> length (encBody k @ rest) \<le> length inp \<and> length (plainName k) = length algo"
proof -
  consider "algo = KeyAlgoRSA" "parseRSA inp = Ok (k, rest)"
    | "algo = KeyAlgoDSA" "parseDSA inp = Ok (k, rest)"
    | "algo = KeyAlgoECDSA256 \<or> algo = KeyAlgoECDSA384 \<or> algo = KeyAlgoECDSA521"
      "parseECDSA cr inp = Ok (k, rest)"
    using assms unfolding parsePlainKey_def by (simp only: res.distinct split: if_split_asm)
  then show ?thesis
  proof cases
    case 1
    with parseRSA_wf [OF 1(2), of cr] show ?thesis by simp
  next
    case 2
    with parseDSA_wf [OF 2(2), of cr] show ?thesis by simp
  next
    case 3
    from 3(1) have "length algo = 19" by (elim disjE) simp_all
    moreover from parseECDSA_wf [OF 3(2)] obtain e where "k = ECDSAKey e" "wf_plain cr k"
      "length (encBody k @ rest) \<le> length inp" by blast
    ultimately show ?thesis using length_plainName_ECDSA [of e] by simp
  qed
qed

section \<open>String lists and options\<close>

definition encList :: "string list \<Rightarrow> bytes" where
  "encList ps = concat (map (\<lambda>p. encString (bytes_of p)) ps)"

definition encTuples :: "(string \<times> string) list \<Rightarrow> bytes" where
  "encTuples m = concat (map (\<lambda>(k, v). encString (bytes_of k) @ encString (bytes_of v)) m)"

definition sorted_keys :: "(string \<times> 'v) list \<Rightarrow> bool" where
  "sorted_keys m \<longleftrightarrow> sorted_wrt (<) (map fst m)"

lemma enc_list_simps [simp]:
  "encList [] = []" "encList (p # ps) = encString (bytes_of p) @ encList ps"
  "encTuples [] = []" "encTuples ((k, v) # m) = encString (bytes_of k) @ encString (bytes_of v) @ encTuples m"
  by (simp_all add: encList_def encTuples_def)

lemma encString_eq_Nil [simp]: "encString s \<noteq> []"
  by (simp add: encString_def be32_def)

lemma marshalStringList_enc: "marshalStringList ps = Ok (encList ps)"
  by (induction ps) (simp_all add: Marshal_enc key_T_defs encStruct_def)

lemma marshalTuplesLoop_enc:
  "marshalTuplesLoop m ks = Ok (encTuples (map (\<lambda>k. (k, map_get m k)) ks))"
  by (induction ks) (simp_all add: Marshal_enc key_T_defs encStruct_def)

lemma sorted_keys_sort: "sorted_keys m \<Longrightarrow> sort (map fst m) = map fst m"
  unfolding sorted_keys_def by (intro sorted_sort_id) (metis strict_sorted_iff)

lemma sorted_keys_map_get:
  assumes "sorted_keys m"
  shows "map (\<lambda>k. (k, map_get m k)) (map fst m) = m"
proof -
  have "distinct (map fst m)" using assms by (simp add: sorted_keys_def strict_sorted_iff)
  then have "map_get m (fst e) = snd e" if "e \<in> set m" for e
    using that by (cases e) (simp add: map_get_def)
  then show ?thesis by (intro nth_equalityI) simp_all
qed

lemma marshalTuples_enc: "sorted_keys m \<Longrightarrow> marshalTuples m = Ok (encTuples m)"
  unfolding marshalTuples_def marshalTuplesLoop_enc sorted_keys_sort
  by (simp only: sorted_keys_map_get)

lemma parsePrincipals_enc: "length (encList ps) < 2 ^ 32 \<Longrightarrow> parsePrincipals (encList ps) = Ok ps"
proof (induction ps)
  case (Cons p ps)
  then have "parseString (encString (bytes_of p) @ encList ps) = Parsed (bytes_of p) (encList ps)"
    by (intro parseString_encString) simp
  with Cons show ?case by (simp add: parsePrincipals.simps [of "encString (bytes_of p) @ encList ps"])
qed (simp add: parsePrincipals.simps)

lemma parsePrincipals_length: "parsePrincipals b = Ok ps \<Longrightarrow> length (encList ps) \<le> length b"
proof (induction b arbitrary: ps rule: parsePrincipals.induct)
  case (1 b)
  show ?case
  proof (cases "b = []")
    case False
    with "1.prems" obtain p rest ps' where p: "parseString b = Parsed p rest"
      and r: "parsePrincipals rest = Ok ps'" and ps: "ps = str_of p # ps'"
      by (auto simp: parsePrincipals.simps [of b])
    from "1.IH" [of "(p, rest)" p rest ps'] False p r have "length (encList ps') \<le> length rest" by simp
    with wstr.dec_length [OF p] show ?thesis by (simp add: ps)
  qed (use "1.prems" in \<open>simp add: parsePrincipals.simps\<close>)
qed

definition above :: "string option \<Rightarrow> string \<Rightarrow> bool" where
  "above lk name \<longleftrightarrow> (case lk of None \<Rightarrow> True | Some k \<Rightarrow> k < name)"

lemma parseTuplesLoop_step:
  assumes "parseString b = Parsed n r1" "parseString r1 = Parsed d r2"
  shows "parseTuplesLoop b lk =
    (if above lk (str_of n)
     then rbind (parseTuplesLoop r2 (Some (str_of n))) (\<lambda>tups. Ok ((str_of n, str_of d) # tups))
     else Err (Errorf ''ssh: certificate options are not in lexical order'' []))"
proof -
  have "b \<noteq> []" using parseString_ParsedD(2) [OF assms(1)] by auto
  with assms show ?thesis
    by (auto simp: parseTuplesLoop.simps [of b] above_def not_le Let_def split: option.splits)
qed

lemma parseTuplesLoop_enc:
  "sorted_keys m \<Longrightarrow> (m \<noteq> [] \<Longrightarrow> above lk (fst (hd m))) \<Longrightarrow> length (encTuples m) < 2 ^ 32
    \<Longrightarrow> parseTuplesLoop (encTuples m) lk = Ok m"
proof (induction m arbitrary: lk)
  case (Cons e m)
  obtain k v where e: "e = (k, v)" by (cases e)
  have "parseString (encTuples (e # m)) = Parsed (bytes_of k) (encString (bytes_of v) @ encTuples m)"
    "parseString (encString (bytes_of v) @ encTuples m) = Parsed (bytes_of v) (encTuples m)"
    using Cons.prems(3) by (simp_all only: e enc_list_simps) (intro parseString_encString; simp)+
  note step = parseTuplesLoop_step [OF this]
  have "parseTuplesLoop (encTuples m) (Some k) = Ok m"
    using Cons.prems by (intro Cons.IH) (auto simp: e sorted_keys_def above_def neq_Nil_conv)
  with Cons.prems show ?case by (simp only: step) (simp add: e)
qed (simp add: parseTuplesLoop.simps)

lemma parseTuplesLoop_wf:
  "parseTuplesLoop b lk = Ok m \<Longrightarrow> sorted_keys m \<and> (m \<noteq> [] \<longrightarrow> above lk (fst (hd m)))
     \<and> length (encTuples m) \<le> length b"
proof (induction b lk arbitrary: m rule: parseTuplesLoop.induct)
  case (1 b lk)
  show ?case
  proof (cases "b = []")
    case False
    with "1.prems" obtain n r1 d r2 where p: "parseString b = Parsed n r1" "parseString r1 = Parsed d r2"
      by (auto simp: parseTuplesLoop.simps [of b])
    note step = parseTuplesLoop_step [OF p, of lk]
    with "1.prems" obtain tl where ab: "above lk (str_of n)"
      and t: "parseTuplesLoop r2 (Some (str_of n)) = Ok tl" and m: "m = (str_of n, str_of d) # tl"
      by (auto split: if_splits)
    have "sorted_keys tl \<and> (tl \<noteq> [] \<longrightarrow> above (Some (str_of n)) (fst (hd tl))) \<and> length (encTuples tl) \<le> length r2"
      using "1.IH" False p ab t by (simp add: above_def not_le split: option.splits)
    with ab wstr.dec_length [OF p(1)] wstr.dec_length [OF p(2)] show ?thesis
      by (cases tl) (auto simp: m sorted_keys_def above_def)
  qed (use "1.prems" in \<open>simp add: parseTuplesLoop.simps sorted_keys_def\<close>)
qed

section \<open>Certificates\<close>

definition certName :: "PublicKey \<Rightarrow> string" where
  "certName k = map_get certAlgoNames (plainName k)"

definition encSig :: "Signature \<Rightarrow> bytes" where
  "encSig s = encStruct Signature_T (Signature_vals s)"

text \<open>The printed form of any key; a certificate without authority has none.\<close>

fun encKey :: "PublicKey \<Rightarrow> bytes"
and encCert :: "Certificate \<Rightarrow> bytes" where
  "encKey (CertKey c) = encCert c"
| "encKey k = encPlain k"
| "encCert (Certificate nonce key serial ctype kid princ va vb perm resv skey sig) =
     encString (bytes_of (certName key)) @ encString nonce @ encBody key @
     encStruct genericCertData_T (genericCertData_vals
        \<lparr>g_Serial = serial, g_CertType = ctype, g_KeyId = kid, g_ValidPrincipals = encList princ,
         g_ValidAfter = va, g_ValidBefore = vb, g_CriticalOptions = encTuples (CriticalOptions perm),
         g_Extensions = encTuples (Extensions perm), g_Reserved = resv,
         g_SignatureKey = (case skey of None \<Rightarrow> [] | Some k \<Rightarrow> encKey k),
         g_Signature = (case sig of None \<Rightarrow> [] | Some s \<Rightarrow> encSig s)\<rparr>)"

text \<open>
  The keys and certificates that the parser builds: the certified key is plain, the options are in
  lexical order, the signer is again such a key, and there is a signature.
\<close>

fun wf_key :: "crypto \<Rightarrow> PublicKey \<Rightarrow> bool"
and wf_cert :: "crypto \<Rightarrow> Certificate \<Rightarrow> bool" where
  "wf_key cr (CertKey c) = wf_cert cr c"
| "wf_key cr k = wf_plain cr k"
| "wf_cert cr (Certificate nonce key serial ctype kid princ va vb perm resv skey sig) =
     (wf_plain cr key \<and> length (encPlain key) < 2 ^ 32
      \<and> sorted_keys (CriticalOptions perm) \<and> sorted_keys (Extensions perm)
      \<and> (case skey of None \<Rightarrow> False | Some k \<Rightarrow> wf_key cr k) \<and> sig \<noteq> None)"

lemma wf_plain_cases:
  assumes "wf_plain cr k"
  obtains "plainName k = KeyAlgoRSA" | "plainName k = KeyAlgoDSA" | "plainName k = KeyAlgoECDSA256"
    | "plainName k = KeyAlgoECDSA384" | "plainName k = KeyAlgoECDSA521"
  using assms by (cases k) (auto simp: curveID_def elim: supported_cases)

lemma certName_props:
  assumes "wf_plain cr k"
  shows "map_of certAlgoNames (plainName k) = Some (certName k)"
    and "certToPrivAlgo (certName k) = Ok (plainName k)" and "isCertAlgo (certName k)"
    and "length (certName k) = length (plainName k) + 21"
  using assms
  by (rule wf_plain_cases;
      simp add: certName_def map_get_def certAlgoNames_def certToPrivAlgo_def isCertAlgo_def)+

lemma certToPrivAlgo_length:
  assumes "certToPrivAlgo algo = Ok p"
  shows "length algo = length p + 21"
proof -
  have "list_all (\<lambda>(p, a). length a = length p + 21) certAlgoNames" by (simp add: certAlgoNames_def)
  moreover have "(p, algo) \<in> set certAlgoNames"
    using assms by (auto simp: certToPrivAlgo_def find_Some_iff in_set_conv_nth split: option.split_asm)
  ultimately show ?thesis by (auto simp: list_all_iff)
qed

lemma plainName_not_cert: "wf_plain cr k \<Longrightarrow> \<not> isCertAlgo (plainName k)"
  by (erule wf_plain_cases) (simp_all add: isCertAlgo_def)

lemma genericCertData_fields:
  "st_fields genericCertData_T \<noteq> []" "rest_last (st_fields genericCertData_T)"
  "wf_vals (st_fields genericCertData_T) (genericCertData_vals g)"
  "encStruct genericCertData_T (genericCertData_vals g) \<noteq> []"
  "genericCertData_of (genericCertData_vals g) = Ok g"
  by (simp_all add: genericCertData_T_def genericCertData_vals_def genericCertData_of_def encStruct_def
      reflect_defs be64_def)

lemma Signature_fields:
  "Marshal Signature_T (Signature_vals s) = Ok (encSig s)"
  "encSig s = encString (bytes_of (sig_Format s)) @ encString (sig_Blob s)"
  by (simp_all add: Marshal_enc encSig_def Signature_T_def Signature_vals_def encStruct_def)

lemma keyMarshal_enc:
  "wf_key cr k \<Longrightarrow> keyMarshal k = Ok (encKey k)"
  "wf_cert cr c \<Longrightarrow> certMarshal c = Ok (encCert c)"
proof (induction k and c rule: encKey_encCert.induct)
  case (3 nonce key serial ctype kid princ va vb perm resv skey sig)
  from "3.prems" obtain sk s where w: "wf_plain cr key" "length (encPlain key) < 2 ^ 32"
    "sorted_keys (CriticalOptions perm)" "sorted_keys (Extensions perm)"
    "skey = Some sk" "wf_key cr sk" "sig = Some s" by (auto split: option.splits)
  have "keyMarshal sk = Ok (encKey sk)" using "3.IH" w by simp
  moreover have "parseString (encPlain key) = Parsed (bytes_of (plainName key)) (encBody key)"
    using w(2) parseString_encString [of "bytes_of (plainName key)" "encBody key"] by (simp add: encPlain_def)
  moreover have "encStruct certPrefix_T [VString t, VBytes nonce, VBytes b] = encString (bytes_of t) @ encString nonce @ b"
    "Marshal certPrefix_T [VString t, VBytes nonce, VBytes b] = Ok (encStruct certPrefix_T [VString t, VBytes nonce, VBytes b])" for t b
    by (simp_all add: Marshal_enc certPrefix_T_def encStruct_def)
  ultimately show ?case
    using w certName_props(1) [OF w(1)]
    by (simp add: marshalStringList_enc marshalTuples_enc Signature_fields(1) Marshal_enc genericCertData_fields
        keyMarshal_plain keyType_plain)
qed (simp_all add: keyMarshal_plain del: keyMarshal.simps(1-3) wf_plain.simps)

lemma parseCertTail_enc:
  assumes "length (encSig s) < 2 ^ 32" "g_Signature g = encSig s"
  shows "parseCertTail nonce key g princ crit exts k =
    Ok (Certificate nonce key (g_Serial g) (g_CertType g) (g_KeyId g) princ (g_ValidAfter g)
      (g_ValidBefore g) \<lparr>CriticalOptions = crit, Extensions = exts\<rparr> (g_Reserved g) (Some k) (Some s))"
proof -
  have "parseString (encSig s) = Parsed (bytes_of (sig_Format s)) (encString (sig_Blob s))"
    "parseString (encString (sig_Blob s)) = Parsed (sig_Blob s) []"
    using assms(1) parseString_encString [of "bytes_of (sig_Format s)" "encString (sig_Blob s)"]
      parseString_encString [of "sig_Blob s" "[]"]
    by (simp_all add: Signature_fields(2))
  then show ?thesis by (simp add: parseCertTail_def parseSignatureBody_def assms(2))
qed

lemma ParsePublicKey_named:
  assumes "length (encString (bytes_of nm) @ b) < 2 ^ 32" "parsePubKey cr b nm = Ok (k, [])"
  shows "ParsePublicKey cr (encString (bytes_of nm) @ b) = Ok k"
  using parseString_encString [OF assms(1)] assms(2) by (simp add: ParsePublicKey.simps)

lemma ParsePublicKey_plain:
  assumes "wf_plain cr k" "length (encPlain k) < 2 ^ 32"
  shows "ParsePublicKey cr (encPlain k) = Ok k"
proof -
  have "parsePlainKey cr (encBody k) (plainName k) = Ok (k, [])"
    using parsePlainKey_enc [OF assms(1), of "[]"] assms(2) by (simp add: encPlain_def)
  with assms show ?thesis
    unfolding encPlain_def
    by (intro ParsePublicKey_named) (simp_all add: parsePubKey.simps plainName_not_cert)
qed

lemma length_generic:
  "length (encStruct genericCertData_T (genericCertData_vals g)) \<ge> length (g_ValidPrincipals g)"
  "length (encStruct genericCertData_T (genericCertData_vals g)) \<ge> length (g_CriticalOptions g)"
  "length (encStruct genericCertData_T (genericCertData_vals g)) \<ge> length (g_Extensions g)"
  "length (encStruct genericCertData_T (genericCertData_vals g)) \<ge> length (g_SignatureKey g)"
  "length (encStruct genericCertData_T (genericCertData_vals g)) \<ge> length (g_Signature g)"
  by (simp_all add: encStruct_def genericCertData_T_def genericCertData_vals_def encString_def)

lemma ParsePublicKey_enc:
  "wf_key cr k \<Longrightarrow> length (encKey k) < 2 ^ 32 \<Longrightarrow> ParsePublicKey cr (encKey k) = Ok k"
  "wf_cert cr c \<Longrightarrow> length (encCert c) < 2 ^ 32 \<Longrightarrow> ParsePublicKey cr (encCert c) = Ok (CertKey c)"
proof (induction k and c rule: encKey_encCert.induct)
  case (3 nonce key serial ctype kid princ va vb perm resv skey sig)
  from "3.prems" obtain sk s where w: "wf_plain cr key"
    "sorted_keys (CriticalOptions perm)" "sorted_keys (Extensions perm)"
    "skey = Some sk" "wf_key cr sk" "sig = Some s" by (auto split: option.splits)
  define g where "g = \<lparr>g_Serial = serial, g_CertType = ctype, g_KeyId = kid, g_ValidPrincipals = encList princ,
         g_ValidAfter = va, g_ValidBefore = vb, g_CriticalOptions = encTuples (CriticalOptions perm),
         g_Extensions = encTuples (Extensions perm), g_Reserved = resv,
         g_SignatureKey = encKey sk, g_Signature = encSig s\<rparr>"
  let ?g = "encStruct genericCertData_T (genericCertData_vals g)"
  let ?b = "encString nonce @ encBody key @ ?g"
  have enc: "encCert (Certificate nonce key serial ctype kid princ va vb perm resv skey sig)
     = encString (bytes_of (certName key)) @ ?b" by (simp add: g_def w)
  have len: "length (encString (bytes_of (certName key)) @ ?b) < 2 ^ 32" using "3.prems"(2) by (simp only: enc)
  have small: "length (encList princ) < 2 ^ 32" "length (encTuples (CriticalOptions perm)) < 2 ^ 32"
    "length (encTuples (Extensions perm)) < 2 ^ 32" "length (encKey sk) < 2 ^ 32" "length (encSig s) < 2 ^ 32"
    using len length_generic [of g] by (simp_all add: g_def)
  have g: "parsePrincipals (g_ValidPrincipals g) = Ok princ" "parseTuples (g_CriticalOptions g) = Ok (CriticalOptions perm)"
    "parseTuples (g_Extensions g) = Ok (Extensions perm)" "ParsePublicKey cr (g_SignatureKey g) = Ok sk"
    "Unmarshal ?g genericCertData_T = Ok (genericCertData_vals g)" "parseString ?b = Parsed nonce (encBody key @ ?g)"
    "parsePlainKey cr (encBody key @ ?g) (plainName key) = Ok (key, ?g)"
    using w small len "3.IH"
    by (simp_all add: g_def parsePrincipals_enc parseTuples_def parseTuplesLoop_enc above_def
        Unmarshal_enc genericCertData_fields parsePlainKey_enc wstr.dec_enc)
  have "parseCert cr ?b (plainName key)
      = Ok (Certificate nonce key serial ctype kid princ va vb perm resv skey sig)"
    using g parseCertTail_enc [OF small(5), of g]
    by (simp add: parseCert.simps genericCertData_fields(5)) (simp add: g_def w)
  then have "parsePubKey cr ?b (certName key)
      = Ok (CertKey (Certificate nonce key serial ctype kid princ va vb perm resv skey sig), [])"
    using certName_props [OF w(1)] by (simp add: parsePubKey.simps)
  then show ?case unfolding enc by (intro ParsePublicKey_named [OF len])
qed (simp_all add: ParsePublicKey_plain del: wf_plain.simps)

text \<open>Conversely, what the parser accepts is well-formed and prints in no more bytes.\<close>

lemma parseCertTail_OkD:
  assumes "parseCertTail nonce key g princ crit exts k = Ok c"
  shows "\<exists>s. c = Certificate nonce key (g_Serial g) (g_CertType g) (g_KeyId g) princ (g_ValidAfter g)
      (g_ValidBefore g) \<lparr>CriticalOptions = crit, Extensions = exts\<rparr> (g_Reserved g) (Some k) (Some s)
    \<and> length (encSig s) \<le> length (g_Signature g)"
proof -
  from assms obtain s where b: "parseSignatureBody (g_Signature g) = Parsed s []"
    and c: "c = Certificate nonce key (g_Serial g) (g_CertType g) (g_KeyId g) princ (g_ValidAfter g)
      (g_ValidBefore g) \<lparr>CriticalOptions = crit, Extensions = exts\<rparr> (g_Reserved g) (Some k) (Some s)"
    by (auto simp: parseCertTail_def split: parsed.splits if_splits)
  from b obtain f r bl where "parseString (g_Signature g) = Parsed f r" "parseString r = Parsed bl []"
    "s = \<lparr>sig_Format = str_of f, sig_Blob = bl\<rparr>"
    by (auto simp: parseSignatureBody_def split: parsed.splits)
  then have "length (encSig s) \<le> length (g_Signature g)"
    using wstr.dec_length [of "g_Signature g"] wstr.dec_length [of r]
    by (fastforce simp: Signature_fields(2))
  with c show ?thesis by blast
qed

lemma generic_OkD:
  assumes "Unmarshal rest genericCertData_T = Ok vs" "genericCertData_of vs = Ok g"
  shows "vs = genericCertData_vals g" and "length (encStruct genericCertData_T (genericCertData_vals g)) \<le> length rest"
proof -
  show v: "vs = genericCertData_vals g"
    using Unmarshal_wf(2) [OF assms(1)] assms(2)
    by (auto simp: genericCertData_T_def genericCertData_of_def genericCertData_vals_def
        wf_vals_iffs reflect_defs)
  show "length (encStruct genericCertData_T (genericCertData_vals g)) \<le> length rest"
    using Unmarshal_wf(3) [OF assms(1)] by (simp add: v)
qed

lemma length_generic_mono:
  assumes "length (g_ValidPrincipals h) \<le> length (g_ValidPrincipals g)"
    "length (g_CriticalOptions h) \<le> length (g_CriticalOptions g)"
    "length (g_Extensions h) \<le> length (g_Extensions g)"
    "length (g_SignatureKey h) \<le> length (g_SignatureKey g)"
    "length (g_Signature h) \<le> length (g_Signature g)"
    "g_KeyId h = g_KeyId g" "g_Reserved h = g_Reserved g"
  shows "length (encStruct genericCertData_T (genericCertData_vals h))
    \<le> length (encStruct genericCertData_T (genericCertData_vals g))"
  using assms by (simp add: encStruct_def genericCertData_T_def genericCertData_vals_def encString_def)

lemma parseCert_wf:
  assumes p: "parseCert cr inp a = Ok c" and len: "length inp + 25 + length a < 2 ^ 32"
    and IH: "\<And>b k. length b < length inp \<Longrightarrow> ParsePublicKey cr b = Ok k \<Longrightarrow> wf_key cr k \<and> length (encKey k) \<le> length b"
  shows "wf_cert cr c \<and> length (encCert c) \<le> 25 + length a + length inp"
proof -
  from p obtain nonce r1 key r2 vs g princ crit exts k where
    n: "parseString inp = Parsed nonce r1" and pk: "parsePlainKey cr r1 a = Ok (key, r2)"
    and u: "Unmarshal r2 genericCertData_T = Ok vs" "genericCertData_of vs = Ok g"
    and pr: "parsePrincipals (g_ValidPrincipals g) = Ok princ"
    and tu: "parseTuples (g_CriticalOptions g) = Ok crit" "parseTuples (g_Extensions g) = Ok exts"
    and sk: "ParsePublicKey cr (g_SignatureKey g) = Ok k"
    and tl: "parseCertTail nonce key g princ crit exts k = Ok c"
    by (auto simp: parseCert.simps)
  note plain = parsePlainKey_wf [OF pk] and gl = generic_OkD(2) [OF u] and nl = wstr.dec_length [OF n]
  have t: "sorted_keys crit" "sorted_keys exts" "length (encTuples crit) \<le> length (g_CriticalOptions g)"
    "length (encTuples exts) \<le> length (g_Extensions g)"
    using parseTuplesLoop_wf tu by (auto simp: parseTuples_def)
  have "length (g_SignatureKey g) < length inp"
    using genericCertData_signature_key_less [OF u] parseString_rest_less [OF n] parsePlainKey_rest [OF pk] by simp
  note k = IH [OF this sk]
  from parseCertTail_OkD [OF tl] obtain s where c: "c = Certificate nonce key (g_Serial g) (g_CertType g)
      (g_KeyId g) princ (g_ValidAfter g) (g_ValidBefore g) \<lparr>CriticalOptions = crit, Extensions = exts\<rparr>
      (g_Reserved g) (Some k) (Some s)" and s: "length (encSig s) \<le> length (g_Signature g)" by blast
  have "wf_cert cr c"
    using plain t k len nl by (simp add: c encPlain_def encString_def)
  moreover have "length (encCert c) \<le> 25 + length a + length inp"
    using plain nl gl certName_props(4) [of cr key]
      length_generic_mono [of "\<lparr>g_Serial = g_Serial g, g_CertType = g_CertType g, g_KeyId = g_KeyId g,
         g_ValidPrincipals = encList princ, g_ValidAfter = g_ValidAfter g, g_ValidBefore = g_ValidBefore g,
         g_CriticalOptions = encTuples crit, g_Extensions = encTuples exts, g_Reserved = g_Reserved g,
         g_SignatureKey = encKey k, g_Signature = encSig s\<rparr>" g] t s k parsePrincipals_length [OF pr]
    by (simp add: c encString_def)
  ultimately show ?thesis ..
qed

lemma ParsePublicKey_wf:
  "ParsePublicKey cr b = Ok k \<Longrightarrow> length b < 2 ^ 32 \<Longrightarrow> wf_key cr k \<and> length (encKey k) \<le> length b"
proof (induction "length b" arbitrary: b k rule: less_induct)
  case less
  from less.prems(1) obtain algo inp where a: "parseString b = Parsed algo inp"
    and pk: "parsePubKey cr inp (str_of algo) = Ok (k, [])"
    by (auto simp: ParsePublicKey.simps split: if_splits)
  note al = wstr.dec_length [OF a]
  show ?case
  proof (cases "isCertAlgo (str_of algo)")
    case True
    with pk obtain p c where p: "certToPrivAlgo (str_of algo) = Ok p" "parseCert cr inp p = Ok c" "k = CertKey c"
      by (auto simp: parsePubKey.simps)
    have l: "length algo = length p + 21" using certToPrivAlgo_length [OF p(1)] by simp
    have "wf_cert cr c \<and> length (encCert c) \<le> 25 + length p + length inp"
    proof (rule parseCert_wf [OF p(2)])
      show "length inp + 25 + length p < 2 ^ 32" using less.prems(2) al l by (simp add: encString_def)
      show "wf_key cr k' \<and> length (encKey k') \<le> length b'"
        if "length b' < length inp" "ParsePublicKey cr b' = Ok k'" for b' k'
        using that less.hyps [of b' k'] less.prems(2) al by simp
    qed
    with p(3) al l show ?thesis by (simp add: encString_def)
  next
    case False
    with pk have "parsePlainKey cr inp (str_of algo) = Ok (k, [])" by (simp add: parsePubKey.simps)
    from parsePlainKey_wf [OF this] al show ?thesis
      by (cases k) (simp_all add: encPlain_def encString_def del: encBody.simps plainName.simps)
  qed
qed

lemma keyType_wf: "wf_key cr k \<Longrightarrow> \<exists>t. keyType k = Ok t"
proof (cases k)
  case (CertKey c)
  moreover assume "wf_key cr k"
  ultimately show ?thesis
    using certName_props(1) keyType_plain by (cases c) fastforce
qed (auto simp: nistID_supported)

section \<open>What is signed\<close>

lemma encCert_signature:
  "encCert (with_signature c (Some s)) = take (length (encCert (with_signature c None)) - 4) (encCert (with_signature c None)) @ encString (encSig s)"
  by (cases c) (simp add: encStruct_def genericCertData_T_def genericCertData_vals_def encString_def [of "[]"])

lemma certMarshal_signature:
  assumes "wf_cert cr c"
  shows "certMarshal (with_signature c sig) = Ok (encCert (with_signature c sig))"
proof (cases sig)
  case (Some s)
  with assms have "wf_cert cr (with_signature c sig)" by (cases c) auto
  then show ?thesis by (rule keyMarshal_enc)
next
  case None
  obtain nonce key serial ctype kid princ va vb perm resv skey s where
    c: "c = Certificate nonce key serial ctype kid princ va vb perm resv skey s" by (cases c)
  with assms obtain sk where w: "wf_plain cr key" "length (encPlain key) < 2 ^ 32"
    "sorted_keys (CriticalOptions perm)" "sorted_keys (Extensions perm)"
    "skey = Some sk" "wf_key cr sk" by (auto split: option.splits)
  have "parseString (encPlain key) = Parsed (bytes_of (plainName key)) (encBody key)"
    using w(2) parseString_encString [of "bytes_of (plainName key)" "encBody key"] by (simp add: encPlain_def)
  moreover have "encStruct certPrefix_T [VString t, VBytes nonce, VBytes b] = encString (bytes_of t) @ encString nonce @ b"
    "Marshal certPrefix_T [VString t, VBytes nonce, VBytes b] = Ok (encStruct certPrefix_T [VString t, VBytes nonce, VBytes b])" for t b
    by (simp_all add: Marshal_enc certPrefix_T_def encStruct_def)
  ultimately show ?thesis
    using w certName_props(1) [OF w(1)] keyMarshal_enc(1) [OF w(6)]
    by (simp add: c None marshalStringList_enc marshalTuples_enc Marshal_enc genericCertData_fields
        keyMarshal_plain keyType_plain)
qed

section \<open>Properties\<close>

definition demoCrypto :: crypto where
  "demoCrypto = \<lparr>cr_hash = (\<lambda>h b. b), cr_rsa_verify = (\<lambda>k h d s. if d = s then None else Some (ErrNew ''no'')),
     cr_dsa_verify = (\<lambda>k d r s. True), cr_ecdsa_verify = (\<lambda>k d r s. True), cr_on_curve = (\<lambda>c x y. x = y)\<rparr>"

definition demoKey :: PublicKey where
  "demoKey = RSAKey \<lparr>rsa_E = 17, rsa_N = 55\<rparr>"

definition demoCert :: Certificate where
  "demoCert = Certificate [1, 2] (ECDSAKey \<lparr>ec_Curve = P256, ec_X = 7, ec_Y = 7\<rparr>) 9 1 ''id'' [''root'', ''bob'']
     0 1000 \<lparr>CriticalOptions = [(''force-command'', ''ls'')], Extensions = []\<rparr> [] (Some demoKey)
     (Some \<lparr>sig_Format = ''ssh-rsa'', sig_Blob = [5, 6]\<rparr>)"

lemma wf_demoCert: "wf_cert demoCrypto demoCert"
  by (simp add: demoCert_def demoKey_def demoCrypto_def wf_point_def encPlain_def encString_def encPoint_def
      curveBytes_def curveID_def sorted_keys_def BitLen_def bitlen.simps supportedEllipticCurve_def)

text \<open>(C11) Every well-formed key or certificate is printed without a panic, and its printed form, if
  it is shorter than 4 GiB, is parsed back to the same key by \<open>ParsePublicKey\<close>.\<close>

theorem key_roundtrip:
  assumes "wf_key cr k"
  shows "\<exists>p. keyMarshal k = Ok p \<and> (length p < 2 ^ 32 \<longrightarrow> ParsePublicKey cr p = Ok k)"
  using keyMarshal_enc(1) [OF assms] ParsePublicKey_enc(1) [OF assms] by blast

theorem key_roundtrip_witness:
  "wf_key demoCrypto (CertKey demoCert) \<and>
   (\<exists>p. keyMarshal (CertKey demoCert) = Ok p \<and> (length p < 2 ^ 32 \<longrightarrow> ParsePublicKey demoCrypto p = Ok (CertKey demoCert)))"
proof -
  have "wf_key demoCrypto (CertKey demoCert)" by (simp add: wf_demoCert)
  with key_roundtrip [OF this] show ?thesis by simp
qed

text \<open>(C12) Whatever \<open>ParsePublicKey\<close> accepts has a type and a printed form (no method panics on
  it), the printed form is no longer than the input, and parses to the same key: parsing puts a key
  into a canonical form.\<close>

theorem parsed_key_reprints:
  assumes "ParsePublicKey cr b = Ok k" "length b < 2 ^ 32"
  shows "\<exists>t p. keyType k = Ok t \<and> keyMarshal k = Ok p \<and> length p \<le> length b \<and> ParsePublicKey cr p = Ok k"
proof -
  note wf = ParsePublicKey_wf [OF assms]
  with keyType_wf obtain t where "keyType k = Ok t" by blast
  moreover from wf assms(2) have "ParsePublicKey cr (encKey k) = Ok k" by (intro ParsePublicKey_enc) simp_all
  ultimately show ?thesis using wf keyMarshal_enc(1) by blast
qed

theorem parsed_key_reprints_witness:
  "\<exists>b k t p. ParsePublicKey demoCrypto b = Ok k \<and> keyType k = Ok t \<and> keyMarshal k = Ok p \<and> length p < length b
     \<and> ParsePublicKey demoCrypto p = Ok k"
proof -
  let ?b = "[0, 0, 0, 7, 115, 115, 104, 45, 114, 115, 97, 0, 0, 0, 2, 0, 3, 0, 0, 0, 1, 5 :: byte]"
  let ?k = "RSAKey \<lparr>rsa_E = 3, rsa_N = 5\<rparr>"
  have b: "ParsePublicKey demoCrypto ?b = Ok ?k" by code_simp
  moreover obtain t p where p: "keyType ?k = Ok t" "keyMarshal ?k = Ok p"
    "ParsePublicKey demoCrypto p = Ok ?k" using parsed_key_reprints [OF b] by auto
  moreover have "map_option length (case keyMarshal ?k of Ok p \<Rightarrow> Some p | _ \<Rightarrow> None) = Some 21" by code_simp
  ultimately have "length p < length ?b" by simp
  with b p show ?thesis by blast
qed

text \<open>The bytes a certificate is signed over are the printed certificate less the trailing
  signature field: every other field is covered, and a signature stored later does not change them.\<close>

theorem bytesForSigning_prefix:
  assumes "wf_cert cr c"
  shows "\<exists>b. bytesForSigning c = Ok b \<and> bytesForSigning (with_signature c (Some s)) = Ok b \<and>
     certMarshal (with_signature c (Some s)) = Ok (b @ encString (encSig s))"
proof -
  let ?e = "encCert (with_signature c None)"
  have "length ?e \<ge> 4"
    by (cases c) (simp add: encStruct_def genericCertData_T_def genericCertData_vals_def encString_def)
  moreover have "with_signature (with_signature c (Some s)) None = with_signature c None" by (cases c) simp
  ultimately show ?thesis
    using certMarshal_signature [OF assms] encCert_signature [of c s]
    by (simp add: bytesForSigning_def)
qed

theorem bytesForSigning_prefix_witness:
  "wf_cert demoCrypto demoCert \<and> (\<exists>b. bytesForSigning demoCert = Ok b)"
  using wf_demoCert bytesForSigning_prefix [OF wf_demoCert] by blast

end
