(* ===== verification/Authorized_Keys.thy ===== *)
theory Authorized_Keys
  imports Key_Codec
begin

text \<open>
  The \<^verbatim>\<open>authorized_keys\<close> format of \<^verbatim>\<open>ssh/keys.go\<close>: \<open>MarshalAuthorizedKey\<close>,
  \<open>parseAuthorizedKey\<close> and \<open>ParseAuthorizedKey\<close>, with the parts of the Go library they use:
  \<^verbatim>\<open>encoding/base64\<close>, \<^verbatim>\<open>TrimSpace\<close> and \<^verbatim>\<open>IndexAny\<close>. The key checker compares keys with its
  blacklist in this format.
\<close>

section \<open>White space\<close>

text \<open>
  The UTF-8 encodings of the code points that \<^verbatim>\<open>unicode.IsSpace\<close> accepts. \<^verbatim>\<open>TrimSpace\<close> removes
  them from both ends, rune by rune.
\<close>

definition space_seqs :: "bytes list" where
  "space_seqs = [[0x09], [0x0a], [0x0b], [0x0c], [0x0d], [0x20], [0xc2, 0x85], [0xc2, 0xa0],
     [0xe1, 0x9a, 0x80]] @ map (\<lambda>i. [0xe2, 0x80, 0x80 + of_nat i]) [0..<11]
     @ [[0xe2, 0x80, 0xa8], [0xe2, 0x80, 0xa9], [0xe2, 0x80, 0xaf], [0xe2, 0x81, 0x9f], [0xe3, 0x80, 0x80]]"

definition strip_prefix :: "'a list list \<Rightarrow> 'a list \<Rightarrow> 'a list option" where
  "strip_prefix ps s = (case find (\<lambda>p. take (length p) s = p) ps of
       Some p \<Rightarrow> Some (drop (length p) s) | None \<Rightarrow> None)"

lemma strip_prefix_less: "[] \<notin> set ps \<Longrightarrow> strip_prefix ps s = Some t \<Longrightarrow> length t < length s"
  by (auto simp: strip_prefix_def find_Some_iff split: option.splits) (metis diff_less length_0_conv length_greater_0_conv nth_mem take_eq_Nil)

lemma space_seqs_nonempty [simp]: "[] \<notin> set space_seqs" "[] \<notin> set (map rev space_seqs)"
  by (auto simp: space_seqs_def)

function trimLeft :: "bytes \<Rightarrow> bytes" where
  "trimLeft s = (case strip_prefix space_seqs s of Some t \<Rightarrow> trimLeft t | None \<Rightarrow> s)"
  by pat_completeness auto
termination
  by (relation "measure length") (auto intro: strip_prefix_less [OF space_seqs_nonempty(1)])

function trimRightRev :: "bytes \<Rightarrow> bytes" where
  "trimRightRev s = (case strip_prefix (map rev space_seqs) s of Some t \<Rightarrow> trimRightRev t | None \<Rightarrow> s)"
  by pat_completeness auto
termination
  by (relation "measure length") (auto intro: strip_prefix_less [OF space_seqs_nonempty(2)])

declare trimLeft.simps [simp del] trimRightRev.simps [simp del]

definition TrimSpace :: "bytes \<Rightarrow> bytes" where
  "TrimSpace s = rev (trimRightRev (rev (trimLeft s)))"

section \<open>Base 64\<close>

definition b64_alphabet :: bytes where
  "b64_alphabet = bytes_of ''ABCDEFGHIJKLMNOPQRSTUVWXYZabcdefghijklmnopqrstuvwxyz0123456789+/''"

abbreviation padChar :: byte where "padChar \<equiv> 0x3d"

definition b64_char :: "nat \<Rightarrow> byte" where
  "b64_char i = b64_alphabet ! i"

definition b64_digit :: "byte \<Rightarrow> nat option" where
  "b64_digit c = (let i = length (takeWhile (\<lambda>x. x \<noteq> c) b64_alphabet)
     in if i < 64 then Some i else None)"

fun b64_encode :: "bytes \<Rightarrow> bytes" where
  "b64_encode [] = []"
| "b64_encode [a] = [b64_char (unat a div 4), b64_char (unat a mod 4 * 16), padChar, padChar]"
| "b64_encode [a, b] = [b64_char (unat a div 4), b64_char (unat a mod 4 * 16 + unat b div 16),
     b64_char (unat b mod 16 * 4), padChar]"
| "b64_encode (a # b # c # r) = b64_char (unat a div 4)
     # b64_char (unat a mod 4 * 16 + unat b div 16) # b64_char (unat b mod 16 * 4 + unat c div 64)
     # b64_char (unat c mod 64) # b64_encode r"

definition b64_byte1 :: "nat \<Rightarrow> nat \<Rightarrow> byte" where "b64_byte1 p q = of_nat (p * 4 + q div 16)"
definition b64_byte2 :: "nat \<Rightarrow> nat \<Rightarrow> byte" where "b64_byte2 q r = of_nat (q mod 16 * 16 + r div 4)"
definition b64_byte3 :: "nat \<Rightarrow> nat \<Rightarrow> byte" where "b64_byte3 r s = of_nat (r mod 4 * 64 + s)"

text \<open>The decoder skips line ends; bits of the last digit that are not used are not checked.\<close>

fun b64_quanta :: "bytes \<Rightarrow> bytes option" where
  "b64_quanta [] = Some []"
| "b64_quanta (a # b # c # d # rest) =
     (case (b64_digit a, b64_digit b) of
        (Some p, Some q) \<Rightarrow>
          if d = padChar \<and> c = padChar then (if rest = [] then Some [b64_byte1 p q] else None)
          else (case b64_digit c of None \<Rightarrow> None | Some r \<Rightarrow>
            if d = padChar then (if rest = [] then Some [b64_byte1 p q, b64_byte2 q r] else None)
            else (case b64_digit d of None \<Rightarrow> None | Some s \<Rightarrow>
              (case b64_quanta rest of None \<Rightarrow> None
               | Some out \<Rightarrow> Some (b64_byte1 p q # b64_byte2 q r # b64_byte3 r s # out))))
      | _ \<Rightarrow> None)"
| "b64_quanta _ = None"

definition b64_decode :: "bytes \<Rightarrow> bytes option" where
  "b64_decode s = b64_quanta (filter (\<lambda>c. c \<noteq> 0x0a \<and> c \<noteq> 0x0d) s)"

section \<open>The format\<close>

definition MarshalAuthorizedKey :: "PublicKey \<Rightarrow> bytes res" where
  "MarshalAuthorizedKey key =
     rbind (keyType key) (\<lambda>t. rbind (keyMarshal key) (\<lambda>m.
       Ok (bytes_of t @ [0x20] @ b64_encode m @ [0x0a])))"

text \<open>\<^verbatim>\<open>bytes.IndexAny(in, " \t")\<close>, with the length of the input where there is none.\<close>

definition isBlank :: "byte \<Rightarrow> bool" where
  "isBlank b \<longleftrightarrow> b = 0x20 \<or> b = 0x09"

definition indexBlank :: "bytes \<Rightarrow> nat" where
  "indexBlank s = length (takeWhile (\<lambda>b. \<not> isBlank b) s)"

definition base64Error :: goerr where
  "base64Error = ErrNew ''illegal base64 data''"

definition parseAuthorizedKey :: "crypto \<Rightarrow> bytes \<Rightarrow> (PublicKey \<times> string) res" where
  "parseAuthorizedKey cr inp =
     (let inp = TrimSpace inp; i = indexBlank inp
      in case b64_decode (take i inp) of
           None \<Rightarrow> Err base64Error
         | Some key \<Rightarrow> rbind (ParsePublicKey cr key) (\<lambda>out.
             Ok (out, str_of (TrimSpace (drop i inp)))))"

text \<open>
  The loop over the options field: \<open>i\<close> is the index, \<open>prev\<close> the byte before it. It returns the
  options and the index at which the loop stops, which is that of the last byte when the range is
  exhausted.
\<close>

record optState =
  os_inQuote :: bool
  os_start :: nat
  os_options :: "string list"

fun scanOptions :: "bytes \<Rightarrow> nat \<Rightarrow> optState \<Rightarrow> bytes \<Rightarrow> string list \<times> nat" where
  "scanOptions line i st [] = (os_options st, i - 1)"
| "scanOptions line i st (b # bs) =
     (let isEnd = (\<not> os_inQuote st \<and> isBlank b);
          st1 = (if b = comma \<and> \<not> os_inQuote st \<or> isEnd
            then st\<lparr>os_options := (if i > os_start st
                       then os_options st @ [str_of (take (i - os_start st) (drop (os_start st) line))]
                       else os_options st), os_start := i + 1\<rparr>
            else st)
      in if isEnd then (os_options st1, i)
         else scanOptions line (i + 1)
           (if b = 0x22 \<and> (i = 0 \<or> line ! (i - 1) \<noteq> 0x5c) then st1\<lparr>os_inQuote := \<not> os_inQuote st1\<rparr> else st1) bs)"

text \<open>
  The body of the loop for one line, without line end and trimmed: the key found, or none when the
  loop goes on with the rest. A panic of a parser is kept.
\<close>

definition tryKey :: "(PublicKey \<times> string) res \<Rightarrow> string list
    \<Rightarrow> (PublicKey \<times> string \<times> string list) option res \<Rightarrow> (PublicKey \<times> string \<times> string list) option res" where
  "tryKey r opts els = (case r of
       Ok (out, comment) \<Rightarrow> Ok (Some (out, comment, opts))
     | Err e \<Rightarrow> els
     | Panic p \<Rightarrow> Panic p)"

definition parseKeyLine :: "crypto \<Rightarrow> bytes \<Rightarrow> (PublicKey \<times> string \<times> string list) option res" where
  "parseKeyLine cr inp =
     (if inp = [] \<or> hd inp = 0x23 then Ok None
      else let i = indexBlank inp in
        if i = length inp then Ok None
        else tryKey (parseAuthorizedKey cr (drop i inp)) []
          (let (options, i) = scanOptions inp 0 \<lparr>os_inQuote = False, os_start = 0, os_options = []\<rparr> inp;
               i = i + length (takeWhile isBlank (drop i inp))
           in if i = length inp then Ok None
              else let inp = drop i inp; i = indexBlank inp in
                if i = length inp then Ok None
                else tryKey (parseAuthorizedKey cr (drop i inp)) options (Ok None)))"

function ParseAuthorizedKey :: "crypto \<Rightarrow> bytes \<Rightarrow> (PublicKey \<times> string \<times> string list \<times> bytes) res" where
  "ParseAuthorizedKey cr inp =
     (if inp = [] then Err (ErrNew ''ssh: no key found'')
      else let line = takeWhile (\<lambda>b. b \<noteq> 0x0a) inp;
               rest = drop (length line + 1) inp;
               line = takeWhile (\<lambda>b. b \<noteq> 0x0d) line
        in rbind (parseKeyLine cr (TrimSpace line)) (\<lambda>r. case r of
             Some (out, comment, options) \<Rightarrow> Ok (out, comment, options, rest)
           | None \<Rightarrow> ParseAuthorizedKey cr rest))"
  by pat_completeness auto
termination
  by (relation "measure (length \<circ> snd)") (auto simp: Suc_le_eq)

declare ParseAuthorizedKey.simps [simp del]

section \<open>Base 64 round trip\<close>

lemma length_alphabet [simp]: "length b64_alphabet = 64"
  by (simp add: b64_alphabet_def)

lemma distinct_alphabet: "distinct b64_alphabet"
  by code_simp

lemma takeWhile_nth:
  "distinct xs \<Longrightarrow> i < length xs \<Longrightarrow> length (takeWhile (\<lambda>x. x \<noteq> xs ! i) xs) = i"
proof (induction xs arbitrary: i)
  case (Cons x xs)
  then show ?case by (cases i) auto
qed simp

lemma b64_digit_char [simp]: "i < 64 \<Longrightarrow> b64_digit (b64_char i) = Some i"
  using takeWhile_nth [OF distinct_alphabet, of i]
  by (simp add: b64_digit_def b64_char_def Let_def)

text \<open>Digits are printable characters other than the padding.\<close>

definition graphic :: "byte \<Rightarrow> bool" where
  "graphic b \<longleftrightarrow> 0x21 \<le> b \<and> b \<le> 0x7e"

lemma alphabet_graphic: "list_all (\<lambda>b. graphic b \<and> b \<noteq> padChar) b64_alphabet"
  by code_simp

lemma b64_char_graphic: "i < 64 \<Longrightarrow> graphic (b64_char i) \<and> b64_char i \<noteq> padChar"
  using alphabet_graphic by (simp add: b64_char_def list_all_iff)

lemma b64_groups [simp]:
  fixes a b c :: byte
  shows "unat a div 4 < 64" "unat a mod 4 * 16 < 64" "unat a mod 4 * 16 + unat b div 16 < 64"
    "unat b mod 16 * 4 < 64" "unat b mod 16 * 4 + unat c div 64 < 64" "unat c mod 64 < 64"
proof -
  have "unat a div 4 < 64" "unat b div 16 < 16" "unat c div 64 < 4" by (simp_all add: less_mult_imp_div_less)
  moreover have "unat a mod 4 < 4" "unat b mod 16 < 16" "unat c mod 64 < 64" by simp_all
  ultimately show "unat a div 4 < 64" "unat a mod 4 * 16 < 64" "unat a mod 4 * 16 + unat b div 16 < 64"
    "unat b mod 16 * 4 < 64" "unat b mod 16 * 4 + unat c div 64 < 64" "unat c mod 64 < 64"
    by linarith+
qed

lemma b64_byte_groups [simp]:
  fixes a b c :: byte
  shows "b64_byte1 (unat a div 4) (unat a mod 4 * 16) = a"
    "b64_byte1 (unat a div 4) (unat a mod 4 * 16 + unat b div 16) = a"
    "b64_byte2 (unat a mod 4 * 16 + unat b div 16) (unat b mod 16 * 4) = b"
    "b64_byte2 (unat a mod 4 * 16 + unat b div 16) (unat b mod 16 * 4 + unat c div 64) = b"
    "b64_byte3 (unat b mod 16 * 4 + unat c div 64) (unat c mod 64) = c"
proof -
  have lt: "unat b div 16 < 16" "unat c div 64 < 4" by (simp_all add: less_mult_imp_div_less)
  have "(unat a mod 4 * 16) div 16 = unat a mod 4"
    "(unat a mod 4 * 16 + unat b div 16) div 16 = unat a mod 4"
    "(unat a mod 4 * 16 + unat b div 16) mod 16 = unat b div 16"
    "(unat b mod 16 * 4) div 4 = unat b mod 16"
    "(unat b mod 16 * 4 + unat c div 64) div 4 = unat b mod 16"
    "(unat b mod 16 * 4 + unat c div 64) mod 4 = unat c div 64"
    using lt by simp_all
  then show "b64_byte1 (unat a div 4) (unat a mod 4 * 16) = a"
    "b64_byte1 (unat a div 4) (unat a mod 4 * 16 + unat b div 16) = a"
    "b64_byte2 (unat a mod 4 * 16 + unat b div 16) (unat b mod 16 * 4) = b"
    "b64_byte2 (unat a mod 4 * 16 + unat b div 16) (unat b mod 16 * 4 + unat c div 64) = b"
    "b64_byte3 (unat b mod 16 * 4 + unat c div 64) (unat c mod 64) = c"
    unfolding b64_byte1_def b64_byte2_def b64_byte3_def
    by (simp_all only: div_mult_mod_eq) simp_all
qed

lemma b64_quanta_encode: "b64_quanta (b64_encode m) = Some m"
  by (induction m rule: b64_encode.induct) (simp_all add: b64_char_graphic)

lemma b64_encode_graphic: "b \<in> set (b64_encode m) \<Longrightarrow> graphic b"
  by (induction m rule: b64_encode.induct) (auto simp: b64_char_graphic, auto simp: graphic_def)

lemma graphic_not_space: "graphic b \<Longrightarrow> b \<noteq> 0x0a \<and> b \<noteq> 0x0d \<and> b \<noteq> 0x20 \<and> b \<noteq> 0x09"
  by (auto simp: graphic_def)

lemma b64_decode_encode: "b64_decode (b64_encode m) = Some m"
proof -
  have "filter (\<lambda>c. c \<noteq> 0x0a \<and> c \<noteq> 0x0d) (b64_encode m) = b64_encode m"
    by (rule filter_True) (auto dest: b64_encode_graphic graphic_not_space)
  then show ?thesis by (simp add: b64_decode_def b64_quanta_encode)
qed

lemma b64_encode_eq_Nil: "b64_encode m = [] \<longleftrightarrow> m = []"
  by (cases m rule: b64_encode.cases) simp_all

section \<open>Trimming\<close>

lemma space_seqs_hd: "p \<in> set space_seqs \<Longrightarrow> p \<noteq> [] \<and> \<not> graphic (hd p) \<and> \<not> graphic (last p)"
proof -
  have "list_all (\<lambda>p. p \<noteq> [] \<and> \<not> graphic (hd p) \<and> \<not> graphic (last p)) space_seqs" by code_simp
  moreover assume "p \<in> set space_seqs"
  ultimately show ?thesis by (auto simp: list_all_iff)
qed

lemma strip_prefix_None:
  assumes "graphic b" "\<And>p. p \<in> set ps \<Longrightarrow> p \<noteq> [] \<and> \<not> graphic (hd p)"
  shows "strip_prefix ps (b # s) = None"
proof -
  have "take (length p) (b # s) \<noteq> p" if "p \<in> set ps" for p
    using assms(1) assms(2) [OF that] by (cases p) auto
  then have "find (\<lambda>p. take (length p) (b # s) = p) ps = None" by (auto simp: find_None_iff)
  then show ?thesis by (simp add: strip_prefix_def)
qed

lemma trimLeft_graphic: "graphic b \<Longrightarrow> trimLeft (b # s) = b # s"
  using strip_prefix_None [of b space_seqs s] space_seqs_hd by (simp add: trimLeft.simps)

lemma trimRightRev_graphic: "graphic b \<Longrightarrow> trimRightRev (b # s) = b # s"
proof -
  assume "graphic b"
  then have "strip_prefix (map rev space_seqs) (b # s) = None"
    by (rule strip_prefix_None) (auto simp: hd_rev dest: space_seqs_hd)
  then show ?thesis by (simp add: trimRightRev.simps)
qed

lemma trimLeft_space: "trimLeft (0x20 # s) = trimLeft s"
  by (subst trimLeft.simps) (simp add: strip_prefix_def space_seqs_def)

lemma trimRightRev_newline: "trimRightRev (0x0a # s) = trimRightRev s"
  by (subst trimRightRev.simps) (simp add: strip_prefix_def space_seqs_def)

lemma TrimSpace_graphic:
  assumes "s \<noteq> []" "graphic (hd s)" "graphic (last s)"
  shows "TrimSpace s = s" "TrimSpace (0x20 # s) = s" "TrimSpace (s @ [0x0a]) = s"
proof -
  obtain b t where s: "s = b # t" using assms(1) by (cases s) auto
  then have l: "trimLeft s = s" "trimLeft (s @ [0x0a]) = s @ [0x0a]" using assms(2) by (simp_all add: trimLeft_graphic)
  obtain c u where r: "rev s = c # u" using assms(1) by (cases "rev s") auto
  then have "graphic c" using assms(3) by (metis hd_rev list.sel(1))
  then have t: "trimRightRev (rev s) = rev s" by (simp add: r trimRightRev_graphic)
  then show "TrimSpace s = s" "TrimSpace (0x20 # s) = s" "TrimSpace (s @ [0x0a]) = s"
    by (simp_all add: TrimSpace_def l trimLeft_space trimRightRev_newline)
qed

lemma TrimSpace_Nil [simp]: "TrimSpace [] = []"
proof -
  have "strip_prefix space_seqs [] = None" "strip_prefix (map rev space_seqs) [] = None"
    using strip_prefix_less [OF space_seqs_nonempty(1), of "[]"]
      strip_prefix_less [OF space_seqs_nonempty(2), of "[]"] by fastforce+
  then have "trimLeft [] = []" "trimRightRev [] = []"
    by (subst trimLeft.simps trimRightRev.simps, simp)+
  then show ?thesis by (simp add: TrimSpace_def)
qed

section \<open>Printed lines parse back\<close>

lemma keyType_graphic:
  assumes "wf_key cr k" "keyType k = Ok t"
  shows "t \<noteq> [] \<and> list_all graphic (bytes_of t) \<and> hd (bytes_of t) \<noteq> 0x23"
proof -
  have p: "plainName q \<noteq> [] \<and> list_all graphic (bytes_of (plainName q)) \<and> hd (bytes_of (plainName q)) \<noteq> 0x23
    \<and> certName q \<noteq> [] \<and> list_all graphic (bytes_of (certName q)) \<and> hd (bytes_of (certName q)) \<noteq> 0x23"
    if "wf_plain cr q" for q
    using that by (rule wf_plain_cases; simp only: certName_def; code_simp)
  show ?thesis
  proof (cases k)
    case (CertKey c)
    then obtain q where "wf_plain cr q" "t = certName q"
      using assms by (cases c) (auto simp: keyType_plain certName_props(1))
    with p show ?thesis by simp
  qed (use assms p [of k] keyType_plain [of cr k] in \<open>simp_all del: plainName.simps wf_plain.simps keyType.simps(1-3)\<close>)
qed

text \<open>The line of a key, without its line end.\<close>

definition keyLine :: "string \<Rightarrow> bytes \<Rightarrow> bytes" where
  "keyLine t m = bytes_of t @ [0x20] @ b64_encode m"

lemma keyLine_props:
  assumes "t \<noteq> []" "list_all graphic (bytes_of t)" "m \<noteq> []"
  shows "keyLine t m \<noteq> []" "graphic (hd (keyLine t m))" "graphic (last (keyLine t m))"
    "b \<in> set (keyLine t m) \<Longrightarrow> b \<noteq> 0x0a \<and> b \<noteq> 0x0d" "indexBlank (keyLine t m) = length t"
proof -
  have e: "b64_encode m \<noteq> []" using assms(3) by (simp add: b64_encode_eq_Nil)
  have t: "\<And>b. b \<in> set (bytes_of t) \<Longrightarrow> graphic b" using assms(2) by (simp add: list_all_iff)
  show "keyLine t m \<noteq> []" by (simp add: keyLine_def)
  show "graphic (hd (keyLine t m))" using assms(1) t by (simp add: keyLine_def)
  show "graphic (last (keyLine t m))" using e b64_encode_graphic [of "last (b64_encode m)" m] by (simp add: keyLine_def)
  show "b \<in> set (keyLine t m) \<Longrightarrow> b \<noteq> 0x0a \<and> b \<noteq> 0x0d"
    using t b64_encode_graphic [of b m] graphic_not_space [of b] by (auto simp: keyLine_def)
  have "takeWhile (\<lambda>b. \<not> isBlank b) (bytes_of t @ 0x20 # b64_encode m) = bytes_of t"
    using t graphic_not_space by (subst takeWhile_append2) (auto simp: isBlank_def)
  then show "indexBlank (keyLine t m) = length t" by (simp add: indexBlank_def keyLine_def)
qed

lemma parseAuthorizedKey_b64:
  assumes "m \<noteq> []"
  shows "parseAuthorizedKey cr (0x20 # b64_encode m) = rbind (ParsePublicKey cr m) (\<lambda>out. Ok (out, ''''))"
proof -
  have e: "b64_encode m \<noteq> []" using assms by (simp add: b64_encode_eq_Nil)
  then have g: "graphic (hd (b64_encode m))" "graphic (last (b64_encode m))"
    using b64_encode_graphic [of "hd (b64_encode m)" m] b64_encode_graphic [of "last (b64_encode m)" m] by simp_all
  have "indexBlank (b64_encode m) = length (b64_encode m)"
    using b64_encode_graphic [of _ m] graphic_not_space
    by (force simp: indexBlank_def isBlank_def intro!: arg_cong [of _ _ length] takeWhile_eq_all_conv [THEN iffD2])
  then show ?thesis
    by (simp add: parseAuthorizedKey_def TrimSpace_graphic [OF e g] b64_decode_encode)
qed

lemma takeWhile_line: "(\<And>b. b \<in> set l \<Longrightarrow> b \<noteq> c) \<Longrightarrow> takeWhile (\<lambda>b. b \<noteq> c) (l @ c # r) = l \<and> takeWhile (\<lambda>b. b \<noteq> c) l = l"
  by (auto simp: takeWhile_append2)

lemma MarshalAuthorizedKey_line:
  assumes "wf_key cr k"
  obtains t where "keyType k = Ok t" "MarshalAuthorizedKey k = Ok (keyLine t (encKey k) @ [0x0a])"
    "t \<noteq> []" "list_all graphic (bytes_of t)" "hd (bytes_of t) \<noteq> 0x23"
proof -
  obtain t where t: "keyType k = Ok t" using keyType_wf [OF assms] by blast
  with keyType_graphic [OF assms t] keyMarshal_enc(1) [OF assms] show ?thesis
    by (intro that [of t]) (simp_all add: MarshalAuthorizedKey_def keyLine_def)
qed

lemma encKey_nonempty: "encKey k \<noteq> []"
proof (cases k)
  case (CertKey c)
  then show ?thesis by (cases c) simp
qed (simp_all add: encPlain_def)

lemma keyLine_parses:
  assumes "wf_key cr k" "length (encKey k) < 2 ^ 32"
    and t: "t \<noteq> []" "list_all graphic (bytes_of t)" "hd (bytes_of t) \<noteq> 0x23"
  shows "ParseAuthorizedKey cr (keyLine t (encKey k) @ 0x0a # rest) = Ok (k, '''', [], rest)"
proof -
  let ?l = "keyLine t (encKey k)"
  note lp = keyLine_props [OF t(1,2) encKey_nonempty [of k]]
  have d: "drop (length t) ?l = 0x20 # b64_encode (encKey k)" "length t < length ?l" "hd ?l \<noteq> 0x23"
    using t by (simp_all add: keyLine_def)
  have "parseKeyLine cr ?l = Ok (Some (k, '''', []))"
    using lp(1,5) d parseAuthorizedKey_b64 [OF encKey_nonempty [of k], of cr] ParsePublicKey_enc(1) [OF assms(1,2)]
    by (simp add: parseKeyLine_def tryKey_def)
  moreover have "takeWhile (\<lambda>b. b \<noteq> 0x0a) (?l @ 0x0a # rest) = ?l" "takeWhile (\<lambda>b. b \<noteq> 0x0d) ?l = ?l"
    using takeWhile_line [of ?l] lp(4) by blast+
  ultimately show ?thesis
    using lp(1) TrimSpace_graphic(1) [OF lp(1-3)]
    by (simp add: ParseAuthorizedKey.simps [of cr "?l @ 0x0a # rest"] del: takeWhile_eq_all_conv)
qed

text \<open>A well-formed key printed as a line of an \<open>authorized_keys\<close> file is read back by
  \<open>ParseAuthorizedKey\<close> as the same key, without comment and options, whatever follows the line.\<close>

theorem authorized_key_roundtrip:
  assumes "wf_key cr k" "length (encKey k) < 2 ^ 32"
  shows "\<exists>l. MarshalAuthorizedKey k = Ok l \<and> ParseAuthorizedKey cr (l @ rest) = Ok (k, '''', [], rest)"
proof -
  obtain t where t: "MarshalAuthorizedKey k = Ok (keyLine t (encKey k) @ [0x0a])"
    "t \<noteq> []" "list_all graphic (bytes_of t)" "hd (bytes_of t) \<noteq> 0x23"
    using MarshalAuthorizedKey_line [OF assms(1)] by blast
  with keyLine_parses [OF assms t(2-4), of rest] show ?thesis by simp
qed

theorem authorized_key_roundtrip_witness:
  "\<exists>l. MarshalAuthorizedKey demoKey = Ok l
     \<and> ParseAuthorizedKey demoCrypto (l @ bytes_of ''next line'') = Ok (demoKey, '''', [], bytes_of ''next line'')"
proof -
  have "wf_key demoCrypto demoKey" by (simp add: demoKey_def BitLen_def bitlen.simps)
  moreover have "length (encKey demoKey) = 21" by code_simp
  then have "length (encKey demoKey) < 2 ^ 32" by simp
  ultimately show ?thesis by (rule authorized_key_roundtrip)
qed

end
