(* ===== verification/Key_Check.thy ===== *)
theory Key_Check
  imports Authorized_Keys
begin

text \<open>
  The checks of one key: \<^verbatim>\<open>key.go\<close> (bit length and fingerprint) and \<^verbatim>\<open>blacklist.go\<close> (loading the
  blacklist and marking keys). A key is judged by the properties that the SSH client's public key has
  on the wire, so the results rest on the key codec.
\<close>

section \<open>Bit length\<close>

record publicKey =
  pk_key :: PublicKey
  pk_blacklisted :: bool

definition rsaLen_T :: structType where
  "rsaLen_T = \<lparr>st_name = '''', st_tag = '''', st_fields =
     [(''Name'', KString), (''E'', KBigInt), (''N'', KBigInt), (''Rest'', KRest)]\<rparr>"

definition dsaLen_T :: structType where
  "dsaLen_T = \<lparr>st_name = '''', st_tag = '''', st_fields = [(''Name'', KString), (''P'', KBigInt),
     (''Q'', KBigInt), (''G'', KBigInt), (''Y'', KBigInt), (''Rest'', KRest)]\<rparr>"

definition ecdsaLen_T :: structType where
  "ecdsaLen_T = \<lparr>st_name = '''', st_tag = '''', st_fields =
     [(''Name'', KString), (''Curve'', KString), (''KeyBytes'', KBytes), (''Rest'', KRest)]\<rparr>"

text \<open>A result pair \<^verbatim>\<open>(int, error)\<close>, both of which the caller uses.\<close>

definition with_fields :: "fval list res \<Rightarrow> (fval list \<Rightarrow> (nat \<times> goerr option) res) \<Rightarrow> (nat \<times> goerr option) res" where
  "with_fields r f = (case r of Ok vs \<Rightarrow> f vs | Err e \<Rightarrow> Ok (0, Some e) | Panic p \<Rightarrow> Panic p)"

definition rsaKeyLength :: "PublicKey \<Rightarrow> (nat \<times> goerr option) res" where
  "rsaKeyLength key = rbind (keyMarshal key) (\<lambda>m. with_fields (Unmarshal m rsaLen_T) (\<lambda>vs. case vs of
       [name, e, n, rest] \<Rightarrow> rbind (rInt n) (\<lambda>n. Ok (BitLen n, None))
     | _ \<Rightarrow> kind_panic))"

definition dsaKeyLength :: "PublicKey \<Rightarrow> (nat \<times> goerr option) res" where
  "dsaKeyLength key = rbind (keyMarshal key) (\<lambda>m. with_fields (Unmarshal m dsaLen_T) (\<lambda>vs. case vs of
       [name, p, q, g, y, rest] \<Rightarrow> rbind (rInt p) (\<lambda>p. Ok (BitLen p, None))
     | _ \<Rightarrow> kind_panic))"

definition ecdsaKeyLength :: "crypto \<Rightarrow> PublicKey \<Rightarrow> (nat \<times> goerr option) res" where
  "ecdsaKeyLength cr key = rbind (keyMarshal key) (\<lambda>m. with_fields (Unmarshal m ecdsaLen_T) (\<lambda>vs. case vs of
       [name, curve, keyBytes, rest] \<Rightarrow> rbind (rString curve) (\<lambda>curve. rbind (rBytes keyBytes) (\<lambda>keyBytes.
         case curve_of_id curve of
           None \<Rightarrow> Ok (0, Some (Errorf ''ECSDA curve not supported: %q'' [AStr curve]))
         | Some c \<Rightarrow> (case ec_Unmarshal cr c keyBytes of
               None \<Rightarrow> Ok (0, Some (Errorf ''ECDSA X or Y points were nil: %q, %q'' [ANil, ANil]))
             | Some _ \<Rightarrow> Ok (BitSize c, None))))
     | _ \<Rightarrow> kind_panic))"

definition publicKey_BitLen :: "crypto \<Rightarrow> publicKey \<Rightarrow> (nat \<times> goerr option) res" where
  "publicKey_BitLen cr p = rbind (keyType (pk_key p)) (\<lambda>t.
     if t = KeyAlgoRSA then rsaKeyLength (pk_key p)
     else if t = KeyAlgoDSA then dsaKeyLength (pk_key p)
     else if t = KeyAlgoECDSA256 \<or> t = KeyAlgoECDSA384 \<or> t = KeyAlgoECDSA521
     then ecdsaKeyLength cr (pk_key p)
     else Ok (0, Some (ErrNew (''Key type not supported: '' @ t))))"

section \<open>Fingerprint\<close>

definition hexdigit :: "nat \<Rightarrow> char" where
  "hexdigit i = ''0123456789abcdef'' ! i"

definition hexbyte :: "byte \<Rightarrow> string" where
  "hexbyte b = [hexdigit (unat b div 16), hexdigit (unat b mod 16)]"

text \<open>\<^verbatim>\<open>Sprintf("% x", b)\<close>: the bytes in hexadecimal, separated by blanks.\<close>

fun hexSpaced :: "bytes \<Rightarrow> string" where
  "hexSpaced [] = ''''"
| "hexSpaced [b] = hexbyte b"
| "hexSpaced (b # c # bs) = hexbyte b @ '' '' @ hexSpaced (c # bs)"

definition replaceChar :: "char \<Rightarrow> string \<Rightarrow> string \<Rightarrow> string" where
  "replaceChar old new s = concat (map (\<lambda>c. if c = old then new else [c]) s)"

definition md5HexString :: "bytes \<Rightarrow> string" where
  "md5HexString md5 = replaceChar (CHR '' '') '':'' (hexSpaced md5)"

definition Fingerprint :: "crypto \<Rightarrow> publicKey \<Rightarrow> string res" where
  "Fingerprint cr p = rbind (keyMarshal (pk_key p)) (\<lambda>m. Ok (md5HexString (cr_hash cr MD5 m)))"

section \<open>Blacklist\<close>

text \<open>
  An entry of the directory: its name, whether it is a directory, and what opening it gives: an
  error, or the bytes that can be read and the read error at their end, if any. The variable
  \<^verbatim>\<open>blacklist\<close> is a map; a call of \<^verbatim>\<open>log.Fatal\<close> ends the program with its error.
\<close>

record dirEntry =
  de_Name :: string
  de_IsDir :: bool
  de_Open :: "(bytes \<times> goerr option) res"

type_synonym blacklist = "bytes \<rightharpoonup> bool"

definition blacklistPath :: string where
  "blacklistPath = ''blacklist''"

text \<open>\<^verbatim>\<open>bufio.ScanLines\<close>: the lines without line end and without one carriage return before it.\<close>

definition dropCR :: "bytes \<Rightarrow> bytes" where
  "dropCR l = (if l \<noteq> [] \<and> last l = 0x0d then butlast l else l)"

definition maxTokenSize :: nat where
  "maxTokenSize = 65536"

definition ErrTooLong :: goerr where
  "ErrTooLong = ErrNew ''bufio.Scanner: token too long''"

text \<open>
  The tokens that \<^verbatim>\<open>Scan\<close> gives and the error of the scanner afterwards: it stops at a line that
  does not fit the buffer. Unread bytes at a read error are a last token.
\<close>

function scanLines :: "bytes \<Rightarrow> goerr option \<Rightarrow> bytes list \<times> goerr option" where
  "scanLines data err =
     (if data = [] then ([], err)
      else let line = takeWhile (\<lambda>b. b \<noteq> 0x0a) data in
        if length line \<ge> maxTokenSize then ([], Some ErrTooLong)
        else let (ls, e) = scanLines (drop (length line + 1) data) err in (dropCR line # ls, e))"
  by pat_completeness auto
termination
  by (relation "measure (length \<circ> fst)") (auto simp: Suc_le_eq)

declare scanLines.simps [simp del]

definition loadFile :: "blacklist \<Rightarrow> dirEntry \<Rightarrow> blacklist res" where
  "loadFile bl f =
     (if de_IsDir f then Err (Errorf ''Subdirectories not supported in %q directory'' [AStr blacklistPath])
      else rbind (de_Open f) (\<lambda>(data, rerr).
        let (ls, e) = scanLines data rerr;
            bl = foldl (\<lambda>bl l. bl(TrimSpace l \<mapsto> True)) bl ls
        in case e of Some e \<Rightarrow> Err e | None \<Rightarrow> Ok bl))"

fun loadFiles :: "blacklist \<Rightarrow> dirEntry list \<Rightarrow> blacklist res" where
  "loadFiles bl [] = Ok bl"
| "loadFiles bl (f # fs) = rbind (loadFile bl f) (\<lambda>bl. loadFiles bl fs)"

definition loadBlacklistedKeys :: "dirEntry list res \<Rightarrow> blacklist \<Rightarrow> blacklist res" where
  "loadBlacklistedKeys dir bl = rbind dir (\<lambda>files. loadFiles bl files)"

definition markKey :: "blacklist \<Rightarrow> publicKey \<Rightarrow> publicKey res" where
  "markKey bl k = rbind (MarshalAuthorizedKey (pk_key k)) (\<lambda>l.
     if bl (TrimSpace l) = Some True then Ok (k\<lparr>pk_blacklisted := True\<rparr>) else Ok k)"

fun markBlacklistedKeys :: "blacklist \<Rightarrow> publicKey list \<Rightarrow> publicKey list res" where
  "markBlacklistedKeys bl [] = Ok []"
| "markBlacklistedKeys bl (k # ks) =
     rbind (markKey bl k) (\<lambda>k. rbind (markBlacklistedKeys bl ks) (\<lambda>ks. Ok (k # ks)))"

section \<open>Correctness of the bit length\<close>

lemma Unmarshal_rest_empty:
  assumes "st_fields st \<noteq> []" "rest_last (st_fields st)" "wf_vals (st_fields st) vs"
    and "encStruct st vs = b" "b \<noteq> []" "length b < 2 ^ 32"
  shows "Unmarshal b st = Ok vs"
  using Unmarshal_enc [OF assms(1-3)] assms(4-6) by simp

lemma rsaKeyLength_wf:
  "length (encPlain (RSAKey r)) < 2 ^ 32 \<Longrightarrow> wf_plain cr (RSAKey r) \<Longrightarrow> rsaKeyLength (RSAKey r) = Ok (BitLen (rsa_N r), None)"
proof -
  assume l: "length (encPlain (RSAKey r)) < 2 ^ 32" and w: "wf_plain cr (RSAKey r)"
  have "Unmarshal (encPlain (RSAKey r)) rsaLen_T = Ok [VString KeyAlgoRSA, VInt (rsa_E r), VInt (rsa_N r), VBytes []]"
    by (rule Unmarshal_rest_empty [OF _ _ _ _ _ l]) (simp_all add: rsaLen_T_def encStruct_def encPlain_def)
  with keyMarshal_plain [OF w] show ?thesis
    unfolding rsaKeyLength_def by (simp add: with_fields_def reflect_defs del: keyMarshal.simps)
qed

lemma dsaKeyLength_wf:
  "length (encPlain (DSAKey d)) < 2 ^ 32 \<Longrightarrow> dsaKeyLength (DSAKey d) = Ok (BitLen (dsa_P d), None)"
proof -
  assume l: "length (encPlain (DSAKey d)) < 2 ^ 32"
  have "Unmarshal (encPlain (DSAKey d)) dsaLen_T
      = Ok [VString KeyAlgoDSA, VInt (dsa_P d), VInt (dsa_Q d), VInt (dsa_G d), VInt (dsa_Y d), VBytes []]"
    by (rule Unmarshal_rest_empty [OF _ _ _ _ _ l]) (simp_all add: dsaLen_T_def encStruct_def encPlain_def)
  with keyMarshal_plain [of _ "DSAKey d"] show ?thesis
    unfolding dsaKeyLength_def by (simp add: with_fields_def reflect_defs del: keyMarshal.simps)
qed

lemma ecdsaKeyLength_wf:
  assumes "length (encPlain (ECDSAKey e)) < 2 ^ 32" and w: "wf_plain cr (ECDSAKey e)"
  shows "ecdsaKeyLength cr (ECDSAKey e) = Ok (BitSize (ec_Curve e), None)"
proof -
  have "Unmarshal (encPlain (ECDSAKey e)) ecdsaLen_T = Ok [VString (plainName (ECDSAKey e)),
      VString (curveID (ec_Curve e)), VBytes (encPoint (ec_Curve e) (ec_X e) (ec_Y e)), VBytes []]"
    by (rule Unmarshal_rest_empty [OF _ _ _ _ _ assms(1)]) (simp_all add: ecdsaLen_T_def encStruct_def encPlain_def)
  moreover have "curve_of_id (curveID (ec_Curve e)) = Some (ec_Curve e)" "ec_Unmarshal cr (ec_Curve e)
      (encPoint (ec_Curve e) (ec_X e) (ec_Y e)) = Some (ec_X e, ec_Y e)"
    using w by (simp_all add: curve_of_id_iff ec_Unmarshal_iff)
  ultimately show ?thesis
    using keyMarshal_plain [OF w] unfolding ecdsaKeyLength_def
    by (simp add: with_fields_def reflect_defs del: keyMarshal.simps plainName.simps)
qed

definition expectedBits :: "PublicKey \<Rightarrow> nat \<times> goerr option" where
  "expectedBits k = (case k of
       RSAKey r \<Rightarrow> (BitLen (rsa_N r), None)
     | DSAKey d \<Rightarrow> (BitLen (dsa_P d), None)
     | ECDSAKey e \<Rightarrow> (BitSize (ec_Curve e), None)
     | CertKey c \<Rightarrow> (0, Some (ErrNew (''Key type not supported: '' @ certName (Key c)))))"

lemma ecdsa_name_cases:
  "supportedEllipticCurve c \<Longrightarrow> ''ecdsa-sha2-'' @ curveID c \<in> {KeyAlgoECDSA256, KeyAlgoECDSA384, KeyAlgoECDSA521}"
  by (auto simp: curveID_def elim: supported_cases)

lemma certName_not_plain:
  "wf_plain cr k \<Longrightarrow> certName k \<notin> {KeyAlgoRSA, KeyAlgoDSA, KeyAlgoECDSA256, KeyAlgoECDSA384, KeyAlgoECDSA521}"
  by (erule wf_plain_cases; simp only: certName_def; code_simp)

lemma publicKey_BitLen_wf:
  assumes "wf_key cr (pk_key p)" "length (encKey (pk_key p)) < 2 ^ 32"
  shows "publicKey_BitLen cr p = Ok (expectedBits (pk_key p))"
proof (cases "pk_key p")
  case (RSAKey r)
  with assms show ?thesis using rsaKeyLength_wf [of r cr] by (simp add: publicKey_BitLen_def expectedBits_def)
next
  case (DSAKey d)
  with assms show ?thesis using dsaKeyLength_wf [of d] by (simp add: publicKey_BitLen_def expectedBits_def)
next
  case (ECDSAKey e)
  with assms have w: "wf_plain cr (ECDSAKey e)" by simp
  with ecdsa_name_cases [of "ec_Curve e"] ECDSAKey assms ecdsaKeyLength_wf [OF _ w] keyType_plain [OF w]
  show ?thesis by (auto simp: publicKey_BitLen_def expectedBits_def)
next
  case (CertKey c)
  with assms have w: "wf_plain cr (Key c)" by (cases c) auto
  with CertKey have "keyType (pk_key p) = Ok (certName (Key c))"
    by (cases c) (simp add: keyType_plain certName_props(1))
  with certName_not_plain [OF w] CertKey show ?thesis by (simp add: publicKey_BitLen_def expectedBits_def)
qed

text \<open>For every key a client can present (a key that \<open>ParsePublicKey\<close> accepts), \<open>BitLen\<close>
  reports the length of the modulus of an RSA key, of the prime of a DSA key, and the size of the
  curve of an ECDSA key, without error; for a certificate it reports length 0 and the error that the
  type is not supported.\<close>

theorem presented_key_bit_length:
  assumes "ParsePublicKey cr b = Ok k" "length b < 2 ^ 32"
  shows "publicKey_BitLen cr \<lparr>pk_key = k, pk_blacklisted = m\<rparr> = Ok (expectedBits k)"
  using ParsePublicKey_wf [OF assms] assms(2) by (intro publicKey_BitLen_wf [THEN trans]) simp_all

theorem presented_key_bit_length_witness:
  "publicKey_BitLen demoCrypto \<lparr>pk_key = RSAKey \<lparr>rsa_E = 3, rsa_N = 5\<rparr>, pk_blacklisted = False\<rparr> = Ok (3, None)"
proof -
  let ?b = "[0, 0, 0, 7, 115, 115, 104, 45, 114, 115, 97, 0, 0, 0, 2, 0, 3, 0, 0, 0, 1, 5 :: byte]"
  have "ParsePublicKey demoCrypto ?b = Ok (RSAKey \<lparr>rsa_E = 3, rsa_N = 5\<rparr>)" by code_simp
  from presented_key_bit_length [OF this, of False] show ?thesis
    by (simp add: expectedBits_def BitLen_def bitlen.simps)
qed

section \<open>Correctness of the fingerprint\<close>

lemma hexdigit_inj: "i < 16 \<Longrightarrow> j < 16 \<Longrightarrow> hexdigit i = hexdigit j \<longleftrightarrow> i = j"
proof -
  assume "i < 16" "j < 16"
  moreover have "distinct ''0123456789abcdef''" by simp
  ultimately show ?thesis unfolding hexdigit_def by (simp add: nth_eq_iff_index_eq)
qed

lemma hexdigit_not_blank: "i < 16 \<Longrightarrow> hexdigit i \<noteq> CHR '' ''"
proof -
  assume "i < 16"
  then have "hexdigit i \<in> set ''0123456789abcdef''" unfolding hexdigit_def by (intro nth_mem) simp
  then show ?thesis by auto
qed

fun hexColons :: "bytes \<Rightarrow> string" where
  "hexColons [] = ''''"
| "hexColons [b] = hexbyte b"
| "hexColons (b # c # bs) = hexbyte b @ '':'' @ hexColons (c # bs)"

lemma replaceChar_simps [simp]:
  "replaceChar a n [] = []" "replaceChar a n (c # s) = (if c = a then n else [c]) @ replaceChar a n s"
  "replaceChar a n (s @ t) = replaceChar a n s @ replaceChar a n t"
  by (simp_all add: replaceChar_def)

lemma nibbles [simp]: "unat (b :: byte) div 16 < 16" "unat (b :: byte) mod 16 < 16"
  by (simp_all add: less_mult_imp_div_less)

lemma md5HexString_colons: "md5HexString bs = hexColons bs"
  unfolding md5HexString_def
  by (induction bs rule: hexColons.induct) (simp_all add: hexbyte_def hexdigit_not_blank)

lemma hexbyte_inj: "hexbyte a = hexbyte b \<longleftrightarrow> a = b"
proof
  assume "hexbyte a = hexbyte b"
  then have "unat a div 16 = unat b div 16" "unat a mod 16 = unat b mod 16"
    by (simp_all add: hexbyte_def hexdigit_inj)
  then have "unat a = unat b" by (metis div_mult_mod_eq)
  then show "a = b" by (rule unsigned_word_eqI)
qed simp

lemma hexColons_inj: "length as = length bs \<Longrightarrow> hexColons as = hexColons bs \<Longrightarrow> as = bs"
proof (induction as arbitrary: bs rule: hexColons.induct)
  case (3 a a' as)
  then obtain b b' bs' where b: "bs = b # b' # bs'" by (cases bs; cases "tl bs") auto
  with "3.prems" have "hexbyte a = hexbyte b \<and> hexColons (a' # as) = hexColons (b' # bs')"
    by (simp add: hexbyte_def)
  with "3.IH" [of "b' # bs'"] "3.prems"(1) b show ?case by (simp add: hexbyte_inj)
next
  case (2 a)
  then obtain b where "bs = [b]" by (cases bs) auto
  with 2 show ?case by (simp add: hexbyte_inj)
qed simp

lemma length_hexColons: "length (hexColons bs) = 3 * length bs - 1"
  by (induction bs rule: hexColons.induct) (simp_all add: hexbyte_def)

text \<open>The fingerprint shown is the MD5 sum of the wire form of the key, as sixteen colon-separated
  hexadecimal bytes (47 characters); two keys show the same fingerprint exactly when the sums
  agree.\<close>

theorem fingerprint_faithful:
  assumes "keyMarshal (pk_key p) = Ok m" "keyMarshal (pk_key q) = Ok n" "\<And>b. length (cr_hash cr MD5 b) = 16"
  shows "\<exists>s t. Fingerprint cr p = Ok s \<and> Fingerprint cr q = Ok t \<and> length s = 47 \<and> s = hexColons (cr_hash cr MD5 m)
     \<and> (s = t \<longleftrightarrow> cr_hash cr MD5 m = cr_hash cr MD5 n)"
  using assms hexColons_inj [of "cr_hash cr MD5 m" "cr_hash cr MD5 n"]
  by (auto simp: Fingerprint_def md5HexString_colons length_hexColons)

definition demoCrypto16 :: crypto where
  "demoCrypto16 = demoCrypto\<lparr>cr_hash := (\<lambda>h b. take 16 (b @ replicate 16 0))\<rparr>"

theorem fingerprint_faithful_witness:
  "\<exists>s. Fingerprint demoCrypto16 \<lparr>pk_key = demoKey, pk_blacklisted = False\<rparr> = Ok s \<and> length s = 47"
proof -
  have k: "keyMarshal demoKey = Ok (encKey demoKey)"
    by (rule keyMarshal_enc(1) [of demoCrypto]) (simp add: demoKey_def BitLen_def bitlen.simps)
  have h: "length (cr_hash demoCrypto16 MD5 b) = 16" for b by (simp add: demoCrypto16_def)
  from fingerprint_faithful [of "\<lparr>pk_key = demoKey, pk_blacklisted = False\<rparr>" _ "\<lparr>pk_key = demoKey, pk_blacklisted = False\<rparr>",
      OF _ _ h] k show ?thesis by fastforce
qed

section \<open>Correctness of the blacklist\<close>

text \<open>The lines of a file as the loop of \<open>loadBlacklistedKeys\<close> sees them.\<close>

definition fileLines :: "dirEntry \<Rightarrow> bytes list" where
  "fileLines f = (case de_Open f of Ok (data, e) \<Rightarrow> map TrimSpace (fst (scanLines data e)) | _ \<Rightarrow> [])"

lemma foldl_upd_True: "foldl (\<lambda>bl l. bl(f l \<mapsto> True)) bl ls x = (if x \<in> f ` set ls then Some True else bl x)"
  by (induction ls arbitrary: bl) auto

lemma loadFile_Ok:
  "loadFile bl f = Ok bl' \<Longrightarrow> bl' x = Some True \<longleftrightarrow> bl x = Some True \<or> x \<in> set (fileLines f)"
proof -
  assume "loadFile bl f = Ok bl'"
  then obtain data e ls where "de_Open f = Ok (data, e)" "scanLines data e = (ls, None)"
    "bl' = foldl (\<lambda>bl l. bl(TrimSpace l \<mapsto> True)) bl ls"
    by (cases "de_Open f") (auto simp: loadFile_def Let_def split: if_split_asm prod.split_asm option.split_asm)
  then show ?thesis by (auto simp: fileLines_def foldl_upd_True)
qed

lemma loadFiles_Ok:
  "loadFiles bl fs = Ok bl' \<Longrightarrow> bl' x = Some True \<longleftrightarrow> bl x = Some True \<or> (\<exists>f\<in>set fs. x \<in> set (fileLines f))"
proof (induction fs arbitrary: bl)
  case (Cons f fs)
  then obtain b where "loadFile bl f = Ok b" "loadFiles b fs = Ok bl'" by auto
  with Cons.IH [of b] loadFile_Ok [of bl f b x] show ?case by auto
qed simp

lemma markKey_wf:
  assumes "wf_key cr (pk_key k)"
  obtains t where "keyType (pk_key k) = Ok t"
    "markKey bl k = Ok (k\<lparr>pk_blacklisted := pk_blacklisted k \<or> bl (keyLine t (encKey (pk_key k))) = Some True\<rparr>)"
proof -
  obtain t where t: "keyType (pk_key k) = Ok t" "MarshalAuthorizedKey (pk_key k) = Ok (keyLine t (encKey (pk_key k)) @ [0x0a])"
    "t \<noteq> []" "list_all graphic (bytes_of t)" using MarshalAuthorizedKey_line [OF assms] by blast
  note lp = keyLine_props [OF t(3,4) encKey_nonempty [of "pk_key k"]]
  have "TrimSpace (keyLine t (encKey (pk_key k)) @ [0x0a]) = keyLine t (encKey (pk_key k))"
    using TrimSpace_graphic(3) lp(1-3) by blast
  with t show ?thesis by (intro that [of t]) (auto simp: markKey_def)
qed

text \<open>A line of a blacklist file determines its key.\<close>

lemma keyLine_eq_iff:
  assumes "wf_key cr k" "wf_key cr k'" "keyType k = Ok t" "keyType k' = Ok t'"
    and "length (encKey k) < 2 ^ 32" "length (encKey k') < 2 ^ 32"
  shows "keyLine t (encKey k) = keyLine t' (encKey k') \<longleftrightarrow> k = k'"
proof
  assume eq: "keyLine t (encKey k) = keyLine t' (encKey k')"
  have "MarshalAuthorizedKey k = Ok (keyLine t (encKey k) @ [0x0a])"
    "MarshalAuthorizedKey k' = Ok (keyLine t' (encKey k') @ [0x0a])"
    using keyMarshal_enc(1) assms(1-4) by (auto simp: MarshalAuthorizedKey_def keyLine_def)
  moreover have "\<exists>l. MarshalAuthorizedKey q = Ok l \<and> ParseAuthorizedKey cr (l @ []) = Ok (q, '''', [], [])"
    if q: "wf_key cr q" "length (encKey q) < 2 ^ 32" for q
  proof -
    obtain t where t: "MarshalAuthorizedKey q = Ok (keyLine t (encKey q) @ [0x0a])" "t \<noteq> []"
      "list_all graphic (bytes_of t)" "hd (bytes_of t) \<noteq> 0x23" using MarshalAuthorizedKey_line [OF q(1)] by blast
    then show ?thesis using keyLine_parses [OF q t(2-4), of "[]"] by simp
  qed
  ultimately show "k = k'" using assms eq by (metis prod.inject res.inject(1))
qed (use assms in simp)

text \<open>(C3) After the blacklist is loaded, a presented key is marked as blacklisted exactly when it was
  marked before or some file of the directory has a line that, trimmed, is the key in
  \<open>authorized_keys\<close> format; marking never fails and changes nothing else.\<close>

theorem blacklist_marks_listed_keys:
  assumes "loadBlacklistedKeys (Ok files) Map.empty = Ok bl" "wf_key cr (pk_key k)" "keyType (pk_key k) = Ok t"
  shows "markKey bl k = Ok (k\<lparr>pk_blacklisted := pk_blacklisted k
     \<or> (\<exists>f\<in>set files. keyLine t (encKey (pk_key k)) \<in> set (fileLines f))\<rparr>)"
proof -
  have "bl x = Some True \<longleftrightarrow> (\<exists>f\<in>set files. x \<in> set (fileLines f))" for x
    using loadFiles_Ok [of Map.empty files bl x] assms(1) by (simp add: loadBlacklistedKeys_def)
  moreover from markKey_wf [OF assms(2), of bl] assms(3) have "markKey bl k
      = Ok (k\<lparr>pk_blacklisted := pk_blacklisted k \<or> bl (keyLine t (encKey (pk_key k))) = Some True\<rparr>)"
    by fastforce
  ultimately show ?thesis by simp
qed

theorem blacklist_marks_listed_keys_witness:
  "\<exists>bl. loadBlacklistedKeys (Ok [\<lparr>de_Name = ''RSA'', de_IsDir = False,
       de_Open = Ok (keyLine ''ssh-rsa'' (encKey demoKey) @ [0x0a], None)\<rparr>]) Map.empty = Ok bl
    \<and> markKey bl \<lparr>pk_key = demoKey, pk_blacklisted = False\<rparr> = Ok \<lparr>pk_key = demoKey, pk_blacklisted = True\<rparr>"
proof -
  let ?f = "\<lparr>de_Name = ''RSA'', de_IsDir = False, de_Open = Ok (keyLine ''ssh-rsa'' (encKey demoKey) @ [0x0a], None)\<rparr>"
  have k: "wf_key demoCrypto demoKey" by (simp add: demoKey_def BitLen_def bitlen.simps)
  have t: "keyType demoKey = Ok ''ssh-rsa''" by (simp add: demoKey_def)
  have g: "list_all graphic (bytes_of ''ssh-rsa'')" by code_simp
  have "b64_encode (encKey demoKey) = bytes_of ''AAAAB3NzaC1yc2EAAAABEQAAAAE3''" by code_simp
  then have l: "length (keyLine ''ssh-rsa'' (encKey demoKey)) = 36" by (simp add: keyLine_def)
  note lp = keyLine_props [OF _ g encKey_nonempty [of demoKey], simplified]
  have "takeWhile (\<lambda>b. b \<noteq> 0x0a) (keyLine ''ssh-rsa'' (encKey demoKey) @ [0x0a]) = keyLine ''ssh-rsa'' (encKey demoKey)"
    using takeWhile_line [of "keyLine ''ssh-rsa'' (encKey demoKey)" "0x0a" "[]"] lp(4) by blast
  then have "scanLines (keyLine ''ssh-rsa'' (encKey demoKey) @ [0x0a]) None = ([keyLine ''ssh-rsa'' (encKey demoKey)], None)"
    using lp(1,4) l
    by (subst scanLines.simps) (auto simp: maxTokenSize_def dropCR_def scanLines.simps [of "[]"])
  then have s: "fileLines ?f = [keyLine ''ssh-rsa'' (encKey demoKey)]"
    "\<exists>bl. loadBlacklistedKeys (Ok [?f]) Map.empty = Ok bl"
    using TrimSpace_graphic(1) [OF lp(1-3)] by (simp_all add: fileLines_def loadBlacklistedKeys_def loadFile_def)
  then obtain bl where bl: "loadBlacklistedKeys (Ok [?f]) Map.empty = Ok bl" by blast
  from blacklist_marks_listed_keys [OF bl, of demoCrypto "\<lparr>pk_key = demoKey, pk_blacklisted = False\<rparr>" "''ssh-rsa''"] k t s(1)
  show ?thesis using bl by auto
qed

end
