(* ===== verification/Signers.thy ===== *)
theory Signers
  imports Key_Codec
begin

text \<open>
  Private keys and signers (the rest of \<^verbatim>\<open>ssh/keys.go\<close>) and the use of certificates: signers with a
  certificate, \<open>SignCert\<close> and \<open>CertChecker\<close> of \<^verbatim>\<open>ssh/certs.go\<close>. Signing primitives of the Go library
  are the record \<open>signprims\<close>; a random source is the list of bytes it will give.
\<close>

section \<open>Private keys\<close>

record rsaPrivateKey =
  rsaPriv_PublicKey :: rsaPublicKey
  rsaPriv_D :: int

record dsaPrivateKey =
  dsaPriv_PublicKey :: dsaPublicKey
  dsaPriv_X :: int

record ecdsaPrivateKey =
  ecPriv_PublicKey :: ecdsaPublicKey
  ecPriv_D :: int

record signprims =
  sp_rsa_sign :: "rsaPrivateKey \<Rightarrow> hash \<Rightarrow> bytes \<Rightarrow> bytes \<Rightarrow> bytes res"
  sp_dsa_sign :: "dsaPrivateKey \<Rightarrow> bytes \<Rightarrow> bytes \<Rightarrow> (int \<times> int) res"
  sp_ecdsa_sign :: "ecdsaPrivateKey \<Rightarrow> bytes \<Rightarrow> bytes \<Rightarrow> (int \<times> int) res"

text \<open>
  The implementations of the interface \<^verbatim>\<open>Signer\<close>: \<^verbatim>\<open>rsaPrivateKey\<close>, \<^verbatim>\<open>dsaPrivateKey\<close>,
  \<^verbatim>\<open>ecdsaPrivateKey\<close> and \<^verbatim>\<open>openSSHCertSigner\<close>.
\<close>

datatype Signer =
    RSASigner rsaPrivateKey
  | DSASigner dsaPrivateKey
  | ECDSASigner ecdsaPrivateKey
  | CertSigner Certificate Signer

primrec signerPublicKey :: "Signer \<Rightarrow> PublicKey" where
  "signerPublicKey (RSASigner r) = RSAKey (rsaPriv_PublicKey r)"
| "signerPublicKey (DSASigner k) = DSAKey (dsaPriv_PublicKey k)"
| "signerPublicKey (ECDSASigner k) = ECDSAKey (ecPriv_PublicKey k)"
| "signerPublicKey (CertSigner pub signer) = CertKey pub"

definition rsaSign :: "crypto \<Rightarrow> signprims \<Rightarrow> rsaPrivateKey \<Rightarrow> bytes \<Rightarrow> bytes \<Rightarrow> Signature res" where
  "rsaSign cr sp r rand data =
     rbind (sp_rsa_sign sp r SHA1 rand (cr_hash cr SHA1 data)) (\<lambda>blob.
     rbind (keyType (RSAKey (rsaPriv_PublicKey r))) (\<lambda>t.
       Ok \<lparr>sig_Format = t, sig_Blob = blob\<rparr>))"

text \<open>\<^verbatim>\<open>copy(sig[20-len(rb):20], rb)\<close> and \<^verbatim>\<open>copy(sig[40-len(sb):], sb)\<close>.\<close>

definition dsaSign :: "crypto \<Rightarrow> signprims \<Rightarrow> dsaPrivateKey \<Rightarrow> bytes \<Rightarrow> bytes \<Rightarrow> Signature res" where
  "dsaSign cr sp k rand data =
     rbind (sp_dsa_sign sp k rand (cr_hash cr SHA1 data)) (\<lambda>(r, s).
       let sig = replicate 40 0; rb = be_bytes (nat \<bar>r\<bar>); sb = be_bytes (nat \<bar>s\<bar>)
       in if length rb > 20 then Panic ''slice bounds out of range''
          else rbind (overlay sig (20 - int (length rb)) rb) (\<lambda>sig.
               rbind (overlay sig (40 - int (length sb)) sb) (\<lambda>sig.
               rbind (keyType (DSAKey (dsaPriv_PublicKey k))) (\<lambda>t.
                 Ok \<lparr>sig_Format = t, sig_Blob = sig\<rparr>))))"

definition ecdsaSign :: "crypto \<Rightarrow> signprims \<Rightarrow> ecdsaPrivateKey \<Rightarrow> bytes \<Rightarrow> bytes \<Rightarrow> Signature res" where
  "ecdsaSign cr sp k rand data =
     rbind (sp_ecdsa_sign sp k rand (cr_hash cr (ecHash (ec_Curve (ecPriv_PublicKey k))) data)) (\<lambda>(r, s).
     rbind (marshalInt (replicate (intLength r + intLength s) 0) r) (\<lambda>(w1, rest).
     rbind (marshalInt rest s) (\<lambda>(w2, rest).
     rbind (keyType (ECDSAKey (ecPriv_PublicKey k))) (\<lambda>t.
       Ok \<lparr>sig_Format = t, sig_Blob = w1 @ w2 @ rest\<rparr>))))"

fun Sign :: "crypto \<Rightarrow> signprims \<Rightarrow> Signer \<Rightarrow> bytes \<Rightarrow> bytes \<Rightarrow> Signature res" where
  "Sign cr sp (RSASigner r) rand data = rsaSign cr sp r rand data"
| "Sign cr sp (DSASigner k) rand data = dsaSign cr sp k rand data"
| "Sign cr sp (ECDSASigner k) rand data = ecdsaSign cr sp k rand data"
| "Sign cr sp (CertSigner pub signer) rand data = Sign cr sp signer rand data"

text \<open>
  The dynamic types that \<open>NewSignerFromKey\<close> and \<open>NewPublicKey\<close> distinguish; any other type is
  given by its name.
\<close>

datatype anyKey =
    PrivRSA rsaPrivateKey | PrivDSA dsaPrivateKey | PrivECDSA ecdsaPrivateKey
  | PubRSA rsaPublicKey | PubDSA dsaPublicKey | PubECDSA ecdsaPublicKey | OtherType string

primrec typeName :: "anyKey \<Rightarrow> string" where
  "typeName (PrivRSA _) = ''*rsa.PrivateKey''"
| "typeName (PrivDSA _) = ''*dsa.PrivateKey''"
| "typeName (PrivECDSA _) = ''*ecdsa.PrivateKey''"
| "typeName (PubRSA _) = ''*rsa.PublicKey''"
| "typeName (PubDSA _) = ''*dsa.PublicKey''"
| "typeName (PubECDSA _) = ''*ecdsa.PublicKey''"
| "typeName (OtherType t) = t"

definition NewSignerFromKey :: "anyKey \<Rightarrow> Signer res" where
  "NewSignerFromKey k = (case k of
       PrivRSA t \<Rightarrow> Ok (RSASigner t)
     | PrivDSA t \<Rightarrow> Ok (DSASigner t)
     | PrivECDSA t \<Rightarrow> if supportedEllipticCurve (ec_Curve (ecPriv_PublicKey t)) then Ok (ECDSASigner t)
         else Err (ErrNew ''ssh: only P256, P384 and P521 EC keys are supported.'')
     | _ \<Rightarrow> Err (Errorf ''ssh: unsupported key type %T'' [AStr (typeName k)]))"

definition NewPublicKey :: "anyKey \<Rightarrow> PublicKey res" where
  "NewPublicKey k = (case k of
       PubRSA t \<Rightarrow> Ok (RSAKey t)
     | PubECDSA t \<Rightarrow> if supportedEllipticCurve (ec_Curve t) then Ok (ECDSAKey t)
         else Err (ErrNew ''ssh: only P256, P384 and P521 EC keys are supported.'')
     | PubDSA t \<Rightarrow> Ok (DSAKey t)
     | _ \<Rightarrow> Err (Errorf ''ssh: unsupported key type %T'' [AStr (typeName k)]))"

text \<open>
  The decoders of \<^verbatim>\<open>encoding/pem\<close>, \<^verbatim>\<open>crypto/x509\<close> and \<^verbatim>\<open>encoding/asn1\<close> that private keys go
  through. \<open>dl_asn1\<close> decodes a sequence of six integers and gives the rest of the input.
\<close>

record derlib =
  dl_pem :: "bytes \<Rightarrow> (string \<times> bytes) option"
  dl_pkcs1 :: "bytes \<Rightarrow> rsaPrivateKey res"
  dl_ec :: "bytes \<Rightarrow> ecdsaPrivateKey res"
  dl_asn1 :: "bytes \<Rightarrow> (int list \<times> bytes) res"
  dl_error :: "goerr \<Rightarrow> string"

text \<open>
  The struct has the fields \<^verbatim>\<open>Version, P, Q, G, Priv, Pub\<close>, in this order; \<^verbatim>\<open>Y\<close> is taken from the
  fifth and \<^verbatim>\<open>X\<close> from the sixth.
\<close>

definition ParseDSAPrivateKey :: "derlib \<Rightarrow> bytes \<Rightarrow> dsaPrivateKey res" where
  "ParseDSAPrivateKey dl der = (case dl_asn1 dl der of
       Err e \<Rightarrow> Err (ErrNew (''ssh: failed to parse DSA key: '' @ dl_error dl e))
     | Panic p \<Rightarrow> Panic p
     | Ok (ks, rest) \<Rightarrow>
         if length rest > 0 then Err (ErrNew ''ssh: garbage after DSA key'')
         else (case ks of
             [version, p, q, g, priv, pub] \<Rightarrow>
               Ok \<lparr>dsaPriv_PublicKey = \<lparr>dsa_P = p, dsa_Q = q, dsa_G = g, dsa_Y = priv\<rparr>, dsaPriv_X = pub\<rparr>
           | _ \<Rightarrow> kind_panic))"

definition ParseRawPrivateKey :: "derlib \<Rightarrow> bytes \<Rightarrow> anyKey res" where
  "ParseRawPrivateKey dl pemBytes = (case dl_pem dl pemBytes of
       None \<Rightarrow> Err (ErrNew ''ssh: no key found'')
     | Some (type, der) \<Rightarrow>
         if type = ''RSA PRIVATE KEY'' then rbind (dl_pkcs1 dl der) (\<lambda>k. Ok (PrivRSA k))
         else if type = ''EC PRIVATE KEY'' then rbind (dl_ec dl der) (\<lambda>k. Ok (PrivECDSA k))
         else if type = ''DSA PRIVATE KEY'' then rbind (ParseDSAPrivateKey dl der) (\<lambda>k. Ok (PrivDSA k))
         else Err (Errorf ''ssh: unsupported key type %q'' [AStr type]))"

definition ParsePrivateKey :: "derlib \<Rightarrow> bytes \<Rightarrow> Signer res" where
  "ParsePrivateKey dl pemBytes = rbind (ParseRawPrivateKey dl pemBytes) NewSignerFromKey"

definition signAndMarshal :: "crypto \<Rightarrow> signprims \<Rightarrow> Signer \<Rightarrow> bytes \<Rightarrow> bytes \<Rightarrow> bytes res" where
  "signAndMarshal cr sp k rand data =
     rbind (Sign cr sp k rand data) (\<lambda>sig. Marshal Signature_T (Signature_vals sig))"

section \<open>Certificates in use\<close>

abbreviation UserCert :: uint32 where "UserCert \<equiv> 1"
abbreviation HostCert :: uint32 where "HostCert \<equiv> 2"

definition CertTimeInfinity :: uint64 where
  "CertTimeInfinity = - 1"

abbreviation sourceAddressCriticalOption :: string where
  "sourceAddressCriticalOption \<equiv> ''source-address''"

definition NewCertSigner :: "Certificate \<Rightarrow> Signer \<Rightarrow> Signer res" where
  "NewCertSigner cert signer =
     rbind (keyMarshal (Key cert)) (\<lambda>a. rbind (keyMarshal (signerPublicKey signer)) (\<lambda>b.
       if a \<noteq> b then Err (ErrNew ''ssh: signer and cert have different public key'')
       else Ok (CertSigner cert signer)))"

fun with_nonce_and_authority :: "Certificate \<Rightarrow> bytes \<Rightarrow> PublicKey \<Rightarrow> Certificate" where
  "with_nonce_and_authority (Certificate _ key serial ctype kid princ va vb perm resv _ sig) nonce auth =
     Certificate nonce key serial ctype kid princ va vb perm resv (Some auth) sig"

text \<open>
  \<^verbatim>\<open>io.ReadFull(rand, c.Nonce)\<close> takes 32 bytes of the random source and fails when it ends early.
  The certificate is changed in place, so the result has it even where there is an error.
\<close>

definition SignCert :: "crypto \<Rightarrow> signprims \<Rightarrow> Certificate \<Rightarrow> bytes \<Rightarrow> Signer \<Rightarrow> (Certificate \<times> goerr option) res" where
  "SignCert cr sp c rand authority =
     (if length rand < 32
      then Ok (Certificate (rand @ replicate (32 - length rand) 0) (Key c) (Serial c) (CertType c) (KeyId c)
             (ValidPrincipals c) (ValidAfter c) (ValidBefore c) (CertPermissions c) (Reserved c)
             (SignatureKey c) (CertSignature c),
             Some (if rand = [] then EOF else ErrUnexpectedEOF))
      else let c = with_nonce_and_authority c (take 32 rand) (signerPublicKey authority)
        in rbind (bytesForSigning c) (\<lambda>b. case Sign cr sp authority (drop 32 rand) b of
             Panic p \<Rightarrow> Panic p
           | Err e \<Rightarrow> Ok (c, Some e)
           | Ok sig \<Rightarrow> Ok (with_signature c (Some sig), None)))"

text \<open>
  \<open>'m\<close> is the type of connection metadata that is passed on to the callback for plain keys. A
  nil \<^verbatim>\<open>Clock\<close> is the system clock, so the model always has one, giving Unix seconds.
\<close>

record 'm CertChecker =
  SupportedCriticalOptions :: "string list"
  IsAuthority :: "PublicKey option \<Rightarrow> bool"
  Clock :: int
  UserKeyFallback :: "('m \<Rightarrow> PublicKey \<Rightarrow> Permissions option res) option"
  HostKeyFallback :: "(string \<Rightarrow> PublicKey \<Rightarrow> unit res) option"
  IsRevoked :: "(Certificate \<Rightarrow> bool) option"

definition CheckCert :: "crypto \<Rightarrow> 'm CertChecker \<Rightarrow> string \<Rightarrow> Certificate \<Rightarrow> unit res" where
  "CheckCert cr c prin cert =
     (if (case IsRevoked c of Some f \<Rightarrow> f cert | None \<Rightarrow> False)
      then Err (Errorf ''ssh: certicate serial %d revoked'' [AInt (uint (Serial cert))])
      else case find (\<lambda>opt. opt \<noteq> sourceAddressCriticalOption \<and> opt \<notin> set (SupportedCriticalOptions c))
          (map fst (CriticalOptions (CertPermissions cert))) of
        Some opt \<Rightarrow> Err (Errorf ''ssh: unsupported critical option %q in certificate'' [AStr opt])
      | None \<Rightarrow>
          if ValidPrincipals cert \<noteq> [] \<and> prin \<notin> set (ValidPrincipals cert)
          then Err (Errorf ''ssh: principal %q not in the set of valid principals for given certificate: %q''
                 (AStr prin # map AStr (ValidPrincipals cert)))
          else if \<not> IsAuthority c (SignatureKey cert)
          then Err (Errorf ''ssh: certificate signed by unrecognized authority'' [])
          else if sint (ValidAfter cert) < 0 \<or> Clock c < sint (ValidAfter cert)
          then Err (Errorf ''ssh: cert is not yet valid'' [])
          else if ValidBefore cert \<noteq> CertTimeInfinity
            \<and> (Clock c \<ge> sint (ValidBefore cert) \<or> sint (ValidBefore cert) < 0)
          then Err (Errorf ''ssh: cert has expired'' [])
          else (case (SignatureKey cert, CertSignature cert) of
            (Some k, Some sig) \<Rightarrow> rbind (bytesForSigning cert) (\<lambda>b. case keyVerify cr k b sig of
                Ok _ \<Rightarrow> Ok ()
              | Err _ \<Rightarrow> Err (Errorf ''ssh: certificate signature does not verify'' [])
              | Panic p \<Rightarrow> Panic p)
          | _ \<Rightarrow> Panic ''nil pointer dereference''))"

definition CheckHostKey :: "crypto \<Rightarrow> 'm CertChecker \<Rightarrow> string \<Rightarrow> PublicKey \<Rightarrow> unit res" where
  "CheckHostKey cr c addr key = (case key of
       CertKey cert \<Rightarrow>
         if CertType cert \<noteq> HostCert
         then Err (Errorf ''ssh: certificate presented as a host key has type %d'' [AInt (uint (CertType cert))])
         else CheckCert cr c addr cert
     | _ \<Rightarrow> (case HostKeyFallback c of
           Some f \<Rightarrow> f addr key
         | None \<Rightarrow> Err (ErrNew ''ssh: non-certificate host key'')))"

text \<open>The user name is an argument here, as the metadata type is left open.\<close>

definition Authenticate :: "crypto \<Rightarrow> 'm CertChecker \<Rightarrow> 'm \<Rightarrow> string \<Rightarrow> PublicKey \<Rightarrow> Permissions option res" where
  "Authenticate cr c conn user pubKey = (case pubKey of
       CertKey cert \<Rightarrow>
         if CertType cert \<noteq> UserCert
         then Err (Errorf ''ssh: cert has type %d'' [AInt (uint (CertType cert))])
         else rbind (CheckCert cr c user cert) (\<lambda>_. Ok (Some (CertPermissions cert)))
     | _ \<Rightarrow> (case UserKeyFallback c of
           Some f \<Rightarrow> f conn pubKey
         | None \<Rightarrow> Err (ErrNew ''ssh: normal key pairs not accepted'')))"

section \<open>Signatures verify\<close>

text \<open>
  What the library promises of its signature primitives: a signature made with a private key
  verifies with its public key; the two numbers of a DSA signature are below a 160-bit modulus and
  those of an ECDSA signature have at most 521 bits.
\<close>

definition sign_laws :: "crypto \<Rightarrow> signprims \<Rightarrow> bool" where
  "sign_laws cr sp \<longleftrightarrow>
     (\<forall>k h rnd d b. sp_rsa_sign sp k h rnd d = Ok b \<longrightarrow> cr_rsa_verify cr (rsaPriv_PublicKey k) h d b = None) \<and>
     (\<forall>k rnd d r s. sp_dsa_sign sp k rnd d = Ok (r, s) \<longrightarrow>
        0 \<le> r \<and> r < 256 ^ 20 \<and> 0 \<le> s \<and> s < 256 ^ 20 \<and> cr_dsa_verify cr (dsaPriv_PublicKey k) d r s) \<and>
     (\<forall>k rnd d r s. sp_ecdsa_sign sp k rnd d = Ok (r, s) \<longrightarrow>
        BitLen r \<le> 521 \<and> BitLen s \<le> 521 \<and> 0 \<le> r \<and> 0 \<le> s \<and> cr_ecdsa_verify cr (ecPriv_PublicKey k) d r s)"

primrec signer_ok :: "Signer \<Rightarrow> bool" where
  "signer_ok (RSASigner k) = True"
| "signer_ok (DSASigner k) = True"
| "signer_ok (ECDSASigner k) = True"
| "signer_ok (CertSigner pub signer) = (Key pub = signerPublicKey signer \<and> signer_ok signer)"

lemma overlay_in:
  "i + length b \<le> length xs \<Longrightarrow> overlay xs (int i) b = Ok (take i xs @ b @ drop (i + length b) xs)"
  by (simp add: overlay_def Let_def min_absorb1)

lemma dsa_blob:
  assumes "0 \<le> r" "r < 256 ^ 20" "0 \<le> s" "s < 256 ^ 20"
  shows "length (be_bytes (nat \<bar>r\<bar>)) \<le> 20"
    and "rbind (overlay (replicate 40 0) (20 - int (length (be_bytes (nat \<bar>r\<bar>)))) (be_bytes (nat \<bar>r\<bar>))) (\<lambda>sig.
      overlay sig (40 - int (length (be_bytes (nat \<bar>s\<bar>)))) (be_bytes (nat \<bar>s\<bar>)))
    = Ok (be_fixed 20 (nat r) @ be_fixed 20 (nat s))"
proof -
  have n: "nat r < 256 ^ 20" "nat s < 256 ^ 20" using assms by (simp_all add: nat_less_iff)
  note l = n [THEN length_be_bytes_fits]
  show "length (be_bytes (nat \<bar>r\<bar>)) \<le> 20" using l assms by simp
  define a b where "a = be_bytes (nat r)" and "b = be_bytes (nat s)"
  have i: "20 - int (length a) = int (20 - length a)" "40 - int (length b) = int (40 - length b)"
    using l by (simp_all add: a_def b_def)
  have "overlay (replicate 40 0) (20 - int (length a)) a = Ok (be_fixed 20 (nat r) @ replicate 20 0)"
    using l(1) unfolding i be_fixed_pad [OF n(1)] a_def [symmetric] by (subst overlay_in) simp_all
  moreover have "overlay (be_fixed 20 (nat r) @ replicate 20 0) (40 - int (length b)) b
      = Ok (be_fixed 20 (nat r) @ be_fixed 20 (nat s))"
    using l(2) unfolding i be_fixed_pad [OF n(2)] b_def [symmetric] by (subst overlay_in) simp_all
  ultimately show "rbind (overlay (replicate 40 0) (20 - int (length (be_bytes (nat \<bar>r\<bar>)))) (be_bytes (nat \<bar>r\<bar>))) (\<lambda>sig.
      overlay sig (40 - int (length (be_bytes (nat \<bar>s\<bar>)))) (be_bytes (nat \<bar>s\<bar>)))
    = Ok (be_fixed 20 (nat r) @ be_fixed 20 (nat s))"
    using assms by (simp add: a_def b_def)
qed

lemma ecdsa_blob:
  assumes "BitLen r \<le> 521" "BitLen s \<le> 521" "0 \<le> r" "0 \<le> s"
  shows "\<exists>rest. marshalInt (replicate (intLength r + intLength s) 0) r = Ok (encInt r, rest)
      \<and> marshalInt rest s = Ok (encInt s, [])" and "Unmarshal (encInt r @ encInt s) ecSig_T = Ok [VInt r, VInt s]"
proof -
  have m: "marshalInt (replicate (intLength r + intLength s) 0) r = Ok (encInt r, replicate (intLength s) 0)"
    using marshalInt_fits [of "replicate (intLength r + intLength s) 0" r "intLength s"]
    by (simp add: replicate_add)
  with marshalInt_replicate [of s]
  show "\<exists>rest. marshalInt (replicate (intLength r + intLength s) 0) r = Ok (encInt r, rest)
      \<and> marshalInt rest s = Ok (encInt s, [])" by blast
  have "length (encInt n) \<le> 71" if "BitLen n \<le> 521" "0 \<le> n" for n
  proof -
    have "length (encInt n) = intLength n" by (simp add: encInt_def encString_def intLength_eq)
    with that show ?thesis by (auto simp: intLength_def Let_def)
  qed
  from this [OF assms(1,3)] this [OF assms(2,4)] have "length (encInt r @ encInt s) < 2 ^ 32" by simp
  then show "Unmarshal (encInt r @ encInt s) ecSig_T = Ok [VInt r, VInt s]"
    using Unmarshal_enc [of ecSig_T "[VInt r, VInt s]"] mpint.enc_nonempty
    by (simp add: ecSig_T_def encStruct_def)
qed

lemma Sign_verifies:
  assumes laws: "sign_laws cr sp"
  shows "Sign cr sp k rand data = Ok sig \<Longrightarrow> signer_ok k \<Longrightarrow> keyVerify cr (signerPublicKey k) data sig = Ok ()"
proof (induction k)
  case (RSASigner k)
  then show ?case using laws by (auto simp: rsaSign_def rsaVerify_def ok_unless_def sign_laws_def)
next
  case (DSASigner k)
  then obtain r s where rs: "sp_dsa_sign sp k rand (cr_hash cr SHA1 data) = Ok (r, s)"
    by (auto simp: dsaSign_def)
  with laws have b: "0 \<le> r" "r < 256 ^ 20" "0 \<le> s" "s < 256 ^ 20"
    and v: "cr_dsa_verify cr (dsaPriv_PublicKey k) (cr_hash cr SHA1 data) r s" by (auto simp: sign_laws_def)
  from DSASigner.prems(1) rs dsa_blob [OF b] have "sig = \<lparr>sig_Format = ''ssh-dss'', sig_Blob = be_fixed 20 (nat r) @ be_fixed 20 (nat s)\<rparr>"
    by (auto simp: dsaSign_def Let_def)
  with b v show ?case by (simp add: dsaVerify_def be_val_be_fixed nat_less_iff)
next
  case (ECDSASigner k)
  let ?d = "cr_hash cr (ecHash (ec_Curve (ecPriv_PublicKey k))) data"
  from ECDSASigner obtain r s where rs: "sp_ecdsa_sign sp k rand ?d = Ok (r, s)" by (auto simp: ecdsaSign_def)
  with laws have b: "BitLen r \<le> 521" "BitLen s \<le> 521" "0 \<le> r" "0 \<le> s"
    and v: "cr_ecdsa_verify cr (ecPriv_PublicKey k) ?d r s" by (auto simp: sign_laws_def)
  from ECDSASigner.prems(1) rs ecdsa_blob(1) [OF b] obtain t where
    "keyType (ECDSAKey (ecPriv_PublicKey k)) = Ok t" "sig = \<lparr>sig_Format = t, sig_Blob = encInt r @ encInt s\<rparr>"
    by (auto simp: ecdsaSign_def)
  with v ecdsa_blob(2) [OF b] show ?case by (simp add: ecdsaVerify_def reflect_defs)
next
  case (CertSigner pub k)
  then show ?case by (cases pub) simp
qed

text \<open>Under the laws of the signature primitives, whatever any signer signs (an RSA, DSA or
  ECDSA key, or a certificate for the key of a signer) verifies with the public key of the signer:
  the encoding of signatures loses nothing.\<close>

theorem signatures_verify:
  assumes "sign_laws cr sp" "signer_ok k" "Sign cr sp k rand data = Ok sig"
  shows "keyVerify cr (signerPublicKey k) data sig = Ok ()"
  using Sign_verifies [OF assms(1)] assms(2,3) by blast

definition demoPrims :: signprims where
  "demoPrims = \<lparr>sp_rsa_sign = (\<lambda>k h rnd d. Ok d), sp_dsa_sign = (\<lambda>k rnd d. Ok (5, 300)),
     sp_ecdsa_sign = (\<lambda>k rnd d. Ok (128, 7))\<rparr>"

lemma demo_sign_laws: "sign_laws demoCrypto demoPrims"
  by (simp add: sign_laws_def demoCrypto_def demoPrims_def BitLen_def bitlen.simps)

definition demoDSA :: Signer where
  "demoDSA = DSASigner \<lparr>dsaPriv_PublicKey = \<lparr>dsa_P = 23, dsa_Q = 11, dsa_G = 2, dsa_Y = 8\<rparr>, dsaPriv_X = 3\<rparr>"

theorem signatures_verify_witness:
  "\<exists>sig. Sign demoCrypto demoPrims demoDSA [] [1, 2, 3] = Ok sig
     \<and> keyVerify demoCrypto (signerPublicKey demoDSA) [1, 2, 3] sig = Ok ()"
proof -
  have "is_ok (Sign demoCrypto demoPrims demoDSA [] [1, 2, 3])" by code_simp
  then obtain sig where s: "Sign demoCrypto demoPrims demoDSA [] [1, 2, 3] = Ok sig"
    by (cases "Sign demoCrypto demoPrims demoDSA [] [1, 2, 3]") simp_all
  with signatures_verify [OF demo_sign_laws _ s] show ?thesis by (simp add: demoDSA_def)
qed

section \<open>Checking certificates\<close>

lemma CheckCert_Ok_iff:
  "CheckCert cr c p cert = Ok () \<longleftrightarrow>
     (case IsRevoked c of Some f \<Rightarrow> \<not> f cert | None \<Rightarrow> True) \<and>
     (\<forall>opt \<in> fst ` set (CriticalOptions (CertPermissions cert)).
        opt = sourceAddressCriticalOption \<or> opt \<in> set (SupportedCriticalOptions c)) \<and>
     (ValidPrincipals cert = [] \<or> p \<in> set (ValidPrincipals cert)) \<and> IsAuthority c (SignatureKey cert) \<and>
     0 \<le> sint (ValidAfter cert) \<and> sint (ValidAfter cert) \<le> Clock c \<and>
     (ValidBefore cert = CertTimeInfinity \<or> Clock c < sint (ValidBefore cert) \<and> 0 \<le> sint (ValidBefore cert)) \<and>
     (\<exists>k sig b. SignatureKey cert = Some k \<and> CertSignature cert = Some sig \<and> bytesForSigning cert = Ok b
        \<and> keyVerify cr k b sig = Ok ())"
proof -
  define ok where "ok \<longleftrightarrow> (\<exists>k sig b. SignatureKey cert = Some k \<and> CertSignature cert = Some sig
     \<and> bytesForSigning cert = Ok b \<and> keyVerify cr k b sig = Ok ())"
  have f: "find (\<lambda>opt. opt \<noteq> sourceAddressCriticalOption \<and> opt \<notin> set (SupportedCriticalOptions c))
      (map fst (CriticalOptions (CertPermissions cert))) = None \<longleftrightarrow>
    (\<forall>opt \<in> fst ` set (CriticalOptions (CertPermissions cert)).
        opt = sourceAddressCriticalOption \<or> opt \<in> set (SupportedCriticalOptions c))"
    by (auto simp: find_None_iff)
  have s: "(case (SignatureKey cert, CertSignature cert) of
            (Some k, Some sig) \<Rightarrow> rbind (bytesForSigning cert) (\<lambda>b. case keyVerify cr k b sig of
                Ok _ \<Rightarrow> Ok ()
              | Err _ \<Rightarrow> Err (Errorf ''ssh: certificate signature does not verify'' [])
              | Panic p \<Rightarrow> Panic p)
          | _ \<Rightarrow> Panic ''nil pointer dereference'') = Ok () \<longleftrightarrow> ok"
  proof -
    have "(case r of Ok _ \<Rightarrow> Ok () | Err _ \<Rightarrow> Err e | Panic p \<Rightarrow> Panic p) = Ok () \<longleftrightarrow> r = Ok ()"
      for r :: "unit res" and e by (cases r) auto
    then show ?thesis by (auto simp: ok_def split: option.splits)
  qed
  show ?thesis
    unfolding CheckCert_def ok_def [symmetric] f [symmetric]
    using s by (auto simp: not_less not_le split: option.splits if_splits)
qed

lemma sint_nonneg_unat: "0 \<le> sint (w :: uint64) \<Longrightarrow> sint w = int (unat w) \<and> unat w < 2 ^ 63"
proof -
  assume "0 \<le> sint w"
  then have b: "\<not> bit (uint w) 63" using bit_last_iff [of w] by (simp add: bit_uint_iff)
  have "uint w = take_bit (Suc 63) (uint w)" using uint_lt2p [of w] by (simp add: take_bit_int_eq_self)
  also have "\<dots> = take_bit 63 (uint w)" unfolding take_bit_Suc_from_most using b by simp
  finally have u: "uint w = take_bit 63 (uint w)" .
  with b have "sint w = uint w" by (simp add: sint_uint signed_take_bit_eq_if_positive)
  moreover have "uint w < 2 ^ 63" using take_bit_int_less_exp [of 63 "uint w"] u by simp
  then have "int (unat w) < int (2 ^ 63)" by simp
  then have "unat w < 2 ^ 63" by (simp only: of_nat_less_iff)
  ultimately show ?thesis by (simp only: uint_nat [symmetric])
qed

lemma sint_nonneg_iff: "0 \<le> sint (w :: uint64) \<longleftrightarrow> unat w < 2 ^ 63"
proof
  assume "unat w < 2 ^ 63"
  then have "int (unat w) < int (2 ^ 63)" by (simp only: of_nat_less_iff)
  then have "take_bit 63 (uint w) = uint w" by (simp add: take_bit_int_eq_self)
  then have "\<not> bit (uint w) 63" using bit_take_bit_iff [of 63 "uint w" 63] by simp
  then show "0 \<le> sint w" by (simp add: sint_uint signed_take_bit_eq_if_positive)
qed (use sint_nonneg_unat in blast)

text \<open>The bytes that are signed: the printed certificate without its signature.\<close>

lemma bytesForSigning_wf:
  assumes "wf_cert cr cert" "CertSignature cert = Some sig"
  shows "bytesForSigning cert = Ok b \<longleftrightarrow> certMarshal cert = Ok (b @ encString (encSig sig))"
proof -
  let ?n = "encCert (with_signature cert None)"
  have ws: "with_signature cert (Some sig) = cert" using assms(2) by (cases cert) simp
  have m: "certMarshal cert = Ok (take (length ?n - 4) ?n @ encString (encSig sig))"
    using certMarshal_signature [OF assms(1), of "Some sig"] unfolding ws encCert_signature [of cert sig, unfolded ws] .
  have "4 \<le> length ?n" by (cases cert) (simp add: encStruct_def genericCertData_T_def genericCertData_vals_def encString_def [of "[]"])
  then have "bytesForSigning cert = Ok (take (length ?n - 4) ?n)"
    using certMarshal_signature [OF assms(1), of None] by (simp add: bytesForSigning_def)
  with m show ?thesis by auto
qed

text \<open>(C15) A certificate is accepted exactly when it is not revoked; the clock is inside its validity period read
  as unsigned times (the start is below \<open>2^63\<close> and not after the clock, and the clock is before an end that is infinite or
  also below \<open>2^63\<close>); the principal is listed, unless there is no list; every critical option but the source
  address is supported; its authority is recognised; and the key of the authority verifies its signature over the
  printed certificate less the signature.\<close>

theorem CheckCert_accepts:
  assumes "wf_cert cr cert"
  shows "CheckCert cr c p cert = Ok () \<longleftrightarrow>
      (\<forall>f. IsRevoked c = Some f \<longrightarrow> \<not> f cert)
    \<and> unat (ValidAfter cert) < 2 ^ 63 \<and> int (unat (ValidAfter cert)) \<le> Clock c
    \<and> (ValidBefore cert = CertTimeInfinity \<or> unat (ValidBefore cert) < 2 ^ 63 \<and> Clock c < int (unat (ValidBefore cert)))
    \<and> (ValidPrincipals cert = [] \<or> p \<in> set (ValidPrincipals cert))
    \<and> fst ` set (CriticalOptions (CertPermissions cert)) \<subseteq> insert sourceAddressCriticalOption (set (SupportedCriticalOptions c))
    \<and> (\<exists>k sig b. SignatureKey cert = Some k \<and> IsAuthority c (Some k) \<and> CertSignature cert = Some sig
        \<and> keyVerify cr k b sig = Ok () \<and> certMarshal cert = Ok (b @ encString (encSig sig)))"
proof -
  have va: "0 \<le> sint (ValidAfter cert) \<and> sint (ValidAfter cert) \<le> Clock c
      \<longleftrightarrow> unat (ValidAfter cert) < 2 ^ 63 \<and> int (unat (ValidAfter cert)) \<le> Clock c"
    using sint_nonneg_iff [of "ValidAfter cert"] sint_nonneg_unat [of "ValidAfter cert"] by auto
  have vb: "Clock c < sint (ValidBefore cert) \<and> 0 \<le> sint (ValidBefore cert)
      \<longleftrightarrow> unat (ValidBefore cert) < 2 ^ 63 \<and> Clock c < int (unat (ValidBefore cert))"
    using sint_nonneg_iff [of "ValidBefore cert"] sint_nonneg_unat [of "ValidBefore cert"] by auto
  have opts: "(\<forall>opt \<in> fst ` set (CriticalOptions (CertPermissions cert)).
        opt = sourceAddressCriticalOption \<or> opt \<in> set (SupportedCriticalOptions c))
      \<longleftrightarrow> fst ` set (CriticalOptions (CertPermissions cert)) \<subseteq> insert sourceAddressCriticalOption (set (SupportedCriticalOptions c))"
    by blast
  have sig: "IsAuthority c (SignatureKey cert) \<and> (\<exists>k sig b. SignatureKey cert = Some k \<and> CertSignature cert = Some sig
        \<and> bytesForSigning cert = Ok b \<and> keyVerify cr k b sig = Ok ())
      \<longleftrightarrow> (\<exists>k sig b. SignatureKey cert = Some k \<and> IsAuthority c (Some k) \<and> CertSignature cert = Some sig
        \<and> keyVerify cr k b sig = Ok () \<and> certMarshal cert = Ok (b @ encString (encSig sig)))"
    using bytesForSigning_wf [OF assms] by (metis option.inject)
  have rev: "(case IsRevoked c of Some f \<Rightarrow> \<not> f cert | None \<Rightarrow> True) \<longleftrightarrow> (\<forall>f. IsRevoked c = Some f \<longrightarrow> \<not> f cert)"
    by (cases "IsRevoked c") simp_all
  show ?thesis unfolding CheckCert_Ok_iff rev opts vb using va sig by blast
qed

text \<open>A certificate that \<open>SignCert\<close> completed has the authority as signer and a signature that verifies.\<close>

lemma SignCert_Ok:
  assumes "sign_laws cr sp" "signer_ok auth" "SignCert cr sp c rand auth = Ok (c', None)"
  shows "SignatureKey c' = Some (signerPublicKey auth)" and "\<exists>sig b. CertSignature c' = Some sig
      \<and> bytesForSigning c' = Ok b \<and> keyVerify cr (signerPublicKey auth) b sig = Ok ()"
    and "\<exists>nonce sig. length nonce = 32 \<and> c' = with_signature (with_nonce_and_authority c nonce (signerPublicKey auth)) (Some sig)"
proof -
  let ?c = "with_nonce_and_authority c (take 32 rand) (signerPublicKey auth)"
  from assms(3) have l: "32 \<le> length rand" by (auto simp: SignCert_def split: if_split_asm)
  with assms(3) obtain b where b1: "bytesForSigning ?c = Ok b" and r: "(case Sign cr sp auth (drop 32 rand) b of
      Panic p \<Rightarrow> Panic p | Err e \<Rightarrow> Ok (?c, Some e) | Ok sig \<Rightarrow> Ok (with_signature ?c (Some sig), None)) = Ok (c', None)"
    by (auto simp: SignCert_def Let_def)
  from r obtain sig where b2: "Sign cr sp auth (drop 32 rand) b = Ok sig" and c': "c' = with_signature ?c (Some sig)"
    by (cases "Sign cr sp auth (drop 32 rand) b") auto
  note b = b1 b2
  have "with_signature (with_signature ?c (Some sig)) None = with_signature ?c None" by (cases ?c) simp
  then have "bytesForSigning c' = Ok b" using b(1) by (simp add: c' bytesForSigning_def)
  with b(2) Sign_verifies [OF assms(1) b(2) assms(2)]
  show "\<exists>sig b. CertSignature c' = Some sig \<and> bytesForSigning c' = Ok b \<and> keyVerify cr (signerPublicKey auth) b sig = Ok ()"
    by (cases c) (auto simp: c')
  show "SignatureKey c' = Some (signerPublicKey auth)" by (cases c) (simp add: c')
  show "\<exists>nonce sig. length nonce = 32 \<and> c' = with_signature (with_nonce_and_authority c nonce (signerPublicKey auth)) (Some sig)"
    using c' l by (intro exI [of _ "take 32 rand"] exI [of _ sig]) simp
qed

text \<open>A certificate signed with \<open>SignCert\<close> passes \<open>CheckCert\<close> for every listed principal, inside
  its validity period, wherever the authority is recognised, the options are supported and the
  certificate is not revoked.\<close>

theorem signed_certificate_checks:
  assumes "sign_laws cr sp" "signer_ok auth" "SignCert cr sp c rand auth = Ok (c', None)"
    and "\<And>x. IsRevoked chk = Some x \<Longrightarrow> \<not> x c'" "IsAuthority chk (Some (signerPublicKey auth))"
    and "fst ` set (CriticalOptions (CertPermissions c)) \<subseteq> set (SupportedCriticalOptions chk)"
    and "p \<in> set (ValidPrincipals c)" "0 \<le> sint (ValidAfter c)" "sint (ValidAfter c) \<le> Clock chk"
    and "ValidBefore c = CertTimeInfinity \<or> Clock chk < sint (ValidBefore c)"
  shows "CheckCert cr chk p c' = Ok ()"
proof -
  obtain nonce sig where "c' = with_signature (with_nonce_and_authority c nonce (signerPublicKey auth)) (Some sig)"
    using SignCert_Ok(3) [OF assms(1-3)] by blast
  then have "CertPermissions c' = CertPermissions c" "ValidPrincipals c' = ValidPrincipals c"
    "ValidAfter c' = ValidAfter c" "ValidBefore c' = ValidBefore c" by (cases c; simp)+
  with assms(4-10) SignCert_Ok(1,2) [OF assms(1-3)] show ?thesis
    by (auto simp: CheckCert_Ok_iff split: option.split)
qed

definition demoChecker :: "unit CertChecker" where
  "demoChecker = \<lparr>SupportedCriticalOptions = [''force-command''], IsAuthority = (\<lambda>k. k \<noteq> None), Clock = 500,
     UserKeyFallback = None, HostKeyFallback = None, IsRevoked = None\<rparr>"

theorem signed_certificate_checks_witness:
  "\<exists>c'. SignCert demoCrypto demoPrims demoCert (replicate 40 7) demoDSA = Ok (c', None)
     \<and> CheckCert demoCrypto demoChecker ''bob'' c' = Ok ()"
proof -
  have "case SignCert demoCrypto demoPrims demoCert (replicate 40 7) demoDSA of Ok (c', None) \<Rightarrow> True | _ \<Rightarrow> False"
    by code_simp
  then obtain c' where c': "SignCert demoCrypto demoPrims demoCert (replicate 40 7) demoDSA = Ok (c', None)"
    by (auto split: res.splits option.splits)
  have "signer_ok demoDSA" by (simp add: demoDSA_def)
  from signed_certificate_checks [OF demo_sign_laws this c', of demoChecker "''bob''"] c' show ?thesis
    by (auto simp: demoChecker_def demoCert_def)
qed

theorem CheckCert_accepts_witness:
  "\<exists>c'. wf_cert demoCrypto c' \<and> CheckCert demoCrypto demoChecker ''bob'' c' = Ok ()
     \<and> CheckCert demoCrypto (demoChecker\<lparr>IsRevoked := Some (\<lambda>_. True)\<rparr>) ''bob'' c' \<noteq> Ok ()"
proof -
  have "case SignCert demoCrypto demoPrims demoCert (replicate 40 7) demoDSA of Ok (c', None) \<Rightarrow>
      is_ok (CheckCert demoCrypto demoChecker ''bob'' c') | _ \<Rightarrow> False" by code_simp
  then obtain c' where c': "SignCert demoCrypto demoPrims demoCert (replicate 40 7) demoDSA = Ok (c', None)"
    and ok: "CheckCert demoCrypto demoChecker ''bob'' c' = Ok ()"
    by (auto split: res.splits option.splits) (metis is_ok.simps(2,3) old.unit.exhaust res.exhaust)
  have wf: "wf_cert demoCrypto c'"
    using SignCert_Ok(3) [OF demo_sign_laws _ c'] wf_demoCert by (auto simp: demoCert_def demoDSA_def)
  have "CheckCert demoCrypto (demoChecker\<lparr>IsRevoked := Some (\<lambda>_. True)\<rparr>) ''bob'' c' \<noteq> Ok ()"
    by (subst CheckCert_accepts [OF wf]) simp
  with ok wf show ?thesis by blast
qed

end
