(* ===== verification/Negotiation.thy ===== *)
theory Negotiation
  imports Keys
begin

text \<open>
  Algorithm negotiation, configuration defaults, the data signed for authentication, and the flow
  control window: \<^verbatim>\<open>ssh/common.go\<close>, with the table of cipher modes of \<^verbatim>\<open>ssh/cipher.go\<close>.
\<close>

section \<open>Supported algorithms\<close>

definition supportedCiphers :: "string list" where
  "supportedCiphers = [''aes128-ctr'', ''aes192-ctr'', ''aes256-ctr'', ''aes128-gcm@openssh.com'',
     ''arcfour256'', ''arcfour128'']"

abbreviation kexAlgoDH1SHA1 :: string where "kexAlgoDH1SHA1 \<equiv> ''diffie-hellman-group1-sha1''"
abbreviation kexAlgoDH14SHA1 :: string where "kexAlgoDH14SHA1 \<equiv> ''diffie-hellman-group14-sha1''"
abbreviation kexAlgoECDH256 :: string where "kexAlgoECDH256 \<equiv> ''ecdh-sha2-nistp256''"
abbreviation kexAlgoECDH384 :: string where "kexAlgoECDH384 \<equiv> ''ecdh-sha2-nistp384''"
abbreviation kexAlgoECDH521 :: string where "kexAlgoECDH521 \<equiv> ''ecdh-sha2-nistp521''"

definition supportedKexAlgos :: "string list" where
  "supportedKexAlgos = [kexAlgoECDH256, kexAlgoECDH384, kexAlgoECDH521, kexAlgoDH14SHA1, kexAlgoDH1SHA1]"

definition supportedHostKeyAlgos :: "string list" where
  "supportedHostKeyAlgos = [CertAlgoRSAv01, CertAlgoDSAv01, CertAlgoECDSA256v01, CertAlgoECDSA384v01,
     CertAlgoECDSA521v01, KeyAlgoECDSA256, KeyAlgoECDSA384, KeyAlgoECDSA521, KeyAlgoRSA, KeyAlgoDSA]"

definition supportedMACs :: "string list" where
  "supportedMACs = [''hmac-sha1'', ''hmac-sha1-96'']"

abbreviation compressionNone :: string where "compressionNone \<equiv> ''none''"
abbreviation serviceUserAuth :: string where "serviceUserAuth \<equiv> ''ssh-userauth''"
abbreviation serviceSSH :: string where "serviceSSH \<equiv> ''ssh-connection''"

definition supportedCompressions :: "string list" where
  "supportedCompressions = [compressionNone]"

text \<open>The constructor of a cipher mode: \<open>None\<close> for AES-GCM, which is built by a special case.\<close>

datatype streamKind = NewAESCTR | NewRC4

record streamCipherMode =
  cm_keySize :: nat
  cm_ivSize :: nat
  cm_skip :: nat
  cm_createFunc :: "streamKind option"

abbreviation gcmCipherID :: string where "gcmCipherID \<equiv> ''aes128-gcm@openssh.com''"

definition cipherModes :: "(string \<times> streamCipherMode) list" where
  "cipherModes =
     [(''aes128-ctr'', \<lparr>cm_keySize = 16, cm_ivSize = 16, cm_skip = 0, cm_createFunc = Some NewAESCTR\<rparr>),
      (''aes192-ctr'', \<lparr>cm_keySize = 24, cm_ivSize = 16, cm_skip = 0, cm_createFunc = Some NewAESCTR\<rparr>),
      (''aes256-ctr'', \<lparr>cm_keySize = 32, cm_ivSize = 16, cm_skip = 0, cm_createFunc = Some NewAESCTR\<rparr>),
      (''arcfour128'', \<lparr>cm_keySize = 16, cm_ivSize = 0, cm_skip = 1536, cm_createFunc = Some NewRC4\<rparr>),
      (''arcfour256'', \<lparr>cm_keySize = 32, cm_ivSize = 0, cm_skip = 1536, cm_createFunc = Some NewRC4\<rparr>),
      (''arcfour'', \<lparr>cm_keySize = 16, cm_ivSize = 0, cm_skip = 0, cm_createFunc = Some NewRC4\<rparr>),
      (gcmCipherID, \<lparr>cm_keySize = 16, cm_ivSize = 12, cm_skip = 0, cm_createFunc = None\<rparr>)]"

definition hashFuncs :: "(string \<times> hash) list" where
  "hashFuncs = [(KeyAlgoRSA, SHA1), (KeyAlgoDSA, SHA1), (KeyAlgoECDSA256, SHA256), (KeyAlgoECDSA384, SHA384),
     (KeyAlgoECDSA521, SHA512), (CertAlgoRSAv01, SHA1), (CertAlgoDSAv01, SHA1), (CertAlgoECDSA256v01, SHA256),
     (CertAlgoECDSA384v01, SHA384), (CertAlgoECDSA521v01, SHA512)]"

section \<open>Negotiation\<close>

fun findCommonAlgorithm :: "string list \<Rightarrow> string list \<Rightarrow> string option" where
  "findCommonAlgorithm [] serverAlgos = None"
| "findCommonAlgorithm (c # clientAlgos) serverAlgos =
     (if c \<in> set serverAlgos then Some c else findCommonAlgorithm clientAlgos serverAlgos)"

fun findCommonCipher :: "string list \<Rightarrow> string list \<Rightarrow> string option" where
  "findCommonCipher [] serverCiphers = None"
| "findCommonCipher (c # clientCiphers) serverCiphers =
     (if c \<in> set serverCiphers \<and> map_of cipherModes c \<noteq> None then Some c
      else findCommonCipher clientCiphers serverCiphers)"

record directionAlgorithms =
  da_Cipher :: string
  da_MAC :: string
  da_Compression :: string

record algorithms =
  al_kex :: string
  al_hostKey :: string
  al_w :: directionAlgorithms
  al_r :: directionAlgorithms

text \<open>A nil result is \<open>None\<close>.\<close>

definition findAgreedAlgorithms :: "kexInitMsg \<Rightarrow> kexInitMsg \<Rightarrow> algorithms option" where
  "findAgreedAlgorithms c s =
     Option.bind (findCommonAlgorithm (kexInitMsg_KexAlgos c) (kexInitMsg_KexAlgos s)) (\<lambda>kex.
     Option.bind (findCommonAlgorithm (kexInitMsg_ServerHostKeyAlgos c) (kexInitMsg_ServerHostKeyAlgos s)) (\<lambda>hostKey.
     Option.bind (findCommonCipher (kexInitMsg_CiphersClientServer c) (kexInitMsg_CiphersClientServer s)) (\<lambda>wc.
     Option.bind (findCommonCipher (kexInitMsg_CiphersServerClient c) (kexInitMsg_CiphersServerClient s)) (\<lambda>rc.
     Option.bind (findCommonAlgorithm (kexInitMsg_MACsClientServer c) (kexInitMsg_MACsClientServer s)) (\<lambda>wm.
     Option.bind (findCommonAlgorithm (kexInitMsg_MACsServerClient c) (kexInitMsg_MACsServerClient s)) (\<lambda>rm.
     Option.bind (findCommonAlgorithm (kexInitMsg_CompressionClientServer c) (kexInitMsg_CompressionClientServer s)) (\<lambda>wz.
     Option.bind (findCommonAlgorithm (kexInitMsg_CompressionServerClient c) (kexInitMsg_CompressionServerClient s)) (\<lambda>rz.
       Some \<lparr>al_kex = kex, al_hostKey = hostKey,
             al_w = \<lparr>da_Cipher = wc, da_MAC = wm, da_Compression = wz\<rparr>,
             al_r = \<lparr>da_Cipher = rc, da_MAC = rm, da_Compression = rz\<rparr>\<rparr>))))))))"

section \<open>Configuration\<close>

definition minRekeyThreshold :: uint64 where
  "minRekeyThreshold = 256"

text \<open>Nil lists are \<open>None\<close>; whether \<^verbatim>\<open>Rand\<close> is set decides only which source is read.\<close>

record Config =
  cf_Rand :: "bytes option"
  cf_RekeyThreshold :: uint64
  cf_KeyExchanges :: "string list option"
  cf_Ciphers :: "string list option"
  cf_MACs :: "string list option"

definition or_default :: "'a option \<Rightarrow> 'a \<Rightarrow> 'a option" where
  "or_default x d = (case x of None \<Rightarrow> Some d | Some y \<Rightarrow> Some y)"

definition SetDefaults :: "bytes \<Rightarrow> Config \<Rightarrow> Config" where
  "SetDefaults randReader c =
     (let c = c\<lparr>cf_Rand := or_default (cf_Rand c) randReader,
               cf_Ciphers := or_default (cf_Ciphers c) supportedCiphers,
               cf_KeyExchanges := or_default (cf_KeyExchanges c) supportedKexAlgos,
               cf_MACs := or_default (cf_MACs c) supportedMACs\<rparr>;
          c = (if cf_RekeyThreshold c = 0 then c\<lparr>cf_RekeyThreshold := push_bit 30 1\<rparr> else c)
      in if cf_RekeyThreshold c < minRekeyThreshold then c\<lparr>cf_RekeyThreshold := minRekeyThreshold\<rparr> else c)"

section \<open>Data signed for authentication\<close>

definition authData_T :: structType where
  "authData_T = \<lparr>st_name = '''', st_tag = '''', st_fields = [(''Session'', KBytes), (''Type'', KUint8),
     (''User'', KString), (''Service'', KString), (''Method'', KString), (''Sign'', KBool),
     (''Algo'', KBytes), (''PubKey'', KBytes)]\<rparr>"

definition buildDataSignedForAuth :: "bytes \<Rightarrow> userAuthRequestMsg \<Rightarrow> bytes \<Rightarrow> bytes \<Rightarrow> bytes res" where
  "buildDataSignedForAuth sessionId req algo pubKey = Marshal authData_T
     [VBytes sessionId, VUint8 msgUserAuthRequest, VString (userAuthRequestMsg_User req),
      VString (userAuthRequestMsg_Service req), VString (userAuthRequestMsg_Method req), VBool True,
      VBytes algo, VBytes pubKey]"

section \<open>Flow control window\<close>

text \<open>
  The methods of \<^verbatim>\<open>window\<close> run under its lock, so each is one step. \<open>reserve_enter\<close> is the part of
  \<open>reserve\<close> before the loop that waits, and \<open>reserve_leave\<close> the part after it, with \<open>can_leave\<close>
  the negated condition of the loop: a waiting writer is woken by \<open>add\<close> and \<open>close\<close>.
\<close>

record window =
  w_win :: uint32
  w_writeWaiters :: nat
  w_closed :: bool

definition window_add :: "window \<Rightarrow> uint32 \<Rightarrow> window \<times> bool" where
  "window_add w win =
     (if win = 0 then (w, True)
      else if w_win w + win < win then (w, False)
      else (w\<lparr>w_win := w_win w + win\<rparr>, True))"

definition window_close :: "window \<Rightarrow> window" where
  "window_close w = w\<lparr>w_closed := True\<rparr>"

definition reserve_enter :: "window \<Rightarrow> window" where
  "reserve_enter w = w\<lparr>w_writeWaiters := w_writeWaiters w + 1\<rparr>"

definition can_leave :: "window \<Rightarrow> bool" where
  "can_leave w \<longleftrightarrow> \<not> (w_win w = 0 \<and> \<not> w_closed w)"

definition reserve_leave :: "window \<Rightarrow> uint32 \<Rightarrow> window \<times> uint32 \<times> goerr option" where
  "reserve_leave w win =
     (let w = w\<lparr>w_writeWaiters := w_writeWaiters w - 1\<rparr>;
          win = (if w_win w < win then w_win w else win)
      in (w\<lparr>w_win := w_win w - win\<rparr>, win, if w_closed w then Some EOF else None))"

text \<open>\<open>reserve\<close> as a whole, when it does not have to wait.\<close>

definition window_reserve :: "window \<Rightarrow> uint32 \<Rightarrow> (window \<times> uint32 \<times> goerr option) option" where
  "window_reserve w win = (let w = reserve_enter w in if can_leave w then Some (reserve_leave w win) else None)"

section \<open>Correctness of the negotiation\<close>

text \<open>An algorithm is agreed when it is the first of the client's list with the wanted property.\<close>

definition agreed :: "(string \<Rightarrow> bool) \<Rightarrow> string list \<Rightarrow> string list \<Rightarrow> string \<Rightarrow> bool" where
  "agreed P cs ss a \<longleftrightarrow> a \<in> set ss \<and> P a
     \<and> (\<exists>pre post. cs = pre @ a # post \<and> (\<forall>x\<in>set pre. \<not> (x \<in> set ss \<and> P x)))"

lemma agreed_Cons:
  "agreed P (c # cs) ss a \<longleftrightarrow> (if c \<in> set ss \<and> P c then a = c else agreed P cs ss a)"
proof (cases "c \<in> set ss \<and> P c")
  case True
  have "a = c" if pre: "c # cs = pre @ a # post" "\<forall>x\<in>set pre. \<not> (x \<in> set ss \<and> P x)" for pre post
    using pre True by (cases pre) auto
  moreover have "agreed P (c # cs) ss c"
    using True unfolding agreed_def by (intro conjI exI [of _ "[]"] exI [of _ cs]) simp_all
  ultimately show ?thesis using True unfolding agreed_def by auto
next
  case False
  have "\<exists>pre' post. cs = pre' @ a # post \<and> (\<forall>x\<in>set pre'. \<not> (x \<in> set ss \<and> P x))"
    if "a \<in> set ss \<and> P a" "c # cs = pre @ a # post" "\<forall>x\<in>set pre. \<not> (x \<in> set ss \<and> P x)" for pre post
    using that False by (cases pre) auto
  moreover have "\<exists>pre post. c # cs = pre @ a # post \<and> (\<forall>x\<in>set pre. \<not> (x \<in> set ss \<and> P x))"
    if "cs = pre' @ a # post" "\<forall>x\<in>set pre'. \<not> (x \<in> set ss \<and> P x)" for pre' post
    using that False by (intro exI [of _ "c # pre'"] exI [of _ post]) simp
  ultimately show ?thesis using False unfolding agreed_def by meson
qed

lemma agreed_Nil [simp]: "\<not> agreed P [] ss a"
  by (simp add: agreed_def)

lemma findCommonAlgorithm_iff: "findCommonAlgorithm cs ss = Some a \<longleftrightarrow> agreed (\<lambda>_. True) cs ss a"
  by (induction cs) (auto simp: agreed_Cons)

lemma findCommonCipher_iff:
  "findCommonCipher cs ss = Some a \<longleftrightarrow> agreed (\<lambda>a. map_of cipherModes a \<noteq> None) cs ss a"
  by (induction cs) (auto simp only: agreed_Cons agreed_Nil findCommonCipher.simps option.distinct option.inject split: if_split)

lemma findCommonAlgorithm_None_iff: "findCommonAlgorithm cs ss = None \<longleftrightarrow> set cs \<inter> set ss = {}"
  by (induction cs) auto

text \<open>(C14) The algorithms both sides agree on are, in each of the eight categories, the first of the client's
  list that the server's list has too, and the ciphers are ones that have a mode; there is no agreement
  exactly when one category has no such algorithm.\<close>

theorem agreed_algorithms:
  "findAgreedAlgorithms c s = Some a \<longleftrightarrow>
     agreed (\<lambda>_. True) (kexInitMsg_KexAlgos c) (kexInitMsg_KexAlgos s) (al_kex a)
     \<and> agreed (\<lambda>_. True) (kexInitMsg_ServerHostKeyAlgos c) (kexInitMsg_ServerHostKeyAlgos s) (al_hostKey a)
     \<and> agreed (\<lambda>x. map_of cipherModes x \<noteq> None) (kexInitMsg_CiphersClientServer c) (kexInitMsg_CiphersClientServer s) (da_Cipher (al_w a))
     \<and> agreed (\<lambda>x. map_of cipherModes x \<noteq> None) (kexInitMsg_CiphersServerClient c) (kexInitMsg_CiphersServerClient s) (da_Cipher (al_r a))
     \<and> agreed (\<lambda>_. True) (kexInitMsg_MACsClientServer c) (kexInitMsg_MACsClientServer s) (da_MAC (al_w a))
     \<and> agreed (\<lambda>_. True) (kexInitMsg_MACsServerClient c) (kexInitMsg_MACsServerClient s) (da_MAC (al_r a))
     \<and> agreed (\<lambda>_. True) (kexInitMsg_CompressionClientServer c) (kexInitMsg_CompressionClientServer s) (da_Compression (al_w a))
     \<and> agreed (\<lambda>_. True) (kexInitMsg_CompressionServerClient c) (kexInitMsg_CompressionServerClient s) (da_Compression (al_r a))"
  unfolding findAgreedAlgorithms_def findCommonAlgorithm_iff [symmetric] findCommonCipher_iff [symmetric]
  by (cases a; cases "al_w a"; cases "al_r a") (auto simp: bind_eq_Some_conv)

section \<open>The signed data is unambiguous\<close>

definition authData_vals :: "bytes \<Rightarrow> userAuthRequestMsg \<Rightarrow> bytes \<Rightarrow> bytes \<Rightarrow> fval list" where
  "authData_vals sid req algo key =
     [VBytes sid, VUint8 msgUserAuthRequest, VString (userAuthRequestMsg_User req),
      VString (userAuthRequestMsg_Service req), VString (userAuthRequestMsg_Method req), VBool True,
      VBytes algo, VBytes key]"

lemma authData_fields:
  "st_fields authData_T \<noteq> []" "rest_last (st_fields authData_T)"
  "wf_vals (st_fields authData_T) (authData_vals sid req algo key)" "encStruct authData_T (authData_vals sid req algo key) \<noteq> []"
  by (simp_all add: authData_T_def authData_vals_def encStruct_def)

lemma buildDataSignedForAuth_enc:
  "buildDataSignedForAuth sid req algo key = Ok (encStruct authData_T (authData_vals sid req algo key))"
  unfolding buildDataSignedForAuth_def authData_vals_def [symmetric] by (rule Marshal_enc [OF authData_fields(1,3)])

text \<open>A signature for authentication cannot be moved to another context: two signed texts are
  equal only if the session, the user, the service, the method, the algorithm and the key are.\<close>

theorem auth_data_injective:
  assumes "buildDataSignedForAuth sid req algo key = Ok d" "buildDataSignedForAuth sid' req' algo' key' = Ok d"
    and "length d < 2 ^ 32"
  shows "sid = sid' \<and> userAuthRequestMsg_User req = userAuthRequestMsg_User req'
    \<and> userAuthRequestMsg_Service req = userAuthRequestMsg_Service req'
    \<and> userAuthRequestMsg_Method req = userAuthRequestMsg_Method req' \<and> algo = algo' \<and> key = key'"
proof -
  have "Unmarshal d authData_T = Ok (authData_vals sid req algo key)" "Unmarshal d authData_T = Ok (authData_vals sid' req' algo' key')"
    using Unmarshal_enc [OF authData_fields, of sid req algo key] Unmarshal_enc [OF authData_fields, of sid' req' algo' key']
      assms by (simp_all add: buildDataSignedForAuth_enc)
  then show ?thesis by (simp add: authData_vals_def)
qed

theorem auth_data_injective_witness:
  "\<exists>d. buildDataSignedForAuth [1] \<lparr>userAuthRequestMsg_User = ''bob'', userAuthRequestMsg_Service = ''s'',
       userAuthRequestMsg_Method = ''m'', userAuthRequestMsg_Payload = []\<rparr> [2] [3] = Ok d
     \<and> buildDataSignedForAuth [1] \<lparr>userAuthRequestMsg_User = ''bo'', userAuthRequestMsg_Service = ''bs'',
       userAuthRequestMsg_Method = ''m'', userAuthRequestMsg_Payload = []\<rparr> [2] [3] \<noteq> Ok d"
proof -
  let ?r = "\<lparr>userAuthRequestMsg_User = ''bob'', userAuthRequestMsg_Service = ''s'',
       userAuthRequestMsg_Method = ''m'', userAuthRequestMsg_Payload = []\<rparr>"
  let ?q = "\<lparr>userAuthRequestMsg_User = ''bo'', userAuthRequestMsg_Service = ''bs'',
       userAuthRequestMsg_Method = ''m'', userAuthRequestMsg_Payload = []\<rparr>"
  obtain d where d: "buildDataSignedForAuth [1] ?r [2] [3] = Ok d" by (simp add: buildDataSignedForAuth_enc)
  then have "length d < 2 ^ 32"
    by (auto simp: buildDataSignedForAuth_enc encStruct_def authData_T_def authData_vals_def encString_def)
  have "buildDataSignedForAuth [1] ?q [2] [3] \<noteq> Ok d"
  proof
    assume "buildDataSignedForAuth [1] ?q [2] [3] = Ok d"
    from auth_data_injective [OF d this \<open>length d < 2 ^ 32\<close>] show False by simp
  qed
  with d show ?thesis by blast
qed

section \<open>The window never overflows\<close>

datatype windowOp = WAdd uint32 | WClose | WReserve uint32

text \<open>
  A run of the operations, with the number of bytes added by the peer and granted to writers so far.
  A reservation that would have to wait leaves no trace, and a refused adjustment changes nothing.
\<close>

fun windowRun :: "window \<Rightarrow> nat \<Rightarrow> nat \<Rightarrow> windowOp list \<Rightarrow> window \<times> nat \<times> nat" where
  "windowRun w a g [] = (w, a, g)"
| "windowRun w a g (WAdd n # ops) = (case window_add w n of
       (w, ok) \<Rightarrow> windowRun w (if ok then a + unat n else a) g ops)"
| "windowRun w a g (WClose # ops) = windowRun (window_close w) a g ops"
| "windowRun w a g (WReserve n # ops) = (case window_reserve w n of
       None \<Rightarrow> windowRun w a g ops
     | Some (w, k, e) \<Rightarrow> windowRun w a (g + unat k) ops)"

lemma window_add_spec:
  "window_add w n = (w', ok) \<Longrightarrow> ok \<longleftrightarrow> unat (w_win w) + unat n < 2 ^ 32"
  "window_add w n = (w', ok) \<Longrightarrow> unat (w_win w') = unat (w_win w) + (if ok then unat n else 0)"
proof -
  assume a: "window_add w n = (w', ok)"
  have l: "unat (w_win w) < 2 ^ 32" "unat n < 2 ^ 32"
    using unsigned_less [of "w_win w", where ?'a = nat] unsigned_less [of n, where ?'a = nat] by simp_all
  have s: "unat (w_win w + n) = (unat (w_win w) + unat n) mod 2 ^ 32" by (simp add: unat_word_ariths)
  have c: "w_win w + n < n \<longleftrightarrow> \<not> unat (w_win w) + unat n < 2 ^ 32"
  proof (cases "unat (w_win w) + unat n < 2 ^ 32")
    case True
    then show ?thesis unfolding word_less_nat_alt s by simp
  next
    case False
    with l have "(unat (w_win w) + unat n) mod 2 ^ 32 = unat (w_win w) + unat n - 2 ^ 32" by (simp add: le_mod_geq)
    with False l show ?thesis unfolding word_less_nat_alt s by linarith
  qed
  show "ok \<longleftrightarrow> unat (w_win w) + unat n < 2 ^ 32"
    using a c l by (auto simp: window_add_def split: if_splits)
  then show "unat (w_win w') = unat (w_win w) + (if ok then unat n else 0)"
    using a c s by (auto simp: window_add_def split: if_splits)
qed

lemma window_reserve_spec:
  assumes "window_reserve w n = Some (w', k, e)"
  shows "unat (w_win w) = unat (w_win w') + unat k" "k \<le> n" "e = None \<longleftrightarrow> \<not> w_closed w"
    "n \<noteq> 0 \<Longrightarrow> e = None \<Longrightarrow> k \<noteq> 0" "w_writeWaiters w' = w_writeWaiters w"
proof -
  have "unat (x - y) + unat y = unat x" if "y \<le> x" for x y :: uint32
    using that by (simp add: unat_sub word_le_nat_alt)
  then show "unat (w_win w) = unat (w_win w') + unat k"
    using assms by (auto simp: window_reserve_def reserve_enter_def reserve_leave_def Let_def not_less split: if_splits)
  show "k \<le> n" "e = None \<longleftrightarrow> \<not> w_closed w" "n \<noteq> 0 \<Longrightarrow> e = None \<Longrightarrow> k \<noteq> 0" "w_writeWaiters w' = w_writeWaiters w"
    using assms by (auto simp: window_reserve_def reserve_enter_def reserve_leave_def can_leave_def Let_def split: if_splits)
qed

lemma windowRun_conserves:
  "windowRun w a g ops = (w', a', g') \<Longrightarrow> unat (w_win w') + g' + a = unat (w_win w) + g + a'"
proof (induction ops arbitrary: w a g)
  case (Cons x ops)
  show ?case
  proof (cases x)
    case (WAdd n)
    obtain v ok where v: "window_add w n = (v, ok)" by (cases "window_add w n")
    with Cons.prems WAdd have "windowRun v (if ok then a + unat n else a) g ops = (w', a', g')" by simp
    from Cons.IH [OF this] window_add_spec(2) [OF v] show ?thesis by (cases ok) simp_all
  next
    case WClose
    with Cons.prems have "windowRun (window_close w) a g ops = (w', a', g')" by simp
    from Cons.IH [OF this] show ?thesis by (simp add: window_close_def)
  next
    case (WReserve n)
    show ?thesis
    proof (cases "window_reserve w n")
      case None
      with Cons.prems WReserve Cons.IH [of w a g] show ?thesis by simp
    next
      case (Some r)
      obtain v k e where r: "r = (v, k, e)" by (cases r)
      with Cons.prems WReserve Some have "windowRun v a (g + unat k) ops = (w', a', g')" by simp
      from Cons.IH [OF this] window_reserve_spec(1) [OF Some [unfolded r]] show ?thesis by simp
    qed
  qed
qed simp

text \<open>The window neither loses nor invents capacity: after any sequence of adjustments, closings and
  reservations, what is left plus what was granted to writers is what was there plus what the peer
  added, and it fits 32 bits; so writers never send more than the peer allowed.\<close>

theorem window_conservation:
  "\<exists>w' a' g'. windowRun w 0 0 ops = (w', a', g') \<and> unat (w_win w') + g' = unat (w_win w) + a'
     \<and> g' \<le> unat (w_win w) + a' \<and> unat (w_win w') < 2 ^ 32"
proof -
  obtain w' a' g' where r: "windowRun w 0 0 ops = (w', a', g')" by (cases "windowRun w 0 0 ops") auto
  have "unat (w_win w') < 2 ^ 32" using unsigned_less [of "w_win w'", where ?'a = nat] by simp
  with windowRun_conserves [OF r] r show ?thesis by auto
qed

end
