(* ===== verification/Server_Auth.thy ===== *)
theory Server_Auth
  imports Signers Negotiation "HOL-Library.Sublist"
begin

text \<open>
  Server-side user authentication: \<^verbatim>\<open>ssh/server.go\<close>. The callbacks of the server configuration may
  change the state of the application, of type \<open>'s\<close>, which is threaded through. The transport is a
  record of the packets that will arrive and those that were sent.
\<close>

section \<open>Packets in and out\<close>

record pktIO =
  io_in :: "bytes list"
  io_rerr :: goerr
  io_out :: "bytes list"
  io_wres :: "goerr option list"

text \<open>Reading past the last packet gives the error of the connection.\<close>

definition readPkt :: "pktIO \<Rightarrow> pktIO \<times> bytes res" where
  "readPkt io = (case io_in io of
       [] \<Rightarrow> (io, Err (io_rerr io))
     | p # ps \<Rightarrow> (io\<lparr>io_in := ps\<rparr>, Ok p))"

text \<open>\<open>io_wres\<close> holds the outcomes of the next writes; later writes succeed.\<close>

definition writePkt :: "pktIO \<Rightarrow> bytes \<Rightarrow> pktIO \<times> unit res" where
  "writePkt io p = (case io_wres io of
       [] \<Rightarrow> (io\<lparr>io_out := io_out io @ [p]\<rparr>, Ok ())
     | None # ws \<Rightarrow> (io\<lparr>io_out := io_out io @ [p], io_wres := ws\<rparr>, Ok ())
     | Some e # ws \<Rightarrow> (io\<lparr>io_wres := ws\<rparr>, Err e))"

text \<open>Writing a marshalled message; a panic of the encoder is kept.\<close>

definition writeMsg :: "pktIO \<Rightarrow> bytes res \<Rightarrow> pktIO \<times> unit res" where
  "writeMsg io m = (case m of Ok p \<Rightarrow> writePkt io p | Err e \<Rightarrow> (io, Err e) | Panic p \<Rightarrow> (io, Panic p))"

section \<open>Configuration and connection\<close>

datatype netAddr = NoAddr | TCPAddr bytes nat | OtherAddr string

record connMeta =
  cm_User :: string
  cm_SessionID :: bytes
  cm_ClientVersion :: bytes
  cm_ServerVersion :: bytes
  cm_RemoteAddr :: netAddr

type_synonym verdict = "Permissions option \<times> goerr option"

text \<open>
  A keyboard-interactive callback may call \<^verbatim>\<open>client.Challenge\<close> any number of times before it
  decides: it is a tree of challenges, whose continuation gets the answers or the error.
\<close>

datatype 's kiProg =
    KIDone 's verdict
  | KIAsk string string "string list" "bool list" "string list res \<Rightarrow> 's kiProg"

record 's ServerConfig =
  sc_Config :: Config
  sc_hostKeys :: "Signer list"
  sc_NoClientAuth :: bool
  sc_PasswordCallback :: "('s \<Rightarrow> connMeta \<Rightarrow> bytes \<Rightarrow> 's \<times> verdict) option"
  sc_PublicKeyCallback :: "('s \<Rightarrow> connMeta \<Rightarrow> PublicKey \<Rightarrow> 's \<times> verdict) option"
  sc_KeyboardInteractiveCallback :: "('s \<Rightarrow> connMeta \<Rightarrow> 's kiProg) option"
  sc_AuthLogCallback :: "('s \<Rightarrow> connMeta \<Rightarrow> string \<Rightarrow> goerr option \<Rightarrow> 's) option"
  sc_ServerVersion :: string

fun addHostKeyLoop :: "Signer list \<Rightarrow> Signer \<Rightarrow> Signer list res" where
  "addHostKeyLoop [] key = Ok [key]"
| "addHostKeyLoop (k # ks) key =
     rbind (keyType (signerPublicKey k)) (\<lambda>t. rbind (keyType (signerPublicKey key)) (\<lambda>u.
       if t = u then Ok (key # ks) else rbind (addHostKeyLoop ks key) (\<lambda>ks. Ok (k # ks))))"

definition AddHostKey :: "'s ServerConfig \<Rightarrow> Signer \<Rightarrow> 's ServerConfig res" where
  "AddHostKey s key = rbind (addHostKeyLoop (sc_hostKeys s) key) (\<lambda>ks. Ok (s\<lparr>sc_hostKeys := ks\<rparr>))"

section \<open>Cache of public keys\<close>

record cachedPubKey =
  ck_user :: string
  ck_pubKeyData :: bytes
  ck_result :: "goerr option"
  ck_perms :: "Permissions option"

type_synonym pubKeyCache = "cachedPubKey list"

definition maxCachedPubKeys :: nat where
  "maxCachedPubKeys = 16"

definition cache_get :: "pubKeyCache \<Rightarrow> string \<Rightarrow> bytes \<Rightarrow> cachedPubKey option" where
  "cache_get c user pubKeyData = find (\<lambda>k. ck_user k = user \<and> ck_pubKeyData k = pubKeyData) c"

definition cache_add :: "pubKeyCache \<Rightarrow> cachedPubKey \<Rightarrow> pubKeyCache" where
  "cache_add c candidate = (if length c < maxCachedPubKeys then c @ [candidate] else c)"

section \<open>Checks\<close>

definition isAcceptableAlgo :: "string \<Rightarrow> bool" where
  "isAcceptableAlgo algo \<longleftrightarrow>
     algo = KeyAlgoRSA \<or> algo = KeyAlgoDSA \<or> algo = KeyAlgoECDSA256 \<or> algo = KeyAlgoECDSA384
     \<or> algo = KeyAlgoECDSA521 \<or> isCertAlgo algo"

text \<open>
  The functions of package \<^verbatim>\<open>net\<close> that the source address check uses. An IP address is a slice of
  4 or 16 bytes; a network is what \<open>nl_contains\<close> can decide.
\<close>

record netlib =
  nl_ParseIP :: "string \<Rightarrow> bytes option"
  nl_ParseCIDR :: "string \<Rightarrow> (bytes \<times> nat) res"
  nl_contains :: "bytes \<times> nat \<Rightarrow> bytes \<Rightarrow> bool"

definition checkSourceAddress :: "netlib \<Rightarrow> netAddr \<Rightarrow> string \<Rightarrow> unit res" where
  "checkSourceAddress nl addr sourceAddr = (case addr of
       NoAddr \<Rightarrow> Err (ErrNew ''ssh: no address known for client, but source-address match required'')
     | OtherAddr s \<Rightarrow> Err (Errorf ''ssh: remote address %v is not an TCP address when checking source-address match'' [AStr s])
     | TCPAddr ip port \<Rightarrow>
         (let denied = Err (Errorf ''ssh: remote address %v is not allowed because of source-address restriction'' [AStr (str_of ip)])
          in case nl_ParseIP nl sourceAddr of
               Some allowedIP \<Rightarrow> if allowedIP = ip then Ok () else denied
             | None \<Rightarrow> (case nl_ParseCIDR nl sourceAddr of
                   Err e \<Rightarrow> Err (Errorf ''ssh: error parsing source-address restriction %q: %v'' [AStr sourceAddr])
                 | Panic p \<Rightarrow> Panic p
                 | Ok ipNet \<Rightarrow> if nl_contains nl ipNet ip then Ok () else denied)))"

section \<open>Keyboard-interactive challenges\<close>

fun appendPrompts :: "bytes \<Rightarrow> string list \<Rightarrow> bool list \<Rightarrow> bytes" where
  "appendPrompts prompts (q # qs) (e # es) = appendPrompts (appendBool (appendString prompts q) e) qs es"
| "appendPrompts prompts _ _ = prompts"

fun parseAnswers :: "nat \<Rightarrow> bytes \<Rightarrow> (string list \<times> bytes) res" where
  "parseAnswers 0 packet = Ok ([], packet)"
| "parseAnswers (Suc n) packet =
     rbind (or_err (parseString packet) (parseError msgUserAuthInfoResponse)) (\<lambda>(ans, rest).
       rbind (parseAnswers n rest) (\<lambda>(as, rest). Ok (str_of ans # as, rest)))"

definition parseInfoResponse :: "nat \<Rightarrow> bytes \<Rightarrow> string list res" where
  "parseInfoResponse nq packet = rbind (index packet 0) (\<lambda>t.
     if t \<noteq> msgUserAuthInfoResponse then Err (unexpectedMessageError msgUserAuthInfoResponse t)
     else rbind (or_err (parseUint32 (drop 1 packet)) (parseError msgUserAuthInfoResponse)) (\<lambda>(n, packet).
       if unat n \<noteq> nq then Err (parseError msgUserAuthInfoResponse)
       else rbind (parseAnswers (unat n) packet) (\<lambda>(answers, packet).
         if length packet \<noteq> 0 then Err (ErrNew ''ssh: junk at end of message'') else Ok answers)))"

definition Challenge :: "pktIO \<Rightarrow> string \<Rightarrow> string \<Rightarrow> string list \<Rightarrow> bool list \<Rightarrow> pktIO \<times> string list res" where
  "Challenge io user instruction questions echos =
     (if length questions \<noteq> length echos
      then (io, Err (ErrNew ''ssh: echos and questions must have equal length''))
      else case writeMsg io (Marshal userAuthInfoRequestMsg_T (userAuthInfoRequestMsg_vals
          \<lparr>userAuthInfoRequestMsg_User = '''', userAuthInfoRequestMsg_Instruction = instruction,
           userAuthInfoRequestMsg_DeprecatedLanguage = '''',
           userAuthInfoRequestMsg_NumPrompts = of_nat (length questions),
           userAuthInfoRequestMsg_Prompts = appendPrompts [] questions echos\<rparr>)) of
        (io, Err e) \<Rightarrow> (io, Err e)
      | (io, Panic p) \<Rightarrow> (io, Panic p)
      | (io, Ok _) \<Rightarrow> (case readPkt io of
            (io, Err e) \<Rightarrow> (io, Err e)
          | (io, Panic p) \<Rightarrow> (io, Panic p)
          | (io, Ok packet) \<Rightarrow> (io, parseInfoResponse (length questions) packet)))"

text \<open>Running a callback; a panic inside a challenge is not caught by it.\<close>

primrec runKI :: "'s kiProg \<Rightarrow> pktIO \<Rightarrow> pktIO \<times> ('s \<times> verdict) res" where
  "runKI (KIDone s v) io = (io, Ok (s, v))"
| "runKI (KIAsk user instr qs es k) io = (case Challenge io user instr qs es of
       (io, Panic p) \<Rightarrow> (io, Panic p)
     | (io, Ok as) \<Rightarrow> runKI (k (Ok as)) io
     | (io, Err e) \<Rightarrow> runKI (k (Err e)) io)"

section \<open>The authentication loop\<close>

record 's authSt =
  au_app :: 's
  au_io :: pktIO
  au_cache :: pubKeyCache
  au_user :: string

text \<open>
  How the switch over the methods ends: at the common end with permissions and error, with
  \<^verbatim>\<open>continue\<close>, with a \<^verbatim>\<open>return\<close> of an error, or in a panic.
\<close>

datatype methodRes = Verdict "Permissions option" "goerr option" | Resume | Abort goerr | Crash string

definition noAuthYet :: goerr where
  "noAuthYet = ErrNew ''no auth passed yet''"

definition metaOf :: "connMeta \<Rightarrow> 's authSt \<Rightarrow> connMeta" where
  "metaOf conn st = conn\<lparr>cm_User := au_user st\<rparr>"

definition noneMethod :: "'s ServerConfig \<Rightarrow> 's authSt \<Rightarrow> 's authSt \<times> methodRes" where
  "noneMethod config st =
     (if sc_NoClientAuth config then (st\<lparr>au_user := ''''\<rparr>, Verdict None None)
      else (st, Verdict None (Some noAuthYet)))"

definition passwordMethod :: "'s ServerConfig \<Rightarrow> connMeta \<Rightarrow> 's authSt \<Rightarrow> bytes \<Rightarrow> 's authSt \<times> methodRes" where
  "passwordMethod config conn st payload = (case sc_PasswordCallback config of
       None \<Rightarrow> (st, Verdict None (Some (ErrNew ''ssh: password auth not configured'')))
     | Some cb \<Rightarrow>
         if length payload < 1 \<or> hd payload \<noteq> 0 then (st, Abort (parseError msgUserAuthRequest))
         else (case parseString (tl payload) of
             NotOk \<Rightarrow> (st, Abort (parseError msgUserAuthRequest))
           | ParsePanic p \<Rightarrow> (st, Crash p)
           | Parsed password rest \<Rightarrow>
               if length rest > 0 then (st, Abort (parseError msgUserAuthRequest))
               else (case cb (au_app st) (metaOf conn st) password of
                   (app, perms, authErr) \<Rightarrow> (st\<lparr>au_app := app\<rparr>, Verdict perms authErr))))"

definition keyboardMethod :: "'s ServerConfig \<Rightarrow> connMeta \<Rightarrow> 's authSt \<Rightarrow> 's authSt \<times> methodRes" where
  "keyboardMethod config conn st = (case sc_KeyboardInteractiveCallback config of
       None \<Rightarrow> (st, Verdict None (Some (ErrNew ''ssh: keyboard-interactive auth not configubred'')))
     | Some cb \<Rightarrow> (case runKI (cb (au_app st) (metaOf conn st)) (au_io st) of
           (io, Ok (app, perms, authErr)) \<Rightarrow> (st\<lparr>au_app := app, au_io := io\<rparr>, Verdict perms authErr)
         | (io, Err e) \<Rightarrow> (st\<lparr>au_io := io\<rparr>, Abort e)
         | (io, Panic p) \<Rightarrow> (st\<lparr>au_io := io\<rparr>, Crash p)))"

text \<open>The candidate for a key: from the cache, or from the callback and the source address check.\<close>

definition sourceAddressOf :: "Permissions option \<Rightarrow> string" where
  "sourceAddressOf perms = (case perms of
       Some p \<Rightarrow> map_get (CriticalOptions p) sourceAddressCriticalOption | None \<Rightarrow> '''')"

definition lookupCandidate :: "netlib \<Rightarrow> connMeta \<Rightarrow> ('s \<Rightarrow> connMeta \<Rightarrow> PublicKey \<Rightarrow> 's \<times> verdict)
    \<Rightarrow> 's authSt \<Rightarrow> bytes \<Rightarrow> PublicKey \<Rightarrow> 's authSt \<times> cachedPubKey res" where
  "lookupCandidate nl conn cb st pubKeyData pubKey = (case cache_get (au_cache st) (au_user st) pubKeyData of
       Some candidate \<Rightarrow> (st, Ok candidate)
     | None \<Rightarrow> (case cb (au_app st) (metaOf conn st) pubKey of
           (app, perms, result) \<Rightarrow>
             (let st = st\<lparr>au_app := app\<rparr>;
                  finish = (\<lambda>result.
                    (let candidate = \<lparr>ck_user = au_user st, ck_pubKeyData = pubKeyData, ck_result = result, ck_perms = perms\<rparr>
                     in (st\<lparr>au_cache := cache_add (au_cache st) candidate\<rparr>, Ok candidate)))
              in if result = None \<and> sourceAddressOf perms \<noteq> ''''
                 then (case checkSourceAddress nl (cm_RemoteAddr conn) (sourceAddressOf perms) of
                     Ok _ \<Rightarrow> finish None | Err e \<Rightarrow> finish (Some e) | Panic p \<Rightarrow> (st, Panic p))
                 else finish result)))"

definition answerQuery :: "'s authSt \<Rightarrow> string \<Rightarrow> bytes \<Rightarrow> cachedPubKey \<Rightarrow> bytes \<Rightarrow> 's authSt \<times> methodRes" where
  "answerQuery st algo pubKeyData candidate payload =
     (if length payload > 0 then (st, Abort (parseError msgUserAuthRequest))
      else case ck_result candidate of
        None \<Rightarrow> (case writeMsg (au_io st) (Marshal userAuthPubKeyOkMsg_T (userAuthPubKeyOkMsg_vals
              \<lparr>userAuthPubKeyOkMsg_Algo = algo, userAuthPubKeyOkMsg_PubKey = pubKeyData\<rparr>)) of
            (io, Ok _) \<Rightarrow> (st\<lparr>au_io := io\<rparr>, Resume)
          | (io, Err e) \<Rightarrow> (st\<lparr>au_io := io\<rparr>, Abort e)
          | (io, Panic p) \<Rightarrow> (st\<lparr>au_io := io\<rparr>, Crash p))
      | Some e \<Rightarrow> (st, Verdict None (Some e)))"

definition verifyAttempt :: "crypto \<Rightarrow> connMeta \<Rightarrow> userAuthRequestMsg \<Rightarrow> bytes \<Rightarrow> bytes \<Rightarrow> PublicKey
    \<Rightarrow> cachedPubKey \<Rightarrow> bytes \<Rightarrow> methodRes" where
  "verifyAttempt cr conn req algoBytes pubKeyData pubKey candidate payload = (case parseSignature payload of
       NotOk \<Rightarrow> Abort (parseError msgUserAuthRequest)
     | ParsePanic p \<Rightarrow> Crash p
     | Parsed sig rest \<Rightarrow>
         if length rest > 0 then Abort (parseError msgUserAuthRequest)
         else if \<not> isAcceptableAlgo (sig_Format sig) then Verdict None (Some noAuthYet)
         else (case rbind (buildDataSignedForAuth (cm_SessionID conn) req algoBytes pubKeyData)
             (\<lambda>signedData. keyVerify cr pubKey signedData sig) of
             Ok _ \<Rightarrow> Verdict (ck_perms candidate) (ck_result candidate)
           | Err e \<Rightarrow> Abort e
           | Panic p \<Rightarrow> Crash p))"

definition publickeyMethod :: "crypto \<Rightarrow> netlib \<Rightarrow> 's ServerConfig \<Rightarrow> connMeta \<Rightarrow> 's authSt
    \<Rightarrow> userAuthRequestMsg \<Rightarrow> 's authSt \<times> methodRes" where
  "publickeyMethod cr nl config conn st req = (case sc_PublicKeyCallback config of
       None \<Rightarrow> (st, Verdict None (Some (ErrNew ''ssh: publickey auth not configured'')))
     | Some cb \<Rightarrow> (case userAuthRequestMsg_Payload req of
           [] \<Rightarrow> (st, Abort (parseError msgUserAuthRequest))
         | q # payload \<Rightarrow> (case parseString payload of
               NotOk \<Rightarrow> (st, Abort (parseError msgUserAuthRequest))
             | ParsePanic p \<Rightarrow> (st, Crash p)
             | Parsed algoBytes payload \<Rightarrow>
                 if \<not> isAcceptableAlgo (str_of algoBytes)
                 then (st, Verdict None (Some (Errorf ''ssh: algorithm %q not accepted'' [AStr (str_of algoBytes)])))
                 else (case parseString payload of
                     NotOk \<Rightarrow> (st, Abort (parseError msgUserAuthRequest))
                   | ParsePanic p \<Rightarrow> (st, Crash p)
                   | Parsed pubKeyData payload \<Rightarrow> (case ParsePublicKey cr pubKeyData of
                         Err e \<Rightarrow> (st, Abort e)
                       | Panic p \<Rightarrow> (st, Crash p)
                       | Ok pubKey \<Rightarrow> (case lookupCandidate nl conn cb st pubKeyData pubKey of
                             (st, Err e) \<Rightarrow> (st, Abort e)
                           | (st, Panic p) \<Rightarrow> (st, Crash p)
                           | (st, Ok candidate) \<Rightarrow>
                               if q = 0 then answerQuery st (str_of algoBytes) pubKeyData candidate payload
                               else (st, verifyAttempt cr conn req algoBytes pubKeyData pubKey candidate payload)))))))"

definition authMethod :: "crypto \<Rightarrow> netlib \<Rightarrow> 's ServerConfig \<Rightarrow> connMeta \<Rightarrow> 's authSt
    \<Rightarrow> userAuthRequestMsg \<Rightarrow> 's authSt \<times> methodRes" where
  "authMethod cr nl config conn st req =
     (let m = userAuthRequestMsg_Method req in
      if m = ''none'' then noneMethod config st
      else if m = ''password'' then passwordMethod config conn st (userAuthRequestMsg_Payload req)
      else if m = ''keyboard-interactive'' then keyboardMethod config conn st
      else if m = ''publickey'' then publickeyMethod cr nl config conn st req
      else (st, Verdict None (Some (Errorf ''ssh: unknown method %q'' [AStr m]))))"

definition failureMethods :: "'s ServerConfig \<Rightarrow> string list" where
  "failureMethods config =
     (if sc_PasswordCallback config \<noteq> None then [''password''] else [])
     @ (if sc_PublicKeyCallback config \<noteq> None then [''publickey''] else [])
     @ (if sc_KeyboardInteractiveCallback config \<noteq> None then [''keyboard-interactive''] else [])"

datatype authOut = AContinue | ADone "Permissions option" | AFail goerr | ACrash string

text \<open>The end of an iteration: logging, success, or the failure message.\<close>

definition authTail :: "'s ServerConfig \<Rightarrow> connMeta \<Rightarrow> 's authSt \<Rightarrow> string \<Rightarrow> Permissions option
    \<Rightarrow> goerr option \<Rightarrow> 's authSt \<times> authOut" where
  "authTail config conn st method perms authErr =
     (let st = (case sc_AuthLogCallback config of
           Some log \<Rightarrow> st\<lparr>au_app := log (au_app st) (metaOf conn st) method authErr\<rparr> | None \<Rightarrow> st)
      in if authErr = None then (st, ADone perms)
         else if failureMethods config = []
         then (st, AFail (ErrNew ''ssh: no authentication methods configured but NoClientAuth is also false''))
         else (case writeMsg (au_io st) (Marshal userAuthFailureMsg_T (userAuthFailureMsg_vals
             \<lparr>userAuthFailureMsg_Methods = failureMethods config, userAuthFailureMsg_PartialSuccess = False\<rparr>)) of
           (io, Ok _) \<Rightarrow> (st\<lparr>au_io := io\<rparr>, AContinue)
         | (io, Err e) \<Rightarrow> (st\<lparr>au_io := io\<rparr>, AFail e)
         | (io, Panic p) \<Rightarrow> (st\<lparr>au_io := io\<rparr>, ACrash p)))"

definition handleAuthRequest :: "crypto \<Rightarrow> netlib \<Rightarrow> 's ServerConfig \<Rightarrow> connMeta \<Rightarrow> 's authSt
    \<Rightarrow> userAuthRequestMsg \<Rightarrow> 's authSt \<times> authOut" where
  "handleAuthRequest cr nl config conn st req =
     (if userAuthRequestMsg_Service req \<noteq> serviceSSH
      then (st, AFail (ErrNew (''ssh: client attempted to negotiate for unknown service: '' @ userAuthRequestMsg_Service req)))
      else case authMethod cr nl config conn (st\<lparr>au_user := userAuthRequestMsg_User req\<rparr>) req of
        (st, Verdict perms authErr) \<Rightarrow> authTail config conn st (userAuthRequestMsg_Method req) perms authErr
      | (st, Resume) \<Rightarrow> (st, AContinue)
      | (st, Abort e) \<Rightarrow> (st, AFail e)
      | (st, Crash p) \<Rightarrow> (st, ACrash p))"

definition authStep :: "crypto \<Rightarrow> netlib \<Rightarrow> 's ServerConfig \<Rightarrow> connMeta \<Rightarrow> 's authSt \<Rightarrow> 's authSt \<times> authOut" where
  "authStep cr nl config conn st = (case readPkt (au_io st) of
       (io, Err e) \<Rightarrow> (st\<lparr>au_io := io\<rparr>, AFail e)
     | (io, Panic p) \<Rightarrow> (st\<lparr>au_io := io\<rparr>, ACrash p)
     | (io, Ok packet) \<Rightarrow>
         (let st = st\<lparr>au_io := io\<rparr> in
          case rbind (Unmarshal packet userAuthRequestMsg_T) userAuthRequestMsg_of of
            Err e \<Rightarrow> (st, AFail e)
          | Panic p \<Rightarrow> (st, ACrash p)
          | Ok req \<Rightarrow> handleAuthRequest cr nl config conn st req))"

text \<open>Every iteration takes at least one packet, so the loop ends when the packets do.\<close>

lemma writeMsg_in: "writeMsg io m = (io', r) \<Longrightarrow> io_in io' = io_in io"
  by (auto simp: writeMsg_def writePkt_def split: res.splits list.splits option.splits)

lemma readPkt_in: "readPkt io = (io', r) \<Longrightarrow> suffix (io_in io') (io_in io)"
  by (auto simp: readPkt_def suffix_ConsI split: list.splits)

lemma Challenge_in: "Challenge io u i qs es = (io', r) \<Longrightarrow> suffix (io_in io') (io_in io)"
  by (auto simp: Challenge_def split: if_splits prod.splits res.splits dest!: writeMsg_in readPkt_in)

lemma runKI_in: "runKI k io = (io', r) \<Longrightarrow> suffix (io_in io') (io_in io)"
proof (induction k arbitrary: io)
  case (KIAsk u i qs es k)
  obtain io1 r1 where c: "Challenge io u i qs es = (io1, r1)" by (cases "Challenge io u i qs es")
  show ?case
  proof (cases r1)
    case (Ok as)
    with KIAsk.prems c have "runKI (k (Ok as)) io1 = (io', r)" by simp
    with KIAsk.IH Challenge_in [OF c] show ?thesis using suffix_order.trans by blast
  next
    case (Err e)
    with KIAsk.prems c have "runKI (k (Err e)) io1 = (io', r)" by simp
    with KIAsk.IH Challenge_in [OF c] show ?thesis using suffix_order.trans by blast
  qed (use KIAsk.prems c Challenge_in in auto)
qed simp

lemma lookupCandidate_frame:
  "lookupCandidate nl conn cb st d k = (st', r) \<Longrightarrow> au_io st' = au_io st \<and> au_user st' = au_user st"
  by (auto simp: lookupCandidate_def Let_def split: option.splits prod.splits res.splits if_splits)

lemma publickeyMethod_in:
  "publickeyMethod cr nl config conn st req = (st', r) \<Longrightarrow> io_in (au_io st') = io_in (au_io st)"
  by (auto simp: publickeyMethod_def answerQuery_def
      split: option.splits list.splits parsed.splits res.splits if_splits prod.splits
      dest!: lookupCandidate_frame writeMsg_in)

lemma authMethod_in:
  "authMethod cr nl config conn st req = (st', r) \<Longrightarrow> suffix (io_in (au_io st')) (io_in (au_io st))"
proof -
  have "noneMethod config st = (st', r) \<Longrightarrow> io_in (au_io st') = io_in (au_io st)"
    by (auto simp: noneMethod_def split: if_splits)
  moreover have "passwordMethod config conn st p = (st', r) \<Longrightarrow> io_in (au_io st') = io_in (au_io st)" for p
    by (auto simp: passwordMethod_def split: option.splits if_splits parsed.splits prod.splits)
  moreover have "keyboardMethod config conn st = (st', r) \<Longrightarrow> suffix (io_in (au_io st')) (io_in (au_io st))"
    by (auto simp: keyboardMethod_def split: option.splits prod.splits res.splits dest: runKI_in)
  moreover assume "authMethod cr nl config conn st req = (st', r)"
  ultimately show ?thesis
    unfolding authMethod_def Let_def using publickeyMethod_in [of cr nl config conn st req st' r]
    by (simp only: Pair_inject split: if_split_asm) auto
qed

lemma authTail_in: "authTail config conn st m p e = (st', r) \<Longrightarrow> io_in (au_io st') = io_in (au_io st)"
  by (auto simp: authTail_def Let_def split: option.splits if_splits prod.splits res.splits dest!: writeMsg_in)

lemma handleAuthRequest_in:
  "handleAuthRequest cr nl config conn st req = (st', r) \<Longrightarrow> suffix (io_in (au_io st')) (io_in (au_io st))"
  by (auto simp: handleAuthRequest_def split: if_splits prod.splits methodRes.splits dest!: authMethod_in authTail_in)

lemma authStep_in:
  assumes "authStep cr nl config conn st = (st', AContinue)"
  shows "length (io_in (au_io st')) < length (io_in (au_io st))"
proof (cases "io_in (au_io st)")
  case Nil
  with assms show ?thesis by (simp add: authStep_def readPkt_def)
next
  case (Cons p ps)
  let ?st = "st\<lparr>au_io := (au_io st)\<lparr>io_in := ps\<rparr>\<rparr>"
  from assms Cons obtain req where "handleAuthRequest cr nl config conn ?st req = (st', AContinue)"
    by (auto simp: authStep_def readPkt_def Let_def split: res.splits)
  from suffix_length_le [OF handleAuthRequest_in [OF this]] Cons show ?thesis by simp
qed

function authLoop :: "crypto \<Rightarrow> netlib \<Rightarrow> 's ServerConfig \<Rightarrow> connMeta \<Rightarrow> 's authSt \<Rightarrow> 's authSt \<times> Permissions option res" where
  "authLoop cr nl config conn st = (case authStep cr nl config conn st of
       (st, AContinue) \<Rightarrow> authLoop cr nl config conn st
     | (st, ADone perms) \<Rightarrow> (st, Ok perms)
     | (st, AFail e) \<Rightarrow> (st, Err e)
     | (st, ACrash p) \<Rightarrow> (st, Panic p))"
  by pat_completeness auto
termination
  by (relation "measure (\<lambda>(_, _, _, _, st). length (io_in (au_io st)))") (auto dest: authStep_in [OF sym])

declare authLoop.simps [simp del]

text \<open>The whole of \<open>serverAuthenticate\<close>: the loop, then the success message.\<close>

definition serverAuthenticate :: "crypto \<Rightarrow> netlib \<Rightarrow> 's ServerConfig \<Rightarrow> connMeta \<Rightarrow> 's \<Rightarrow> pktIO
    \<Rightarrow> 's authSt \<times> Permissions option res" where
  "serverAuthenticate cr nl config conn app io =
     (case authLoop cr nl config conn \<lparr>au_app = app, au_io = io, au_cache = [], au_user = cm_User conn\<rparr> of
        (st, Ok perms) \<Rightarrow> (case writePkt (au_io st) [msgUserAuthSuccess] of
            (io, Ok _) \<Rightarrow> (st\<lparr>au_io := io\<rparr>, Ok perms)
          | (io, Err e) \<Rightarrow> (st\<lparr>au_io := io\<rparr>, Err e)
          | (io, Panic p) \<Rightarrow> (st\<lparr>au_io := io\<rparr>, Panic p))
      | r \<Rightarrow> r)"

section \<open>Only accepted clients are let in\<close>

text \<open>
  A cached result is one the callback gave for that user and key on this connection, and if it is a
  success the source address restriction, if any, was checked.
\<close>

definition entry_ok :: "crypto \<Rightarrow> netlib \<Rightarrow> ('s \<Rightarrow> connMeta \<Rightarrow> PublicKey \<Rightarrow> 's \<times> verdict) \<Rightarrow> connMeta
    \<Rightarrow> cachedPubKey \<Rightarrow> bool" where
  "entry_ok cr nl cb conn k \<longleftrightarrow> (\<exists>key app app' res.
     ParsePublicKey cr (ck_pubKeyData k) = Ok key \<and> cb app (conn\<lparr>cm_User := ck_user k\<rparr>) key = (app', ck_perms k, res)
     \<and> (ck_result k = None \<longrightarrow> res = None \<and> (sourceAddressOf (ck_perms k) \<noteq> '''' \<longrightarrow>
          checkSourceAddress nl (cm_RemoteAddr conn) (sourceAddressOf (ck_perms k)) = Ok ())))"

definition cache_ok :: "crypto \<Rightarrow> netlib \<Rightarrow> 's ServerConfig \<Rightarrow> connMeta \<Rightarrow> pubKeyCache \<Rightarrow> bool" where
  "cache_ok cr nl config conn c \<longleftrightarrow> length c \<le> maxCachedPubKeys \<and>
     (\<forall>cb. sc_PublicKeyCallback config = Some cb \<longrightarrow> (\<forall>k\<in>set c. entry_ok cr nl cb conn k))"

lemma cache_get_Some: "cache_get c u d = Some k \<Longrightarrow> k \<in> set c \<and> ck_user k = u \<and> ck_pubKeyData k = d"
  by (auto simp: cache_get_def find_Some_iff)

lemma lookupCandidate_ok:
  assumes "lookupCandidate nl conn cb st d key = (st', r)" "ParsePublicKey cr d = Ok key"
    and "length (au_cache st) \<le> maxCachedPubKeys" "\<forall>k\<in>set (au_cache st). entry_ok cr nl cb conn k"
  shows "length (au_cache st') \<le> maxCachedPubKeys \<and> (\<forall>k\<in>set (au_cache st'). entry_ok cr nl cb conn k)
    \<and> (\<forall>c. r = Ok c \<longrightarrow> entry_ok cr nl cb conn c \<and> ck_user c = au_user st \<and> ck_pubKeyData c = d)"
proof (cases "cache_get (au_cache st) (au_user st) d")
  case (Some c)
  with assms cache_get_Some [OF Some] show ?thesis by (auto simp: lookupCandidate_def)
next
  case None
  obtain app perms res where cb: "cb (au_app st) (metaOf conn st) key = (app, perms, res)"
    by (cases "cb (au_app st) (metaOf conn st) key") auto
  let ?c = "\<lambda>result. \<lparr>ck_user = au_user st, ck_pubKeyData = d, ck_result = result, ck_perms = perms\<rparr>"
  have ok: "entry_ok cr nl cb conn (?c result)"
    if "result = None \<longrightarrow> res = None \<and> (sourceAddressOf perms \<noteq> '''' \<longrightarrow>
          checkSourceAddress nl (cm_RemoteAddr conn) (sourceAddressOf perms) = Ok ())" for result
    using assms(2) cb that by (auto simp: entry_ok_def metaOf_def)
  show ?thesis
  proof (cases "res = None \<and> sourceAddressOf perms \<noteq> ''''")
    case True
    with assms None cb ok [of None] ok [of "Some e" for e] show ?thesis
      by (cases "checkSourceAddress nl (cm_RemoteAddr conn) (sourceAddressOf perms)")
        (auto simp: lookupCandidate_def Let_def cache_add_def split: if_split_asm)
  next
    case False
    with assms None cb ok [of res] show ?thesis
      by (auto simp: lookupCandidate_def Let_def cache_add_def split: if_split_asm)
  qed
qed

text \<open>The parts of a public key request.\<close>

definition pubkeyRequest :: "crypto \<Rightarrow> userAuthRequestMsg \<Rightarrow> byte \<Rightarrow> bytes \<Rightarrow> bytes \<Rightarrow> PublicKey \<Rightarrow> bytes \<Rightarrow> bool" where
  "pubkeyRequest cr req q algo d key rest \<longleftrightarrow> (\<exists>p1 p2. userAuthRequestMsg_Payload req = q # p1
     \<and> parseString p1 = Parsed algo p2 \<and> isAcceptableAlgo (str_of algo) \<and> parseString p2 = Parsed d rest
     \<and> ParsePublicKey cr d = Ok key)"

lemma publickeyMethod_cases:
  assumes "publickeyMethod cr nl config conn st req = (st', r)"
  obtains (stuck) "st' = st" "\<forall>p. r \<noteq> Verdict p None" "r \<noteq> Resume"
      "sc_PublicKeyCallback config = None \<or> (\<forall>q algo d key rest. \<not> pubkeyRequest cr req q algo d key rest)"
  | (key) cb q algo d key rest st1 r1 where "sc_PublicKeyCallback config = Some cb"
      "pubkeyRequest cr req q algo d key rest" "lookupCandidate nl conn cb st d key = (st1, r1)"
      "(st', r) = (case r1 of Err e \<Rightarrow> (st1, Abort e) | Panic p \<Rightarrow> (st1, Crash p)
         | Ok candidate \<Rightarrow> if q = 0 then answerQuery st1 (str_of algo) d candidate rest
             else (st1, verifyAttempt cr conn req algo d key candidate rest))"
proof (cases "sc_PublicKeyCallback config")
  case None
  then show ?thesis using assms by (intro stuck) (auto simp: publickeyMethod_def)
next
  case cb: (Some cb)
  show ?thesis
  proof (cases "\<exists>q algo d key rest. pubkeyRequest cr req q algo d key rest")
    case True
    then obtain q algo d key rest where pr: "pubkeyRequest cr req q algo d key rest" by blast
    obtain st1 r1 where l: "lookupCandidate nl conn cb st d key = (st1, r1)"
      by (cases "lookupCandidate nl conn cb st d key")
    show ?thesis
      by (rule key [OF cb pr l]) (use assms cb pr l in \<open>auto simp: publickeyMethod_def pubkeyRequest_def split: res.splits\<close>)
  next
    case False
    show ?thesis
      by (rule stuck; use assms cb False in \<open>auto simp: publickeyMethod_def pubkeyRequest_def
          split: list.splits parsed.splits if_splits res.splits\<close>)
  qed
qed

lemma answerQuery_frame: "answerQuery st algo d c p = (st', r) \<Longrightarrow> au_cache st' = au_cache st \<and> au_app st' = au_app st
    \<and> (\<forall>q. r \<noteq> Verdict q None)"
  by (auto simp: answerQuery_def split: if_splits option.splits prod.splits res.splits)

lemma publickeyMethod_ok:
  assumes "publickeyMethod cr nl config conn st req = (st', r)" "cache_ok cr nl config conn (au_cache st)"
  shows "cache_ok cr nl config conn (au_cache st')"
    and "r = Verdict perms None \<Longrightarrow> \<exists>cb q algo d key rest sig data app app'. sc_PublicKeyCallback config = Some cb
       \<and> pubkeyRequest cr req q algo d key rest \<and> q \<noteq> 0 \<and> parseSignature rest = Parsed sig []
       \<and> buildDataSignedForAuth (cm_SessionID conn) req algo d = Ok data \<and> keyVerify cr key data sig = Ok ()
       \<and> cb app (metaOf conn st) key = (app', perms, None)
       \<and> (sourceAddressOf perms \<noteq> '''' \<longrightarrow> checkSourceAddress nl (cm_RemoteAddr conn) (sourceAddressOf perms) = Ok ())"
proof -
  have "cache_ok cr nl config conn (au_cache st') \<and> (r = Verdict perms None \<longrightarrow>
     (\<exists>cb q algo d key rest sig data app app'. sc_PublicKeyCallback config = Some cb
       \<and> pubkeyRequest cr req q algo d key rest \<and> q \<noteq> 0 \<and> parseSignature rest = Parsed sig []
       \<and> buildDataSignedForAuth (cm_SessionID conn) req algo d = Ok data \<and> keyVerify cr key data sig = Ok ()
       \<and> cb app (metaOf conn st) key = (app', perms, None)
       \<and> (sourceAddressOf perms \<noteq> '''' \<longrightarrow> checkSourceAddress nl (cm_RemoteAddr conn) (sourceAddressOf perms) = Ok ())))"
    using assms(1)
  proof (cases rule: publickeyMethod_cases)
    case stuck
    with assms(2) show ?thesis by simp
  next
    case (key cb q algo d key rest st1 r1)
    have pk: "ParsePublicKey cr d = Ok key" using key(2) by (auto simp: pubkeyRequest_def)
    have c1: "length (au_cache st1) \<le> maxCachedPubKeys" "\<forall>k\<in>set (au_cache st1). entry_ok cr nl cb conn k"
      and cand: "\<forall>c. r1 = Ok c \<longrightarrow> entry_ok cr nl cb conn c \<and> ck_user c = au_user st \<and> ck_pubKeyData c = d"
      using lookupCandidate_ok [OF key(3) pk] assms(2) key(1) by (auto simp: cache_ok_def)
    have "au_cache st' = au_cache st1"
      using key(4) by (auto split: res.splits if_splits dest: answerQuery_frame [OF sym])
    then have co: "cache_ok cr nl config conn (au_cache st')" using c1 key(1) by (simp add: cache_ok_def)
    show ?thesis
    proof (intro conjI impI co)
      assume r: "r = Verdict perms None"
      with key(4) obtain c where c: "r1 = Ok c" and q: "q \<noteq> 0" and v: "verifyAttempt cr conn req algo d key c rest = Verdict perms None"
        by (auto split: res.split_asm if_split_asm dest: answerQuery_frame [OF sym])
      from v obtain sig data where s: "parseSignature rest = Parsed sig []" "buildDataSignedForAuth (cm_SessionID conn) req algo d = Ok data"
        "keyVerify cr key data sig = Ok ()" "ck_perms c = perms" "ck_result c = None"
        by (auto simp: verifyAttempt_def buildDataSignedForAuth_enc noAuthYet_def split: parsed.split_asm if_split_asm res.split_asm)
      from cand c s(4,5) pk obtain app app' where "cb app (metaOf conn st) key = (app', perms, None)"
        "sourceAddressOf perms \<noteq> '''' \<longrightarrow> checkSourceAddress nl (cm_RemoteAddr conn) (sourceAddressOf perms) = Ok ()"
        by (auto simp: entry_ok_def metaOf_def)
      with key(1,2) q s show "\<exists>cb q algo d key rest sig data app app'. sc_PublicKeyCallback config = Some cb
         \<and> pubkeyRequest cr req q algo d key rest \<and> q \<noteq> 0 \<and> parseSignature rest = Parsed sig []
         \<and> buildDataSignedForAuth (cm_SessionID conn) req algo d = Ok data \<and> keyVerify cr key data sig = Ok ()
         \<and> cb app (metaOf conn st) key = (app', perms, None)
         \<and> (sourceAddressOf perms \<noteq> '''' \<longrightarrow> checkSourceAddress nl (cm_RemoteAddr conn) (sourceAddressOf perms) = Ok ())"
        by blast
    qed
  qed
  then show "cache_ok cr nl config conn (au_cache st')"
    and "r = Verdict perms None \<Longrightarrow> \<exists>cb q algo d key rest sig data app app'. sc_PublicKeyCallback config = Some cb
       \<and> pubkeyRequest cr req q algo d key rest \<and> q \<noteq> 0 \<and> parseSignature rest = Parsed sig []
       \<and> buildDataSignedForAuth (cm_SessionID conn) req algo d = Ok data \<and> keyVerify cr key data sig = Ok ()
       \<and> cb app (metaOf conn st) key = (app', perms, None)
       \<and> (sourceAddressOf perms \<noteq> '''' \<longrightarrow> checkSourceAddress nl (cm_RemoteAddr conn) (sourceAddressOf perms) = Ok ())" by blast+
qed

text \<open>What lets a client in: one of the four methods, as configured, accepts a request.\<close>

definition acceptedBy :: "crypto \<Rightarrow> netlib \<Rightarrow> 's ServerConfig \<Rightarrow> connMeta \<Rightarrow> userAuthRequestMsg \<Rightarrow> Permissions option \<Rightarrow> bool" where
  "acceptedBy cr nl config conn req perms \<longleftrightarrow>
     (let user = conn\<lparr>cm_User := userAuthRequestMsg_User req\<rparr>; m = userAuthRequestMsg_Method req in
      userAuthRequestMsg_Service req = serviceSSH \<and>
      (m = ''none'' \<and> sc_NoClientAuth config
       \<or> m = ''password'' \<and> (\<exists>cb app app' pw. sc_PasswordCallback config = Some cb
            \<and> userAuthRequestMsg_Payload req \<noteq> [] \<and> parseString (tl (userAuthRequestMsg_Payload req)) = Parsed pw []
            \<and> cb app user pw = (app', perms, None))
       \<or> m = ''keyboard-interactive'' \<and> (\<exists>cb app app' io io'. sc_KeyboardInteractiveCallback config = Some cb
            \<and> runKI (cb app user) io = (io', Ok (app', perms, None)))
       \<or> m = ''publickey'' \<and> (\<exists>cb q algo d key rest sig data app app'. sc_PublicKeyCallback config = Some cb
            \<and> pubkeyRequest cr req q algo d key rest \<and> q \<noteq> 0 \<and> parseSignature rest = Parsed sig []
            \<and> buildDataSignedForAuth (cm_SessionID conn) req algo d = Ok data \<and> keyVerify cr key data sig = Ok ()
            \<and> cb app user key = (app', perms, None)
            \<and> (sourceAddressOf perms \<noteq> '''' \<longrightarrow>
                 checkSourceAddress nl (cm_RemoteAddr conn) (sourceAddressOf perms) = Ok ()))))"

lemma authMethod_ok:
  assumes "authMethod cr nl config conn st req = (st', r)" "cache_ok cr nl config conn (au_cache st)"
    and u: "au_user st = userAuthRequestMsg_User req"
  shows "cache_ok cr nl config conn (au_cache st')"
    and "r = Verdict perms None \<Longrightarrow> userAuthRequestMsg_Service req = serviceSSH \<Longrightarrow> acceptedBy cr nl config conn req perms"
proof -
  let ?m = "userAuthRequestMsg_Method req"
  have meta: "metaOf conn st = conn\<lparr>cm_User := userAuthRequestMsg_User req\<rparr>" by (simp add: metaOf_def u)
  consider (n) "?m = ''none''" "noneMethod config st = (st', r)"
    | (pw) "?m = ''password''" "passwordMethod config conn st (userAuthRequestMsg_Payload req) = (st', r)"
    | (ki) "?m = ''keyboard-interactive''" "keyboardMethod config conn st = (st', r)"
    | (pk) "?m = ''publickey''" "publickeyMethod cr nl config conn st req = (st', r)"
    | (other) e where "st' = st" "r = Verdict None (Some e)"
    using assms(1) unfolding authMethod_def Let_def by (simp only: Pair_inject split: if_split_asm) auto
  then have "cache_ok cr nl config conn (au_cache st') \<and> (r = Verdict perms None \<longrightarrow>
     userAuthRequestMsg_Service req = serviceSSH \<longrightarrow> acceptedBy cr nl config conn req perms)"
  proof cases
    case n
    with assms(2) show ?thesis by (auto simp: noneMethod_def acceptedBy_def Let_def noAuthYet_def split: if_splits)
  next
    case pw
    with assms(2) show ?thesis unfolding acceptedBy_def Let_def meta [symmetric]
      by (auto simp: passwordMethod_def split: option.split_asm if_split_asm parsed.split_asm prod.split_asm)
  next
    case ki
    with assms(2) show ?thesis unfolding acceptedBy_def Let_def meta [symmetric]
      by (auto simp: keyboardMethod_def split: option.split_asm prod.split_asm res.split_asm)
  next
    case pk
    with publickeyMethod_ok [OF pk(2) assms(2)] show ?thesis unfolding acceptedBy_def Let_def meta [symmetric] by blast
  next
    case other
    with assms(2) show ?thesis by simp
  qed
  then show "cache_ok cr nl config conn (au_cache st')"
    and "r = Verdict perms None \<Longrightarrow> userAuthRequestMsg_Service req = serviceSSH \<Longrightarrow> acceptedBy cr nl config conn req perms"
    by blast+
qed

lemma authTail_frame:
  "authTail config conn st m p e = (st', r) \<Longrightarrow> au_cache st' = au_cache st"
  "authTail config conn st m p e = (st', ADone perms) \<Longrightarrow> p = perms \<and> e = None"
  by (auto simp: authTail_def Let_def split: option.splits if_splits prod.splits res.splits)

lemma handleAuthRequest_ok:
  assumes "handleAuthRequest cr nl config conn st req = (st', r)" "cache_ok cr nl config conn (au_cache st)"
  shows "cache_ok cr nl config conn (au_cache st')" and "r = ADone perms \<Longrightarrow> acceptedBy cr nl config conn req perms"
proof -
  show "cache_ok cr nl config conn (au_cache st')"
  proof (cases "userAuthRequestMsg_Service req = serviceSSH")
    case True
    obtain st1 r1 where m: "authMethod cr nl config conn (st\<lparr>au_user := userAuthRequestMsg_User req\<rparr>) req = (st1, r1)"
      by (cases "authMethod cr nl config conn (st\<lparr>au_user := userAuthRequestMsg_User req\<rparr>) req")
    have "cache_ok cr nl config conn (au_cache st1)" using authMethod_ok(1) [OF m] assms(2) by simp
    with assms(1) m True show ?thesis
      by (auto simp: handleAuthRequest_def split: methodRes.splits dest!: authTail_frame(1))
  qed (use assms in \<open>simp add: handleAuthRequest_def\<close>)
  show "acceptedBy cr nl config conn req perms" if "r = ADone perms"
  proof -
    obtain st1 r1 where m: "authMethod cr nl config conn (st\<lparr>au_user := userAuthRequestMsg_User req\<rparr>) req = (st1, r1)"
      by (cases "authMethod cr nl config conn (st\<lparr>au_user := userAuthRequestMsg_User req\<rparr>) req")
    with assms(1) that have "userAuthRequestMsg_Service req = serviceSSH" "r1 = Verdict perms None"
      by (auto simp: handleAuthRequest_def split: if_splits methodRes.splits dest: authTail_frame(2))
    with authMethod_ok(2) [OF m] assms(2) show ?thesis by simp
  qed
qed

lemma authStep_cases:
  assumes "authStep cr nl config conn st = (st', r)"
  obtains (stop) "au_cache st' = au_cache st" "r \<noteq> AContinue" "\<forall>p. r \<noteq> ADone p"
  | (req) packet rest req where "io_in (au_io st) = packet # rest"
      "rbind (Unmarshal packet userAuthRequestMsg_T) userAuthRequestMsg_of = Ok req"
      "handleAuthRequest cr nl config conn (st\<lparr>au_io := (au_io st)\<lparr>io_in := rest\<rparr>\<rparr>) req = (st', r)"
proof (cases "io_in (au_io st)")
  case Nil
  with assms show ?thesis by (intro stop) (auto simp: authStep_def readPkt_def)
next
  case (Cons packet rest)
  show ?thesis
  proof (cases "rbind (Unmarshal packet userAuthRequestMsg_T) userAuthRequestMsg_of")
    case (Ok m)
    with assms Cons show ?thesis by (intro req [of packet rest m]) (auto simp: authStep_def readPkt_def Let_def)
  qed (use assms Cons in \<open>intro stop; auto simp: authStep_def readPkt_def Let_def\<close>)+
qed

lemma authLoop_ok:
  "authLoop cr nl config conn st = (st', Ok perms) \<Longrightarrow> cache_ok cr nl config conn (au_cache st)
    \<Longrightarrow> \<exists>packet req. packet \<in> set (io_in (au_io st)) \<and> rbind (Unmarshal packet userAuthRequestMsg_T) userAuthRequestMsg_of = Ok req
         \<and> acceptedBy cr nl config conn req perms"
proof (induction cr nl config conn st rule: authLoop.induct)
  case (1 cr nl config conn st)
  obtain st1 r1 where s: "authStep cr nl config conn st = (st1, r1)" by (cases "authStep cr nl config conn st")
  from s show ?case
  proof (cases rule: authStep_cases)
    case stop
    with "1.prems"(1) s show ?thesis by (cases r1) (simp_all add: authLoop.simps [of cr nl config conn st])
  next
    case (req packet rest req)
    note h = handleAuthRequest_ok [OF req(3)]
    show ?thesis
    proof (cases r1)
      case AContinue
      have "authLoop cr nl config conn st1 = (st', Ok perms)"
        using "1.prems"(1) s AContinue by (simp add: authLoop.simps [of cr nl config conn st])
      moreover have "cache_ok cr nl config conn (au_cache st1)" using h(1) "1.prems"(2) by simp
      ultimately obtain packet' req' where "packet' \<in> set (io_in (au_io st1))"
        "rbind (Unmarshal packet' userAuthRequestMsg_T) userAuthRequestMsg_of = Ok req'" "acceptedBy cr nl config conn req' perms"
        using "1.IH" [OF s [symmetric] AContinue] by blast
      moreover have "suffix (io_in (au_io st1)) (io_in (au_io st))"
        using handleAuthRequest_in [OF req(3)] req(1) by (simp add: suffix_ConsI)
      ultimately show ?thesis using set_mono_suffix by blast
    next
      case (ADone p)
      with "1.prems"(1) s have "p = perms" by (simp add: authLoop.simps [of cr nl config conn st])
      with h(2) [of perms] ADone "1.prems"(2) req(1,2) show ?thesis by (intro exI [of _ packet] exI [of _ req]) simp
    qed (use "1.prems"(1) s in \<open>simp_all add: authLoop.simps [of cr nl config conn st]\<close>)
  qed
qed

lemma serverAuthenticate_accepted:
  assumes "serverAuthenticate cr nl config conn app io = (st, Ok perms)"
  shows "\<exists>packet req. packet \<in> set (io_in io) \<and> rbind (Unmarshal packet userAuthRequestMsg_T) userAuthRequestMsg_of = Ok req
         \<and> acceptedBy cr nl config conn req perms"
proof -
  let ?st = "\<lparr>au_app = app, au_io = io, au_cache = [], au_user = cm_User conn\<rparr>"
  obtain st' where "authLoop cr nl config conn ?st = (st', Ok perms)"
    using assms by (auto simp: serverAuthenticate_def split: prod.splits res.splits)
  from authLoop_ok [OF this] show ?thesis by (simp add: cache_ok_def)
qed

text \<open>(C4) The server lets a client in only if it sent a request for the connection service that a
  configured method accepts: no authentication where that is allowed, a password or an interactive
  exchange that the callback accepts, or a public key that the callback accepts for that user, from an
  allowed address, together with a signature by that key over the session, the user and the key.\<close>

theorem authentication_sound:
  assumes "serverAuthenticate cr nl config conn app io = (st, Ok perms)"
  shows "\<exists>packet req. packet \<in> set (io_in io) \<and> rbind (Unmarshal packet userAuthRequestMsg_T) userAuthRequestMsg_of = Ok req
         \<and> acceptedBy cr nl config conn req perms"
  by (rule serverAuthenticate_accepted [OF assms])

definition demoConfig :: "nat ServerConfig" where
  "demoConfig = \<lparr>sc_Config = \<lparr>cf_Rand = None, cf_RekeyThreshold = 0, cf_KeyExchanges = None, cf_Ciphers = None, cf_MACs = None\<rparr>,
     sc_hostKeys = [], sc_NoClientAuth = False, sc_PasswordCallback = None,
     sc_PublicKeyCallback = Some (\<lambda>n conn k. (n + 1, None, if cm_User conn = ''bob'' then None else Some noAuthYet)),
     sc_KeyboardInteractiveCallback = None, sc_AuthLogCallback = None, sc_ServerVersion = ''''\<rparr>"

definition demoConn :: connMeta where
  "demoConn = \<lparr>cm_User = '''', cm_SessionID = [1, 2], cm_ClientVersion = [], cm_ServerVersion = [], cm_RemoteAddr = NoAddr\<rparr>"

definition demoNet :: netlib where
  "demoNet = \<lparr>nl_ParseIP = (\<lambda>s. if s = ''10.0.0.1'' then Some (replicate 10 0 @ [255, 255, 10, 0, 0, 1]) else None),
     nl_ParseCIDR = (\<lambda>s. Err (ErrNew s)), nl_contains = (\<lambda>n ip. False)\<rparr>"

text \<open>A signed public key request of user \<^verbatim>\<open>bob\<close>; the demonstration verifier accepts any DSA signature.\<close>

definition demoUserAuth :: userAuthRequestMsg where
  "demoUserAuth = \<lparr>userAuthRequestMsg_User = ''bob'', userAuthRequestMsg_Service = ''ssh-connection'',
     userAuthRequestMsg_Method = ''publickey'', userAuthRequestMsg_Payload =
       1 # encString (bytes_of KeyAlgoDSA) @ encString (encKey (signerPublicKey demoDSA))
         @ encString (encString (bytes_of KeyAlgoDSA) @ encString (replicate 40 1))\<rparr>"

definition demoRequest :: bytes where
  "demoRequest = encStruct userAuthRequestMsg_T (userAuthRequestMsg_vals demoUserAuth)"

lemma demo_lengths: "length (encKey (signerPublicKey demoDSA)) = 31" "length demoRequest = 145"
proof -
  show k: "length (encKey (signerPublicKey demoDSA)) = 31" by code_simp
  then show "length demoRequest = 145"
    by (simp add: demoRequest_def demoUserAuth_def userAuthRequestMsg_T_def userAuthRequestMsg_vals_def encStruct_def encString_def
        typeTag_def Atoi_def)
qed

lemma demo_step:
  "authStep demoCrypto demoNet demoConfig demoConn \<lparr>au_app = n, au_io = \<lparr>io_in = [demoRequest], io_rerr = EOF, io_out = [], io_wres = []\<rparr>,
       au_cache = [], au_user = ''''\<rparr> = (st, r) \<Longrightarrow> r = ADone None \<and> io_wres (au_io st) = []"
proof -
  let ?k = "signerPublicKey demoDSA"
  let ?kd = "encKey ?k" and ?sig = "encString (bytes_of KeyAlgoDSA) @ encString (replicate 40 1)"
  have "wf_vals (st_fields userAuthRequestMsg_T) (userAuthRequestMsg_vals demoUserAuth)"
    by (simp add: userAuthRequestMsg_T_def userAuthRequestMsg_vals_def)
  then have u: "rbind (Unmarshal demoRequest userAuthRequestMsg_T) userAuthRequestMsg_of = Ok demoUserAuth"
    unfolding demoRequest_def using demo_lengths(2) [unfolded demoRequest_def]
    by (intro userAuthRequestMsg.unmarshal_enc) auto
  have p: "parseString (encString (bytes_of KeyAlgoDSA) @ encString ?kd @ encString ?sig) = Parsed (bytes_of KeyAlgoDSA) (encString ?kd @ encString ?sig)"
    "parseString (encString ?kd @ encString ?sig) = Parsed ?kd (encString ?sig)"
    by (intro parseString_encString; simp add: encString_def demo_lengths)+
  have s: "parseString (encString ?sig) = Parsed ?sig []" "parseString (encString (replicate 40 1)) = Parsed (replicate 40 1) []"
    "parseString ?sig = Parsed (bytes_of KeyAlgoDSA) (encString (replicate 40 1))"
    using parseString_encString [of ?sig "[]"] parseString_encString [of "replicate 40 1" "[]"]
      parseString_encString [of "bytes_of KeyAlgoDSA" "encString (replicate 40 1)"] by (simp_all add: encString_def)
  have ps: "parseSignature (encString ?sig) = Parsed \<lparr>sig_Format = KeyAlgoDSA, sig_Blob = replicate 40 1\<rparr> []"
    by (simp add: parseSignature_def parseSignatureBody_def s)
  have k: "ParsePublicKey demoCrypto ?kd = Ok ?k"
    by (rule ParsePublicKey_enc(1)) (simp_all only: demo_lengths, simp_all add: demoDSA_def)
  have v: "keyVerify demoCrypto ?k d \<lparr>sig_Format = KeyAlgoDSA, sig_Blob = replicate 40 1\<rparr> = Ok ()" for d
    by (simp add: demoDSA_def dsaVerify_def demoCrypto_def)
  assume "authStep demoCrypto demoNet demoConfig demoConn \<lparr>au_app = n, au_io = \<lparr>io_in = [demoRequest], io_rerr = EOF, io_out = [], io_wres = []\<rparr>,
       au_cache = [], au_user = ''''\<rparr> = (st, r)"
  then show ?thesis
    by (auto simp: authStep_def readPkt_def u handleAuthRequest_def demoUserAuth_def authMethod_def publickeyMethod_def
        demoConfig_def p k lookupCandidate_def cache_get_def metaOf_def sourceAddressOf_def verifyAttempt_def ps v
        buildDataSignedForAuth_enc authTail_def isAcceptableAlgo_def Let_def simp del: rbind_eq_Ok)
qed

theorem authentication_sound_witness:
  "\<exists>st req. serverAuthenticate demoCrypto demoNet demoConfig demoConn 0
       \<lparr>io_in = [demoRequest], io_rerr = EOF, io_out = [], io_wres = []\<rparr> = (st, Ok None)
     \<and> acceptedBy demoCrypto demoNet demoConfig demoConn req None"
proof -
  let ?io = "\<lparr>io_in = [demoRequest], io_rerr = EOF, io_out = [], io_wres = []\<rparr>"
  let ?st = "\<lparr>au_app = 0, au_io = ?io, au_cache = [], au_user = ''''\<rparr>"
  obtain st r where s: "authStep demoCrypto demoNet demoConfig demoConn ?st = (st, r)" by fastforce
  note d = demo_step [OF s]
  have "authLoop demoCrypto demoNet demoConfig demoConn ?st = (st, Ok None)"
    by (subst authLoop.simps) (simp add: s d)
  with d obtain st' where a: "serverAuthenticate demoCrypto demoNet demoConfig demoConn 0 ?io = (st', Ok None)"
    by (simp add: serverAuthenticate_def demoConn_def writePkt_def)
  from authentication_sound [OF a] a show ?thesis by blast
qed

section \<open>Other properties of the server\<close>

text \<open>An exact source address restriction never admits a client whose address is given as four
  bytes, since the address to compare with has sixteen (the form that \<^verbatim>\<open>net.ParseIP\<close> returns, also
  for IPv4).\<close>

theorem source_address_rejects_four_byte_addresses:
  assumes "\<And>s ip. nl_ParseIP nl s = Some ip \<Longrightarrow> length ip = 16"
    and "nl_ParseIP nl sourceAddr = Some allowed" "length ip = 4"
  shows "checkSourceAddress nl (TCPAddr ip port) sourceAddr
    = Err (Errorf ''ssh: remote address %v is not allowed because of source-address restriction'' [AStr (str_of ip)])"
  using assms(1) [OF assms(2)] assms(2,3) by (auto simp: checkSourceAddress_def Let_def)

theorem source_address_rejects_four_byte_addresses_witness:
  "checkSourceAddress demoNet (TCPAddr [10, 0, 0, 1] 22) ''10.0.0.1''
    = Err (Errorf ''ssh: remote address %v is not allowed because of source-address restriction'' [AStr (str_of [10, 0, 0, 1])])"
proof (rule source_address_rejects_four_byte_addresses)
  show "nl_ParseIP demoNet s = Some ip \<Longrightarrow> length ip = 16" for s ip
    by (auto simp: demoNet_def split: if_splits)
  show "nl_ParseIP demoNet ''10.0.0.1'' = Some (replicate 10 0 @ [255, 255, 10, 0, 0, 1])" by (simp add: demoNet_def)
qed simp

text \<open>Answers of a client to a challenge.\<close>

definition encAnswers :: "string list \<Rightarrow> bytes" where
  "encAnswers as = msgUserAuthInfoResponse # be32 (of_nat (length as)) @ encList as"

lemma parseAnswers_enc: "length (encList as @ r) < 2 ^ 32 \<Longrightarrow> parseAnswers (length as) (encList as @ r) = Ok (as, r)"
proof (induction as)
  case (Cons a as)
  then have "parseString (encString (bytes_of a) @ encList as @ r) = Parsed (bytes_of a) (encList as @ r)"
    by (intro parseString_encString) simp
  with Cons show ?case by simp
qed simp

end
