(* ===== verification/Sessions.thy ===== *)
theory Sessions
  imports Key_Check Server_Auth
begin

text \<open>
  The state that connections of the key checker share, and its authentication callbacks
  (\<^verbatim>\<open>server.go\<close>): \<open>publicKeyCallback\<close> records every key a client presents and refuses it, so that
  the client presents the next one; \<open>keyboardInteractiveCallback\<close> then lets the client in. The
  theorems combine the callbacks with the authentication loop of the SSH library.
\<close>

section \<open>State and callbacks\<close>

text \<open>\<^verbatim>\<open>sessions.keys\<close> maps a session identifier to the keys seen; the lock makes each access one step.\<close>

record appState =
  sessions_keys :: "bytes \<rightharpoonup> publicKey list"
  app_blacklist :: blacklist

definition session_keys :: "appState \<Rightarrow> bytes \<Rightarrow> publicKey list" where
  "session_keys s sid = (case sessions_keys s sid of Some ks \<Rightarrow> ks | None \<Rightarrow> [])"

definition publicKeyCallback :: "appState \<Rightarrow> connMeta \<Rightarrow> PublicKey \<Rightarrow> appState \<times> verdict" where
  "publicKeyCallback s conn key =
     (let sid = cm_SessionID conn
      in (s\<lparr>sessions_keys := (sessions_keys s)(sid \<mapsto> session_keys s sid @ [\<lparr>pk_key = key, pk_blacklisted = False\<rparr>])\<rparr>,
          None, Some (ErrNew '''')))"

definition keyboardInteractiveCallback :: "appState \<Rightarrow> connMeta \<Rightarrow> appState kiProg" where
  "keyboardInteractiveCallback s conn = KIDone s (None, None)"

text \<open>The configuration that \<^verbatim>\<open>main\<close> builds, before the host key is added.\<close>

definition appConfig :: "appState ServerConfig" where
  "appConfig = \<lparr>sc_Config = \<lparr>cf_Rand = None, cf_RekeyThreshold = 0, cf_KeyExchanges = None, cf_Ciphers = None, cf_MACs = None\<rparr>,
     sc_hostKeys = [], sc_NoClientAuth = False, sc_PasswordCallback = None,
     sc_PublicKeyCallback = Some publicKeyCallback,
     sc_KeyboardInteractiveCallback = Some keyboardInteractiveCallback,
     sc_AuthLogCallback = None, sc_ServerVersion = ''''\<rparr>"

text \<open>A configuration with the callbacks of the application, whatever its host keys are.\<close>

definition app_callbacks :: "appState ServerConfig \<Rightarrow> bool" where
  "app_callbacks c \<longleftrightarrow> \<not> sc_NoClientAuth c \<and> sc_PasswordCallback c = None
     \<and> sc_PublicKeyCallback c = Some publicKeyCallback
     \<and> sc_KeyboardInteractiveCallback c = Some keyboardInteractiveCallback \<and> sc_AuthLogCallback c = None"

section \<open>Requests of a client\<close>

definition requestOf :: "bytes \<Rightarrow> userAuthRequestMsg res" where
  "requestOf packet = rbind (Unmarshal packet userAuthRequestMsg_T) userAuthRequestMsg_of"

text \<open>The key that a packet presents, if it is a public key request for an acceptable algorithm.\<close>

definition offeredKey :: "crypto \<Rightarrow> userAuthRequestMsg \<Rightarrow> PublicKey option" where
  "offeredKey cr req =
     (if userAuthRequestMsg_Method req \<noteq> ''publickey'' then None
      else case userAuthRequestMsg_Payload req of
        [] \<Rightarrow> None
      | q # p \<Rightarrow> (case parseString p of
            Parsed algo p \<Rightarrow> if isAcceptableAlgo (str_of algo) then (case parseString p of
                Parsed d _ \<Rightarrow> (case ParsePublicKey cr d of Ok key \<Rightarrow> Some key | _ \<Rightarrow> None)
              | _ \<Rightarrow> None) else None
          | _ \<Rightarrow> None))"

lemma offeredKey_iff:
  "offeredKey cr req = Some key \<longleftrightarrow> userAuthRequestMsg_Method req = ''publickey''
     \<and> (\<exists>q algo d rest. pubkeyRequest cr req q algo d key rest)"
  by (auto simp: offeredKey_def pubkeyRequest_def split: if_splits list.splits parsed.splits res.splits)

section \<open>One round of authentication\<close>

text \<open>Every key in the cache of the connection is recorded in its session.\<close>

definition cached_recorded :: "crypto \<Rightarrow> bytes \<Rightarrow> appState authSt \<Rightarrow> bool" where
  "cached_recorded cr sid st \<longleftrightarrow> (\<forall>k\<in>set (au_cache st). ck_result k \<noteq> None \<and>
     (\<exists>key. ParsePublicKey cr (ck_pubKeyData k) = Ok key \<and> key \<in> pk_key ` set (session_keys (au_app st) sid)))"

lemma app_lookup:
  assumes "lookupCandidate nl conn publicKeyCallback st d key = (st', r)" "ParsePublicKey cr d = Ok key"
    and "cached_recorded cr (cm_SessionID conn) st"
  shows "\<exists>c new. r = Ok c \<and> ck_result c \<noteq> None
    \<and> session_keys (au_app st') (cm_SessionID conn) = session_keys (au_app st) (cm_SessionID conn) @ new
    \<and> (\<forall>k\<in>set new. k = \<lparr>pk_key = key, pk_blacklisted = False\<rparr>)
    \<and> key \<in> pk_key ` set (session_keys (au_app st') (cm_SessionID conn)) \<and> cached_recorded cr (cm_SessionID conn) st'
    \<and> app_blacklist (au_app st') = app_blacklist (au_app st)
    \<and> (\<forall>s. s \<noteq> cm_SessionID conn \<longrightarrow> sessions_keys (au_app st') s = sessions_keys (au_app st) s)"
proof (cases "cache_get (au_cache st) (au_user st) d")
  case (Some c)
  with assms cache_get_Some [OF Some] show ?thesis
    by (intro exI [of _ c] exI [of _ "[]"]) (fastforce simp: lookupCandidate_def cached_recorded_def)
next
  case None
  let ?c = "\<lparr>ck_user = au_user st, ck_pubKeyData = d, ck_result = Some (ErrNew ''''), ck_perms = None\<rparr>"
  let ?new = "[\<lparr>pk_key = key, pk_blacklisted = False\<rparr>]"
  have cb: "publicKeyCallback (au_app st) (metaOf conn st) key = ((au_app st)\<lparr>sessions_keys :=
     (sessions_keys (au_app st))(cm_SessionID conn \<mapsto> session_keys (au_app st) (cm_SessionID conn) @ ?new)\<rparr>, None, Some (ErrNew ''''))"
    by (simp add: publicKeyCallback_def Let_def metaOf_def)
  with None assms(1) have st': "st' = st\<lparr>au_app := fst (publicKeyCallback (au_app st) (metaOf conn st) key),
      au_cache := cache_add (au_cache st) ?c\<rparr>" and r: "r = Ok ?c"
    by (auto simp: lookupCandidate_def Let_def)
  have sk: "session_keys (au_app st') (cm_SessionID conn) = session_keys (au_app st) (cm_SessionID conn) @ ?new"
    by (simp add: st' cb session_keys_def)
  have "set (au_cache st') \<subseteq> insert ?c (set (au_cache st))" by (auto simp: st' cache_add_def)
  then have "cached_recorded cr (cm_SessionID conn) st'"
    using assms(2,3) sk by (fastforce simp: cached_recorded_def)
  with r sk show ?thesis by (intro exI [of _ ?c] exI [of _ ?new]) (simp add: st' cb)
qed
text \<open>
  What a round does to the recorded keys: it appends copies of the key that the request presents, at
  least one unless the key is recorded already, and leaves every other session alone.
\<close>

definition records :: "bytes \<Rightarrow> PublicKey option \<Rightarrow> appState \<Rightarrow> appState \<Rightarrow> bool" where
  "records sid k s s' \<longleftrightarrow>
     (\<exists>new. session_keys s' sid = session_keys s sid @ new \<and> (\<forall>x\<in>set new. k = Some (pk_key x) \<and> \<not> pk_blacklisted x))
     \<and> (\<forall>key. k = Some key \<longrightarrow> key \<in> pk_key ` set (session_keys s' sid))
     \<and> app_blacklist s' = app_blacklist s \<and> (\<forall>t. t \<noteq> sid \<longrightarrow> sessions_keys s' t = sessions_keys s t)"

lemma records_refl: "records sid None s s"
  by (simp add: records_def)

lemma app_publickey:
  assumes "publickeyMethod cr nl c conn st req = (st', r)" "app_callbacks c"
    and "cached_recorded cr (cm_SessionID conn) st" "userAuthRequestMsg_Method req = ''publickey''"
  shows "records (cm_SessionID conn) (offeredKey cr req) (au_app st) (au_app st')
    \<and> cached_recorded cr (cm_SessionID conn) st' \<and> (\<forall>p. r \<noteq> Verdict p None) \<and> r \<noteq> Resume"
  using assms(1)
proof (cases rule: publickeyMethod_cases)
  case stuck
  then have "\<And>q algo d key rest. \<not> pubkeyRequest cr req q algo d key rest" using assms(2) by (auto simp: app_callbacks_def)
  then have "offeredKey cr req = None" using offeredKey_iff [of cr req] by (cases "offeredKey cr req") blast+
  with stuck assms(3) show ?thesis by (simp add: records_refl)
next
  case (key cb q algo d k rest st1 r1)
  have cb: "cb = publicKeyCallback" using key(1) assms(2) by (simp add: app_callbacks_def)
  have pk: "ParsePublicKey cr d = Ok k" using key(2) by (auto simp: pubkeyRequest_def)
  obtain cand new where l: "r1 = Ok cand" "ck_result cand \<noteq> None"
    "session_keys (au_app st1) (cm_SessionID conn) = session_keys (au_app st) (cm_SessionID conn) @ new"
    "\<forall>x\<in>set new. x = \<lparr>pk_key = k, pk_blacklisted = False\<rparr>"
    "k \<in> pk_key ` set (session_keys (au_app st1) (cm_SessionID conn))" "cached_recorded cr (cm_SessionID conn) st1"
    "app_blacklist (au_app st1) = app_blacklist (au_app st)"
    "\<forall>s. s \<noteq> cm_SessionID conn \<longrightarrow> sessions_keys (au_app st1) s = sessions_keys (au_app st) s"
    using app_lookup [OF key(3) [unfolded cb] pk assms(3)] by blast
  have o: "offeredKey cr req = Some k" using key(2) assms(4) by (auto simp: offeredKey_iff)
  have s': "au_app st' = au_app st1 \<and> au_cache st' = au_cache st1"
    using key(4) l(1) by (auto split: if_splits dest: answerQuery_frame [OF sym])
  have r: "(\<forall>p. r \<noteq> Verdict p None) \<and> r \<noteq> Resume"
    using key(4) l(1,2)
    by (auto simp: answerQuery_def verifyAttempt_def noAuthYet_def split: if_splits parsed.splits res.splits option.splits)
  have "records (cm_SessionID conn) (offeredKey cr req) (au_app st) (au_app st')"
    unfolding records_def o using l s' by (intro conjI exI [of _ new]) auto
  with r l(6) s' show ?thesis by (simp add: cached_recorded_def)
qed

lemma app_authMethod:
  assumes "authMethod cr nl c conn st req = (st', r)" "app_callbacks c" "cached_recorded cr (cm_SessionID conn) st"
  shows "records (cm_SessionID conn) (offeredKey cr req) (au_app st) (au_app st') \<and> cached_recorded cr (cm_SessionID conn) st'
    \<and> r \<noteq> Resume \<and> (\<forall>p. r = Verdict p None \<longrightarrow> p = None \<and> userAuthRequestMsg_Method req = ''keyboard-interactive'' \<and> au_app st' = au_app st)
    \<and> (userAuthRequestMsg_Method req = ''keyboard-interactive'' \<longrightarrow> r = Verdict None None)"
proof (cases "userAuthRequestMsg_Method req = ''publickey''")
  case True
  then have "publickeyMethod cr nl c conn st req = (st', r)" using assms(1) by (simp add: authMethod_def)
  with app_publickey [OF this assms(2,3) True] True show ?thesis by simp
next
  case False
  then have "offeredKey cr req = None" by (simp add: offeredKey_def)
  moreover have "au_app st' = au_app st \<and> au_cache st' = au_cache st \<and> r \<noteq> Resume \<and> (\<forall>p. r = Verdict p None \<longrightarrow> p = None \<and>
      userAuthRequestMsg_Method req = ''keyboard-interactive'') \<and> (userAuthRequestMsg_Method req = ''keyboard-interactive'' \<longrightarrow> r = Verdict None None)"
    using assms(1,2) False
    by (auto simp: authMethod_def Let_def noneMethod_def passwordMethod_def keyboardMethod_def app_callbacks_def
        keyboardInteractiveCallback_def split: if_split_asm)
  ultimately show ?thesis using assms(3) by (auto simp: records_refl cached_recorded_def)
qed

lemma app_authTail:
  assumes "authTail c conn st m p e = (st', r)" "app_callbacks c"
  shows "au_app st' = au_app st \<and> au_cache st' = au_cache st \<and> (\<forall>q. r = ADone q \<longrightarrow> e = None \<and> q = p)
    \<and> (r = AContinue \<longrightarrow> e \<noteq> None)"
  using assms by (auto simp: authTail_def app_callbacks_def Let_def split: if_split_asm prod.splits res.splits)

lemma app_handle:
  assumes "handleAuthRequest cr nl c conn st req = (st', r)" "app_callbacks c" "cached_recorded cr (cm_SessionID conn) st"
    and "r = AContinue \<or> r = ADone p"
  shows "records (cm_SessionID conn) (offeredKey cr req) (au_app st) (au_app st') \<and> cached_recorded cr (cm_SessionID conn) st'
    \<and> (r = ADone p \<longleftrightarrow> userAuthRequestMsg_Method req = ''keyboard-interactive'') \<and> (r = ADone p \<longrightarrow> p = None)"
proof -
  let ?st = "st\<lparr>au_user := userAuthRequestMsg_User req\<rparr>"
  obtain st1 r1 where m: "authMethod cr nl c conn ?st req = (st1, r1)" by (cases "authMethod cr nl c conn ?st req")
  have "cached_recorded cr (cm_SessionID conn) ?st" using assms(3) by (simp add: cached_recorded_def)
  note a = app_authMethod [OF m assms(2) this]
  from assms(1,4) m a obtain perms e where v: "r1 = Verdict perms e"
    "authTail c conn st1 (userAuthRequestMsg_Method req) perms e = (st', r)"
    by (cases r1) (auto simp: handleAuthRequest_def split: if_split_asm)
  note t = app_authTail [OF v(2) assms(2)]
  have "cached_recorded cr (cm_SessionID conn) st'" using a t by (simp add: cached_recorded_def)
  moreover have "records (cm_SessionID conn) (offeredKey cr req) (au_app st) (au_app st')" using a t by simp
  ultimately show ?thesis using a t v(1) assms(4) by auto
qed

lemma app_authMethod_in:
  assumes "authMethod cr nl c conn st req = (st', r)" "app_callbacks c"
  shows "io_in (au_io st') = io_in (au_io st)"
proof (cases "userAuthRequestMsg_Method req = ''publickey''")
  case True
  with assms(1) show ?thesis using publickeyMethod_in [of cr nl c conn st req st' r] by (simp add: authMethod_def)
next
  case False
  with assms show ?thesis
    by (auto simp: authMethod_def Let_def noneMethod_def passwordMethod_def keyboardMethod_def app_callbacks_def
        keyboardInteractiveCallback_def split: if_split_asm)
qed

lemma app_handle_in:
  assumes "handleAuthRequest cr nl c conn st req = (st', r)" "app_callbacks c"
  shows "io_in (au_io st') = io_in (au_io st)"
proof -
  obtain st1 r1 where m: "authMethod cr nl c conn (st\<lparr>au_user := userAuthRequestMsg_User req\<rparr>) req = (st1, r1)"
    by (cases "authMethod cr nl c conn (st\<lparr>au_user := userAuthRequestMsg_User req\<rparr>) req")
  from assms(1) m app_authMethod_in [OF m assms(2)] show ?thesis
    by (auto simp: handleAuthRequest_def split: if_split_asm methodRes.split_asm dest: authTail_in)
qed

section \<open>The whole authentication\<close>

text \<open>
  The requests before the first keyboard-interactive request are those in which the client presents
  its keys.
\<close>

definition is_keyboard :: "bytes \<Rightarrow> bool" where
  "is_keyboard packet = (case requestOf packet of
       Ok req \<Rightarrow> userAuthRequestMsg_Method req = ''keyboard-interactive'' | _ \<Rightarrow> False)"

definition offeredIn :: "crypto \<Rightarrow> bytes \<Rightarrow> PublicKey option" where
  "offeredIn cr packet = (case requestOf packet of Ok req \<Rightarrow> offeredKey cr req | _ \<Rightarrow> None)"

definition offeredKeys :: "crypto \<Rightarrow> bytes list \<Rightarrow> PublicKey set" where
  "offeredKeys cr packets = {k. \<exists>p\<in>set (takeWhile (\<lambda>p. \<not> is_keyboard p) packets). offeredIn cr p = Some k}"

lemma offeredKeys_simps:
  "offeredKeys cr [] = {}"
  "offeredKeys cr (p # ps) = (if is_keyboard p then {} else set_option (offeredIn cr p) \<union> offeredKeys cr ps)"
  by (auto simp: offeredKeys_def)

lemma app_step:
  assumes "authStep cr nl c conn st = (st', r)" "app_callbacks c" "cached_recorded cr (cm_SessionID conn) st"
    and "r = AContinue \<or> r = ADone p"
  obtains packet rest where "io_in (au_io st) = packet # rest"
    "records (cm_SessionID conn) (offeredIn cr packet) (au_app st) (au_app st')" "cached_recorded cr (cm_SessionID conn) st'"
    "r = ADone p \<longleftrightarrow> is_keyboard packet" "r = ADone p \<Longrightarrow> p = None" "r = AContinue \<Longrightarrow> io_in (au_io st') = rest"
  using assms(1)
proof (cases rule: authStep_cases)
  case stop
  with assms(4) show ?thesis by auto
next
  case (req packet rest req)
  let ?st = "st\<lparr>au_io := (au_io st)\<lparr>io_in := rest\<rparr>\<rparr>"
  have "cached_recorded cr (cm_SessionID conn) ?st" using assms(3) by (simp add: cached_recorded_def)
  note h = app_handle [OF req(3) assms(2) this assms(4)]
  have o: "offeredIn cr packet = offeredKey cr req" "is_keyboard packet \<longleftrightarrow> userAuthRequestMsg_Method req = ''keyboard-interactive''"
    using req(2) by (simp_all add: offeredIn_def is_keyboard_def requestOf_def del: rbind_eq_Ok)
  have "io_in (au_io st') = rest" if "r = AContinue"
    using app_handle_in [OF req(3) assms(2)] by simp
  with h o req(1) show ?thesis by (intro that [of packet rest]) auto
qed

lemma app_loop:
  "authLoop cr nl c conn st = (st', Ok perms) \<Longrightarrow> app_callbacks c \<Longrightarrow> cached_recorded cr (cm_SessionID conn) st
    \<Longrightarrow> perms = None \<and> (\<exists>p\<in>set (io_in (au_io st)). is_keyboard p)
      \<and> (\<exists>new. session_keys (au_app st') (cm_SessionID conn) = session_keys (au_app st) (cm_SessionID conn) @ new
           \<and> pk_key ` set new \<subseteq> offeredKeys cr (io_in (au_io st)) \<and> (\<forall>x\<in>set new. \<not> pk_blacklisted x))
      \<and> offeredKeys cr (io_in (au_io st)) \<subseteq> pk_key ` set (session_keys (au_app st') (cm_SessionID conn))
      \<and> app_blacklist (au_app st') = app_blacklist (au_app st)
      \<and> (\<forall>t. t \<noteq> cm_SessionID conn \<longrightarrow> sessions_keys (au_app st') t = sessions_keys (au_app st) t)"
proof (induction cr nl c conn st rule: authLoop.induct)
  case (1 cr nl c conn st)
  obtain st1 r1 where s: "authStep cr nl c conn st = (st1, r1)" by (cases "authStep cr nl c conn st")
  have loop: "(case r1 of AContinue \<Rightarrow> authLoop cr nl c conn st1 | ADone p \<Rightarrow> (st1, Ok p) | AFail e \<Rightarrow> (st1, Err e)
      | ACrash p \<Rightarrow> (st1, Panic p)) = (st', Ok perms)"
    using "1.prems"(1) s by (simp add: authLoop.simps [of cr nl c conn st] split: authOut.split)
  then have "r1 = AContinue \<or> r1 = ADone perms" by (cases r1) auto
  from app_step [OF s "1.prems"(2,3) this] obtain packet rest where a: "io_in (au_io st) = packet # rest"
    "records (cm_SessionID conn) (offeredIn cr packet) (au_app st) (au_app st1)" "cached_recorded cr (cm_SessionID conn) st1"
    "r1 = ADone perms \<longleftrightarrow> is_keyboard packet" "r1 = ADone perms \<Longrightarrow> perms = None" "r1 = AContinue \<Longrightarrow> io_in (au_io st1) = rest" by blast
  obtain new1 where n1: "session_keys (au_app st1) (cm_SessionID conn) = session_keys (au_app st) (cm_SessionID conn) @ new1"
    "\<forall>x\<in>set new1. offeredIn cr packet = Some (pk_key x) \<and> \<not> pk_blacklisted x" using a(2) by (auto simp: records_def)
  show ?case
  proof (cases "is_keyboard packet")
    case True
    then have "r1 = ADone perms" using a(4) by simp
    moreover have "offeredIn cr packet = None" using True
      by (auto simp: is_keyboard_def offeredIn_def offeredKey_def split: res.splits)
    ultimately show ?thesis using True a loop n1 by (auto simp: offeredKeys_simps records_def)
  next
    case False
    then have c: "r1 = AContinue" using a(4) \<open>r1 = AContinue \<or> r1 = ADone perms\<close> by blast
    have "authLoop cr nl c conn st1 = (st', Ok perms)" using loop c by simp
    note IH = "1.IH" [OF s [symmetric] c this "1.prems"(2) a(3)]
    then obtain new2 where n2: "session_keys (au_app st') (cm_SessionID conn) = session_keys (au_app st1) (cm_SessionID conn) @ new2"
      "pk_key ` set new2 \<subseteq> offeredKeys cr rest" "\<forall>x\<in>set new2. \<not> pk_blacklisted x" using a(6) [OF c] by blast
    have off: "offeredKeys cr (io_in (au_io st)) = set_option (offeredIn cr packet) \<union> offeredKeys cr rest"
      using False a(1) by (simp add: offeredKeys_simps)
    have "set_option (offeredIn cr packet) \<subseteq> pk_key ` set (session_keys (au_app st1) (cm_SessionID conn))"
      using a(2) by (auto simp: records_def)
    moreover have "pk_key ` set new1 \<subseteq> set_option (offeredIn cr packet)" using n1(2) by auto
    ultimately show ?thesis
      unfolding off using IH n1 n2 a(1) a(6) [OF c] a(2) by (auto simp: records_def)
  qed
qed

lemma app_serverAuthenticate:
  assumes "serverAuthenticate cr nl c conn s io = (st, Ok perms)" "app_callbacks c"
  shows "perms = None \<and> (\<exists>p\<in>set (io_in io). is_keyboard p)
      \<and> (\<exists>new. session_keys (au_app st) (cm_SessionID conn) = session_keys s (cm_SessionID conn) @ new
           \<and> pk_key ` set new \<subseteq> offeredKeys cr (io_in io) \<and> (\<forall>x\<in>set new. \<not> pk_blacklisted x))
      \<and> offeredKeys cr (io_in io) \<subseteq> pk_key ` set (session_keys (au_app st) (cm_SessionID conn))
      \<and> app_blacklist (au_app st) = app_blacklist s
      \<and> (\<forall>t. t \<noteq> cm_SessionID conn \<longrightarrow> sessions_keys (au_app st) t = sessions_keys s t)"
proof -
  let ?st = "\<lparr>au_app = s, au_io = io, au_cache = [], au_user = cm_User conn\<rparr>"
  obtain st' where l: "authLoop cr nl c conn ?st = (st', Ok perms)" and e: "au_app st = au_app st'"
    using assms(1) by (auto simp: serverAuthenticate_def split: prod.splits res.splits)
  have "cached_recorded cr (cm_SessionID conn) ?st" by (simp add: cached_recorded_def)
  from app_loop [OF l assms(2) this] e show ?thesis by simp
qed

text \<open>(C1) A client that the key checker lets in has sent a keyboard-interactive request; the keys
  recorded for its session are exactly the keys it presented in public key requests before that, none
  of them marked; it gets no permissions, and the keys of other sessions are untouched.\<close>

theorem presented_keys_recorded:
  assumes "serverAuthenticate cr nl c conn s io = (st, Ok perms)" "app_callbacks c"
    and "sessions_keys s (cm_SessionID conn) = None"
  shows "perms = None \<and> (\<exists>p\<in>set (io_in io). is_keyboard p)
    \<and> pk_key ` set (session_keys (au_app st) (cm_SessionID conn)) = offeredKeys cr (io_in io)
    \<and> (\<forall>x\<in>set (session_keys (au_app st) (cm_SessionID conn)). \<not> pk_blacklisted x)
    \<and> (\<forall>t. t \<noteq> cm_SessionID conn \<longrightarrow> sessions_keys (au_app st) t = sessions_keys s t)"
proof -
  have "session_keys s (cm_SessionID conn) = []" using assms(3) by (simp add: session_keys_def)
  with app_serverAuthenticate [OF assms(1,2)] show ?thesis by auto
qed

section \<open>A client that presents its keys is let in\<close>

definition authRequest :: "string \<Rightarrow> string \<Rightarrow> bytes \<Rightarrow> userAuthRequestMsg" where
  "authRequest user method payload = \<lparr>userAuthRequestMsg_User = user, userAuthRequestMsg_Service = serviceSSH,
     userAuthRequestMsg_Method = method, userAuthRequestMsg_Payload = payload\<rparr>"

definition authPacket :: "userAuthRequestMsg \<Rightarrow> bytes" where
  "authPacket req = encStruct userAuthRequestMsg_T (userAuthRequestMsg_vals req)"

definition keyQuery :: "string \<Rightarrow> PublicKey \<Rightarrow> userAuthRequestMsg" where
  "keyQuery user k = authRequest user ''publickey'' (0 # encString (bytes_of (case keyType k of Ok t \<Rightarrow> t | _ \<Rightarrow> []))
     @ encString (encKey k))"

definition keyboardRequest :: "string \<Rightarrow> userAuthRequestMsg" where
  "keyboardRequest user = authRequest user ''keyboard-interactive'' (encString [] @ encString [])"

lemma requestOf_authPacket: "length (authPacket req) < 2 ^ 32 \<Longrightarrow> requestOf (authPacket req) = Ok req"
  unfolding requestOf_def authPacket_def
  by (rule userAuthRequestMsg.unmarshal_enc)
    (simp_all add: userAuthRequestMsg_T_def userAuthRequestMsg_vals_def encStruct_def typeTag_def Atoi_def)

lemma authPacket_payload: "length (userAuthRequestMsg_Payload req) \<le> length (authPacket req)"
  by (simp add: authPacket_def userAuthRequestMsg_T_def userAuthRequestMsg_vals_def encStruct_def)

lemma keyType_acceptable:
  assumes "wf_key cr k" "keyType k = Ok t"
  shows "isAcceptableAlgo t"
proof (cases k)
  case (CertKey c)
  then obtain q where "wf_plain cr q" "t = certName q"
    using assms by (cases c) (auto simp: keyType_plain certName_props(1))
  then show ?thesis using certName_props(3) by (simp add: isAcceptableAlgo_def)
next
  case (ECDSAKey e)
  with assms show ?thesis using ecdsa_name_cases [of "ec_Curve e"] by (auto simp: isAcceptableAlgo_def nistID_supported)
qed (use assms in \<open>simp_all add: isAcceptableAlgo_def\<close>)

lemma keyQuery_request:
  assumes "wf_key cr k" "length (authPacket (keyQuery user k)) < 2 ^ 32"
  shows "\<exists>t. pubkeyRequest cr (keyQuery user k) 0 (bytes_of t) (encKey k) k []"
proof -
  obtain t where t: "keyType k = Ok t" using keyType_wf [OF assms(1)] by blast
  let ?p = "encString (bytes_of t) @ encString (encKey k)"
  have len: "length ?p < 2 ^ 32"
    using authPacket_payload [of "keyQuery user k"] assms(2) t by (simp add: keyQuery_def authRequest_def)
  have "parseString ?p = Parsed (bytes_of t) (encString (encKey k))" "parseString (encString (encKey k)) = Parsed (encKey k) []"
    using len parseString_encString [of "bytes_of t" "encString (encKey k)"] parseString_encString [of "encKey k" "[]"] by simp_all
  moreover have "ParsePublicKey cr (encKey k) = Ok k"
    using len by (intro ParsePublicKey_enc(1) [OF assms(1)]) (simp add: encString_def)
  ultimately show ?thesis
    using keyType_acceptable [OF assms(1) t] t
    by (intro exI [of _ t]) (auto simp: pubkeyRequest_def keyQuery_def authRequest_def)
qed

lemma pubkeyRequest_unique:
  "pubkeyRequest cr req q a d k r \<Longrightarrow> pubkeyRequest cr req q' a' d' k' r' \<Longrightarrow> q = q' \<and> a = a' \<and> d = d' \<and> k = k' \<and> r = r'"
  by (auto simp: pubkeyRequest_def)

lemma app_failureMethods: "app_callbacks c \<Longrightarrow> failureMethods c = [''publickey'', ''keyboard-interactive'']"
  by (simp add: failureMethods_def app_callbacks_def)

lemma app_failure_reply:
  assumes "app_callbacks c" "io_wres (au_io st) = []"
  shows "\<exists>st'. authTail c conn st m p (Some e) = (st', AContinue) \<and> au_app st' = au_app st \<and> au_cache st' = au_cache st
    \<and> io_in (au_io st') = io_in (au_io st) \<and> io_wres (au_io st') = []"
proof -
  let ?f = "\<lparr>userAuthFailureMsg_Methods = [''publickey'', ''keyboard-interactive''], userAuthFailureMsg_PartialSuccess = False\<rparr>"
  have "wf_vals (st_fields userAuthFailureMsg_T) (userAuthFailureMsg_vals ?f)"
    by (simp add: userAuthFailureMsg_T_def userAuthFailureMsg_vals_def) code_simp
  from userAuthFailureMsg.marshal_ok [OF this] show ?thesis
    using assms by (simp add: authTail_def app_failureMethods writeMsg_def writePkt_def) (simp add: app_callbacks_def)
qed

lemma app_query_step:
  assumes "app_callbacks c" "cached_recorded cr (cm_SessionID conn) st" "wf_key cr k"
    and "io_in (au_io st) = authPacket (keyQuery user k) # rest" "length (authPacket (keyQuery user k)) < 2 ^ 32"
    and "io_wres (au_io st) = []"
  shows "\<exists>st'. authStep cr nl c conn st = (st', AContinue) \<and> cached_recorded cr (cm_SessionID conn) st'
    \<and> io_in (au_io st') = rest \<and> io_wres (au_io st') = []"
proof -
  let ?req = "keyQuery user k"
  let ?st = "st\<lparr>au_io := (au_io st)\<lparr>io_in := rest\<rparr>, au_user := user\<rparr>"
  have step: "authStep cr nl c conn st = handleAuthRequest cr nl c conn (st\<lparr>au_io := (au_io st)\<lparr>io_in := rest\<rparr>\<rparr>) ?req"
    using requestOf_authPacket [OF assms(5)] assms(4)
    by (simp add: authStep_def readPkt_def requestOf_def Let_def del: rbind_eq_Ok)
  have req: "userAuthRequestMsg_Method ?req = ''publickey''" "userAuthRequestMsg_Service ?req = serviceSSH" "userAuthRequestMsg_User ?req = user"
    by (simp_all add: keyQuery_def authRequest_def)
  obtain t where pr: "pubkeyRequest cr ?req 0 (bytes_of t) (encKey k) k []" using keyQuery_request [OF assms(3,5)] by blast
  obtain st1 r1 where m: "publickeyMethod cr nl c conn ?st ?req = (st1, r1)" by (cases "publickeyMethod cr nl c conn ?st ?req")
  have cr: "cached_recorded cr (cm_SessionID conn) ?st" using assms(2) by (simp add: cached_recorded_def)
  have "\<exists>e. r1 = Verdict None (Some e) \<and> au_io st1 = au_io ?st"
    using m
  proof (cases rule: publickeyMethod_cases)
    case stuck
    with pr assms(1) show ?thesis by (auto simp: app_callbacks_def)
  next
    case (key cb q algo d key r st2 r2)
    have cb: "cb = publicKeyCallback" using key(1) assms(1) by (simp add: app_callbacks_def)
    have u: "q = 0" "algo = bytes_of t" "d = encKey k" "key = k" "r = []" using pubkeyRequest_unique [OF key(2) pr] by auto
    have pk: "ParsePublicKey cr (encKey k) = Ok k" using pr by (auto simp: pubkeyRequest_def)
    obtain cand where "r2 = Ok cand" "ck_result cand \<noteq> None"
      using app_lookup [OF key(3) [unfolded cb u] pk cr] by blast
    with key(4) lookupCandidate_frame [OF key(3)] show ?thesis by (auto simp: u answerQuery_def)
  qed
  then obtain e where e: "r1 = Verdict None (Some e)" "au_io st1 = au_io ?st" by blast
  obtain st' where st': "authTail c conn st1 ''publickey'' None (Some e) = (st', AContinue)" "au_app st' = au_app st1"
    "au_cache st' = au_cache st1" "io_in (au_io st') = rest" "io_wres (au_io st') = []"
    using app_failure_reply [OF assms(1), of st1 conn "''publickey''" None e] e(2) assms(6) by auto
  have "authStep cr nl c conn st = (st', AContinue)"
    unfolding step handleAuthRequest_def using m e(1) st'(1) req by (simp add: authMethod_def Let_def)
  moreover have "cached_recorded cr (cm_SessionID conn) st'"
    using app_publickey [OF m assms(1) cr req(1)] st'(2,3) by (simp add: cached_recorded_def)
  ultimately show ?thesis using st' by blast
qed

lemma app_keyboard_step:
  assumes "app_callbacks c" "io_in (au_io st) = authPacket (keyboardRequest user) # rest"
    "length (authPacket (keyboardRequest user)) < 2 ^ 32" "io_wres (au_io st) = []"
  shows "\<exists>st'. authStep cr nl c conn st = (st', ADone None) \<and> io_wres (au_io st') = []"
  using requestOf_authPacket [OF assms(3)] assms
  by (auto simp: authStep_def readPkt_def requestOf_def Let_def handleAuthRequest_def keyboardRequest_def authRequest_def
      authMethod_def keyboardMethod_def app_callbacks_def keyboardInteractiveCallback_def authTail_def simp del: rbind_eq_Ok)

lemma app_queries_loop:
  assumes "app_callbacks c" "length (authPacket (keyboardRequest user)) < 2 ^ 32"
  shows "\<forall>k\<in>set ks. wf_key cr k \<and> length (authPacket (keyQuery user k)) < 2 ^ 32
    \<Longrightarrow> cached_recorded cr (cm_SessionID conn) st \<Longrightarrow> io_wres (au_io st) = []
    \<Longrightarrow> io_in (au_io st) = map (\<lambda>k. authPacket (keyQuery user k)) ks @ authPacket (keyboardRequest user) # rest
    \<Longrightarrow> \<exists>st'. authLoop cr nl c conn st = (st', Ok None) \<and> io_wres (au_io st') = []"
proof (induction ks arbitrary: st)
  case Nil
  obtain st' where "authStep cr nl c conn st = (st', ADone None)" "io_wres (au_io st') = []"
    using app_keyboard_step [OF assms(1) _ assms(2), of st rest cr nl conn] Nil.prems by auto
  then show ?case by (simp add: authLoop.simps [of cr nl c conn st])
next
  case (Cons k ks)
  let ?rest = "map (\<lambda>k. authPacket (keyQuery user k)) ks @ authPacket (keyboardRequest user) # rest"
  obtain st1 where s: "authStep cr nl c conn st = (st1, AContinue)" "cached_recorded cr (cm_SessionID conn) st1"
    "io_in (au_io st1) = ?rest" "io_wres (au_io st1) = []"
    using app_query_step [OF assms(1), of cr conn st k user ?rest nl] Cons.prems by auto
  with Cons.IH [of st1] Cons.prems(1) show ?case by (simp add: authLoop.simps [of cr nl c conn st])
qed

text \<open>(C10) A client that asks about any number of keys and then for keyboard-interactive authentication is
  let in, and the recorded keys are the ones it asked about.\<close>

theorem client_presenting_keys_let_in:
  assumes "app_callbacks c" "\<forall>k\<in>set ks. wf_key cr k \<and> length (authPacket (keyQuery user k)) < 2 ^ 32"
    and "length (authPacket (keyboardRequest user)) < 2 ^ 32" "io_wres io = []"
    and "io_in io = map (\<lambda>k. authPacket (keyQuery user k)) ks @ [authPacket (keyboardRequest user)]"
    and "sessions_keys s (cm_SessionID conn) = None"
  shows "\<exists>st. serverAuthenticate cr nl c conn s io = (st, Ok None)
    \<and> pk_key ` set (session_keys (au_app st) (cm_SessionID conn)) = set ks"
proof -
  let ?st = "\<lparr>au_app = s, au_io = io, au_cache = [], au_user = cm_User conn\<rparr>"
  obtain st' where l: "authLoop cr nl c conn ?st = (st', Ok None)" "io_wres (au_io st') = []"
    using app_queries_loop [OF assms(1,3,2), of conn ?st "[]"] assms(4,5) by (auto simp: cached_recorded_def)
  then obtain st where a: "serverAuthenticate cr nl c conn s io = (st, Ok None)"
    by (simp add: serverAuthenticate_def writePkt_def)
  have kb: "is_keyboard (authPacket (keyboardRequest user))"
    using requestOf_authPacket [OF assms(3)] by (simp add: is_keyboard_def keyboardRequest_def authRequest_def)
  have q: "\<not> is_keyboard (authPacket (keyQuery user k)) \<and> offeredIn cr (authPacket (keyQuery user k)) = Some k" if "k \<in> set ks" for k
  proof -
    have r: "requestOf (authPacket (keyQuery user k)) = Ok (keyQuery user k)" using assms(2) that by (intro requestOf_authPacket) blast
    have "offeredKey cr (keyQuery user k) = Some k"
      unfolding offeredKey_iff using keyQuery_request [of cr k user] assms(2) that
      by (auto simp: keyQuery_def authRequest_def)
    with r show ?thesis by (simp add: is_keyboard_def offeredIn_def) (simp add: keyQuery_def authRequest_def)
  qed
  have "takeWhile (\<lambda>p. \<not> is_keyboard p) (io_in io) = map (\<lambda>k. authPacket (keyQuery user k)) ks"
    unfolding assms(5) by (subst takeWhile_append2) (use kb q in auto)
  then have "offeredKeys cr (io_in io) = set ks" using q by (auto simp: offeredKeys_def)
  moreover have "session_keys s (cm_SessionID conn) = []" using assms(6) by (simp add: session_keys_def)
  ultimately show ?thesis using app_serverAuthenticate [OF a assms(1)] a by auto
qed

definition demoState :: appState where
  "demoState = \<lparr>sessions_keys = Map.empty, app_blacklist = Map.empty\<rparr>"

definition demoPackets :: pktIO where
  "demoPackets = \<lparr>io_in = [authPacket (keyQuery ''bob'' demoKey), authPacket (keyboardRequest ''bob'')],
     io_rerr = EOF, io_out = [], io_wres = []\<rparr>"

lemma app_callbacks_appConfig: "app_callbacks appConfig"
  by (simp add: app_callbacks_def appConfig_def)

lemma demo_packets:
  "wf_key demoCrypto demoKey" "length (authPacket (keyQuery ''bob'' demoKey)) < 2 ^ 32"
  "length (authPacket (keyboardRequest ''bob'')) < 2 ^ 32"
proof -
  show "wf_key demoCrypto demoKey" by (simp add: demoKey_def BitLen_def bitlen.simps)
  have k: "length (encKey demoKey) = 21" by code_simp
  show "length (authPacket (keyQuery ''bob'' demoKey)) < 2 ^ 32" "length (authPacket (keyboardRequest ''bob'')) < 2 ^ 32"
    by (simp_all add: authPacket_def keyQuery_def keyboardRequest_def authRequest_def userAuthRequestMsg_T_def
        userAuthRequestMsg_vals_def encStruct_def encString_def k) (simp add: demoKey_def)
qed

theorem client_presenting_keys_let_in_witness:
  "\<exists>st. serverAuthenticate demoCrypto demoNet appConfig demoConn demoState demoPackets = (st, Ok None)
     \<and> pk_key ` set (session_keys (au_app st) [1, 2]) = {demoKey}"
  using client_presenting_keys_let_in [of appConfig "[demoKey]" demoCrypto "''bob''" demoPackets demoState demoConn demoNet]
    demo_packets app_callbacks_appConfig by (simp add: demoPackets_def demoState_def demoConn_def)

lemma demo_authenticates:
  "\<exists>st. serverAuthenticate demoCrypto demoNet appConfig demoConn demoState demoPackets = (st, Ok None)"
proof -
  let ?st = "\<lparr>au_app = demoState, au_io = demoPackets, au_cache = [], au_user = cm_User demoConn\<rparr>"
  obtain st' where "authLoop demoCrypto demoNet appConfig demoConn ?st = (st', Ok None)" "io_wres (au_io st') = []"
    using app_queries_loop [OF app_callbacks_appConfig demo_packets(3), of "[demoKey]" demoCrypto demoConn ?st "[]" demoNet]
      demo_packets(1,2) by (auto simp: cached_recorded_def demoPackets_def)
  then show ?thesis by (simp add: serverAuthenticate_def writePkt_def)
qed

theorem presented_keys_recorded_witness:
  "\<exists>st. serverAuthenticate demoCrypto demoNet appConfig demoConn demoState demoPackets = (st, Ok None)
     \<and> pk_key ` set (session_keys (au_app st) [1, 2]) = offeredKeys demoCrypto (io_in demoPackets)"
proof -
  obtain st where a: "serverAuthenticate demoCrypto demoNet appConfig demoConn demoState demoPackets = (st, Ok None)"
    using demo_authenticates by blast
  with presented_keys_recorded [OF a app_callbacks_appConfig] show ?thesis by (auto simp: demoState_def demoConn_def)
qed

end
