(* ===== verification/Report.thy ===== *)
theory Report
  imports Key_Check
begin

text \<open>
  What the key checker writes to a session channel (\<^verbatim>\<open>server.go\<close>, the body of the loop of \<open>serve\<close>
  up to the lock, and the message texts): the table of keys, laid out by \<^verbatim>\<open>text/tabwriter\<close>, and the
  warnings.
\<close>

section \<open>The tab writer\<close>

text \<open>
  The parameters given to \<^verbatim>\<open>Init\<close>. A line is the list of its cells; the last one is the text after
  the last tab, which belongs to no column.
\<close>

definition minwidth :: nat where "minwidth = 5"
definition padding :: nat where "padding = 2"

definition pad :: "nat \<Rightarrow> string \<Rightarrow> string" where
  "pad w c = c @ replicate (w - length c) (CHR '' '')"

fun writeCells :: "nat list \<Rightarrow> string list \<Rightarrow> string" where
  "writeCells ws [] = []"
| "writeCells [] (c # cs) = c @ writeCells [] cs"
| "writeCells (w # ws) (c # cs) = pad w c @ writeCells ws cs"

definition tabLine :: "nat list \<Rightarrow> string list \<Rightarrow> string" where
  "tabLine ws l = writeCells ws l @ [CHR 0x0A]"

definition hasColumn :: "nat \<Rightarrow> string list \<Rightarrow> bool" where
  "hasColumn c l \<longleftrightarrow> c < length l - 1"

definition columnWidth :: "nat \<Rightarrow> string list list \<Rightarrow> nat" where
  "columnWidth c ls = foldr (\<lambda>l w. max (length (l ! c) + padding) w) ls minwidth"

text \<open>
  A column is a run of lines that have a cell in it; it is formatted with all columns to its left
  fixed, then the lines after it.
\<close>

function tabFormat :: "nat list \<Rightarrow> string list list \<Rightarrow> string" where
  "tabFormat ws [] = []"
| "tabFormat ws (l # ls) =
     (if hasColumn (length ws) l then
        let run = l # takeWhile (hasColumn (length ws)) ls;
            rest = dropWhile (hasColumn (length ws)) ls
        in tabFormat (ws @ [columnWidth (length ws) run]) run @ tabFormat ws rest
      else tabLine ws l @ tabFormat ws ls)"
  by pat_completeness auto
termination
proof (relation "measures [\<lambda>(ws, ls). sum_list (map (\<lambda>l. length l - length ws) ls), \<lambda>(ws, ls). length ls]", goal_cases)
  case (2 ws l ls run rest)
  have "sum_list (map (\<lambda>l. length l - Suc (length ws)) (takeWhile (hasColumn (length ws)) ls))
      \<le> sum_list (map (\<lambda>l. length l - length ws) ls)" (is "?a \<le> _")
  proof -
    have "?a \<le> sum_list (map (\<lambda>l. length l - length ws) (takeWhile (hasColumn (length ws)) ls))"
      by (rule sum_list_mono) simp
    also have "\<dots> \<le> \<dots> + sum_list (map (\<lambda>l. length l - length ws) (dropWhile (hasColumn (length ws)) ls))" by simp
    also have "\<dots> = sum_list (map (\<lambda>l. length l - length ws) ls)"
      by (metis map_append sum_list_append takeWhile_dropWhile_id)
    finally show ?thesis .
  qed
  with 2 show ?case by (simp add: hasColumn_def) linarith
next
  case (3 ws l ls run rest)
  have "sum_list (map (\<lambda>l. length l - length ws) (dropWhile (hasColumn (length ws)) ls)) \<le> sum_list (map (\<lambda>l. length l - length ws) ls)"
    by (metis le_add2 map_append sum_list_append takeWhile_dropWhile_id)
  with 3 show ?case by (simp add: hasColumn_def) linarith
qed auto

declare tabFormat.simps [simp del]

section \<open>Texts\<close>

definition unlines :: "string list \<Rightarrow> string" where
  "unlines ls = concat (map (\<lambda>l. l @ [CHR 0x0A]) ls)"

text \<open>\<^verbatim>\<open>strings.Replace(s, "\n", "\n\r", -1)\<close>\<close>

definition crlf :: "string \<Rightarrow> string" where
  "crlf s = replaceChar (CHR 0x0A) [CHR 0x0A, CHR 0x0D] s"

definition agentMsg :: string where
  "agentMsg = crlf (unlines
     [''CRITICAL: SSH agent forwarding is enabled; it is dangerous to enable agent forwarding'',
      [CHR 0x09] @ ''  for servers you do not trust as it allows them to log in to other servers as you.'', ''''])"

definition blacklistMsg :: string where
  "blacklistMsg = crlf (unlines
     [''CRITICAL: You are using blacklisted key(s) that are known to be insecure.'',
      ''          You should replace them immediately.'',
      ''          See: https://www.debian.org/security/2008/dsa-1576'', ''''])"

definition dsaMsg :: string where
  "dsaMsg = crlf (unlines
     [''WARNING:  You are using DSA (ssh-dss) key(s), which are no longer supported by'',
      [CHR 0x09] @ ''  default in OpenSSH version 7.0 and above.'',
      ''          Consider replacing them with a new RSA or ECDSA key.'', ''''])"

definition weakMsg :: string where
  "weakMsg = crlf (unlines
     [''WARNING:  You are using RSA key(s) with a length of less than 2048 bits.'',
      ''          Consider replacing them with a new key of 2048 bits or more.'', ''''])"

definition welcomeMsg :: string where
  "welcomeMsg = crlf (unlines
     [''This server checks your SSH public keys for known or potential'', ''security weaknesses.'', '''',
      ''For more information, please see:'', ''https://github.com/mattbostock/sshkeycheck'', '''',
      ''The public keys presented by your SSH client are:'', ''''])"

definition x11Msg :: string where
  "x11Msg = crlf (unlines
     [''CRITICAL: X11 forwarding is enabled; it is dangerous to allow X11 forwarding'',
      [CHR 0x09] @ ''  for servers you do not trust as it allows them to access your desktop.'', ''''])"

section \<open>The report\<close>

text \<open>
  The variables of the loop over the keys: the three flags, and what went to the log. An error of
  \<open>BitLen\<close> is only logged.
\<close>

record reportFlags =
  rf_blacklisted :: bool
  rf_weak :: bool
  rf_dsa :: bool
  rf_log :: "(string \<times> goerr) list"

definition issueText :: "publicKey \<Rightarrow> string \<Rightarrow> nat \<Rightarrow> string" where
  "issueText k t len =
     (let issues = ''No known issues'';
          issues = (if t = KeyAlgoDSA then ''DSA KEY'' else issues);
          issues = (if len < 2048 \<and> t = KeyAlgoRSA then ''WEAK KEY LENGTH'' else issues)
      in if pk_blacklisted k then ''BLACKLISTED'' else issues)"

definition reportKey :: "crypto \<Rightarrow> reportFlags \<Rightarrow> publicKey \<Rightarrow> (reportFlags \<times> string list) res" where
  "reportKey cr fl k = rbind (publicKey_BitLen cr k) (\<lambda>(len, err).
     rbind (keyType (pk_key k)) (\<lambda>t. rbind (Fingerprint cr k) (\<lambda>fp.
       Ok (fl\<lparr>rf_log := rf_log fl @ (case err of Some e \<Rightarrow> [(t, e)] | None \<Rightarrow> []),
              rf_dsa := rf_dsa fl \<or> t = KeyAlgoDSA,
              rf_weak := rf_weak fl \<or> len < 2048 \<and> t = KeyAlgoRSA,
              rf_blacklisted := rf_blacklisted fl \<or> pk_blacklisted k\<rparr>,
           [showNat len, t, fp, issueText k t len, '''']))))"

fun reportKeys :: "crypto \<Rightarrow> reportFlags \<Rightarrow> publicKey list \<Rightarrow> (reportFlags \<times> string list list) res" where
  "reportKeys cr fl [] = Ok (fl, [])"
| "reportKeys cr fl (k # ks) = rbind (reportKey cr fl k) (\<lambda>(fl, row).
     rbind (reportKeys cr fl ks) (\<lambda>(fl, rows). Ok (fl, row # rows)))"

definition tableHeader :: "string list" where
  "tableHeader = [''Bits'', ''Type'', ''Fingerprint'', ''Issues'']"

definition tableText :: "string list list \<Rightarrow> string" where
  "tableText rows = crlf (tabFormat [] (tableHeader # rows)) @ [CHR 0x0A, CHR 0x0D]"

text \<open>
  The part of the body of the channel loop before \<^verbatim>\<open>reqLock.Lock()\<close>: the keys as marked, and the
  texts written to the channel in order.
\<close>

definition channelReport :: "crypto \<Rightarrow> blacklist \<Rightarrow> publicKey list \<Rightarrow> (publicKey list \<times> string list \<times> (string \<times> goerr) list) res" where
  "channelReport cr bl keys = rbind (markBlacklistedKeys bl keys) (\<lambda>keys.
     rbind (reportKeys cr \<lparr>rf_blacklisted = False, rf_weak = False, rf_dsa = False, rf_log = []\<rparr> keys) (\<lambda>(fl, rows).
       Ok (keys, [welcomeMsg, tableText rows]
             @ (if rf_blacklisted fl then [blacklistMsg] else [])
             @ (if rf_dsa fl then [dsaMsg] else [])
             @ (if rf_weak fl then [weakMsg] else []), rf_log fl)))"

section \<open>Layout of the table\<close>

text \<open>The table as a reader sees it: three columns padded to common widths and the issues.\<close>

definition commonWidth :: "nat \<Rightarrow> string list list \<Rightarrow> nat" where
  "commonWidth c rows = columnWidth c (tableHeader # rows)"

definition tableSpec :: "string list list \<Rightarrow> string" where
  "tableSpec rows =
     (let w = (\<lambda>c. commonWidth c rows); w3 = columnWidth 3 rows in
      pad (w 0) ''Bits'' @ pad (w 1) ''Type'' @ pad (w 2) ''Fingerprint'' @ ''Issues'' @ [CHR 0x0A] @
      concat (map (\<lambda>r. pad (w 0) (r ! 0) @ pad (w 1) (r ! 1) @ pad (w 2) (r ! 2) @ pad w3 (r ! 3) @ [CHR 0x0A]) rows))"

lemma tabFormat_all:
  "ls \<noteq> [] \<Longrightarrow> \<forall>l\<in>set ls. hasColumn (length ws) l \<Longrightarrow> tabFormat ws ls = tabFormat (ws @ [columnWidth (length ws) ls]) ls"
proof -
  assume ne: "ls \<noteq> []" and h: "\<forall>l\<in>set ls. hasColumn (length ws) l"
  obtain l ls' where ls: "ls = l # ls'" using ne by (cases ls) auto
  have "takeWhile (hasColumn (length ws)) ls' = ls'" "dropWhile (hasColumn (length ws)) ls' = []"
    using h ls by simp_all
  with h ls show ?thesis by (simp only: ls tabFormat.simps(2) [of ws l ls'] Let_def) (simp add: tabFormat.simps(1))
qed

lemma tabFormat_none: "\<forall>l\<in>set ls. \<not> hasColumn (length ws) l \<Longrightarrow> tabFormat ws ls = concat (map (tabLine ws) ls)"
  by (induction ls) (simp_all add: tabFormat.simps)

lemma tabFormat_table:
  assumes "\<forall>r\<in>set rows. length r = 5 \<and> r ! 4 = []"
  shows "tabFormat [] (tableHeader # rows) = tableSpec rows"
proof -
  let ?t = "tableHeader # rows"
  let ?ws = "[columnWidth 0 ?t, columnWidth 1 ?t, columnWidth 2 ?t]"
  have h: "\<forall>l\<in>set ?t. hasColumn c l" if "c < 3" for c
    using assms that by (auto simp: hasColumn_def tableHeader_def)
  have "tabFormat [] ?t = tabFormat ?ws ?t"
    using tabFormat_all [of ?t "[]"] tabFormat_all [of ?t "[columnWidth 0 ?t]"]
      tabFormat_all [of ?t "[columnWidth 0 ?t, columnWidth 1 ?t]"] h by (simp add: numeral_2_eq_2)
  also have "\<dots> = tabLine ?ws tableHeader @ tabFormat ?ws rows"
    by (subst tabFormat.simps) (simp add: hasColumn_def tableHeader_def)
  also have "tabFormat ?ws rows = concat (map (tabLine (?ws @ [columnWidth 3 rows])) rows)"
  proof (cases "rows = []")
    case False
    have "\<forall>l\<in>set rows. hasColumn (length ?ws) l" "\<forall>l\<in>set rows. \<not> hasColumn (length (?ws @ [columnWidth 3 rows])) l"
      using assms by (auto simp: hasColumn_def)
    with tabFormat_all [OF False, of ?ws] tabFormat_none [of rows "?ws @ [columnWidth 3 rows]"] show ?thesis
      by (simp add: numeral_3_eq_3)
  qed (simp add: tabFormat.simps)
  finally have t: "tabFormat [] ?t = tabLine ?ws tableHeader @ concat (map (tabLine (?ws @ [columnWidth 3 rows])) rows)" .
  have row: "tabLine [a, b, c, d] r = pad a (r ! 0) @ pad b (r ! 1) @ pad c (r ! 2) @ pad d (r ! 3) @ [CHR 0x0A]"
    if "length r = 5 \<and> r ! 4 = []" for a b c d r
    using that by (auto simp: tabLine_def numeral_eq_Suc length_Suc_conv)
  have "concat (map (tabLine (?ws @ [columnWidth 3 rows])) rows) = concat (map (\<lambda>r. pad (columnWidth 0 ?t) (r ! 0)
      @ pad (columnWidth 1 ?t) (r ! 1) @ pad (columnWidth 2 ?t) (r ! 2) @ pad (columnWidth 3 rows) (r ! 3) @ [CHR 0x0A]) rows)"
    using assms by (intro arg_cong [of _ _ concat] map_cong) (simp_all add: row)
  with t show ?thesis by (simp add: tableSpec_def commonWidth_def tabLine_def tableHeader_def Let_def)
qed

lemma reportKeys_rows: "reportKeys cr fl ks = Ok (fl', rows) \<Longrightarrow> \<forall>r\<in>set rows. length r = 5 \<and> r ! 4 = []"
  by (induction ks arbitrary: fl rows) (auto simp: reportKey_def split: prod.splits)

text \<open>Cells fit their columns, so that columns start at the same place in every line.\<close>

lemma columnWidth_ge: "l \<in> set ls \<Longrightarrow> length (l ! c) + 2 \<le> columnWidth c ls"
  unfolding columnWidth_def by (induction ls) (auto simp: padding_def)

lemma length_pad: "length c \<le> w \<Longrightarrow> length (pad w c) = w"
  by (simp add: pad_def)

section \<open>What is reported\<close>

text \<open>The keys of a session: parsed from the wire, so well-formed and of bounded size.\<close>

definition presented :: "crypto \<Rightarrow> publicKey \<Rightarrow> bool" where
  "presented cr p \<longleftrightarrow> wf_key cr (pk_key p) \<and> length (encKey (pk_key p)) < 2 ^ 32"

definition weakRSA :: "PublicKey \<Rightarrow> bool" where
  "weakRSA k = (case k of RSAKey r \<Rightarrow> BitLen (rsa_N r) < 2048 | _ \<Rightarrow> False)"

definition isDSA :: "PublicKey \<Rightarrow> bool" where
  "isDSA k = (case k of DSAKey _ \<Rightarrow> True | _ \<Rightarrow> False)"

definition expectedIssue :: "publicKey \<Rightarrow> string" where
  "expectedIssue p = (if pk_blacklisted p then ''BLACKLISTED'' else if weakRSA (pk_key p) then ''WEAK KEY LENGTH''
     else if isDSA (pk_key p) then ''DSA KEY'' else ''No known issues'')"

definition expectedType :: "PublicKey \<Rightarrow> string" where
  "expectedType k = (case k of CertKey c \<Rightarrow> certName (Key c) | _ \<Rightarrow> plainName k)"

definition expectedRow :: "crypto \<Rightarrow> publicKey \<Rightarrow> string list" where
  "expectedRow cr p = [showNat (fst (expectedBits (pk_key p))), expectedType (pk_key p),
     md5HexString (cr_hash cr MD5 (encKey (pk_key p))), expectedIssue p, '''']"

lemma keyType_expected: "wf_key cr k \<Longrightarrow> keyType k = Ok (expectedType k)"
proof (cases k)
  case (CertKey c)
  moreover assume "wf_key cr k"
  ultimately show ?thesis by (cases c) (auto simp: expectedType_def keyType_plain certName_props(1))
qed (auto simp: expectedType_def nistID_supported)

lemma expectedType_cases:
  assumes "wf_key cr k"
  shows "expectedType k = KeyAlgoRSA \<longleftrightarrow> (\<exists>r. k = RSAKey r)" "expectedType k = KeyAlgoDSA \<longleftrightarrow> (\<exists>r. k = DSAKey r)"
proof -
  have "(expectedType k = KeyAlgoRSA \<longleftrightarrow> (\<exists>r. k = RSAKey r)) \<and> (expectedType k = KeyAlgoDSA \<longleftrightarrow> (\<exists>r. k = DSAKey r))"
  proof (cases k)
    case (CertKey c)
    then have "wf_plain cr (Key c)" using assms by (cases c) simp
    from certName_not_plain [OF this] CertKey show ?thesis by (simp add: expectedType_def)
  qed (simp_all add: expectedType_def)
  then show "expectedType k = KeyAlgoRSA \<longleftrightarrow> (\<exists>r. k = RSAKey r)" "expectedType k = KeyAlgoDSA \<longleftrightarrow> (\<exists>r. k = DSAKey r)"
    by blast+
qed

lemma reportKey_presented:
  assumes "presented cr p"
  shows "reportKey cr fl p = Ok (fl\<lparr>rf_log := rf_log fl @ (case snd (expectedBits (pk_key p)) of Some e \<Rightarrow> [(expectedType (pk_key p), e)] | None \<Rightarrow> []),
              rf_dsa := rf_dsa fl \<or> isDSA (pk_key p), rf_weak := rf_weak fl \<or> weakRSA (pk_key p),
              rf_blacklisted := rf_blacklisted fl \<or> pk_blacklisted p\<rparr>, expectedRow cr p)"
proof -
  have w: "wf_key cr (pk_key p)" and l: "length (encKey (pk_key p)) < 2 ^ 32" using assms by (simp_all add: presented_def)
  obtain b e where be: "expectedBits (pk_key p) = (b, e)" by (cases "expectedBits (pk_key p)")
  have t: "expectedType (pk_key p) = KeyAlgoDSA \<longleftrightarrow> isDSA (pk_key p)"
    using expectedType_cases(2) [OF w] by (auto simp: isDSA_def split: PublicKey.splits)
  have r: "b < 2048 \<and> expectedType (pk_key p) = KeyAlgoRSA \<longleftrightarrow> weakRSA (pk_key p)"
    using expectedType_cases(1) [OF w] be by (auto simp: weakRSA_def expectedBits_def split: PublicKey.splits)
  have "publicKey_BitLen cr p = Ok (b, e)" using publicKey_BitLen_wf [OF w l] be by simp
  moreover have "Fingerprint cr p = Ok (md5HexString (cr_hash cr MD5 (encKey (pk_key p))))"
    using keyMarshal_enc(1) [OF w] by (simp add: Fingerprint_def)
  moreover have "issueText p (expectedType (pk_key p)) b = expectedIssue p"
    using t r by (auto simp: issueText_def expectedIssue_def Let_def)
  ultimately show ?thesis
    using keyType_expected [OF w] t r by (simp add: reportKey_def expectedRow_def be)
qed

lemma reportKeys_presented:
  "\<forall>p\<in>set ks. presented cr p \<Longrightarrow> \<exists>log. reportKeys cr fl ks = Ok (fl\<lparr>rf_log := log,
      rf_dsa := rf_dsa fl \<or> (\<exists>p\<in>set ks. isDSA (pk_key p)), rf_weak := rf_weak fl \<or> (\<exists>p\<in>set ks. weakRSA (pk_key p)),
      rf_blacklisted := rf_blacklisted fl \<or> (\<exists>p\<in>set ks. pk_blacklisted p)\<rparr>, map (expectedRow cr) ks)"
proof (induction ks arbitrary: fl)
  case Nil
  show ?case by (intro exI [of _ "rf_log fl"]) simp
next
  case (Cons p ks)
  then have p: "presented cr p" and ks: "\<forall>p\<in>set ks. presented cr p" by simp_all
  let ?fl = "fst (case reportKey cr fl p of Ok x \<Rightarrow> x | _ \<Rightarrow> (fl, []))"
  from Cons.IH [OF ks, of ?fl] obtain log where
    "reportKeys cr ?fl ks = Ok (?fl\<lparr>rf_log := log,
      rf_dsa := rf_dsa ?fl \<or> (\<exists>p\<in>set ks. isDSA (pk_key p)), rf_weak := rf_weak ?fl \<or> (\<exists>p\<in>set ks. weakRSA (pk_key p)),
      rf_blacklisted := rf_blacklisted ?fl \<or> (\<exists>p\<in>set ks. pk_blacklisted p)\<rparr>, map (expectedRow cr) ks)" by blast
  then show ?case by (intro exI [of _ log]) (simp add: reportKey_presented [OF p] disj_assoc)
qed

lemma markBlacklistedKeys_presented:
  "\<forall>p\<in>set ks. presented cr p \<Longrightarrow> \<exists>ks'. markBlacklistedKeys bl ks = Ok ks' \<and> map pk_key ks' = map pk_key ks
     \<and> (\<forall>p\<in>set ks'. presented cr p) \<and> list_all2 (\<lambda>p p'. pk_blacklisted p' \<longleftrightarrow> pk_blacklisted p
          \<or> bl (keyLine (expectedType (pk_key p)) (encKey (pk_key p))) = Some True) ks ks'"
proof (induction ks)
  case (Cons p ks)
  then obtain ks' where ks': "markBlacklistedKeys bl ks = Ok ks'" "map pk_key ks' = map pk_key ks" "\<forall>p\<in>set ks'. presented cr p"
    "list_all2 (\<lambda>p p'. pk_blacklisted p' \<longleftrightarrow> pk_blacklisted p
          \<or> bl (keyLine (expectedType (pk_key p)) (encKey (pk_key p))) = Some True) ks ks'" by auto
  have w: "wf_key cr (pk_key p)" using Cons.prems by (simp add: presented_def)
  have m: "markKey bl p = Ok (p\<lparr>pk_blacklisted := pk_blacklisted p \<or> bl (keyLine (expectedType (pk_key p)) (encKey (pk_key p))) = Some True\<rparr>)"
    using markKey_wf [OF w, of bl] keyType_expected [OF w] by fastforce
  show ?case
    using ks' m Cons.prems by (simp add: presented_def)
qed simp

lemma demoCert_length: "length (encKey (CertKey demoCert)) < 2 ^ 32"
proof -
  have "length (marshalIntBytes 17) = 1" "length (marshalIntBytes 55) = 1" by code_simp+
  then show ?thesis
    by (simp add: demoCert_def demoKey_def encStruct_def genericCertData_T_def genericCertData_vals_def encString_def
        encPlain_def encInt_def certName_def map_get_def certAlgoNames_def curveID_def encPoint_def curveBytes_def
        encSig_def Signature_T_def Signature_vals_def)
qed

lemma showNat_0: "showNat 0 = ''0''"
  by code_simp

text \<open>(C2) The report on a channel never fails for presented keys. It is the welcome text, the table with one row
  per key in the order of presentation (bits, type, fingerprint, issue), laid out in columns of equal
  width, then the blacklist, DSA and weak key warnings, each exactly when some key is marked, is a DSA key or is
  an RSA key of less than 2048 bits.\<close>

theorem report_is_complete:
  assumes "\<forall>p\<in>set keys. presented cr p"
  shows "\<exists>ks log. markBlacklistedKeys bl keys = Ok ks \<and> map pk_key ks = map pk_key keys \<and>
     channelReport cr bl keys = Ok (ks,
       [welcomeMsg, crlf (tableSpec (map (expectedRow cr) ks)) @ [CHR 0x0A, CHR 0x0D]]
       @ (if \<exists>p\<in>set ks. pk_blacklisted p then [blacklistMsg] else [])
       @ (if \<exists>p\<in>set ks. isDSA (pk_key p) then [dsaMsg] else [])
       @ (if \<exists>p\<in>set ks. weakRSA (pk_key p) then [weakMsg] else []), log)"
proof -
  obtain ks where ks: "markBlacklistedKeys bl keys = Ok ks" "map pk_key ks = map pk_key keys" "\<forall>p\<in>set ks. presented cr p"
    using markBlacklistedKeys_presented [OF assms, of bl] by blast
  let ?fl = "\<lparr>rf_blacklisted = False, rf_weak = False, rf_dsa = False, rf_log = []\<rparr>"
  obtain log where r: "reportKeys cr ?fl ks = Ok (?fl\<lparr>rf_log := log,
      rf_dsa := rf_dsa ?fl \<or> (\<exists>p\<in>set ks. isDSA (pk_key p)), rf_weak := rf_weak ?fl \<or> (\<exists>p\<in>set ks. weakRSA (pk_key p)),
      rf_blacklisted := rf_blacklisted ?fl \<or> (\<exists>p\<in>set ks. pk_blacklisted p)\<rparr>, map (expectedRow cr) ks)"
    using reportKeys_presented [OF ks(3), of ?fl] by blast
  have "tabFormat [] (tableHeader # map (expectedRow cr) ks) = tableSpec (map (expectedRow cr) ks)"
    by (rule tabFormat_table) (auto simp: expectedRow_def)
  with ks(1,2) r show ?thesis by (intro exI [of _ ks] exI [of _ log]) (simp add: channelReport_def tableText_def)
qed

theorem report_is_complete_witness:
  "\<exists>ks out log. channelReport demoCrypto Map.empty [\<lparr>pk_key = demoKey, pk_blacklisted = False\<rparr>,
     \<lparr>pk_key = CertKey demoCert, pk_blacklisted = True\<rparr>] = Ok (ks, out, log) \<and> map pk_key ks = [demoKey, CertKey demoCert]"
proof -
  have "length (encKey demoKey) = 21" by code_simp
  moreover have "length (encKey (CertKey demoCert)) < 2 ^ 32"
    by (rule demoCert_length)
  ultimately have "\<forall>p\<in>set [\<lparr>pk_key = demoKey, pk_blacklisted = False\<rparr>,
     \<lparr>pk_key = CertKey demoCert, pk_blacklisted = True\<rparr>]. presented demoCrypto p"
    using wf_demoCert by (simp add: presented_def del: encKey.simps) (simp add: demoKey_def BitLen_def bitlen.simps)
  from report_is_complete [OF this, of Map.empty] show ?thesis by auto
qed

text \<open>(C13) A certificate is never reported as weak or as a DSA key, whatever key it certifies: unless its
  own line is blacklisted, the row says that no issues are known, with a length of 0 bits.\<close>

theorem certificates_are_not_checked:
  assumes "presented cr p" "pk_key p = CertKey c" "\<not> pk_blacklisted p"
  shows "\<exists>fl' fp. reportKey cr fl p = Ok (fl', [''0'', certName (Key c), fp, ''No known issues'', ''''])
    \<and> rf_weak fl' = rf_weak fl \<and> rf_dsa fl' = rf_dsa fl"
proof -
  have "expectedRow cr p = [''0'', certName (Key c), md5HexString (cr_hash cr MD5 (encKey (CertKey c))), ''No known issues'', '''']"
    using assms(2,3) by (simp add: expectedRow_def expectedBits_def expectedType_def expectedIssue_def weakRSA_def isDSA_def
        showNat_0)
  with reportKey_presented [OF assms(1), of fl] assms(2) show ?thesis by (simp add: isDSA_def weakRSA_def)
qed

theorem certificates_are_not_checked_witness:
  "\<exists>fl' fp. reportKey demoCrypto \<lparr>rf_blacklisted = False, rf_weak = False, rf_dsa = False, rf_log = []\<rparr>
      \<lparr>pk_key = CertKey demoCert, pk_blacklisted = False\<rparr>
    = Ok (fl', [''0'', certName (Key demoCert), fp, ''No known issues'', ''''])"
proof -
  have "length (encKey (CertKey demoCert)) < 2 ^ 32"
    by (rule demoCert_length)
  then have "presented demoCrypto \<lparr>pk_key = CertKey demoCert, pk_blacklisted = False\<rparr>"
    using wf_demoCert by (simp add: presented_def del: encKey.simps)
  from certificates_are_not_checked [OF this] show ?thesis by (simp, blast)
qed

end
