(* ===== verification/Buffer.thy ===== *)
theory Buffer
  imports Go_Prelude
begin

text \<open>
  The buffer between the goroutine that receives the data of a channel and the one that reads it
  (\<^verbatim>\<open>buffer.go\<close>): a linked list of byte slices. The elements live in a store, in the order of their
  allocation, and \<open>head\<close>, \<open>tail\<close> and \<open>next\<close> are references into it. The buffer implements the contract
  \<open>byte_queue\<close>, in which the theorems about streams are proved.
\<close>

section \<open>Contract of a byte queue\<close>

text \<open>How \<open>Read\<close> ends: with the bytes copied and an error, or waiting on the condition variable.\<close>

datatype readRes = Returned bytes "goerr option" | Waiting

text \<open>
  What \<open>Read\<close> into a slice of length \<open>k\<close> gives when \<open>c\<close> is in the queue and \<open>out\<close> has been copied already.
\<close>

definition readOutcome :: "bool \<Rightarrow> nat \<Rightarrow> bytes \<Rightarrow> bytes \<Rightarrow> readRes" where
  "readOutcome closed k c out =
     (if k = 0 \<or> out @ c \<noteq> [] then Returned (out @ take k c) None
      else if closed then Returned [] (Some EOF) else Waiting)"

datatype queueOp = QWrite bytes | QEof | QRead nat

locale byte_queue =
  fixes empty :: 'b and put :: "'b \<Rightarrow> bytes \<Rightarrow> 'b" and fin :: "'b \<Rightarrow> 'b" and get :: "'b \<Rightarrow> nat \<Rightarrow> ('b \<times> readRes) option"
    and inv :: "'b \<Rightarrow> bool" and content :: "'b \<Rightarrow> bytes" and closed :: "'b \<Rightarrow> bool"
  assumes empty: "inv empty" "content empty = []" "\<not> closed empty"
    and put: "inv b \<Longrightarrow> inv (put b d)" "inv b \<Longrightarrow> content (put b d) = content b @ d" "inv b \<Longrightarrow> closed (put b d) = closed b"
    and fin: "inv b \<Longrightarrow> inv (fin b)" "inv b \<Longrightarrow> content (fin b) = content b" "inv b \<Longrightarrow> closed (fin b)"
    and read_returns: "inv b \<Longrightarrow> \<exists>b' r. get b k = Some (b', r)"
    and get: "inv b \<Longrightarrow> get b k = Some (b', r) \<Longrightarrow> inv b' \<and> closed b' = closed b \<and> content b' = drop k (content b) \<and>
      r = readOutcome (closed b) k (content b) []"
begin

text \<open>A run of operations: the state and all the bytes that were read.\<close>

fun runOps :: "'b \<Rightarrow> queueOp list \<Rightarrow> ('b \<times> bytes) option" where
  "runOps b [] = Some (b, [])"
| "runOps b (QWrite d # ops) = runOps (put b d) ops"
| "runOps b (QEof # ops) = runOps (fin b) ops"
| "runOps b (QRead k # ops) = (case get b k of
       None \<Rightarrow> None
     | Some (b, r) \<Rightarrow> (case runOps b ops of None \<Rightarrow> None
         | Some (b, out) \<Rightarrow> Some (b, (case r of Returned d _ \<Rightarrow> d | Waiting \<Rightarrow> []) @ out)))"

fun written :: "queueOp list \<Rightarrow> bytes" where
  "written [] = []"
| "written (QWrite d # ops) = d @ written ops"
| "written (_ # ops) = written ops"

text \<open>What is read is a prefix of what was written, and the rest is still queued.\<close>

lemma stream: "inv b \<Longrightarrow> \<exists>b' out. runOps b ops = Some (b', out) \<and> inv b' \<and> out @ content b' = content b @ written ops"
proof (induction ops arbitrary: b)
  case (Cons x ops)
  show ?case
  proof (cases x)
    case (QRead k)
    obtain b1 r where r: "get b k = Some (b1, r)" using read_returns [OF Cons.prems] by blast
    note s = get [OF Cons.prems r]
    obtain b' out where "runOps b1 ops = Some (b', out)" "inv b'" "out @ content b' = content b1 @ written ops"
      using Cons.IH s by blast
    moreover have "(case r of Returned d _ \<Rightarrow> d | Waiting \<Rightarrow> []) = take k (content b)" using s by (simp add: readOutcome_def)
    ultimately show ?thesis using QRead r s by simp
  next
    case (QWrite d)
    with Cons.IH [OF put(1) [OF Cons.prems, of d]] put(2) [OF Cons.prems] show ?thesis by simp
  next
    case QEof
    with Cons.IH [OF fin(1) [OF Cons.prems]] fin(2) [OF Cons.prems] show ?thesis by simp
  qed
qed simp

end

section \<open>The linked list\<close>

record element =
  el_buf :: bytes
  el_next :: "nat option"

record buffer =
  bf_store :: "element list"
  bf_head :: nat
  bf_tail :: nat
  bf_closed :: bool

definition newBuffer :: buffer where
  "newBuffer = \<lparr>bf_store = [\<lparr>el_buf = [], el_next = None\<rparr>], bf_head = 0, bf_tail = 0, bf_closed = False\<rparr>"

definition buffer_write :: "buffer \<Rightarrow> bytes \<Rightarrow> buffer" where
  "buffer_write b buf =
     (let e = length (bf_store b);
          s = bf_store b @ [\<lparr>el_buf = buf, el_next = None\<rparr>]
      in b\<lparr>bf_store := s[bf_tail b := (s ! bf_tail b)\<lparr>el_next := Some e\<rparr>], bf_tail := e\<rparr>)"

definition buffer_eof :: "buffer \<Rightarrow> buffer" where
  "buffer_eof b = b\<lparr>bf_closed := True\<rparr>"

text \<open>
  The loop of \<open>Read\<close>: \<open>k\<close> is the space left in the argument and \<open>out\<close> the bytes copied to it. Following a
  \<open>next\<close> that is nil would be a panic of the program; it and a loop without end have no result.
\<close>

partial_function (option) readLoop :: "buffer \<Rightarrow> nat \<Rightarrow> bytes \<Rightarrow> (buffer \<times> readRes) option" where
  "readLoop b k out =
     (if k = 0 then Some (b, Returned out None)
      else let h = bf_store b ! bf_head b in
        if el_buf h \<noteq> [] then
          (let r = min k (length (el_buf h))
           in readLoop (b\<lparr>bf_store := (bf_store b)[bf_head b := h\<lparr>el_buf := drop r (el_buf h)\<rparr>]\<rparr>) (k - r) (out @ take r (el_buf h)))
        else if bf_head b \<noteq> bf_tail b then
          (case el_next h of None \<Rightarrow> None | Some n \<Rightarrow> readLoop (b\<lparr>bf_head := n\<rparr>) k out)
        else if out \<noteq> [] then Some (b, Returned out None)
        else if bf_closed b then Some (b, Returned out (Some EOF))
        else Some (b, Waiting))"

definition buffer_Read :: "buffer \<Rightarrow> nat \<Rightarrow> (buffer \<times> readRes) option" where
  "buffer_Read b k = readLoop b k []"

section \<open>The buffer is a byte queue\<close>

definition buffer_inv :: "buffer \<Rightarrow> bool" where
  "buffer_inv b \<longleftrightarrow> bf_head b \<le> bf_tail b \<and> Suc (bf_tail b) = length (bf_store b)
     \<and> (\<forall>i<bf_tail b. el_next (bf_store b ! i) = Some (Suc i))"

definition buffer_content :: "buffer \<Rightarrow> bytes" where
  "buffer_content b = concat (map el_buf (drop (bf_head b) (bf_store b)))"

lemma content_head: "buffer_inv b \<Longrightarrow> buffer_content b
    = el_buf (bf_store b ! bf_head b) @ concat (map el_buf (drop (Suc (bf_head b)) (bf_store b)))"
  by (simp add: buffer_content_def buffer_inv_def Cons_nth_drop_Suc [symmetric])

lemma write_inv: "buffer_inv b \<Longrightarrow> buffer_inv (buffer_write b d)"
  by (auto simp: buffer_inv_def buffer_write_def Let_def nth_append nth_list_update less_Suc_eq)

lemma write_content: "buffer_inv b \<Longrightarrow> buffer_content (buffer_write b d) = buffer_content b @ d"
proof -
  assume i: "buffer_inv b"
  let ?s = "bf_store b @ [\<lparr>el_buf = d, el_next = None\<rparr>]"
  have "map el_buf (?s[bf_tail b := (?s ! bf_tail b)\<lparr>el_next := Some (length (bf_store b))\<rparr>]) = map el_buf ?s"
    using i by (simp add: map_update buffer_inv_def list_update_same_conv nth_append)
  then have "map el_buf (bf_store (buffer_write b d)) = map el_buf (bf_store b) @ [d]"
    by (simp add: buffer_write_def Let_def)
  then have "map el_buf (drop (bf_head b) (bf_store (buffer_write b d))) = map el_buf (drop (bf_head b) (bf_store b)) @ [d]"
    using i by (simp add: drop_map [symmetric] buffer_inv_def)
  then show ?thesis by (simp add: buffer_content_def buffer_write_def Let_def)
qed

text \<open>The result of the loop, by induction on the elements ahead and the bytes still wanted.\<close>

lemma readLoop_result:
  assumes "buffer_inv b"
  shows "\<exists>b'. readLoop b k out = Some (b', readOutcome (bf_closed b) k (buffer_content b) out)
     \<and> buffer_inv b' \<and> bf_closed b' = bf_closed b \<and> buffer_content b' = drop k (buffer_content b)"
  using assms
proof (induction "2 * (bf_tail b - bf_head b) + k" arbitrary: b k out rule: less_induct)
  case less
  let ?h = "bf_store b ! bf_head b"
  have i: "bf_head b \<le> bf_tail b" "Suc (bf_tail b) = length (bf_store b)" using less.prems by (simp_all add: buffer_inv_def)
  note c = content_head [OF less.prems]
  consider "k = 0" | "k \<noteq> 0" "el_buf ?h \<noteq> []" | "k \<noteq> 0" "el_buf ?h = []" "bf_head b \<noteq> bf_tail b"
    | "k \<noteq> 0" "el_buf ?h = []" "bf_head b = bf_tail b" by blast
  then show ?case
  proof cases
    case 1
    then show ?thesis using less.prems by (subst readLoop.simps) (simp add: readOutcome_def)
  next
    case 2
    let ?r = "min k (length (el_buf ?h))"
    let ?b = "b\<lparr>bf_store := (bf_store b)[bf_head b := ?h\<lparr>el_buf := drop ?r (el_buf ?h)\<rparr>]\<rparr>"
    have inv: "buffer_inv ?b" using less.prems by (auto simp: buffer_inv_def nth_list_update)
    have "buffer_content ?b = drop ?r (el_buf ?h) @ concat (map el_buf (drop (Suc (bf_head b)) (bf_store b)))"
      using content_head [OF inv] i by simp
    then have cb: "buffer_content ?b = drop ?r (buffer_content b)" unfolding c by simp
    have e: "take ?r (el_buf ?h) @ take (k - ?r) (buffer_content ?b) = take k (buffer_content b)"
      unfolding cb c by (simp add: min_def take_drop)
    then have oc: "readOutcome (bf_closed b) (k - ?r) (buffer_content ?b) (out @ take ?r (el_buf ?h))
        = readOutcome (bf_closed b) k (buffer_content b) out" using 2 c by (simp add: readOutcome_def)
    have d: "drop (k - ?r) (buffer_content ?b) = drop k (buffer_content b)" unfolding cb by simp
    have m: "2 * (bf_tail ?b - bf_head ?b) + (k - ?r) < 2 * (bf_tail b - bf_head b) + k" using 2 by simp
    from less.hyps [OF m inv, of "out @ take ?r (el_buf ?h)"] oc d show ?thesis
      using 2 by (subst readLoop.simps) (simp add: Let_def)
  next
    case 3
    let ?b = "b\<lparr>bf_head := Suc (bf_head b)\<rparr>"
    have n: "el_next ?h = Some (Suc (bf_head b))" and inv: "buffer_inv ?b"
      using less.prems 3 by (auto simp: buffer_inv_def)
    have cb: "buffer_content ?b = buffer_content b" using c 3 by (simp add: buffer_content_def)
    have m: "2 * (bf_tail ?b - bf_head ?b) + k < 2 * (bf_tail b - bf_head b) + k" using 3 i by simp
    from less.hyps [OF m inv, of out] cb n 3 show ?thesis by (subst readLoop.simps) (simp add: Let_def)
  next
    case 4
    then have "buffer_content b = []" using c i by simp
    with 4 less.prems show ?thesis by (subst readLoop.simps) (auto simp: Let_def readOutcome_def)
  qed
qed

interpretation buf: byte_queue newBuffer buffer_write buffer_eof buffer_Read buffer_inv buffer_content bf_closed
proof unfold_locales
  fix b k b' r
  assume i: "buffer_inv b"
  from readLoop_result [OF i, of k "[]"] show "\<exists>b' r. buffer_Read b k = Some (b', r)" by (auto simp: buffer_Read_def)
  assume "buffer_Read b k = Some (b', r)"
  with readLoop_result [OF i, of k "[]"] show "buffer_inv b' \<and> bf_closed b' = bf_closed b
      \<and> buffer_content b' = drop k (buffer_content b)
      \<and> r = readOutcome (bf_closed b) k (buffer_content b) []"
    by (auto simp: buffer_Read_def)
qed (simp_all add: write_inv write_content, simp_all add: buffer_inv_def buffer_content_def newBuffer_def buffer_eof_def buffer_write_def Let_def)

text \<open>(C17) The linked list is a stream: whatever is written, read and closed in whatever order, every \<open>Read\<close>
  returns or waits, the bytes read are a prefix of the bytes written, the rest is still in the buffer, and a
  further \<open>Read\<close> gives the next bytes, the end of the stream if it is closed and drained, or waits.\<close>

theorem buffer_is_a_stream:
  "\<exists>b out b'. buf.runOps newBuffer ops = Some (b, out) \<and> out @ buffer_content b = buf.written ops
     \<and> buffer_Read b k = Some (b', readOutcome (bf_closed b) k (buffer_content b) [])
     \<and> buffer_content b' = drop k (buffer_content b)"
proof -
  obtain b out where b: "buf.runOps newBuffer ops = Some (b, out)" "buffer_inv b" "out @ buffer_content b = buf.written ops"
    using buf.stream [OF buf.empty(1), of ops] buf.empty(2) by auto
  obtain b' r where r: "buffer_Read b k = Some (b', r)" using buf.read_returns [OF b(2)] by blast
  with b buf.get [OF b(2) r] show ?thesis by auto
qed

end
