(* ===== verification/Channel.thy ===== *)
theory Channel
  imports Buffer Message_Types Negotiation Server_Auth
begin

text \<open>
  Channels (\<^verbatim>\<open>channel.go\<close>) and the list in which the multiplexer keeps them (\<^verbatim>\<open>chanList\<close> of
  \<^verbatim>\<open>mux.go\<close>). Channel objects live in a store and are referred to by their position, since the
  application keeps using a channel after the multiplexer has forgotten it. Each method runs under the locks
  of the channel, so it is one function from state to state. The Go channels \<^verbatim>\<open>msg\<close> and
  \<^verbatim>\<open>incomingRequests\<close> are queues; their capacity only delays the goroutine that sends. The buffers that
  \<^verbatim>\<open>packetPool\<close> recycles carry no state from one packet to the next and are left out.
\<close>

section \<open>State\<close>

definition minPacketLength :: uint32 where
  "minPacketLength = 9"

definition channelMaxPacket :: uint32 where
  "channelMaxPacket = 2 ^ 15"

definition channelWindowSize :: uint32 where
  "channelWindowSize = 64 * channelMaxPacket"

datatype channelDirection = ChannelInbound | ChannelOutbound

text \<open>\<open>req_ch\<close> is the channel of the request, or none for a global request.\<close>

record Request =
  req_Type :: string
  req_WantReply :: bool
  req_Payload :: bytes
  req_ch :: "nat option"

record channel =
  cn_chanType :: string
  cn_extraData :: bytes
  cn_localId :: uint32
  cn_remoteId :: uint32
  cn_maxIncomingPayload :: uint32
  cn_maxRemotePayload :: uint32
  cn_decided :: bool
  cn_direction :: channelDirection
  cn_msg :: "message list"
  cn_incomingRequests :: "Request list"
  cn_closed :: bool
  cn_sentEOF :: bool
  cn_remoteWin :: window
  cn_pending :: buffer
  cn_extPending :: buffer
  cn_myWindow :: uint32
  cn_sentClose :: bool

record chanList =
  cl_chans :: "nat option list"
  cl_offset :: uint32

record mux =
  mx_conn :: pktIO
  mx_store :: "channel list"
  mx_chanList :: chanList
  mx_incomingChannels :: "nat list"
  mx_globalResponses :: "message list"
  mx_incomingRequests :: "Request list"
  mx_closed :: bool
  mx_err :: "goerr option"

abbreviation ch_at :: "mux \<Rightarrow> nat \<Rightarrow> channel" where
  "ch_at m r \<equiv> mx_store m ! r"

definition upd_ch :: "mux \<Rightarrow> nat \<Rightarrow> (channel \<Rightarrow> channel) \<Rightarrow> mux" where
  "upd_ch m r f = m\<lparr>mx_store := (mx_store m)[r := f (ch_at m r)]\<rparr>"

section \<open>The list of channels\<close>

fun firstNil :: "nat option list \<Rightarrow> nat" where
  "firstNil [] = 0"
| "firstNil (None # cs) = 0"
| "firstNil (Some c # cs) = Suc (firstNil cs)"

text \<open>The first free slot is used, or a new one is appended.\<close>

definition chanList_add :: "chanList \<Rightarrow> nat \<Rightarrow> chanList \<times> uint32" where
  "chanList_add c ch =
     (let i = firstNil (cl_chans c)
      in (c\<lparr>cl_chans := (if i < length (cl_chans c) then (cl_chans c)[i := Some ch] else cl_chans c @ [Some ch])\<rparr>,
          of_nat i + cl_offset c))"

definition chanList_getChan :: "chanList \<Rightarrow> uint32 \<Rightarrow> nat option" where
  "chanList_getChan c i =
     (let i = i - cl_offset c in if i < of_nat (length (cl_chans c)) then cl_chans c ! unat i else None)"

definition chanList_remove :: "chanList \<Rightarrow> uint32 \<Rightarrow> chanList" where
  "chanList_remove c i =
     (let i = i - cl_offset c
      in if i < of_nat (length (cl_chans c)) then c\<lparr>cl_chans := (cl_chans c)[unat i := None]\<rparr> else c)"

fun liveChans :: "nat option list \<Rightarrow> nat list" where
  "liveChans [] = []"
| "liveChans (None # cs) = liveChans cs"
| "liveChans (Some c # cs) = c # liveChans cs"

definition chanList_dropAll :: "chanList \<Rightarrow> chanList \<times> nat list" where
  "chanList_dropAll c = (c\<lparr>cl_chans := []\<rparr>, liveChans (cl_chans c))"

section \<open>Sending\<close>

definition channel_writePacket :: "mux \<Rightarrow> nat \<Rightarrow> bytes \<Rightarrow> mux \<times> unit res" where
  "channel_writePacket m r packet =
     (if cn_sentClose (ch_at m r) then (m, Err EOF)
      else case index packet 0 of
        Ok b \<Rightarrow> (let m = upd_ch m r (\<lambda>c. c\<lparr>cn_sentClose := (b = msgChannelClose)\<rparr>);
                      (io, e) = writePkt (mx_conn m) packet
                  in (m\<lparr>mx_conn := io\<rparr>, e))
      | Err e \<Rightarrow> (m, Err e)
      | Panic p \<Rightarrow> (m, Panic p))"

text \<open>\<^verbatim>\<open>binary.BigEndian.PutUint32(p[1:], c.remoteId)\<close>\<close>

definition putId :: "bytes \<Rightarrow> uint32 \<Rightarrow> bytes res" where
  "putId p i = (if length p < 5 then Panic ''index out of range'' else Ok (take 1 p @ be32 i @ drop 5 p))"

definition channel_sendMessage :: "mux \<Rightarrow> nat \<Rightarrow> bytes res \<Rightarrow> mux \<times> unit res" where
  "channel_sendMessage m r msg = (case rbind msg (\<lambda>p. putId p (cn_remoteId (ch_at m r))) of
       Ok p \<Rightarrow> channel_writePacket m r p
     | Err e \<Rightarrow> (m, Err e)
     | Panic p \<Rightarrow> (m, Panic p))"

definition minLen :: "uint32 \<Rightarrow> nat \<Rightarrow> uint32" where
  "minLen a b = (if a < of_nat b then a else of_nat b)"

definition dataPacket :: "uint32 \<Rightarrow> uint32 \<Rightarrow> bytes \<Rightarrow> bytes" where
  "dataPacket remoteId extendedCode todo =
     (if extendedCode > 0 then [msgChannelExtendedData] @ be32 remoteId @ be32 extendedCode
      else [msgChannelData] @ be32 remoteId) @ be32 (of_nat (length todo)) @ todo"

text \<open>
  While a writer runs, the peer's window messages arrive: \<open>evs\<close> is what happens to the window before each
  attempt to reserve. A writer that finds the window empty after the last of them waits.
\<close>

datatype winEvent = WinAdjust uint32 | WinClose

datatype writeRes = Wrote nat "goerr option" | WriteWaits nat | WriteCrash string

definition winEvents :: "winEvent list \<Rightarrow> window \<Rightarrow> window" where
  "winEvents evs w = foldl (\<lambda>w e. case e of WinAdjust n \<Rightarrow> fst (window_add w n) | WinClose \<Rightarrow> window_close w) w evs"

partial_function (option) writeLoop :: "mux \<Rightarrow> nat \<Rightarrow> uint32 \<Rightarrow> bytes \<Rightarrow> nat \<Rightarrow> winEvent list list \<Rightarrow> (mux \<times> writeRes) option" where
  "writeLoop m r ext data n evs =
     (if data = [] then Some (m, Wrote n None)
      else let m = (case evs of [] \<Rightarrow> m | es # _ \<Rightarrow> upd_ch m r (\<lambda>c. c\<lparr>cn_remoteWin := winEvents es (cn_remoteWin c)\<rparr>));
               space = minLen (cn_maxRemotePayload (ch_at m r)) (length data)
           in case window_reserve (cn_remoteWin (ch_at m r)) space of
                None \<Rightarrow> (case evs of [] \<Rightarrow> Some (m, WriteWaits n) | _ # evs \<Rightarrow> writeLoop m r ext data n evs)
              | Some (w, space, err) \<Rightarrow>
                  let m = upd_ch m r (\<lambda>c. c\<lparr>cn_remoteWin := w\<rparr>) in
                  if err \<noteq> None then Some (m, Wrote n err)
                  else let todo = take (unat space) data;
                           (m, e) = channel_writePacket m r (dataPacket (cn_remoteId (ch_at m r)) ext todo)
                    in case e of
                         Ok _ \<Rightarrow> writeLoop m r ext (drop (length todo) data) (n + length todo) (tl evs)
                       | Err e \<Rightarrow> Some (m, Wrote n (Some e))
                       | Panic p \<Rightarrow> Some (m, WriteCrash p))"

definition WriteExtended :: "mux \<Rightarrow> nat \<Rightarrow> bytes \<Rightarrow> uint32 \<Rightarrow> winEvent list list \<Rightarrow> (mux \<times> writeRes) option" where
  "WriteExtended m r data extendedCode evs =
     (if cn_sentEOF (ch_at m r) then Some (m, Wrote 0 (Some EOF)) else writeLoop m r extendedCode data 0 evs)"

section \<open>Receiving\<close>

definition tooLarge :: goerr where
  "tooLarge = ErrNew ''ssh: incoming packet exceeds maximum payload size''"

definition handleData :: "channel \<Rightarrow> bytes \<Rightarrow> channel \<times> unit res" where
  "handleData c packet = (case index packet 0 of
       Panic p \<Rightarrow> (c, Panic p) | Err e \<Rightarrow> (c, Err e)
     | Ok t \<Rightarrow>
        (let isExtendedData = (t = msgChannelExtendedData);
             headerLen = (if isExtendedData then 13 else 9)
         in if length packet < headerLen then (c, Err (parseError t))
            else let extended = (if isExtendedData then get32 (drop 5 packet) else 0);
                     len = get32 (drop (headerLen - 4) packet)
            in if len = 0 then (c, Ok ())
               else if len > cn_maxIncomingPayload c then (c, Err tooLarge)
               else let data = drop headerLen packet in
                 if len \<noteq> of_nat (length data) then (c, Err (ErrNew ''ssh: wrong packet length''))
                 else if cn_myWindow c < len then (c, Err (ErrNew ''ssh: remote side wrote too much''))
                 else let c = c\<lparr>cn_myWindow := cn_myWindow c - len\<rparr> in
                   if extended = 1 then (c\<lparr>cn_extPending := buffer_write (cn_extPending c) data\<rparr>, Ok ())
                   else if extended > 0 then (c, Ok ())
                   else (c\<lparr>cn_pending := buffer_write (cn_pending c) data\<rparr>, Ok ())))"

definition adjustWindow :: "mux \<Rightarrow> nat \<Rightarrow> uint32 \<Rightarrow> mux \<times> unit res" where
  "adjustWindow m r n =
     (let m = upd_ch m r (\<lambda>c. c\<lparr>cn_myWindow := cn_myWindow c + n\<rparr>)
      in channel_sendMessage m r (Marshal windowAdjustMsg_T (windowAdjustMsg_vals
           \<lparr>windowAdjustMsg_PeersId = 0, windowAdjustMsg_AdditionalBytes = n\<rparr>)))"

text \<open>\<open>ChRead d e\<close>: the bytes read and the error; \<open>ChWaits\<close>: the reader waits for data.\<close>

datatype chanRead = ChRead bytes "goerr option" | ChWaits | ChCrash string

definition afterRead :: "mux \<Rightarrow> nat \<Rightarrow> readRes \<Rightarrow> mux \<times> chanRead" where
  "afterRead m r res = (case res of
       Waiting \<Rightarrow> (m, ChWaits)
     | Returned d err \<Rightarrow>
         if length d > 0 then (case adjustWindow m r (of_nat (length d)) of
             (m, Ok _) \<Rightarrow> (m, ChRead d None)
           | (m, Err e) \<Rightarrow> (m, ChRead d (if e = EOF then None else Some e))
           | (m, Panic p) \<Rightarrow> (m, ChCrash p))
         else (m, ChRead d err))"

definition ReadExtended :: "mux \<Rightarrow> nat \<Rightarrow> nat \<Rightarrow> uint32 \<Rightarrow> (mux \<times> chanRead) option" where
  "ReadExtended m r k extended =
     (if extended = 1 then (case buffer_Read (cn_extPending (ch_at m r)) k of
          None \<Rightarrow> None | Some (b, res) \<Rightarrow> Some (afterRead (upd_ch m r (\<lambda>c. c\<lparr>cn_extPending := b\<rparr>)) r res))
      else if extended = 0 then (case buffer_Read (cn_pending (ch_at m r)) k of
          None \<Rightarrow> None | Some (b, res) \<Rightarrow> Some (afterRead (upd_ch m r (\<lambda>c. c\<lparr>cn_pending := b\<rparr>)) r res))
      else Some (m, ChRead [] (Some (Errorf ''ssh: extended code %d unimplemented'' [AInt (uint extended)]))))"

definition channel_close :: "channel \<Rightarrow> channel" where
  "channel_close c = c\<lparr>cn_pending := buffer_eof (cn_pending c), cn_extPending := buffer_eof (cn_extPending c),
     cn_closed := True, cn_sentClose := True, cn_remoteWin := window_close (cn_remoteWin c)\<rparr>"

text \<open>\<^verbatim>\<open>close(c.msg)\<close> of a Go channel that is closed already is a panic.\<close>

definition closeChan :: "mux \<Rightarrow> nat \<Rightarrow> mux \<times> unit res" where
  "closeChan m r = (if cn_closed (ch_at m r) then (m, Panic ''close of closed channel'')
     else (upd_ch m r channel_close, Ok ()))"

definition responseMessageReceived :: "channel \<Rightarrow> channel \<times> unit res" where
  "responseMessageReceived c =
     (if cn_direction c = ChannelInbound then (c, Err (ErrNew ''ssh: channel response message received on inbound channel''))
      else if cn_decided c then (c, Err (ErrNew ''ssh: duplicate response received for channel''))
      else (c\<lparr>cn_decided := True\<rparr>, Ok ()))"

definition invalidMaxPacket :: "uint32 \<Rightarrow> bool" where
  "invalidMaxPacket n \<longleftrightarrow> n < minPacketLength \<or> n > 2 ^ 31"

text \<open>\<^verbatim>\<open>c.msg <- msg\<close>: sending on a closed Go channel is a panic.\<close>

definition sendMsg :: "mux \<Rightarrow> nat \<Rightarrow> message \<Rightarrow> mux \<times> unit res" where
  "sendMsg m r msg = (if cn_closed (ch_at m r) then (m, Panic ''send on closed channel'')
     else (upd_ch m r (\<lambda>c. c\<lparr>cn_msg := cn_msg c @ [msg]\<rparr>), Ok ()))"

definition handleDecoded :: "mux \<Rightarrow> nat \<Rightarrow> message \<Rightarrow> mux \<times> unit res" where
  "handleDecoded m r msg = (case msg of
       MChannelOpenFailureMsg f \<Rightarrow> (case responseMessageReceived (ch_at m r) of
           (c, Ok _) \<Rightarrow> (let m = upd_ch m r (\<lambda>_. c)
              in sendMsg (m\<lparr>mx_chanList := chanList_remove (mx_chanList m) (channelOpenFailureMsg_PeersId f)\<rparr>) r msg)
         | (c, e) \<Rightarrow> (m, e))
     | MChannelOpenConfirmMsg f \<Rightarrow> (case responseMessageReceived (ch_at m r) of
           (c, Ok _) \<Rightarrow>
             if invalidMaxPacket (channelOpenConfirmMsg_MaxPacketSize f)
             then (upd_ch m r (\<lambda>_. c), Err (Errorf ''ssh: invalid MaxPacketSize %d from peer'' [AInt (uint (channelOpenConfirmMsg_MaxPacketSize f))]))
             else sendMsg (upd_ch m r (\<lambda>_. c\<lparr>cn_remoteId := channelOpenConfirmMsg_MyId f,
                 cn_maxRemotePayload := channelOpenConfirmMsg_MaxPacketSize f,
                 cn_remoteWin := fst (window_add (cn_remoteWin c) (channelOpenConfirmMsg_MyWindow f))\<rparr>)) r msg
         | (c, e) \<Rightarrow> (m, e))
     | MWindowAdjustMsg f \<Rightarrow> (case window_add (cn_remoteWin (ch_at m r)) (windowAdjustMsg_AdditionalBytes f) of
           (w, True) \<Rightarrow> (upd_ch m r (\<lambda>c. c\<lparr>cn_remoteWin := w\<rparr>), Ok ())
         | (w, False) \<Rightarrow> (m, Err (Errorf ''ssh: invalid window update for %d bytes'' [AInt (uint (windowAdjustMsg_AdditionalBytes f))])))
     | MChannelRequestMsg f \<Rightarrow>
         if cn_closed (ch_at m r) then (m, Panic ''send on closed channel'')
         else (upd_ch m r (\<lambda>c. c\<lparr>cn_incomingRequests := cn_incomingRequests c @ [\<lparr>req_Type = channelRequestMsg_Request f,
           req_WantReply = channelRequestMsg_WantReply f, req_Payload = channelRequestMsg_RequestSpecificData f, req_ch = Some r\<rparr>]\<rparr>), Ok ())
     | _ \<Rightarrow> sendMsg m r msg)"

definition closeMsg :: "mux \<Rightarrow> nat \<Rightarrow> bytes res" where
  "closeMsg m r = Marshal channelCloseMsg_T (channelCloseMsg_vals \<lparr>channelCloseMsg_PeersId = cn_remoteId (ch_at m r)\<rparr>)"

definition handlePacket :: "mux \<Rightarrow> nat \<Rightarrow> bytes \<Rightarrow> mux \<times> unit res" where
  "handlePacket m r packet = (case index packet 0 of
       Panic p \<Rightarrow> (m, Panic p) | Err e \<Rightarrow> (m, Err e)
     | Ok t \<Rightarrow>
        if t = msgChannelData \<or> t = msgChannelExtendedData then
          (case handleData (ch_at m r) packet of (c, e) \<Rightarrow> (upd_ch m r (\<lambda>_. c), e))
        else if t = msgChannelClose then
          (case channel_sendMessage m r (closeMsg m r) of
             (m, Panic p) \<Rightarrow> (m, Panic p)
           | (m, _) \<Rightarrow> closeChan (m\<lparr>mx_chanList := chanList_remove (mx_chanList m) (cn_localId (ch_at m r))\<rparr>) r)
        else if t = msgChannelEOF then
          (upd_ch m r (\<lambda>c. c\<lparr>cn_extPending := buffer_eof (cn_extPending c), cn_pending := buffer_eof (cn_pending c)\<rparr>), Ok ())
        else (case decode packet of
             Ok msg \<Rightarrow> handleDecoded m r msg
           | Err e \<Rightarrow> (m, Err e)
           | Panic p \<Rightarrow> (m, Panic p)))"

section \<open>Methods of the application\<close>

definition errUndecided :: goerr where
  "errUndecided = ErrNew ''ssh: must Accept or Reject channel''"

definition errDecidedAlready :: goerr where
  "errDecidedAlready = ErrNew ''ssh: can call Accept or Reject only once''"

text \<open>\<open>newChannel\<close> allocates the object and gives it the first free identifier.\<close>

definition newWindow :: window where
  "newWindow = \<lparr>w_win = 0, w_writeWaiters = 0, w_closed = False\<rparr>"

definition newChannel :: "mux \<Rightarrow> string \<Rightarrow> channelDirection \<Rightarrow> bytes \<Rightarrow> mux \<times> nat" where
  "newChannel m chanType direction extraData =
     (let r = length (mx_store m);
          (cl, i) = chanList_add (mx_chanList m) r;
          ch = \<lparr>cn_chanType = chanType, cn_extraData = extraData, cn_localId = i, cn_remoteId = 0, cn_maxIncomingPayload = 0,
            cn_maxRemotePayload = 0, cn_decided = False, cn_direction = direction, cn_msg = [], cn_incomingRequests = [],
            cn_closed = False, cn_sentEOF = False, cn_remoteWin = newWindow, cn_pending = newBuffer, cn_extPending = newBuffer,
            cn_myWindow = channelWindowSize, cn_sentClose = False\<rparr>
      in (m\<lparr>mx_store := mx_store m @ [ch], mx_chanList := cl\<rparr>, r))"

definition Accept :: "mux \<Rightarrow> nat \<Rightarrow> mux \<times> unit res" where
  "Accept m r =
     (if cn_decided (ch_at m r) then (m, Err errDecidedAlready)
      else let m = upd_ch m r (\<lambda>c. c\<lparr>cn_maxIncomingPayload := channelMaxPacket, cn_decided := True\<rparr>);
               c = ch_at m r
        in channel_sendMessage m r (Marshal channelOpenConfirmMsg_T (channelOpenConfirmMsg_vals
             \<lparr>channelOpenConfirmMsg_PeersId = cn_remoteId c, channelOpenConfirmMsg_MyId = cn_localId c,
              channelOpenConfirmMsg_MyWindow = cn_myWindow c, channelOpenConfirmMsg_MaxPacketSize = cn_maxIncomingPayload c,
              channelOpenConfirmMsg_TypeSpecificData = []\<rparr>)))"

definition Reject :: "mux \<Rightarrow> nat \<Rightarrow> uint32 \<Rightarrow> string \<Rightarrow> mux \<times> unit res" where
  "Reject m r reason message =
     (if cn_decided (ch_at m r) then (m, Err errDecidedAlready)
      else let m = upd_ch m r (\<lambda>c. c\<lparr>cn_decided := True\<rparr>)
        in channel_sendMessage m r (Marshal channelOpenFailureMsg_T (channelOpenFailureMsg_vals
             \<lparr>channelOpenFailureMsg_PeersId = cn_remoteId (ch_at m r), channelOpenFailureMsg_Reason = reason,
              channelOpenFailureMsg_Message = message, channelOpenFailureMsg_Language = ''en''\<rparr>)))"

definition channel_Read :: "mux \<Rightarrow> nat \<Rightarrow> nat \<Rightarrow> (mux \<times> chanRead) option" where
  "channel_Read m r k =
     (if \<not> cn_decided (ch_at m r) then Some (m, ChRead [] (Some errUndecided)) else ReadExtended m r k 0)"

definition channel_Write :: "mux \<Rightarrow> nat \<Rightarrow> bytes \<Rightarrow> winEvent list list \<Rightarrow> (mux \<times> writeRes) option" where
  "channel_Write m r data evs =
     (if \<not> cn_decided (ch_at m r) then Some (m, Wrote 0 (Some errUndecided)) else WriteExtended m r data 0 evs)"

definition CloseWrite :: "mux \<Rightarrow> nat \<Rightarrow> mux \<times> unit res" where
  "CloseWrite m r =
     (if \<not> cn_decided (ch_at m r) then (m, Err errUndecided)
      else let m = upd_ch m r (\<lambda>c. c\<lparr>cn_sentEOF := True\<rparr>)
        in channel_sendMessage m r (Marshal channelEOFMsg_T (channelEOFMsg_vals \<lparr>channelEOFMsg_PeersId = cn_remoteId (ch_at m r)\<rparr>)))"

definition channel_Close :: "mux \<Rightarrow> nat \<Rightarrow> mux \<times> unit res" where
  "channel_Close m r =
     (if \<not> cn_decided (ch_at m r) then (m, Err errUndecided) else channel_sendMessage m r (closeMsg m r))"

text \<open>
  \<open>SendRequest\<close> is the part that sends; \<open>awaitResponse\<close> is the receive from \<^verbatim>\<open>ch.msg\<close> that follows when a reply
  is wanted, with no result while the queue is empty and open.
\<close>

definition channel_SendRequest :: "mux \<Rightarrow> nat \<Rightarrow> string \<Rightarrow> bool \<Rightarrow> bytes \<Rightarrow> mux \<times> unit res" where
  "channel_SendRequest m r name wantReply payload =
     (if \<not> cn_decided (ch_at m r) then (m, Err errUndecided)
      else channel_sendMessage m r (Marshal channelRequestMsg_T (channelRequestMsg_vals
         \<lparr>channelRequestMsg_PeersId = cn_remoteId (ch_at m r), channelRequestMsg_Request = name,
          channelRequestMsg_WantReply = wantReply, channelRequestMsg_RequestSpecificData = payload\<rparr>)))"

definition awaitResponse :: "mux \<Rightarrow> nat \<Rightarrow> (mux \<times> bool res) option" where
  "awaitResponse m r = (case cn_msg (ch_at m r) of
       [] \<Rightarrow> if cn_closed (ch_at m r) then Some (m, Err EOF) else None
     | msg # rest \<Rightarrow>
        (let m = upd_ch m r (\<lambda>c. c\<lparr>cn_msg := rest\<rparr>)
         in Some (m, case msg of
              MChannelRequestFailureMsg _ \<Rightarrow> Ok False
            | MChannelRequestSuccessMsg _ \<Rightarrow> Ok True
            | _ \<Rightarrow> Err (ErrNew ''ssh: unexpected response to channel request''))))"

definition channel_ackRequest :: "mux \<Rightarrow> nat \<Rightarrow> bool \<Rightarrow> mux \<times> unit res" where
  "channel_ackRequest m r ok =
     (if \<not> cn_decided (ch_at m r) then (m, Err errUndecided)
      else channel_sendMessage m r
        (if \<not> ok then Marshal channelRequestFailureMsg_T (channelRequestFailureMsg_vals \<lparr>channelRequestFailureMsg_PeersId = cn_remoteId (ch_at m r)\<rparr>)
         else Marshal channelRequestSuccessMsg_T (channelRequestSuccessMsg_vals \<lparr>channelRequestSuccessMsg_PeersId = cn_remoteId (ch_at m r)\<rparr>)))"

section \<open>Data written\<close>

text \<open>The payload of a data packet, as the receiver reads it.\<close>

definition payloads :: "bytes list \<Rightarrow> bytes list \<Rightarrow> bytes \<Rightarrow> uint32 \<Rightarrow> uint32 \<Rightarrow> uint32 \<Rightarrow> bool" where
  "payloads out out' data remoteId ext maxp \<longleftrightarrow> (\<exists>chunks. out' = out @ map (dataPacket remoteId ext) chunks \<and> concat chunks = data
     \<and> (\<forall>c\<in>set chunks. c \<noteq> [] \<and> length c \<le> unat maxp))"

lemma upd_ch_at [simp]: "r < length (mx_store m) \<Longrightarrow> ch_at (upd_ch m r f) r = f (ch_at m r)"
  by (simp add: upd_ch_def)

lemma upd_ch_frame [simp]:
  "length (mx_store (upd_ch m r f)) = length (mx_store m)" "mx_conn (upd_ch m r f) = mx_conn m" "mx_chanList (upd_ch m r f) = mx_chanList m"
  "r \<noteq> s \<Longrightarrow> ch_at (upd_ch m r f) s = ch_at m s"
  by (simp_all add: upd_ch_def)

lemma writePkt_Ok: "writePkt io p = (io', Ok u) \<Longrightarrow> io_out io' = io_out io @ [p]"
  by (auto simp: writePkt_def split: list.splits option.splits)

lemma writePkt_not_Ok: "writePkt io p = (io', e) \<Longrightarrow> e \<noteq> Ok () \<Longrightarrow> io_out io' = io_out io"
  by (auto simp: writePkt_def split: list.splits option.splits)

lemma dataPacket_index [simp]: "index (dataPacket i e d) 0 = Ok (if e > 0 then msgChannelExtendedData else msgChannelData)"
  by (simp add: dataPacket_def index_def)

lemma minLen_bounds: "unat (minLen a n) \<le> unat a" "unat (minLen a n) \<le> n" "0 < unat a \<Longrightarrow> 0 < n \<Longrightarrow> n < 2 ^ 32 \<Longrightarrow> 0 < unat (minLen a n)"
proof -
  have u: "unat (of_nat n :: uint32) \<le> n" by (simp add: unat_of_nat)
  then show "unat (minLen a n) \<le> unat a" "unat (minLen a n) \<le> n" by (auto simp: minLen_def word_less_nat_alt)
  show "0 < unat a \<Longrightarrow> 0 < n \<Longrightarrow> n < 2 ^ 32 \<Longrightarrow> 0 < unat (minLen a n)" by (simp add: minLen_def unat_of_nat)
qed


text \<open>What the peer has granted while the writer ran.\<close>

definition granted :: "winEvent list list \<Rightarrow> nat" where
  "granted evs = sum_list (map (\<lambda>e. case e of WinAdjust n \<Rightarrow> unat n | WinClose \<Rightarrow> 0) (concat evs))"

lemma granted_Nil [simp]: "granted [] = 0"
  by (simp add: granted_def)

lemma granted_Cons: "granted (es # evs) = granted [es] + granted evs"
  by (simp add: granted_def)

lemma winEvents_bound: "unat (w_win (winEvents es w)) \<le> unat (w_win w) + granted [es]"
proof (induction es arbitrary: w)
  case (Cons e es)
  let ?w = "case e of WinAdjust n \<Rightarrow> fst (window_add w n) | WinClose \<Rightarrow> window_close w"
  have "unat (w_win ?w) \<le> unat (w_win w) + granted [[e]]"
  proof (cases e)
    case (WinAdjust n)
    obtain w' ok where "window_add w n = (w', ok)" by (cases "window_add w n")
    with window_add_spec(2) [OF this] WinAdjust show ?thesis by (simp add: granted_def)
  qed (simp add: window_close_def granted_def)
  with Cons.IH [of ?w] show ?case by (simp add: winEvents_def granted_def)
qed (simp add: winEvents_def)

definition write_ok :: "mux \<Rightarrow> nat \<Rightarrow> uint32 \<Rightarrow> bytes \<Rightarrow> nat \<Rightarrow> winEvent list list \<Rightarrow> mux \<Rightarrow> writeRes \<Rightarrow> bool" where
  "write_ok m r ext data n evs m' res \<longleftrightarrow> (\<exists>k\<le>length data.
      payloads (io_out (mx_conn m)) (io_out (mx_conn m')) (take k data) (cn_remoteId (ch_at m r)) ext (cn_maxRemotePayload (ch_at m r))
    \<and> unat (w_win (cn_remoteWin (ch_at m' r))) + k \<le> unat (w_win (cn_remoteWin (ch_at m r))) + granted evs
    \<and> (case res of Wrote n' e \<Rightarrow> n' = n + k \<and> (e = None \<longrightarrow> k = length data) | WriteWaits n' \<Rightarrow> n' = n + k | WriteCrash _ \<Rightarrow> False))"

lemma payloads_none: "payloads out out [] i e p"
  by (simp add: payloads_def)

lemma payloads_Cons:
  assumes "payloads (out @ [dataPacket i e c]) out' d i e p" "c \<noteq> []" "length c \<le> unat p"
  shows "payloads out out' (c @ d) i e p"
proof -
  obtain cs where "out' = (out @ [dataPacket i e c]) @ map (dataPacket i e) cs" "concat cs = d"
    "\<forall>c\<in>set cs. c \<noteq> [] \<and> length c \<le> unat p" using assms(1) by (auto simp: payloads_def)
  then have "out' = out @ map (dataPacket i e) (c # cs) \<and> concat (c # cs) = c @ d \<and> (\<forall>c\<in>set (c # cs). c \<noteq> [] \<and> length c \<le> unat p)"
    using assms(2,3) by simp
  then show ?thesis unfolding payloads_def by blast
qed

text \<open>One attempt to reserve and write, once the window events have been applied.\<close>

lemma write_ok_stop:
  assumes "io_out (mx_conn m') = io_out (mx_conn m)"
    and "unat (w_win (cn_remoteWin (ch_at m' r))) \<le> unat (w_win (cn_remoteWin (ch_at m r))) + granted evs"
    and "(\<exists>e. res = Wrote n (Some e)) \<or> res = WriteWaits n \<or> res = Wrote n None \<and> data = []"
  shows "write_ok m r ext data n evs m' res"
  unfolding write_ok_def using assms by (intro exI [of _ 0]) (auto simp: payloads_none)

lemma write_ok_go:
  assumes "write_ok m1 r ext (drop k data) (n + k) evs' m' res"
    and "io_out (mx_conn m1) = io_out (mx_conn m) @ [dataPacket (cn_remoteId (ch_at m r)) ext (take k data)]"
    and "cn_remoteId (ch_at m1 r) = cn_remoteId (ch_at m r)" "cn_maxRemotePayload (ch_at m1 r) = cn_maxRemotePayload (ch_at m r)"
    and "unat (w_win (cn_remoteWin (ch_at m1 r))) + k + granted evs' \<le> unat (w_win (cn_remoteWin (ch_at m r))) + granted evs"
    and "0 < k" "k \<le> length data" "k \<le> unat (cn_maxRemotePayload (ch_at m r))"
  shows "write_ok m r ext data n evs m' res"
proof -
  obtain j where j: "j \<le> length (drop k data)"
    "payloads (io_out (mx_conn m1)) (io_out (mx_conn m')) (take j (drop k data)) (cn_remoteId (ch_at m1 r)) ext (cn_maxRemotePayload (ch_at m1 r))"
    "unat (w_win (cn_remoteWin (ch_at m' r))) + j \<le> unat (w_win (cn_remoteWin (ch_at m1 r))) + granted evs'"
    "case res of Wrote n' e \<Rightarrow> n' = n + k + j \<and> (e = None \<longrightarrow> j = length (drop k data)) | WriteWaits n' \<Rightarrow> n' = n + k + j | WriteCrash _ \<Rightarrow> False"
    using assms(1) by (auto simp: write_ok_def)
  have "take (k + j) data = take k data @ take j (drop k data)" by (simp add: take_add)
  moreover have "payloads (io_out (mx_conn m)) (io_out (mx_conn m')) (take k data @ take j (drop k data))
      (cn_remoteId (ch_at m r)) ext (cn_maxRemotePayload (ch_at m r))"
    by (rule payloads_Cons) (use j(2) assms(2-4,6-8) in auto)
  ultimately have "payloads (io_out (mx_conn m)) (io_out (mx_conn m')) (take (k + j) data) (cn_remoteId (ch_at m r)) ext (cn_maxRemotePayload (ch_at m r))"
    by simp
  with j assms(5,7) show ?thesis
    unfolding write_ok_def by (intro exI [of _ "k + j"]) (auto split: writeRes.splits)
qed

lemma channel_writePacket_data:
  assumes "r < length (mx_store m)" "channel_writePacket m r (dataPacket i ext d) = (m', e)"
  shows "(e = Ok () \<and> io_out (mx_conn m') = io_out (mx_conn m) @ [dataPacket i ext d])
       \<or> (\<exists>x. e = Err x \<and> io_out (mx_conn m') = io_out (mx_conn m))"
    "\<exists>b. ch_at m' r = (ch_at m r)\<lparr>cn_sentClose := b\<rparr>" "length (mx_store m') = length (mx_store m)"
proof -
  obtain io x where io: "writePkt (mx_conn m) (dataPacket i ext d) = (io, x)" by (cases "writePkt (mx_conn m) (dataPacket i ext d)")
  have np: "x = Ok () \<or> (\<exists>y. x = Err y)" using io by (auto simp: writePkt_def split: list.splits option.splits)
  show "(e = Ok () \<and> io_out (mx_conn m') = io_out (mx_conn m) @ [dataPacket i ext d])
       \<or> (\<exists>x. e = Err x \<and> io_out (mx_conn m') = io_out (mx_conn m))"
    using assms(2) io np writePkt_Ok [of "mx_conn m"] writePkt_not_Ok [OF io]
    by (auto simp: channel_writePacket_def Let_def split: if_splits)
  show "\<exists>b. ch_at m' r = (ch_at m r)\<lparr>cn_sentClose := b\<rparr>"
  proof (cases "cn_sentClose (ch_at m r)")
    case True
    then have "m' = m" using assms(2) by (simp add: channel_writePacket_def)
    then show ?thesis by (intro exI [of _ "cn_sentClose (ch_at m r)"]) simp
  qed (use assms io in \<open>auto simp: channel_writePacket_def Let_def\<close>)
  show "length (mx_store m') = length (mx_store m)"
    using assms io by (auto simp: channel_writePacket_def Let_def split: if_splits)
qed

text \<open>The state when the window events before an attempt have been applied, and the attempt itself.\<close>

definition afterEvents :: "mux \<Rightarrow> nat \<Rightarrow> winEvent list list \<Rightarrow> mux" where
  "afterEvents m r evs = (case evs of [] \<Rightarrow> m | es # _ \<Rightarrow> upd_ch m r (\<lambda>c. c\<lparr>cn_remoteWin := winEvents es (cn_remoteWin c)\<rparr>))"

lemma afterEvents_frame:
  assumes "r < length (mx_store m)"
  shows "length (mx_store (afterEvents m r evs)) = length (mx_store m)" "mx_conn (afterEvents m r evs) = mx_conn m"
    "cn_remoteId (ch_at (afterEvents m r evs) r) = cn_remoteId (ch_at m r)"
    "cn_maxRemotePayload (ch_at (afterEvents m r evs) r) = cn_maxRemotePayload (ch_at m r)"
    "unat (w_win (cn_remoteWin (ch_at (afterEvents m r evs) r))) + granted (tl evs) \<le> unat (w_win (cn_remoteWin (ch_at m r))) + granted evs"
proof -
  show "unat (w_win (cn_remoteWin (ch_at (afterEvents m r evs) r))) + granted (tl evs) \<le> unat (w_win (cn_remoteWin (ch_at m r))) + granted evs"
  proof (cases evs)
    case (Cons es evs')
    with winEvents_bound [of es "cn_remoteWin (ch_at m r)"] assms show ?thesis by (simp add: afterEvents_def granted_Cons [of es evs'])
  qed (simp add: afterEvents_def)
qed (use assms in \<open>simp_all add: afterEvents_def split: list.splits\<close>)

lemma writeLoop_waits:
  assumes "data \<noteq> []" "window_reserve (cn_remoteWin (ch_at (afterEvents m r evs) r)) (minLen (cn_maxRemotePayload (ch_at (afterEvents m r evs) r)) (length data)) = None"
  shows "writeLoop m r ext data n evs
    = (case evs of [] \<Rightarrow> Some (m, WriteWaits n) | _ # evs' \<Rightarrow> writeLoop (afterEvents m r evs) r ext data n evs')"
  using assms by (subst writeLoop.simps) (simp add: afterEvents_def Let_def split: list.splits)

lemma writeLoop_reserved:
  assumes "data \<noteq> []" "window_reserve (cn_remoteWin (ch_at (afterEvents m r evs) r)) (minLen (cn_maxRemotePayload (ch_at (afterEvents m r evs) r)) (length data)) = Some (w, k, err)"
    and "m2 = upd_ch (afterEvents m r evs) r (\<lambda>c. c\<lparr>cn_remoteWin := w\<rparr>)" "unat k \<le> length data"
  shows "writeLoop m r ext data n evs = (if err \<noteq> None then Some (m2, Wrote n err)
      else case channel_writePacket m2 r (dataPacket (cn_remoteId (ch_at m2 r)) ext (take (unat k) data)) of
        (m3, Ok _) \<Rightarrow> writeLoop m3 r ext (drop (unat k) data) (n + unat k) (tl evs)
      | (m3, Err e) \<Rightarrow> Some (m3, Wrote n (Some e))
      | (m3, Panic p) \<Rightarrow> Some (m3, WriteCrash p))"
proof -
  have "length (take (unat k) data) = unat k" using assms(4) by simp
  with assms(1-3) show ?thesis
    by (subst writeLoop.simps) (simp add: afterEvents_def [symmetric] Let_def del: length_take split: prod.splits res.splits)
qed

lemma writeLoop_written:
  assumes r: "r < length (mx_store m)" and ne: "data \<noteq> []" "length data < 2 ^ 32" "0 < cn_maxRemotePayload (ch_at m r)"
    and res: "window_reserve (cn_remoteWin (ch_at (afterEvents m r evs) r)) (minLen (cn_maxRemotePayload (ch_at (afterEvents m r evs) r)) (length data)) = Some (w, k, err)"
    and rec: "\<And>m3. length (mx_store m3) = length (mx_store m) \<Longrightarrow> cn_maxRemotePayload (ch_at m3 r) = cn_maxRemotePayload (ch_at m r) \<Longrightarrow> 0 < unat k
      \<Longrightarrow> \<exists>m' res. writeLoop m3 r ext (drop (unat k) data) (n + unat k) (tl evs) = Some (m', res)
              \<and> write_ok m3 r ext (drop (unat k) data) (n + unat k) (tl evs) m' res"
  shows "\<exists>m' res. writeLoop m r ext data n evs = Some (m', res) \<and> write_ok m r ext data n evs m' res"
proof -
  let ?m1 = "afterEvents m r evs" and ?c = "ch_at m r" and ?space = "minLen (cn_maxRemotePayload (ch_at m r)) (length data)"
  note m1 = afterEvents_frame [OF r, of evs]
  note rs = window_reserve_spec [OF res [unfolded m1]]
  have sp: "0 < unat ?space" "unat ?space \<le> unat (cn_maxRemotePayload ?c)" "unat ?space \<le> length data"
    using minLen_bounds [of "cn_maxRemotePayload ?c" "length data"] ne by (simp_all add: unat_gt_0 word_greater_zero_iff)
  have kle: "unat k \<le> unat ?space" using rs(2) by (simp add: word_le_nat_alt)
  let ?m2 = "upd_ch ?m1 r (\<lambda>c. c\<lparr>cn_remoteWin := w\<rparr>)"
  have m2: "mx_conn ?m2 = mx_conn m" "cn_remoteId (ch_at ?m2 r) = cn_remoteId ?c" "length (mx_store ?m2) = length (mx_store m)"
    "cn_maxRemotePayload (ch_at ?m2 r) = cn_maxRemotePayload ?c" "cn_remoteWin (ch_at ?m2 r) = w"
    using m1 r by simp_all
  have w2: "unat (w_win w) + unat k + granted (tl evs) \<le> unat (w_win (cn_remoteWin ?c)) + granted evs" using m1(5) rs(1) by simp
  note unf = writeLoop_reserved [OF ne(1) res refl, of ext n, unfolded m2]
  show ?thesis
  proof (cases err)
    case (Some e)
    have "write_ok m r ext data n evs ?m2 (Wrote n err)" by (rule write_ok_stop) (use m2 w2 Some in auto)
    with unf Some kle sp(3) show ?thesis by simp
  next
    case None
    have "?space \<noteq> 0" using sp(1) by auto
    with rs(4) None have kpos: "0 < unat k" by (simp add: unat_gt_0)
    obtain m3 e where m3: "channel_writePacket ?m2 r (dataPacket (cn_remoteId ?c) ext (take (unat k) data)) = (m3, e)"
      by (cases "channel_writePacket ?m2 r (dataPacket (cn_remoteId ?c) ext (take (unat k) data))")
    note cw = channel_writePacket_data [OF _ m3, unfolded m2, OF r]
    have c3: "cn_remoteId (ch_at m3 r) = cn_remoteId ?c" "cn_maxRemotePayload (ch_at m3 r) = cn_maxRemotePayload ?c"
      "cn_remoteWin (ch_at m3 r) = w" using cw(2) m2 by auto
    from cw(1) show ?thesis
    proof
      assume ok: "e = Ok () \<and> io_out (mx_conn m3) = io_out (mx_conn m) @ [dataPacket (cn_remoteId ?c) ext (take (unat k) data)]"
      obtain m' res where h: "writeLoop m3 r ext (drop (unat k) data) (n + unat k) (tl evs) = Some (m', res)"
        "write_ok m3 r ext (drop (unat k) data) (n + unat k) (tl evs) m' res" using rec [OF cw(3) c3(2) kpos] by blast
      have "write_ok m r ext data n evs m' res" by (rule write_ok_go [OF h(2)]) (use ok c3 w2 kpos kle sp in simp_all)
      with h(1) ok unf None m3 kle sp(3) show ?thesis by simp
    next
      assume "\<exists>x. e = Err x \<and> io_out (mx_conn m3) = io_out (mx_conn m)"
      then obtain x where x: "e = Err x" "io_out (mx_conn m3) = io_out (mx_conn m)" by blast
      have "write_ok m r ext data n evs m3 (Wrote n (Some x))" by (rule write_ok_stop) (use x c3 w2 in auto)
      with x unf None m3 kle sp(3) show ?thesis by simp
    qed
  qed
qed

lemma writeLoop_spec:
  assumes "r < length (mx_store m)" "length data < 2 ^ 32" "0 < cn_maxRemotePayload (ch_at m r)"
  shows "\<exists>m' res. writeLoop m r ext data n evs = Some (m', res) \<and> write_ok m r ext data n evs m' res"
  using assms
proof (induction "length data + length evs" arbitrary: m data n evs rule: less_induct)
  case less
  note m1 = afterEvents_frame [OF less.prems(1), of evs]
  consider "data = []" | "data \<noteq> []" "window_reserve (cn_remoteWin (ch_at (afterEvents m r evs) r)) (minLen (cn_maxRemotePayload (ch_at (afterEvents m r evs) r)) (length data)) = None"
    | w k err where "data \<noteq> []" "window_reserve (cn_remoteWin (ch_at (afterEvents m r evs) r)) (minLen (cn_maxRemotePayload (ch_at (afterEvents m r evs) r)) (length data)) = Some (w, k, err)"
    by (metis option.exhaust prod_cases3)
  then show ?case
  proof cases
    case 1
    then show ?thesis by (subst writeLoop.simps) (simp add: write_ok_stop)
  next
    case 2
    show ?thesis
    proof (cases evs)
      case Nil
      have "write_ok m r ext data n evs m (WriteWaits n)" by (rule write_ok_stop) simp_all
      with Nil writeLoop_waits [OF 2, of ext n] show ?thesis by simp
    next
      case (Cons es evs')
      obtain m' res where h: "writeLoop (afterEvents m r evs) r ext data n evs' = Some (m', res)" "write_ok (afterEvents m r evs) r ext data n evs' m' res"
        using less.hyps [of data evs' "afterEvents m r evs" n] less.prems m1 Cons by auto
      have "write_ok m r ext data n evs m' res" using h(2) m1 Cons unfolding write_ok_def by fastforce
      with h(1) writeLoop_waits [OF 2, of ext n] Cons show ?thesis by simp
    qed
  next
    case 3
    show ?thesis
    proof (rule writeLoop_written [OF less.prems(1) 3(1) less.prems(2,3) 3(2)])
      fix m3 assume m3: "length (mx_store m3) = length (mx_store m)" "cn_maxRemotePayload (ch_at m3 r) = cn_maxRemotePayload (ch_at m r)" "0 < unat k"
      have "length (drop (unat k) data) + length (tl evs) < length data + length evs"
        using 3(1) m3(3) by (cases data; cases evs) auto
      then show "\<exists>m' res. writeLoop m3 r ext (drop (unat k) data) (n + unat k) (tl evs) = Some (m', res)
          \<and> write_ok m3 r ext (drop (unat k) data) (n + unat k) (tl evs) m' res"
        using less.prems m3 by (intro less.hyps) simp_all
    qed
  qed
qed

text \<open>(C18) \<open>WriteExtended\<close> always returns or waits for window. The packets it sends carry, in order and in non-empty pieces
  of at most the peer's packet size, a prefix of the data, as long as the count it returns, and all of it when it
  returns no error; and they never carry more bytes than the window had plus what the peer granted meanwhile.\<close>

theorem writes_respect_the_window:
  assumes "r < length (mx_store m)" "length data < 2 ^ 32" "0 < cn_maxRemotePayload (ch_at m r)"
  shows "\<exists>m' res k chunks. WriteExtended m r data ext evs = Some (m', res) \<and> k \<le> length data
    \<and> io_out (mx_conn m') = io_out (mx_conn m) @ map (dataPacket (cn_remoteId (ch_at m r)) ext) chunks
    \<and> concat chunks = take k data \<and> (\<forall>c\<in>set chunks. c \<noteq> [] \<and> length c \<le> unat (cn_maxRemotePayload (ch_at m r)))
    \<and> k \<le> unat (w_win (cn_remoteWin (ch_at m r))) + granted evs
    \<and> (res = Wrote k None \<and> k = length data \<or> (\<exists>e. res = Wrote k (Some e)) \<or> res = WriteWaits k)"
proof (cases "cn_sentEOF (ch_at m r)")
  case True
  then show ?thesis by (intro exI [of _ m] exI [of _ "Wrote 0 (Some EOF)"] exI [of _ 0] exI [of _ "[]"]) (simp add: WriteExtended_def)
next
  case False
  obtain m' res where w: "writeLoop m r ext data 0 evs = Some (m', res)" "write_ok m r ext data 0 evs m' res"
    using writeLoop_spec [OF assms] by blast
  then obtain k where k: "k \<le> length data"
    "payloads (io_out (mx_conn m)) (io_out (mx_conn m')) (take k data) (cn_remoteId (ch_at m r)) ext (cn_maxRemotePayload (ch_at m r))"
    "unat (w_win (cn_remoteWin (ch_at m' r))) + k \<le> unat (w_win (cn_remoteWin (ch_at m r))) + granted evs"
    "case res of Wrote n' e \<Rightarrow> n' = 0 + k \<and> (e = None \<longrightarrow> k = length data) | WriteWaits n' \<Rightarrow> n' = 0 + k | WriteCrash _ \<Rightarrow> False"
    unfolding write_ok_def by blast
  from k(2) obtain chunks where c: "io_out (mx_conn m') = io_out (mx_conn m) @ map (dataPacket (cn_remoteId (ch_at m r)) ext) chunks"
    "concat chunks = take k data" "\<forall>c\<in>set chunks. c \<noteq> [] \<and> length c \<le> unat (cn_maxRemotePayload (ch_at m r))"
    unfolding payloads_def by blast
  from k(4) have "res = Wrote k None \<and> k = length data \<or> (\<exists>e. res = Wrote k (Some e)) \<or> res = WriteWaits k"
    by (auto split: writeRes.splits option.splits)
  with w(1) k(1,3) c False show ?thesis
    by (intro exI [of _ m'] exI [of _ res] exI [of _ k] exI [of _ chunks]) (simp add: WriteExtended_def)
qed

definition demoMux :: mux where
  "demoMux = \<lparr>mx_conn = \<lparr>io_in = [], io_rerr = EOF, io_out = [], io_wres = []\<rparr>,
     mx_store = [\<lparr>cn_chanType = ''session'', cn_extraData = [], cn_localId = 0, cn_remoteId = 7, cn_maxIncomingPayload = channelMaxPacket,
            cn_maxRemotePayload = 9, cn_decided = True, cn_direction = ChannelInbound, cn_msg = [], cn_incomingRequests = [],
            cn_closed = False, cn_sentEOF = False, cn_remoteWin = newWindow, cn_pending = newBuffer, cn_extPending = newBuffer,
            cn_myWindow = channelWindowSize, cn_sentClose = False\<rparr>],
     mx_chanList = \<lparr>cl_chans = [Some 0], cl_offset = 0\<rparr>, mx_incomingChannels = [0], mx_globalResponses = [],
     mx_incomingRequests = [], mx_closed = False, mx_err = None\<rparr>"

theorem writes_respect_the_window_witness:
  "\<exists>m' res k chunks. WriteExtended demoMux 0 [1, 2, 3] 0 [[WinAdjust 2]] = Some (m', res) \<and> concat chunks = take k ([1, 2, 3] :: bytes) \<and> k \<le> 2"
proof -
  have g: "granted [[WinAdjust 2]] = 2" "w_win (cn_remoteWin (ch_at demoMux 0)) = 0" "0 < length (mx_store demoMux)"
    "0 < cn_maxRemotePayload (ch_at demoMux 0)" "length [1, 2, 3 :: byte] < 2 ^ 32"
    by (simp_all add: demoMux_def newWindow_def granted_def)
  obtain m' res k and chunks :: "bytes list" where "WriteExtended demoMux 0 [1, 2, 3] 0 [[WinAdjust 2]] = Some (m', res)"
    "concat chunks = take k [1, 2, 3]" "k \<le> unat (w_win (cn_remoteWin (ch_at demoMux 0))) + granted [[WinAdjust 2]]"
    using writes_respect_the_window [OF g(3,5,4), of 0 "[[WinAdjust 2]]"] by blast
  with g(1,2) show ?thesis by (intro exI [of _ m'] exI [of _ res] exI [of _ k] exI [of _ chunks]) simp
qed

section \<open>The receive window\<close>

text \<open>The bytes that wait to be read and the window that is open never exceed the initial window.\<close>

definition recv_inv :: "channel \<Rightarrow> bool" where
  "recv_inv c \<longleftrightarrow> buffer_inv (cn_pending c) \<and> buffer_inv (cn_extPending c)
     \<and> unat (cn_myWindow c) + length (buffer_content (cn_pending c)) + length (buffer_content (cn_extPending c)) \<le> unat channelWindowSize"

lemma recv_inv_cong:
  "cn_pending c' = cn_pending c \<Longrightarrow> cn_extPending c' = cn_extPending c \<Longrightarrow> cn_myWindow c' = cn_myWindow c \<Longrightarrow> recv_inv c' = recv_inv c"
  by (simp add: recv_inv_def)

lemma recv_inv_put:
  assumes "recv_inv c" "\<not> cn_myWindow c < l" "l = of_nat (length d)" "length d < 2 ^ 32"
  shows "recv_inv (c\<lparr>cn_myWindow := cn_myWindow c - l, cn_extPending := buffer_write (cn_extPending c) d\<rparr>)"
    "recv_inv (c\<lparr>cn_myWindow := cn_myWindow c - l, cn_pending := buffer_write (cn_pending c) d\<rparr>)"
    "recv_inv (c\<lparr>cn_myWindow := cn_myWindow c - l\<rparr>)"
proof -
  have "unat (cn_myWindow c - l) + unat l = unat (cn_myWindow c)"
    using assms(2) by (simp add: unat_sub not_less word_le_nat_alt)
  moreover have "unat l = length d" using assms(3,4) by (simp add: unat_of_nat)
  ultimately show "recv_inv (c\<lparr>cn_myWindow := cn_myWindow c - l, cn_extPending := buffer_write (cn_extPending c) d\<rparr>)"
    "recv_inv (c\<lparr>cn_myWindow := cn_myWindow c - l, cn_pending := buffer_write (cn_pending c) d\<rparr>)"
    "recv_inv (c\<lparr>cn_myWindow := cn_myWindow c - l\<rparr>)"
    using assms(1) unfolding recv_inv_def by (simp_all add: write_inv write_content)
qed

lemma handleData_recv:
  assumes "recv_inv c" "length packet < 2 ^ 32" "handleData c packet = (c', e)"
  shows "recv_inv c'"
proof (cases "index packet 0")
  case (Ok t)
  define h where "h = (if t = msgChannelExtendedData then 13 else 9 :: nat)"
  define l where "l = get32 (drop (h - 4) packet)"
  have d: "length (drop h packet) < 2 ^ 32" using assms(2) by simp
  note put = recv_inv_put [OF assms(1) _ _ d]
  show ?thesis
    using assms(3) put [of l] assms(1) unfolding handleData_def Ok res.case Let_def h_def [symmetric] l_def [symmetric]
    by (simp only: split: if_split_asm) (auto simp: split: if_split_asm)
qed (use assms in \<open>simp_all add: handleData_def\<close>)

text \<open>What sending keeps: every channel up to \<open>sentClose\<close>, and the list of channels.\<close>

definition sends :: "mux \<Rightarrow> mux \<Rightarrow> bool" where
  "sends m m' \<longleftrightarrow> mx_chanList m' = mx_chanList m \<and> io_in (mx_conn m') = io_in (mx_conn m) \<and> length (mx_store m') = length (mx_store m)
     \<and> (\<forall>r<length (mx_store m). \<exists>b. ch_at m' r = (ch_at m r)\<lparr>cn_sentClose := b\<rparr>)"

lemma sends_refl: "sends m m"
proof -
  have "\<exists>b. ch_at m r = (ch_at m r)\<lparr>cn_sentClose := b\<rparr>" for r by (intro exI [of _ "cn_sentClose (ch_at m r)"]) simp
  then show ?thesis by (simp add: sends_def)
qed

lemma writePkt_in: "writePkt io p = (io', e) \<Longrightarrow> io_in io' = io_in io"
  by (auto simp: writePkt_def split: list.splits option.splits)

lemma channel_writePacket_sends: "channel_writePacket m r p = (m', e) \<Longrightarrow> sends m m'"
proof -
  assume a: "channel_writePacket m r p = (m', e)"
  consider "m' = m" | b io where "m' = (upd_ch m r (\<lambda>c. c\<lparr>cn_sentClose := b\<rparr>))\<lparr>mx_conn := io\<rparr>" "io_in io = io_in (mx_conn m)"
    using a writePkt_in [of "mx_conn m" p] by (auto simp: channel_writePacket_def Let_def split: if_splits res.splits prod.splits)
  then show ?thesis
  proof cases
    case 2
    have "\<exists>b. ch_at m' s = (ch_at m s)\<lparr>cn_sentClose := b\<rparr>" if "s < length (mx_store m)" for s
    proof (cases "s = r")
      case True
      with 2 that show ?thesis by auto
    next
      case False
      with 2 show ?thesis by (intro exI [of _ "cn_sentClose (ch_at m s)"]) simp
    qed
    with 2 show ?thesis by (simp add: sends_def)
  qed (simp add: sends_refl)
qed

lemma channel_sendMessage_sends: "channel_sendMessage m r msg = (m', e) \<Longrightarrow> sends m m'"
  by (auto simp: channel_sendMessage_def sends_refl channel_writePacket_sends split: res.splits)

definition recv_all :: "mux \<Rightarrow> bool" where
  "recv_all m \<longleftrightarrow> (\<forall>r<length (mx_store m). recv_inv (ch_at m r))"

lemma recv_all_sends: "sends m m' \<Longrightarrow> recv_all m \<Longrightarrow> recv_all m'"
  unfolding recv_all_def
proof (intro allI impI)
  fix r assume a: "sends m m'" "\<forall>r<length (mx_store m). recv_inv (ch_at m r)" "r < length (mx_store m')"
  then obtain b where "r < length (mx_store m)" "ch_at m' r = (ch_at m r)\<lparr>cn_sentClose := b\<rparr>" by (auto simp: sends_def)
  with a(2) show "recv_inv (ch_at m' r)" by (simp add: recv_inv_def)
qed

lemma recv_all_upd_at:
  assumes "recv_all m" "r < length (mx_store m) \<Longrightarrow> recv_inv (f (ch_at m r))"
  shows "recv_all (upd_ch m r f)"
  unfolding recv_all_def
proof (intro allI impI)
  fix s assume "s < length (mx_store (upd_ch m r f))"
  with assms show "recv_inv (ch_at (upd_ch m r f) s)" by (cases "s = r") (simp_all add: recv_all_def)
qed

lemma recv_all_upd: "recv_all m \<Longrightarrow> (\<And>c. recv_inv c \<Longrightarrow> recv_inv (f c)) \<Longrightarrow> recv_all (upd_ch m r f)"
  by (rule recv_all_upd_at) (simp_all add: recv_all_def)

lemma recv_all_sendMessage: "recv_all m \<Longrightarrow> channel_sendMessage m r msg = (m', e) \<Longrightarrow> recv_all m'"
  by (rule recv_all_sends [OF channel_sendMessage_sends])

text \<open>Reading gives back to the peer exactly the window of the bytes read.\<close>

lemma afterRead_recv:
  assumes "recv_all (upd_ch m r f)" "r < length (mx_store m)" "afterRead (upd_ch m r f) r (readOutcome cl k ct []) = (m', res)"
    and "unat (cn_myWindow (f (ch_at m r))) + length (take k ct) + length (buffer_content (cn_pending (f (ch_at m r))))
      + length (buffer_content (cn_extPending (f (ch_at m r)))) \<le> unat channelWindowSize"
  shows "recv_all m'"
proof (cases "take k ct = []")
  case True
  with assms(1,3) show ?thesis by (auto simp: afterRead_def readOutcome_def split: if_splits)
next
  case False
  let ?m = "upd_ch m r f" and ?d = "take k ct"
  let ?n = "of_nat (length ?d) :: uint32"
  have cw: "unat channelWindowSize < 2 ^ 32" by (simp add: channelWindowSize_def channelMaxPacket_def)
  have "unat ?n = length ?d" using assms(4) cw by (simp add: unat_of_nat)
  moreover have "unat (cn_myWindow (f (ch_at m r))) + unat ?n < 2 ^ 32" using calculation assms(4) cw by simp
  ultimately have w: "unat (cn_myWindow (f (ch_at m r)) + ?n) = unat (cn_myWindow (f (ch_at m r))) + length ?d"
    by (simp add: unat_word_ariths)
  have "recv_inv (f (ch_at m r))" using assms(1,2) by (auto simp: recv_all_def dest: spec [of _ r])
  then have "recv_all (upd_ch ?m r (\<lambda>c. c\<lparr>cn_myWindow := cn_myWindow c + ?n\<rparr>))"
    using assms(2,4) w by (intro recv_all_upd_at [OF assms(1)]) (simp add: recv_inv_def)
  moreover obtain m2 e where "adjustWindow ?m r ?n = (m2, e)" by (cases "adjustWindow ?m r ?n")
  ultimately have "recv_all m2" unfolding adjustWindow_def Let_def by (rule recv_all_sendMessage)
  moreover have "readOutcome cl k ct [] = Returned ?d None" using False by (auto simp: readOutcome_def)
  ultimately show ?thesis using assms(3) False \<open>adjustWindow ?m r ?n = (m2, e)\<close> by (auto simp: afterRead_def split: res.splits)
qed

lemma ReadExtended_recv:
  assumes "recv_all m" "r < length (mx_store m)" "ReadExtended m r k ext = Some (m', res)"
  shows "recv_all m'"
proof -
  have i: "recv_inv (ch_at m r)" using assms(1,2) by (simp add: recv_all_def)
  consider "ext = 1" | "ext = 0" | "ext \<noteq> 1" "ext \<noteq> 0" by blast
  then show ?thesis
  proof cases
    case 1
    obtain b x where b: "buffer_Read (cn_extPending (ch_at m r)) k = Some (b, x)" using assms(3) 1 by (auto simp: ReadExtended_def split: option.splits)
    have bi: "buffer_inv (cn_extPending (ch_at m r))" using i by (simp add: recv_inv_def)
    note g = buf.get [OF bi b]
    have "length (take k (buffer_content (cn_extPending (ch_at m r)))) + length (buffer_content b) = length (buffer_content (cn_extPending (ch_at m r)))"
      using g by (metis append_take_drop_id length_append)
    with i g 1 assms b show ?thesis
      by (intro afterRead_recv [of m r "\<lambda>c. c\<lparr>cn_extPending := b\<rparr>" "bf_closed (cn_extPending (ch_at m r))" k "buffer_content (cn_extPending (ch_at m r))" m' res] recv_all_upd_at)
        (auto simp: recv_inv_def ReadExtended_def)
  next
    case 2
    obtain b x where b: "buffer_Read (cn_pending (ch_at m r)) k = Some (b, x)" using assms(3) 2 by (auto simp: ReadExtended_def split: option.splits)
    have bi: "buffer_inv (cn_pending (ch_at m r))" using i by (simp add: recv_inv_def)
    note g = buf.get [OF bi b]
    have "length (take k (buffer_content (cn_pending (ch_at m r)))) + length (buffer_content b) = length (buffer_content (cn_pending (ch_at m r)))"
      using g by (metis append_take_drop_id length_append)
    with i g 2 assms b show ?thesis
      by (intro afterRead_recv [of m r "\<lambda>c. c\<lparr>cn_pending := b\<rparr>" "bf_closed (cn_pending (ch_at m r))" k "buffer_content (cn_pending (ch_at m r))" m' res] recv_all_upd_at)
        (auto simp: recv_inv_def ReadExtended_def)
  qed (use assms in \<open>simp add: ReadExtended_def\<close>)
qed

end
