(* ===== verification/Transition.thy ===== *)
theory Transition
  imports Main
begin

text \<open>
  Contracts of the concurrent parts of the program, which are step relations: an invariant that holds
  at the start and is kept by every step, and in addition a weight that every step lowers and that
  no run can get stuck above zero before the final states.
\<close>

locale invariant_system =
  fixes start :: "'s \<Rightarrow> bool" and step :: "'s \<Rightarrow> 's \<Rightarrow> bool" and inv :: "'s \<Rightarrow> bool"
  assumes inv_start: "start s \<Longrightarrow> inv s"
    and inv_step: "step s s' \<Longrightarrow> inv s \<Longrightarrow> inv s'"
begin

lemma inv_steps: "step\<^sup>*\<^sup>* s s' \<Longrightarrow> inv s \<Longrightarrow> inv s'"
  by (induction rule: rtranclp_induct) (auto intro: inv_step)

lemma inv_reachable: "start s \<Longrightarrow> step\<^sup>*\<^sup>* s s' \<Longrightarrow> inv s'"
  by (blast intro: inv_steps inv_start)

end

locale terminating_system = invariant_system +
  fixes weight :: "'a \<Rightarrow> nat" and final :: "'a \<Rightarrow> bool"
  assumes progress: "inv s \<Longrightarrow> \<not> final s \<Longrightarrow> \<exists>s'. step s s'"
    and decrease: "inv s \<Longrightarrow> step s s' \<Longrightarrow> weight s' < weight s"
begin

lemma run_bound: "inv s \<Longrightarrow> (step ^^ n) s s' \<Longrightarrow> n + weight s' \<le> weight s"
proof (induction n arbitrary: s')
  case (Suc n)
  then obtain t where t: "(step ^^ n) s t" "step t s'" by auto
  have "inv t" using inv_steps [OF relpowp_imp_rtranclp [OF t(1)]] Suc.prems(1) .
  with Suc.IH [OF Suc.prems(1) t(1)] decrease [OF _ t(2)] show ?case by fastforce
qed simp

lemma reaches_final: "inv s \<Longrightarrow> \<exists>s'. step\<^sup>*\<^sup>* s s' \<and> final s'"
proof (induction "weight s" arbitrary: s rule: less_induct)
  case less
  show ?case
  proof (cases "final s")
    case False
    with progress [OF less.prems] obtain t where t: "step s t" by blast
    with less.hyps [OF decrease [OF less.prems t] inv_step [OF t less.prems]] show ?thesis
      by (blast intro: converse_rtranclp_into_rtranclp)
  qed blast
qed

text \<open>A run that cannot be continued has reached a final state.\<close>

lemma stuck_final: "start s \<Longrightarrow> step\<^sup>*\<^sup>* s s' \<Longrightarrow> \<nexists>t. step s' t \<Longrightarrow> final s'"
  using inv_reachable progress by blast

end

end
