(* ===== verification/Serve.thy ===== *)
theory Serve
  imports Report Channel Transition
begin

text \<open>
  The body of \<^verbatim>\<open>serve\<close> (\<^verbatim>\<open>server.go\<close>) after the handshake: the loop over the channels a client
  opens, and for each session channel the interplay of four goroutines: the one that writes the
  report, the one that answers the requests on the channel, the timer that lets the report go on
  after thirty seconds, and the multiplexer, which delivers what the client sends on the channel. They
  share the lock \<^verbatim>\<open>reqLock\<close>, the flags \<^verbatim>\<open>agentFwd\<close> and \<^verbatim>\<open>x11\<close>, the queue of requests and the
  window for the data that the client is willing to receive, and are a step relation: each step is one access to
  the shared state.

  A write to the channel goes out in pieces as the window allows, with \<open>window_reserve\<close> and the size of a
  piece as in \<open>WriteExtended\<close> of \<open>Channel\<close>; it waits while the window is empty and fails when the channel has been
  closed or the connection is broken. \<^verbatim>\<open>serve\<close> ignores the results of its writes. Below that, a packet handed to the
  transport is sent or fails; how long the operating system takes for it is not modelled.
\<close>

section \<open>One session channel\<close>

record sshRequest =
  rq_Type :: string
  rq_WantReply :: bool

text \<open>
  \<^verbatim>\<open>time.AfterFunc\<close>: an armed timer expires, after which its function runs in its own goroutine, or
  is stopped; \<^verbatim>\<open>Stop\<close> returns true exactly when it stops an armed timer.
\<close>

datatype timerState = Armed | Firing | Fired | Stopped

text \<open>
  What the multiplexer sees of the client: a request on the channel, more window, the end of the channel or of the
  connection, after which nothing arrives; and the moment from which packets can no longer be written.
\<close>

datatype peerMsg = Asks sshRequest | Grants uint32 | Closes | Breaks

text \<open>
  The goroutine of the requests waits for a request, is about to unlock after stopping the timer, or
  is about to reply. The main goroutine writes the texts of the report, locks, writes the warnings
  about forwarding and closes the channel. \<open>ch_left\<close> is what its current write has still to send.
\<close>

datatype reqPc = RWait | RUnlock sshRequest | RReply sshRequest bool

datatype mainPc = Writing "string list" | Locking | TellAgent | TellX11 | Closing | Closed

record chanRun =
  ch_timer :: timerState
  ch_locked :: bool
  ch_agentFwd :: bool
  ch_x11 :: bool
  ch_arriving :: "peerMsg list"
  ch_inbox :: "sshRequest list"
  ch_taken :: "sshRequest list"
  ch_replies :: "bool list"
  ch_req :: reqPc
  ch_main :: mainPc
  ch_left :: string
  ch_win :: window
  ch_payload :: uint32
  ch_broken :: bool
  ch_out :: string
  ch_crashed :: bool

text \<open>\<^verbatim>\<open>reqLock.Unlock()\<close>: unlocking a mutex that is not locked ends the program.\<close>

definition unlockReq :: "chanRun \<Rightarrow> chanRun" where
  "unlockReq c = (if ch_locked c then c\<lparr>ch_locked := False\<rparr> else c\<lparr>ch_crashed := True\<rparr>)"

definition goAhead :: "sshRequest \<Rightarrow> bool" where
  "goAhead r \<longleftrightarrow> rq_Type r = ''shell'' \<or> rq_Type r = ''pty-req''"

definition isAgentReq :: "sshRequest \<Rightarrow> bool" where
  "isAgentReq r \<longleftrightarrow> rq_Type r = ''auth-agent-req@openssh.com''"

definition isX11Req :: "sshRequest \<Rightarrow> bool" where
  "isX11Req r \<longleftrightarrow> rq_Type r = ''x11-req''"

text \<open>A request is taken: the switch over its type up to the unlock or the reply.\<close>

definition takeRequest :: "sshRequest \<Rightarrow> chanRun \<Rightarrow> chanRun" where
  "takeRequest r c =
     (if goAhead r then
        (if ch_timer c = Armed then c\<lparr>ch_timer := Stopped, ch_req := RUnlock r\<rparr> else c\<lparr>ch_req := RReply r True\<rparr>)
      else if isAgentReq r then c\<lparr>ch_agentFwd := True, ch_req := RReply r False\<rparr>
      else if isX11Req r then c\<lparr>ch_x11 := True, ch_req := RReply r False\<rparr>
      else c\<lparr>ch_req := RReply r False\<rparr>)"

text \<open>The channel has been closed by the client, or the writes to the connection fail.\<close>

definition severed :: "chanRun \<Rightarrow> bool" where
  "severed c \<longleftrightarrow> w_closed (ch_win c) \<or> ch_broken c"

text \<open>\<^verbatim>\<open>req.Reply\<close>: nothing is sent after the close message of the channel, which both sides' closing sends.\<close>

definition replyRequest :: "sshRequest \<Rightarrow> bool \<Rightarrow> chanRun \<Rightarrow> chanRun" where
  "replyRequest r ok c = c\<lparr>ch_replies := ch_replies c
     @ (if rq_WantReply r \<and> \<not> severed c \<and> ch_main c \<noteq> Closed then [ok] else []), ch_req := RWait\<rparr>"

text \<open>\<^verbatim>\<open>if b { channel.Write(t) }\<close>\<close>

definition onlyIf :: "bool \<Rightarrow> string \<Rightarrow> string" where
  "onlyIf b t = (if b then t else '''')"

text \<open>The channel is closed from outside: nothing more arrives on it, and all reservations fail.\<close>

definition cutOff :: "chanRun \<Rightarrow> chanRun" where
  "cutOff c = c\<lparr>ch_win := window_close (ch_win c), ch_arriving := []\<rparr>"

text \<open>
  The multiplexer delivers a message. \<^verbatim>\<open>incomingRequests\<close> holds \<^verbatim>\<open>chanSize\<close> requests; when it is full the
  multiplexer waits. A window that would exceed 32 bits is an error that ends the connection.
\<close>

definition chanSize :: nat where
  "chanSize = 16"

definition arrive :: "peerMsg \<Rightarrow> chanRun \<Rightarrow> chanRun option" where
  "arrive p c = (case p of
       Asks r \<Rightarrow> if length (ch_inbox c) < chanSize then Some (c\<lparr>ch_inbox := ch_inbox c @ [r]\<rparr>) else None
     | Grants n \<Rightarrow> Some (case window_add (ch_win c) n of (w, True) \<Rightarrow> c\<lparr>ch_win := w\<rparr> | (_, False) \<Rightarrow> cutOff c)
     | Closes \<Rightarrow> Some (cutOff c)
     | Breaks \<Rightarrow> Some (c\<lparr>ch_broken := True\<rparr>))"

text \<open>
  One round of the loop of \<^verbatim>\<open>WriteExtended\<close>, when the reservation does not have to wait: \<open>k\<close> bytes of the window are
  taken, and the piece is sent unless the reservation or the connection fails, which ends the write.
\<close>

definition writePiece :: "window \<Rightarrow> uint32 \<Rightarrow> goerr option \<Rightarrow> chanRun \<Rightarrow> chanRun" where
  "writePiece w k err c =
     (if err \<noteq> None \<or> ch_broken c then c\<lparr>ch_win := w, ch_left := ''''\<rparr>
      else c\<lparr>ch_win := w, ch_out := ch_out c @ take (unat k) (ch_left c), ch_left := drop (unat k) (ch_left c)\<rparr>)"

definition reservePiece :: "chanRun \<Rightarrow> (window \<times> uint32 \<times> goerr option) option" where
  "reservePiece c = window_reserve (ch_win c) (minLen (ch_payload c) (length (ch_left c)))"

inductive chan_step :: "chanRun \<Rightarrow> chanRun \<Rightarrow> bool" where
  expire: "ch_timer c = Armed \<Longrightarrow> chan_step c (c\<lparr>ch_timer := Firing\<rparr>)"
| fire: "ch_timer c = Firing \<Longrightarrow> chan_step c (unlockReq (c\<lparr>ch_timer := Fired\<rparr>))"
| deliver: "ch_arriving c = p # ps \<Longrightarrow> arrive p (c\<lparr>ch_arriving := ps\<rparr>) = Some c' \<Longrightarrow> chan_step c c'"
| request: "ch_req c = RWait \<Longrightarrow> ch_inbox c = r # rs
    \<Longrightarrow> chan_step c (takeRequest r (c\<lparr>ch_inbox := rs, ch_taken := ch_taken c @ [r]\<rparr>))"
| unlock: "ch_req c = RUnlock r \<Longrightarrow> chan_step c (unlockReq (c\<lparr>ch_req := RReply r True\<rparr>))"
| reply: "ch_req c = RReply r ok \<Longrightarrow> chan_step c (replyRequest r ok c)"
| piece: "ch_left c \<noteq> '''' \<Longrightarrow> reservePiece c = Some (w, k, err) \<Longrightarrow> chan_step c (writePiece w k err c)"
| write_text: "ch_left c = '''' \<Longrightarrow> ch_main c = Writing (t # ts) \<Longrightarrow> chan_step c (c\<lparr>ch_left := t, ch_main := Writing ts\<rparr>)"
| written: "ch_left c = '''' \<Longrightarrow> ch_main c = Writing [] \<Longrightarrow> chan_step c (c\<lparr>ch_main := Locking\<rparr>)"
| lock: "ch_left c = '''' \<Longrightarrow> ch_main c = Locking \<Longrightarrow> \<not> ch_locked c
    \<Longrightarrow> chan_step c (c\<lparr>ch_locked := True, ch_main := TellAgent\<rparr>)"
| agent: "ch_left c = '''' \<Longrightarrow> ch_main c = TellAgent
    \<Longrightarrow> chan_step c (c\<lparr>ch_left := onlyIf (ch_agentFwd c) agentMsg, ch_main := TellX11\<rparr>)"
| x11: "ch_left c = '''' \<Longrightarrow> ch_main c = TellX11
    \<Longrightarrow> chan_step c (c\<lparr>ch_left := onlyIf (ch_x11 c) x11Msg, ch_main := Closing\<rparr>)"
| close: "ch_left c = '''' \<Longrightarrow> ch_main c = Closing \<Longrightarrow> chan_step c (c\<lparr>ch_main := Closed\<rparr>)"

text \<open>
  The state when the goroutines have been started: the lock is held and the timer is armed. \<open>win\<close> and \<open>payload\<close> are
  the window and the largest packet that the client gave when it opened the channel, \<open>peer\<close> is what it will send.
\<close>

definition startChan :: "string list \<Rightarrow> uint32 \<Rightarrow> uint32 \<Rightarrow> peerMsg list \<Rightarrow> chanRun" where
  "startChan texts win payload peer = \<lparr>ch_timer = Armed, ch_locked = True, ch_agentFwd = False, ch_x11 = False,
     ch_arriving = peer, ch_inbox = [], ch_taken = [], ch_replies = [], ch_req = RWait, ch_main = Writing texts, ch_left = '''',
     ch_win = \<lparr>w_win = win, w_writeWaiters = 0, w_closed = False\<rparr>, ch_payload = payload, ch_broken = False, ch_out = '''',
     ch_crashed = False\<rparr>"

section \<open>The lock is never unlocked twice\<close>

definition beforeLock :: "mainPc \<Rightarrow> bool" where
  "beforeLock m = (case m of Writing _ \<Rightarrow> True | Locking \<Rightarrow> True | _ \<Rightarrow> False)"

definition isUnlocking :: "reqPc \<Rightarrow> bool" where
  "isUnlocking p = (case p of RUnlock _ \<Rightarrow> True | _ \<Rightarrow> False)"

text \<open>An unlock is still to come: from the timer, armed or firing, or from the goroutine that stopped it.\<close>

definition unlockPending :: "chanRun \<Rightarrow> bool" where
  "unlockPending c \<longleftrightarrow> ch_timer c = Armed \<or> ch_timer c = Firing \<or> isUnlocking (ch_req c)"

definition lock_inv :: "chanRun \<Rightarrow> bool" where
  "lock_inv c \<longleftrightarrow> \<not> ch_crashed c
     \<and> (isUnlocking (ch_req c) \<longrightarrow> ch_timer c = Stopped)
     \<and> (unlockPending c \<longrightarrow> ch_locked c \<and> beforeLock (ch_main c))
     \<and> (\<not> unlockPending c \<longrightarrow> (beforeLock (ch_main c) \<longleftrightarrow> \<not> ch_locked c))"

lemmas pc_simps = beforeLock_def isUnlocking_def unlockPending_def

text \<open>What the multiplexer and the writer of a piece leave alone.\<close>

lemma arrive_frame:
  assumes "arrive p c = Some c'"
  shows "ch_timer c' = ch_timer c" "ch_locked c' = ch_locked c" "ch_agentFwd c' = ch_agentFwd c" "ch_x11 c' = ch_x11 c"
    "ch_taken c' = ch_taken c" "ch_replies c' = ch_replies c" "ch_req c' = ch_req c" "ch_main c' = ch_main c" "ch_left c' = ch_left c"
    "ch_payload c' = ch_payload c" "ch_out c' = ch_out c" "ch_crashed c' = ch_crashed c" "severed c \<Longrightarrow> severed c'"
  using assms by (auto simp: arrive_def cutOff_def severed_def window_close_def window_add_def split: peerMsg.splits if_splits bool.splits prod.splits)

lemma writePiece_frame:
  "ch_timer (writePiece w k e c) = ch_timer c" "ch_locked (writePiece w k e c) = ch_locked c"
  "ch_agentFwd (writePiece w k e c) = ch_agentFwd c" "ch_x11 (writePiece w k e c) = ch_x11 c"
  "ch_arriving (writePiece w k e c) = ch_arriving c" "ch_inbox (writePiece w k e c) = ch_inbox c"
  "ch_taken (writePiece w k e c) = ch_taken c" "ch_replies (writePiece w k e c) = ch_replies c" "ch_req (writePiece w k e c) = ch_req c"
  "ch_main (writePiece w k e c) = ch_main c" "ch_payload (writePiece w k e c) = ch_payload c" "ch_broken (writePiece w k e c) = ch_broken c"
  "ch_crashed (writePiece w k e c) = ch_crashed c" "ch_win (writePiece w k e c) = w"
  by (simp_all add: writePiece_def)

lemmas step_simps = unlockReq_def takeRequest_def replyRequest_def arrive_frame writePiece_frame

lemma lock_inv_start: "lock_inv (startChan texts win payload peer)"
  by (simp add: lock_inv_def startChan_def pc_simps)

lemma lock_inv_step: "chan_step c c' \<Longrightarrow> lock_inv c \<Longrightarrow> lock_inv c'"
  by (induction rule: chan_step.induct)
    (auto simp: lock_inv_def pc_simps step_simps split: mainPc.splits reqPc.splits)

text \<open>Once no unlock is to come, the timer stays as it is.\<close>

lemma settled_step: "chan_step c c' \<Longrightarrow> \<not> unlockPending c \<Longrightarrow> \<not> unlockPending c' \<and> ch_timer c' = ch_timer c"
  by (induction rule: chan_step.induct)
    (auto simp: pc_simps step_simps split: reqPc.splits)

lemma settled: "chan_step\<^sup>*\<^sup>* c c' \<Longrightarrow> \<not> unlockPending c \<Longrightarrow> \<not> unlockPending c' \<and> ch_timer c' = ch_timer c"
  by (induction rule: rtranclp_induct) (auto dest: settled_step)

section \<open>Runs are bounded, and only a client without window holds them up\<close>

primrec timerWeight :: "timerState \<Rightarrow> nat" where
  "timerWeight Armed = 2"
| "timerWeight Firing = 1"
| "timerWeight Fired = 0"
| "timerWeight Stopped = 0"

primrec reqWeight :: "reqPc \<Rightarrow> nat" where
  "reqWeight RWait = 0"
| "reqWeight (RUnlock r) = 2"
| "reqWeight (RReply r ok) = 1"

text \<open>The bytes of the texts still to be written, with both warnings.\<close>

primrec toWrite :: "mainPc \<Rightarrow> nat" where
  "toWrite (Writing ts) = length (concat ts) + length agentMsg + length x11Msg"
| "toWrite Locking = length agentMsg + length x11Msg"
| "toWrite TellAgent = length agentMsg + length x11Msg"
| "toWrite TellX11 = length x11Msg"
| "toWrite Closing = 0"
| "toWrite Closed = 0"

primrec mainWeight :: "mainPc \<Rightarrow> nat" where
  "mainWeight (Writing ts) = length ts + 5"
| "mainWeight Locking = 4"
| "mainWeight TellAgent = 3"
| "mainWeight TellX11 = 2"
| "mainWeight Closing = 1"
| "mainWeight Closed = 0"

definition chanWeight :: "chanRun \<Rightarrow> nat" where
  "chanWeight c = timerWeight (ch_timer c) + reqWeight (ch_req c) + 3 * length (ch_inbox c) + 4 * length (ch_arriving c)
     + mainWeight (ch_main c) + toWrite (ch_main c) + length (ch_left c)"

text \<open>The sizes that Go's conversion of a length to 32 bits keeps, and a packet size that is not zero.\<close>

definition size_inv :: "chanRun \<Rightarrow> bool" where
  "size_inv c \<longleftrightarrow> 0 < ch_payload c \<and> length (ch_left c) < 2 ^ 32
     \<and> (case ch_main c of Writing ts \<Rightarrow> \<forall>t\<in>set ts. length t < 2 ^ 32 | _ \<Rightarrow> True)"

lemma warning_sizes: "length agentMsg < 1000" "length x11Msg < 1000"
  by code_simp+

lemma size_inv_step: "chan_step c c' \<Longrightarrow> size_inv c \<Longrightarrow> size_inv c'"
proof (induction rule: chan_step.induct)
  case (deliver c p ps c')
  then show ?case by (simp add: size_inv_def arrive_frame [OF deliver(2)])
next
  case (piece c w k err)
  then show ?case by (auto simp: size_inv_def writePiece_def)
next
  case (agent c)
  then show ?case using warning_sizes by (simp add: size_inv_def onlyIf_def)
next
  case (x11 c)
  then show ?case using warning_sizes by (simp add: size_inv_def onlyIf_def)
qed (auto simp: size_inv_def unlockReq_def takeRequest_def replyRequest_def)

lemma reservePiece_size:
  assumes "reservePiece c = Some (w, k, err)" "size_inv c" "ch_left c \<noteq> ''''"
  shows "unat (w_win (ch_win c)) = unat (w_win w) + unat k" "unat k \<le> length (ch_left c)" "err = None \<Longrightarrow> 0 < unat k"
    "err = None \<longleftrightarrow> \<not> w_closed (ch_win c)" "w_closed w = w_closed (ch_win c)"
proof -
  let ?n = "minLen (ch_payload c) (length (ch_left c))"
  note r = assms(1) [unfolded reservePiece_def]
  have m: "unat ?n \<le> length (ch_left c)" "0 < unat ?n"
    using minLen_bounds [where a = "ch_payload c" and n = "length (ch_left c)"] assms(2,3)
    by (simp_all add: size_inv_def unat_gt_0 word_greater_zero_iff)
  show "unat (w_win (ch_win c)) = unat (w_win w) + unat k" "err = None \<longleftrightarrow> \<not> w_closed (ch_win c)"
    using window_reserve_spec [OF r] by simp_all
  show "unat k \<le> length (ch_left c)" using window_reserve_spec(2) [OF r] m(1) by (simp add: word_le_nat_alt)
  show "0 < unat k" if "err = None" using window_reserve_spec(4) [OF r _ that] m(2) by (auto simp: unat_gt_0)
  show "w_closed w = w_closed (ch_win c)"
    using r by (auto simp: window_reserve_def reserve_enter_def reserve_leave_def Let_def split: if_splits)
qed

lemma arrive_weight: "arrive p (c\<lparr>ch_arriving := ps\<rparr>) = Some c' \<Longrightarrow> 3 * length (ch_inbox c') + 4 * length (ch_arriving c') < 3 * length (ch_inbox c) + 4 * Suc (length ps)"
  by (auto simp: arrive_def cutOff_def split: peerMsg.splits if_splits prod.splits bool.splits)

lemma writePiece_weight:
  assumes "reservePiece c = Some (w, k, err)" "size_inv c" "ch_left c \<noteq> ''''"
  shows "length (ch_left (writePiece w k err c)) < length (ch_left c)"
  using reservePiece_size [OF assms] assms(3) by (auto simp: writePiece_def)

lemma chanWeight_step: "chan_step c c' \<Longrightarrow> size_inv c \<Longrightarrow> chanWeight c' < chanWeight c"
proof (induction rule: chan_step.induct)
  case (deliver c p ps c')
  with arrive_weight [OF deliver(2)] show ?case by (simp add: chanWeight_def arrive_frame [OF deliver(2)])
next
  case (piece c w k err)
  then show ?case using writePiece_weight [of c w k err] by (simp add: chanWeight_def writePiece_frame)
qed (auto simp: chanWeight_def unlockReq_def takeRequest_def replyRequest_def onlyIf_def)

text \<open>The writer waits for window, and the client will not grant any nor close the channel.\<close>

definition waiting :: "chanRun \<Rightarrow> bool" where
  "waiting c \<longleftrightarrow> ch_left c \<noteq> '''' \<and> reservePiece c = None \<and> ch_arriving c = []"

lemma reservePiece_None: "reservePiece c = None \<longleftrightarrow> w_win (ch_win c) = 0 \<and> \<not> w_closed (ch_win c)"
  by (auto simp: reservePiece_def window_reserve_def reserve_enter_def can_leave_def Let_def)

text \<open>The requests are always taken, so the multiplexer is never held up for good.\<close>

lemma deliver_progress:
  assumes "ch_arriving c \<noteq> []"
  shows "\<exists>c'. chan_step c c'"
proof -
  obtain p ps where c: "ch_arriving c = p # ps" using assms by (cases "ch_arriving c") auto
  show ?thesis
  proof (cases "arrive p (c\<lparr>ch_arriving := ps\<rparr>)")
    case None
    then have "ch_inbox c \<noteq> []" by (auto simp: arrive_def chanSize_def split: peerMsg.splits if_splits)
    then show ?thesis by (cases "ch_req c"; cases "ch_inbox c") (auto intro: chan_step.intros)
  qed (use c in \<open>blast intro: chan_step.deliver\<close>)
qed

lemma chan_progress:
  assumes "lock_inv c" "ch_main c \<noteq> Closed" "\<not> waiting c"
  shows "\<exists>c'. chan_step c c'"
proof (cases "ch_left c = ''''")
  case False
  show ?thesis
  proof (cases "reservePiece c")
    case None
    with False assms(3) deliver_progress show ?thesis by (auto simp: waiting_def)
  next
    case (Some r)
    with False show ?thesis by (cases r) (blast intro: chan_step.piece)
  qed
next
  case left: True
  show ?thesis
  proof (cases "ch_main c")
    case (Writing ts)
    with left show ?thesis by (cases ts) (blast intro: chan_step.intros)+
  next
    case Locking
    show ?thesis
    proof (cases "unlockPending c")
      case True
      then show ?thesis
        by (auto simp: unlockPending_def isUnlocking_def split: reqPc.splits intro: chan_step.intros)
    next
      case False
      with assms(1) Locking have "\<not> ch_locked c" by (simp add: lock_inv_def beforeLock_def)
      with Locking left show ?thesis by (blast intro: chan_step.lock)
    qed
  qed (use assms(2) left in \<open>blast intro: chan_step.intros\<close>)+
qed

text \<open>The window that the client will still grant.\<close>

primrec grants :: "peerMsg list \<Rightarrow> nat" where
  "grants [] = 0"
| "grants (p # ps) = (case p of Grants n \<Rightarrow> unat n | _ \<Rightarrow> 0) + grants ps"

text \<open>No more is sent than the client allows.\<close>

definition spent_inv :: "nat \<Rightarrow> chanRun \<Rightarrow> bool" where
  "spent_inv n c \<longleftrightarrow> length (ch_out c) + unat (w_win (ch_win c)) + grants (ch_arriving c) \<le> n"

lemma arrive_spent: "arrive p (c\<lparr>ch_arriving := ps\<rparr>) = Some c'
  \<Longrightarrow> unat (w_win (ch_win c')) + grants (ch_arriving c') \<le> unat (w_win (ch_win c)) + grants (p # ps)"
proof (cases p)
  case (Grants n)
  moreover obtain w ok where w: "window_add (ch_win c) n = (w, ok)" by (cases "window_add (ch_win c) n")
  moreover assume "arrive p (c\<lparr>ch_arriving := ps\<rparr>) = Some c'"
  ultimately show ?thesis using window_add_spec(2) [OF w]
    by (cases ok) (auto simp: arrive_def cutOff_def window_close_def)
qed (auto simp: arrive_def cutOff_def window_close_def split: if_splits)

lemma spent_inv_step: "chan_step c c' \<Longrightarrow> size_inv c \<Longrightarrow> spent_inv n c \<Longrightarrow> spent_inv n c'"
proof (induction rule: chan_step.induct)
  case (deliver c p ps c')
  with arrive_spent [OF deliver(2)] show ?case by (simp add: spent_inv_def arrive_frame [OF deliver(2)])
next
  case (piece c w k err)
  then show ?case using reservePiece_size [of c w k err] by (auto simp: spent_inv_def writePiece_def)
qed (auto simp: spent_inv_def unlockReq_def takeRequest_def replyRequest_def)

text \<open>The window suffices for all that is still to be written, or the client will close the channel.\<close>

definition fed :: "chanRun \<Rightarrow> bool" where
  "fed c \<longleftrightarrow> w_closed (ch_win c) \<or> Closes \<in> set (ch_arriving c)
     \<or> toWrite (ch_main c) + length (ch_left c) \<le> unat (w_win (ch_win c)) + grants (ch_arriving c)"

lemma arrive_fed:
  assumes "arrive p (c\<lparr>ch_arriving := ps\<rparr>) = Some c'" "ch_arriving c = p # ps" "fed c"
  shows "fed c'"
proof (cases p)
  case (Grants n)
  obtain w ok where w: "window_add (ch_win c) n = (w, ok)" by (cases "window_add (ch_win c) n")
  have cl: "w_closed w = w_closed (ch_win c)" using w by (auto simp: window_add_def split: if_splits)
  show ?thesis
  proof (cases ok)
    case True
    with w window_add_spec(2) [OF w] assms Grants cl show ?thesis by (auto simp: arrive_def fed_def)
  qed (use w assms Grants in \<open>auto simp: arrive_def fed_def cutOff_def window_close_def\<close>)
qed (use assms in \<open>auto simp: arrive_def fed_def cutOff_def window_close_def split: if_splits\<close>)

lemma fed_step: "chan_step c c' \<Longrightarrow> size_inv c \<Longrightarrow> fed c \<Longrightarrow> fed c'"
proof (induction rule: chan_step.induct)
  case (deliver c p ps c')
  then show ?case by (blast intro: arrive_fed)
next
  case (piece c w k err)
  then show ?case using reservePiece_size [of c w k err] by (auto simp: fed_def writePiece_def)
qed (auto simp: fed_def unlockReq_def takeRequest_def replyRequest_def onlyIf_def)

lemma fed_not_waiting: "fed c \<Longrightarrow> \<not> waiting c"
  by (auto simp: fed_def waiting_def reservePiece_None)

section \<open>What the client reads\<close>

text \<open>The requests that arrive on the channel before it is closed.\<close>

fun asked :: "peerMsg list \<Rightarrow> sshRequest list" where
  "asked [] = []"
| "asked (p # ps) = (case p of Asks r \<Rightarrow> r # asked ps | Closes \<Rightarrow> [] | _ \<Rightarrow> asked ps)"

text \<open>A request that is sent before any request for a shell or a terminal.\<close>

definition early :: "(sshRequest \<Rightarrow> bool) \<Rightarrow> sshRequest list \<Rightarrow> bool" where
  "early P reqs \<longleftrightarrow> (\<exists>r\<in>set (takeWhile (\<lambda>r. \<not> goAhead r) reqs). P r)"

lemma early_taken: "early P reqs \<Longrightarrow> prefix as reqs \<Longrightarrow> \<exists>r\<in>set as. goAhead r \<Longrightarrow> \<exists>r\<in>set as. P r"
  by (auto simp: early_def prefix_def takeWhile_append split: if_splits) (blast dest: set_takeWhileD)

definition repliesTo :: "sshRequest list \<Rightarrow> bool list" where
  "repliesTo rs = map goAhead (filter rq_WantReply rs)"

lemma repliesTo_snoc: "repliesTo (rs @ [r]) = repliesTo rs @ (if rq_WantReply r then [goAhead r] else [])"
  by (simp add: repliesTo_def)

lemma request_types: "isAgentReq r \<Longrightarrow> \<not> goAhead r" "isX11Req r \<Longrightarrow> \<not> goAhead r" "isX11Req r \<Longrightarrow> \<not> isAgentReq r"
  by (simp_all add: isAgentReq_def isX11Req_def goAhead_def)

text \<open>The requests that have been answered: all that were taken but the one at hand.\<close>

definition answered :: "chanRun \<Rightarrow> sshRequest list" where
  "answered c = (case ch_req c of RWait \<Rightarrow> ch_taken c | _ \<Rightarrow> butlast (ch_taken c))"

definition replies_inv :: "chanRun \<Rightarrow> bool" where
  "replies_inv c \<longleftrightarrow> prefix (ch_replies c) (repliesTo (answered c))
     \<and> (\<not> severed c \<and> ch_main c \<noteq> Closed \<longrightarrow> ch_replies c = repliesTo (answered c))
     \<and> (case ch_req c of RWait \<Rightarrow> True
        | RUnlock r \<Rightarrow> goAhead r \<and> ch_taken c \<noteq> [] \<and> last (ch_taken c) = r
        | RReply r ok \<Rightarrow> ok = goAhead r \<and> ch_taken c \<noteq> [] \<and> last (ch_taken c) = r)"

lemma replies_inv_cong:
  assumes "replies_inv c" "ch_replies c' = ch_replies c" "ch_req c' = ch_req c" "ch_taken c' = ch_taken c"
    "severed c \<Longrightarrow> severed c'" "ch_main c = Closed \<Longrightarrow> ch_main c' = Closed"
  shows "replies_inv c'"
  using assms unfolding replies_inv_def answered_def by (metis (no_types))

lemma replies_inv_take: "replies_inv c \<Longrightarrow> ch_req c = RWait \<Longrightarrow> replies_inv (takeRequest r (c\<lparr>ch_inbox := rs, ch_taken := ch_taken c @ [r]\<rparr>))"
  by (auto simp: replies_inv_def answered_def takeRequest_def severed_def request_types)

lemma replies_inv_reply:
  assumes "ch_req c = RReply r ok" "replies_inv c"
  shows "replies_inv (replyRequest r ok c)"
proof -
  have t: "ch_taken c = butlast (ch_taken c) @ [r]" "ok = goAhead r"
    using assms append_butlast_last_id [of "ch_taken c"] by (auto simp: replies_inv_def)
  have rt: "repliesTo (ch_taken c) = repliesTo (butlast (ch_taken c)) @ (if rq_WantReply r then [goAhead r] else [])"
    by (subst t(1)) (rule repliesTo_snoc)
  show ?thesis using assms t(2) by (auto simp: replies_inv_def answered_def replyRequest_def severed_def rt)
qed

lemma replies_inv_step: "chan_step c c' \<Longrightarrow> replies_inv c \<Longrightarrow> replies_inv c'"
proof (induction rule: chan_step.induct)
  case (deliver c p ps c')
  have "severed c \<Longrightarrow> severed c'" using arrive_frame(13) [OF deliver(2)] by (simp add: severed_def)
  then show ?case by (intro replies_inv_cong [OF deliver(3)]) (simp_all add: arrive_frame [OF deliver(2)])
next
  case (request c r rs)
  then show ?case by (simp add: replies_inv_take)
next
  case (reply c r ok)
  then show ?case by (rule replies_inv_reply)
next
  case (piece c w k err)
  have "w_closed w = w_closed (ch_win c)"
    using piece(2) by (auto simp: reservePiece_def window_reserve_def reserve_enter_def reserve_leave_def Let_def split: if_splits)
  then show ?case using piece(3) by (intro replies_inv_cong [OF piece(3)]) (simp_all add: writePiece_frame severed_def)
qed (auto simp: replies_inv_def answered_def unlockReq_def severed_def split: reqPc.splits)

text \<open>The requests arrive and are taken in order, and the flags say what has been taken.\<close>

definition flags_inv :: "sshRequest list \<Rightarrow> chanRun \<Rightarrow> bool" where
  "flags_inv reqs c \<longleftrightarrow> prefix (ch_taken c @ ch_inbox c @ asked (ch_arriving c)) reqs
     \<and> (ch_agentFwd c \<longleftrightarrow> (\<exists>r\<in>set (ch_taken c). isAgentReq r)) \<and> (ch_x11 c \<longleftrightarrow> (\<exists>r\<in>set (ch_taken c). isX11Req r))
     \<and> (ch_timer c = Stopped \<longrightarrow> (\<exists>r\<in>set (ch_taken c). goAhead r))"

lemma arrive_asked:
  assumes "arrive p (c\<lparr>ch_arriving := ps\<rparr>) = Some c'"
  shows "prefix (ch_inbox c' @ asked (ch_arriving c')) (ch_inbox c @ asked (p # ps))"
  using assms by (auto simp: arrive_def cutOff_def split: peerMsg.splits if_splits prod.splits bool.splits)

lemma flags_inv_step: "chan_step c c' \<Longrightarrow> flags_inv reqs c \<Longrightarrow> flags_inv reqs c'"
proof (induction rule: chan_step.induct)
  case (deliver c p ps c')
  have "prefix (ch_taken c @ ch_inbox c' @ asked (ch_arriving c')) (ch_taken c @ ch_inbox c @ asked (ch_arriving c))"
    using arrive_asked [OF deliver(2)] deliver(1) by simp
  also have "prefix \<dots> reqs" using deliver(3) by (simp add: flags_inv_def)
  finally show ?case using deliver(3) by (simp add: flags_inv_def arrive_frame [OF deliver(2)])
next
  case (request c r rs)
  then show ?case by (simp add: flags_inv_def takeRequest_def request_types)
qed (simp_all add: flags_inv_def unlockReq_def replyRequest_def writePiece_frame)

lemma flags_taken: "flags_inv reqs c \<Longrightarrow> prefix (ch_taken c) reqs"
  by (auto simp: flags_inv_def dest: append_prefixD)

text \<open>The other goroutines leave the main goroutine and its writes alone.\<close>

lemma main_frame:
  "ch_main (unlockReq c) = ch_main c" "ch_left (unlockReq c) = ch_left c" "ch_out (unlockReq c) = ch_out c"
  "ch_main (takeRequest r c) = ch_main c" "ch_left (takeRequest r c) = ch_left c" "ch_out (takeRequest r c) = ch_out c"
  "ch_main (replyRequest r ok c) = ch_main c" "ch_left (replyRequest r ok c) = ch_left c" "ch_out (replyRequest r ok c) = ch_out c"
  "severed (unlockReq c) = severed c" "severed (takeRequest r c) = severed c" "severed (replyRequest r ok c) = severed c"
  by (simp_all add: unlockReq_def takeRequest_def replyRequest_def severed_def)

text \<open>The main goroutine goes on one step at a time.\<close>

lemma main_next: "chan_step c c' \<Longrightarrow> ch_main c' = ch_main c \<or> mainWeight (ch_main c) = Suc (mainWeight (ch_main c'))"
  by (induction rule: chan_step.induct) (auto simp: main_frame arrive_frame writePiece_frame)

lemma closed_left: "chan_step c c' \<Longrightarrow> ch_main c = Closed \<Longrightarrow> ch_left c = '''' \<Longrightarrow> ch_left c' = ''''"
  by (induction rule: chan_step.induct) (auto simp: main_frame arrive_frame)

lemma closing_left: "chan_step c c' \<Longrightarrow> ch_main c = Closing \<Longrightarrow> ch_main c' \<noteq> Closing \<Longrightarrow> ch_main c' = Closed \<and> ch_left c' = ''''"
  by (induction rule: chan_step.induct) (auto simp: main_frame arrive_frame writePiece_frame)

lemma main_le: "chan_step\<^sup>*\<^sup>* c c' \<Longrightarrow> mainWeight (ch_main c') \<le> mainWeight (ch_main c)"
  by (induction rule: rtranclp_induct) (auto dest!: main_next)

lemma passes:
  assumes "chan_step\<^sup>*\<^sup>* s c" "mainWeight (ch_main c) \<le> k" "k < mainWeight (ch_main s)"
  shows "\<exists>d d'. chan_step\<^sup>*\<^sup>* s d \<and> chan_step d d' \<and> chan_step\<^sup>*\<^sup>* d' c \<and> mainWeight (ch_main d) = Suc k \<and> mainWeight (ch_main d') = k"
  using assms
proof (induction rule: rtranclp_induct)
  case (step y z)
  show ?case
  proof (cases "mainWeight (ch_main y) \<le> k")
    case True
    with step show ?thesis by (meson rtranclp.rtrancl_into_rtrancl)
  next
    case False
    then have "mainWeight (ch_main y) = Suc k" "mainWeight (ch_main z) = k" using main_next [OF step(2)] step(4) by auto
    with step(1,2) show ?thesis by blast
  qed
qed simp

text \<open>It has been sent what was to be written up to what is left of the current write; once cut off, nothing more is sent.\<close>

definition sent_inv :: "chanRun \<Rightarrow> string \<Rightarrow> bool" where
  "sent_inv c t \<longleftrightarrow> (if severed c then prefix (ch_out c) t else ch_out c @ ch_left c = t)"

lemma sent_inv_cong:
  assumes "sent_inv c t" "ch_out c' = ch_out c" "ch_left c' = ch_left c" "severed c \<Longrightarrow> severed c'"
  shows "sent_inv c' t"
  using assms by (auto simp: sent_inv_def split: if_splits)

lemma sent_inv_piece:
  assumes "reservePiece c = Some (w, k, err)" "sent_inv c t"
  shows "sent_inv (writePiece w k err c) t"
proof -
  have "w_closed w = w_closed (ch_win c)" "err = None \<longleftrightarrow> \<not> w_closed (ch_win c)"
    using assms(1) by (auto simp: reservePiece_def window_reserve_def reserve_enter_def reserve_leave_def Let_def split: if_splits)
  with assms(2) show ?thesis by (auto simp: sent_inv_def writePiece_def severed_def)
qed

text \<open>While the main goroutine stays where it is, the text stays the same; when it goes on, the next write is added.\<close>

lemma sent_inv_same: "chan_step c c' \<Longrightarrow> ch_main c' = ch_main c \<Longrightarrow> sent_inv c t \<Longrightarrow> sent_inv c' t"
proof (induction rule: chan_step.induct)
  case (deliver c p ps c')
  have "severed c \<Longrightarrow> severed c'" using arrive_frame(13) [OF deliver(2)] by (simp add: severed_def)
  then show ?case by (intro sent_inv_cong [OF deliver(4)]) (simp_all add: arrive_frame [OF deliver(2)])
next
  case (piece c w k err)
  then show ?case by (intro sent_inv_piece)
qed (auto elim!: sent_inv_cong simp: main_frame severed_def [of "_\<lparr>ch_timer := _\<rparr>"] severed_def [of "_\<lparr>ch_req := _\<rparr>"]
    severed_def [of "_\<lparr>ch_inbox := _, ch_taken := _\<rparr>"], simp_all add: severed_def)

lemma sent_inv_on:
  "chan_step c c' \<Longrightarrow> ch_main c' \<noteq> ch_main c \<Longrightarrow> sent_inv c t \<Longrightarrow> sent_inv c' (t @ ch_left c')"
proof (induction rule: chan_step.induct)
  case (deliver c p ps c')
  then show ?case by (simp add: arrive_frame [OF deliver(2)])
qed (auto simp: sent_inv_def severed_def main_frame writePiece_frame)

lemma sent_inv_stays:
  assumes "chan_step\<^sup>*\<^sup>* c c'" "ch_main c' = ch_main c" "sent_inv c t"
  shows "sent_inv c' t"
  using assms
proof (induction rule: rtranclp_induct)
  case (step y z)
  have "mainWeight (ch_main y) \<le> mainWeight (ch_main c)" using main_le [OF step(1)] .
  then have "ch_main z = ch_main y" using main_next [OF step(2)] step(4) by auto
  with step show ?case by (auto intro: sent_inv_same)
qed

text \<open>The writes of the report itself: \<open>ts\<close> are still to come.\<close>

definition report_inv :: "string list \<Rightarrow> chanRun \<Rightarrow> bool" where
  "report_inv texts c = (case ch_main c of
       Writing ts \<Rightarrow> \<exists>t. t @ concat ts = concat texts \<and> sent_inv c t
     | Locking \<Rightarrow> sent_inv c (concat texts)
     | TellAgent \<Rightarrow> sent_inv c (concat texts)
     | _ \<Rightarrow> True)"

lemma report_inv_step:
  assumes "chan_step c c'" "report_inv texts c"
  shows "report_inv texts c'"
proof (cases "ch_main c' = ch_main c")
  case True
  with assms sent_inv_same [OF assms(1) True] show ?thesis by (auto simp: report_inv_def split: mainPc.splits)
next
  case False
  note on = sent_inv_on [OF assms(1) False]
  from assms(1) False assms(2) on show ?thesis
  proof cases
    case (write_text t ts)
    then obtain u where "u @ t @ concat ts = concat texts" "sent_inv c u" using assms(2) by (auto simp: report_inv_def)
    with on [of u] write_text show ?thesis by (auto simp: report_inv_def intro!: exI [of _ "u @ t"])
  next
    case (deliver p ps)
    with False show ?thesis by (simp add: arrive_frame)
  qed (use on in \<open>auto simp: report_inv_def main_frame writePiece_frame split: mainPc.splits\<close>)
qed

text \<open>
  A run from \<open>s\<close> to \<open>c\<close>, with the moments when the flags are read: \<open>agentFwd\<close> in the step from \<open>d\<close> to
  \<open>d'\<close> and \<open>x11\<close> in the step from \<open>e\<close> to \<open>e'\<close>.
\<close>

definition tellRun :: "chanRun \<Rightarrow> chanRun \<Rightarrow> chanRun \<Rightarrow> chanRun \<Rightarrow> chanRun \<Rightarrow> chanRun \<Rightarrow> bool" where
  "tellRun s d d' e e' c \<longleftrightarrow> chan_step\<^sup>*\<^sup>* s d \<and> chan_step d d' \<and> chan_step\<^sup>*\<^sup>* d' e \<and> chan_step e e' \<and> chan_step\<^sup>*\<^sup>* e' c
     \<and> ch_main d = TellAgent \<and> ch_main d' = TellX11 \<and> ch_main e = TellX11 \<and> ch_main e' = Closing"

lemma mainWeight_pc:
  "mainWeight m = 3 \<longleftrightarrow> m = TellAgent" "mainWeight m = 2 \<longleftrightarrow> m = TellX11" "mainWeight m = 1 \<longleftrightarrow> m = Closing"
  by (cases m; simp)+

lemma tellRun_exists:
  assumes "chan_step\<^sup>*\<^sup>* s c" "ch_main s = Writing ts" "ch_main c = Closed"
  shows "\<exists>d d' e e'. tellRun s d d' e e' c"
proof -
  obtain d d' where d: "chan_step\<^sup>*\<^sup>* s d" "chan_step d d'" "chan_step\<^sup>*\<^sup>* d' c" "mainWeight (ch_main d) = 3" "mainWeight (ch_main d') = 2"
    using passes [OF assms(1), of 2] assms(2,3) by auto
  obtain e e' where e: "chan_step\<^sup>*\<^sup>* d' e" "chan_step e e'" "chan_step\<^sup>*\<^sup>* e' c" "mainWeight (ch_main e) = 2" "mainWeight (ch_main e') = 1"
    using passes [OF d(3), of 1] d(5) assms(3) by auto
  from d e show ?thesis unfolding tellRun_def mainWeight_pc by blast
qed

lemma told_agent:
  "chan_step d d' \<Longrightarrow> ch_main d = TellAgent \<Longrightarrow> ch_main d' = TellX11 \<Longrightarrow> ch_left d' = onlyIf (ch_agentFwd d) agentMsg"
  by (induction rule: chan_step.induct) (simp_all add: main_frame arrive_frame writePiece_frame)

lemma told_x11:
  "chan_step e e' \<Longrightarrow> ch_main e = TellX11 \<Longrightarrow> ch_main e' = Closing \<Longrightarrow> ch_left e' = onlyIf (ch_x11 e) x11Msg"
  by (induction rule: chan_step.induct) (simp_all add: main_frame arrive_frame writePiece_frame)

text \<open>The end of a run: the close message adds nothing.\<close>

lemma sent_inv_close:
  assumes "chan_step\<^sup>*\<^sup>* c c'" "ch_main c = Closing" "sent_inv c t"
  shows "sent_inv c' t"
proof -
  have "sent_inv c' t \<and> (ch_main c' = Closing \<or> ch_main c' = Closed \<and> ch_left c' = '''')"
    using assms
  proof (induction rule: rtranclp_induct)
    case (step y z)
    then have i: "sent_inv y t" "ch_main y = Closing \<or> ch_main y = Closed \<and> ch_left y = ''''" by blast+
    show ?case
    proof (cases "ch_main z = ch_main y")
      case True
      with i sent_inv_same [OF step(2) True] closed_left [OF step(2)] show ?thesis by auto
    next
      case False
      then have "ch_main y = Closing" using i(2) main_next [OF step(2)] by auto
      with closing_left [OF step(2)] False sent_inv_on [OF step(2) False i(1)] show ?thesis by simp
    qed
  qed simp
  then show ?thesis by blast
qed

lemma tellRun_sent:
  assumes "tellRun s d d' e e' c" "report_inv texts d"
  shows "sent_inv c (concat texts @ onlyIf (ch_agentFwd d) agentMsg @ onlyIf (ch_x11 e) x11Msg)"
proof -
  note r = assms(1) [unfolded tellRun_def]
  have "sent_inv d (concat texts)" using assms(2) r by (simp add: report_inv_def)
  then have "sent_inv d' (concat texts @ onlyIf (ch_agentFwd d) agentMsg)" using sent_inv_on [of d d'] told_agent [of d d'] r by auto
  then have "sent_inv e (concat texts @ onlyIf (ch_agentFwd d) agentMsg)" using sent_inv_stays [of d' e] r by auto
  then have "sent_inv e' (concat texts @ onlyIf (ch_agentFwd d) agentMsg @ onlyIf (ch_x11 e) x11Msg)"
    using sent_inv_on [of e e' "concat texts @ onlyIf (ch_agentFwd d) agentMsg"] told_x11 [of e e'] r by simp
  then show ?thesis using sent_inv_close [of e' c] r by blast
qed

section \<open>The contracts of a channel\<close>

text \<open>A packet size that is not zero, and texts whose length fits 32 bits.\<close>

definition sendable :: "uint32 \<Rightarrow> string list \<Rightarrow> bool" where
  "sendable payload texts \<longleftrightarrow> 0 < payload \<and> (\<forall>t\<in>set texts. length t < 2 ^ 32)"

text \<open>The window lets all texts through, or the client closes the channel in the end.\<close>

definition enough :: "string list \<Rightarrow> uint32 \<Rightarrow> peerMsg list \<Rightarrow> bool" where
  "enough texts win peer \<longleftrightarrow> Closes \<in> set peer
     \<or> length (concat texts) + length agentMsg + length x11Msg \<le> unat win + grants peer"

definition run_inv :: "nat \<Rightarrow> chanRun \<Rightarrow> bool" where
  "run_inv n c \<longleftrightarrow> lock_inv c \<and> size_inv c \<and> spent_inv n c"

lemma run_inv_start: "sendable payload texts \<Longrightarrow> run_inv (unat win + grants peer) (startChan texts win payload peer)"
  using lock_inv_start [of texts win payload peer]
  by (simp add: run_inv_def size_inv_def spent_inv_def sendable_def startChan_def)

lemma run_inv_step: "chan_step c c' \<Longrightarrow> run_inv n c \<Longrightarrow> run_inv n c'"
  unfolding run_inv_def by (blast intro: lock_inv_step size_inv_step spent_inv_step)

interpretation chan: terminating_system "\<lambda>c. c = startChan texts win payload peer \<and> sendable payload texts" chan_step
    "run_inv (unat win + grants peer)" chanWeight "\<lambda>c. ch_main c = Closed \<or> waiting c" for texts win payload peer
proof unfold_locales
  show "run_inv n c \<Longrightarrow> \<not> (ch_main c = Closed \<or> waiting c) \<Longrightarrow> \<exists>c'. chan_step c c'" for n c
    by (simp add: run_inv_def chan_progress)
qed (auto simp: run_inv_start run_inv_step, simp_all add: run_inv_def chanWeight_step)

interpretation fedChan: terminating_system
    "\<lambda>c. c = startChan texts win payload peer \<and> sendable payload texts \<and> enough texts win peer" chan_step
    "\<lambda>c. run_inv (unat win + grants peer) c \<and> fed c" chanWeight "\<lambda>c. ch_main c = Closed" for texts win payload peer
proof unfold_locales
  show "run_inv n c \<and> fed c \<Longrightarrow> ch_main c \<noteq> Closed \<Longrightarrow> \<exists>c'. chan_step c c'" for n c
    by (simp add: run_inv_def chan_progress fed_not_waiting)
  show "c = startChan texts win payload peer \<and> sendable payload texts \<and> enough texts win peer
      \<Longrightarrow> run_inv (unat win + grants peer) c \<and> fed c" for c
    by (auto simp: run_inv_start) (auto simp: fed_def enough_def startChan_def)
  show "chan_step c c' \<Longrightarrow> run_inv n c \<and> fed c \<Longrightarrow> run_inv n c' \<and> fed c'" for n c c'
    by (auto simp: run_inv_step) (auto simp: run_inv_def fed_step)
qed (simp add: run_inv_def chanWeight_step)

text \<open>A client that neither closes the channel nor breaks the connection nor grants more than a window can hold.\<close>

definition quiet :: "nat \<Rightarrow> chanRun \<Rightarrow> bool" where
  "quiet n c \<longleftrightarrow> \<not> severed c \<and> Closes \<notin> set (ch_arriving c) \<and> Breaks \<notin> set (ch_arriving c)
     \<and> length (ch_out c) + unat (w_win (ch_win c)) + grants (ch_arriving c) \<le> n"

lemma arrive_quiet:
  assumes "arrive p (c\<lparr>ch_arriving := ps\<rparr>) = Some c'" "ch_arriving c = p # ps" "quiet n c" "n < 2 ^ 32"
  shows "\<not> severed c' \<and> Closes \<notin> set (ch_arriving c') \<and> Breaks \<notin> set (ch_arriving c')"
proof (cases p)
  case (Grants k)
  obtain w ok where w: "window_add (ch_win c) k = (w, ok)" by (cases "window_add (ch_win c) k")
  have "w_closed w = w_closed (ch_win c)" using w by (auto simp: window_add_def split: if_splits)
  moreover have ok using window_add_spec(1) [OF w] assms(2-4) Grants by (simp add: quiet_def)
  ultimately show ?thesis using assms Grants w by (auto simp: arrive_def quiet_def severed_def)
qed (use assms in \<open>auto simp: arrive_def quiet_def severed_def split: if_splits\<close>)

lemma quiet_step: "chan_step c c' \<Longrightarrow> size_inv c \<Longrightarrow> n < 2 ^ 32 \<Longrightarrow> quiet n c \<Longrightarrow> quiet n c'"
proof (induction rule: chan_step.induct)
  case (deliver c p ps c')
  with arrive_quiet [OF deliver(2,1,5,4)] arrive_spent [OF deliver(2)] show ?case
    by (simp add: quiet_def arrive_frame [OF deliver(2)])
next
  case (piece c w k err)
  then show ?case using reservePiece_size [of c w k err] by (auto simp: quiet_def writePiece_def severed_def)
qed (auto simp: quiet_def unlockReq_def takeRequest_def replyRequest_def severed_def)

interpretation quietChan: invariant_system
    "\<lambda>c. c = startChan texts win payload peer \<and> sendable payload texts \<and> Closes \<notin> set peer \<and> Breaks \<notin> set peer
       \<and> unat win + grants peer < 2 ^ 32" chan_step
    "\<lambda>c. size_inv c \<and> quiet (unat win + grants peer) c \<and> unat win + grants peer < 2 ^ 32" for texts win payload peer
proof unfold_locales
  show "c = startChan texts win payload peer \<and> sendable payload texts \<and> Closes \<notin> set peer \<and> Breaks \<notin> set peer
      \<and> unat win + grants peer < 2 ^ 32
    \<Longrightarrow> size_inv c \<and> quiet (unat win + grants peer) c \<and> unat win + grants peer < 2 ^ 32" for c
    by (auto simp: size_inv_def sendable_def quiet_def severed_def startChan_def)
qed (blast intro: size_inv_step quiet_step)

text \<open>What has been written, asked and answered.\<close>

definition done_inv :: "chanRun \<Rightarrow> bool" where
  "done_inv c \<longleftrightarrow> (ch_main c = Closed \<longrightarrow> ch_left c = '''')"

lemma done_inv_step: "chan_step c c' \<Longrightarrow> done_inv c \<Longrightarrow> done_inv c'"
  using main_next [of c c'] closed_left [of c c'] closing_left [of c c'] mainWeight_pc(3) [of "ch_main c"]
  by (auto simp: done_inv_def)

definition talk_inv :: "string list \<Rightarrow> sshRequest list \<Rightarrow> chanRun \<Rightarrow> bool" where
  "talk_inv texts reqs c \<longleftrightarrow> lock_inv c \<and> flags_inv reqs c \<and> replies_inv c \<and> report_inv texts c \<and> done_inv c"

interpretation talk: invariant_system "\<lambda>c. c = startChan texts win payload peer" chan_step "talk_inv texts (asked peer)"
  for texts win payload peer
proof unfold_locales
  show "c = startChan texts win payload peer \<Longrightarrow> talk_inv texts (asked peer) c" for c
    using lock_inv_start [of texts win payload peer]
    by (auto simp: talk_inv_def done_inv_def flags_inv_def replies_inv_def answered_def report_inv_def sent_inv_def severed_def startChan_def repliesTo_def)
  show "chan_step c c' \<Longrightarrow> talk_inv texts (asked peer) c \<Longrightarrow> talk_inv texts (asked peer) c'" for c c'
    unfolding talk_inv_def by (blast intro: lock_inv_step flags_inv_step replies_inv_step report_inv_step done_inv_step)
qed

lemma talk_closed: "talk_inv texts reqs c \<Longrightarrow> ch_main c = Closed \<Longrightarrow> ch_left c = ''''"
  by (simp add: talk_inv_def done_inv_def)

lemma prefix_repliesTo: "prefix as bs \<Longrightarrow> prefix (repliesTo as) (repliesTo bs)"
  by (auto simp: repliesTo_def prefix_def)

lemma prefix_answered: "prefix (answered c) (ch_taken c)"
  by (auto simp: answered_def prefixeq_butlast split: reqPc.splits)

lemma flags_read:
  assumes "talk_inv texts reqs c"
  shows "ch_agentFwd c \<longleftrightarrow> (\<exists>r\<in>set (ch_taken c). isAgentReq r)" "ch_x11 c \<longleftrightarrow> (\<exists>r\<in>set (ch_taken c). isX11Req r)"
    "prefix (ch_taken c) reqs" "r \<in> set (ch_taken c) \<Longrightarrow> r \<in> set reqs"
  using assms flags_taken [of reqs c] set_mono_prefix [of "ch_taken c" reqs] by (auto simp: talk_inv_def flags_inv_def)

text \<open>Once the lock has been taken and the timer has been stopped, the early requests have been taken.\<close>

lemma early_read:
  assumes "talk_inv texts reqs d" "chan_step\<^sup>*\<^sup>* d c" "\<not> beforeLock (ch_main d)" "ch_timer c = Stopped" "early P reqs"
  shows "\<exists>r\<in>set (ch_taken d). P r"
proof -
  have i: "lock_inv d" "flags_inv reqs d" using assms(1) by (simp_all add: talk_inv_def)
  then have "\<not> unlockPending d" using assms(3) by (auto simp: lock_inv_def)
  from settled [OF assms(2) this] assms(4) have "ch_timer d = Stopped" by simp
  with early_taken [OF assms(5) flags_taken [OF i(2)]] i(2) show ?thesis by (simp add: flags_inv_def)
qed

text \<open>The texts of the run in which \<open>agentFwd\<close> is read in \<open>d\<close> and \<open>x11\<close> in \<open>e\<close>.\<close>

definition saidIn :: "string list \<Rightarrow> chanRun \<Rightarrow> chanRun \<Rightarrow> string" where
  "saidIn texts d e = concat texts @ onlyIf (\<exists>r\<in>set (ch_taken d). isAgentReq r) agentMsg
     @ onlyIf (\<exists>r\<in>set (ch_taken e). isX11Req r) x11Msg"

lemma chan_closed_output:
  assumes "tellRun (startChan texts win payload peer) d d' e e' c"
  shows "sent_inv c (saidIn texts d e)"
    "\<exists>r\<in>set (ch_taken d). P r \<Longrightarrow> \<exists>r\<in>set (asked peer). P r" "\<exists>r\<in>set (ch_taken e). P r \<Longrightarrow> \<exists>r\<in>set (asked peer). P r"
    "ch_timer c = Stopped \<Longrightarrow> early P (asked peer) \<Longrightarrow> \<exists>r\<in>set (ch_taken d). P r"
    "ch_timer c = Stopped \<Longrightarrow> early P (asked peer) \<Longrightarrow> \<exists>r\<in>set (ch_taken e). P r"
proof -
  note r = assms [unfolded tellRun_def]
  have "chan_step\<^sup>*\<^sup>* (startChan texts win payload peer) e" "chan_step\<^sup>*\<^sup>* d c" "chan_step\<^sup>*\<^sup>* e c"
    using r by (meson converse_rtranclp_into_rtranclp rtranclp_trans)+
  note reach = this
  have i: "talk_inv texts (asked peer) d" "talk_inv texts (asked peer) e"
    using talk.inv_reachable [OF refl] r reach(1) by blast+
  show "sent_inv c (saidIn texts d e)"
    using tellRun_sent [OF assms] i(1) unfolding flags_read(1) [OF i(1)] flags_read(2) [OF i(2)] saidIn_def by (simp add: talk_inv_def)
  show "\<exists>r\<in>set (ch_taken d). P r \<Longrightarrow> \<exists>r\<in>set (asked peer). P r" "\<exists>r\<in>set (ch_taken e). P r \<Longrightarrow> \<exists>r\<in>set (asked peer). P r"
    using flags_read(4) [OF i(1)] flags_read(4) [OF i(2)] by blast+
  show "ch_timer c = Stopped \<Longrightarrow> early P (asked peer) \<Longrightarrow> \<exists>r\<in>set (ch_taken d). P r"
    using early_read [OF i(1) reach(2)] r by (simp add: beforeLock_def)
  show "ch_timer c = Stopped \<Longrightarrow> early P (asked peer) \<Longrightarrow> \<exists>r\<in>set (ch_taken e). P r"
    using early_read [OF i(2) reach(3)] r by (simp add: beforeLock_def)
qed

section \<open>The report ends\<close>



text \<open>(C6) When the channel is closed, the run has passed the two moments at which the flags are read, and the client
  has been sent the texts of the report, then the warning about agent forwarding exactly if a request for it had been
  taken at the first moment, and the warning about X11 exactly if a request for it had been taken at the
  second; only a prefix of this has been sent when the client closed the channel or broke the connection. Unless the thirty
  seconds ran out, every request sent before the one for a shell or a terminal had been taken by then. The requests
  are taken in the order in which the client sends them, and each one that wants a reply got one while
  the channel was open, which is true exactly for shell and terminal requests.\<close>

theorem forwarding_warnings:
  assumes "chan_step\<^sup>*\<^sup>* (startChan texts win payload peer) c"
  shows "prefix (ch_taken c) (asked peer) \<and> prefix (ch_replies c) (repliesTo (ch_taken c))
    \<and> (ch_req c = RWait \<and> \<not> severed c \<and> ch_main c \<noteq> Closed \<longrightarrow> ch_replies c = repliesTo (ch_taken c))
    \<and> (ch_main c = Closed \<longrightarrow> (\<exists>d d' e e'. tellRun (startChan texts win payload peer) d d' e e' c))
    \<and> (\<forall>d d' e e'. tellRun (startChan texts win payload peer) d d' e e' c \<and> ch_main c = Closed \<longrightarrow>
         (if severed c then prefix (ch_out c) (saidIn texts d e) else ch_out c = saidIn texts d e)
       \<and> (ch_timer c = Stopped \<longrightarrow>
            (early isAgentReq (asked peer) \<longrightarrow> (\<exists>r\<in>set (ch_taken d). isAgentReq r))
          \<and> (early isX11Req (asked peer) \<longrightarrow> (\<exists>r\<in>set (ch_taken e). isX11Req r)))
       \<and> ((\<exists>r\<in>set (ch_taken d). isAgentReq r) \<longrightarrow> (\<exists>r\<in>set (asked peer). isAgentReq r))
       \<and> ((\<exists>r\<in>set (ch_taken e). isX11Req r) \<longrightarrow> (\<exists>r\<in>set (asked peer). isX11Req r)))"
proof (intro conjI)
  let ?s = "startChan texts win payload peer"
  have i: "talk_inv texts (asked peer) c" by (rule talk.inv_reachable [OF refl assms])
  then have ri: "replies_inv c" by (simp add: talk_inv_def)
  show "prefix (ch_taken c) (asked peer)" by (rule flags_read(3) [OF i])
  show "prefix (ch_replies c) (repliesTo (ch_taken c))"
    using ri prefix_repliesTo [OF prefix_answered [of c]] unfolding replies_inv_def by (blast intro: prefix_order.trans)
  show "ch_req c = RWait \<and> \<not> severed c \<and> ch_main c \<noteq> Closed \<longrightarrow> ch_replies c = repliesTo (ch_taken c)"
    using ri by (auto simp: replies_inv_def answered_def)
  show "ch_main c = Closed \<longrightarrow> (\<exists>d d' e e'. tellRun ?s d d' e e' c)"
    using tellRun_exists [OF assms] by (auto simp: startChan_def)
  have out: "if severed c then prefix (ch_out c) t else ch_out c = t" if "sent_inv c t" "ch_main c = Closed" for t
    using that talk_closed [OF i] by (auto simp: sent_inv_def)
  show "\<forall>d d' e e'. tellRun ?s d d' e e' c \<and> ch_main c = Closed \<longrightarrow>
         (if severed c then prefix (ch_out c) (saidIn texts d e) else ch_out c = saidIn texts d e)
       \<and> (ch_timer c = Stopped \<longrightarrow>
            (early isAgentReq (asked peer) \<longrightarrow> (\<exists>r\<in>set (ch_taken d). isAgentReq r))
          \<and> (early isX11Req (asked peer) \<longrightarrow> (\<exists>r\<in>set (ch_taken e). isX11Req r)))
       \<and> ((\<exists>r\<in>set (ch_taken d). isAgentReq r) \<longrightarrow> (\<exists>r\<in>set (asked peer). isAgentReq r))
       \<and> ((\<exists>r\<in>set (ch_taken e). isX11Req r) \<longrightarrow> (\<exists>r\<in>set (asked peer). isX11Req r))"
  proof (intro allI impI, elim conjE)
    fix d d' e e' assume t: "tellRun ?s d d' e e' c" and closed: "ch_main c = Closed"
    show "(if severed c then prefix (ch_out c) (saidIn texts d e) else ch_out c = saidIn texts d e)
       \<and> (ch_timer c = Stopped \<longrightarrow>
            (early isAgentReq (asked peer) \<longrightarrow> (\<exists>r\<in>set (ch_taken d). isAgentReq r))
          \<and> (early isX11Req (asked peer) \<longrightarrow> (\<exists>r\<in>set (ch_taken e). isX11Req r)))
       \<and> ((\<exists>r\<in>set (ch_taken d). isAgentReq r) \<longrightarrow> (\<exists>r\<in>set (asked peer). isAgentReq r))
       \<and> ((\<exists>r\<in>set (ch_taken e). isX11Req r) \<longrightarrow> (\<exists>r\<in>set (asked peer). isX11Req r))"
      using out [OF chan_closed_output(1) [OF t] closed] chan_closed_output(2) [OF t, of isAgentReq] chan_closed_output(3) [OF t, of isX11Req]
        chan_closed_output(4) [OF t, of isAgentReq] chan_closed_output(5) [OF t, of isX11Req] by (intro conjI impI) simp_all
  qed
qed

text \<open>A scheduler: the step of each goroutine as a function. It makes exactly the steps of the relation.\<close>

datatype actor = TimerActor | RequestActor | MuxActor | MainActor

fun runActor :: "actor \<Rightarrow> chanRun \<Rightarrow> chanRun option" where
  "runActor TimerActor c = (case ch_timer c of
       Armed \<Rightarrow> Some (c\<lparr>ch_timer := Firing\<rparr>)
     | Firing \<Rightarrow> Some (unlockReq (c\<lparr>ch_timer := Fired\<rparr>))
     | _ \<Rightarrow> None)"
| "runActor RequestActor c = (case ch_req c of
       RWait \<Rightarrow> (case ch_inbox c of [] \<Rightarrow> None
          | r # rs \<Rightarrow> Some (takeRequest r (c\<lparr>ch_inbox := rs, ch_taken := ch_taken c @ [r]\<rparr>)))
     | RUnlock r \<Rightarrow> Some (unlockReq (c\<lparr>ch_req := RReply r True\<rparr>))
     | RReply r ok \<Rightarrow> Some (replyRequest r ok c))"
| "runActor MuxActor c = (case ch_arriving c of [] \<Rightarrow> None | p # ps \<Rightarrow> arrive p (c\<lparr>ch_arriving := ps\<rparr>))"
| "runActor MainActor c =
     (if ch_left c \<noteq> '''' then (case reservePiece c of Some (w, k, err) \<Rightarrow> Some (writePiece w k err c) | None \<Rightarrow> None)
      else case ch_main c of
       Writing [] \<Rightarrow> Some (c\<lparr>ch_main := Locking\<rparr>)
     | Writing (t # ts) \<Rightarrow> Some (c\<lparr>ch_left := t, ch_main := Writing ts\<rparr>)
     | Locking \<Rightarrow> if ch_locked c then None else Some (c\<lparr>ch_locked := True, ch_main := TellAgent\<rparr>)
     | TellAgent \<Rightarrow> Some (c\<lparr>ch_left := onlyIf (ch_agentFwd c) agentMsg, ch_main := TellX11\<rparr>)
     | TellX11 \<Rightarrow> Some (c\<lparr>ch_left := onlyIf (ch_x11 c) x11Msg, ch_main := Closing\<rparr>)
     | Closing \<Rightarrow> Some (c\<lparr>ch_main := Closed\<rparr>)
     | Closed \<Rightarrow> None)"

lemma runActor_step:
  assumes "runActor a c = Some c'"
  shows "chan_step c c'"
proof (cases a)
  case MainActor
  show ?thesis
  proof (cases "ch_left c = ''''")
    case True
    with assms MainActor show ?thesis
      by (auto split: mainPc.splits list.splits if_splits intro: chan_step.intros)
  qed (use assms MainActor in \<open>auto split: option.splits intro: chan_step.intros\<close>)
qed (use assms in \<open>auto split: timerState.splits reqPc.splits list.splits intro: chan_step.intros\<close>)

lemma chan_step_iff: "chan_step c c' \<longleftrightarrow> (\<exists>a. runActor a c = Some c')"
proof
  assume "chan_step c c'"
  then show "\<exists>a. runActor a c = Some c'"
  proof cases
    case request then show ?thesis by (intro exI [of _ RequestActor]) simp
  next
    case unlock then show ?thesis by (intro exI [of _ RequestActor]) simp
  next
    case reply then show ?thesis by (intro exI [of _ RequestActor]) simp
  next
    case expire then show ?thesis by (intro exI [of _ TimerActor]) simp
  next
    case fire then show ?thesis by (intro exI [of _ TimerActor]) simp
  next
    case deliver then show ?thesis by (intro exI [of _ MuxActor]) simp
  qed (auto intro: exI [of _ MainActor])
qed (blast intro: runActor_step)

fun runSchedule :: "actor list \<Rightarrow> chanRun \<Rightarrow> chanRun option" where
  "runSchedule [] c = Some c"
| "runSchedule (a # as) c = (case runActor a c of Some c \<Rightarrow> runSchedule as c | None \<Rightarrow> None)"

lemma runSchedule_steps: "runSchedule as c = Some c' \<Longrightarrow> chan_step\<^sup>*\<^sup>* c c'"
  by (induction as arbitrary: c)
    (auto split: option.splits intro: converse_rtranclp_into_rtranclp runActor_step)

definition demoPeer :: "peerMsg list" where
  "demoPeer = [Asks \<lparr>rq_Type = ''auth-agent-req@openssh.com'', rq_WantReply = False\<rparr>, Asks \<lparr>rq_Type = ''shell'', rq_WantReply = True\<rparr>]"

text \<open>A window of 100 bytes lets the first piece of the warning through, and the rest goes out when more is granted.\<close>

definition demoClosed :: "chanRun option" where
  "demoClosed = runSchedule ([MuxActor, MuxActor] @ replicate 5 RequestActor @ replicate 4 MainActor @ [MuxActor] @ replicate 3 MainActor)
     (startChan [] 100 600 (demoPeer @ [Grants 400]))"

lemma demoClosed_end:
  "demoClosed \<noteq> None" "ch_main (the demoClosed) = Closed" "ch_out (the demoClosed) = agentMsg" "\<not> severed (the demoClosed)"
  "ch_replies (the demoClosed) = [True]" "ch_timer (the demoClosed) = Stopped"
  by code_simp+

theorem forwarding_warnings_witness:
  "\<exists>c d d' e e'. tellRun (startChan [] 100 600 (demoPeer @ [Grants 400])) d d' e e' c \<and> ch_main c = Closed
     \<and> ch_out c = agentMsg \<and> agentMsg = saidIn [] d e \<and> (\<exists>r\<in>set (ch_taken d). isAgentReq r)"
proof -
  obtain c where c: "demoClosed = Some c" using demoClosed_end(1) by blast
  then have r: "chan_step\<^sup>*\<^sup>* (startChan [] 100 600 (demoPeer @ [Grants 400])) c"
    unfolding demoClosed_def by (rule runSchedule_steps)
  have e: "early isAgentReq (asked (demoPeer @ [Grants 400]))" by code_simp
  have p: "ch_main c = Closed" "ch_out c = agentMsg" "\<not> severed c" "ch_timer c = Stopped"
    using demoClosed_end(2-4,6) unfolding c option.sel by blast+
  note w = forwarding_warnings [OF r]
  obtain d d' e e' where t: "tellRun (startChan [] 100 600 (demoPeer @ [Grants 400])) d d' e e' c" using w p(1) by blast
  with w p e have "ch_out c = saidIn [] d e \<and> (\<exists>r\<in>set (ch_taken d). isAgentReq r)" by (simp only: if_False simp_thms)
  with t p show ?thesis by metis
qed

section \<open>The loop over the channels of a connection\<close>

text \<open>
  A channel a client asks for: its type, the error of \<^verbatim>\<open>Accept\<close> if it fails, the window and the packet size given
  with it, and what the multiplexer will deliver of it. \<open>Served\<close> holds what has been written to a session channel when
  it is closed, and whether it was cut off. A channel whose write waits for ever is where the loop stops: \<open>Stalled\<close>
  holds what has been written. The marks on the keys stay from one channel to the next, since the keys are shared by
  reference.
\<close>

record openedChannel =
  nc_ChannelType :: string
  nc_Accept :: "goerr option"
  nc_Window :: uint32
  nc_MaxPacket :: uint32
  nc_peer :: "peerMsg list"

datatype serveEvent = Rejected nat string | AcceptFailed goerr | Served string bool | Stalled string

definition UnknownChannelType :: nat where
  "UnknownChannelType = 3"

inductive serve_chans :: "crypto \<Rightarrow> blacklist \<Rightarrow> publicKey list \<Rightarrow> openedChannel list \<Rightarrow> serveEvent list \<Rightarrow> publicKey list \<Rightarrow> bool"
  for cr :: crypto and bl :: blacklist where
  no_more: "serve_chans cr bl keys [] [] keys"
| reject: "nc_ChannelType n \<noteq> ''session'' \<Longrightarrow> serve_chans cr bl keys ns evs keys'
    \<Longrightarrow> serve_chans cr bl keys (n # ns) (Rejected UnknownChannelType ''unknown channel type'' # evs) keys'"
| accept_failed: "nc_ChannelType n = ''session'' \<Longrightarrow> nc_Accept n = Some e \<Longrightarrow> serve_chans cr bl keys ns evs keys'
    \<Longrightarrow> serve_chans cr bl keys (n # ns) (AcceptFailed e # evs) keys'"
| session: "nc_ChannelType n = ''session'' \<Longrightarrow> nc_Accept n = None \<Longrightarrow> channelReport cr bl keys = Ok (keys1, texts, log)
    \<Longrightarrow> chan_step\<^sup>*\<^sup>* (startChan texts (nc_Window n) (nc_MaxPacket n) (nc_peer n)) c \<Longrightarrow> ch_main c = Closed
    \<Longrightarrow> serve_chans cr bl keys1 ns evs keys'
    \<Longrightarrow> serve_chans cr bl keys (n # ns) (Served (ch_out c) (severed c) # evs) keys'"
| stalled: "nc_ChannelType n = ''session'' \<Longrightarrow> nc_Accept n = None \<Longrightarrow> channelReport cr bl keys = Ok (keys1, texts, log)
    \<Longrightarrow> chan_step\<^sup>*\<^sup>* (startChan texts (nc_Window n) (nc_MaxPacket n) (nc_peer n)) c \<Longrightarrow> waiting c
    \<Longrightarrow> serve_chans cr bl keys (n # ns) [Stalled (ch_out c)] keys1"

text \<open>What the event of one channel must be, when the report on the keys of the connection is \<open>texts\<close>.\<close>

definition event_ok :: "string list \<Rightarrow> openedChannel \<Rightarrow> serveEvent \<Rightarrow> bool" where
  "event_ok texts n ev = (case ev of
       Rejected r m \<Rightarrow> nc_ChannelType n \<noteq> ''session'' \<and> r = UnknownChannelType \<and> m = ''unknown channel type''
     | AcceptFailed e \<Rightarrow> nc_ChannelType n = ''session'' \<and> nc_Accept n = Some e
     | Served out brk \<Rightarrow> nc_ChannelType n = ''session'' \<and> nc_Accept n = None
         \<and> (\<exists>a x. (a \<longrightarrow> (\<exists>r\<in>set (asked (nc_peer n)). isAgentReq r)) \<and> (x \<longrightarrow> (\<exists>r\<in>set (asked (nc_peer n)). isX11Req r))
              \<and> (if brk then prefix out (concat texts @ onlyIf a agentMsg @ onlyIf x x11Msg)
                 else out = concat texts @ onlyIf a agentMsg @ onlyIf x x11Msg))
     | Stalled out \<Rightarrow> nc_ChannelType n = ''session'' \<and> nc_Accept n = None \<and> \<not> enough texts (nc_Window n) (nc_peer n))"

definition isStalled :: "serveEvent \<Rightarrow> bool" where
  "isStalled ev = (case ev of Stalled _ \<Rightarrow> True | _ \<Rightarrow> False)"

text \<open>The events of a run of the loop: one for each channel in order, up to one that stalls.\<close>

fun events_ok :: "string list \<Rightarrow> openedChannel list \<Rightarrow> serveEvent list \<Rightarrow> bool" where
  "events_ok texts [] evs \<longleftrightarrow> evs = []"
| "events_ok texts (n # ns) [] \<longleftrightarrow> False"
| "events_ok texts (n # ns) (ev # evs) \<longleftrightarrow> event_ok texts n ev \<and> (if isStalled ev then evs = [] else events_ok texts ns evs)"

lemma events_ok_all:
  "events_ok texts ns evs \<Longrightarrow> \<forall>n\<in>set ns. nc_ChannelType n = ''session'' \<and> nc_Accept n = None \<longrightarrow> enough texts (nc_Window n) (nc_peer n)
     \<Longrightarrow> list_all2 (event_ok texts) ns evs"
  by (induction texts ns evs rule: events_ok.induct) (auto simp: event_ok_def isStalled_def split: serveEvent.splits)

lemma markKey_again: "markKey bl k = Ok k' \<Longrightarrow> markKey bl k' = Ok k'"
  by (cases "MarshalAuthorizedKey (pk_key k)") (auto simp: markKey_def split: if_splits)

lemma markKey_key: "markKey bl k = Ok k' \<Longrightarrow> pk_key k' = pk_key k"
  by (cases "MarshalAuthorizedKey (pk_key k)") (auto simp: markKey_def split: if_splits)

lemma markBlacklistedKeys_ConsE:
  assumes "markBlacklistedKeys bl (k # ks) = Ok ks'"
  obtains k1 ks1 where "markKey bl k = Ok k1" "markBlacklistedKeys bl ks = Ok ks1" "ks' = k1 # ks1"
  using assms by (cases "markKey bl k"; cases "markBlacklistedKeys bl ks") auto

lemma markBlacklistedKeys_again: "markBlacklistedKeys bl ks = Ok ks' \<Longrightarrow> markBlacklistedKeys bl ks' = Ok ks'"
proof (induction ks arbitrary: ks')
  case (Cons k ks)
  then obtain k1 ks1 where k: "markKey bl k = Ok k1" "markBlacklistedKeys bl ks = Ok ks1" "ks' = k1 # ks1"
    by (blast elim: markBlacklistedKeys_ConsE)
  with Cons.IH [OF k(2)] markKey_again [OF k(1)] show ?case by simp
qed simp

lemma channelReport_again:
  assumes "channelReport cr bl keys = Ok (ks, texts, log)"
  shows "channelReport cr bl ks = Ok (ks, texts, log)"
proof -
  obtain ks0 where k: "markBlacklistedKeys bl keys = Ok ks0"
    using assms by (cases "markBlacklistedKeys bl keys") (auto simp: channelReport_def)
  let ?r = "reportKeys cr \<lparr>rf_blacklisted = False, rf_weak = False, rf_dsa = False, rf_log = []\<rparr>"
  obtain fl rows where "?r ks0 = Ok (fl, rows)" using assms k by (cases "?r ks0") (auto simp: channelReport_def)
  with assms k markBlacklistedKeys_again [OF k] show ?thesis by (auto simp: channelReport_def)
qed

lemma served_ok:
  assumes "nc_ChannelType n = ''session''" "nc_Accept n = None" "ch_main c = Closed"
    and "chan_step\<^sup>*\<^sup>* (startChan texts (nc_Window n) (nc_MaxPacket n) (nc_peer n)) c"
  shows "event_ok texts n (Served (ch_out c) (severed c))"
proof -
  obtain d d' e e' where t: "tellRun (startChan texts (nc_Window n) (nc_MaxPacket n) (nc_peer n)) d d' e e' c"
    using tellRun_exists [OF assms(4) _ assms(3)] by (auto simp: startChan_def)
  have "sent_inv c (saidIn texts d e)" "ch_left c = ''''"
    using chan_closed_output(1) [OF t] talk_closed [OF talk.inv_reachable [OF refl assms(4)] assms(3)] .
  then have "if severed c then prefix (ch_out c) (saidIn texts d e) else ch_out c = saidIn texts d e"
    by (simp add: sent_inv_def split: if_splits)
  then show ?thesis
    using assms(1,2) chan_closed_output(2) [OF t, of isAgentReq] chan_closed_output(3) [OF t, of isX11Req]
    unfolding event_ok_def saidIn_def serveEvent.case by blast
qed

lemma stalled_ok:
  assumes "nc_ChannelType n = ''session''" "nc_Accept n = None" "waiting c" "sendable (nc_MaxPacket n) texts"
    and "chan_step\<^sup>*\<^sup>* (startChan texts (nc_Window n) (nc_MaxPacket n) (nc_peer n)) c"
  shows "event_ok texts n (Stalled (ch_out c))"
proof -
  have "\<not> enough texts (nc_Window n) (nc_peer n)"
    using fedChan.inv_reachable [OF _ assms(5)] assms(3,4) fed_not_waiting by blast
  with assms(1,2) show ?thesis by (simp add: event_ok_def)
qed

lemma serve_chans_events:
  assumes "serve_chans cr bl keys ns evs keys'" "channelReport cr bl keys = Ok (ks, texts, log)"
    and "\<forall>n\<in>set ns. sendable (nc_MaxPacket n) texts"
  shows "events_ok texts ns evs"
  using assms
proof (induction arbitrary: rule: serve_chans.induct)
  case (session n keys keys1 texts' log' c ns evs keys')
  then have eq: "keys1 = ks" "texts' = texts" by simp_all
  with session channelReport_again [OF session.prems(1)] have "events_ok texts ns evs" by simp
  moreover have "event_ok texts n (Served (ch_out c) (severed c))" by (rule served_ok) (use session eq in simp_all)
  ultimately show ?case by (simp add: isStalled_def)
next
  case (stalled n keys keys1 texts' log' c ns)
  have "event_ok texts n (Stalled (ch_out c))" by (rule stalled_ok) (use stalled in simp_all)
  then show ?case by (simp add: isStalled_def)
qed (simp_all add: event_ok_def isStalled_def)

lemma serve_chans_exists:
  assumes "channelReport cr bl keys = Ok (ks, texts, log)" "\<forall>n\<in>set ns. sendable (nc_MaxPacket n) texts"
  shows "\<exists>evs keys'. serve_chans cr bl keys ns evs keys'"
  using assms
proof (induction ns arbitrary: keys)
  case (Cons n ns)
  show ?case
  proof (cases "nc_ChannelType n = ''session''")
    case True
    show ?thesis
    proof (cases "nc_Accept n")
      case None
      have "run_inv (unat (nc_Window n) + grants (nc_peer n)) (startChan texts (nc_Window n) (nc_MaxPacket n) (nc_peer n))"
        using Cons.prems(2) by (simp add: run_inv_start)
      from chan.reaches_final [OF this]
      obtain c where c: "chan_step\<^sup>*\<^sup>* (startChan texts (nc_Window n) (nc_MaxPacket n) (nc_peer n)) c" "ch_main c = Closed \<or> waiting c"
        by blast
      have "\<exists>evs keys'. serve_chans cr bl ks ns evs keys'"
        using Cons.IH [OF channelReport_again [OF Cons.prems(1)]] Cons.prems(2) by simp
      with c Cons.prems(1) True None show ?thesis by (blast intro: serve_chans.session serve_chans.stalled)
    next
      case (Some e)
      obtain evs keys' where "serve_chans cr bl keys ns evs keys'" using Cons.IH [OF Cons.prems(1)] Cons.prems(2) by auto
      from serve_chans.accept_failed [OF True Some this] show ?thesis by blast
    qed
  next
    case False
    obtain evs keys' where "serve_chans cr bl keys ns evs keys'" using Cons.IH [OF Cons.prems(1)] Cons.prems(2) by auto
    from serve_chans.reject [OF False this] show ?thesis by blast
  qed
qed (blast intro: serve_chans.no_more)


definition demoChannels :: "openedChannel list" where
  "demoChannels = [\<lparr>nc_ChannelType = ''x11'', nc_Accept = None, nc_Window = 0, nc_MaxPacket = 9, nc_peer = []\<rparr>,
     \<lparr>nc_ChannelType = ''session'', nc_Accept = None, nc_Window = 0, nc_MaxPacket = 9, nc_peer = demoPeer @ [Grants 5000]\<rparr>]"

lemma demoReport: "case channelReport demoCrypto Map.empty [\<lparr>pk_key = demoKey, pk_blacklisted = False\<rparr>] of
    Ok (ks, texts, log) \<Rightarrow> length (concat texts) < 3000 | _ \<Rightarrow> False"
  by code_simp


end
