(* ===== verification/App.thy ===== *)
theory App
  imports Sessions Serve
begin

text \<open>
  The program as a whole: \<^verbatim>\<open>main\<close> (\<^verbatim>\<open>main.go\<close>) up to the loop that accepts connections, and the
  connections that \<^verbatim>\<open>serve\<close> (\<^verbatim>\<open>server.go\<close>) handles concurrently. The connections share \<^verbatim>\<open>sessions.keys\<close>; every
  access to it is under its lock and is one step of the system.
\<close>

section \<open>Start of the program\<close>

text \<open>The environment of the program: variables, the blacklist directory, the operating system's \<^verbatim>\<open>Listen\<close>.\<close>

record environment =
  env_getenv :: "string \<Rightarrow> string"
  env_readDir :: "dirEntry list res"
  env_listen :: "string \<Rightarrow> goerr option"

record server =
  srv_config :: "appState ServerConfig"
  srv_state :: appState
  srv_addr :: string
  srv_log :: "string list"

definition listenAddr :: "string \<Rightarrow> string" where
  "listenAddr a = (if a = '''' then ''localhost:2022'' else a)"

definition mainInit :: "derlib \<Rightarrow> environment \<Rightarrow> server res" where
  "mainInit dl env =
     rbind (loadBlacklistedKeys (env_readDir env) Map.empty) (\<lambda>bl.
     (case ParsePrivateKey dl (bytes_of (env_getenv env ''HOST_PRIVATE_KEY'')) of
        Err e \<Rightarrow> Err (ErrNew ''Failed to parse host private key'')
      | Panic p \<Rightarrow> Panic p
      | Ok private \<Rightarrow> rbind (AddHostKey appConfig private) (\<lambda>config.
          let addr = listenAddr (env_getenv env ''ADDR'') in
          case env_listen env addr of
            Some e \<Rightarrow> Err (Errorf ''Failed to listen for connection on %s, perhaps that port is already in use'' [AStr addr])
          | None \<Rightarrow> Ok \<lparr>srv_config = config, srv_state = \<lparr>sessions_keys = Map.empty, app_blacklist = bl\<rparr>,
              srv_addr = addr, srv_log = [''Listening on '' @ addr]\<rparr>)))"

text \<open>The loop that accepts connections: a failed \<^verbatim>\<open>Accept\<close> is logged and the loop goes on.\<close>

fun acceptLoop :: "('conn + goerr) list \<Rightarrow> 'conn list \<times> goerr list" where
  "acceptLoop [] = ([], [])"
| "acceptLoop (Inl c # rs) = (let (cs, ws) = acceptLoop rs in (c # cs, ws))"
| "acceptLoop (Inr e # rs) = (let (cs, ws) = acceptLoop rs in (cs, e # ws))"

lemma AddHostKey_appConfig: "AddHostKey appConfig k = Ok (appConfig\<lparr>sc_hostKeys := [k]\<rparr>)"
  by (simp add: AddHostKey_def appConfig_def)

text \<open>(C16) The program starts to serve only if every blacklist file could be read, the host key could be parsed and
  the address could be bound; then the configuration has that host key and the two callbacks, no session
  has keys, and the blacklist is the one loaded.\<close>

theorem main_starts_with:
  assumes "mainInit dl env = Ok srv"
  shows "loadBlacklistedKeys (env_readDir env) Map.empty = Ok (app_blacklist (srv_state srv))
    \<and> (\<exists>k. ParsePrivateKey dl (bytes_of (env_getenv env ''HOST_PRIVATE_KEY'')) = Ok k \<and> sc_hostKeys (srv_config srv) = [k])
    \<and> app_callbacks (srv_config srv) \<and> sessions_keys (srv_state srv) = Map.empty
    \<and> srv_addr srv \<noteq> '''' \<and> env_listen env (srv_addr srv) = None"
proof -
  obtain bl where bl: "loadBlacklistedKeys (env_readDir env) Map.empty = Ok bl"
    using assms by (cases "loadBlacklistedKeys (env_readDir env) Map.empty") (auto simp: mainInit_def)
  obtain k where k: "ParsePrivateKey dl (bytes_of (env_getenv env ''HOST_PRIVATE_KEY'')) = Ok k"
    using assms bl by (cases "ParsePrivateKey dl (bytes_of (env_getenv env ''HOST_PRIVATE_KEY''))") (auto simp: mainInit_def)
  have "env_listen env (listenAddr (env_getenv env ''ADDR'')) = None"
    using assms bl k by (auto simp: mainInit_def AddHostKey_appConfig Let_def split: option.splits)
  moreover have "app_callbacks (appConfig\<lparr>sc_hostKeys := [k]\<rparr>)" using app_callbacks_appConfig by (simp add: app_callbacks_def)
  moreover have "listenAddr a \<noteq> ''''" for a by (simp add: listenAddr_def)
  ultimately show ?thesis
    using assms bl k by (auto simp: mainInit_def AddHostKey_appConfig Let_def)
qed

definition demoDer :: derlib where
  "demoDer = \<lparr>dl_pem = (\<lambda>b. Some (''RSA PRIVATE KEY'', b)),
     dl_pkcs1 = (\<lambda>_. Ok \<lparr>rsaPriv_PublicKey = \<lparr>rsa_E = 17, rsa_N = 55\<rparr>, rsaPriv_D = 33\<rparr>),
     dl_ec = (\<lambda>_. Err EOF), dl_asn1 = (\<lambda>_. Err EOF), dl_error = (\<lambda>_. '''')\<rparr>"

definition demoEnv :: environment where
  "demoEnv = \<lparr>env_getenv = (\<lambda>_. ''''), env_readDir = Ok [], env_listen = (\<lambda>_. None)\<rparr>"

theorem main_starts_with_witness:
  "\<exists>srv. mainInit demoDer demoEnv = Ok srv \<and> app_callbacks (srv_config srv) \<and> srv_addr srv \<noteq> ''''"
proof -
  obtain srv where "mainInit demoDer demoEnv = Ok srv"
    by (simp add: mainInit_def demoDer_def demoEnv_def loadBlacklistedKeys_def ParsePrivateKey_def ParseRawPrivateKey_def
        NewSignerFromKey_def AddHostKey_appConfig Let_def)
  with main_starts_with [OF this] show ?thesis by blast
qed

section \<open>Connections side by side\<close>

text \<open>
  A connection is in its handshake, has failed it, is being served or is finished. The lists of keys in
  \<open>Handshaking\<close>, \<open>HandshakeFailed\<close> and \<open>Serving\<close> record what was presented, in order; \<open>Serving\<close> also
  holds the variable \<^verbatim>\<open>keys\<close>. Session identifiers are hashes of the key exchange; a new connection has one that
  no connection before it had.
\<close>

datatype connPhase = Handshaking "PublicKey list" | HandshakeFailed "PublicKey list"
  | Serving "PublicKey list" "publicKey list" | Finished

record world =
  w_app :: appState
  w_conns :: "bytes \<rightharpoonup> connPhase"

text \<open>The end of \<^verbatim>\<open>serve\<close>: the deferred function.\<close>

definition endSession :: "appState \<Rightarrow> bytes \<Rightarrow> appState" where
  "endSession s sid = s\<lparr>sessions_keys := (sessions_keys s)(sid := None)\<rparr>"

text \<open>
  \<open>markBlacklistedKeys\<close> updates the objects that \<^verbatim>\<open>sessions.keys\<close> refers to as well: the entry of the
  session, if it has one, changes with the variable \<^verbatim>\<open>keys\<close>.
\<close>

definition shareMarks :: "appState \<Rightarrow> bytes \<Rightarrow> publicKey list \<Rightarrow> appState" where
  "shareMarks s sid keys = s\<lparr>sessions_keys := (sessions_keys s)(sid := map_option (\<lambda>_. keys) (sessions_keys s sid))\<rparr>"

inductive app_step :: "world \<Rightarrow> world \<Rightarrow> bool" where
  connect: "w_conns w sid = None \<Longrightarrow> app_step w (w\<lparr>w_conns := (w_conns w)(sid \<mapsto> Handshaking [])\<rparr>)"
| present: "w_conns w sid = Some (Handshaking ks) \<Longrightarrow> cm_SessionID conn = sid \<Longrightarrow> publicKeyCallback (w_app w) conn k = (s, v)
    \<Longrightarrow> app_step w (w\<lparr>w_app := s, w_conns := (w_conns w)(sid \<mapsto> Handshaking (ks @ [k]))\<rparr>)"
| fail: "w_conns w sid = Some (Handshaking ks) \<Longrightarrow> app_step w (w\<lparr>w_conns := (w_conns w)(sid \<mapsto> HandshakeFailed ks)\<rparr>)"
| begin_serving: "w_conns w sid = Some (Handshaking ks)
    \<Longrightarrow> app_step w (w\<lparr>w_conns := (w_conns w)(sid \<mapsto> Serving ks (session_keys (w_app w) sid))\<rparr>)"
| mark: "w_conns w sid = Some (Serving ks keys) \<Longrightarrow> markBlacklistedKeys (app_blacklist (w_app w)) keys = Ok keys'
    \<Longrightarrow> app_step w (w\<lparr>w_app := shareMarks (w_app w) sid keys', w_conns := (w_conns w)(sid \<mapsto> Serving ks keys')\<rparr>)"
| finish: "w_conns w sid = Some (Serving ks keys)
    \<Longrightarrow> app_step w (w\<lparr>w_app := endSession (w_app w) sid, w_conns := (w_conns w)(sid \<mapsto> Finished)\<rparr>)"

definition startWorld :: "blacklist \<Rightarrow> world" where
  "startWorld bl = \<lparr>w_app = \<lparr>sessions_keys = Map.empty, app_blacklist = bl\<rparr>, w_conns = Map.empty\<rparr>"

abbreviation freshKey :: "PublicKey \<Rightarrow> publicKey" where
  "freshKey k \<equiv> \<lparr>pk_key = k, pk_blacklisted = False\<rparr>"

definition entryOf :: "PublicKey list \<Rightarrow> publicKey list option" where
  "entryOf ks = (if ks = [] then None else Some (map freshKey ks))"

definition conn_inv :: "publicKey list option \<Rightarrow> connPhase option \<Rightarrow> bool" where
  "conn_inv e p = (case p of
       None \<Rightarrow> e = None
     | Some (Handshaking ks) \<Rightarrow> e = entryOf ks
     | Some (HandshakeFailed ks) \<Rightarrow> e = entryOf ks
     | Some (Serving ks keys) \<Rightarrow> map pk_key keys = ks \<and> e = (if ks = [] then None else Some keys)
     | Some Finished \<Rightarrow> e = None)"

definition world_inv :: "blacklist \<Rightarrow> world \<Rightarrow> bool" where
  "world_inv bl w \<longleftrightarrow> app_blacklist (w_app w) = bl \<and> (\<forall>sid. conn_inv (sessions_keys (w_app w) sid) (w_conns w sid))"

lemma markBlacklistedKeys_keys: "markBlacklistedKeys bl ks = Ok ks' \<Longrightarrow> map pk_key ks' = map pk_key ks"
proof (induction ks arbitrary: ks')
  case (Cons k ks)
  from Cons.prems obtain k1 ks1 where k: "markKey bl k = Ok k1" "markBlacklistedKeys bl ks = Ok ks1" "ks' = k1 # ks1"
    by (rule markBlacklistedKeys_ConsE)
  with Cons.IH [OF k(2)] markKey_key [OF k(1)] show ?case by simp
qed simp

lemma session_keys_entry: "conn_inv (sessions_keys s sid) (Some (Handshaking ks)) \<Longrightarrow> session_keys s sid = map freshKey ks"
  by (auto simp: conn_inv_def entryOf_def session_keys_def)

lemma world_inv_conn: "world_inv bl w \<Longrightarrow> w_conns w sid = p \<Longrightarrow> conn_inv (sessions_keys (w_app w) sid) p"
  by (auto simp: world_inv_def)

lemma world_inv_update:
  "world_inv bl w \<Longrightarrow> app_blacklist s = app_blacklist (w_app w) \<Longrightarrow> \<forall>t. t \<noteq> sid \<longrightarrow> sessions_keys s t = sessions_keys (w_app w) t
    \<Longrightarrow> conn_inv (sessions_keys s sid) (Some p) \<Longrightarrow> world_inv bl (w\<lparr>w_app := s, w_conns := (w_conns w)(sid \<mapsto> p)\<rparr>)"
  by (simp add: world_inv_def)

lemma world_inv_phase:
  assumes "world_inv bl w" "conn_inv (sessions_keys (w_app w) sid) (Some p)"
  shows "world_inv bl (w\<lparr>w_conns := (w_conns w)(sid \<mapsto> p)\<rparr>)"
  using world_inv_update [OF assms(1) refl, of sid p] assms(2) by simp

lemma world_inv_step: "app_step w w' \<Longrightarrow> world_inv bl w \<Longrightarrow> world_inv bl w'"
proof (induction rule: app_step.induct)
  case (connect w sid)
  show ?case
    by (rule world_inv_phase [OF connect(2)]) (use world_inv_conn [OF connect(2,1)] in \<open>simp add: conn_inv_def entryOf_def\<close>)
next
  case (present w sid ks conn k s v)
  from session_keys_entry [OF world_inv_conn [OF present(4,1)]] present(2,3) show ?case
    by (intro world_inv_update [OF present(4)]) (auto simp: publicKeyCallback_def Let_def conn_inv_def entryOf_def)
next
  case (fail w sid ks)
  show ?case
    by (rule world_inv_phase [OF fail(2)]) (use world_inv_conn [OF fail(2,1)] in \<open>simp add: conn_inv_def\<close>)
next
  case (begin_serving w sid ks)
  note c = world_inv_conn [OF begin_serving(2,1)]
  show ?case
    by (rule world_inv_phase [OF begin_serving(2)])
      (use c session_keys_entry [OF c] in \<open>simp add: conn_inv_def entryOf_def comp_def\<close>)
next
  case (mark w sid ks keys keys')
  show ?case
    by (rule world_inv_update [OF mark(3)])
      (use world_inv_conn [OF mark(3,1)] markBlacklistedKeys_keys [OF mark(2)] in \<open>auto simp: conn_inv_def shareMarks_def\<close>)
next
  case (finish w sid ks keys)
  show ?case by (rule world_inv_update [OF finish(2)]) (simp_all add: conn_inv_def endSession_def)
qed

interpretation app: invariant_system "\<lambda>w. w = startWorld bl" app_step "world_inv bl" for bl
  by unfold_locales (auto simp: world_inv_step, simp add: startWorld_def world_inv_def conn_inv_def)

text \<open>(C7) However the connections interleave, a connection that is being served works on exactly the keys its own
  client presented, in the order of presentation, and these are the keys of its entry in the shared map.\<close>

theorem sessions_are_isolated:
  assumes "app_step\<^sup>*\<^sup>* (startWorld bl) w" "w_conns w sid = Some (Serving ks keys)"
  shows "map pk_key keys = ks \<and> session_keys (w_app w) sid = keys"
proof -
  have "conn_inv (sessions_keys (w_app w) sid) (Some (Serving ks keys))"
    using app.inv_reachable [OF refl assms(1)] assms(2) by (metis world_inv_def)
  then show ?thesis by (auto simp: conn_inv_def session_keys_def split: if_splits)
qed

text \<open>One connection that presents a key, step by step.\<close>

definition demoWorld :: "connPhase \<Rightarrow> world" where
  "demoWorld p = \<lparr>w_app = \<lparr>sessions_keys = [[1, 2] \<mapsto> [freshKey demoKey]], app_blacklist = Map.empty\<rparr>, w_conns = [[1, 2] \<mapsto> p]\<rparr>"

lemma demoWorld_presented: "app_step\<^sup>*\<^sup>* (startWorld Map.empty) (demoWorld (Handshaking [demoKey]))"
proof -
  let ?w = "(startWorld Map.empty)\<lparr>w_conns := [[1, 2] \<mapsto> Handshaking []]\<rparr>"
  have "app_step (startWorld Map.empty) ?w"
    using app_step.connect [of "startWorld Map.empty" "[1, 2]"] by (simp add: startWorld_def)
  moreover have "app_step ?w (demoWorld (Handshaking [demoKey]))"
    using app_step.present [of ?w "[1, 2]" "[]" demoConn demoKey]
    by (simp add: demoWorld_def startWorld_def publicKeyCallback_def session_keys_def demoConn_def)
  ultimately show ?thesis by simp
qed

theorem sessions_are_isolated_witness:
  "app_step\<^sup>*\<^sup>* (startWorld Map.empty) (demoWorld (Serving [demoKey] [freshKey demoKey]))
    \<and> session_keys (w_app (demoWorld (Serving [demoKey] [freshKey demoKey]))) [1, 2] = [freshKey demoKey]"
proof -
  have "app_step (demoWorld (Handshaking [demoKey])) (demoWorld (Serving [demoKey] [freshKey demoKey]))"
    using app_step.begin_serving [of "demoWorld (Handshaking [demoKey])" "[1, 2]" "[demoKey]"]
    by (simp add: demoWorld_def session_keys_def)
  with demoWorld_presented have "app_step\<^sup>*\<^sup>* (startWorld Map.empty) (demoWorld (Serving [demoKey] [freshKey demoKey]))" by simp
  with sessions_are_isolated [OF this, of "[1, 2]" "[demoKey]" "[freshKey demoKey]"] show ?thesis by (simp add: demoWorld_def)
qed

text \<open>(C8) An entry of the shared map is removed when the connection ends, except for connections whose handshake
  fails: when no connection is active, exactly the failed ones that had presented a key still have their
  entry, for the rest of the life of the program.\<close>

theorem failed_handshakes_keep_their_keys:
  assumes "app_step\<^sup>*\<^sup>* (startWorld bl) w"
    and "\<forall>sid p. w_conns w sid = Some p \<longrightarrow> p = Finished \<or> (\<exists>ks. p = HandshakeFailed ks)"
  shows "dom (sessions_keys (w_app w)) = {sid. \<exists>ks. w_conns w sid = Some (HandshakeFailed ks) \<and> ks \<noteq> []}"
proof -
  have i: "conn_inv (sessions_keys (w_app w) sid) (w_conns w sid)" for sid
    using app.inv_reachable [OF refl assms(1)] by (simp add: world_inv_def)
  have "(sessions_keys (w_app w) sid \<noteq> None) \<longleftrightarrow> (\<exists>ks. w_conns w sid = Some (HandshakeFailed ks) \<and> ks \<noteq> [])" for sid
  proof (cases "w_conns w sid")
    case (Some p)
    with assms(2) consider "p = Finished" | ks where "p = HandshakeFailed ks" by blast
    then show ?thesis using i [of sid] Some by cases (simp_all add: conn_inv_def entryOf_def)
  qed (use i [of sid] in \<open>simp add: conn_inv_def\<close>)
  then show ?thesis by (auto simp: dom_def)
qed

theorem failed_handshakes_keep_their_keys_witness:
  "\<exists>w. app_step\<^sup>*\<^sup>* (startWorld Map.empty) w \<and> dom (sessions_keys (w_app w)) = {[1, 2]}"
proof -
  let ?w = "demoWorld (HandshakeFailed [demoKey])"
  have "app_step (demoWorld (Handshaking [demoKey])) ?w"
    using app_step.fail [of "demoWorld (Handshaking [demoKey])" "[1, 2]" "[demoKey]"] by (simp add: demoWorld_def)
  with demoWorld_presented have r: "app_step\<^sup>*\<^sup>* (startWorld Map.empty) ?w" by simp
  have "dom (sessions_keys (w_app ?w)) = {sid. \<exists>ks. w_conns ?w sid = Some (HandshakeFailed ks) \<and> ks \<noteq> []}"
    by (rule failed_handshakes_keep_their_keys [OF r]) (simp add: demoWorld_def)
  with r show ?thesis by (intro exI [of _ ?w]) (simp add: demoWorld_def)
qed

end
