(* ===== verification/Mux.thy ===== *)
theory Mux
  imports Channel Transition
begin

text \<open>
  The multiplexer (\<^verbatim>\<open>mux.go\<close>): it reads packets from the transport, hands them to their channels, queues
  channels and global requests for the application, and closes everything when the transport ends. The
  methods that the application calls on channels and the loop that reads packets run side by side; each is
  one step of \<open>mux_step\<close>.
\<close>

section \<open>Global messages\<close>

definition newMux :: "pktIO \<Rightarrow> mux" where
  "newMux p = \<lparr>mx_conn = p, mx_store = [], mx_chanList = \<lparr>cl_chans = [], cl_offset = 0\<rparr>, mx_incomingChannels = [],
     mx_globalResponses = [], mx_incomingRequests = [], mx_closed = False, mx_err = None\<rparr>"

definition mux_sendMessage :: "mux \<Rightarrow> bytes res \<Rightarrow> mux \<times> unit res" where
  "mux_sendMessage m msg = (case writeMsg (mx_conn m) msg of (io, e) \<Rightarrow> (m\<lparr>mx_conn := io\<rparr>, e))"

text \<open>\<open>SendRequest\<close> up to the receive from \<^verbatim>\<open>globalResponses\<close>, which is \<open>awaitGlobal\<close>.\<close>

definition mux_SendRequest :: "mux \<Rightarrow> string \<Rightarrow> bool \<Rightarrow> bytes \<Rightarrow> mux \<times> unit res" where
  "mux_SendRequest m name wantReply payload = mux_sendMessage m (Marshal globalRequestMsg_T (globalRequestMsg_vals
     \<lparr>globalRequestMsg_Type = name, globalRequestMsg_WantReply = wantReply, globalRequestMsg_Data = payload\<rparr>))"

definition awaitGlobal :: "mux \<Rightarrow> (mux \<times> (bool \<times> bytes) res) option" where
  "awaitGlobal m = (case mx_globalResponses m of
       [] \<Rightarrow> if mx_closed m then Some (m, Err EOF) else None
     | msg # rest \<Rightarrow> Some (m\<lparr>mx_globalResponses := rest\<rparr>, case msg of
           MGlobalRequestFailureMsg f \<Rightarrow> Ok (False, globalRequestFailureMsg_Data f)
         | MGlobalRequestSuccessMsg f \<Rightarrow> Ok (True, globalRequestSuccessMsg_Data f)
         | _ \<Rightarrow> Err (ErrNew ''ssh: unexpected response to request'')))"

definition mux_ackRequest :: "mux \<Rightarrow> bool \<Rightarrow> bytes \<Rightarrow> mux \<times> unit res" where
  "mux_ackRequest m ok data = mux_sendMessage m
     (if ok then Marshal globalRequestSuccessMsg_T (globalRequestSuccessMsg_vals \<lparr>globalRequestSuccessMsg_Data = data\<rparr>)
      else Marshal globalRequestFailureMsg_T (globalRequestFailureMsg_vals \<lparr>globalRequestFailureMsg_Data = data\<rparr>))"

definition Disconnect :: "mux \<Rightarrow> uint32 \<Rightarrow> string \<Rightarrow> mux \<times> unit res" where
  "Disconnect m reason message = mux_sendMessage m (Marshal disconnectMsg_T (disconnectMsg_vals
     \<lparr>disconnectMsg_Reason = reason, disconnectMsg_Message = message, disconnectMsg_Language = ''''\<rparr>))"

text \<open>\<open>Reply\<close> of a request (\<^verbatim>\<open>channel.go\<close>) and \<open>DiscardRequests\<close> (\<^verbatim>\<open>connection.go\<close>), which answers every request with a refusal.\<close>

definition Reply :: "mux \<Rightarrow> Request \<Rightarrow> bool \<Rightarrow> bytes \<Rightarrow> mux \<times> unit res" where
  "Reply m req ok payload =
     (if \<not> req_WantReply req then (m, Ok ())
      else case req_ch req of
        None \<Rightarrow> mux_ackRequest m ok payload
      | Some r \<Rightarrow> channel_ackRequest m r ok)"

fun DiscardRequests :: "mux \<Rightarrow> Request list \<Rightarrow> mux" where
  "DiscardRequests m [] = m"
| "DiscardRequests m (req # reqs) = DiscardRequests (if req_WantReply req then fst (Reply m req False []) else m) reqs"

section \<open>Packets\<close>

text \<open>The error of a disconnect is the message itself.\<close>

definition disconnectError :: "disconnectMsg \<Rightarrow> goerr" where
  "disconnectError d = Errorf ''ssh: disconnect reason %d: %s'' [AInt (uint (disconnectMsg_Reason d)), AStr (disconnectMsg_Message d)]"

definition handleDisconnect :: "mux \<Rightarrow> bytes \<Rightarrow> mux \<times> unit res" where
  "handleDisconnect m packet = (m, rbind (rbind (Unmarshal packet disconnectMsg_T) disconnectMsg_of) (\<lambda>d. Err (disconnectError d)))"

definition handleGlobalPacket :: "mux \<Rightarrow> bytes \<Rightarrow> mux \<times> unit res" where
  "handleGlobalPacket m packet = (case decode packet of
       Err e \<Rightarrow> (m, Err e) | Panic p \<Rightarrow> (m, Panic p)
     | Ok msg \<Rightarrow> (case msg of
           MGlobalRequestMsg g \<Rightarrow> (m\<lparr>mx_incomingRequests := mx_incomingRequests m @ [\<lparr>req_Type = globalRequestMsg_Type g,
               req_WantReply = globalRequestMsg_WantReply g, req_Payload = globalRequestMsg_Data g, req_ch = None\<rparr>]\<rparr>, Ok ())
         | MGlobalRequestSuccessMsg _ \<Rightarrow> (m\<lparr>mx_globalResponses := mx_globalResponses m @ [msg]\<rparr>, Ok ())
         | MGlobalRequestFailureMsg _ \<Rightarrow> (m\<lparr>mx_globalResponses := mx_globalResponses m @ [msg]\<rparr>, Ok ())
         | _ \<Rightarrow> (m, Panic ''not a global message'')))"

definition connectionFailed :: uint32 where
  "connectionFailed = 2"

definition handleChannelOpen :: "mux \<Rightarrow> bytes \<Rightarrow> mux \<times> unit res" where
  "handleChannelOpen m packet = (case rbind (Unmarshal packet channelOpenMsg_T) channelOpenMsg_of of
       Err e \<Rightarrow> (m, Err e) | Panic p \<Rightarrow> (m, Panic p)
     | Ok msg \<Rightarrow>
        if invalidMaxPacket (channelOpenMsg_MaxPacketSize msg) then
          mux_sendMessage m (Marshal channelOpenFailureMsg_T (channelOpenFailureMsg_vals
            \<lparr>channelOpenFailureMsg_PeersId = channelOpenMsg_PeersId msg, channelOpenFailureMsg_Reason = connectionFailed,
             channelOpenFailureMsg_Message = ''invalid request'', channelOpenFailureMsg_Language = ''en_US.UTF-8''\<rparr>))
        else let (m, r) = newChannel m (channelOpenMsg_ChanType msg) ChannelInbound (channelOpenMsg_TypeSpecificData msg);
                 m = upd_ch m r (\<lambda>c. c\<lparr>cn_remoteId := channelOpenMsg_PeersId msg, cn_maxRemotePayload := channelOpenMsg_MaxPacketSize msg,
                       cn_remoteWin := fst (window_add (cn_remoteWin c) (channelOpenMsg_PeersWindow msg))\<rparr>)
             in (m\<lparr>mx_incomingChannels := mx_incomingChannels m @ [r]\<rparr>, Ok ()))"

definition onePacket :: "mux \<Rightarrow> mux \<times> unit res" where
  "onePacket m = (case readPkt (mx_conn m) of
       (io, Err e) \<Rightarrow> (m\<lparr>mx_conn := io\<rparr>, Err e)
     | (io, Panic p) \<Rightarrow> (m\<lparr>mx_conn := io\<rparr>, Panic p)
     | (io, Ok packet) \<Rightarrow>
        (let m = m\<lparr>mx_conn := io\<rparr> in
         case index packet 0 of
           Err e \<Rightarrow> (m, Err e) | Panic p \<Rightarrow> (m, Panic p)
         | Ok t \<Rightarrow>
            if t = msgNewKeys then (m, Ok ())
            else if t = msgDisconnect then handleDisconnect m packet
            else if t = msgChannelOpen then handleChannelOpen m packet
            else if t = msgGlobalRequest \<or> t = msgRequestSuccess \<or> t = msgRequestFailure then handleGlobalPacket m packet
            else if length packet < 5 then (m, Err (parseError t))
            else (case chanList_getChan (mx_chanList m) (get32 (drop 1 packet)) of
                None \<Rightarrow> (m, Err (Errorf ''ssh: invalid channel %d'' [AInt (uint (get32 (drop 1 packet)))]))
              | Some r \<Rightarrow> handlePacket m r packet)))"

text \<open>The end of the loop: all channels and queues are closed and the error is kept for \<open>Wait\<close>.\<close>

fun closeAll :: "mux \<Rightarrow> nat list \<Rightarrow> mux \<times> unit res" where
  "closeAll m [] = (m, Ok ())"
| "closeAll m (r # rs) = (case closeChan m r of
       (m, Ok _) \<Rightarrow> closeAll m rs
     | (m, e) \<Rightarrow> (m, e))"

definition loopEnd :: "mux \<Rightarrow> goerr \<Rightarrow> mux \<times> unit res" where
  "loopEnd m err = (case chanList_dropAll (mx_chanList m) of (cl, rs) \<Rightarrow>
     (case closeAll (m\<lparr>mx_chanList := cl\<rparr>) rs of
        (m, Ok _) \<Rightarrow> (m\<lparr>mx_closed := True, mx_err := Some err\<rparr>, Ok ())
      | (m, e) \<Rightarrow> (m, e)))"

text \<open>Outbound channels: the part of \<open>openChannel\<close> before the reply and the part after it.\<close>

definition openChannel :: "mux \<Rightarrow> string \<Rightarrow> bytes \<Rightarrow> mux \<times> nat \<times> unit res" where
  "openChannel m chanType extra =
     (let (m, r) = newChannel m chanType ChannelOutbound extra;
          m = upd_ch m r (\<lambda>c. c\<lparr>cn_maxIncomingPayload := channelMaxPacket\<rparr>);
          (m, e) = mux_sendMessage m (Marshal channelOpenMsg_T (channelOpenMsg_vals
            \<lparr>channelOpenMsg_ChanType = chanType, channelOpenMsg_PeersId = cn_localId (ch_at m r), channelOpenMsg_PeersWindow = cn_myWindow (ch_at m r),
             channelOpenMsg_MaxPacketSize = cn_maxIncomingPayload (ch_at m r), channelOpenMsg_TypeSpecificData = extra\<rparr>))
      in (m, r, e))"

definition openReply :: "mux \<Rightarrow> nat \<Rightarrow> (mux \<times> nat res) option" where
  "openReply m r = (case cn_msg (ch_at m r) of
       [] \<Rightarrow> if cn_closed (ch_at m r) then Some (m, Err (ErrNew ''ssh: unexpected packet in response to channel open'')) else None
     | msg # rest \<Rightarrow> Some (upd_ch m r (\<lambda>c. c\<lparr>cn_msg := rest\<rparr>), case msg of
           MChannelOpenConfirmMsg _ \<Rightarrow> Ok r
         | MChannelOpenFailureMsg f \<Rightarrow> Err (Errorf ''ssh: rejected: %s (%s)''
             [AInt (uint (channelOpenFailureMsg_Reason f)), AStr (channelOpenFailureMsg_Message f)])
         | _ \<Rightarrow> Err (ErrNew ''ssh: unexpected packet in response to channel open'')))"

section \<open>Invariant of the multiplexer\<close>

text \<open>
  Every channel accounts for its window; the list refers only to open channels, each under its own identifier;
  packets are shorter than four gigabytes.
\<close>

definition list_inv :: "mux \<Rightarrow> bool" where
  "list_inv m \<longleftrightarrow> (let cs = cl_chans (mx_chanList m) in length cs \<le> length (mx_store m) \<and>
     (\<forall>i r. i < length cs \<longrightarrow> cs ! i = Some r \<longrightarrow> r < length (mx_store m) \<and> \<not> cn_closed (ch_at m r)
        \<and> cn_localId (ch_at m r) = of_nat i + cl_offset (mx_chanList m)))"

definition mux_inv :: "mux \<Rightarrow> bool" where
  "mux_inv m \<longleftrightarrow> recv_all m \<and> list_inv m \<and> (\<forall>p\<in>set (io_in (mx_conn m)). length p < 2 ^ 32)"

text \<open>What every operation keeps. Fewer than \<open>2 ^ 32\<close> channels are opened on a connection.\<close>

definition step_ok :: "mux \<Rightarrow> mux \<Rightarrow> bool" where
  "step_ok m m' \<longleftrightarrow> length (mx_store m) \<le> length (mx_store m') \<and> length (io_in (mx_conn m')) \<le> length (io_in (mx_conn m))
     \<and> (length (mx_store m') < 2 ^ 32 \<longrightarrow> mux_inv m \<longrightarrow> mux_inv m')"

lemma step_ok_refl [simp]: "step_ok m m"
  by (simp add: step_ok_def)

lemma step_ok_trans: "step_ok m m1 \<Longrightarrow> step_ok m1 m' \<Longrightarrow> step_ok m m'"
  unfolding step_ok_def by auto

lemma list_inv_frame:
  assumes "list_inv m" "mx_chanList m' = mx_chanList m" "length (mx_store m') = length (mx_store m)"
    and "\<And>i r. i < length (cl_chans (mx_chanList m)) \<Longrightarrow> cl_chans (mx_chanList m) ! i = Some r \<Longrightarrow> r < length (mx_store m)
      \<Longrightarrow> cn_closed (ch_at m' r) = cn_closed (ch_at m r) \<and> cn_localId (ch_at m' r) = cn_localId (ch_at m r)"
  shows "list_inv m'"
  using assms unfolding list_inv_def Let_def by simp

lemma list_inv_sends: "sends m m' \<Longrightarrow> list_inv m \<Longrightarrow> list_inv m'"
proof (rule list_inv_frame, assumption)
  fix i r assume "sends m m'" "r < length (mx_store m)"
  then obtain b where "ch_at m' r = (ch_at m r)\<lparr>cn_sentClose := b\<rparr>" by (auto simp: sends_def)
  then show "cn_closed (ch_at m' r) = cn_closed (ch_at m r) \<and> cn_localId (ch_at m' r) = cn_localId (ch_at m r)" by simp
qed (simp_all add: sends_def)

lemma step_ok_sends: "sends m m' \<Longrightarrow> step_ok m m'"
  using recv_all_sends list_inv_sends unfolding step_ok_def mux_inv_def by (auto simp: sends_def)

lemma step_ok_sendMessage: "channel_sendMessage m r msg = (m', e) \<Longrightarrow> step_ok m m'"
  by (rule step_ok_sends [OF channel_sendMessage_sends])

lemma step_ok_upd:
  assumes "r < length (mx_store m) \<Longrightarrow> recv_inv (ch_at m r) \<Longrightarrow> recv_inv (f (ch_at m r))"
    and "cn_closed (f (ch_at m r)) = cn_closed (ch_at m r)" "cn_localId (f (ch_at m r)) = cn_localId (ch_at m r)"
  shows "step_ok m (upd_ch m r f)"
proof -
  have "list_inv (upd_ch m r f)" if "list_inv m"
  proof (rule list_inv_frame [OF that])
    fix i s assume "s < length (mx_store m)"
    then show "cn_closed (ch_at (upd_ch m r f) s) = cn_closed (ch_at m s) \<and> cn_localId (ch_at (upd_ch m r f) s) = cn_localId (ch_at m s)"
      using assms(2,3) by (cases "s = r") simp_all
  qed simp_all
  moreover have "recv_all (upd_ch m r f)" if "recv_all m"
    using that assms(1) by (intro recv_all_upd_at) (simp_all add: recv_all_def)
  ultimately show ?thesis by (simp add: step_ok_def mux_inv_def)
qed

lemma step_ok_same_store:
  "mx_store m' = mx_store m \<Longrightarrow> mx_chanList m' = mx_chanList m \<Longrightarrow> set (io_in (mx_conn m')) \<subseteq> set (io_in (mx_conn m))
    \<Longrightarrow> length (io_in (mx_conn m')) \<le> length (io_in (mx_conn m)) \<Longrightarrow> step_ok m m'"
  unfolding step_ok_def mux_inv_def by (auto simp: list_inv_def recv_all_def Let_def)

lemma step_ok_mux_sendMessage: "mux_sendMessage m msg = (m', e) \<Longrightarrow> step_ok m m'"
proof -
  assume a: "mux_sendMessage m msg = (m', e)"
  obtain io x where w: "writeMsg (mx_conn m) msg = (io, x)" by (cases "writeMsg (mx_conn m) msg")
  have "io_in io = io_in (mx_conn m)" using w writePkt_in by (auto simp: writeMsg_def split: res.splits)
  with a w show ?thesis by (intro step_ok_same_store) (auto simp: mux_sendMessage_def)
qed

lemma nth_update_None: "i < length xs \<Longrightarrow> xs[k := None] ! i = Some r \<longleftrightarrow> k \<noteq> i \<and> xs ! i = Some r"
  by (cases "k = i") auto

lemma list_inv_remove: "list_inv m \<Longrightarrow> list_inv (m\<lparr>mx_chanList := chanList_remove (mx_chanList m) i\<rparr>)"
  unfolding list_inv_def chanList_remove_def Let_def by (simp add: nth_update_None)

lemma step_ok_remove: "step_ok m (m\<lparr>mx_chanList := chanList_remove (mx_chanList m) i\<rparr>)"
  using list_inv_remove by (auto simp: step_ok_def mux_inv_def recv_all_def)

text \<open>Once a channel is removed under its identifier, the list does not refer to it.\<close>

lemma removed_not_listed:
  assumes "list_inv m" "length (mx_store m) < 2 ^ 32" "i < length (cl_chans cl)" "cl_chans cl ! i = Some r"
    and "cl = chanList_remove (mx_chanList m) (cn_localId (ch_at m r))"
  shows False
proof -
  let ?cs = "cl_chans (mx_chanList m)" and ?j = "cn_localId (ch_at m r) - cl_offset (mx_chanList m)"
  have len: "length (cl_chans cl) = length ?cs" using assms(5) by (simp add: chanList_remove_def Let_def)
  have "?cs ! i = Some r" using assms(3-5) len by (auto simp: chanList_remove_def Let_def nth_update_None split: if_splits)
  with assms(1,3) len have j: "?j = of_nat i" and l: "length ?cs < 2 ^ 32" using assms(2) by (auto simp: list_inv_def Let_def)
  then have "unat ?j = i" "?j < of_nat (length ?cs)" using assms(3) len by (simp_all add: unat_of_nat word_less_nat_alt)
  with assms(3-5) len show False by (simp add: chanList_remove_def Let_def nth_update_None)
qed

lemma step_ok_close:
  assumes "closeChan (m\<lparr>mx_chanList := chanList_remove (mx_chanList m) (cn_localId (ch_at m r))\<rparr>) r = (m', e)"
  shows "step_ok m m'"
proof -
  let ?m = "m\<lparr>mx_chanList := chanList_remove (mx_chanList m) (cn_localId (ch_at m r))\<rparr>"
  have "m' = ?m \<or> m' = upd_ch ?m r channel_close" using assms by (auto simp: closeChan_def split: if_splits)
  then show ?thesis
  proof
    assume m': "m' = upd_ch ?m r channel_close"
    have ci: "recv_inv c \<Longrightarrow> recv_inv (channel_close c)" for c
      using buf.fin(1,2) by (simp add: recv_inv_def channel_close_def)
    have "list_inv m'" if "list_inv m" "length (mx_store m) < 2 ^ 32"
    proof -
      have "r \<noteq> s" if "i < length (cl_chans (mx_chanList ?m))" "cl_chans (mx_chanList ?m) ! i = Some s" for i s
        using removed_not_listed [OF \<open>list_inv m\<close> \<open>length (mx_store m) < 2 ^ 32\<close>, of i _ r] that by auto
      then show ?thesis
        unfolding m' by (intro list_inv_frame [OF list_inv_remove [OF that(1), of "cn_localId (ch_at m r)"]]) simp_all
    qed
    moreover have "recv_all m'" if "recv_all m"
      unfolding m' by (rule recv_all_upd [OF _ ci]) (use that in \<open>auto simp: recv_all_def\<close>)
    ultimately show ?thesis unfolding m' by (auto simp: step_ok_def mux_inv_def)
  qed (simp add: step_ok_remove)
qed

text \<open>The operations, one by one.\<close>

lemma step_ok_sendMsg: "sendMsg m r msg = (m', e) \<Longrightarrow> step_ok m m'"
  by (auto simp: sendMsg_def recv_inv_def split: if_splits intro!: step_ok_upd)

lemma responseMessageReceived_frame:
  "responseMessageReceived c = (c', e) \<Longrightarrow> \<exists>b. c' = c\<lparr>cn_decided := b\<rparr>"
proof -
  assume a: "responseMessageReceived c = (c', e)"
  consider "c' = c" | "c' = c\<lparr>cn_decided := True\<rparr>" using a by (auto simp: responseMessageReceived_def split: if_splits)
  then show ?thesis
  proof cases
    case 1
    then show ?thesis by (intro exI [of _ "cn_decided c"]) simp
  qed blast
qed

lemma step_ok_handleDecoded:
  assumes "handleDecoded m r msg = (m', e)"
  shows "step_ok m m'"
proof -
  have upd: "step_ok m (upd_ch m r f)" if "\<And>c. cn_pending (f c) = cn_pending c \<and> cn_extPending (f c) = cn_extPending c \<and> cn_myWindow (f c) = cn_myWindow c
      \<and> cn_closed (f c) = cn_closed c \<and> cn_localId (f c) = cn_localId c" for f
    using that by (intro step_ok_upd) (simp_all add: recv_inv_def)
  obtain c x where c: "responseMessageReceived (ch_at m r) = (c, x)" by (cases "responseMessageReceived (ch_at m r)")
  obtain b where b: "c = (ch_at m r)\<lparr>cn_decided := b\<rparr>" using responseMessageReceived_frame [OF c] by blast
  have resp: "step_ok m (upd_ch m r (\<lambda>_. g c))" if "\<And>c. cn_pending (g c) = cn_pending c \<and> cn_extPending (g c) = cn_extPending c \<and> cn_myWindow (g c) = cn_myWindow c
      \<and> cn_closed (g c) = cn_closed c \<and> cn_localId (g c) = cn_localId c" for g
    using that b by (intro step_ok_upd) (simp_all add: recv_inv_def)
  show ?thesis
  proof (cases msg)
    case (MChannelOpenFailureMsg f)
    let ?m1 = "upd_ch m r (\<lambda>_. c)"
    have "step_ok m ?m1" using resp [of "\<lambda>c. c"] by simp
    moreover have "step_ok ?m1 (?m1\<lparr>mx_chanList := chanList_remove (mx_chanList ?m1) (channelOpenFailureMsg_PeersId f)\<rparr>)" by (rule step_ok_remove)
    ultimately show ?thesis using assms MChannelOpenFailureMsg c
      by (auto simp: handleDecoded_def Let_def split: res.splits intro: step_ok_trans step_ok_sendMsg)
  next
    case (MChannelOpenConfirmMsg f)
    have g: "step_ok m (upd_ch m r (\<lambda>_. c))" "step_ok m (upd_ch m r (\<lambda>_. c\<lparr>cn_remoteId := channelOpenConfirmMsg_MyId f,
                 cn_maxRemotePayload := channelOpenConfirmMsg_MaxPacketSize f,
                 cn_remoteWin := fst (window_add (cn_remoteWin c) (channelOpenConfirmMsg_MyWindow f))\<rparr>))"
      using resp [of "\<lambda>c. c"] resp [of "\<lambda>c. c\<lparr>cn_remoteId := channelOpenConfirmMsg_MyId f,
                 cn_maxRemotePayload := channelOpenConfirmMsg_MaxPacketSize f,
                 cn_remoteWin := fst (window_add (cn_remoteWin c) (channelOpenConfirmMsg_MyWindow f))\<rparr>"] by simp_all
    show ?thesis using assms MChannelOpenConfirmMsg c g
      by (auto simp: handleDecoded_def split: res.splits if_splits intro: step_ok_trans step_ok_sendMsg)
  qed (use assms in \<open>auto simp: handleDecoded_def intro!: upd dest: step_ok_sendMsg split: prod.splits bool.splits if_splits\<close>)
qed

lemma step_ok_handlePacket:
  assumes "handlePacket m r packet = (m', e)" "length packet < 2 ^ 32" "r < length (mx_store m)"
  shows "step_ok m m'"
proof (cases "index packet 0")
  case (Ok t)
  consider (data) "t = msgChannelData \<or> t = msgChannelExtendedData" | (close) "t = msgChannelClose"
    | (eof) "t = msgChannelEOF" | (other) "t \<noteq> msgChannelData" "t \<noteq> msgChannelExtendedData" "t \<noteq> msgChannelClose" "t \<noteq> msgChannelEOF" by blast
  then show ?thesis
  proof cases
    case data
    obtain c x where c: "handleData (ch_at m r) packet = (c, x)" by (cases "handleData (ch_at m r) packet")
    have "cn_closed c = cn_closed (ch_at m r) \<and> cn_localId c = cn_localId (ch_at m r)"
      using c by (auto simp: handleData_def Let_def split: res.splits if_splits)
    with handleData_recv [OF _ assms(2) c] have "step_ok m (upd_ch m r (\<lambda>_. c))" by (intro step_ok_upd) simp_all
    with assms(1) Ok data c show ?thesis by (auto simp: handlePacket_def)
  next
    case close
    obtain m1 x where m1: "channel_sendMessage m r (closeMsg m r) = (m1, x)" by (cases "channel_sendMessage m r (closeMsg m r)")
    with assms(1) Ok close step_ok_sendMessage [OF m1] show ?thesis
      by (auto simp: handlePacket_def split: res.splits intro: step_ok_trans step_ok_close)
  next
    case eof
    with assms(1) Ok buf.fin(1,2) show ?thesis by (auto simp: handlePacket_def recv_inv_def intro!: step_ok_upd)
  next
    case other
    with assms(1) Ok show ?thesis by (auto simp: handlePacket_def split: res.splits dest: step_ok_handleDecoded)
  qed
qed (use assms in \<open>auto simp: handlePacket_def\<close>)

lemma firstNil_le: "firstNil cs \<le> length cs"
  by (induction cs rule: firstNil.induct) auto

lemma step_ok_newChannel:
  assumes "newChannel m ty dir extra = (m', r)"
  shows "step_ok m m'" "r = length (mx_store m)" "length (mx_store m') = Suc r" "recv_inv (ch_at m' r)"
    "cn_localId (ch_at m' r) = of_nat (firstNil (cl_chans (mx_chanList m))) + cl_offset (mx_chanList m)"
proof -
  show r: "r = length (mx_store m)" "length (mx_store m') = Suc r"
    "cn_localId (ch_at m' r) = of_nat (firstNil (cl_chans (mx_chanList m))) + cl_offset (mx_chanList m)"
    using assms by (auto simp: newChannel_def chanList_add_def Let_def)
  show ri: "recv_inv (ch_at m' r)"
    using assms buf.empty(1,2) by (auto simp: newChannel_def Let_def recv_inv_def split: prod.splits)
  have old: "ch_at m' s = ch_at m s" if "s < length (mx_store m)" for s
    using assms that by (auto simp: newChannel_def Let_def nth_append split: prod.splits)
  have new: "\<not> cn_closed (ch_at m' r)" using assms by (auto simp: newChannel_def Let_def split: prod.splits)
  have "recv_all m'" if "recv_all m"
    using that ri old r unfolding recv_all_def by (metis less_Suc_eq)
  moreover have "list_inv m'" if i: "list_inv m"
  proof -
    let ?cs = "cl_chans (mx_chanList m)" and ?cs' = "cl_chans (mx_chanList m')"
    have cs': "?cs' = (if firstNil ?cs < length ?cs then ?cs[firstNil ?cs := Some r] else ?cs @ [Some r])" "cl_offset (mx_chanList m') = cl_offset (mx_chanList m)"
      using assms by (auto simp: newChannel_def chanList_add_def Let_def)
    have "s < length (mx_store m') \<and> \<not> cn_closed (ch_at m' s) \<and> cn_localId (ch_at m' s) = of_nat k + cl_offset (mx_chanList m)"
      if k: "k < length ?cs'" "?cs' ! k = Some s" for k s
    proof (cases "k = firstNil ?cs")
      case True
      then have "s = r" using k cs' firstNil_le [of ?cs] by (auto simp: nth_append split: if_splits)
      with True new r show ?thesis by simp
    next
      case False
      then have "k < length ?cs" "?cs ! k = Some s" using k cs' firstNil_le [of ?cs] by (auto simp: nth_append split: if_splits)
      with i have "s < length (mx_store m)" "\<not> cn_closed (ch_at m s)" "cn_localId (ch_at m s) = of_nat k + cl_offset (mx_chanList m)"
        by (simp_all add: list_inv_def Let_def)
      with old r show ?thesis by simp
    qed
    moreover have "length ?cs' \<le> length (mx_store m')" using i cs' r by (simp add: list_inv_def Let_def)
    ultimately show ?thesis using cs'(2) by (simp add: list_inv_def Let_def)
  qed
  moreover have "mx_conn m' = mx_conn m" using assms by (auto simp: newChannel_def Let_def split: prod.splits)
  ultimately show "step_ok m m'" using r by (simp add: step_ok_def mux_inv_def)
qed

lemma step_ok_handleChannelOpen:
  assumes "handleChannelOpen m packet = (m', e)"
  shows "step_ok m m'"
proof (cases "rbind (Unmarshal packet channelOpenMsg_T) channelOpenMsg_of")
  case (Ok msg)
  show ?thesis
  proof (cases "invalidMaxPacket (channelOpenMsg_MaxPacketSize msg)")
    case True
    with assms Ok show ?thesis by (auto simp: handleChannelOpen_def dest: step_ok_mux_sendMessage)
  next
    case False
    obtain m1 r where n: "newChannel m (channelOpenMsg_ChanType msg) ChannelInbound (channelOpenMsg_TypeSpecificData msg) = (m1, r)"
      by (cases "newChannel m (channelOpenMsg_ChanType msg) ChannelInbound (channelOpenMsg_TypeSpecificData msg)")
    let ?f = "\<lambda>c. c\<lparr>cn_remoteId := channelOpenMsg_PeersId msg, cn_maxRemotePayload := channelOpenMsg_MaxPacketSize msg,
                       cn_remoteWin := fst (window_add (cn_remoteWin c) (channelOpenMsg_PeersWindow msg))\<rparr>"
    have m': "m' = (upd_ch m1 r ?f)\<lparr>mx_incomingChannels := mx_incomingChannels (upd_ch m1 r ?f) @ [r]\<rparr>"
      using assms Ok False n by (simp add: handleChannelOpen_def Let_def)
    have "step_ok m1 (upd_ch m1 r ?f)" by (rule step_ok_upd) (simp_all add: recv_inv_def)
    moreover have "step_ok (upd_ch m1 r ?f) m'" unfolding m' by (rule step_ok_same_store) simp_all
    ultimately show ?thesis using step_ok_newChannel(1) [OF n] step_ok_trans by blast
  qed
qed (use assms in \<open>auto simp: handleChannelOpen_def\<close>)

lemma readPkt_frame: "readPkt io = (io', x) \<Longrightarrow> set (io_in io') \<subseteq> set (io_in io) \<and> length (io_in io') \<le> length (io_in io)
    \<and> (\<forall>p. x = Ok p \<longrightarrow> p \<in> set (io_in io) \<and> length (io_in io') < length (io_in io))"
  by (auto simp: readPkt_def split: list.splits)

lemma getChan_nth:
  assumes "chanList_getChan cl i = Some r" "length (cl_chans cl) < 2 ^ 32"
  shows "unat (i - cl_offset cl) < length (cl_chans cl) \<and> cl_chans cl ! unat (i - cl_offset cl) = Some r"
  using assms by (auto simp: chanList_getChan_def Let_def word_less_nat_alt unat_of_nat split: if_splits)

lemma getChan_listed:
  assumes "list_inv m" "chanList_getChan (mx_chanList m) i = Some r" "length (mx_store m) < 2 ^ 32"
  shows "r < length (mx_store m)" "cn_localId (ch_at m r) = i" "\<not> cn_closed (ch_at m r)"
proof -
  let ?k = "i - cl_offset (mx_chanList m)" and ?cs = "cl_chans (mx_chanList m)"
  have "length ?cs < 2 ^ 32" using assms(1,3) by (simp add: list_inv_def Let_def)
  with getChan_nth [OF assms(2)] have k: "unat ?k < length ?cs" "?cs ! unat ?k = Some r" by simp_all
  with assms(1) show "r < length (mx_store m)" "cn_localId (ch_at m r) = i" "\<not> cn_closed (ch_at m r)"
    by (auto simp: list_inv_def Let_def)
qed

lemma onePacket_ok:
  assumes "onePacket m = (m', e)" "mux_inv m" "length (mx_store m') < 2 ^ 32" "length (mx_store m) < 2 ^ 32"
  shows "mux_inv m' \<and> length (mx_store m) \<le> length (mx_store m') \<and> length (io_in (mx_conn m')) \<le> length (io_in (mx_conn m))"
proof -
  obtain io x where io: "readPkt (mx_conn m) = (io, x)" by (cases "readPkt (mx_conn m)")
  let ?m = "m\<lparr>mx_conn := io\<rparr>"
  note fr = readPkt_frame [OF io]
  have s: "step_ok m ?m" by (rule step_ok_same_store) (use fr in auto)
  have i: "mux_inv ?m" using s assms(2,4) by (simp add: step_ok_def)
  have "step_ok ?m m'"
  proof (cases x)
    case (Ok packet)
    have "length packet < 2 ^ 32" using fr Ok assms(2) by (auto simp: mux_inv_def)
    moreover have "handleGlobalPacket ?m packet = (m', e) \<Longrightarrow> step_ok ?m m'"
      by (auto simp: handleGlobalPacket_def split: res.splits message.splits intro!: step_ok_same_store)
    moreover have "chanList_getChan (mx_chanList ?m) (get32 (drop 1 packet)) = Some r \<Longrightarrow> r < length (mx_store ?m)" for r
      using getChan_listed(1) [of ?m] i assms(4) by (simp add: mux_inv_def)
    ultimately show ?thesis using assms(1) io Ok
      by (auto simp: onePacket_def Let_def handleDisconnect_def split: res.splits if_splits option.splits
          dest: step_ok_handleChannelOpen step_ok_handlePacket)
  qed (use assms(1) io in \<open>auto simp: onePacket_def\<close>)
  with s step_ok_trans have "step_ok m m'" by blast
  with assms(2,3) show ?thesis by (simp add: step_ok_def)
qed

lemma step_ok_writePacket: "channel_writePacket m r p = (m', e) \<Longrightarrow> step_ok m m'"
  by (rule step_ok_sends [OF channel_writePacket_sends])

lemma step_ok_win: "step_ok m (upd_ch m r (\<lambda>c. c\<lparr>cn_remoteWin := f c\<rparr>))"
  by (rule step_ok_upd) (simp_all add: recv_inv_def)

lemma step_ok_writeLoop:
  assumes "writeLoop m r ext data n evs = Some y"
  shows "step_ok m (fst y)"
proof (rule writeLoop.raw_induct [where P = "\<lambda>m r ext data n evs y. step_ok m (fst y)", OF _ assms], goal_cases)
  case (1 rec m r ext data n evs y)
  note step = 1
  let ?m1 = "case evs of [] \<Rightarrow> m | es # _ \<Rightarrow> upd_ch m r (\<lambda>c. c\<lparr>cn_remoteWin := winEvents es (cn_remoteWin c)\<rparr>)"
  have m1: "step_ok m ?m1" by (simp add: step_ok_win split: list.splits)
  have w: "step_ok ?m1 (upd_ch ?m1 r (\<lambda>c. c\<lparr>cn_remoteWin := w\<rparr>))" for w by (rule step_ok_win)
  show ?case
  proof (cases "data = []")
    case False
    let ?res = "window_reserve (cn_remoteWin (ch_at ?m1 r)) (minLen (cn_maxRemotePayload (ch_at ?m1 r)) (length data))"
    show ?thesis
    proof (cases ?res)
      case None
      consider "evs = []" "y = (?m1, WriteWaits n)" | es evs' where "evs = es # evs'" "rec ?m1 r ext data n evs' = Some y"
        using 1(2) False None by (cases evs) (auto simp: Let_def)
      then show ?thesis
      proof cases
        case 2
        show ?thesis by (rule step_ok_trans [OF m1 step(1) [OF 2(2)]])
      qed (use m1 in simp)
    next
      case (Some x)
      obtain w k err where x: "x = (w, k, err)" by (cases x)
      let ?m2 = "upd_ch ?m1 r (\<lambda>c. c\<lparr>cn_remoteWin := w\<rparr>)"
      have m2: "step_ok m ?m2" by (rule step_ok_trans [OF m1 w])
      obtain m3 e where m3: "channel_writePacket ?m2 r (dataPacket (cn_remoteId (ch_at ?m2 r)) ext (take (unat k) data)) = (m3, e)"
        by (cases "channel_writePacket ?m2 r (dataPacket (cn_remoteId (ch_at ?m2 r)) ext (take (unat k) data))")
      have s3: "step_ok m m3" by (rule step_ok_trans [OF m2 step_ok_writePacket [OF m3]])
      have "fst y = ?m2 \<or> fst y = m3 \<or> (\<exists>d n'. rec m3 r ext d n' (tl evs) = Some y)"
        using 1(2) False Some x m3 by (simp only: Let_def if_False option.case prod.case split: if_split_asm res.split_asm) auto
      then show ?thesis
      proof (elim disjE exE)
        assume "fst y = ?m2"
        with m2 show ?thesis by simp
      next
        assume "fst y = m3"
        with s3 show ?thesis by simp
      next
        fix d n' assume "rec m3 r ext d n' (tl evs) = Some y"
        then show ?thesis by (rule step_ok_trans [OF s3 step(1)])
      qed
    qed
  qed (use 1(2) in auto)
qed


section \<open>All operations side by side\<close>

text \<open>
  The loop handles a packet, or ends the connection when a packet or the transport gives an error; the application
  calls methods on the channels it was given and opens channels. A panic ends the program and has no step.
\<close>

inductive mux_step :: "mux \<Rightarrow> mux \<Rightarrow> bool" where
  packet: "onePacket m = (m', Ok u) \<Longrightarrow> mux_step m m'"
| loop_end: "onePacket m = (m1, Err e) \<Longrightarrow> loopEnd m1 e = (m', Ok u) \<Longrightarrow> mux_step m m'"
| accept: "r < length (mx_store m) \<Longrightarrow> Accept m r = (m', e) \<Longrightarrow> mux_step m m'"
| reject: "r < length (mx_store m) \<Longrightarrow> Reject m r reason msg = (m', e) \<Longrightarrow> mux_step m m'"
| read: "r < length (mx_store m) \<Longrightarrow> ReadExtended m r k ext = Some (m', x) \<Longrightarrow> mux_step m m'"
| write_data: "r < length (mx_store m) \<Longrightarrow> WriteExtended m r data ext evs = Some (m', y) \<Longrightarrow> mux_step m m'"
| close_write: "r < length (mx_store m) \<Longrightarrow> CloseWrite m r = (m', e) \<Longrightarrow> mux_step m m'"
| close: "r < length (mx_store m) \<Longrightarrow> channel_Close m r = (m', e) \<Longrightarrow> mux_step m m'"
| request: "r < length (mx_store m) \<Longrightarrow> channel_SendRequest m r name wantReply payload = (m', e) \<Longrightarrow> mux_step m m'"
| response: "r < length (mx_store m) \<Longrightarrow> awaitResponse m r = Some (m', b) \<Longrightarrow> mux_step m m'"
| answer: "r < length (mx_store m) \<Longrightarrow> channel_ackRequest m r ok = (m', e) \<Longrightarrow> mux_step m m'"
| open_channel: "openChannel m ty extra = (m', r, e) \<Longrightarrow> mux_step m m'"
| open_reply: "openReply m r = Some (m', x) \<Longrightarrow> mux_step m m'"
| global_request: "mux_SendRequest m name wantReply payload = (m', e) \<Longrightarrow> mux_step m m'"
| global_answer: "mux_ackRequest m ok data = (m', e) \<Longrightarrow> mux_step m m'"

lemma set_liveChans: "r \<in> set (liveChans cs) \<longleftrightarrow> Some r \<in> set cs"
  by (induction cs rule: liveChans.induct) auto

lemma distinct_liveChans:
  "\<forall>i j r. i < length cs \<longrightarrow> j < length cs \<longrightarrow> cs ! i = Some r \<longrightarrow> cs ! j = Some r \<longrightarrow> i = j \<Longrightarrow> distinct (liveChans cs)"
proof (induction cs)
  case (Cons c cs)
  have "distinct (liveChans cs)"
  proof (rule Cons.IH, intro allI impI)
    fix i j r assume "i < length cs" "j < length cs" "cs ! i = Some r" "cs ! j = Some r"
    with Cons.prems [rule_format, of "Suc i" "Suc j" r] show "i = j" by simp
  qed
  moreover have "r \<notin> set (liveChans cs)" if "c = Some r" for r
  proof
    assume "r \<in> set (liveChans cs)"
    then have "Some r \<in> set cs" by (simp add: set_liveChans)
    then obtain j where "j < length cs" "cs ! j = Some r" by (auto simp: in_set_conv_nth)
    with Cons.prems [rule_format, of 0 "Suc j" r] that show False by simp
  qed
  ultimately show ?case by (cases c) auto
qed simp

lemma closeAll_ok:
  assumes "distinct rs" "\<forall>r\<in>set rs. r < length (mx_store m) \<and> \<not> cn_closed (ch_at m r)" "recv_all m"
  shows "\<exists>m'. closeAll m rs = (m', Ok ()) \<and> recv_all m' \<and> length (mx_store m') = length (mx_store m)
    \<and> mx_chanList m' = mx_chanList m \<and> mx_conn m' = mx_conn m
    \<and> (\<forall>s<length (mx_store m). cn_closed (ch_at m' s) \<longleftrightarrow> cn_closed (ch_at m s) \<or> s \<in> set rs)"
  using assms
proof (induction rs arbitrary: m)
  case (Cons r rs)
  let ?m = "upd_ch m r channel_close"
  have c: "closeChan m r = (?m, Ok ())" using Cons.prems(2) by (simp add: closeChan_def)
  have ra: "recv_all ?m" by (rule recv_all_upd [OF Cons.prems(3)]) (use buf.fin(1,2) in \<open>simp add: recv_inv_def channel_close_def\<close>)
  have cl: "cn_closed (ch_at ?m s) \<longleftrightarrow> cn_closed (ch_at m s) \<or> s = r" if "s < length (mx_store m)" for s
    using that by (cases "s = r") (simp_all add: channel_close_def)
  have "\<forall>s\<in>set rs. s < length (mx_store ?m) \<and> \<not> cn_closed (ch_at ?m s)" using Cons.prems(1,2) cl by auto
  with Cons.IH [of ?m] Cons.prems(1) ra obtain m' where m': "closeAll ?m rs = (m', Ok ())" "recv_all m'" "length (mx_store m') = length (mx_store ?m)"
    "mx_chanList m' = mx_chanList ?m" "mx_conn m' = mx_conn ?m"
    "\<forall>s<length (mx_store ?m). cn_closed (ch_at m' s) \<longleftrightarrow> cn_closed (ch_at ?m s) \<or> s \<in> set rs" by auto
  with c cl show ?case by (intro exI [of _ m']) auto
qed simp

lemma listed_refs:
  assumes "list_inv m" "length (mx_store m) < 2 ^ 32" "rs = liveChans (cl_chans (mx_chanList m))"
  shows "distinct rs" "\<forall>r\<in>set rs. r < length (mx_store m) \<and> \<not> cn_closed (ch_at m r)"
proof -
  let ?cs = "cl_chans (mx_chanList m)"
  have l: "length ?cs < 2 ^ 32" using assms(1,2) by (simp add: list_inv_def Let_def)
  have "i = j" if "i < length ?cs" "j < length ?cs" "?cs ! i = Some r" "?cs ! j = Some r" for i j r
  proof -
    have "(of_nat i :: uint32) = of_nat j" using assms(1) that by (simp add: list_inv_def Let_def) (metis add_right_cancel)
    then have "unat (of_nat i :: uint32) = unat (of_nat j :: uint32)" by simp
    with that l show ?thesis by (simp add: unat_of_nat)
  qed
  then show "distinct rs" unfolding assms(3) by (intro distinct_liveChans) blast
  show "\<forall>r\<in>set rs. r < length (mx_store m) \<and> \<not> cn_closed (ch_at m r)"
  proof
    fix r assume "r \<in> set rs"
    then have "Some r \<in> set ?cs" by (simp add: assms(3) set_liveChans)
    then obtain i where "i < length ?cs" "?cs ! i = Some r" by (auto simp: in_set_conv_nth)
    with assms(1) show "r < length (mx_store m) \<and> \<not> cn_closed (ch_at m r)" by (simp add: list_inv_def Let_def)
  qed
qed

lemma loopEnd_ok:
  assumes "mux_inv m" "length (mx_store m) < 2 ^ 32"
  shows "\<exists>m'. loopEnd m e = (m', Ok ()) \<and> mux_inv m' \<and> length (mx_store m') = length (mx_store m)
    \<and> io_in (mx_conn m') = io_in (mx_conn m) \<and> mx_err m' = Some e \<and> mx_closed m' \<and> cl_chans (mx_chanList m') = []
    \<and> (\<forall>i. chanList_getChan (mx_chanList m) i = Some r \<longrightarrow> cn_closed (ch_at m' r))"
proof -
  let ?m = "m\<lparr>mx_chanList := (mx_chanList m)\<lparr>cl_chans := []\<rparr>\<rparr>"
  let ?rs = "liveChans (cl_chans (mx_chanList m))"
  have l: "list_inv m" "recv_all ?m" using assms(1) by (simp_all add: mux_inv_def recv_all_def)
  have rs: "distinct ?rs" "\<forall>r\<in>set ?rs. r < length (mx_store ?m) \<and> \<not> cn_closed (ch_at ?m r)"
    using listed_refs [OF l(1) assms(2) refl] by simp_all
  obtain m1 where m1: "closeAll ?m ?rs = (m1, Ok ())" "recv_all m1" "length (mx_store m1) = length (mx_store ?m)"
    "mx_chanList m1 = mx_chanList ?m" "mx_conn m1 = mx_conn ?m"
    "\<forall>s<length (mx_store ?m). cn_closed (ch_at m1 s) \<longleftrightarrow> cn_closed (ch_at ?m s) \<or> s \<in> set ?rs"
    using closeAll_ok [OF rs l(2)] by blast
  let ?m' = "m1\<lparr>mx_closed := True, mx_err := Some e\<rparr>"
  have "cn_closed (ch_at ?m' r)" if "chanList_getChan (mx_chanList m) i = Some r" for i
  proof -
    have "r < length (mx_store m)" by (rule getChan_listed(1) [OF l(1) that assms(2)])
    moreover have "r \<in> set ?rs"
    proof -
      have "length (cl_chans (mx_chanList m)) < 2 ^ 32" using l(1) assms(2) by (simp add: list_inv_def Let_def)
      from getChan_nth [OF that this] have "Some r \<in> set (cl_chans (mx_chanList m))" by (auto simp: in_set_conv_nth)
      then show ?thesis by (simp add: set_liveChans)
    qed
    ultimately show ?thesis using m1(6) by simp
  qed
  then show ?thesis using m1(1-5) assms(1)
    by (intro exI [of _ ?m']) (auto simp: loopEnd_def chanList_dropAll_def mux_inv_def list_inv_def recv_all_def)
qed

text \<open>Operations that keep the list, the packets, and of every channel its identifier and whether it is closed.\<close>

definition frame :: "mux \<Rightarrow> mux \<Rightarrow> bool" where
  "frame m m' \<longleftrightarrow> mx_chanList m' = mx_chanList m \<and> io_in (mx_conn m') = io_in (mx_conn m) \<and> length (mx_store m') = length (mx_store m)
     \<and> (\<forall>s<length (mx_store m). cn_closed (ch_at m' s) = cn_closed (ch_at m s) \<and> cn_localId (ch_at m' s) = cn_localId (ch_at m s))"

lemma frame_trans: "frame m m1 \<Longrightarrow> frame m1 m' \<Longrightarrow> frame m m'"
  by (simp add: frame_def)

lemma frame_sends: "sends m m' \<Longrightarrow> frame m m'"
  unfolding frame_def sends_def by fastforce

lemma frame_upd:
  assumes "\<And>c. cn_closed (f c) = cn_closed c \<and> cn_localId (f c) = cn_localId c"
  shows "frame m (upd_ch m r f)"
proof -
  have "cn_closed (ch_at (upd_ch m r f) s) = cn_closed (ch_at m s) \<and> cn_localId (ch_at (upd_ch m r f) s) = cn_localId (ch_at m s)"
    if "s < length (mx_store m)" for s using that assms by (cases "s = r") simp_all
  then show ?thesis by (simp add: frame_def)
qed

lemma step_ok_frame: "frame m m' \<Longrightarrow> (mux_inv m \<Longrightarrow> recv_all m') \<Longrightarrow> step_ok m m'"
  unfolding step_ok_def mux_inv_def frame_def using list_inv_frame [of m m'] by auto

lemma frame_afterRead: "afterRead m r res = (m', x) \<Longrightarrow> frame m m'"
proof -
  assume a: "afterRead m r res = (m', x)"
  have adj: "frame m m2" if "adjustWindow m r n = (m2, e)" for n m2 e
  proof -
    let ?m = "upd_ch m r (\<lambda>c. c\<lparr>cn_myWindow := cn_myWindow c + n\<rparr>)"
    have "sends ?m m2" using that unfolding adjustWindow_def Let_def by (rule channel_sendMessage_sends)
    from frame_trans [OF frame_upd frame_sends [OF this]] show ?thesis by simp
  qed
  have "m' = m \<or> (\<exists>n e. adjustWindow m r n = (m', e))"
    using a by (cases res) (auto simp: afterRead_def split: if_splits prod.splits res.splits)
  then show ?thesis using adj by (auto simp: frame_def)
qed

lemma frame_ReadExtended: "ReadExtended m r k ext = Some (m', x) \<Longrightarrow> frame m m'"
proof -
  assume a: "ReadExtended m r k ext = Some (m', x)"
  consider "m' = m" | b res where "afterRead (upd_ch m r (\<lambda>c. c\<lparr>cn_extPending := b\<rparr>)) r res = (m', x)"
    | b res where "afterRead (upd_ch m r (\<lambda>c. c\<lparr>cn_pending := b\<rparr>)) r res = (m', x)"
    using a by (auto simp: ReadExtended_def split: if_splits option.splits)
  then show ?thesis
  proof cases
    case 2
    from frame_trans [OF frame_upd frame_afterRead [OF this]] show ?thesis by simp
  next
    case 3
    from frame_trans [OF frame_upd frame_afterRead [OF this]] show ?thesis by simp
  qed (simp add: frame_def)
qed

lemma step_ok_ReadExtended: "r < length (mx_store m) \<Longrightarrow> ReadExtended m r k ext = Some (m', x) \<Longrightarrow> step_ok m m'"
  by (rule step_ok_frame [OF frame_ReadExtended]) (auto simp: mux_inv_def intro: ReadExtended_recv)

lemma step_ok_calls:
  "Accept m r = (m', e) \<Longrightarrow> step_ok m m'" "Reject m r reason msg = (m', e) \<Longrightarrow> step_ok m m'" "CloseWrite m r = (m', e) \<Longrightarrow> step_ok m m'"
  "channel_Close m r = (m', e) \<Longrightarrow> step_ok m m'" "channel_SendRequest m r name wr payload = (m', e) \<Longrightarrow> step_ok m m'"
  "channel_ackRequest m r ok = (m', e) \<Longrightarrow> step_ok m m'" "awaitResponse m r = Some (m', b) \<Longrightarrow> step_ok m m'"
  "openReply m r = Some (m', x) \<Longrightarrow> step_ok m m'" "mux_SendRequest m name wr payload = (m', e) \<Longrightarrow> step_ok m m'"
  "mux_ackRequest m ok payload = (m', e) \<Longrightarrow> step_ok m m'" "WriteExtended m r payload ext evs = Some (m', y) \<Longrightarrow> step_ok m m'"
proof -
  have upd: "step_ok m (upd_ch m r f)" if "\<And>c. cn_pending (f c) = cn_pending c \<and> cn_extPending (f c) = cn_extPending c \<and> cn_myWindow (f c) = cn_myWindow c
      \<and> cn_closed (f c) = cn_closed c \<and> cn_localId (f c) = cn_localId c" for f
    using that by (intro step_ok_upd) (simp_all add: recv_inv_def)
  have then_send: "step_ok m m'" if "channel_sendMessage (upd_ch m r f) r x = (m', e)" "step_ok m (upd_ch m r f)" for f x m' e
    by (rule step_ok_trans [OF that(2) step_ok_sendMessage [OF that(1)]])
  show "Accept m r = (m', e) \<Longrightarrow> step_ok m m'" "Reject m r reason msg = (m', e) \<Longrightarrow> step_ok m m'" "CloseWrite m r = (m', e) \<Longrightarrow> step_ok m m'"
    by (auto simp: Accept_def Reject_def CloseWrite_def Let_def split: if_splits elim!: then_send intro!: upd)
  show "channel_Close m r = (m', e) \<Longrightarrow> step_ok m m'" "channel_SendRequest m r name wr payload = (m', e) \<Longrightarrow> step_ok m m'"
    "channel_ackRequest m r ok = (m', e) \<Longrightarrow> step_ok m m'"
    by (auto simp: channel_Close_def channel_SendRequest_def channel_ackRequest_def split: if_splits dest: step_ok_sendMessage)
  show "awaitResponse m r = Some (m', b) \<Longrightarrow> step_ok m m'" "openReply m r = Some (m', x) \<Longrightarrow> step_ok m m'"
    by (auto simp: awaitResponse_def openReply_def Let_def split: list.splits if_splits intro!: upd)
  show "mux_SendRequest m name wr payload = (m', e) \<Longrightarrow> step_ok m m'" "mux_ackRequest m ok payload = (m', e) \<Longrightarrow> step_ok m m'"
    by (auto simp: mux_SendRequest_def mux_ackRequest_def dest: step_ok_mux_sendMessage)
  show "WriteExtended m r payload ext evs = Some (m', y) \<Longrightarrow> step_ok m m'"
    using step_ok_writeLoop by (fastforce simp: WriteExtended_def split: if_splits)
qed

lemma step_ok_openChannel: "openChannel m ty extra = (m', r, e) \<Longrightarrow> step_ok m m'"
proof -
  assume a: "openChannel m ty extra = (m', r, e)"
  obtain m1 r1 where n: "newChannel m ty ChannelOutbound extra = (m1, r1)" by (cases "newChannel m ty ChannelOutbound extra")
  let ?m2 = "upd_ch m1 r1 (\<lambda>c. c\<lparr>cn_maxIncomingPayload := channelMaxPacket\<rparr>)"
  have "step_ok m1 ?m2" by (rule step_ok_upd) (simp_all add: recv_inv_def)
  moreover have "step_ok ?m2 m'" using a n by (auto simp: openChannel_def Let_def split: prod.splits dest: step_ok_mux_sendMessage)
  ultimately show ?thesis using step_ok_newChannel(1) [OF n] step_ok_trans by blast
qed

definition mux_inv_bounded :: "mux \<Rightarrow> bool" where
  "mux_inv_bounded m \<longleftrightarrow> (length (mx_store m) < 2 ^ 32 \<longrightarrow> mux_inv m)"

text \<open>A packet for a channel allocates nothing and reads nothing further.\<close>

definition shape :: "mux \<Rightarrow> nat \<times> bytes list" where
  "shape m = (length (mx_store m), io_in (mx_conn m))"

lemma shape_upd [simp]: "shape (upd_ch m r f) = shape m" "shape (m\<lparr>mx_chanList := cl\<rparr>) = shape m"
  by (simp_all add: shape_def)

lemma shape_sends: "sends m m' \<Longrightarrow> shape m' = shape m"
  by (simp add: sends_def shape_def)

lemma shape_sendMsg: "sendMsg m r msg = (m', e) \<Longrightarrow> shape m' = shape m"
  by (auto simp: sendMsg_def split: if_splits)

lemma shape_handleDecoded: "handleDecoded m r msg = (m', e) \<Longrightarrow> shape m' = shape m"
  by (cases msg) (auto simp: handleDecoded_def Let_def split: prod.splits res.splits bool.splits if_splits dest!: shape_sendMsg)

lemma shape_handlePacket: "handlePacket m r packet = (m', e) \<Longrightarrow> shape m' = shape m"
proof -
  assume a: "handlePacket m r packet = (m', e)"
  have "shape m2 = shape m1" if "closeChan m1 r = (m2, e)" for m1 m2 using that by (auto simp: closeChan_def split: if_splits)
  then show ?thesis using a
    by (auto simp: handlePacket_def split: res.splits if_splits prod.splits dest!: shape_handleDecoded shape_sends [OF channel_sendMessage_sends])
qed

lemma onePacket_grows:
  assumes "onePacket m = (m', e)"
  shows "length (mx_store m) \<le> length (mx_store m')" "length (mx_store m') \<le> Suc (length (mx_store m))"
    "e = Ok u \<Longrightarrow> length (io_in (mx_conn m')) < length (io_in (mx_conn m))"
proof -
  obtain io x where io: "readPkt (mx_conn m) = (io, x)" by (cases "readPkt (mx_conn m)")
  let ?m = "m\<lparr>mx_conn := io\<rparr>"
  have send: "shape m2 = shape m1" if "mux_sendMessage m1 msg = (m2, e)" for m1 m2 msg
    using that writePkt_in by (auto simp: mux_sendMessage_def writeMsg_def shape_def split: prod.splits res.splits)
  have new: "shape m' = (Suc (fst (shape ?m)), snd (shape ?m)) \<or> shape m' = shape ?m" if "handleChannelOpen ?m packet = (m', e)" for packet
    using that by (auto simp: handleChannelOpen_def newChannel_def Let_def split: res.splits if_splits prod.splits dest!: send) (auto simp: shape_def upd_ch_def)
  have glob: "shape m' = shape ?m" if "handleGlobalPacket ?m packet = (m', e)" for packet
    using that by (auto simp: handleGlobalPacket_def shape_def split: res.splits message.splits)
  have s: "shape m' = (Suc (fst (shape ?m)), snd (shape ?m)) \<or> shape m' = shape ?m"
    using assms io by (auto simp: onePacket_def Let_def handleDisconnect_def split: res.splits if_splits option.splits
        dest: new glob shape_handlePacket)
  then show "length (mx_store m) \<le> length (mx_store m')" "length (mx_store m') \<le> Suc (length (mx_store m))" by (auto simp: shape_def)
  assume "e = Ok u"
  then obtain p where "x = Ok p" using assms io by (cases x) (auto simp: onePacket_def)
  with readPkt_frame [OF io] s show "length (io_in (mx_conn m')) < length (io_in (mx_conn m))" by (auto simp: shape_def)
qed

text \<open>\<open>loop\<close>: packets are handled until there is an error; then everything is closed.\<close>

function muxLoop :: "mux \<Rightarrow> mux \<times> unit res" where
  "muxLoop m = (case onePacket m of
       (m', Ok _) \<Rightarrow> muxLoop m'
     | (m', Err e) \<Rightarrow> loopEnd m' e
     | (m', Panic p) \<Rightarrow> (m', Panic p))"
  by pat_completeness auto
termination
  by (relation "measure (\<lambda>m. length (io_in (mx_conn m)))") (auto dest: onePacket_grows(3) [OF sym])

declare muxLoop.simps [simp del]

lemma loopEnd_length: "loopEnd m e = (m', x) \<Longrightarrow> length (mx_store m') = length (mx_store m)"
proof -
  have c: "closeAll m rs = (m', x) \<Longrightarrow> length (mx_store m') = length (mx_store m)" for m rs m' x
    by (induction m rs rule: closeAll.induct) (auto simp: closeChan_def split: if_splits)
  assume "loopEnd m e = (m', x)"
  then show ?thesis by (auto simp: loopEnd_def chanList_dropAll_def split: prod.splits res.splits dest!: c)
qed

lemma mux_step_inv: "mux_step m m' \<Longrightarrow> mux_inv_bounded m \<Longrightarrow> mux_inv_bounded m'"
proof -
  have ok: "step_ok m m' \<Longrightarrow> mux_inv_bounded m \<Longrightarrow> mux_inv_bounded m'" for m m'
    by (auto simp: step_ok_def mux_inv_bounded_def)
  have pk: "onePacket m = (m', e) \<Longrightarrow> mux_inv_bounded m \<Longrightarrow> mux_inv_bounded m'" for m m' e
    using onePacket_ok onePacket_grows(1) unfolding mux_inv_bounded_def by (metis le_less_trans)
  show "mux_step m m' \<Longrightarrow> mux_inv_bounded m \<Longrightarrow> mux_inv_bounded m'"
  proof (induction rule: mux_step.induct)
    case (loop_end m m1 e m' u)
    have "mux_inv_bounded m1" by (rule pk [OF loop_end(1,3)])
    with loopEnd_ok [of m1 e] loop_end(2) loopEnd_length [OF loop_end(2)] show ?case by (auto simp: mux_inv_bounded_def)
  qed (blast intro: ok pk step_ok_calls step_ok_ReadExtended step_ok_openChannel)+
qed

interpretation mx: invariant_system "\<lambda>m. \<exists>p. m = newMux p \<and> (\<forall>q\<in>set (io_in p). length q < 2 ^ 32)" mux_step mux_inv_bounded
proof unfold_locales
  show "\<exists>p. m = newMux p \<and> (\<forall>q\<in>set (io_in p). length q < 2 ^ 32) \<Longrightarrow> mux_inv_bounded m" for m
    by (auto simp: mux_inv_bounded_def mux_inv_def newMux_def recv_all_def list_inv_def)
qed (rule mux_step_inv)

lemma mux_reachable_inv:
  "mux_step\<^sup>*\<^sup>* (newMux p) m \<Longrightarrow> \<forall>q\<in>set (io_in p). length q < 2 ^ 32 \<Longrightarrow> length (mx_store m) < 2 ^ 32 \<Longrightarrow> mux_inv m"
  using mx.inv_reachable [of "newMux p" m] by (auto simp: mux_inv_bounded_def)

text \<open>A connection on which one channel has been opened.\<close>

definition demoIO :: pktIO where
  "demoIO = \<lparr>io_in = [], io_rerr = EOF, io_out = [], io_wres = []\<rparr>"

lemma demo_opened:
  obtains m where "mux_step\<^sup>*\<^sup>* (newMux demoIO) m" "length (mx_store m) = 1" "chanList_getChan (mx_chanList m) 0 = Some 0"
proof -
  obtain m r e where o: "openChannel (newMux demoIO) ''session'' [] = (m, r, e)" by (cases "openChannel (newMux demoIO) ''session'' []")
  then have "mux_step\<^sup>*\<^sup>* (newMux demoIO) m" by (blast intro: mux_step.open_channel)
  moreover have l: "length (mx_store m) = 1" "mx_chanList m = \<lparr>cl_chans = [Some 0], cl_offset = 0\<rparr>"
    using o by (auto simp: openChannel_def newChannel_def newMux_def chanList_add_def mux_sendMessage_def upd_ch_def Let_def split: prod.splits)
  moreover have "chanList_getChan (mx_chanList m) 0 = Some 0" unfolding l(2) by (simp add: chanList_getChan_def)
  ultimately show thesis by (intro that)
qed

text \<open>(C19) On a connection with fewer than \<open>2 ^ 32\<close> channels, whatever the peer sends and the application does, the bytes that
  wait to be read on a channel together with the window the peer may still use never exceed two megabytes: memory for
  received data is bounded, and the window counter, which is only ever increased by what was read, never
  wraps around.\<close>

theorem received_data_is_bounded:
  assumes "mux_step\<^sup>*\<^sup>* (newMux p) m" "\<forall>q\<in>set (io_in p). length q < 2 ^ 32" "length (mx_store m) < 2 ^ 32" "r < length (mx_store m)"
  shows "unat (cn_myWindow (ch_at m r)) + length (buffer_content (cn_pending (ch_at m r)))
    + length (buffer_content (cn_extPending (ch_at m r))) \<le> 2 ^ 21"
proof -
  have "recv_inv (ch_at m r)" using mux_reachable_inv [OF assms(1-3)] assms(4) by (simp add: mux_inv_def recv_all_def)
  then show ?thesis by (simp add: recv_inv_def channelWindowSize_def channelMaxPacket_def)
qed

theorem received_data_is_bounded_witness:
  "\<exists>m. mux_step\<^sup>*\<^sup>* (newMux demoIO) m \<and> unat (cn_myWindow (ch_at m 0)) \<le> 2 ^ 21"
proof -
  obtain m where m: "mux_step\<^sup>*\<^sup>* (newMux demoIO) m" "length (mx_store m) = 1" by (rule demo_opened)
  have "unat (cn_myWindow (ch_at m 0)) + length (buffer_content (cn_pending (ch_at m 0)))
    + length (buffer_content (cn_extPending (ch_at m 0))) \<le> 2 ^ 21"
    by (rule received_data_is_bounded [OF m(1)]) (use m(2) in \<open>simp_all add: demoIO_def\<close>)
  then have "unat (cn_myWindow (ch_at m 0)) \<le> 2 ^ 21" by linarith
  with m(1) show ?thesis by blast
qed

text \<open>(C20) In every reachable state the multiplexer hands a packet for an identifier to the open channel that has this
  identifier, and to no other: two identifiers never name the same channel.\<close>

theorem packets_reach_their_channel:
  assumes "mux_step\<^sup>*\<^sup>* (newMux p) m" "\<forall>q\<in>set (io_in p). length q < 2 ^ 32" "length (mx_store m) < 2 ^ 32"
    and "chanList_getChan (mx_chanList m) i = Some r"
  shows "r < length (mx_store m) \<and> cn_localId (ch_at m r) = i \<and> \<not> cn_closed (ch_at m r)
    \<and> (\<forall>j. chanList_getChan (mx_chanList m) j = Some r \<longrightarrow> j = i)"
proof -
  have l: "list_inv m" using mux_reachable_inv [OF assms(1-3)] by (simp add: mux_inv_def)
  with getChan_listed [OF l assms(4,3)] getChan_listed(2) [OF l _ assms(3)] show ?thesis by blast
qed

theorem packets_reach_their_channel_witness:
  "\<exists>m. mux_step\<^sup>*\<^sup>* (newMux demoIO) m \<and> chanList_getChan (mx_chanList m) 0 = Some 0 \<and> cn_localId (ch_at m 0) = 0"
proof -
  obtain m where m: "mux_step\<^sup>*\<^sup>* (newMux demoIO) m" "length (mx_store m) = 1" "chanList_getChan (mx_chanList m) 0 = Some 0"
    by (rule demo_opened)
  have "0 < length (mx_store m) \<and> cn_localId (ch_at m 0) = 0 \<and> \<not> cn_closed (ch_at m 0)
    \<and> (\<forall>j. chanList_getChan (mx_chanList m) j = Some 0 \<longrightarrow> j = 0)"
    by (rule packets_reach_their_channel [OF m(1) _ _ m(3)]) (use m(2) in \<open>simp_all add: demoIO_def\<close>)
  with m show ?thesis by blast
qed

lemma muxLoop_ends:
  "mux_inv m \<Longrightarrow> length (mx_store m) + length (io_in (mx_conn m)) < 2 ^ 32 \<Longrightarrow> muxLoop m = (m', x)
    \<Longrightarrow> (\<exists>p. x = Panic p) \<or> x = Ok () \<and> mx_closed m' \<and> mx_err m' \<noteq> None \<and> cl_chans (mx_chanList m') = [] \<and> mux_inv m'"
proof (induction m rule: muxLoop.induct)
  case (1 m)
  obtain m1 e where o: "onePacket m = (m1, e)" by (cases "onePacket m")
  have len: "length (mx_store m1) < 2 ^ 32" "length (mx_store m) < 2 ^ 32"
  proof -
    show "length (mx_store m) < 2 ^ 32" using 1(3) by simp
    show "length (mx_store m1) < 2 ^ 32"
    proof (cases "io_in (mx_conn m)")
      case Nil
      then have "m1 = m\<lparr>mx_conn := mx_conn m\<rparr>" using o by (simp add: onePacket_def readPkt_def)
      with 1(3) show ?thesis by simp
    qed (use onePacket_grows(2) [OF o] 1(3) in simp)
  qed
  have i: "mux_inv m1" using onePacket_ok [OF o 1(2) len] by simp
  show ?case
  proof (cases e)
    case (Ok u)
    have "length (mx_store m1) + length (io_in (mx_conn m1)) < 2 ^ 32" using onePacket_grows(2,3) [OF o] Ok 1(3) by fastforce
    with 1(1) [OF o [symmetric] Ok i] 1(4) o Ok show ?thesis by (simp add: muxLoop.simps [of m])
  next
    case (Err err)
    with loopEnd_ok [OF i len(1), of err] 1(4) o show ?thesis by (auto simp: muxLoop.simps [of m])
  next
    case (Panic p)
    with 1(4) o show ?thesis by (auto simp: muxLoop.simps [of m])
  qed
qed



end
