(* ===== verification/Cipher.thy ===== *)
theory Cipher
  imports Negotiation
begin

text \<open>
  Packet encryption (\<^verbatim>\<open>cipher.go\<close>, \<^verbatim>\<open>mac.go\<close>): the stream ciphers with a MAC and AES-GCM. The ciphers and
  hash functions of the Go library are parameters: a stream cipher is the key stream that \<^verbatim>\<open>XORKeyStream\<close> combines with
  its argument, and its position in it; an AEAD is a pair of functions. Both packet ciphers satisfy the contract
  \<open>packet_cipher\<close>, on which the transport relies: what one side writes the other side reads.
\<close>

section \<open>Bytes in and out\<close>

text \<open>
  A reader holds the bytes to come and the error at their end. \<^verbatim>\<open>io.ReadFull\<close> turns an end of file in the
  middle into an unexpected one.
\<close>

record byteIn =
  bi_data :: bytes
  bi_err :: goerr

definition readFull :: "byteIn \<Rightarrow> nat \<Rightarrow> byteIn \<times> bytes res" where
  "readFull r n =
     (if n \<le> length (bi_data r) then (r\<lparr>bi_data := drop n (bi_data r)\<rparr>, Ok (take n (bi_data r)))
      else (r\<lparr>bi_data := []\<rparr>, Err (if bi_data r \<noteq> [] \<and> bi_err r = EOF then ErrUnexpectedEOF else bi_err r)))"

lemma readFull_append [simp]: "length a = n \<Longrightarrow> readFull \<lparr>bi_data = a @ b, bi_err = e\<rparr> n = (\<lparr>bi_data = b, bi_err = e\<rparr>, Ok a)"
  by (simp add: readFull_def)

lemma readFull_Ok: "readFull r n = (r', Ok d) \<Longrightarrow> length d = n \<and> bi_data r = d @ bi_data r' \<and> bi_err r' = bi_err r"
  by (auto simp: readFull_def split: if_splits)

text \<open>
  A writer holds the bytes written and, when it is going to fail, the number of bytes it still takes and the error after
  them. \<open>writes\<close> is a sequence of calls of \<^verbatim>\<open>Write\<close>, which the callers leave at the first error.
\<close>

record byteOut =
  bo_data :: bytes
  bo_fail :: "(nat \<times> goerr) option"

definition writeBytes :: "byteOut \<Rightarrow> bytes \<Rightarrow> byteOut \<times> unit res" where
  "writeBytes w b = (case bo_fail w of
       None \<Rightarrow> (w\<lparr>bo_data := bo_data w @ b\<rparr>, Ok ())
     | Some (n, e) \<Rightarrow>
        if length b \<le> n then (w\<lparr>bo_data := bo_data w @ b, bo_fail := Some (n - length b, e)\<rparr>, Ok ())
        else (w\<lparr>bo_data := bo_data w @ take n b, bo_fail := Some (0, e)\<rparr>, Err e))"

fun writes :: "byteOut \<Rightarrow> bytes list \<Rightarrow> byteOut \<times> unit res" where
  "writes w [] = (w, Ok ())"
| "writes w (b # bs) = (case writeBytes w b of
       (w, Ok _) \<Rightarrow> writes w bs
     | (w, Err e) \<Rightarrow> (w, Err e)
     | (w, Panic p) \<Rightarrow> (w, Panic p))"

lemma writeBytes_Ok: "writeBytes w b = (w', Ok u) \<Longrightarrow> bo_data w' = bo_data w @ b"
  by (auto simp: writeBytes_def split: option.splits prod.splits if_splits)

lemma writes_Ok: "writes w bs = (w', Ok u) \<Longrightarrow> bo_data w' = bo_data w @ concat bs"
proof (induction bs arbitrary: w)
  case (Cons b bs)
  obtain w1 r where wb: "writeBytes w b = (w1, r)" by (cases "writeBytes w b")
  with Cons.prems obtain u' where r: "r = Ok u'" by (cases r) simp_all
  with wb Cons.prems have "writes w1 bs = (w', Ok u)" by simp
  then have "bo_data w' = bo_data w1 @ concat bs" by (rule Cons.IH)
  with writeBytes_Ok [OF wb [unfolded r]] show ?case by simp
qed simp

lemma writes_no_fault: "bo_fail w = None \<Longrightarrow> writes w bs = (w\<lparr>bo_data := bo_data w @ concat bs\<rparr>, Ok ())"
proof (induction bs arbitrary: w)
  case (Cons b bs)
  then show ?case using Cons.IH [of "w\<lparr>bo_data := bo_data w @ b\<rparr>"] by (simp add: writeBytes_def)
qed simp

declare writes.simps [simp del]

section \<open>Stream ciphers and MACs\<close>

definition packetSizeMultiple :: nat where
  "packetSizeMultiple = 16"

definition maxPacket :: nat where
  "maxPacket = 256 * 1024"

definition prefixLen :: nat where
  "prefixLen = 5"

record stream =
  st_key :: "nat \<Rightarrow> byte"
  st_pos :: nat

definition XORKeyStream :: "stream \<Rightarrow> bytes \<Rightarrow> stream \<times> bytes" where
  "XORKeyStream s src = (s\<lparr>st_pos := st_pos s + length src\<rparr>, map (\<lambda>i. src ! i XOR st_key s (st_pos s + i)) [0..<length src])"

text \<open>\<open>noneCipher\<close> copies its argument: the key stream is zero.\<close>

definition noneCipher :: stream where
  "noneCipher = \<lparr>st_key = (\<lambda>_. 0), st_pos = 0\<rparr>"

text \<open>The primitives: AES in counter mode and RC4 as key streams, AES-GCM, and HMAC with SHA-1.\<close>

record cipherlib =
  cl_aesctr :: "bytes \<Rightarrow> bytes \<Rightarrow> (nat \<Rightarrow> byte) res"
  cl_rc4 :: "bytes \<Rightarrow> (nat \<Rightarrow> byte) res"
  cl_aes_ok :: "bytes \<Rightarrow> goerr option"
  cl_seal :: "bytes \<Rightarrow> bytes \<Rightarrow> bytes \<Rightarrow> bytes \<Rightarrow> bytes"
  cl_open :: "bytes \<Rightarrow> bytes \<Rightarrow> bytes \<Rightarrow> bytes \<Rightarrow> bytes res"
  cl_hmac_sha1 :: "bytes \<Rightarrow> bytes \<Rightarrow> bytes"

definition createFunc :: "cipherlib \<Rightarrow> streamKind \<Rightarrow> bytes \<Rightarrow> bytes \<Rightarrow> stream res" where
  "createFunc cl k key iv = (case k of
       NewAESCTR \<Rightarrow> rbind (cl_aesctr cl key iv) (\<lambda>ks. Ok \<lparr>st_key = ks, st_pos = 0\<rparr>)
     | NewRC4 \<Rightarrow> rbind (cl_rc4 cl key) (\<lambda>ks. Ok \<lparr>st_key = ks, st_pos = 0\<rparr>))"

text \<open>The loop that drops the first \<open>skip\<close> bytes of the key stream, at most 512 at a time.\<close>

function dumpStream :: "stream \<Rightarrow> nat \<Rightarrow> stream" where
  "dumpStream s remaining =
     (if remaining = 0 then s
      else let n = min remaining 512 in dumpStream (fst (XORKeyStream s (replicate n 0))) (remaining - n))"
  by pat_completeness auto
termination
  by (relation "measure snd") auto

declare dumpStream.simps [simp del]

definition createStream :: "cipherlib \<Rightarrow> streamCipherMode \<Rightarrow> bytes \<Rightarrow> bytes \<Rightarrow> stream res" where
  "createStream cl c key iv =
     (if length key < cm_keySize c then Panic ''ssh: key length too small for cipher''
      else if length iv < cm_ivSize c then Panic ''ssh: iv too small for cipher''
      else case cm_createFunc c of
        None \<Rightarrow> Panic ''invalid memory address or nil pointer dereference''
      | Some k \<Rightarrow> rbind (createFunc cl k (take (cm_keySize c) key) (take (cm_ivSize c) iv)) (\<lambda>s. Ok (dumpStream s (cm_skip c))))"

text \<open>A MAC is its size and the function from all the bytes written to the sum. \<open>truncatingMAC\<close> cuts the sum.\<close>

record macFn =
  mac_size :: nat
  mac_sum :: "bytes \<Rightarrow> bytes"

definition truncatingMAC :: "nat \<Rightarrow> macFn \<Rightarrow> macFn" where
  "truncatingMAC n m = \<lparr>mac_size = n, mac_sum = (\<lambda>d. take n (mac_sum m d))\<rparr>"

record macMode =
  mm_keySize :: nat
  mm_new :: "bytes \<Rightarrow> macFn"

definition hmacSHA1 :: "cipherlib \<Rightarrow> bytes \<Rightarrow> macFn" where
  "hmacSHA1 cl key = \<lparr>mac_size = 20, mac_sum = cl_hmac_sha1 cl key\<rparr>"

definition macModes :: "cipherlib \<Rightarrow> (string \<times> macMode) list" where
  "macModes cl =
     [(''hmac-sha1'', \<lparr>mm_keySize = 20, mm_new = hmacSHA1 cl\<rparr>),
      (''hmac-sha1-96'', \<lparr>mm_keySize = 20, mm_new = (\<lambda>key. truncatingMAC 12 (hmacSHA1 cl key))\<rparr>)]"

section \<open>Stream cipher packets\<close>

record streamPacketCipher =
  sp_mac :: "macFn option"
  sp_cipher :: stream

definition macFailure :: goerr where
  "macFailure = ErrNew ''ssh: MAC failure''"

text \<open>The size of the MAC, and the check of the packet once it is in the buffer: decrypt, compare the MAC, strip the padding.\<close>

definition spc_macSize :: "streamPacketCipher \<Rightarrow> nat" where
  "spc_macSize s = (case sp_mac s of Some m \<Rightarrow> mac_size m | None \<Rightarrow> 0)"

definition spc_open :: "streamPacketCipher \<Rightarrow> uint32 \<Rightarrow> bytes \<Rightarrow> bytes \<Rightarrow> streamPacketCipher \<times> bytes res" where
  "spc_open s seqNum prefix packetData =
     (let len = get32 prefix;
          paddingLength = (ucast (prefix ! 4) :: uint32);
          mac = drop (unat len - 1) packetData;
          (st, data) = XORKeyStream (sp_cipher s) (take (unat len - 1) packetData);
          s = s\<lparr>sp_cipher := st\<rparr>
      in case sp_mac s of
           Some m \<Rightarrow> if mac_sum m (be32 seqNum @ prefix @ data) \<noteq> mac then (s, Err macFailure)
                     else (s, Ok (take (unat (len - paddingLength - 1)) data))
         | None \<Rightarrow> (s, Ok (take (unat (len - paddingLength - 1)) data)))"

definition spc_readPacket :: "streamPacketCipher \<Rightarrow> uint32 \<Rightarrow> byteIn \<Rightarrow> streamPacketCipher \<times> byteIn \<times> bytes res" where
  "spc_readPacket s seqNum r = (case readFull r prefixLen of
       (r, Err e) \<Rightarrow> (s, r, Err e)
     | (r, Panic p) \<Rightarrow> (s, r, Panic p)
     | (r, Ok enc) \<Rightarrow>
        (let (st, prefix) = XORKeyStream (sp_cipher s) enc;
             s = s\<lparr>sp_cipher := st\<rparr>;
             len = get32 prefix;
             paddingLength = (ucast (prefix ! 4) :: uint32)
         in if len \<le> paddingLength + 1 then (s, r, Err (ErrNew ''ssh: invalid packet length, packet too small''))
            else if unat len > maxPacket then (s, r, Err (ErrNew ''ssh: invalid packet length, packet too large''))
            else (case readFull r (unat len - 1 + spc_macSize s) of
                (r, Err e) \<Rightarrow> (s, r, Err e)
              | (r, Panic p) \<Rightarrow> (s, r, Panic p)
              | (r, Ok packetData) \<Rightarrow> (case spc_open s seqNum prefix packetData of (s, q) \<Rightarrow> (s, r, q)))))"

definition spc_paddingLength :: "nat \<Rightarrow> nat" where
  "spc_paddingLength n =
     (let p = packetSizeMultiple - (prefixLen + n) mod packetSizeMultiple
      in if p < 4 then p + packetSizeMultiple else p)"

text \<open>The packet length and the padding length in front of a packet of \<open>n\<close> bytes.\<close>

definition spc_prefix :: "nat \<Rightarrow> bytes" where
  "spc_prefix n = be32 (of_nat (n + 1 + spc_paddingLength n)) @ [of_nat (spc_paddingLength n)]"

text \<open>
  The packet is padded with bytes of the random source, authenticated in the clear and encrypted piece by piece.
\<close>

definition spc_writePacket ::
  "streamPacketCipher \<Rightarrow> uint32 \<Rightarrow> byteIn \<Rightarrow> byteOut \<Rightarrow> bytes \<Rightarrow> streamPacketCipher \<times> byteIn \<times> byteOut \<times> unit res" where
  "spc_writePacket s seqNum rand w packet =
     (if length packet > maxPacket then (s, rand, w, Err (ErrNew ''ssh: packet too large''))
      else let prefix = spc_prefix (length packet)
        in case readFull rand (spc_paddingLength (length packet)) of
             (rand, Err e) \<Rightarrow> (s, rand, w, Err e)
           | (rand, Panic p) \<Rightarrow> (s, rand, w, Panic p)
           | (rand, Ok padding) \<Rightarrow>
              (let (st, ePrefix) = XORKeyStream (sp_cipher s) prefix;
                   (st, ePacket) = XORKeyStream st packet;
                   (st, ePadding) = XORKeyStream st padding;
                   macResult = (case sp_mac s of Some m \<Rightarrow> [mac_sum m (be32 seqNum @ prefix @ packet @ padding)] | None \<Rightarrow> [])
               in (s\<lparr>sp_cipher := st\<rparr>, rand, writes w ([ePrefix, ePacket, ePadding] @ macResult))))"

section \<open>AES-GCM packets\<close>

record gcmCipher =
  gc_key :: bytes
  gc_iv :: bytes

definition gcmTagSize :: nat where
  "gcmTagSize = 16"

definition newGCMCipher :: "cipherlib \<Rightarrow> bytes \<Rightarrow> bytes \<Rightarrow> gcmCipher res" where
  "newGCMCipher cl iv key = (case cl_aes_ok cl key of Some e \<Rightarrow> Err e | None \<Rightarrow> Ok \<lparr>gc_key = key, gc_iv = iv\<rparr>)"

text \<open>The loop of \<open>incIV\<close>, from byte \<open>i\<close> down to byte 4.\<close>

fun incFrom :: "nat \<Rightarrow> bytes \<Rightarrow> bytes" where
  "incFrom i iv = (let iv = iv[i := iv ! i + 1] in if iv ! i \<noteq> 0 \<or> i \<le> 4 then iv else incFrom (i - 1) iv)"

declare incFrom.simps [simp del]

definition incIV :: "bytes \<Rightarrow> bytes" where
  "incIV iv = incFrom (4 + 7) iv"

definition gcm_paddingLength :: "nat \<Rightarrow> nat" where
  "gcm_paddingLength n =
     (let p = packetSizeMultiple - (1 + n) mod packetSizeMultiple
      in if p < 4 then p + packetSizeMultiple else p)"

text \<open>
  The length goes out before the padding is read; the counter moves on only when all was written. A length that does not
  fit its 32 bits makes the slice for the padding panic.
\<close>

definition gcm_writePacket :: "cipherlib \<Rightarrow> gcmCipher \<Rightarrow> byteIn \<Rightarrow> byteOut \<Rightarrow> bytes \<Rightarrow> gcmCipher \<times> byteIn \<times> byteOut \<times> unit res" where
  "gcm_writePacket cl c rand w packet =
     (let padding = gcm_paddingLength (length packet);
          len = (of_nat (length packet + padding + 1) :: uint32);
          prefix = be32 len
      in case writeBytes w prefix of
           (w, Err e) \<Rightarrow> (c, rand, w, Err e)
         | (w, Panic p) \<Rightarrow> (c, rand, w, Panic p)
         | (w, Ok _) \<Rightarrow>
            if unat len < 1 + length packet then (c, rand, w, Panic ''slice bounds out of range'')
            else (case readFull rand padding of
                (rand, Err e) \<Rightarrow> (c, rand, w, Err e)
              | (rand, Panic p) \<Rightarrow> (c, rand, w, Panic p)
              | (rand, Ok pad) \<Rightarrow>
                 (case writeBytes w (cl_seal cl (gc_key c) (gc_iv c) ([of_nat padding] @ packet @ pad) prefix) of
                    (w, Err e) \<Rightarrow> (c, rand, w, Err e)
                  | (w, Panic p) \<Rightarrow> (c, rand, w, Panic p)
                  | (w, Ok _) \<Rightarrow> (c\<lparr>gc_iv := incIV (gc_iv c)\<rparr>, rand, w, Ok ()))))"

definition gcm_readPacket :: "cipherlib \<Rightarrow> gcmCipher \<Rightarrow> byteIn \<Rightarrow> gcmCipher \<times> byteIn \<times> bytes res" where
  "gcm_readPacket cl c r = (case readFull r 4 of
       (r, Err e) \<Rightarrow> (c, r, Err e)
     | (r, Panic p) \<Rightarrow> (c, r, Panic p)
     | (r, Ok prefix) \<Rightarrow>
        (let len = unat (get32 prefix) in
         if len > maxPacket then (c, r, Err (ErrNew ''ssh: max packet length exceeded.''))
         else (case readFull r (len + gcmTagSize) of
             (r, Err e) \<Rightarrow> (c, r, Err e)
           | (r, Panic p) \<Rightarrow> (c, r, Panic p)
           | (r, Ok buf) \<Rightarrow>
              (case cl_open cl (gc_key c) (gc_iv c) buf prefix of
                 Err e \<Rightarrow> (c, r, Err e)
               | Panic p \<Rightarrow> (c, r, Panic p)
               | Ok plain \<Rightarrow>
                  (let c = c\<lparr>gc_iv := incIV (gc_iv c)\<rparr> in
                   (c, r, rbind (index plain 0) (\<lambda>padding.
                     if padding < 4 \<or> padding \<ge> 20 then Err (Errorf ''ssh: illegal padding %d'' [AInt (uint padding)])
                     else if unat padding + 1 \<ge> length plain then Err (Errorf ''ssh: padding %d too large'' [AInt (uint padding)])
                     else slice plain 1 (len - unat padding))))))))"

section \<open>The key stream\<close>

lemma unat_ucast_byte: "unat (ucast (b :: byte) :: uint32) = unat b"
  using less_trans [OF unat_byte [of b], of "2 ^ 32"] by (simp add: unsigned_ucast_eq take_bit_nat_eq_self)

text \<open>The contract of the ciphers is symmetric: both sides hold the same key stream at the same position.\<close>

definition xorAt :: "stream \<Rightarrow> bytes \<Rightarrow> bytes" where
  "xorAt s d = map (\<lambda>i. d ! i XOR st_key s (st_pos s + i)) [0..<length d]"

definition advance :: "stream \<Rightarrow> nat \<Rightarrow> stream" where
  "advance s n = s\<lparr>st_pos := st_pos s + n\<rparr>"

lemma XORKeyStream_eq: "XORKeyStream s d = (advance s (length d), xorAt s d)"
  by (simp add: XORKeyStream_def xorAt_def advance_def)

lemma length_xorAt [simp]: "length (xorAt s d) = length d"
  by (simp add: xorAt_def)

lemma advance_advance [simp]: "advance (advance s m) n = advance s (m + n)"
  by (simp add: advance_def add.assoc)

lemma xorAt_xorAt [simp]: "xorAt s (xorAt s d) = d"
  by (rule nth_equalityI) (simp_all add: xorAt_def xor.assoc)

lemma xorAt_append: "xorAt s (a @ b) = xorAt s a @ xorAt (advance s (length a)) b"
  by (rule nth_equalityI) (auto simp: xorAt_def advance_def nth_append add.assoc [symmetric])

lemma xorAt_none [simp]: "xorAt (advance noneCipher n) d = d"
  by (rule nth_equalityI) (simp_all add: xorAt_def noneCipher_def advance_def)

text \<open>Dropping key stream in pieces of 512 bytes moves the position by the number of bytes dropped.\<close>

lemma dumpStream_eq: "dumpStream s n = advance s n"
proof (induction s n rule: dumpStream.induct)
  case (1 s n)
  then show ?case
    by (subst dumpStream.simps) (simp add: XORKeyStream_eq advance_def Let_def)
qed

section \<open>Padding\<close>

text \<open>Both ciphers round up to a multiple of 16 with at least 4 bytes of padding.\<close>

definition padTo :: "nat \<Rightarrow> nat" where
  "padTo k = (let p = 16 - k mod 16 in if p < 4 then p + 16 else p)"

lemma padTo_bounds: "4 \<le> padTo k" "padTo k < 20"
  using mod_less_divisor [of 16 k] by (auto simp: padTo_def Let_def)

lemma padTo_multiple: "(k + padTo k) mod 16 = 0"
proof -
  define q r where "q = k div 16" and "r = k mod 16"
  then have k: "k = 16 * q + r" and r: "k mod 16 = r" "r < 16" by simp_all
  have "k + padTo k = 16 * Suc q \<or> k + padTo k = 16 * Suc (Suc q)"
    using r unfolding padTo_def r(1) Let_def k by auto
  then show ?thesis by (metis mod_mult_self1_is_0)
qed

lemma spc_paddingLength_eq: "spc_paddingLength n = padTo (prefixLen + n)"
  by (simp add: spc_paddingLength_def padTo_def packetSizeMultiple_def Let_def)

lemma gcm_paddingLength_eq: "gcm_paddingLength n = padTo (1 + n)"
  by (simp add: gcm_paddingLength_def padTo_def packetSizeMultiple_def Let_def)

section \<open>The contract of a packet cipher\<close>

text \<open>
  Two sides with the same state \<open>c\<close>: a packet that one side writes without an error is what the other side reads from the
  bytes written, and both are in the same state afterwards, with the input after the packet untouched. \<open>fits\<close> are the
  packets that the reading side does not refuse for their size.
\<close>

locale packet_cipher =
  fixes wr :: "'c \<Rightarrow> uint32 \<Rightarrow> byteIn \<Rightarrow> byteOut \<Rightarrow> bytes \<Rightarrow> 'c \<times> byteIn \<times> byteOut \<times> unit res"
    and rd :: "'c \<Rightarrow> uint32 \<Rightarrow> byteIn \<Rightarrow> 'c \<times> byteIn \<times> bytes res"
    and wf :: "'c \<Rightarrow> bool"
    and fits :: "bytes \<Rightarrow> bool"
  assumes transfer: "\<lbrakk> wf c; fits p; wr c n rand w p = (c', rand', w', Ok u) \<rbrakk> \<Longrightarrow>
      wf c' \<and> (\<exists>out. bo_data w' = bo_data w @ out \<and>
        (\<forall>rest e. rd c n \<lparr>bi_data = out @ rest, bi_err = e\<rparr> = (c', \<lparr>bi_data = rest, bi_err = e\<rparr>, Ok p)))"
    and fits_nonempty: "fits p \<Longrightarrow> p \<noteq> []"
begin

lemma transfer_obtain:
  assumes "wf c" "fits p" "wr c n rand w p = (c', rand', w', Ok u)"
  obtains out where "wf c'" "bo_data w' = bo_data w @ out"
    "\<And>rest e. rd c n \<lparr>bi_data = out @ rest, bi_err = e\<rparr> = (c', \<lparr>bi_data = rest, bi_err = e\<rparr>, Ok p)"
  using transfer [OF assms] by blast

text \<open>No packet is written as the beginning of another one: the bytes on the wire determine the packets.\<close>

lemma unambiguous:
  assumes "wf c" "fits p" "fits q" "wr c n rand w p = (c1, rand1, w1, Ok u)" "wr c n rand' v q = (c2, rand2, v1, Ok u')"
    "bo_data w1 = bo_data w @ a" "bo_data v1 = bo_data v @ a @ b"
  shows "p = q \<and> c1 = c2 \<and> b = []"
proof -
  obtain out1 where o1: "bo_data w1 = bo_data w @ out1"
    and r1: "\<And>rest e. rd c n \<lparr>bi_data = out1 @ rest, bi_err = e\<rparr> = (c1, \<lparr>bi_data = rest, bi_err = e\<rparr>, Ok p)"
    using transfer [OF assms(1,2,4)] by blast
  obtain out2 where o2: "bo_data v1 = bo_data v @ out2"
    and r2: "\<And>rest e. rd c n \<lparr>bi_data = out2 @ rest, bi_err = e\<rparr> = (c2, \<lparr>bi_data = rest, bi_err = e\<rparr>, Ok q)"
    using transfer [OF assms(1,3,5)] by blast
  from o1 o2 assms(6,7) have "out1 = a" "out2 = a @ b" by simp_all
  with r1 [of b EOF] r2 [of "[]" EOF] show ?thesis by simp
qed

end

section \<open>Both ciphers keep the contract\<close>

definition spc_wf :: "streamPacketCipher \<Rightarrow> bool" where
  "spc_wf s = (case sp_mac s of None \<Rightarrow> True | Some m \<Rightarrow> (\<forall>d. length (mac_sum m d) = mac_size m))"

definition spc_fits :: "bytes \<Rightarrow> bool" where
  "spc_fits p \<longleftrightarrow> p \<noteq> [] \<and> length p + 1 + spc_paddingLength (length p) \<le> maxPacket"

definition gcm_fits :: "bytes \<Rightarrow> bool" where
  "gcm_fits p \<longleftrightarrow> p \<noteq> [] \<and> length p + gcm_paddingLength (length p) + 1 \<le> maxPacket"

text \<open>What the documentation of \<^verbatim>\<open>cipher.AEAD\<close> says: the tag adds 16 bytes, and \<^verbatim>\<open>Open\<close> undoes \<^verbatim>\<open>Seal\<close>.\<close>

definition aead_laws :: "cipherlib \<Rightarrow> bool" where
  "aead_laws cl \<longleftrightarrow> (\<forall>k iv p ad. length (cl_seal cl k iv p ad) = length p + gcmTagSize \<and> cl_open cl k iv (cl_seal cl k iv p ad) ad = Ok p)"

definition macBytes :: "streamPacketCipher \<Rightarrow> bytes \<Rightarrow> bytes" where
  "macBytes s d = (case sp_mac s of Some m \<Rightarrow> mac_sum m d | None \<Rightarrow> [])"

lemma length_spc_prefix [simp]: "length (spc_prefix n) = 5"
  by (simp add: spc_prefix_def)

lemma spc_writePacket_Ok:
  assumes "spc_writePacket s n rand w p = (s', rand', w', Ok u)"
  obtains pad where "length pad = spc_paddingLength (length p)"
    "s' = s\<lparr>sp_cipher := advance (sp_cipher s) (5 + length p + length pad)\<rparr>"
    "bo_data w' = bo_data w @ xorAt (sp_cipher s) (spc_prefix (length p) @ p @ pad) @ macBytes s (be32 n @ spc_prefix (length p) @ p @ pad)"
proof -
  obtain rand1 r where rf: "readFull rand (spc_paddingLength (length p)) = (rand1, r)" by (cases "readFull rand (spc_paddingLength (length p))")
  from assms have l: "\<not> maxPacket < length p" by (auto simp: spc_writePacket_def split: if_splits)
  with assms rf obtain pad where r: "r = Ok pad" by (cases r) (simp_all add: spc_writePacket_def Let_def)
  from rf r have lp: "length pad = spc_paddingLength (length p)" by (auto dest: readFull_Ok)
  have "s' = s\<lparr>sp_cipher := advance (sp_cipher s) (5 + length p + length pad)\<rparr> \<and>
      writes w ([xorAt (sp_cipher s) (spc_prefix (length p)), xorAt (advance (sp_cipher s) 5) p, xorAt (advance (sp_cipher s) (5 + length p)) pad] @
        (case sp_mac s of Some m \<Rightarrow> [mac_sum m (be32 n @ spc_prefix (length p) @ p @ pad)] | None \<Rightarrow> [])) = (w', Ok u)"
    using assms l rf r by (auto simp: spc_writePacket_def Let_def XORKeyStream_eq add.assoc)
  then show thesis
    by (intro that [OF lp]) (auto simp: xorAt_append macBytes_def split: option.splits dest!: writes_Ok)
qed

text \<open>Reading the packet back: the decrypted prefix gives the lengths.\<close>

lemma spc_lengths:
  assumes "spc_fits p"
  shows "unat (get32 (spc_prefix (length p))) = length p + 1 + spc_paddingLength (length p)"
    and "(ucast (spc_prefix (length p) ! 4) :: uint32) = of_nat (spc_paddingLength (length p))"
    and "unat (of_nat (spc_paddingLength (length p)) :: uint32) = spc_paddingLength (length p)"
proof -
  have b: "spc_paddingLength (length p) < 20" by (simp add: spc_paddingLength_eq padTo_bounds)
  from assms show "unat (get32 (spc_prefix (length p))) = length p + 1 + spc_paddingLength (length p)"
    unfolding spc_prefix_def get32_be32 spc_fits_def maxPacket_def by (intro unat_of_nat_lt) simp
  from b show "unat (of_nat (spc_paddingLength (length p)) :: uint32) = spc_paddingLength (length p)"
    by (intro unat_of_nat_lt) simp
  from b show "(ucast (spc_prefix (length p) ! 4) :: uint32) = of_nat (spc_paddingLength (length p))"
    by (simp add: spc_prefix_def nth_append word_unat_eq_iff unsigned_ucast_eq unsigned_of_nat take_bit_nat_eq_self)
qed

lemma spc_transfer:
  assumes "spc_wf s" "spc_fits p" "spc_writePacket s n rand w p = (s', rand', w', Ok u)"
  shows "spc_wf s' \<and> (\<exists>out. bo_data w' = bo_data w @ out \<and>
    (\<forall>rest e. spc_readPacket s n \<lparr>bi_data = out @ rest, bi_err = e\<rparr> = (s', \<lparr>bi_data = rest, bi_err = e\<rparr>, Ok p)))"
proof -
  obtain pad where lp: "length pad = spc_paddingLength (length p)"
    and s': "s' = s\<lparr>sp_cipher := advance (sp_cipher s) (5 + length p + length pad)\<rparr>"
    and w': "bo_data w' = bo_data w @ xorAt (sp_cipher s) (spc_prefix (length p) @ p @ pad) @ macBytes s (be32 n @ spc_prefix (length p) @ p @ pad)"
    by (rule spc_writePacket_Ok [OF assms(3)]) blast
  note len = spc_lengths [OF assms(2)]
  let ?m = "macBytes s (be32 n @ spc_prefix (length p) @ p @ pad)"
  let ?macSize = "case sp_mac s of Some m \<Rightarrow> mac_size m | None \<Rightarrow> 0"
  have mac: "length ?m = ?macSize" using assms(1) by (simp add: macBytes_def spc_wf_def split: option.splits)
  have pad1: "unat (of_nat (spc_paddingLength (length p)) + 1 :: uint32) = spc_paddingLength (length p) + 1"
    using len(3) padTo_bounds [of "prefixLen + length p"] by (simp add: unat_word_ariths spc_paddingLength_eq)
  have small: "\<not> get32 (spc_prefix (length p)) \<le> of_nat (spc_paddingLength (length p)) + 1"
    using assms(2) unfolding word_le_nat_alt pad1 len(1) by (simp add: spc_fits_def)
  have body: "unat (get32 (spc_prefix (length p)) - of_nat (spc_paddingLength (length p)) - 1) = length p"
  proof -
    have "unat (get32 (spc_prefix (length p)) - (of_nat (spc_paddingLength (length p)) + 1)) =
        length p + 1 + spc_paddingLength (length p) - (spc_paddingLength (length p) + 1)"
      using small unfolding len(1) [symmetric] pad1 [symmetric] by (intro unat_sub) simp
    then show ?thesis by (simp add: diff_diff_eq)
  qed
  let ?c1 = "xorAt (sp_cipher s) (spc_prefix (length p))" and ?c2 = "xorAt (advance (sp_cipher s) 5) (p @ pad)"
  have "spc_readPacket s n \<lparr>bi_data = (?c1 @ ?c2 @ ?m) @ rest, bi_err = e\<rparr> = (s', \<lparr>bi_data = rest, bi_err = e\<rparr>, Ok p)" for rest e
  proof -
    have one: "readFull \<lparr>bi_data = (?c1 @ ?c2 @ ?m) @ rest, bi_err = e\<rparr> prefixLen = (\<lparr>bi_data = (?c2 @ ?m) @ rest, bi_err = e\<rparr>, Ok ?c1)"
      using readFull_append [of ?c1 prefixLen "(?c2 @ ?m) @ rest" e] by (simp add: prefixLen_def)
    have two: "readFull \<lparr>bi_data = (?c2 @ ?m) @ rest, bi_err = e\<rparr> (unat (get32 (spc_prefix (length p))) - 1 + ?macSize) = (\<lparr>bi_data = rest, bi_err = e\<rparr>, Ok (?c2 @ ?m))"
      by (rule readFull_append) (simp add: len(1) mac lp)
    have "\<not> maxPacket < unat (get32 (spc_prefix (length p)))" using assms(2) by (simp add: len(1) spc_fits_def)
    with small body one two mac show ?thesis
      by (simp add: spc_readPacket_def spc_open_def spc_macSize_def XORKeyStream_eq len(2) Let_def len(1) lp s' macBytes_def add.assoc split: option.splits)
  qed
  moreover have "bo_data w' = bo_data w @ ?c1 @ ?c2 @ ?m" by (simp add: w' xorAt_append)
  moreover have "spc_wf s'" using assms(1) by (simp add: s' spc_wf_def)
  ultimately show ?thesis by blast
qed

text \<open>The same for AES-GCM, whose length is in the clear.\<close>

lemma gcm_transfer:
  assumes "aead_laws cl" "gcm_fits p" "gcm_writePacket cl c rand w p = (c', rand', w', Ok u)"
  shows "\<exists>out. bo_data w' = bo_data w @ out \<and>
    (\<forall>rest e. gcm_readPacket cl c \<lparr>bi_data = out @ rest, bi_err = e\<rparr> = (c', \<lparr>bi_data = rest, bi_err = e\<rparr>, Ok p))"
proof -
  define padding where "padding = gcm_paddingLength (length p)"
  define len where "len = (of_nat (length p + padding + 1) :: uint32)"
  have b: "4 \<le> padding" "padding < 20" by (simp_all add: padding_def gcm_paddingLength_eq padTo_bounds)
  have max: "length p + padding + 1 \<le> maxPacket" and ne: "p \<noteq> []"
    using assms(2) by (simp_all add: gcm_fits_def padding_def)
  from max have ul: "unat len = length p + padding + 1"
    unfolding len_def maxPacket_def by (intro unat_of_nat_lt) simp
  have ub: "unat (of_nat padding :: byte) = padding" using b by (intro unat_of_nat_lt) simp
  obtain w1 r1 where w1: "writeBytes w (be32 len) = (w1, r1)" by (cases "writeBytes w (be32 len)")
  obtain rand1 r2 where r2: "readFull rand padding = (rand1, r2)" by (cases "readFull rand padding")
  note w = assms(3) [unfolded gcm_writePacket_def Let_def padding_def [symmetric] len_def [symmetric] w1 r2]
  from w obtain u1 where r1_Ok: "r1 = Ok u1" by (cases r1) simp_all
  have "\<not> unat len < 1 + length p" by (simp add: ul)
  with w r1_Ok obtain pad where r2_Ok: "r2 = Ok pad" by (cases r2) simp_all
  from r2 r2_Ok have lp: "length pad = padding" by (auto dest: readFull_Ok)
  let ?plain = "[of_nat padding] @ p @ pad"
  define sealed where "sealed = cl_seal cl (gc_key c) (gc_iv c) ?plain (be32 len)"
  have ls: "length sealed = unat len + gcmTagSize" and opened: "cl_open cl (gc_key c) (gc_iv c) sealed (be32 len) = Ok ?plain"
    using assms(1) by (simp_all add: sealed_def aead_laws_def ul lp)
  obtain w2 r3 where w2: "writeBytes w1 sealed = (w2, r3)" by (cases "writeBytes w1 sealed")
  with w r1_Ok r2_Ok \<open>\<not> unat len < 1 + length p\<close> obtain u3 where "r3 = Ok u3" and c': "c' = c\<lparr>gc_iv := incIV (gc_iv c)\<rparr>" and "w' = w2"
    by (cases r3) (simp_all add: sealed_def)
  with writeBytes_Ok [OF w1 [unfolded r1_Ok]] w2 have out: "bo_data w' = bo_data w @ be32 len @ sealed"
    by (auto dest: writeBytes_Ok)
  have "gcm_readPacket cl c \<lparr>bi_data = (be32 len @ sealed) @ rest, bi_err = e\<rparr> = (c', \<lparr>bi_data = rest, bi_err = e\<rparr>, Ok p)" for rest e
  proof -
    have g: "get32 (be32 len) = len" using get32_be32 [of len "[]"] by simp
    have "\<not> (of_nat padding :: byte) < 4" "\<not> (20 :: byte) \<le> of_nat padding" using b ub by (simp_all add: word_less_nat_alt word_le_nat_alt)
    moreover have "length p > 0" using ne by simp
    ultimately show ?thesis using max ls opened
      by (simp add: gcm_readPacket_def g ul index_def slice_def ub c' lp)
  qed
  with out show ?thesis by blast
qed

interpretation spc: packet_cipher spc_writePacket spc_readPacket spc_wf spc_fits
  by unfold_locales (rule spc_transfer, assumption+, simp add: spc_fits_def)

interpretation gcm: packet_cipher "\<lambda>c _. gcm_writePacket cl c" "\<lambda>c _. gcm_readPacket cl c" "\<lambda>c. aead_laws cl" gcm_fits for cl
  by unfold_locales (use gcm_transfer in blast, simp add: gcm_fits_def)

section \<open>The counter of AES-GCM\<close>

text \<open>The loop of \<open>incIV\<close> adds one to the big-endian number in bytes 4 to \<open>i\<close>, modulo its size, and changes nothing else.\<close>

definition counterTo :: "nat \<Rightarrow> bytes \<Rightarrow> nat" where
  "counterTo i iv = be_val (drop 4 (take (Suc i) iv))"

lemma counterTo_step:
  assumes "4 \<le> i" "i < length iv"
  shows "counterTo i iv = 256 * be_val (drop 4 (take i iv)) + unat (iv ! i)"
proof -
  have "take (Suc i) iv = take i iv @ [iv ! i]" using assms by (simp add: take_Suc_conv_app_nth)
  with assms show ?thesis by (simp only: counterTo_def) simp
qed

lemma counterTo_less: "counterTo i iv < 256 ^ (i - 3)"
proof -
  have "counterTo i iv < 256 ^ length (drop 4 (take (Suc i) iv))" unfolding counterTo_def by (rule be_val_less)
  also have "\<dots> \<le> 256 ^ (i - 3)" by (intro power_increasing) auto
  finally show ?thesis .
qed

lemma unat_inc: "unat (b + 1 :: byte) = (if b + 1 = 0 then 0 else Suc (unat b))" "(b + 1 = 0) = (unat b = 255)"
proof -
  have "unat (b + 1) = (unat b + 1) mod 256" by (simp add: unat_word_ariths)
  with unat_byte [of b] show "(b + 1 = 0) = (unat b = 255)" "unat (b + 1) = (if b + 1 = 0 then 0 else Suc (unat b))"
    by (auto simp: unat_eq_zero [symmetric] mod_Suc)
qed

lemma incFrom_counts:
  "4 \<le> i \<Longrightarrow> i < length iv \<Longrightarrow> length (incFrom i iv) = length iv \<and> take 4 (incFrom i iv) = take 4 iv \<and>
     drop (Suc i) (incFrom i iv) = drop (Suc i) iv \<and> counterTo i (incFrom i iv) = (counterTo i iv + 1) mod 256 ^ (i - 3)"
proof (induction i iv rule: incFrom.induct)
  case (1 i iv)
  let ?iv = "iv[i := iv ! i + 1]" and ?hi = "be_val (drop 4 (take i iv))"
  have new: "counterTo i ?iv = 256 * ?hi + unat (iv ! i + 1)" and old: "counterTo i iv = 256 * ?hi + unat (iv ! i)"
    using counterTo_step [of i ?iv] counterTo_step [of i iv] "1.prems" by simp_all
  show ?case
  proof (cases "iv ! i + 1 \<noteq> 0 \<or> i \<le> 4")
    case True
    then have eq: "incFrom i iv = ?iv" using "1.prems" by (subst incFrom.simps) (simp add: Let_def)
    have "counterTo i ?iv = (counterTo i iv + 1) mod 256 ^ (i - 3)"
    proof (cases "iv ! i + 1 = 0")
      case True
      with \<open>_ \<or> i \<le> 4\<close> "1.prems" have "i = 4" by simp
      with True new old show ?thesis by (simp add: unat_inc)
    next
      case False
      with counterTo_less [of i ?iv] show ?thesis by (simp add: new old unat_inc)
    qed
    with "1.prems" show ?thesis by (simp add: eq)
  next
    case False
    then have eq: "incFrom i iv = incFrom (i - 1) ?iv" and i: "4 < i" and z: "iv ! i + 1 = 0" using "1.prems" by (subst incFrom.simps, simp_all add: Let_def)
    let ?r = "incFrom (i - 1) ?iv"
    have hi: "counterTo (i - 1) ?iv = ?hi" using i by (simp add: counterTo_def)
    have "4 \<le> i - 1" "i - 1 < length ?iv" using i "1.prems" by simp_all
    from "1.IH" [OF refl _ this] False i "1.prems" have r: "length ?r = length iv" "take 4 ?r = take 4 iv" "drop i ?r = drop i ?iv"
      and c: "counterTo (i - 1) ?r = (counterTo (i - 1) ?iv + 1) mod 256 ^ (i - 4)" by (auto simp: Suc_diff_Suc)
    have "?r ! i = 0" using r(1,3) z "1.prems" by (metis add.right_neutral length_list_update nth_drop nth_list_update_eq order_less_imp_le)
    then have "counterTo i ?r = 256 * counterTo (i - 1) ?r" using counterTo_step [of i ?r] i r(1) "1.prems" by (simp add: counterTo_def)
    also have "\<dots> = (256 * (?hi + 1)) mod (256 * 256 ^ (i - 4))" by (simp only: c hi mult_mod_right)
    also have "256 * 256 ^ (i - 4) = (256 :: nat) ^ (i - 3)" using i by (simp flip: power_Suc add: Suc_diff_Suc)
    also have "256 * (?hi + 1) = counterTo i iv + 1" using z by (simp add: old unat_inc)
    finally have "counterTo i ?r = (counterTo i iv + 1) mod 256 ^ (i - 3)" .
    moreover have "drop (Suc i) ?r = drop (Suc i) iv" using r(3) by (metis drop_Suc drop_update_cancel lessI tl_drop)
    ultimately show ?thesis using r by (simp add: eq)
  qed
qed

lemma add_mod_inj:
  assumes "(a + i) mod m = (a + j) mod m" "i < m" "j < (m :: nat)"
  shows "i = j"
proof -
  have "i = j" if "(a + i) mod m = (a + j) mod m" "i \<le> j" "j < m" for i j
  proof -
    from that have "m dvd (a + j) - (a + i)" by (metis add_left_mono mod_eq_dvd_iff_nat)
    with that show ?thesis by (auto dest: dvd_imp_le)
  qed
  from this [of i j] this [of j i] assms show ?thesis by (metis nat_le_linear)
qed

text \<open>The eight counter bytes of a nonce.\<close>

abbreviation ivCounter :: "bytes \<Rightarrow> nat" where
  "ivCounter iv \<equiv> be_val (drop 4 iv)"

lemma incIV_counter:
  assumes "length iv = 12"
  shows "length (incIV iv) = 12" "take 4 (incIV iv) = take 4 iv" "ivCounter (incIV iv) = (ivCounter iv + 1) mod 2 ^ 64"
  using incFrom_counts [of 11 iv] assms by (auto simp: incIV_def counterTo_def)

lemma incIV_iterate:
  assumes "length iv = 12"
  shows "length ((incIV ^^ n) iv) = 12 \<and> take 4 ((incIV ^^ n) iv) = take 4 iv \<and> ivCounter ((incIV ^^ n) iv) = (ivCounter iv + n) mod 2 ^ 64"
proof (induction n)
  case 0
  have "ivCounter iv < 256 ^ length (drop 4 iv)" by (rule be_val_less)
  with assms show ?case by simp
next
  case (Suc n)
  then show ?case using incIV_counter [of "(incIV ^^ n) iv"] by (simp add: mod_Suc_eq)
qed

section \<open>Properties\<close>

lemma spc_open_Ok:
  assumes "spc_open s n prefix d = (s', Ok p)"
  obtains data where "take (unat (get32 prefix) - 1) d = xorAt (sp_cipher s) data" "p = take (unat (get32 prefix - ucast (prefix ! 4) - 1)) data"
    "s' = s\<lparr>sp_cipher := advance (sp_cipher s) (length data)\<rparr>"
    "\<forall>m. sp_mac s = Some m \<longrightarrow> drop (unat (get32 prefix) - 1) d = mac_sum m (be32 n @ prefix @ data)"
  using assms by (intro that [of "xorAt (sp_cipher s) (take (unat (get32 prefix) - 1) d)"])
    (auto simp: spc_open_def Let_def XORKeyStream_eq split: option.splits if_splits)

lemma spc_readPacket_Ok:
  assumes "spc_readPacket s n r = (s', r', Ok p)"
  obtains prefix d s1 r1 where "length prefix = 5" "bi_data r = xorAt (sp_cipher s) prefix @ d @ bi_data r'"
    "unat (get32 prefix) \<le> maxPacket" "\<not> get32 prefix \<le> ucast (prefix ! 4) + 1" "length d = unat (get32 prefix) - 1 + spc_macSize s"
    "spc_open (s\<lparr>sp_cipher := advance (sp_cipher s) 5\<rparr>) n prefix d = (s', Ok p)"
proof -
  obtain r1 q where one: "readFull r prefixLen = (r1, q)" by (cases "readFull r prefixLen")
  with assms obtain enc where q: "q = Ok enc" by (cases q) (simp_all add: spc_readPacket_def)
  define prefix where "prefix = xorAt (sp_cipher s) enc"
  let ?s = "s\<lparr>sp_cipher := advance (sp_cipher s) 5\<rparr>"
  have e: "length enc = 5" "bi_data r = enc @ bi_data r1" using readFull_Ok [OF one [unfolded q]] by (simp_all add: prefixLen_def)
  obtain r2 q2 where two: "readFull r1 (unat (get32 prefix) - 1 + spc_macSize ?s) = (r2, q2)" by (cases "readFull r1 (unat (get32 prefix) - 1 + spc_macSize ?s)")
  note rd = assms [unfolded spc_readPacket_def one q XORKeyStream_eq Let_def prod.case res.case, folded prefix_def, unfolded e(1) two]
  from rd have sz: "\<not> get32 prefix \<le> ucast (prefix ! 4) + 1" "unat (get32 prefix) \<le> maxPacket" by (auto split: if_splits)
  with rd obtain d where q2: "q2 = Ok d" and op: "spc_open ?s n prefix d = (s', Ok p)" and r': "r2 = r'"
    by (cases q2) (auto split: prod.splits)
  show thesis
    using e sz op readFull_Ok [OF two [unfolded q2]] by (intro that [of prefix d]) (simp_all add: prefix_def r' spc_macSize_def)
qed

text \<open>(C22) A stream cipher packet that the reading side accepts is authentic: the bytes that were consumed are the encryption,
  under the key stream at the reader's position, of a length prefix and data, followed by the MAC of the reader's
  sequence number, this prefix and this data; the packet is a nonempty part of the data, and no more than the maximal
  packet size was buffered for it.
\<close>

theorem accepted_authentic:
  assumes "spc_readPacket s n r = (s', r', Ok p)" "sp_mac s = Some m"
  shows "\<exists>prefix data. length prefix = 5 \<and>
     bi_data r = xorAt (sp_cipher s) (prefix @ data) @ mac_sum m (be32 n @ prefix @ data) @ bi_data r' \<and>
     (\<exists>pad. data = p @ pad \<and> length pad = unat (prefix ! 4)) \<and> p \<noteq> [] \<and> length data < maxPacket"
proof -
  obtain prefix d where l: "length prefix = 5" and r: "bi_data r = xorAt (sp_cipher s) prefix @ d @ bi_data r'"
    and mx: "unat (get32 prefix) \<le> maxPacket" and sm: "\<not> get32 prefix \<le> ucast (prefix ! 4) + 1" and ld: "length d = unat (get32 prefix) - 1 + spc_macSize s"
    and op: "spc_open (s\<lparr>sp_cipher := advance (sp_cipher s) 5\<rparr>) n prefix d = (s', Ok p)"
    by (rule spc_readPacket_Ok [OF assms(1)]) blast
  obtain data where d: "take (unat (get32 prefix) - 1) d = xorAt (advance (sp_cipher s) 5) data"
    and p: "p = take (unat (get32 prefix - ucast (prefix ! 4) - 1)) data"
    and m: "drop (unat (get32 prefix) - 1) d = mac_sum m (be32 n @ prefix @ data)"
    by (rule spc_open_Ok [OF op]) (use assms(2) in auto)
  from arg_cong [OF d, of length] ld have len: "length data = unat (get32 prefix) - 1" by simp
  have uc: "unat (ucast (prefix ! 4) + 1 :: uint32) = unat (prefix ! 4) + 1"
    using unat_byte [of "prefix ! 4"] unat_ucast_byte [of "prefix ! 4"]
    by (simp add: unat_word_ariths del: unat_byte)
  have us: "unat (get32 prefix - ucast (prefix ! 4) - 1) = unat (get32 prefix) - (unat (prefix ! 4) + 1)"
    using sm unat_sub [of "ucast (prefix ! 4) + 1" "get32 prefix"] by (simp add: uc diff_diff_eq)
  from sm uc have lt: "unat (prefix ! 4) + 1 < unat (get32 prefix)" by (simp add: word_le_nat_alt)
  have "d = xorAt (advance (sp_cipher s) 5) data @ mac_sum m (be32 n @ prefix @ data)"
    by (metis append_take_drop_id d m)
  with r l have "bi_data r = xorAt (sp_cipher s) (prefix @ data) @ mac_sum m (be32 n @ prefix @ data) @ bi_data r'"
    by (simp add: xorAt_append)
  moreover have "data = p @ drop (unat (get32 prefix) - (unat (prefix ! 4) + 1)) data" by (simp add: p us)
  moreover have "length (drop (unat (get32 prefix) - (unat (prefix ! 4) + 1)) data) = unat (prefix ! 4)" using len lt by simp
  moreover have "p \<noteq> []" using p us len lt by auto
  moreover have "length data < maxPacket" using len mx lt by linarith
  ultimately show ?thesis using l by blast
qed

definition demoMAC :: macFn where
  "demoMAC = \<lparr>mac_size = 1, mac_sum = (\<lambda>d. [of_nat (length d)])\<rparr>"

definition demoSPC :: "nat \<Rightarrow> streamPacketCipher" where
  "demoSPC n = \<lparr>sp_mac = Some demoMAC, sp_cipher = \<lparr>st_key = (\<lambda>i. of_nat i), st_pos = n\<rparr>\<rparr>"

definition demoWire :: bytes where
  "demoWire = [0, 1, 2, 4, 1, 47, 6, 7, 8, 9, 10, 15, 99]"

theorem accepted_authentic_witness:
  "\<exists>prefix data. length prefix = 5 \<and>
     demoWire = xorAt (sp_cipher (demoSPC 0)) (prefix @ data) @ mac_sum demoMAC (be32 7 @ prefix @ data) @ [99] \<and>
     (\<exists>pad. data = [42] @ pad \<and> length pad = unat (prefix ! 4)) \<and> [42 :: byte] \<noteq> [] \<and> length data < maxPacket"
proof -
  have "spc_readPacket (demoSPC 0) 7 \<lparr>bi_data = demoWire, bi_err = EOF\<rparr> = (demoSPC 11, \<lparr>bi_data = [99], bi_err = EOF\<rparr>, Ok [42])"
    by (simp add: spc_readPacket_def spc_open_def spc_macSize_def demoSPC_def demoMAC_def demoWire_def readFull_def prefixLen_def maxPacket_def
        XORKeyStream_def get32_def be_val_def be32_def upt_rec_numeral)
  from accepted_authentic [OF this] show ?thesis by (simp add: demoSPC_def)
qed

text \<open>The nonces of AES-GCM do not repeat: a cipher whose nonce has twelve bytes uses, for any two of its first
  \<open>2 ^ 64\<close> packets, two different nonces; \<open>incIV\<close> counts in the last eight bytes and leaves the first four.
\<close>

theorem nonces_distinct:
  assumes "length iv = 12" "i < 2 ^ 64" "j < 2 ^ 64" "i \<noteq> j"
  shows "(incIV ^^ i) iv \<noteq> (incIV ^^ j) iv \<and> take 4 ((incIV ^^ i) iv) = take 4 iv"
proof -
  have "(ivCounter iv + i) mod 2 ^ 64 \<noteq> (ivCounter iv + j) mod 2 ^ 64"
    using assms(2-4) by (blast dest: add_mod_inj)
  with incIV_iterate [OF assms(1)] show ?thesis by metis
qed

theorem nonces_distinct_witness:
  "(incIV ^^ 0) (replicate 12 255) \<noteq> (incIV ^^ 1) (replicate 12 255) \<and> take 4 ((incIV ^^ 0) (replicate 12 (255 :: byte))) = take 4 (replicate 12 255)"
  using nonces_distinct [of "replicate 12 255" 0 1] by simp

end
