(* ===== verification/Transport.thy ===== *)
theory Transport
  imports Cipher
begin

text \<open>
  The packet transport (\<^verbatim>\<open>transport.go\<close>): the state of one direction with its sequence number and the cipher that a
  key exchange has prepared, the derivation of keys, and the exchange of version lines. One direction keeps the
  contract \<open>packet_cipher\<close> again, over changes of keys.
\<close>

section \<open>Packet ciphers\<close>

datatype packetCipher = StreamPacketCipher streamPacketCipher | GcmCipher gcmCipher

fun pc_readPacket :: "cipherlib \<Rightarrow> packetCipher \<Rightarrow> uint32 \<Rightarrow> byteIn \<Rightarrow> packetCipher \<times> byteIn \<times> bytes res" where
  "pc_readPacket cl (StreamPacketCipher s) n r = apfst StreamPacketCipher (spc_readPacket s n r)"
| "pc_readPacket cl (GcmCipher c) n r = apfst GcmCipher (gcm_readPacket cl c r)"

fun pc_writePacket :: "cipherlib \<Rightarrow> packetCipher \<Rightarrow> uint32 \<Rightarrow> byteIn \<Rightarrow> byteOut \<Rightarrow> bytes \<Rightarrow> packetCipher \<times> byteIn \<times> byteOut \<times> unit res" where
  "pc_writePacket cl (StreamPacketCipher s) n rand w p = apfst StreamPacketCipher (spc_writePacket s n rand w p)"
| "pc_writePacket cl (GcmCipher c) n rand w p = apfst GcmCipher (gcm_writePacket cl c rand w p)"

section \<open>One direction of the connection\<close>

record direction =
  ivTag :: bytes
  keyTag :: bytes
  macKeyTag :: bytes

definition serverKeys :: direction where
  "serverKeys = \<lparr>ivTag = bytes_of ''B'', keyTag = bytes_of ''D'', macKeyTag = bytes_of ''F''\<rparr>"

definition clientKeys :: direction where
  "clientKeys = \<lparr>ivTag = bytes_of ''A'', keyTag = bytes_of ''C'', macKeyTag = bytes_of ''E''\<rparr>"

text \<open>\<open>cs_pendingKeyChange\<close> is the Go channel with room for one cipher.\<close>

record connectionState =
  cs_packetCipher :: packetCipher
  cs_seqNum :: uint32
  cs_dir :: direction
  cs_pendingKeyChange :: "packetCipher option"

definition isNewKeys :: "bytes \<Rightarrow> bool" where
  "isNewKeys packet \<longleftrightarrow> packet \<noteq> [] \<and> packet ! 0 = msgNewKeys"

definition cs_readPacket :: "cipherlib \<Rightarrow> connectionState \<Rightarrow> byteIn \<Rightarrow> connectionState \<times> byteIn \<times> bytes res" where
  "cs_readPacket cl s r = (case pc_readPacket cl (cs_packetCipher s) (cs_seqNum s) r of (c, r, q) \<Rightarrow>
     (let s = s\<lparr>cs_packetCipher := c, cs_seqNum := cs_seqNum s + 1\<rparr> in
      case q of
        Ok packet \<Rightarrow>
          if packet = [] then (s, r, Err (ErrNew ''ssh: zero length packet''))
          else if isNewKeys packet then
            (case cs_pendingKeyChange s of
               Some cipher \<Rightarrow> (s\<lparr>cs_packetCipher := cipher, cs_pendingKeyChange := None\<rparr>, r, Ok packet)
             | None \<Rightarrow> (s, r, Err (ErrNew ''ssh: got bogus newkeys message.'')))
          else (s, r, Ok packet)
      | Err e \<Rightarrow> (s, r, Err e)
      | Panic p \<Rightarrow> (s, r, Panic p)))"

text \<open>
  The buffered writer passes its bytes to the connection when it is flushed; both are the one sequence of bytes of
  \<open>byteOut\<close>, so that \<^verbatim>\<open>Flush\<close> reports an error that a write has met.
\<close>

definition cs_writePacket :: "cipherlib \<Rightarrow> connectionState \<Rightarrow> byteIn \<Rightarrow> byteOut \<Rightarrow> bytes \<Rightarrow> connectionState \<times> byteIn \<times> byteOut \<times> unit res" where
  "cs_writePacket cl s rand w packet = (case pc_writePacket cl (cs_packetCipher s) (cs_seqNum s) rand w packet of (c, rand, w, q) \<Rightarrow>
     (let s = s\<lparr>cs_packetCipher := c\<rparr> in
      case q of
        Ok _ \<Rightarrow>
         (let s = s\<lparr>cs_seqNum := cs_seqNum s + 1\<rparr> in
          if isNewKeys packet then
            (case cs_pendingKeyChange s of
               Some cipher \<Rightarrow> (s\<lparr>cs_packetCipher := cipher, cs_pendingKeyChange := None\<rparr>, rand, w, Ok ())
             | None \<Rightarrow> (s, rand, w, Panic ''ssh: no key material for msgNewKeys''))
          else (s, rand, w, Ok ()))
      | Err e \<Rightarrow> (s, rand, w, Err e)
      | Panic p \<Rightarrow> (s, rand, w, Panic p)))"

section \<open>Key derivation\<close>

record kexResult =
  kr_H :: bytes
  kr_K :: bytes
  kr_HostKey :: bytes
  kr_Signature :: bytes
  kr_Hash :: hash
  kr_SessionID :: bytes

text \<open>
  The loop fills \<open>n\<close> bytes from the digests; with a hash function whose sums are empty it would not end, which is
  the value \<open>None\<close>.
\<close>

definition kexDigest :: "crypto \<Rightarrow> bytes \<Rightarrow> kexResult \<Rightarrow> bytes \<Rightarrow> bytes" where
  "kexDigest cr tag r digestsSoFar =
     cr_hash cr (kr_Hash r) (kr_K r @ kr_H r @ (if digestsSoFar = [] then tag @ kr_SessionID r else digestsSoFar))"

partial_function (option) materialLoop :: "crypto \<Rightarrow> bytes \<Rightarrow> kexResult \<Rightarrow> nat \<Rightarrow> bytes \<Rightarrow> bytes option" where
  "materialLoop cr tag r n digestsSoFar =
     (if n = 0 then Some []
      else let digest = kexDigest cr tag r digestsSoFar;
               k = min n (length digest)
           in Option.bind (materialLoop cr tag r (n - k) (if n - k > 0 then digestsSoFar @ digest else digestsSoFar))
                (\<lambda>rest. Some (take k digest @ rest)))"

definition generateKeyMaterial :: "crypto \<Rightarrow> nat \<Rightarrow> bytes \<Rightarrow> kexResult \<Rightarrow> bytes option" where
  "generateKeyMaterial cr n tag r = materialLoop cr tag r n []"

text \<open>A cipher or MAC name that has no mode is a nil pointer.\<close>

definition nilMode :: "'a res option" where
  "nilMode = Some (Panic ''invalid memory address or nil pointer dereference'')"

definition generateKeys :: "cipherlib \<Rightarrow> crypto \<Rightarrow> direction \<Rightarrow> directionAlgorithms \<Rightarrow> kexResult \<Rightarrow> (bytes \<times> bytes \<times> bytes) res option" where
  "generateKeys cl cr d algs kex = (case (map_of cipherModes (da_Cipher algs), map_of (macModes cl) (da_MAC algs)) of
       (Some cipherMode, Some macMode) \<Rightarrow>
         Option.bind (generateKeyMaterial cr (cm_ivSize cipherMode) (ivTag d) kex) (\<lambda>iv.
         Option.bind (generateKeyMaterial cr (cm_keySize cipherMode) (keyTag d) kex) (\<lambda>key.
         Option.bind (generateKeyMaterial cr (mm_keySize macMode) (macKeyTag d) kex) (\<lambda>macKey.
         Some (Ok (iv, key, macKey)))))
     | _ \<Rightarrow> nilMode)"

definition newPacketCipher :: "cipherlib \<Rightarrow> crypto \<Rightarrow> direction \<Rightarrow> directionAlgorithms \<Rightarrow> kexResult \<Rightarrow> packetCipher res option" where
  "newPacketCipher cl cr d algs kex = Option.bind (generateKeys cl cr d algs kex) (\<lambda>ks. Some (rbind ks (\<lambda>(iv, key, macKey).
     if da_Cipher algs = gcmCipherID then rbind (newGCMCipher cl iv key) (\<lambda>c. Ok (GcmCipher c))
     else case (map_of cipherModes (da_Cipher algs), map_of (macModes cl) (da_MAC algs)) of
       (Some cipherMode, Some macMode) \<Rightarrow>
         rbind (createStream cl cipherMode key iv) (\<lambda>st. Ok (StreamPacketCipher \<lparr>sp_mac = Some (mm_new macMode macKey), sp_cipher = st\<rparr>))
     | _ \<Rightarrow> Panic ''invalid memory address or nil pointer dereference'')))"

section \<open>The transport\<close>

record transport =
  t_reader :: connectionState
  t_writer :: connectionState
  t_bufReader :: byteIn
  t_bufWriter :: byteOut
  t_rand :: byteIn
  t_sessionID :: "bytes option"
  t_closed :: bool

definition getSessionID :: "transport \<Rightarrow> bytes res" where
  "getSessionID t = (case t_sessionID t of None \<Rightarrow> Panic ''session ID not set yet'' | Some i \<Rightarrow> Ok i)"

definition initialState :: "direction \<Rightarrow> connectionState" where
  "initialState d = \<lparr>cs_packetCipher = StreamPacketCipher \<lparr>sp_mac = None, sp_cipher = noneCipher\<rparr>, cs_seqNum = 0,
     cs_dir = d, cs_pendingKeyChange = None\<rparr>"

definition newTransport :: "byteIn \<Rightarrow> byteOut \<Rightarrow> byteIn \<Rightarrow> bool \<Rightarrow> transport" where
  "newTransport inp out rand isClient =
     \<lparr>t_reader = initialState (if isClient then serverKeys else clientKeys),
      t_writer = initialState (if isClient then clientKeys else serverKeys),
      t_bufReader = inp, t_bufWriter = out, t_rand = rand, t_sessionID = None, t_closed = False\<rparr>"

definition t_readPacket :: "cipherlib \<Rightarrow> transport \<Rightarrow> transport \<times> bytes res" where
  "t_readPacket cl t = (case cs_readPacket cl (t_reader t) (t_bufReader t) of
     (s, r, q) \<Rightarrow> (t\<lparr>t_reader := s, t_bufReader := r\<rparr>, q))"

definition t_writePacket :: "cipherlib \<Rightarrow> transport \<Rightarrow> bytes \<Rightarrow> transport \<times> unit res" where
  "t_writePacket cl t packet = (case cs_writePacket cl (t_writer t) (t_rand t) (t_bufWriter t) packet of
     (s, rand, w, q) \<Rightarrow> (t\<lparr>t_writer := s, t_rand := rand, t_bufWriter := w\<rparr>, q))"

text \<open>Sending on the channel of a pending cipher blocks while the channel is full: \<open>None\<close>.\<close>

definition pushCipher :: "connectionState \<Rightarrow> packetCipher \<Rightarrow> connectionState option" where
  "pushCipher s c = (if cs_pendingKeyChange s = None then Some (s\<lparr>cs_pendingKeyChange := Some c\<rparr>) else None)"

definition prepareKeyChange :: "cipherlib \<Rightarrow> crypto \<Rightarrow> transport \<Rightarrow> algorithms \<Rightarrow> kexResult \<Rightarrow> (transport \<times> unit res) option" where
  "prepareKeyChange cl cr t algs kexResult =
     (let sessionID = (case t_sessionID t of None \<Rightarrow> kr_H kexResult | Some i \<Rightarrow> i);
          t = t\<lparr>t_sessionID := Some sessionID\<rparr>;
          kexResult = kexResult\<lparr>kr_SessionID := sessionID\<rparr>
      in Option.bind (newPacketCipher cl cr (cs_dir (t_reader t)) (al_r algs) kexResult) (\<lambda>q. case q of
           Err e \<Rightarrow> Some (t, Err e)
         | Panic p \<Rightarrow> Some (t, Panic p)
         | Ok ciph \<Rightarrow> Option.bind (pushCipher (t_reader t) ciph) (\<lambda>rd.
            (let t = t\<lparr>t_reader := rd\<rparr> in
             Option.bind (newPacketCipher cl cr (cs_dir (t_writer t)) (al_w algs) kexResult) (\<lambda>q. case q of
               Err e \<Rightarrow> Some (t, Err e)
             | Panic p \<Rightarrow> Some (t, Panic p)
             | Ok ciph \<Rightarrow> Option.bind (pushCipher (t_writer t) ciph) (\<lambda>wr. Some (t\<lparr>t_writer := wr\<rparr>, Ok ())))))))"

section \<open>Version lines\<close>

definition packageVersion :: string where
  "packageVersion = ''SSH-2.0-Go''"

definition maxVersionStringBytes :: nat where
  "maxVersionStringBytes = 255"

function readVersionLoop :: "byteIn \<Rightarrow> bytes \<Rightarrow> byteIn \<times> bytes res" where
  "readVersionLoop r versionString =
     (if length versionString < maxVersionStringBytes then
        (case readFull r 1 of
           (r, Ok buf) \<Rightarrow> if buf ! 0 = 10 then (r, Ok versionString) else readVersionLoop r (versionString @ [buf ! 0])
         | (r, Err e) \<Rightarrow> (r, Err e)
         | (r, Panic p) \<Rightarrow> (r, Panic p))
      else (r, Err (ErrNew ''ssh: overflow reading version string'')))"
  by pat_completeness auto
termination
  by (relation "measure (\<lambda>(r, v). maxVersionStringBytes - length v)") auto

declare readVersionLoop.simps [simp del]

definition readVersion :: "byteIn \<Rightarrow> byteIn \<times> bytes res" where
  "readVersion r = (case readVersionLoop r [] of
       (r, Ok v) \<Rightarrow> (r, Ok (if v \<noteq> [] \<and> v ! (length v - 1) = 13 then take (length v - 1) v else v))
     | (r, q) \<Rightarrow> (r, q))"

definition exchangeVersions :: "byteIn \<Rightarrow> byteOut \<Rightarrow> bytes \<Rightarrow> byteIn \<times> byteOut \<times> bytes res" where
  "exchangeVersions r w versionLine =
     (if \<exists>c\<in>set versionLine. c < 32 then (r, w, Err (ErrNew ''ssh: junk character in version line''))
      else case writeBytes w (versionLine @ [13, 10]) of
        (w, Err e) \<Rightarrow> (r, w, Err e)
      | (w, Panic p) \<Rightarrow> (r, w, Panic p)
      | (w, Ok _) \<Rightarrow> (case readVersion r of (r, q) \<Rightarrow> (r, w, q)))"

section \<open>One direction keeps the contract\<close>

text \<open>The packets that fit with either cipher, whatever its padding.\<close>

definition packetFits :: "bytes \<Rightarrow> bool" where
  "packetFits p \<longleftrightarrow> p \<noteq> [] \<and> length p + 20 \<le> maxPacket"

lemma packetFits_either: "packetFits p \<Longrightarrow> spc_fits p \<and> gcm_fits p"
  using padTo_bounds(2) [of "prefixLen + length p"] padTo_bounds(2) [of "1 + length p"]
  by (simp add: packetFits_def spc_fits_def gcm_fits_def spc_paddingLength_eq gcm_paddingLength_eq)

fun pc_wf :: "cipherlib \<Rightarrow> packetCipher \<Rightarrow> bool" where
  "pc_wf cl (StreamPacketCipher s) = spc_wf s"
| "pc_wf cl (GcmCipher c) = aead_laws cl"

definition cs_wf :: "cipherlib \<Rightarrow> connectionState \<Rightarrow> bool" where
  "cs_wf cl s \<longleftrightarrow> pc_wf cl (cs_packetCipher s) \<and> (\<forall>c. cs_pendingKeyChange s = Some c \<longrightarrow> pc_wf cl c)"

lemma pc_transfer:
  assumes "pc_wf cl c" "packetFits p" "pc_writePacket cl c n rand w p = (c', rand', w', Ok u)"
  shows "pc_wf cl c' \<and> (\<exists>out. bo_data w' = bo_data w @ out \<and>
    (\<forall>rest e. pc_readPacket cl c n \<lparr>bi_data = out @ rest, bi_err = e\<rparr> = (c', \<lparr>bi_data = rest, bi_err = e\<rparr>, Ok p)))"
proof (cases c)
  case (StreamPacketCipher s)
  with assms obtain s' where "spc_writePacket s n rand w p = (s', rand', w', Ok u)" "c' = StreamPacketCipher s'"
    by (cases "spc_writePacket s n rand w p") auto
  with spc.transfer [of s p n rand w s' rand' w' u] assms StreamPacketCipher packetFits_either show ?thesis by auto
next
  case (GcmCipher g)
  with assms obtain g' where "gcm_writePacket cl g rand w p = (g', rand', w', Ok u)" "c' = GcmCipher g'"
    by (cases "gcm_writePacket cl g rand w p") auto
  with gcm_transfer [of cl p g rand w g' rand' w' u] assms GcmCipher packetFits_either show ?thesis by auto
qed

interpretation pc: packet_cipher "pc_writePacket cl" "pc_readPacket cl" "pc_wf cl" packetFits for cl
  by unfold_locales (rule pc_transfer, assumption+, simp add: packetFits_def)

lemma cs_transfer:
  assumes "cs_wf cl s" "packetFits p" "cs_writePacket cl s rand w p = (s', rand', w', Ok u)"
  shows "cs_wf cl s' \<and> (\<exists>out. bo_data w' = bo_data w @ out \<and>
    (\<forall>rest e. cs_readPacket cl s \<lparr>bi_data = out @ rest, bi_err = e\<rparr> = (s', \<lparr>bi_data = rest, bi_err = e\<rparr>, Ok p)))"
proof -
  obtain c1 rand1 w1 q where one: "pc_writePacket cl (cs_packetCipher s) (cs_seqNum s) rand w p = (c1, rand1, w1, q)"
    by (cases "pc_writePacket cl (cs_packetCipher s) (cs_seqNum s) rand w p")
  from assms(3) one obtain u1 where q: "q = Ok u1" by (cases q) (simp_all add: cs_writePacket_def Let_def)
  from assms(3) have w1: "w1 = w'"
    by (auto simp: cs_writePacket_def one q Let_def split: if_splits option.splits)
  from assms(1) have "pc_wf cl (cs_packetCipher s)" by (simp add: cs_wf_def)
  from pc.transfer [OF this assms(2) one [unfolded q]] obtain out where wf1: "pc_wf cl c1" and out: "bo_data w1 = bo_data w @ out"
    and rd: "\<And>rest e. pc_readPacket cl (cs_packetCipher s) (cs_seqNum s) \<lparr>bi_data = out @ rest, bi_err = e\<rparr> = (c1, \<lparr>bi_data = rest, bi_err = e\<rparr>, Ok p)"
    by auto
  have "p \<noteq> []" using assms(2) by (simp add: packetFits_def)
  then have "cs_readPacket cl s \<lparr>bi_data = out @ rest, bi_err = e\<rparr> = (s', \<lparr>bi_data = rest, bi_err = e\<rparr>, Ok p)" for rest e
    using assms(3) by (auto simp: cs_readPacket_def rd cs_writePacket_def one q Let_def split: if_splits option.splits)
  moreover have "cs_wf cl s'"
    using assms(1,3) wf1 by (auto simp: cs_writePacket_def one q Let_def cs_wf_def split: if_splits option.splits)
  ultimately show ?thesis using out w1 by blast
qed

interpretation cs: packet_cipher "\<lambda>s _. cs_writePacket cl s" "\<lambda>s _. cs_readPacket cl s" "cs_wf cl" packetFits for cl
  by unfold_locales (rule cs_transfer, assumption+, simp add: packetFits_def)

text \<open>
  A run of one direction: packets go out, and from time to time a key exchange prepares the next cipher, on both
  sides. The reading side does the same with its own copy of the state.
\<close>

datatype dirEvent = Send bytes | Prepare packetCipher

fun sendRun :: "cipherlib \<Rightarrow> connectionState \<Rightarrow> byteIn \<Rightarrow> byteOut \<Rightarrow> dirEvent list \<Rightarrow> connectionState \<times> byteIn \<times> byteOut \<times> unit res" where
  "sendRun cl s rand w [] = (s, rand, w, Ok ())"
| "sendRun cl s rand w (Send p # es) = (case cs_writePacket cl s rand w p of
       (s, rand, w, Ok _) \<Rightarrow> sendRun cl s rand w es
     | (s, rand, w, Err e) \<Rightarrow> (s, rand, w, Err e)
     | (s, rand, w, Panic q) \<Rightarrow> (s, rand, w, Panic q))"
| "sendRun cl s rand w (Prepare c # es) = (case pushCipher s c of
       Some s \<Rightarrow> sendRun cl s rand w es
     | None \<Rightarrow> (s, rand, w, Panic ''blocked''))"

fun recvRun :: "cipherlib \<Rightarrow> connectionState \<Rightarrow> byteIn \<Rightarrow> dirEvent list \<Rightarrow> connectionState \<times> byteIn \<times> bytes list res" where
  "recvRun cl s r [] = (s, r, Ok [])"
| "recvRun cl s r (Send _ # es) = (case cs_readPacket cl s r of
       (s, r, Ok p) \<Rightarrow> (case recvRun cl s r es of (s, r, q) \<Rightarrow> (s, r, rbind q (\<lambda>ps. Ok (p # ps))))
     | (s, r, Err e) \<Rightarrow> (s, r, Err e)
     | (s, r, Panic q) \<Rightarrow> (s, r, Panic q))"
| "recvRun cl s r (Prepare c # es) = (case pushCipher s c of
       Some s \<Rightarrow> recvRun cl s r es
     | None \<Rightarrow> (s, r, Panic ''blocked''))"

definition sentPackets :: "dirEvent list \<Rightarrow> bytes list" where
  "sentPackets es = concat (map (\<lambda>e. case e of Send p \<Rightarrow> [p] | Prepare _ \<Rightarrow> []) es)"

definition eventOk :: "cipherlib \<Rightarrow> dirEvent \<Rightarrow> bool" where
  "eventOk cl e = (case e of Send p \<Rightarrow> packetFits p | Prepare c \<Rightarrow> pc_wf cl c)"

lemma run_transfer:
  assumes "cs_wf cl s" "list_all (eventOk cl) es" "sendRun cl s rand w es = (s', rand', w', Ok u)"
  shows "\<exists>out. bo_data w' = bo_data w @ out \<and>
    (\<forall>rest e. recvRun cl s \<lparr>bi_data = out @ rest, bi_err = e\<rparr> es = (s', \<lparr>bi_data = rest, bi_err = e\<rparr>, Ok (sentPackets es)))"
  using assms
proof (induction es arbitrary: s rand w)
  case (Cons ev es)
  show ?case
  proof (cases ev)
    case (Send p)
    obtain s1 rand1 w1 q where one: "cs_writePacket cl s rand w p = (s1, rand1, w1, q)" by (cases "cs_writePacket cl s rand w p")
    with Cons.prems(3) Send obtain u1 where q: "q = Ok u1" by (cases q) simp_all
    from Cons.prems(2) Send have "packetFits p" by (simp add: eventOk_def)
    from cs.transfer [OF Cons.prems(1) this one [unfolded q]] obtain out1 where wf1: "cs_wf cl s1" and out1: "bo_data w1 = bo_data w @ out1"
      and rd1: "\<And>rest e. cs_readPacket cl s \<lparr>bi_data = out1 @ rest, bi_err = e\<rparr> = (s1, \<lparr>bi_data = rest, bi_err = e\<rparr>, Ok p)" by blast
    have "sendRun cl s1 rand1 w1 es = (s', rand', w', Ok u)" using Cons.prems(3) Send one q by simp
    from Cons.IH [OF wf1 _ this] Cons.prems(2) obtain out2 where out2: "bo_data w' = bo_data w1 @ out2"
      and rd2: "\<And>rest e. recvRun cl s1 \<lparr>bi_data = out2 @ rest, bi_err = e\<rparr> es = (s', \<lparr>bi_data = rest, bi_err = e\<rparr>, Ok (sentPackets es))" by auto
    show ?thesis using out1 out2 rd1 rd2 Send by (intro exI [of _ "out1 @ out2"]) (simp add: sentPackets_def)
  next
    case (Prepare c)
    with Cons.prems(3) obtain s1 where s1: "pushCipher s c = Some s1" by (cases "pushCipher s c") simp_all
    have "cs_wf cl s1" using Cons.prems(1,2) s1 Prepare by (auto simp: pushCipher_def cs_wf_def eventOk_def split: if_splits)
    from Cons.IH [OF this] Cons.prems(2,3) Prepare s1 show ?thesis by (simp add: sentPackets_def)
  qed
qed (simp add: sentPackets_def)

section \<open>Key derivation\<close>

text \<open>
  RFC 4253, section 7.2: the key is a prefix of the concatenation of \<open>K1 = HASH(K || H || X || session_id)\<close> and
  \<open>Kn = HASH(K || H || K1 || \<dots> || Kn-1)\<close>.
\<close>

definition demoKexResult :: kexResult where
  "demoKexResult = \<lparr>kr_H = [1, 2, 3], kr_K = [4, 5], kr_HostKey = [], kr_Signature = [], kr_Hash = SHA1, kr_SessionID = [1, 2, 3]\<rparr>"

fun rfcBlocks :: "crypto \<Rightarrow> bytes \<Rightarrow> kexResult \<Rightarrow> nat \<Rightarrow> bytes" where
  "rfcBlocks cr tag r 0 = []"
| "rfcBlocks cr tag r (Suc k) = rfcBlocks cr tag r k @
     cr_hash cr (kr_Hash r) (kr_K r @ kr_H r @ (if k = 0 then tag @ kr_SessionID r else rfcBlocks cr tag r k))"

definition nonempty_sums :: "crypto \<Rightarrow> bool" where
  "nonempty_sums cr \<longleftrightarrow> (\<forall>h d. cr_hash cr h d \<noteq> [])"

definition demoSums :: crypto where
  "demoSums = \<lparr>cr_hash = (\<lambda>h b. take 16 (b @ replicate 16 0)), cr_rsa_verify = (\<lambda>k h d s. None),
     cr_dsa_verify = (\<lambda>k d r s. True), cr_ecdsa_verify = (\<lambda>k d r s. True), cr_on_curve = (\<lambda>c x y. True)\<rparr>"

lemma demoSums_nonempty: "nonempty_sums demoSums"
  by (simp add: nonempty_sums_def demoSums_def)

lemma rfcBlocks_empty: "nonempty_sums cr \<Longrightarrow> rfcBlocks cr tag r k = [] \<longleftrightarrow> k = 0"
  by (cases k) (simp_all add: nonempty_sums_def)

lemma rfcBlocks_prefix: "\<exists>x. rfcBlocks cr tag r (k + j) = rfcBlocks cr tag r k @ x"
  by (induction j) auto

lemma rfcBlocks_length: "nonempty_sums cr \<Longrightarrow> k \<le> length (rfcBlocks cr tag r k)"
proof (induction k)
  case (Suc k)
  define d where "d = cr_hash cr (kr_Hash r) (kr_K r @ kr_H r @ (if k = 0 then tag @ kr_SessionID r else rfcBlocks cr tag r k))"
  have "d \<noteq> []" using Suc.prems by (simp add: nonempty_sums_def d_def)
  then have "0 < length d" by simp
  moreover have "length (rfcBlocks cr tag r (Suc k)) = length (rfcBlocks cr tag r k) + length d" by (simp add: d_def)
  moreover have "k \<le> length (rfcBlocks cr tag r k)" using Suc by blast
  ultimately show ?case by linarith
qed simp

lemma take_rfcBlocks:
  assumes "n \<le> length (rfcBlocks cr tag r k)" "n \<le> length (rfcBlocks cr tag r j)"
  shows "take n (rfcBlocks cr tag r k) = take n (rfcBlocks cr tag r j)"
proof -
  have "take n (rfcBlocks cr tag r k) = take n (rfcBlocks cr tag r j)"
    if "k \<le> j" "n \<le> length (rfcBlocks cr tag r k)" for k j
    using rfcBlocks_prefix [of cr tag r k "j - k"] that by auto
  from this [of k j] this [of j k] assms show ?thesis by (metis nat_le_linear)
qed

text \<open>From block \<open>k\<close> on, the loop gives the next \<open>n\<close> bytes.\<close>

lemma materialLoop_rfc:
  assumes "nonempty_sums cr"
  shows "\<exists>y. materialLoop cr tag r n (rfcBlocks cr tag r k) = Some y \<and>
    (\<forall>j. length (rfcBlocks cr tag r k) + n \<le> length (rfcBlocks cr tag r j) \<longrightarrow>
       rfcBlocks cr tag r k @ y = take (length (rfcBlocks cr tag r k) + n) (rfcBlocks cr tag r j))"
proof (induction n arbitrary: k rule: less_induct)
  case (less n)
  define b where "b k = rfcBlocks cr tag r k" for k
  define d where "d = kexDigest cr tag r (b k)"
  have d: "b (Suc k) = b k @ d" "d \<noteq> []"
    using assms rfcBlocks_empty [OF assms, of tag r k] by (simp_all add: b_def d_def kexDigest_def nonempty_sums_def)
  note pre = take_rfcBlocks [of _ cr tag r, folded b_def]
  have stop: "materialLoop cr tag r 0 x = Some []" for x by (subst materialLoop.simps) simp
  note unfold = materialLoop.simps [of cr tag r n "b k", folded d_def]
  consider "n = 0" | "n \<noteq> 0" "n \<le> length d" | "length d < n" by linarith
  then show ?case
  proof cases
    case 1
    with pre [of "length (b k)" k] show ?thesis unfolding b_def [symmetric] by (auto simp: stop)
  next
    case 2
    with pre [of "length (b k) + n" "Suc k"] show ?thesis unfolding b_def [symmetric] by (auto simp: unfold stop d(1) min_absorb1 Let_def)
  next
    case 3
    let ?m = "n - length d"
    have "?m < n" using 3 d(2) by simp
    from less.IH [OF this, of "Suc k", folded b_def] obtain y where y: "materialLoop cr tag r ?m (b (Suc k)) = Some y"
      "\<And>j. length (b (Suc k)) + ?m \<le> length (b j) \<Longrightarrow> b (Suc k) @ y = take (length (b (Suc k)) + ?m) (b j)" by blast
    then have "materialLoop cr tag r n (b k) = Some (d @ y)" using 3 by (simp add: unfold d(1) Let_def)
    moreover have "b k @ (d @ y) = take (length (b k) + n) (b j)" if "length (b k) + n \<le> length (b j)" for j
      using y(2) [of j] that 3 by (simp add: d(1))
    ultimately show ?thesis unfolding b_def [symmetric] by blast
  qed
qed

lemma generateKeyMaterial_eq:
  assumes "nonempty_sums cr"
  shows "generateKeyMaterial cr n tag r = Some (take n (rfcBlocks cr tag r n)) \<and> n \<le> length (rfcBlocks cr tag r n)"
proof -
  obtain y where "materialLoop cr tag r n (rfcBlocks cr tag r 0) = Some y"
    "length (rfcBlocks cr tag r 0) + n \<le> length (rfcBlocks cr tag r n) \<longrightarrow> rfcBlocks cr tag r 0 @ y = take (length (rfcBlocks cr tag r 0) + n) (rfcBlocks cr tag r n)"
    using materialLoop_rfc [OF assms, of tag r n 0] by blast
  with rfcBlocks_length [OF assms, of n tag r] show ?thesis by (simp add: generateKeyMaterial_def)
qed

lemma key_material_len: "nonempty_sums cr \<Longrightarrow> \<exists>y. generateKeyMaterial cr n tag r = Some y \<and> length y = n"
  using generateKeyMaterial_eq [of cr n tag r] by simp

text \<open>(C27) With hash functions whose sums are not empty, the derivation of key material ends, and what it gives is the
  key of RFC 4253: the first \<open>n\<close> bytes of the blocks \<open>K1\<close>, \<open>K2\<close>, \<open>\<dots>\<close>, for every number of blocks that is large enough, of
  which \<open>n\<close> is one.
\<close>

theorem key_material_rfc:
  assumes "nonempty_sums cr"
  shows "generateKeyMaterial cr n tag r = Some (take n (rfcBlocks cr tag r n)) \<and> n \<le> length (rfcBlocks cr tag r n) \<and>
    (\<forall>k. n \<le> length (rfcBlocks cr tag r k) \<longrightarrow> take n (rfcBlocks cr tag r k) = take n (rfcBlocks cr tag r n))"
  using generateKeyMaterial_eq [OF assms, of n tag r] take_rfcBlocks [of n cr tag r _ n] by blast

theorem key_material_rfc_witness:
  "generateKeyMaterial demoSums 20 [65] demoKexResult = Some (take 20 (rfcBlocks demoSums [65] demoKexResult 20))"
  using key_material_rfc [OF demoSums_nonempty] by blast

section \<open>Both sides derive the same ciphers\<close>

definition lib_laws :: "cipherlib \<Rightarrow> bool" where
  "lib_laws cl \<longleftrightarrow> aead_laws cl \<and> (\<forall>k d. length (cl_hmac_sha1 cl k d) = 20)"

lemma macModes_wf: "lib_laws cl \<Longrightarrow> map_of (macModes cl) a = Some mm \<Longrightarrow> length (mac_sum (mm_new mm k) d) = mac_size (mm_new mm k)"
  by (auto simp: macModes_def hmacSHA1_def truncatingMAC_def lib_laws_def split: if_splits)

lemma newPacketCipher_wf: "lib_laws cl \<Longrightarrow> newPacketCipher cl cr d a r = Some (Ok c) \<Longrightarrow> pc_wf cl c"
  by (auto simp: newPacketCipher_def bind_eq_Some_conv spc_wf_def macModes_wf lib_laws_def split: if_splits option.splits prod.splits)

lemma prepareKeyChange_Ok:
  assumes "prepareKeyChange cl cr t a r = Some (t', Ok u)"
  obtains sid cr1 cw where "sid = (case t_sessionID t of None \<Rightarrow> kr_H r | Some i \<Rightarrow> i)"
    "newPacketCipher cl cr (cs_dir (t_reader t)) (al_r a) (r\<lparr>kr_SessionID := sid\<rparr>) = Some (Ok cr1)"
    "newPacketCipher cl cr (cs_dir (t_writer t)) (al_w a) (r\<lparr>kr_SessionID := sid\<rparr>) = Some (Ok cw)"
    "cs_pendingKeyChange (t_reader t) = None" "cs_pendingKeyChange (t_writer t) = None"
    "t' = t\<lparr>t_sessionID := Some sid, t_reader := t_reader t\<lparr>cs_pendingKeyChange := Some cr1\<rparr>, t_writer := t_writer t\<lparr>cs_pendingKeyChange := Some cw\<rparr>\<rparr>"
proof -
  define sid where "sid = (case t_sessionID t of None \<Rightarrow> kr_H r | Some i \<Rightarrow> i)"
  let ?t = "t\<lparr>t_sessionID := Some sid\<rparr>" and ?r = "r\<lparr>kr_SessionID := sid\<rparr>"
  note p = assms [unfolded prepareKeyChange_def Let_def, folded sid_def]
  from p obtain q where q: "newPacketCipher cl cr (cs_dir (t_reader t)) (al_r a) ?r = Some q" by (auto simp: bind_eq_Some_conv)
  with p obtain c1 where c1: "q = Ok c1" by (cases q) simp_all
  with p q obtain q2 where q2: "newPacketCipher cl cr (cs_dir (t_writer t)) (al_w a) ?r = Some q2" and n1: "cs_pendingKeyChange (t_reader t) = None"
    by (auto simp: bind_eq_Some_conv pushCipher_def split: if_splits)
  with p q c1 obtain c2 where c2: "q2 = Ok c2" by (cases q2) (simp_all add: pushCipher_def)
  with p q c1 q2 n1 have "cs_pendingKeyChange (t_writer t) = None"
    "t' = ?t\<lparr>t_reader := t_reader t\<lparr>cs_pendingKeyChange := Some c1\<rparr>, t_writer := t_writer t\<lparr>cs_pendingKeyChange := Some c2\<rparr>\<rparr>"
    by (auto simp: pushCipher_def split: if_splits)
  with sid_def q c1 q2 c2 n1 show thesis by (intro that [of sid c1 c2]) simp_all
qed

text \<open>
  The ends of a connection: the writer of one side and the reader of the other are in the same state, and both have the
  same session identifier.
\<close>

definition matched :: "transport \<Rightarrow> transport \<Rightarrow> bool" where
  "matched c s \<longleftrightarrow> t_writer c = t_reader s \<and> t_reader c = t_writer s \<and> t_sessionID c = t_sessionID s"

lemma matched_new: "matched (newTransport i out rand b) (newTransport i' out' rand' (\<not> b))"
  by (simp add: matched_def newTransport_def)

lemma matched_prepare:
  assumes "matched c s" "al_w a = al_r a" "prepareKeyChange cl cr c a r = Some (c', Ok u)"
  shows "\<exists>s'. prepareKeyChange cl cr s a r = Some (s', Ok ()) \<and> matched c' s'"
proof -
  obtain sid c1 c2 where sid: "sid = (case t_sessionID c of None \<Rightarrow> kr_H r | Some i \<Rightarrow> i)"
    and c1: "newPacketCipher cl cr (cs_dir (t_reader c)) (al_r a) (r\<lparr>kr_SessionID := sid\<rparr>) = Some (Ok c1)"
    and c2: "newPacketCipher cl cr (cs_dir (t_writer c)) (al_w a) (r\<lparr>kr_SessionID := sid\<rparr>) = Some (Ok c2)"
    and n: "cs_pendingKeyChange (t_reader c) = None" "cs_pendingKeyChange (t_writer c) = None"
    and c': "c' = c\<lparr>t_sessionID := Some sid, t_reader := t_reader c\<lparr>cs_pendingKeyChange := Some c1\<rparr>, t_writer := t_writer c\<lparr>cs_pendingKeyChange := Some c2\<rparr>\<rparr>"
    by (rule prepareKeyChange_Ok [OF assms(3)]) blast
  have sid': "(case t_sessionID s of None \<Rightarrow> kr_H r | Some i \<Rightarrow> i) = sid" using assms(1) sid by (simp add: matched_def)
  have "prepareKeyChange cl cr s a r =
    Some (s\<lparr>t_sessionID := Some sid, t_reader := t_reader s\<lparr>cs_pendingKeyChange := Some c2\<rparr>, t_writer := t_writer s\<lparr>cs_pendingKeyChange := Some c1\<rparr>\<rparr>, Ok ())"
    using assms(1,2) c1 c2 n by (simp add: prepareKeyChange_def sid' Let_def matched_def pushCipher_def)
  moreover have "matched c' (s\<lparr>t_sessionID := Some sid, t_reader := t_reader s\<lparr>cs_pendingKeyChange := Some c2\<rparr>, t_writer := t_writer s\<lparr>cs_pendingKeyChange := Some c1\<rparr>\<rparr>)"
    using assms(1) by (simp add: matched_def c')
  ultimately show ?thesis by blast
qed

text \<open>What the documentation of the cipher packages says of the key sizes they accept.\<close>

definition lib_accepts :: "cipherlib \<Rightarrow> bool" where
  "lib_accepts cl \<longleftrightarrow>
     (\<forall>key iv. length key \<in> {16, 24, 32} \<and> length iv = 16 \<longrightarrow> is_ok (cl_aesctr cl key iv)) \<and>
     (\<forall>key. 1 \<le> length key \<and> length key \<le> 256 \<longrightarrow> is_ok (cl_rc4 cl key)) \<and>
     (\<forall>key. length key \<in> {16, 24, 32} \<longrightarrow> cl_aes_ok cl key = None)"

lemma is_ok_iff: "is_ok r \<longleftrightarrow> (\<exists>x. r = Ok x)"
  by (cases r) simp_all

text \<open>Every cipher in the table is set up from keys of its sizes.\<close>

lemma createStream_total:
  assumes "lib_accepts cl" "map_of cipherModes a = Some m" "a \<noteq> gcmCipherID" "length key = cm_keySize m" "length iv = cm_ivSize m"
  shows "\<exists>st. createStream cl m key iv = Ok st"
proof -
  have k: "length key \<in> {16, 24, 32} \<and> length iv = 16 \<Longrightarrow> \<exists>ks. cl_aesctr cl key iv = Ok ks"
    "1 \<le> length key \<and> length key \<le> 256 \<Longrightarrow> \<exists>ks. cl_rc4 cl key = Ok ks"
    using assms(1) by (auto simp: lib_accepts_def is_ok_iff)
  show ?thesis
  proof (cases "cm_createFunc m")
    case None
    with assms(2,3) show ?thesis by (auto simp: cipherModes_def split: if_splits)
  next
    case (Some kind)
    with assms(2,4,5) k show ?thesis
      by (cases kind) (fastforce simp: cipherModes_def createStream_def createFunc_def split: if_splits)+
  qed
qed

lemma generateKeys_total:
  assumes "nonempty_sums cr" "map_of cipherModes (da_Cipher a) = Some m" "map_of (macModes cl) (da_MAC a) = Some mm"
  shows "\<exists>iv key macKey. generateKeys cl cr d a r = Some (Ok (iv, key, macKey)) \<and> length iv = cm_ivSize m \<and> length key = cm_keySize m"
  using key_material_len [OF assms(1)] assms(2,3) by (simp add: generateKeys_def) (metis bind.bind_lunit)

lemma newPacketCipher_total:
  assumes "nonempty_sums cr" "lib_accepts cl" "map_of cipherModes (da_Cipher a) \<noteq> None" "map_of (macModes cl) (da_MAC a) \<noteq> None"
  shows "\<exists>c. newPacketCipher cl cr d a r = Some (Ok c)"
proof -
  obtain m mm where m: "map_of cipherModes (da_Cipher a) = Some m" "map_of (macModes cl) (da_MAC a) = Some mm" using assms(3,4) by blast
  obtain iv key macKey where g: "generateKeys cl cr d a r = Some (Ok (iv, key, macKey))" "length iv = cm_ivSize m" "length key = cm_keySize m"
    using generateKeys_total [OF assms(1) m] by blast
  show ?thesis
  proof (cases "da_Cipher a = gcmCipherID")
    case True
    with m(1) g(3) have "length key = 16" by (auto simp: cipherModes_def split: if_splits)
    with assms(2) g(1) True show ?thesis by (simp add: newPacketCipher_def newGCMCipher_def lib_accepts_def)
  next
    case False
    with createStream_total [OF assms(2) m(1) False g(3,2)] g(1) m show ?thesis by (auto simp: newPacketCipher_def)
  qed
qed

text \<open>Setting up a cipher for agreed algorithms succeeds: for a cipher and a MAC that have a mode, hash functions
  whose sums are not empty, and a library that accepts the documented key sizes, the derivation of the keys ends and
  the packet cipher is made, without an error and without a panic.
\<close>

theorem key_setup_total:
  assumes "nonempty_sums cr" "lib_accepts cl" "map_of cipherModes (da_Cipher a) \<noteq> None" "map_of (macModes cl) (da_MAC a) \<noteq> None"
  shows "\<exists>c. newPacketCipher cl cr d a r = Some (Ok c)"
  by (rule newPacketCipher_total [OF assms])

definition demoLib :: cipherlib where
  "demoLib = \<lparr>cl_aesctr = (\<lambda>k iv. Ok (\<lambda>i. k ! (i mod 16) XOR of_nat i)), cl_rc4 = (\<lambda>k. Ok (\<lambda>i. k ! 0)), cl_aes_ok = (\<lambda>k. None),
     cl_seal = (\<lambda>k iv p ad. p @ replicate 16 0), cl_open = (\<lambda>k iv c ad. Ok (take (length c - 16) c)),
     cl_hmac_sha1 = (\<lambda>k d. replicate 20 (of_nat (length d)))\<rparr>"

lemma demoLib_laws: "lib_laws demoLib" "lib_accepts demoLib"
  by (simp_all add: lib_laws_def aead_laws_def gcmTagSize_def lib_accepts_def demoLib_def)

definition demoAlgs :: directionAlgorithms where
  "demoAlgs = \<lparr>da_Cipher = ''aes128-ctr'', da_MAC = ''hmac-sha1'', da_Compression = ''none''\<rparr>"

theorem key_setup_total_witness: "\<exists>c. newPacketCipher demoLib demoSums clientKeys demoAlgs demoKexResult = Some (Ok c)"
  by (rule key_setup_total [OF demoSums_nonempty demoLib_laws(2)]) (simp_all add: demoAlgs_def cipherModes_def macModes_def)

text \<open>After a key exchange both ends have the same ciphers: from ends that match, with the same result of the key
  exchange and algorithms that are the same in both directions, a key change that one end prepares is one that the
  other end prepares too; the writer of each end then matches the reader of the other, with the same session
  identifier, and the ciphers are ones for which the packet contract holds.
\<close>

theorem key_change_matched:
  assumes "lib_laws cl" "matched c s" "cs_wf cl (t_writer c)" "cs_wf cl (t_reader c)" "al_w a = al_r a"
    "prepareKeyChange cl cr c a r = Some (c', Ok u)"
  shows "\<exists>s'. prepareKeyChange cl cr s a r = Some (s', Ok ()) \<and> matched c' s' \<and> cs_wf cl (t_writer c') \<and> cs_wf cl (t_reader c')"
proof -
  have "cs_wf cl (t_writer c')" "cs_wf cl (t_reader c')"
    using assms(3,4) newPacketCipher_wf [OF assms(1)] by (auto intro: prepareKeyChange_Ok [OF assms(6)] simp: cs_wf_def)
  with matched_prepare [OF assms(2,5,6)] show ?thesis by blast
qed

lemma cs_wf_new: "cs_wf cl (t_writer (newTransport i out rand b))" "cs_wf cl (t_reader (newTransport i out rand b))"
  by (simp_all add: newTransport_def initialState_def cs_wf_def spc_wf_def)

definition demoEnd :: "bool \<Rightarrow> transport" where
  "demoEnd b = newTransport \<lparr>bi_data = [], bi_err = EOF\<rparr> \<lparr>bo_data = [], bo_fail = None\<rparr> \<lparr>bi_data = [], bi_err = EOF\<rparr> b"

definition demoAgreed :: algorithms where
  "demoAgreed = \<lparr>al_kex = [], al_hostKey = [], al_w = demoAlgs, al_r = demoAlgs\<rparr>"

lemma demo_prepare:
  assumes "map_of cipherModes (da_Cipher (al_w a)) \<noteq> None" "map_of (macModes demoLib) (da_MAC (al_w a)) \<noteq> None"
    "map_of cipherModes (da_Cipher (al_r a)) \<noteq> None" "map_of (macModes demoLib) (da_MAC (al_r a)) \<noteq> None"
  shows "\<exists>c'. prepareKeyChange demoLib demoSums (demoEnd b) a demoKexResult = Some (c', Ok ())"
proof -
  have t: "\<exists>c. newPacketCipher demoLib demoSums d (al_w a) demoKexResult = Some (Ok c)" "\<exists>c. newPacketCipher demoLib demoSums d (al_r a) demoKexResult = Some (Ok c)" for d
    using newPacketCipher_total [OF demoSums_nonempty demoLib_laws(2)] assms by blast+
  have r: "demoKexResult\<lparr>kr_SessionID := kr_H demoKexResult\<rparr> = demoKexResult" by (simp add: demoKexResult_def)
  from t [of clientKeys] t [of serverKeys] show ?thesis
    by (auto simp: prepareKeyChange_def demoEnd_def newTransport_def initialState_def pushCipher_def r Let_def)
qed

theorem key_change_matched_witness:
  "\<exists>c' s'. prepareKeyChange demoLib demoSums (demoEnd True) demoAgreed demoKexResult = Some (c', Ok ()) \<and>
    prepareKeyChange demoLib demoSums (demoEnd False) demoAgreed demoKexResult = Some (s', Ok ()) \<and> matched c' s'"
proof -
  obtain c' where c': "prepareKeyChange demoLib demoSums (demoEnd True) demoAgreed demoKexResult = Some (c', Ok ())"
    using demo_prepare [of demoAgreed True] by (auto simp: demoAgreed_def demoAlgs_def cipherModes_def macModes_def)
  have "matched (demoEnd True) (demoEnd False)" "al_w demoAgreed = al_r demoAgreed"
    by (simp_all add: demoEnd_def matched_def newTransport_def demoAgreed_def)
  from key_change_matched [OF demoLib_laws(1) this(1) _ _ this(2) c'] c' show ?thesis by (auto simp: demoEnd_def cs_wf_new)
qed

text \<open>(C23) What one end writes the other end reads, in order, over any number of key changes: when one direction of a new
  connection has sent a sequence of packets that fit, with prepared ciphers in between that are switched to by the
  packets \<^verbatim>\<open>msgNewKeys\<close>, the other end, reading the bytes that were written, gets exactly the packets sent, and ends in
  the same state with the bytes that follow untouched.
\<close>

theorem transport_delivers:
  assumes "list_all (eventOk cl) es" "sendRun cl (t_writer (newTransport i out rand0 b)) rand w es = (s', rand', w', Ok u)"
  shows "\<exists>bs. bo_data w' = bo_data w @ bs \<and>
    (\<forall>rest e. recvRun cl (t_reader (newTransport i' out' rand0' (\<not> b))) \<lparr>bi_data = bs @ rest, bi_err = e\<rparr> es
       = (s', \<lparr>bi_data = rest, bi_err = e\<rparr>, Ok (sentPackets es)))"
proof -
  have "t_reader (newTransport i' out' rand0' (\<not> b)) = t_writer (newTransport i out rand0 b)" by (simp add: newTransport_def)
  with run_transfer [OF cs_wf_new(1) assms] show ?thesis by simp
qed

definition demoEvents :: "dirEvent list" where
  "demoEvents = [Send [2, 9], Prepare (StreamPacketCipher (demoSPC 3)), Send [21], Send [5, 6, 7]]"

lemma demo_send: "snd (snd (snd (sendRun demoLib (t_writer (demoEnd True)) \<lparr>bi_data = replicate 60 7, bi_err = EOF\<rparr> \<lparr>bo_data = [], bo_fail = None\<rparr> demoEvents))) = Ok ()"
  by (simp add: demoEvents_def demoEnd_def newTransport_def initialState_def cs_writePacket_def spc_writePacket_def spc_prefix_def
      spc_paddingLength_def packetSizeMultiple_def prefixLen_def maxPacket_def readFull_def XORKeyStream_eq writes_no_fault isNewKeys_def
      pushCipher_def demoSPC_def Let_def)

theorem transport_delivers_witness:
  "\<exists>bs s'. recvRun demoLib (t_reader (demoEnd False)) \<lparr>bi_data = bs @ [1], bi_err = EOF\<rparr> demoEvents
     = (s', \<lparr>bi_data = [1], bi_err = EOF\<rparr>, Ok [[2, 9], [21], [5, 6, 7]])"
proof -
  have ev: "list_all (eventOk demoLib) demoEvents"
    by (simp add: demoEvents_def eventOk_def packetFits_def maxPacket_def demoSPC_def demoMAC_def spc_wf_def)
  obtain s' rand' w' where run: "sendRun demoLib (t_writer (demoEnd True)) \<lparr>bi_data = replicate 60 7, bi_err = EOF\<rparr> \<lparr>bo_data = [], bo_fail = None\<rparr> demoEvents = (s', rand', w', Ok ())"
    using demo_send by (metis prod.collapse)
  have "sentPackets demoEvents = [[2, 9], [21], [5, 6, 7]]" by (simp add: sentPackets_def demoEvents_def)
  with transport_delivers [OF ev run [unfolded demoEnd_def]] show ?thesis unfolding demoEnd_def by (simp only: not_True_eq_False) blast
qed

section \<open>Version lines\<close>

lemma readVersionLoop_line:
  assumes "10 \<notin> set v" "length acc + length v < maxVersionStringBytes"
  shows "readVersionLoop \<lparr>bi_data = v @ 10 # rest, bi_err = e\<rparr> acc = (\<lparr>bi_data = rest, bi_err = e\<rparr>, Ok (acc @ v))"
  using assms
proof (induction v arbitrary: acc)
  case Nil
  then show ?case by (subst readVersionLoop.simps) (simp add: readFull_def)
next
  case (Cons c v)
  from Cons.IH [of "acc @ [c]"] Cons.prems show ?case by (subst readVersionLoop.simps) (simp add: readFull_def)
qed

lemma readVersionLoop_Ok:
  "readVersionLoop r acc = (r', Ok v) \<Longrightarrow> 10 \<notin> set acc \<Longrightarrow>
     \<exists>x. v = acc @ x \<and> bi_data r = x @ 10 # bi_data r' \<and> 10 \<notin> set v \<and> length v < maxVersionStringBytes"
proof (induction r acc rule: readVersionLoop.induct)
  case (1 r acc)
  obtain r1 q where q: "readFull r 1 = (r1, q)" by (cases "readFull r 1")
  have l: "length acc < maxVersionStringBytes" using "1.prems"(1) by (subst (asm) readVersionLoop.simps) (auto split: if_splits)
  with "1.prems"(1) q obtain buf where b: "q = Ok buf" by (subst (asm) readVersionLoop.simps) (cases q; simp)
  have buf: "buf = [buf ! 0]" "bi_data r = buf ! 0 # bi_data r1" using readFull_Ok [OF q [unfolded b]] by (cases buf; simp)+
  show ?case
  proof (cases "buf ! 0 = 10")
    case True
    with "1.prems" l q b buf show ?thesis by (subst (asm) readVersionLoop.simps) simp
  next
    case False
    with "1.prems"(1) l q b have "readVersionLoop r1 (acc @ [buf ! 0]) = (r', Ok v)" by (subst (asm) readVersionLoop.simps) simp
    from "1.IH" [OF l q [symmetric] b False this] "1.prems"(2) False buf(2) show ?thesis by auto
  qed
qed

text \<open>Version lines round-trip, and what is read is bounded: a line of printable characters of at most 253 bytes that one
  side sends is what the other side reads, with the bytes after it untouched; and a line that is read never has a
  newline, is at most 254 bytes long and took at most 255 bytes from the connection, whatever the peer sends.
\<close>

theorem version_roundtrip:
  "(\<forall>v r w r' w' q rest e. exchangeVersions r w v = (r', w', q) \<and> \<not> (\<exists>c\<in>set v. c < 32) \<and> bo_fail w = None \<and> length v \<le> 253 \<longrightarrow>
      bo_data w' = bo_data w @ v @ [13, 10] \<and> readVersion \<lparr>bi_data = (v @ [13, 10]) @ rest, bi_err = e\<rparr> = (\<lparr>bi_data = rest, bi_err = e\<rparr>, Ok v)) \<and>
   (\<forall>r r' v. readVersion r = (r', Ok v) \<longrightarrow>
      10 \<notin> set v \<and> length v \<le> 254 \<and> (\<exists>x. bi_data r = x @ bi_data r' \<and> length x \<le> 255))"
proof (intro conjI allI impI)
  fix v r w r' w' q rest e
  assume h: "exchangeVersions r w v = (r', w', q) \<and> \<not> (\<exists>c\<in>set v. c < 32) \<and> bo_fail w = None \<and> length v \<le> 253"
  then show "bo_data w' = bo_data w @ v @ [13, 10]" by (auto simp: exchangeVersions_def writeBytes_def split: prod.splits)
  from h have "10 \<notin> set (v @ [13])" by auto
  from readVersionLoop_line [OF this, of "[]" rest e] h
  show "readVersion \<lparr>bi_data = (v @ [13, 10]) @ rest, bi_err = e\<rparr> = (\<lparr>bi_data = rest, bi_err = e\<rparr>, Ok v)"
    by (simp add: readVersion_def maxVersionStringBytes_def)
next
  fix r r' v
  assume "readVersion r = (r', Ok v)"
  then obtain l where l: "readVersionLoop r [] = (r', Ok l)" and v: "v = (if l \<noteq> [] \<and> l ! (length l - 1) = 13 then take (length l - 1) l else l)"
    by (auto simp: readVersion_def split: prod.splits res.splits)
  from readVersionLoop_Ok [OF l] have x: "bi_data r = (l @ [10]) @ bi_data r'" "10 \<notin> set l" "length l < 255" by (auto simp: maxVersionStringBytes_def)
  from x(2) v show "10 \<notin> set v" by (auto split: if_splits dest: in_set_takeD)
  from x(3) v show "length v \<le> 254" by (auto split: if_splits)
  from x(1,3) show "\<exists>x. bi_data r = x @ bi_data r' \<and> length x \<le> 255" by (intro exI [of _ "l @ [10]"]) simp
qed

theorem version_roundtrip_witness:
  "readVersion \<lparr>bi_data = (bytes_of packageVersion @ [13, 10]) @ [7], bi_err = EOF\<rparr> = (\<lparr>bi_data = [7], bi_err = EOF\<rparr>, Ok (bytes_of packageVersion))
   \<and> 10 \<notin> set (bytes_of packageVersion)"
proof -
  have "\<not> (\<exists>c\<in>set (bytes_of packageVersion). c < 32)" "length (bytes_of packageVersion) \<le> 253"
    by (simp_all add: bytes_of_def packageVersion_def)
  with version_roundtrip [THEN conjunct1, rule_format, of "\<lparr>bi_data = [], bi_err = EOF\<rparr>" "\<lparr>bo_data = [], bo_fail = None\<rparr>" "bytes_of packageVersion" _ _ _ "[7]" EOF]
  have "readVersion \<lparr>bi_data = (bytes_of packageVersion @ [13, 10]) @ [7], bi_err = EOF\<rparr> = (\<lparr>bi_data = [7], bi_err = EOF\<rparr>, Ok (bytes_of packageVersion))"
    by (metis prod.collapse byteOut.select_convs(2))
  with version_roundtrip [THEN conjunct2] show ?thesis by blast
qed

section \<open>The directions of the server\<close>

text \<open>The server writes with the algorithms of the other direction: \<^verbatim>\<open>findAgreedAlgorithms\<close> calls the algorithms from
  client to server \<open>w\<close> for both roles, and the transport of a server, whose writer has the keys from server to client,
  sets its writer up with \<open>w\<close>. Its cipher is the one agreed for the direction from client to server, which differs from
  the one of its own direction when the lists of the two directions differ.
\<close>

theorem server_writer_algorithms:
  assumes "findAgreedAlgorithms c s = Some a"
    "prepareKeyChange cl cr (newTransport i out rand False) a r = Some (t', Ok u)"
  shows "\<exists>ciph. cs_pendingKeyChange (t_writer t') = Some ciph
    \<and> newPacketCipher cl cr serverKeys (al_w a) (r\<lparr>kr_SessionID := kr_H r\<rparr>) = Some (Ok ciph)
    \<and> findCommonCipher (kexInitMsg_CiphersClientServer c) (kexInitMsg_CiphersClientServer s) = Some (da_Cipher (al_w a))
    \<and> findCommonCipher (kexInitMsg_CiphersServerClient c) (kexInitMsg_CiphersServerClient s) = Some (da_Cipher (al_r a))"
proof -
  have "findCommonCipher (kexInitMsg_CiphersClientServer c) (kexInitMsg_CiphersClientServer s) = Some (da_Cipher (al_w a))"
    "findCommonCipher (kexInitMsg_CiphersServerClient c) (kexInitMsg_CiphersServerClient s) = Some (da_Cipher (al_r a))"
    using assms(1) by (auto simp: findAgreedAlgorithms_def bind_eq_Some_conv)
  moreover obtain cw where "cs_pendingKeyChange (t_writer t') = Some cw"
    "newPacketCipher cl cr serverKeys (al_w a) (r\<lparr>kr_SessionID := kr_H r\<rparr>) = Some (Ok cw)"
    by (rule prepareKeyChange_Ok [OF assms(2)]) (auto simp: newTransport_def initialState_def)
  ultimately show ?thesis by blast
qed

definition demoInit :: "string list \<Rightarrow> string list \<Rightarrow> kexInitMsg" where
  "demoInit cs sc = \<lparr>kexInitMsg_Cookie = replicate 16 0, kexInitMsg_KexAlgos = [''k''], kexInitMsg_ServerHostKeyAlgos = [''h''],
     kexInitMsg_CiphersClientServer = cs, kexInitMsg_CiphersServerClient = sc, kexInitMsg_MACsClientServer = [''hmac-sha1''],
     kexInitMsg_MACsServerClient = [''hmac-sha1''], kexInitMsg_CompressionClientServer = [''none''], kexInitMsg_CompressionServerClient = [''none''],
     kexInitMsg_LanguagesClientServer = [], kexInitMsg_LanguagesServerClient = [], kexInitMsg_FirstKexFollows = False, kexInitMsg_Reserved = 0\<rparr>"

definition demoSwapped :: algorithms where
  "demoSwapped = \<lparr>al_kex = ''k'', al_hostKey = ''h'', al_w = demoAlgs, al_r = demoAlgs\<lparr>da_Cipher := ''aes256-ctr''\<rparr>\<rparr>"

theorem server_writer_algorithms_witness:
  "\<exists>t' ciph. prepareKeyChange demoLib demoSums (demoEnd False) demoSwapped demoKexResult = Some (t', Ok ())
    \<and> findCommonCipher [''aes256-ctr''] [''aes256-ctr''] = Some (da_Cipher (al_r demoSwapped))
    \<and> newPacketCipher demoLib demoSums serverKeys demoAlgs demoKexResult = Some (Ok ciph) \<and> cs_pendingKeyChange (t_writer t') = Some ciph"
proof -
  have agreed: "findAgreedAlgorithms (demoInit [''aes128-ctr''] [''aes256-ctr'']) (demoInit [''aes128-ctr''] [''aes256-ctr'']) = Some demoSwapped"
    by (simp add: findAgreedAlgorithms_def demoInit_def cipherModes_def demoSwapped_def demoAlgs_def)
  obtain t' where t': "prepareKeyChange demoLib demoSums (demoEnd False) demoSwapped demoKexResult = Some (t', Ok ())"
    using demo_prepare [of demoSwapped False] by (auto simp: demoSwapped_def demoAlgs_def cipherModes_def macModes_def)
  have r: "demoKexResult\<lparr>kr_SessionID := kr_H demoKexResult\<rparr> = demoKexResult" by (simp add: demoKexResult_def)
  from server_writer_algorithms [OF agreed t' [unfolded demoEnd_def]] t' r show ?thesis by (auto simp: demoInit_def demoSwapped_def cipherModes_def)
qed

end
