(* ===== verification/Kex.thy ===== *)
theory Kex
  imports Transport Signers
begin

text \<open>
  The key exchange algorithms (\<^verbatim>\<open>kex.go\<close>): Diffie-Hellman over the two fixed groups and over the NIST curves, each with a
  client and a server side that exchange one packet each over the transport. Random numbers, key generation and scalar
  multiplication of the Go library are the record \<open>kexlib\<close>.
\<close>

section \<open>Steps over a transport\<close>

text \<open>
  A step works on the transport and on the random source of the configuration, and stops at the first error.
\<close>

record kexState =
  ks_conn :: transport
  ks_rand :: byteIn

type_synonym 'a kexStep = "(kexState, 'a) goStep"

definition kRead :: "cipherlib \<Rightarrow> bytes kexStep" where
  "kRead cl s = (case t_readPacket cl (ks_conn s) of (t, r) \<Rightarrow> (s\<lparr>ks_conn := t\<rparr>, r))"

definition kWrite :: "cipherlib \<Rightarrow> bytes \<Rightarrow> unit kexStep" where
  "kWrite cl p s = (case t_writePacket cl (ks_conn s) p of (t, r) \<Rightarrow> (s\<lparr>ks_conn := t\<rparr>, r))"

text \<open>
  \<^verbatim>\<open>rand.Int\<close>, \<^verbatim>\<open>ecdsa.GenerateKey\<close> (the private number and the public point), \<^verbatim>\<open>ScalarMult\<close>, whose
  scalar is bytes, and \<^verbatim>\<open>curve.Params().P\<close>.
\<close>

record kexlib =
  kl_randInt :: "byteIn \<Rightarrow> int \<Rightarrow> byteIn \<times> int res"
  kl_GenerateKey :: "ecurve \<Rightarrow> byteIn \<Rightarrow> byteIn \<times> (int \<times> int \<times> int) res"
  kl_ScalarMult :: "ecurve \<Rightarrow> int \<Rightarrow> int \<Rightarrow> bytes \<Rightarrow> int \<times> int"
  kl_P :: "ecurve \<Rightarrow> int"

definition kRandInt :: "kexlib \<Rightarrow> int \<Rightarrow> int kexStep" where
  "kRandInt kl m s = (case kl_randInt kl (ks_rand s) m of (r, q) \<Rightarrow> (s\<lparr>ks_rand := r\<rparr>, q))"

definition kGenerateKey :: "kexlib \<Rightarrow> ecurve \<Rightarrow> (int \<times> int \<times> int) kexStep" where
  "kGenerateKey kl c s = (case kl_GenerateKey kl c (ks_rand s) of (r, q) \<Rightarrow> (s\<lparr>ks_rand := r\<rparr>, q))"

section \<open>The session hash\<close>

record handshakeMagics =
  hm_clientVersion :: bytes
  hm_serverVersion :: bytes
  hm_clientKexInit :: bytes
  hm_serverKexInit :: bytes

definition magics_write :: "handshakeMagics \<Rightarrow> bytes \<Rightarrow> bytes" where
  "magics_write m w = writeString (writeString (writeString (writeString w (hm_clientVersion m)) (hm_serverVersion m))
     (hm_clientKexInit m)) (hm_serverKexInit m)"

text \<open>\<^verbatim>\<open>K := make([]byte, intLength(kInt)); marshalInt(K, kInt)\<close>.\<close>

definition kexSecret :: "int \<Rightarrow> bytes res" where
  "kexSecret kInt = rbind (marshalInt (replicate (intLength kInt) 0) kInt) (\<lambda>(K, _). Ok K)"

section \<open>Diffie-Hellman over a multiplicative group\<close>

record dhGroup =
  dh_g :: int
  dh_p :: int

text \<open>\<^verbatim>\<open>new(big.Int).Exp(x, y, m)\<close> for a positive modulus; an exponent that is not positive gives 1.\<close>

definition bigExp :: "int \<Rightarrow> int \<Rightarrow> int \<Rightarrow> int" where
  "bigExp x y m = (if y \<le> 0 then 1 else x ^ nat y mod m)"

definition diffieHellman :: "dhGroup \<Rightarrow> int \<Rightarrow> int \<Rightarrow> int res" where
  "diffieHellman grp theirPublic myPrivate =
     (if theirPublic \<le> 0 \<or> theirPublic \<ge> dh_p grp then Err (ErrNew ''ssh: DH parameter out of bounds'')
      else Ok (bigExp theirPublic myPrivate (dh_p grp)))"

definition dhHash :: "crypto \<Rightarrow> handshakeMagics \<Rightarrow> bytes \<Rightarrow> int \<Rightarrow> int \<Rightarrow> bytes \<Rightarrow> bytes res" where
  "dhHash cr magics hostKey X Y K =
     rbind (writeInt (writeString (magics_write magics []) hostKey) X) (\<lambda>h.
     rbind (writeInt h Y) (\<lambda>h. Ok (cr_hash cr SHA1 (h @ K))))"

text \<open>The client: its packet, and what it makes of the reply.\<close>

definition dhInitPacket :: "dhGroup \<Rightarrow> int \<Rightarrow> bytes res" where
  "dhInitPacket grp x = Marshal kexDHInitMsg_T (kexDHInitMsg_vals \<lparr>kexDHInitMsg_X = bigExp (dh_g grp) x (dh_p grp)\<rparr>)"

definition dhFinish :: "crypto \<Rightarrow> dhGroup \<Rightarrow> handshakeMagics \<Rightarrow> int \<Rightarrow> bytes \<Rightarrow> kexResult res" where
  "dhFinish cr grp magics x packet =
     rbind (rbind (Unmarshal packet kexDHReplyMsg_T) kexDHReplyMsg_of) (\<lambda>kexDHReply.
     rbind (diffieHellman grp (kexDHReplyMsg_Y kexDHReply) x) (\<lambda>kInt.
     rbind (kexSecret kInt) (\<lambda>K.
     rbind (dhHash cr magics (kexDHReplyMsg_HostKey kexDHReply) (bigExp (dh_g grp) x (dh_p grp)) (kexDHReplyMsg_Y kexDHReply) K) (\<lambda>H.
       Ok \<lparr>kr_H = H, kr_K = K, kr_HostKey = kexDHReplyMsg_HostKey kexDHReply, kr_Signature = kexDHReplyMsg_Signature kexDHReply,
           kr_Hash = SHA1, kr_SessionID = []\<rparr>))))"

definition dh_Client :: "cipherlib \<Rightarrow> crypto \<Rightarrow> kexlib \<Rightarrow> dhGroup \<Rightarrow> handshakeMagics \<Rightarrow> kexResult kexStep" where
  "dh_Client cl cr kl grp magics =
     sbind (kRandInt kl (dh_p grp)) (\<lambda>x.
     sbind (sres (dhInitPacket grp x)) (\<lambda>packet.
     sbind (kWrite cl packet) (\<lambda>_.
     sbind (kRead cl) (\<lambda>packet. sres (dhFinish cr grp magics x packet)))))"

text \<open>
  The server: from the number of the client and its own to the reply and the result. The signer is nil when no host
  key has the agreed type.
\<close>

definition dhReply :: "crypto \<Rightarrow> signprims \<Rightarrow> dhGroup \<Rightarrow> handshakeMagics \<Rightarrow> Signer option \<Rightarrow> bytes \<Rightarrow> int \<Rightarrow> int \<Rightarrow> (bytes \<times> kexResult) res" where
  "dhReply cr sp grp magics priv rand X y =
     (let Y = bigExp (dh_g grp) y (dh_p grp) in
      rbind (diffieHellman grp X y) (\<lambda>kInt.
      case priv of None \<Rightarrow> Panic ''invalid memory address or nil pointer dereference'' | Some priv \<Rightarrow>
      rbind (keyMarshal (signerPublicKey priv)) (\<lambda>hostKeyBytes.
      rbind (kexSecret kInt) (\<lambda>K.
      rbind (dhHash cr magics hostKeyBytes X Y K) (\<lambda>H.
      rbind (signAndMarshal cr sp priv rand H) (\<lambda>sig.
      rbind (Marshal kexDHReplyMsg_T (kexDHReplyMsg_vals \<lparr>kexDHReplyMsg_HostKey = hostKeyBytes, kexDHReplyMsg_Y = Y, kexDHReplyMsg_Signature = sig\<rparr>)) (\<lambda>packet.
        Ok (packet, \<lparr>kr_H = H, kr_K = K, kr_HostKey = hostKeyBytes, kr_Signature = sig, kr_Hash = SHA1, kr_SessionID = []\<rparr>))))))))"

text \<open>An error of the last \<^verbatim>\<open>writePacket\<close> is assigned to a variable that the return statement does not use.\<close>

definition kWriteIgnored :: "cipherlib \<Rightarrow> bytes \<Rightarrow> unit kexStep" where
  "kWriteIgnored cl p s = (case kWrite cl p s of (s, Err e) \<Rightarrow> (s, Ok ()) | (s, r) \<Rightarrow> (s, r))"

definition dh_Server :: "cipherlib \<Rightarrow> crypto \<Rightarrow> signprims \<Rightarrow> kexlib \<Rightarrow> dhGroup \<Rightarrow> handshakeMagics \<Rightarrow> Signer option \<Rightarrow> kexResult kexStep" where
  "dh_Server cl cr sp kl grp magics priv =
     sbind (kRead cl) (\<lambda>packet.
     sbind (sres (rbind (Unmarshal packet kexDHInitMsg_T) kexDHInitMsg_of)) (\<lambda>kexDHInit.
     sbind (kRandInt kl (dh_p grp)) (\<lambda>y s.
     sbind (sres (dhReply cr sp grp magics priv (bi_data (ks_rand s)) (kexDHInitMsg_X kexDHInit) y)) (\<lambda>(packet, result).
     sbind (kWriteIgnored cl packet) (\<lambda>_. sres (Ok result))) s)))"

section \<open>Diffie-Hellman over a curve\<close>

definition validateECPublicKey :: "crypto \<Rightarrow> kexlib \<Rightarrow> ecurve \<Rightarrow> int \<Rightarrow> int \<Rightarrow> bool" where
  "validateECPublicKey cr kl curve x y \<longleftrightarrow>
     \<not> (x = 0 \<and> y = 0) \<and> \<not> x \<ge> kl_P kl curve \<and> \<not> y \<ge> kl_P kl curve \<and> cr_on_curve cr curve x y"

definition unmarshalECKey :: "crypto \<Rightarrow> kexlib \<Rightarrow> ecurve \<Rightarrow> bytes \<Rightarrow> (int \<times> int) res" where
  "unmarshalECKey cr kl curve pubkey = (case ec_Unmarshal cr curve pubkey of
       None \<Rightarrow> Err (ErrNew ''ssh: elliptic.Unmarshal failure'')
     | Some (x, y) \<Rightarrow> if \<not> validateECPublicKey cr kl curve x y then Err (ErrNew ''ssh: public key not on curve'') else Ok (x, y))"

definition ecdhHash :: "crypto \<Rightarrow> ecurve \<Rightarrow> handshakeMagics \<Rightarrow> bytes \<Rightarrow> bytes \<Rightarrow> bytes \<Rightarrow> bytes \<Rightarrow> bytes" where
  "ecdhHash cr curve magics hostKey clientPub serverPub K =
     cr_hash cr (ecHash curve) (writeString (writeString (writeString (magics_write magics []) hostKey) clientPub) serverPub @ K)"

definition ecdhInitPacket :: "bytes \<Rightarrow> bytes res" where
  "ecdhInitPacket clientPub = Marshal kexECDHInitMsg_T (kexECDHInitMsg_vals \<lparr>kexECDHInitMsg_ClientPubKey = clientPub\<rparr>)"

definition ecdhFinish :: "crypto \<Rightarrow> kexlib \<Rightarrow> ecurve \<Rightarrow> handshakeMagics \<Rightarrow> int \<Rightarrow> bytes \<Rightarrow> bytes \<Rightarrow> kexResult res" where
  "ecdhFinish cr kl curve magics D clientPub packet =
     rbind (rbind (Unmarshal packet kexECDHReplyMsg_T) kexECDHReplyMsg_of) (\<lambda>reply.
     rbind (unmarshalECKey cr kl curve (kexECDHReplyMsg_EphemeralPubKey reply)) (\<lambda>(x, y).
     rbind (kexSecret (fst (kl_ScalarMult kl curve x y (be_bytes (nat \<bar>D\<bar>))))) (\<lambda>K.
       Ok \<lparr>kr_H = ecdhHash cr curve magics (kexECDHReplyMsg_HostKey reply) clientPub (kexECDHReplyMsg_EphemeralPubKey reply) K, kr_K = K,
           kr_HostKey = kexECDHReplyMsg_HostKey reply, kr_Signature = kexECDHReplyMsg_Signature reply, kr_Hash = ecHash curve, kr_SessionID = []\<rparr>)))"

definition ecdh_Client :: "cipherlib \<Rightarrow> crypto \<Rightarrow> kexlib \<Rightarrow> ecurve \<Rightarrow> handshakeMagics \<Rightarrow> kexResult kexStep" where
  "ecdh_Client cl cr kl curve magics =
     sbind (kGenerateKey kl curve) (\<lambda>(D, X, Y).
     sbind (sres (ec_Marshal curve X Y)) (\<lambda>clientPub.
     sbind (sres (ecdhInitPacket clientPub)) (\<lambda>serialized.
     sbind (kWrite cl serialized) (\<lambda>_.
     sbind (kRead cl) (\<lambda>packet. sres (ecdhFinish cr kl curve magics D clientPub packet))))))"

definition ecdhReply :: "crypto \<Rightarrow> signprims \<Rightarrow> kexlib \<Rightarrow> ecurve \<Rightarrow> handshakeMagics \<Rightarrow> Signer option \<Rightarrow> bytes \<Rightarrow> bytes \<Rightarrow> int \<times> int \<Rightarrow> int \<times> int \<times> int
    \<Rightarrow> (bytes \<times> kexResult) res" where
  "ecdhReply cr sp kl curve magics priv rand clientPub client ephKey =
     (case (client, ephKey) of ((clientX, clientY), D, X, Y) \<Rightarrow>
      case priv of None \<Rightarrow> Panic ''invalid memory address or nil pointer dereference'' | Some priv \<Rightarrow>
      rbind (keyMarshal (signerPublicKey priv)) (\<lambda>hostKeyBytes.
      rbind (ec_Marshal curve X Y) (\<lambda>serializedEphKey.
      rbind (kexSecret (fst (kl_ScalarMult kl curve clientX clientY (be_bytes (nat \<bar>D\<bar>))))) (\<lambda>K.
      let H = ecdhHash cr curve magics hostKeyBytes clientPub serializedEphKey K in
      rbind (signAndMarshal cr sp priv rand H) (\<lambda>sig.
      rbind (Marshal kexECDHReplyMsg_T (kexECDHReplyMsg_vals
          \<lparr>kexECDHReplyMsg_HostKey = hostKeyBytes, kexECDHReplyMsg_EphemeralPubKey = serializedEphKey, kexECDHReplyMsg_Signature = sig\<rparr>)) (\<lambda>packet.
        Ok (packet, \<lparr>kr_H = H, kr_K = K, kr_HostKey = hostKeyBytes, kr_Signature = sig, kr_Hash = ecHash curve, kr_SessionID = []\<rparr>)))))))"

definition ecdh_Server :: "cipherlib \<Rightarrow> crypto \<Rightarrow> signprims \<Rightarrow> kexlib \<Rightarrow> ecurve \<Rightarrow> handshakeMagics \<Rightarrow> Signer option \<Rightarrow> kexResult kexStep" where
  "ecdh_Server cl cr sp kl curve magics priv =
     sbind (kRead cl) (\<lambda>packet.
     sbind (sres (rbind (Unmarshal packet kexECDHInitMsg_T) kexECDHInitMsg_of)) (\<lambda>kexECDHInit.
     sbind (sres (unmarshalECKey cr kl curve (kexECDHInitMsg_ClientPubKey kexECDHInit))) (\<lambda>client.
     sbind (kGenerateKey kl curve) (\<lambda>ephKey s.
     sbind (sres (ecdhReply cr sp kl curve magics priv (bi_data (ks_rand s)) (kexECDHInitMsg_ClientPubKey kexECDHInit) client ephKey)) (\<lambda>(packet, result).
     sbind (kWrite cl packet) (\<lambda>_. sres (Ok result))) s))))"

section \<open>The algorithms\<close>

datatype kexAlgorithm = DHGroup dhGroup | ECDH ecurve

fun kex_Client :: "cipherlib \<Rightarrow> crypto \<Rightarrow> kexlib \<Rightarrow> kexAlgorithm \<Rightarrow> handshakeMagics \<Rightarrow> kexResult kexStep" where
  "kex_Client cl cr kl (DHGroup g) magics = dh_Client cl cr kl g magics"
| "kex_Client cl cr kl (ECDH c) magics = ecdh_Client cl cr kl c magics"

fun kex_Server :: "cipherlib \<Rightarrow> crypto \<Rightarrow> signprims \<Rightarrow> kexlib \<Rightarrow> kexAlgorithm \<Rightarrow> handshakeMagics \<Rightarrow> Signer option \<Rightarrow> kexResult kexStep" where
  "kex_Server cl cr sp kl (DHGroup g) magics priv = dh_Server cl cr sp kl g magics priv"
| "kex_Server cl cr sp kl (ECDH c) magics priv = ecdh_Server cl cr sp kl c magics priv"

definition oakleyGroup2 :: dhGroup where
  "oakleyGroup2 = \<lparr>dh_g = 2, dh_p =
     0xFFFFFFFFFFFFFFFFC90FDAA22168C234C4C6628B80DC1CD129024E088A67CC74020BBEA63B139B22514A08798E3404DDEF9519B3CD3A431B302B0A6DF25F14374FE1356D6D51C245E485B576625E7EC6F44C42E9A637ED6B0BFF5CB6F406B7EDEE386BFB5A899FA5AE9F24117C4B1FE649286651ECE65381FFFFFFFFFFFFFFFF\<rparr>"

definition oakleyGroup14 :: dhGroup where
  "oakleyGroup14 = \<lparr>dh_g = 2, dh_p =
     0xFFFFFFFFFFFFFFFFC90FDAA22168C234C4C6628B80DC1CD129024E088A67CC74020BBEA63B139B22514A08798E3404DDEF9519B3CD3A431B302B0A6DF25F14374FE1356D6D51C245E485B576625E7EC6F44C42E9A637ED6B0BFF5CB6F406B7EDEE386BFB5A899FA5AE9F24117C4B1FE649286651ECE45B3DC2007CB8A163BF0598DA48361C55D39A69163FA8FD24CF5F83655D23DCA3AD961C62F356208552BB9ED529077096966D670C354E4ABC9804F1746C08CA18217C32905E462E36CE3BE39E772C180E86039B2783A2EC07A28FB5C55DF06F4C52C9DE2BCBF6955817183995497CEA956AE515D2261898FA051015728E5A8AACAA68FFFFFFFFFFFFFFFF\<rparr>"

definition kexAlgoMap :: "(string \<times> kexAlgorithm) list" where
  "kexAlgoMap = [(kexAlgoDH1SHA1, DHGroup oakleyGroup2), (kexAlgoDH14SHA1, DHGroup oakleyGroup14),
     (kexAlgoECDH521, ECDH P521), (kexAlgoECDH384, ECDH P384), (kexAlgoECDH256, ECDH P256)]"

section \<open>Both sides compute the same\<close>

lemma bigExp_commute:
  assumes "1 < p"
  shows "bigExp (bigExp g y p) x p = bigExp (bigExp g x p) y p"
  using assms by (simp add: bigExp_def power_mod mult.commute flip: power_mult)

lemma bigExp_range:
  assumes "1 < p" "odd p"
  shows "0 < bigExp 2 y p" "bigExp 2 y p < p"
proof -
  have "coprime (2 ^ nat y) p" using assms(2) by simp
  then have "\<not> p dvd 2 ^ nat y" using assms(1) by (metis coprime_common_divisor dvd_refl zdvd1_eq abs_of_pos less_trans zero_less_one less_irrefl)
  then have "2 ^ nat y mod p \<noteq> 0" by (simp add: mod_eq_0_iff_dvd)
  moreover have "0 \<le> 2 ^ nat y mod p" "2 ^ nat y mod p < p" using assms(1) by simp_all
  ultimately have "0 < 2 ^ nat y mod p" "2 ^ nat y mod p < p" by linarith+
  with assms(1) show "0 < bigExp 2 y p" "bigExp 2 y p < p" by (simp_all add: bigExp_def)
qed

lemma oakley:
  assumes "DHGroup grp \<in> snd ` set kexAlgoMap"
  shows "dh_g grp = 2" "1 < dh_p grp" "odd (dh_p grp)"
  using assms by (auto simp: kexAlgoMap_def oakleyGroup2_def oakleyGroup14_def)

lemma kexSecret_eq: "kexSecret k = Ok (encInt k)"
  by (simp add: kexSecret_def marshalInt_replicate)

lemma dhReply_Ok:
  assumes "dhReply cr sp grp magics priv rand X y = Ok (packet, r)"
  obtains k hostKey H sig where "diffieHellman grp X y = Ok k" "dhHash cr magics hostKey X (bigExp (dh_g grp) y (dh_p grp)) (encInt k) = Ok H"
    "Marshal kexDHReplyMsg_T (kexDHReplyMsg_vals \<lparr>kexDHReplyMsg_HostKey = hostKey, kexDHReplyMsg_Y = bigExp (dh_g grp) y (dh_p grp), kexDHReplyMsg_Signature = sig\<rparr>) = Ok packet"
    "r = \<lparr>kr_H = H, kr_K = encInt k, kr_HostKey = hostKey, kr_Signature = sig, kr_Hash = SHA1, kr_SessionID = []\<rparr>"
  using assms by (auto simp: dhReply_def Let_def kexSecret_eq split: option.splits)

lemma dh_reply_parses:
  assumes "Marshal kexDHReplyMsg_T (kexDHReplyMsg_vals m) = Ok packet" "length packet < 2 ^ 32"
  shows "rbind (Unmarshal packet kexDHReplyMsg_T) kexDHReplyMsg_of = Ok m"
proof -
  have wf: "wf_vals (st_fields kexDHReplyMsg_T) (kexDHReplyMsg_vals m)" by (simp add: kexDHReplyMsg_T_def kexDHReplyMsg_vals_def)
  have "packet \<noteq> []" using assms(1) kexDHReplyMsg.marshal_ok [OF wf] by (auto simp: encStruct_def kexDHReplyMsg_T_def kexDHReplyMsg_vals_def encString_def be32_def)
  with kexDHReplyMsg.unmarshal_marshal [OF wf assms(1)] assms(2) show ?thesis by simp
qed

lemma dh_agree:
  assumes "DHGroup grp \<in> snd ` set kexAlgoMap" "length packet < 2 ^ 32"
    "dhReply cr sp grp magics priv rand (bigExp (dh_g grp) x (dh_p grp)) y = Ok (packet, r)"
  shows "dhFinish cr grp magics x packet = Ok r"
proof -
  obtain k hostKey H sig where k: "diffieHellman grp (bigExp (dh_g grp) x (dh_p grp)) y = Ok k"
    and H: "dhHash cr magics hostKey (bigExp (dh_g grp) x (dh_p grp)) (bigExp (dh_g grp) y (dh_p grp)) (encInt k) = Ok H"
    and m: "Marshal kexDHReplyMsg_T (kexDHReplyMsg_vals \<lparr>kexDHReplyMsg_HostKey = hostKey, kexDHReplyMsg_Y = bigExp (dh_g grp) y (dh_p grp), kexDHReplyMsg_Signature = sig\<rparr>) = Ok packet"
    and r: "r = \<lparr>kr_H = H, kr_K = encInt k, kr_HostKey = hostKey, kr_Signature = sig, kr_Hash = SHA1, kr_SessionID = []\<rparr>"
    by (rule dhReply_Ok [OF assms(3)]) blast
  note o = oakley [OF assms(1)]
  have "diffieHellman grp (bigExp (dh_g grp) y (dh_p grp)) x = Ok k"
    using k bigExp_range [OF o(2,3), of y] bigExp_commute [OF o(2), of 2 y x] by (simp add: diffieHellman_def o(1) split: if_splits)
  with H r show ?thesis unfolding dhFinish_def dh_reply_parses [OF m assms(2)] by (simp add: kexSecret_eq)
qed

text \<open>
  What the documentation of \<^verbatim>\<open>crypto/elliptic\<close> and \<^verbatim>\<open>crypto/ecdsa\<close> says of a curve: generated public keys are points of the
  curve other than the point at infinity with coordinates below the prime, and multiplying the public point of one key by
  the private number of another is symmetric.
\<close>

definition generated :: "kexlib \<Rightarrow> ecurve \<Rightarrow> int \<times> int \<times> int \<Rightarrow> bool" where
  "generated kl c key \<longleftrightarrow> (\<exists>r r'. kl_GenerateKey kl c r = (r', Ok key))"

definition ecdh_laws :: "crypto \<Rightarrow> kexlib \<Rightarrow> ecurve \<Rightarrow> bool" where
  "ecdh_laws cr kl c \<longleftrightarrow>
     (\<forall>D X Y. generated kl c (D, X, Y) \<longrightarrow> wf_point cr c X Y \<and> validateECPublicKey cr kl c X Y) \<and>
     (\<forall>D X Y D' X' Y'. generated kl c (D, X, Y) \<and> generated kl c (D', X', Y') \<longrightarrow>
        kl_ScalarMult kl c X Y (be_bytes (nat \<bar>D'\<bar>)) = kl_ScalarMult kl c X' Y' (be_bytes (nat \<bar>D\<bar>)))"

lemma ecdh_key_roundtrip:
  assumes "ecdh_laws cr kl c" "generated kl c (D, X, Y)"
  shows "ec_Marshal c X Y = Ok (encPoint c X Y)" "unmarshalECKey cr kl c (encPoint c X Y) = Ok (X, Y)"
proof -
  have w: "wf_point cr c X Y" "validateECPublicKey cr kl c X Y" using assms by (auto simp: ecdh_laws_def)
  then show "ec_Marshal c X Y = Ok (encPoint c X Y)" by (intro ec_Marshal_enc) (simp_all add: wf_point_def)
  from w have "ec_Unmarshal cr c (encPoint c X Y) = Some (X, Y)" by (simp add: ec_Unmarshal_iff)
  with w show "unmarshalECKey cr kl c (encPoint c X Y) = Ok (X, Y)" by (simp add: unmarshalECKey_def)
qed

lemma ecdh_reply_parses:
  assumes "Marshal kexECDHReplyMsg_T (kexECDHReplyMsg_vals m) = Ok packet" "length packet < 2 ^ 32"
  shows "rbind (Unmarshal packet kexECDHReplyMsg_T) kexECDHReplyMsg_of = Ok m"
proof -
  have wf: "wf_vals (st_fields kexECDHReplyMsg_T) (kexECDHReplyMsg_vals m)" by (simp add: kexECDHReplyMsg_T_def kexECDHReplyMsg_vals_def)
  have "packet \<noteq> []" using assms(1) kexECDHReplyMsg.marshal_ok [OF wf] by (auto simp: encStruct_def kexECDHReplyMsg_T_def kexECDHReplyMsg_vals_def encString_def be32_def)
  with kexECDHReplyMsg.unmarshal_marshal [OF wf assms(1)] assms(2) show ?thesis by simp
qed

lemma ecdh_agree:
  assumes "ecdh_laws cr kl c" "generated kl c (D, X, Y)" "generated kl c (D', X', Y')" "length packet < 2 ^ 32"
    "ecdhReply cr sp kl c magics priv rand (encPoint c X Y) (X, Y) (D', X', Y') = Ok (packet, r)"
  shows "ecdhFinish cr kl c magics D (encPoint c X Y) packet = Ok r"
proof -
  have comm: "kl_ScalarMult kl c X Y (be_bytes (nat \<bar>D'\<bar>)) = kl_ScalarMult kl c X' Y' (be_bytes (nat \<bar>D\<bar>))"
    using assms(1-3) unfolding ecdh_laws_def by blast
  let ?K = "encInt (fst (kl_ScalarMult kl c X Y (be_bytes (nat \<bar>D'\<bar>))))"
  obtain hostKey sig where
      m: "Marshal kexECDHReplyMsg_T (kexECDHReplyMsg_vals \<lparr>kexECDHReplyMsg_HostKey = hostKey, kexECDHReplyMsg_EphemeralPubKey = encPoint c X' Y', kexECDHReplyMsg_Signature = sig\<rparr>) = Ok packet"
    and r: "r = \<lparr>kr_H = ecdhHash cr c magics hostKey (encPoint c X Y) (encPoint c X' Y') ?K, kr_K = ?K, kr_HostKey = hostKey, kr_Signature = sig,
           kr_Hash = ecHash c, kr_SessionID = []\<rparr>"
    using assms(5) by (auto simp: ecdhReply_def kexSecret_eq Let_def ecdh_key_roundtrip [OF assms(1,3)] split: option.splits)
  from r show ?thesis unfolding ecdhFinish_def ecdh_reply_parses [OF m assms(4)]
    by (simp add: kexSecret_eq ecdh_key_roundtrip [OF assms(1,3)] comm)
qed

section \<open>A key exchange over a connection\<close>

text \<open>What \<open>t\<close> has put on the wire on its way to \<open>t'\<close>, and the input that is left.\<close>

definition wrote :: "transport \<Rightarrow> transport \<Rightarrow> bytes \<Rightarrow> bool" where
  "wrote t t' out \<longleftrightarrow> bo_data (t_bufWriter t') = bo_data (t_bufWriter t) @ out"

abbreviation unread :: "transport \<Rightarrow> bytes" where
  "unread t \<equiv> bi_data (t_bufReader t)"

definition t_wf :: "cipherlib \<Rightarrow> transport \<Rightarrow> bool" where
  "t_wf cl t \<longleftrightarrow> cs_wf cl (t_reader t) \<and> cs_wf cl (t_writer t)"

text \<open>One packet from an end to the other.\<close>

lemma t_transfer:
  assumes "cs_wf cl (t_writer a)" "packetFits p" "t_writePacket cl a p = (a', Ok u)" "wrote a a' out"
    "t_reader b = t_writer a" "unread b = out @ rest"
  shows "t_readPacket cl b = (b\<lparr>t_reader := t_writer a', t_bufReader := (t_bufReader b)\<lparr>bi_data := rest\<rparr>\<rparr>, Ok p)" "cs_wf cl (t_writer a')"
    and "t_reader a' = t_reader a \<and> t_bufReader a' = t_bufReader a \<and> t_sessionID a' = t_sessionID a"
proof -
  obtain s rand w q where one: "cs_writePacket cl (t_writer a) (t_rand a) (t_bufWriter a) p = (s, rand, w, q)"
    by (cases "cs_writePacket cl (t_writer a) (t_rand a) (t_bufWriter a) p")
  with assms(3) have a': "a' = a\<lparr>t_writer := s, t_rand := rand, t_bufWriter := w\<rparr>" and q: "q = Ok u" by (simp_all add: t_writePacket_def)
  from cs.transfer [OF assms(1,2) one [unfolded q]] obtain out1 where wf: "cs_wf cl s" and o: "bo_data w = bo_data (t_bufWriter a) @ out1"
    and rd: "\<And>rest e. cs_readPacket cl (t_writer a) \<lparr>bi_data = out1 @ rest, bi_err = e\<rparr> = (s, \<lparr>bi_data = rest, bi_err = e\<rparr>, Ok p)" by blast
  from o assms(4) a' have "out1 = out" by (simp add: wrote_def)
  have "t_bufReader b = \<lparr>bi_data = out @ rest, bi_err = bi_err (t_bufReader b)\<rparr>" using assms(6) by (cases "t_bufReader b") simp
  with rd [of rest "bi_err (t_bufReader b)"] \<open>out1 = out\<close> assms(5) a'
  show "t_readPacket cl b = (b\<lparr>t_reader := t_writer a', t_bufReader := (t_bufReader b)\<lparr>bi_data := rest\<rparr>\<rparr>, Ok p)"
    by (cases "t_bufReader b") (simp add: t_readPacket_def)
  from wf a' show "cs_wf cl (t_writer a')" by simp
  from a' show "t_reader a' = t_reader a \<and> t_bufReader a' = t_bufReader a \<and> t_sessionID a' = t_sessionID a" by simp
qed

text \<open>
  A request and its answer: the first end writes \<open>p\<close> and reads, the second reads and writes \<open>q\<close>; each has what the other
  writes in its input. The ends match again afterwards.
\<close>

definition answered :: "cipherlib \<Rightarrow> transport \<Rightarrow> transport \<Rightarrow> bytes \<Rightarrow> bytes \<Rightarrow> transport \<Rightarrow> transport \<Rightarrow> bool" where
  "answered cl c s p q c1 s2 \<longleftrightarrow>
     (\<exists>out1 out2 s1 rest1 rest2. t_writePacket cl c p = (c1, Ok ()) \<and> wrote c c1 out1 \<and> unread s = out1 @ rest1
        \<and> s1 = s\<lparr>t_reader := t_writer c1, t_bufReader := (t_bufReader s)\<lparr>bi_data := rest1\<rparr>\<rparr>
        \<and> t_writePacket cl s1 q = (s2, Ok ()) \<and> wrote s1 s2 out2 \<and> unread c = out2 @ rest2)"

lemma answeredE:
  assumes "matched c s" "t_wf cl c" "packetFits p" "packetFits q" "answered cl c s p q c1 s2"
  obtains c2 s1 where "t_writePacket cl c p = (c1, Ok ())" "t_readPacket cl c1 = (c2, Ok q)"
    "t_readPacket cl s = (s1, Ok p)" "t_writePacket cl s1 q = (s2, Ok ())" "matched c2 s2" "t_wf cl c2"
proof -
  from assms(5) obtain out1 out2 s1 rest1 rest2 where w1: "t_writePacket cl c p = (c1, Ok ())" "wrote c c1 out1" "unread s = out1 @ rest1"
    and s1: "s1 = s\<lparr>t_reader := t_writer c1, t_bufReader := (t_bufReader s)\<lparr>bi_data := rest1\<rparr>\<rparr>"
    and w2: "t_writePacket cl s1 q = (s2, Ok ())" "wrote s1 s2 out2" "unread c = out2 @ rest2"
    unfolding answered_def by blast
  have m: "t_reader s = t_writer c" "t_writer s1 = t_reader c" "t_sessionID s1 = t_sessionID c" using assms(1) by (simp_all add: matched_def s1)
  note one = t_transfer [OF _ assms(3) w1(1,2) m(1) w1(3)]
  have wfc: "cs_wf cl (t_writer c)" "cs_wf cl (t_writer s1)" using assms(2) by (simp_all add: t_wf_def m(2))
  have "t_reader c1 = t_writer s1" "unread c1 = out2 @ rest2" using one(3) [OF wfc(1)] m(2) w2(3) by simp_all
  note two = t_transfer [OF wfc(2) assms(4) w2(1,2) this]
  let ?c2 = "c1\<lparr>t_reader := t_writer s2, t_bufReader := (t_bufReader c1)\<lparr>bi_data := rest2\<rparr>\<rparr>"
  have "matched ?c2 s2" using two(3) one(3) [OF wfc(1)] m by (simp add: matched_def s1)
  moreover have "t_wf cl ?c2" using two(2) one(2) [OF wfc(1)] by (simp add: t_wf_def)
  ultimately show thesis using that [of ?c2 s1] one(1) [OF wfc(1)] two(1) w1(1) w2(1) s1 by blast
qed

text \<open>The two packets and the result of an exchange, and what is left of the random sources.\<close>

fun kexPackets :: "crypto \<Rightarrow> signprims \<Rightarrow> kexlib \<Rightarrow> kexAlgorithm \<Rightarrow> handshakeMagics \<Rightarrow> Signer \<Rightarrow> byteIn \<Rightarrow> byteIn
    \<Rightarrow> (byteIn \<times> byteIn \<times> bytes \<times> bytes \<times> kexResult) option" where
  "kexPackets cr sp kl (DHGroup grp) magics priv randc rands =
     (case (kl_randInt kl randc (dh_p grp), kl_randInt kl rands (dh_p grp)) of
        ((randc, Ok x), (rands, Ok y)) \<Rightarrow>
          (case (dhInitPacket grp x, dhReply cr sp grp magics (Some priv) (bi_data rands) (bigExp (dh_g grp) x (dh_p grp)) y) of
             (Ok p, Ok (q, r)) \<Rightarrow> Some (randc, rands, p, q, r) | _ \<Rightarrow> None)
      | _ \<Rightarrow> None)"
| "kexPackets cr sp kl (ECDH c) magics priv randc rands =
     (case (kl_GenerateKey kl c randc, kl_GenerateKey kl c rands) of
        ((randc, Ok (D, X, Y)), (rands, Ok key)) \<Rightarrow>
          (case (ecdhInitPacket (encPoint c X Y), ecdhReply cr sp kl c magics (Some priv) (bi_data rands) (encPoint c X Y) (X, Y) key) of
             (Ok p, Ok (q, r)) \<Rightarrow> Some (randc, rands, p, q, r) | _ \<Rightarrow> None)
      | _ \<Rightarrow> None)"

definition kexlib_laws :: "crypto \<Rightarrow> kexlib \<Rightarrow> kexAlgorithm \<Rightarrow> bool" where
  "kexlib_laws cr kl alg = (case alg of DHGroup _ \<Rightarrow> True | ECDH c \<Rightarrow> ecdh_laws cr kl c)"

lemma dh_init_parses: "dhInitPacket grp x = Ok p \<Longrightarrow> length p < 2 ^ 32 \<Longrightarrow>
    rbind (Unmarshal p kexDHInitMsg_T) kexDHInitMsg_of = Ok \<lparr>kexDHInitMsg_X = bigExp (dh_g grp) x (dh_p grp)\<rparr>"
  unfolding dhInitPacket_def
  by (rule kexDHInitMsg.unmarshal_marshal)
    (auto simp: kexDHInitMsg.marshal_ok encStruct_def kexDHInitMsg_T_def kexDHInitMsg_vals_def encInt_def encString_def be32_def Marshal_enc)

lemma ecdh_init_parses: "ecdhInitPacket k = Ok p \<Longrightarrow> length p < 2 ^ 32 \<Longrightarrow>
    rbind (Unmarshal p kexECDHInitMsg_T) kexECDHInitMsg_of = Ok \<lparr>kexECDHInitMsg_ClientPubKey = k\<rparr>"
  unfolding ecdhInitPacket_def
  by (rule kexECDHInitMsg.unmarshal_marshal)
    (auto simp: kexECDHInitMsg.marshal_ok encStruct_def kexECDHInitMsg_T_def kexECDHInitMsg_vals_def encString_def be32_def Marshal_enc)

lemmas kex_step_simps = sbind_def sres_def kRead_def kWrite_def kRandInt_def kGenerateKey_def kWriteIgnored_def

lemma packetFits_length: "packetFits p \<Longrightarrow> length p < 2 ^ 32"
  by (simp add: packetFits_def maxPacket_def)

lemma dh_runs:
  assumes "DHGroup grp \<in> snd ` set kexAlgoMap" "packetFits p" "packetFits q"
    "kexPackets cr sp kl (DHGroup grp) magics priv randc rands = Some (randc', rands', p, q, r)"
    "t_writePacket cl c p = (c1, Ok ())" "t_readPacket cl c1 = (c2, Ok q)" "t_readPacket cl s = (s1, Ok p)" "t_writePacket cl s1 q = (s2, Ok ())"
  shows "dh_Client cl cr kl grp magics \<lparr>ks_conn = c, ks_rand = randc\<rparr> = (\<lparr>ks_conn = c2, ks_rand = randc'\<rparr>, Ok r)"
    "dh_Server cl cr sp kl grp magics (Some priv) \<lparr>ks_conn = s, ks_rand = rands\<rparr> = (\<lparr>ks_conn = s2, ks_rand = rands'\<rparr>, Ok r)"
proof -
  obtain x y where x: "kl_randInt kl randc (dh_p grp) = (randc', Ok x)" and y: "kl_randInt kl rands (dh_p grp) = (rands', Ok y)"
    and p: "dhInitPacket grp x = Ok p" and q: "dhReply cr sp grp magics (Some priv) (bi_data rands') (bigExp (dh_g grp) x (dh_p grp)) y = Ok (q, r)"
    using assms(4) by (auto split: prod.splits res.splits)
  from dh_agree [OF assms(1) packetFits_length [OF assms(3)] q] x p assms(5,6)
  show "dh_Client cl cr kl grp magics \<lparr>ks_conn = c, ks_rand = randc\<rparr> = (\<lparr>ks_conn = c2, ks_rand = randc'\<rparr>, Ok r)"
    by (simp add: dh_Client_def kex_step_simps)
  from y q assms(7,8)
  show "dh_Server cl cr sp kl grp magics (Some priv) \<lparr>ks_conn = s, ks_rand = rands\<rparr> = (\<lparr>ks_conn = s2, ks_rand = rands'\<rparr>, Ok r)"
    by (simp add: dh_Server_def kex_step_simps dh_init_parses [OF p packetFits_length [OF assms(2)]])
qed

lemma ecdh_runs:
  assumes "ecdh_laws cr kl crv" "packetFits p" "packetFits q"
    "kexPackets cr sp kl (ECDH crv) magics priv randc rands = Some (randc', rands', p, q, r)"
    "t_writePacket cl c p = (c1, Ok ())" "t_readPacket cl c1 = (c2, Ok q)" "t_readPacket cl s = (s1, Ok p)" "t_writePacket cl s1 q = (s2, Ok ())"
  shows "ecdh_Client cl cr kl crv magics \<lparr>ks_conn = c, ks_rand = randc\<rparr> = (\<lparr>ks_conn = c2, ks_rand = randc'\<rparr>, Ok r)"
    "ecdh_Server cl cr sp kl crv magics (Some priv) \<lparr>ks_conn = s, ks_rand = rands\<rparr> = (\<lparr>ks_conn = s2, ks_rand = rands'\<rparr>, Ok r)"
proof -
  obtain D X Y D' X' Y' where x: "kl_GenerateKey kl crv randc = (randc', Ok (D, X, Y))" and y: "kl_GenerateKey kl crv rands = (rands', Ok (D', X', Y'))"
    and p: "ecdhInitPacket (encPoint crv X Y) = Ok p"
    and q: "ecdhReply cr sp kl crv magics (Some priv) (bi_data rands') (encPoint crv X Y) (X, Y) (D', X', Y') = Ok (q, r)"
    using assms(4) by (auto split: prod.splits res.splits)
  have g: "generated kl crv (D, X, Y)" "generated kl crv (D', X', Y')" using x y by (auto simp: generated_def)
  from ecdh_agree [OF assms(1) g packetFits_length [OF assms(3)] q] x p assms(5,6)
  show "ecdh_Client cl cr kl crv magics \<lparr>ks_conn = c, ks_rand = randc\<rparr> = (\<lparr>ks_conn = c2, ks_rand = randc'\<rparr>, Ok r)"
    by (simp add: ecdh_Client_def kex_step_simps ecdh_key_roundtrip [OF assms(1) g(1)])
  from y q assms(7,8)
  show "ecdh_Server cl cr sp kl crv magics (Some priv) \<lparr>ks_conn = s, ks_rand = rands\<rparr> = (\<lparr>ks_conn = s2, ks_rand = rands'\<rparr>, Ok r)"
    by (simp add: ecdh_Server_def kex_step_simps ecdh_init_parses [OF p packetFits_length [OF assms(2)]] ecdh_key_roundtrip [OF assms(1) g(1)])
qed

lemma kex_runs:
  assumes "alg \<in> snd ` set kexAlgoMap" "kexlib_laws cr kl alg" "matched c s" "t_wf cl c"
    "kexPackets cr sp kl alg magics priv randc rands = Some (randc', rands', p, q, r)" "packetFits p" "packetFits q" "answered cl c s p q c1 s2"
  shows "\<exists>c2. kex_Client cl cr kl alg magics \<lparr>ks_conn = c, ks_rand = randc\<rparr> = (\<lparr>ks_conn = c2, ks_rand = randc'\<rparr>, Ok r) \<and>
    kex_Server cl cr sp kl alg magics (Some priv) \<lparr>ks_conn = s, ks_rand = rands\<rparr> = (\<lparr>ks_conn = s2, ks_rand = rands'\<rparr>, Ok r) \<and>
    matched c2 s2 \<and> t_wf cl c2"
proof -
  obtain c2 s1 where io: "t_writePacket cl c p = (c1, Ok ())" "t_readPacket cl c1 = (c2, Ok q)" "t_readPacket cl s = (s1, Ok p)" "t_writePacket cl s1 q = (s2, Ok ())"
    and m: "matched c2 s2" "t_wf cl c2"
    by (rule answeredE [OF assms(3,4,6,7,8)])
  show ?thesis
  proof (cases alg)
    case (DHGroup grp)
    with dh_runs [OF assms(1) [unfolded DHGroup] assms(6,7) assms(5) [unfolded DHGroup] io] m show ?thesis by auto
  next
    case (ECDH crv)
    with assms(2) have "ecdh_laws cr kl crv" by (simp add: kexlib_laws_def)
    from ecdh_runs [OF this assms(6,7) assms(5) [unfolded ECDH] io] m ECDH show ?thesis by auto
  qed
qed

text \<open>(C24) Both sides of a key exchange agree: for every algorithm of the table, between ends that match, when the packets of the
  exchange fit and each side finds in its input what the other side writes, both sides return the same result (the session
  hash, the shared secret, the host key and its signature), the ends match again, and the ciphers that the ends then
  prepare for algorithms that are the same in both directions match as well.\<close>

theorem key_exchange_agrees:
  assumes "alg \<in> snd ` set kexAlgoMap" "kexlib_laws cr kl alg" "matched c s" "t_wf cl c"
    "kexPackets cr sp kl alg magics priv randc rands = Some (randc', rands', p, q, r)" "packetFits p" "packetFits q" "answered cl c s p q c1 s2"
  shows "\<exists>c2. kex_Client cl cr kl alg magics \<lparr>ks_conn = c, ks_rand = randc\<rparr> = (\<lparr>ks_conn = c2, ks_rand = randc'\<rparr>, Ok r) \<and>
    kex_Server cl cr sp kl alg magics (Some priv) \<lparr>ks_conn = s, ks_rand = rands\<rparr> = (\<lparr>ks_conn = s2, ks_rand = rands'\<rparr>, Ok r) \<and>
    matched c2 s2 \<and>
    (\<forall>a c3. al_w a = al_r a \<and> prepareKeyChange cl cr c2 a r = Some (c3, Ok ()) \<longrightarrow>
       (\<exists>s3. prepareKeyChange cl cr s2 a r = Some (s3, Ok ()) \<and> matched c3 s3))"
  using kex_runs [OF assms] matched_prepare [of _ s2] by blast

definition demoKexlib :: kexlib where
  "demoKexlib = \<lparr>kl_randInt = (\<lambda>r m. (r, Ok 1)), kl_GenerateKey = (\<lambda>c r. (r, Ok (1, 1, 1))), kl_ScalarMult = (\<lambda>c x y k. (x, y)), kl_P = (\<lambda>c. 2)\<rparr>"

definition demoSigner :: Signer where
  "demoSigner = RSASigner \<lparr>rsaPriv_PublicKey = \<lparr>rsa_E = 17, rsa_N = 55\<rparr>, rsaPriv_D = 3\<rparr>"

definition demoSignprims :: signprims where
  "demoSignprims = \<lparr>sp_rsa_sign = (\<lambda>k h r d. Ok [1, 2]), sp_dsa_sign = (\<lambda>k r d. Ok (1, 1)), sp_ecdsa_sign = (\<lambda>k r d. Ok (1, 1))\<rparr>"

definition demoMagics :: handshakeMagics where
  "demoMagics = \<lparr>hm_clientVersion = [1], hm_serverVersion = [2], hm_clientKexInit = [3], hm_serverKexInit = [4]\<rparr>"

abbreviation demoRand :: byteIn where
  "demoRand \<equiv> \<lparr>bi_data = replicate 40 7, bi_err = EOF\<rparr>"

lemma demo_kex_packets:
  "map_option (\<lambda>(a, b, p, q, r). (a, b, length p, length q)) (kexPackets demoSums demoSignprims demoKexlib (DHGroup oakleyGroup2) demoMagics demoSigner demoRand demoRand)
     = Some (demoRand, demoRand, 6, 52)"
  by code_simp

lemma demo_not_newkeys:
  "case_option True (\<lambda>(a, b, p, q, r). \<not> isNewKeys p \<and> \<not> isNewKeys q)
     (kexPackets demoSums demoSignprims demoKexlib (DHGroup oakleyGroup2) demoMagics demoSigner demoRand demoRand)"
  by code_simp

text \<open>A new transport with random bytes for the padding writes any packet that fits.\<close>

lemma initial_writes:
  assumes "packetFits p" "20 \<le> length (bi_data rand)" "bo_fail w = None"
  shows "\<exists>s' rand' w'. cs_writePacket cl (initialState d) rand w p = (s', rand', w', Ok ()) \<or> isNewKeys p"
proof -
  have "spc_paddingLength (length p) \<le> length (bi_data rand)" using padTo_bounds(2) [of "prefixLen + length p"] assms(2) by (simp add: spc_paddingLength_eq)
  moreover have "\<not> maxPacket < length p" using assms(1) by (simp add: packetFits_def)
  ultimately show ?thesis
    using assms(3) by (auto simp: cs_writePacket_def initialState_def spc_writePacket_def Let_def readFull_def XORKeyStream_eq writes_no_fault)
qed

definition demoPeer :: "bool \<Rightarrow> bytes \<Rightarrow> transport" where
  "demoPeer b inp = newTransport \<lparr>bi_data = inp, bi_err = EOF\<rparr> \<lparr>bo_data = [], bo_fail = None\<rparr> demoRand b"

lemma demo_answered:
  assumes "packetFits p" "packetFits q" "\<not> isNewKeys p" "\<not> isNewKeys q"
  shows "\<exists>out1 out2 c1 s2. answered cl (demoPeer True out2) (demoPeer False out1) p q c1 s2"
proof -
  obtain sc rc wc where c: "cs_writePacket cl (initialState clientKeys) demoRand \<lparr>bo_data = [], bo_fail = None\<rparr> p = (sc, rc, wc, Ok ())"
    using initial_writes [OF assms(1), of demoRand "\<lparr>bo_data = [], bo_fail = None\<rparr>" cl clientKeys] assms(3) by auto
  obtain ss rs ws where s: "cs_writePacket cl (initialState serverKeys) demoRand \<lparr>bo_data = [], bo_fail = None\<rparr> q = (ss, rs, ws, Ok ())"
    using initial_writes [OF assms(2), of demoRand "\<lparr>bo_data = [], bo_fail = None\<rparr>" cl serverKeys] assms(4) by auto
  from c s have "answered cl (demoPeer True (bo_data ws)) (demoPeer False (bo_data wc)) p q
      ((demoPeer True (bo_data ws))\<lparr>t_writer := sc, t_rand := rc, t_bufWriter := wc\<rparr>)
      ((demoPeer False [])\<lparr>t_reader := sc, t_writer := ss, t_rand := rs, t_bufWriter := ws\<rparr>)"
    by (auto simp: answered_def demoPeer_def newTransport_def t_writePacket_def wrote_def)
  then show ?thesis by blast
qed

text \<open>
  An instance of the laws of a curve: the private number is the first byte of the random source, the public point has the power
  of 5 modulo 23 to it as both coordinates, and multiplication by a scalar takes a power.
\<close>

definition demoECDH :: kexlib where
  "demoECDH = demoKexlib\<lparr>kl_GenerateKey := (\<lambda>c r. let d = (case bi_data r of [] \<Rightarrow> 1 | b # _ \<Rightarrow> unat b) in
       (r\<lparr>bi_data := tl (bi_data r)\<rparr>, Ok (int d, 5 ^ d mod 23, 5 ^ d mod 23))),
     kl_ScalarMult := (\<lambda>c x y k. (x ^ be_val k mod 23, y ^ be_val k mod 23)), kl_P := (\<lambda>c. 23)\<rparr>"

lemma pow5_nonzero: "(5 :: int) ^ n mod 23 \<noteq> 0"
proof -
  have d: "23 dvd 5 * x \<Longrightarrow> 23 dvd x" for x :: int by presburger
  have "\<not> 23 dvd (5 :: int) ^ n"
  proof (induction n)
    case (Suc n)
    with d [of "5 ^ n"] show ?case unfolding power_Suc by blast
  qed simp
  then show ?thesis by (simp only: dvd_eq_mod_eq_0 not_False_eq_True)
qed

lemma demo_generated: "generated demoECDH c (D, X, Y) \<Longrightarrow> \<exists>d. D = int d \<and> X = 5 ^ d mod 23 \<and> Y = 5 ^ d mod 23"
  by (auto simp: generated_def demoECDH_def Let_def)

lemma demo_ecdh_laws:
  assumes "c \<in> {P256, P384, P521}"
  shows "ecdh_laws demoSums demoECDH c"
proof -
  have "(5 :: int) ^ d mod 23 < 256 ^ curveBytes c" for d
  proof -
    have "(23 :: int) \<le> 256 ^ curveBytes c" using assms by (auto simp: curveBytes_def)
    then show ?thesis by (rule order.strict_trans2 [rotated]) simp
  qed
  then have "wf_point demoSums c (5 ^ d mod 23) (5 ^ d mod 23) \<and> validateECPublicKey demoSums demoECDH c (5 ^ d mod 23) (5 ^ d mod 23)" for d
    using pow5_nonzero [of d] by (simp add: wf_point_def validateECPublicKey_def demoECDH_def demoSums_def demoCrypto_def)
  moreover have "kl_ScalarMult demoECDH c (5 ^ d mod 23) (5 ^ d mod 23) (be_bytes (nat \<bar>int d'\<bar>))
      = kl_ScalarMult demoECDH c (5 ^ d' mod 23) (5 ^ d' mod 23) (be_bytes (nat \<bar>int d\<bar>))" for d d'
    by (simp add: demoECDH_def power_mod mult.commute flip: power_mult)
  ultimately show ?thesis unfolding ecdh_laws_def by (auto dest!: demo_generated)
qed

abbreviation demoRand2 :: byteIn where
  "demoRand2 \<equiv> \<lparr>bi_data = replicate 40 9, bi_err = EOF\<rparr>"

lemma demo_ecdh_packets:
  "case kexPackets demoSums demoSignprims demoECDH (ECDH P256) demoMagics demoSigner demoRand demoRand2 of
     Some (a, b, p, q, r) \<Rightarrow> 0 < length p \<and> length p < 100 \<and> 0 < length q \<and> length q < 1000 \<and> \<not> isNewKeys p \<and> \<not> isNewKeys q \<and> kr_K r = encInt (5 ^ 63 mod 23) | None \<Rightarrow> False"
  by code_simp

lemma demo_matched: "matched (demoPeer True out2) (demoPeer False out1)" "t_wf demoLib (demoPeer True out2)"
  by (simp_all add: demoPeer_def matched_def t_wf_def cs_wf_new) (simp_all add: newTransport_def)

text \<open>An exchange over a group, and one over a curve in which the two sides draw different numbers.\<close>

theorem key_exchange_agrees_witness:
  "(\<exists>c s c2 s2 r. kex_Client demoLib demoSums demoKexlib (DHGroup oakleyGroup2) demoMagics \<lparr>ks_conn = c, ks_rand = demoRand\<rparr>
        = (\<lparr>ks_conn = c2, ks_rand = demoRand\<rparr>, Ok r)
    \<and> kex_Server demoLib demoSums demoSignprims demoKexlib (DHGroup oakleyGroup2) demoMagics (Some demoSigner) \<lparr>ks_conn = s, ks_rand = demoRand\<rparr>
        = (\<lparr>ks_conn = s2, ks_rand = demoRand\<rparr>, Ok r) \<and> matched c2 s2)
   \<and> ecdh_laws demoSums demoECDH P256
   \<and> (\<exists>c s c2 s2 randc rands r. kex_Client demoLib demoSums demoECDH (ECDH P256) demoMagics \<lparr>ks_conn = c, ks_rand = demoRand\<rparr>
        = (\<lparr>ks_conn = c2, ks_rand = randc\<rparr>, Ok r)
    \<and> kex_Server demoLib demoSums demoSignprims demoECDH (ECDH P256) demoMagics (Some demoSigner) \<lparr>ks_conn = s, ks_rand = demoRand2\<rparr>
        = (\<lparr>ks_conn = s2, ks_rand = rands\<rparr>, Ok r) \<and> matched c2 s2 \<and> kr_K r = encInt (5 ^ 63 mod 23))"
proof (intro conjI)
  obtain p q r where k: "kexPackets demoSums demoSignprims demoKexlib (DHGroup oakleyGroup2) demoMagics demoSigner demoRand demoRand = Some (demoRand, demoRand, p, q, r)"
    and l: "length p = 6" "length q = 52" using demo_kex_packets by auto
  from l have f: "packetFits p" "packetFits q" by (auto simp: packetFits_def maxPacket_def)
  have "\<not> isNewKeys p" "\<not> isNewKeys q" using demo_not_newkeys k by simp_all
  from demo_answered [OF f this, of demoLib] obtain out1 out2 c1 s2 where a: "answered demoLib (demoPeer True out2) (demoPeer False out1) p q c1 s2" by blast
  have "DHGroup oakleyGroup2 \<in> snd ` set kexAlgoMap" "kexlib_laws demoSums demoKexlib (DHGroup oakleyGroup2)"
    by (simp_all add: kexAlgoMap_def kexlib_laws_def)
  from key_exchange_agrees [OF this demo_matched k f a]
  show "\<exists>c s c2 s2 r. kex_Client demoLib demoSums demoKexlib (DHGroup oakleyGroup2) demoMagics \<lparr>ks_conn = c, ks_rand = demoRand\<rparr>
        = (\<lparr>ks_conn = c2, ks_rand = demoRand\<rparr>, Ok r)
    \<and> kex_Server demoLib demoSums demoSignprims demoKexlib (DHGroup oakleyGroup2) demoMagics (Some demoSigner) \<lparr>ks_conn = s, ks_rand = demoRand\<rparr>
        = (\<lparr>ks_conn = s2, ks_rand = demoRand\<rparr>, Ok r) \<and> matched c2 s2" by blast
next
  show laws: "ecdh_laws demoSums demoECDH P256" by (simp add: demo_ecdh_laws)
  obtain randc rands p q r where k: "kexPackets demoSums demoSignprims demoECDH (ECDH P256) demoMagics demoSigner demoRand demoRand2 = Some (randc, rands, p, q, r)"
    and l: "0 < length p \<and> length p < 100" "0 < length q \<and> length q < 1000" "\<not> isNewKeys p" "\<not> isNewKeys q" and K: "kr_K r = encInt (5 ^ 63 mod 23)"
    using demo_ecdh_packets by (auto split: option.splits)
  from l have f: "packetFits p" "packetFits q" by (auto simp: packetFits_def maxPacket_def)
  from demo_answered [OF f l(3,4), of demoLib] obtain out1 out2 c1 s2 where a: "answered demoLib (demoPeer True out2) (demoPeer False out1) p q c1 s2" by blast
  have "ECDH P256 \<in> snd ` set kexAlgoMap" "kexlib_laws demoSums demoECDH (ECDH P256)"
    using laws by (simp_all add: kexAlgoMap_def kexlib_laws_def)
  from key_exchange_agrees [OF this demo_matched k f a] K
  show "\<exists>c s c2 s2 randc rands r. kex_Client demoLib demoSums demoECDH (ECDH P256) demoMagics \<lparr>ks_conn = c, ks_rand = demoRand\<rparr>
        = (\<lparr>ks_conn = c2, ks_rand = randc\<rparr>, Ok r)
    \<and> kex_Server demoLib demoSums demoSignprims demoECDH (ECDH P256) demoMagics (Some demoSigner) \<lparr>ks_conn = s, ks_rand = demoRand2\<rparr>
        = (\<lparr>ks_conn = s2, ks_rand = rands\<rparr>, Ok r) \<and> matched c2 s2 \<and> kr_K r = encInt (5 ^ 63 mod 23)" by blast
qed

end
