(* ===== verification/Handshake.thy ===== *)
theory Handshake
  imports Kex Server_Auth Transition
begin

text \<open>
  The handshake transport (\<^verbatim>\<open>handshake.go\<close>): it runs the key exchanges on top of the packet transport and lets any number of
  goroutines write packets. The operations are functions on the state; the reading goroutine, the writers and the lock
  are a step relation.
\<close>

section \<open>State\<close>

text \<open>The libraries that a key exchange uses.\<close>

record cryptoEnv =
  he_cipher :: cipherlib
  he_crypto :: crypto
  he_sign :: signprims
  he_kex :: kexlib

text \<open>
  \<open>ht_mu\<close> says whether the lock is held. A nil \<open>sentInitMsg\<close> is \<open>None\<close>. \<open>ht_rand\<close> is the random source of the configuration as the
  key exchange reads it.
\<close>

record handshakeTransport =
  ht_conn :: transport
  ht_rand :: byteIn
  ht_config :: Config
  ht_serverVersion :: bytes
  ht_clientVersion :: bytes
  ht_hostKeys :: "Signer list"
  ht_incoming :: "bytes list"
  ht_incomingClosed :: bool
  ht_readError :: "goerr option"
  ht_hostKeyCallback :: "(string \<Rightarrow> netAddr \<Rightarrow> PublicKey \<Rightarrow> goerr option) option"
  ht_dialAddress :: string
  ht_remoteAddr :: netAddr
  ht_readSinceKex :: uint64
  ht_mu :: bool
  ht_sentInitPacket :: bytes
  ht_sentInitMsg :: "kexInitMsg option"
  ht_writtenSinceKex :: uint64
  ht_writeError :: "goerr option"

definition newHandshakeTransport :: "transport \<Rightarrow> byteIn \<Rightarrow> Config \<Rightarrow> bytes \<Rightarrow> bytes \<Rightarrow> handshakeTransport" where
  "newHandshakeTransport conn rand config clientVersion serverVersion =
     \<lparr>ht_conn = conn, ht_rand = rand, ht_config = config, ht_serverVersion = serverVersion, ht_clientVersion = clientVersion,
      ht_hostKeys = [], ht_incoming = [], ht_incomingClosed = False, ht_readError = None, ht_hostKeyCallback = None,
      ht_dialAddress = [], ht_remoteAddr = NoAddr, ht_readSinceKex = 0, ht_mu = False, ht_sentInitPacket = [],
      ht_sentInitMsg = None, ht_writtenSinceKex = 0, ht_writeError = None\<rparr>"

definition newClientTransport :: "transport \<Rightarrow> byteIn \<Rightarrow> bytes \<Rightarrow> bytes \<Rightarrow> Config \<Rightarrow> (string \<Rightarrow> netAddr \<Rightarrow> PublicKey \<Rightarrow> goerr option) option
    \<Rightarrow> string \<Rightarrow> netAddr \<Rightarrow> handshakeTransport" where
  "newClientTransport conn rand clientVersion serverVersion config hostKeyCallback dialAddr addr =
     (newHandshakeTransport conn rand config clientVersion serverVersion)
       \<lparr>ht_dialAddress := dialAddr, ht_remoteAddr := addr, ht_hostKeyCallback := hostKeyCallback\<rparr>"

definition newServerTransport :: "transport \<Rightarrow> byteIn \<Rightarrow> bytes \<Rightarrow> bytes \<Rightarrow> Config \<Rightarrow> Signer list \<Rightarrow> handshakeTransport" where
  "newServerTransport conn rand clientVersion serverVersion config hostKeys =
     (newHandshakeTransport conn rand config clientVersion serverVersion)\<lparr>ht_hostKeys := hostKeys\<rparr>"

section \<open>Sending the first packet of a key exchange\<close>

fun hostKeyTypes :: "Signer list \<Rightarrow> string list res" where
  "hostKeyTypes [] = Ok []"
| "hostKeyTypes (k # ks) = rbind (keyType (signerPublicKey k)) (\<lambda>t. rbind (hostKeyTypes ks) (\<lambda>ts. Ok (t # ts)))"

definition orEmpty :: "'a list option \<Rightarrow> 'a list" where
  "orEmpty x = (case x of None \<Rightarrow> [] | Some l \<Rightarrow> l)"

definition kexInitOf :: "handshakeTransport \<Rightarrow> bytes \<Rightarrow> kexInitMsg res" where
  "kexInitOf t cookie =
     rbind (if ht_hostKeys t \<noteq> [] then hostKeyTypes (ht_hostKeys t) else Ok supportedHostKeyAlgos) (\<lambda>hostKeyAlgos.
     Ok \<lparr>kexInitMsg_Cookie = cookie, kexInitMsg_KexAlgos = orEmpty (cf_KeyExchanges (ht_config t)), kexInitMsg_ServerHostKeyAlgos = hostKeyAlgos,
         kexInitMsg_CiphersClientServer = orEmpty (cf_Ciphers (ht_config t)), kexInitMsg_CiphersServerClient = orEmpty (cf_Ciphers (ht_config t)),
         kexInitMsg_MACsClientServer = orEmpty (cf_MACs (ht_config t)), kexInitMsg_MACsServerClient = orEmpty (cf_MACs (ht_config t)),
         kexInitMsg_CompressionClientServer = supportedCompressions, kexInitMsg_CompressionServerClient = supportedCompressions,
         kexInitMsg_LanguagesClientServer = [], kexInitMsg_LanguagesServerClient = [], kexInitMsg_FirstKexFollows = False, kexInitMsg_Reserved = 0\<rparr>)"

text \<open>The cookie is what the random source of the system gives.\<close>

definition sendKexInitLocked :: "cryptoEnv \<Rightarrow> bytes \<Rightarrow> handshakeTransport \<Rightarrow> handshakeTransport \<times> (kexInitMsg \<times> bytes) res" where
  "sendKexInitLocked env cookie t = (case ht_sentInitMsg t of
       Some msg \<Rightarrow> (t, Ok (msg, ht_sentInitPacket t))
     | None \<Rightarrow>
        (case rbind (kexInitOf t cookie) (\<lambda>msg. rbind (Marshal kexInitMsg_T (kexInitMsg_vals msg)) (\<lambda>packet. Ok (msg, packet))) of
           Err e \<Rightarrow> (t, Err e)
         | Panic p \<Rightarrow> (t, Panic p)
         | Ok (msg, packet) \<Rightarrow>
            (case t_writePacket (he_cipher env) (ht_conn t) packet of
               (conn, Err e) \<Rightarrow> (t\<lparr>ht_conn := conn\<rparr>, Err e)
             | (conn, Panic p) \<Rightarrow> (t\<lparr>ht_conn := conn\<rparr>, Panic p)
             | (conn, Ok _) \<Rightarrow> (t\<lparr>ht_conn := conn, ht_sentInitMsg := Some msg, ht_sentInitPacket := packet\<rparr>, Ok (msg, packet)))))"

section \<open>The key exchange\<close>

text \<open>
  A step of the exchange; \<open>None\<close> is a step that never returns, when a cipher is sent on a channel that is full.
\<close>

type_synonym 'a hsStep = "(handshakeTransport, 'a) goProc"

definition hkex :: "'a kexStep \<Rightarrow> 'a hsStep" where
  "hkex m = (\<lambda>t. case m \<lparr>ks_conn = ht_conn t, ks_rand = ht_rand t\<rparr> of (s, r) \<Rightarrow> Some (t\<lparr>ht_conn := ks_conn s, ht_rand := ks_rand s\<rparr>, r))"

text \<open>The last host key of the agreed type.\<close>

fun pickHostKey :: "string \<Rightarrow> Signer list \<Rightarrow> Signer option \<Rightarrow> Signer option res" where
  "pickHostKey algo [] hostKey = Ok hostKey"
| "pickHostKey algo (k # ks) hostKey =
     rbind (keyType (signerPublicKey k)) (\<lambda>t. pickHostKey algo ks (if algo = t then Some k else hostKey))"

definition hs_server :: "cryptoEnv \<Rightarrow> kexAlgorithm \<Rightarrow> algorithms \<Rightarrow> handshakeMagics \<Rightarrow> kexResult hsStep" where
  "hs_server env kex algs magics t =
     hbind (hres (pickHostKey (al_hostKey algs) (ht_hostKeys t) None)) (\<lambda>hostKey.
       hkex (kex_Server (he_cipher env) (he_crypto env) (he_sign env) (he_kex env) kex magics hostKey)) t"

definition verifyHostKeySignature :: "crypto \<Rightarrow> PublicKey \<Rightarrow> kexResult \<Rightarrow> unit res" where
  "verifyHostKeySignature cr hostKey result = (case parseSignatureBody (kr_Signature result) of
       ParsePanic p \<Rightarrow> Panic p
     | NotOk \<Rightarrow> Err (ErrNew ''ssh: signature parse error'')
     | Parsed sig rest \<Rightarrow> if rest \<noteq> [] then Err (ErrNew ''ssh: signature parse error'') else keyVerify cr hostKey (kr_H result) sig)"

definition hs_client :: "cryptoEnv \<Rightarrow> kexAlgorithm \<Rightarrow> handshakeMagics \<Rightarrow> kexResult hsStep" where
  "hs_client env kex magics t =
     hbind (hkex (kex_Client (he_cipher env) (he_crypto env) (he_kex env) kex magics)) (\<lambda>result.
     hbind (hres (ParsePublicKey (he_crypto env) (kr_HostKey result))) (\<lambda>hostKey.
     hbind (hres (verifyHostKeySignature (he_crypto env) hostKey result)) (\<lambda>_.
     hres (case ht_hostKeyCallback t of
         None \<Rightarrow> Ok result
       | Some cb \<Rightarrow> (case cb (ht_dialAddress t) (ht_remoteAddr t) hostKey of Some e \<Rightarrow> Err e | None \<Rightarrow> Ok result))))) t"

definition hs_prepare :: "cryptoEnv \<Rightarrow> algorithms \<Rightarrow> kexResult \<Rightarrow> unit hsStep" where
  "hs_prepare env algs result t =
     Option.bind (prepareKeyChange (he_cipher env) (he_crypto env) (ht_conn t) algs result) (\<lambda>(conn, r).
       Some (t\<lparr>ht_conn := conn\<rparr>, case r of Panic p \<Rightarrow> Panic p | _ \<Rightarrow> Ok ()))"

text \<open>
  The exchange after our own first packet went out. An error of \<open>prepareKeyChange\<close> is not looked at, in \<open>hs_prepare\<close>.
\<close>

definition roleMagics :: "handshakeTransport \<Rightarrow> bytes \<Rightarrow> bytes \<Rightarrow> handshakeMagics" where
  "roleMagics t myInitPacket otherInitPacket =
     \<lparr>hm_clientVersion = ht_clientVersion t, hm_serverVersion = ht_serverVersion t,
      hm_clientKexInit = (if ht_hostKeys t = [] then myInitPacket else otherInitPacket),
      hm_serverKexInit = (if ht_hostKeys t = [] then otherInitPacket else myInitPacket)\<rparr>"

definition skipWrongGuess :: "cryptoEnv \<Rightarrow> kexInitMsg \<Rightarrow> algorithms \<Rightarrow> unit hsStep" where
  "skipWrongGuess env otherInit algs =
     (if kexInitMsg_FirstKexFollows otherInit then
        hbind (hres (index (kexInitMsg_KexAlgos otherInit) 0)) (\<lambda>guess.
          if al_kex algs \<noteq> guess then hbind (hkex (kRead (he_cipher env))) (\<lambda>_. hres (Ok ())) else hres (Ok ()))
      else hres (Ok ()))"

definition changeKeys :: "cryptoEnv \<Rightarrow> algorithms \<Rightarrow> kexResult \<Rightarrow> unit hsStep" where
  "changeKeys env algs result =
     hbind (hs_prepare env algs result) (\<lambda>_.
     hbind (hkex (kWrite (he_cipher env) [msgNewKeys])) (\<lambda>_.
     hbind (hkex (kRead (he_cipher env))) (\<lambda>packet.
     hres (rbind (index packet 0) (\<lambda>b. if b \<noteq> msgNewKeys then Err (unexpectedMessageError msgNewKeys b) else Ok ())))))"

definition exchangeKeys :: "cryptoEnv \<Rightarrow> kexInitMsg \<Rightarrow> bytes \<Rightarrow> bytes \<Rightarrow> unit hsStep" where
  "exchangeKeys env myInit myInitPacket otherInitPacket t =
     hbind (hres (rbind (Unmarshal otherInitPacket kexInitMsg_T) kexInitMsg_of)) (\<lambda>otherInit.
     let magics = roleMagics t myInitPacket otherInitPacket;
         (clientInit, serverInit) = (if ht_hostKeys t = [] then (myInit, otherInit) else (otherInit, myInit))
     in case findAgreedAlgorithms clientInit serverInit of
          None \<Rightarrow> hres (Err (ErrNew ''ssh: no common algorithms''))
        | Some algs \<Rightarrow>
           hbind (skipWrongGuess env otherInit algs) (\<lambda>_.
           case map_of kexAlgoMap (al_kex algs) of
             None \<Rightarrow> hres (Err (Errorf ''ssh: unexpected key exchange algorithm %v'' [AStr (al_kex algs)]))
           | Some kex \<Rightarrow>
              hbind (if ht_hostKeys t \<noteq> [] then hs_server env kex algs magics else hs_client env kex magics) (\<lambda>result.
                changeKeys env algs result))) t"

definition sendKexInit :: "cryptoEnv \<Rightarrow> bytes \<Rightarrow> (kexInitMsg \<times> bytes) hsStep" where
  "sendKexInit env cookie t = Some (sendKexInitLocked env cookie t)"

definition enterKeyExchange :: "cryptoEnv \<Rightarrow> bytes \<Rightarrow> bytes \<Rightarrow> unit hsStep" where
  "enterKeyExchange env cookie otherInitPacket =
     hbind (sendKexInit env cookie) (\<lambda>(myInit, myInitPacket). exchangeKeys env myInit myInitPacket otherInitPacket)"

section \<open>Reading\<close>

text \<open>What the reading goroutine does, under the lock, when a key exchange is over.\<close>

definition t_Close :: "transport \<Rightarrow> transport" where
  "t_Close t = t\<lparr>t_closed := True\<rparr>"

definition endKeyExchange :: "goerr option \<Rightarrow> handshakeTransport \<Rightarrow> handshakeTransport" where
  "endKeyExchange err t =
     (let t = (case err of None \<Rightarrow> t | Some e \<Rightarrow> t\<lparr>ht_conn := t_Close (ht_conn t), ht_writeError := Some e\<rparr>)
      in t\<lparr>ht_sentInitMsg := None, ht_sentInitPacket := [], ht_writtenSinceKex := 0\<rparr>)"

definition overThreshold :: "uint64 \<Rightarrow> handshakeTransport \<Rightarrow> bool" where
  "overThreshold n t \<longleftrightarrow> n > cf_RekeyThreshold (ht_config t)"

definition requestKeyChange :: "cryptoEnv \<Rightarrow> bytes \<Rightarrow> unit hsStep" where
  "requestKeyChange env cookie = hbind (sendKexInit env cookie) (\<lambda>_. hres (Ok ()))"

text \<open>Receiving a packet: the packets of the user are returned, the first packet of a key exchange starts one.\<close>

definition receive :: "cryptoEnv \<Rightarrow> bytes hsStep" where
  "receive env = hbind (hkex (kRead (he_cipher env))) (\<lambda>p t.
     Some (t\<lparr>ht_readSinceKex := ht_readSinceKex t + of_nat (length p)\<rparr>, Ok p))"

definition readOnePacket :: "cryptoEnv \<Rightarrow> bytes \<Rightarrow> bytes \<Rightarrow> bytes hsStep" where
  "readOnePacket env cookie1 cookie2 t =
     hbind (if overThreshold (ht_readSinceKex t) t then requestKeyChange env cookie1 else hres (Ok ())) (\<lambda>_.
     hbind (receive env) (\<lambda>p.
     hbind (hres (index p 0)) (\<lambda>b.
       if b \<noteq> msgKexInit then hres (Ok p)
       else (\<lambda>t. Option.bind (enterKeyExchange env cookie2 p t) (\<lambda>(t, r). case r of
           Ok _ \<Rightarrow> Some ((endKeyExchange None t)\<lparr>ht_readSinceKex := 0\<rparr>, Ok [msgNewKeys])
         | Err e \<Rightarrow> Some (endKeyExchange (Some e) t, Err e)
         | Panic q \<Rightarrow> Some (t, Panic q)))))) t"

definition hs_readPacket :: "handshakeTransport \<Rightarrow> (handshakeTransport \<times> bytes res) option" where
  "hs_readPacket t = (case ht_incoming t of
       p # ps \<Rightarrow> Some (t\<lparr>ht_incoming := ps\<rparr>, Ok p)
     | [] \<Rightarrow> if ht_incomingClosed t then Some (t, case ht_readError t of Some e \<Rightarrow> Err e | None \<Rightarrow> Ok []) else None)"

section \<open>Writing\<close>

text \<open>
  The parts of \<open>writePacket\<close>: taking the lock, and what follows once no key exchange is under way. Where the error of an
  earlier exchange is returned the lock is not released.
\<close>

definition writeEnter :: "cryptoEnv \<Rightarrow> bytes \<Rightarrow> handshakeTransport \<Rightarrow> handshakeTransport" where
  "writeEnter env cookie t = (if overThreshold (ht_writtenSinceKex t) t then fst (sendKexInitLocked env cookie t) else t)"

definition writeFinish :: "cryptoEnv \<Rightarrow> bytes \<Rightarrow> handshakeTransport \<Rightarrow> handshakeTransport \<times> unit res" where
  "writeFinish env p t = (case ht_writeError t of
       Some e \<Rightarrow> (t\<lparr>ht_mu := True\<rparr>, Err e)
     | None \<Rightarrow>
        (let t = t\<lparr>ht_writtenSinceKex := ht_writtenSinceKex t + of_nat (length p)\<rparr> in
         if p = [] then (t\<lparr>ht_mu := True\<rparr>, Panic ''index out of range'')
         else if p ! 0 = msgKexInit then (t\<lparr>ht_mu := False\<rparr>, Err (ErrNew ''ssh: only handshakeTransport can send kexInit''))
         else if p ! 0 = msgNewKeys then (t\<lparr>ht_mu := False\<rparr>, Err (ErrNew ''ssh: only handshakeTransport can send newKeys''))
         else (case t_writePacket (he_cipher env) (ht_conn t) p of
             (conn, Panic q) \<Rightarrow> (t\<lparr>ht_conn := conn, ht_mu := True\<rparr>, Panic q)
           | (conn, r) \<Rightarrow> (t\<lparr>ht_conn := conn, ht_mu := False\<rparr>, r))))"

definition hs_Close :: "handshakeTransport \<Rightarrow> handshakeTransport" where
  "hs_Close t = t\<lparr>ht_conn := t_Close (ht_conn t)\<rparr>"

section \<open>The goroutines\<close>

text \<open>
  The reading goroutine (\<open>readLoop\<close> with \<open>readOnePacket\<close> and \<open>enterKeyExchange\<close> inlined) stops where it takes the lock and where it may
  block; a writer is idle or waits on the condition variable. The trace records what goes out, observed on the packet
  transport: a packet has gone out in a step exactly if the step has moved the sequence number of the sending direction. It holds
  the packets sent as our first packet of an exchange, those of the exchange itself, those of the writers, and
  where an exchange ends or fails.
\<close>

datatype readerAt =
    RTop | RRead | REnter bytes | RExchange kexInitMsg bytes bytes | REnd "goerr option" | RGive bytes | RFail goerr | RDone

datatype writerAt = WIdle | WWaiting bytes

datatype hsEvent = EvInit | EvKex | EvNewKeys | EvBroken | EvUser bytes

record hsSys =
  hy_t :: handshakeTransport
  hy_reader :: readerAt
  hy_writers :: "nat \<Rightarrow> writerAt"
  hy_crashed :: bool
  hy_trace :: "hsEvent list"

datatype hsAct = AReader bytes | AConsume | ARequest bytes | ACall nat bytes bytes | AWake nat

definition chanSize :: nat where
  "chanSize = 16"

abbreviation sentSeq :: "handshakeTransport \<Rightarrow> uint32" where
  "sentSeq t \<equiv> cs_seqNum (t_writer (ht_conn t))"

definition packetOut :: "hsEvent \<Rightarrow> handshakeTransport \<Rightarrow> handshakeTransport \<Rightarrow> hsEvent list" where
  "packetOut ev t t' = (if sentSeq t' \<noteq> sentSeq t then [ev] else [])"

text \<open>Where the reader goes with the result of a step: on with a value, to the end with an error, and a panic ends the program.\<close>

definition readerTo :: "hsSys \<Rightarrow> handshakeTransport \<Rightarrow> hsEvent list \<Rightarrow> ('a \<Rightarrow> readerAt) \<Rightarrow> (goerr \<Rightarrow> readerAt) \<Rightarrow> 'a res \<Rightarrow> hsSys" where
  "readerTo s t es ok fail r = (case r of
       Ok x \<Rightarrow> s\<lparr>hy_t := t, hy_reader := ok x, hy_trace := hy_trace s @ es\<rparr>
     | Err e \<Rightarrow> s\<lparr>hy_t := t, hy_reader := fail e, hy_trace := hy_trace s @ es\<rparr>
     | Panic p \<Rightarrow> s\<lparr>hy_t := t, hy_crashed := True, hy_trace := hy_trace s @ es\<rparr>)"

definition afterReceive :: "bytes \<Rightarrow> readerAt" where
  "afterReceive p = (if p ! 0 = msgKexInit then REnter p else RGive p)"

fun readerStep :: "cryptoEnv \<Rightarrow> bytes \<Rightarrow> hsSys \<Rightarrow> readerAt \<Rightarrow> hsSys option" where
  "readerStep env cookie s RTop =
     (let t = hy_t s in
      if overThreshold (ht_readSinceKex t) t then
        (if ht_mu t then None
         else case sendKexInitLocked env cookie t of (t', r) \<Rightarrow> Some (readerTo s t' (packetOut EvInit t t') (\<lambda>_. RRead) RFail r))
      else Some (s\<lparr>hy_reader := RRead\<rparr>))"
| "readerStep env cookie s RRead =
     Option.bind (receive env (hy_t s)) (\<lambda>(t, r). Some (readerTo s t [] afterReceive RFail (rbind r (\<lambda>p. rbind (index p 0) (\<lambda>_. Ok p)))))"
| "readerStep env cookie s (REnter p) =
     (let t = hy_t s in
      if ht_mu t then None
      else case sendKexInitLocked env cookie t of (t', r) \<Rightarrow>
        Some (readerTo s t' (packetOut EvInit t t') (\<lambda>(m, pk). RExchange m pk p) (\<lambda>e. REnd (Some e)) r))"
| "readerStep env cookie s (RExchange m pk p) =
     Option.bind (exchangeKeys env m pk p (hy_t s)) (\<lambda>(t, r).
       Some (readerTo s t (packetOut EvKex (hy_t s) t @ (if r = Ok () then [EvNewKeys] else [])) (\<lambda>_. REnd None) (\<lambda>e. REnd (Some e)) r))"
| "readerStep env cookie s (REnd err) =
     (if ht_mu (hy_t s) then None
      else let t = endKeyExchange err (hy_t s) in
        Some (case err of
            None \<Rightarrow> s\<lparr>hy_t := t\<lparr>ht_readSinceKex := 0\<rparr>, hy_reader := RGive [msgNewKeys]\<rparr>
          | Some e \<Rightarrow> s\<lparr>hy_t := t, hy_reader := RFail e, hy_trace := hy_trace s @ [EvBroken]\<rparr>))"
| "readerStep env cookie s (RGive p) =
     (let t = hy_t s in
      if p ! 0 = msgIgnore \<or> p ! 0 = msgDebug then Some (s\<lparr>hy_reader := RTop\<rparr>)
      else if length (ht_incoming t) < chanSize then Some (s\<lparr>hy_t := t\<lparr>ht_incoming := ht_incoming t @ [p]\<rparr>, hy_reader := RTop\<rparr>)
      else None)"
| "readerStep env cookie s (RFail e) =
     Some (s\<lparr>hy_t := (hy_t s)\<lparr>ht_readError := Some e, ht_incomingClosed := True\<rparr>, hy_reader := RDone\<rparr>)"
| "readerStep env cookie s RDone = None"

text \<open>A writer past the wait.\<close>
definition writerFinish :: "cryptoEnv \<Rightarrow> nat \<Rightarrow> bytes \<Rightarrow> hsSys \<Rightarrow> hsSys" where
  "writerFinish env i p s = (case writeFinish env p (hy_t s) of (t, r) \<Rightarrow>
     s\<lparr>hy_t := t, hy_writers := (hy_writers s)(i := WIdle), hy_crashed := panics r, hy_trace := hy_trace s @ packetOut (EvUser p) (hy_t s) t\<rparr>)"

fun hsExec :: "cryptoEnv \<Rightarrow> hsSys \<Rightarrow> hsAct \<Rightarrow> hsSys option" where
  "hsExec env s (AReader cookie) = readerStep env cookie s (hy_reader s)"
| "hsExec env s AConsume = Option.bind (hs_readPacket (hy_t s)) (\<lambda>(t, r). Some (s\<lparr>hy_t := t\<rparr>))"
| "hsExec env s (ARequest cookie) =
     (let t = hy_t s in
      if ht_mu t then None
      else case sendKexInitLocked env cookie t of (t', r) \<Rightarrow>
        Some (s\<lparr>hy_t := t', hy_crashed := panics r, hy_trace := hy_trace s @ packetOut EvInit t t'\<rparr>))"
| "hsExec env s (ACall i p cookie) =
     (let t = hy_t s; t' = writeEnter env cookie t;
          s' = s\<lparr>hy_t := t', hy_trace := hy_trace s @ packetOut EvInit t t'\<rparr>
      in if ht_mu t \<or> hy_writers s i \<noteq> WIdle then None
         else if overThreshold (ht_writtenSinceKex t) t \<and> panics (snd (sendKexInitLocked env cookie t)) then Some (s'\<lparr>hy_crashed := True\<rparr>)
         else if ht_sentInitMsg t' \<noteq> None then Some (s'\<lparr>hy_writers := (hy_writers s)(i := WWaiting p)\<rparr>)
         else Some (writerFinish env i p s'))"
| "hsExec env s (AWake i) = (case hy_writers s i of
       WWaiting p \<Rightarrow> if ht_mu (hy_t s) \<or> ht_sentInitMsg (hy_t s) \<noteq> None then None else Some (writerFinish env i p s)
     | WIdle \<Rightarrow> None)"

inductive hs_step :: "cryptoEnv \<Rightarrow> hsSys \<Rightarrow> hsSys \<Rightarrow> bool" for env where
  act: "\<not> hy_crashed s \<Longrightarrow> hsExec env s a = Some s' \<Longrightarrow> hs_step env s s'"

inductive_cases hs_stepE: "hs_step env s s'"

definition hs_start :: "handshakeTransport \<Rightarrow> hsSys" where
  "hs_start t = \<lparr>hy_t = t, hy_reader = RTop, hy_writers = (\<lambda>_. WIdle), hy_crashed = False, hy_trace = []\<rparr>"

section \<open>What the operations leave alone\<close>

text \<open>The steps of an exchange work on the connection and the random source only.\<close>

definition connOnly :: "handshakeTransport \<Rightarrow> handshakeTransport \<Rightarrow> bool" where
  "connOnly t t' \<longleftrightarrow> t' = t\<lparr>ht_conn := ht_conn t', ht_rand := ht_rand t'\<rparr>"

definition hframe :: "'a hsStep \<Rightarrow> bool" where
  "hframe m \<longleftrightarrow> (\<forall>t t' r. m t = Some (t', r) \<longrightarrow> connOnly t t')"

lemma connOnly_refl [simp]: "connOnly t t"
  by (simp add: connOnly_def)

lemma connOnly_trans: "connOnly t t' \<Longrightarrow> connOnly t' t'' \<Longrightarrow> connOnly t t''"
  by (cases t; cases t'; cases t'') (simp add: connOnly_def)

lemma hframe_hres [simp]: "hframe (hres r)"
  by (simp add: hframe_def hres_def)

lemma hframe_hkex [simp]: "hframe (hkex m)"
  by (auto simp: hframe_def hkex_def connOnly_def split: prod.splits)

lemma hframe_prepare [simp]: "hframe (hs_prepare env algs r)"
  by (auto simp: hframe_def hs_prepare_def connOnly_def bind_eq_Some_conv)

lemma hframeD: "hframe m \<Longrightarrow> m t = Some (t', r) \<Longrightarrow> connOnly t t'"
  by (simp add: hframe_def)

lemma hframe_hbind:
  assumes "hframe m" "\<And>x. hframe (f x)"
  shows "hframe (hbind m f)"
  unfolding hframe_def
proof (intro allI impI)
  fix t t' r assume b: "hbind m f t = Some (t', r)"
  then obtain t1 r1 where m: "m t = Some (t1, r1)" by (auto simp: hbind_def bind_eq_Some_conv)
  note t1 = hframeD [OF assms(1) m]
  show "connOnly t t'"
  proof (cases r1)
    case (Ok x)
    with b m have "f x t1 = Some (t', r)" by (simp add: hbind_def)
    from connOnly_trans [OF t1 hframeD [OF assms(2) this]] show ?thesis .
  qed (use b m t1 in \<open>simp_all add: hbind_def\<close>)
qed

lemma hframe_at: "(\<And>t. hframe (m t)) \<Longrightarrow> hframe (\<lambda>t. m t t)"
  by (simp add: hframe_def)

lemma hframe_exchangeKeys: "hframe (exchangeKeys env m pk p)"
proof -
  have s: "hframe (hs_server env kex algs magics)" for kex algs magics
    unfolding hs_server_def by (rule hframe_at) (intro hframe_hbind hframe_hres hframe_hkex)
  have c: "hframe (hs_client env kex magics)" for kex magics
    unfolding hs_client_def by (rule hframe_at) (intro hframe_hbind hframe_hres hframe_hkex)
  have g: "hframe (skipWrongGuess env o' algs)" for o' algs
    unfolding skipWrongGuess_def by (auto intro!: hframe_hbind)
  have k: "hframe (changeKeys env algs r)" for algs r
    unfolding changeKeys_def by (intro hframe_hbind hframe_prepare hframe_hkex hframe_hres)
  show ?thesis
    unfolding exchangeKeys_def
    by (rule hframe_at) (auto intro!: hframe_hbind s c g k simp: Let_def split: option.splits)
qed

lemma exchangeKeys_keeps:
  assumes "exchangeKeys env m pk p t = Some (t', r)"
  shows "ht_sentInitMsg t' = ht_sentInitMsg t" "ht_writeError t' = ht_writeError t" "ht_mu t' = ht_mu t"
proof -
  have "connOnly t t'" by (rule hframeD [OF hframe_exchangeKeys assms])
  then have t': "t' = t\<lparr>ht_conn := ht_conn t', ht_rand := ht_rand t'\<rparr>" by (simp add: connOnly_def)
  show "ht_sentInitMsg t' = ht_sentInitMsg t" "ht_writeError t' = ht_writeError t" "ht_mu t' = ht_mu t"
    by (subst t', simp)+
qed

lemma sendKexInitLocked_keeps:
  assumes "sendKexInitLocked env cookie t = (t', r)"
  shows "ht_writeError t' = ht_writeError t" "ht_mu t' = ht_mu t" "ht_sentInitMsg t \<noteq> None \<Longrightarrow> t' = t"
    "r = Ok x \<Longrightarrow> ht_sentInitMsg t' \<noteq> None"
  using assms by (auto simp: sendKexInitLocked_def split: option.splits res.splits prod.splits)

text \<open>When a packet goes out.\<close>

lemma t_writePacket_seq:
  assumes "t_writePacket cl c p = (c', r)"
  shows "r = Ok u \<Longrightarrow> cs_seqNum (t_writer c') = cs_seqNum (t_writer c) + 1" "r = Err e \<Longrightarrow> cs_seqNum (t_writer c') = cs_seqNum (t_writer c)"
  using assms by (auto simp: t_writePacket_def cs_writePacket_def Let_def split: prod.splits res.splits if_splits option.splits)

lemma sendKexInitLocked_seq:
  assumes "sendKexInitLocked env cookie t = (t', r)" "\<not> panics r"
  shows "sentSeq t' \<noteq> sentSeq t \<longleftrightarrow> ht_sentInitMsg t = None \<and> ht_sentInitMsg t' \<noteq> None"
  using assms t_writePacket_seq(1) [of "he_cipher env" "ht_conn t"] t_writePacket_seq(2) [of "he_cipher env" "ht_conn t"]
  by (auto simp: sendKexInitLocked_def split: option.splits res.splits prod.splits)

lemma writeFinish_seq:
  assumes "writeFinish env p t = (t', r)" "sentSeq t' \<noteq> sentSeq t"
  shows "ht_writeError t = None \<and> p \<noteq> [] \<and> p ! 0 \<noteq> msgKexInit \<and> p ! 0 \<noteq> msgNewKeys"
  using assms by (auto simp: writeFinish_def Let_def split: option.splits if_splits)

lemma writeEnter_keeps:
  shows "ht_writeError (writeEnter env cookie t) = ht_writeError t" "ht_mu (writeEnter env cookie t) = ht_mu t"
    "ht_sentInitMsg t \<noteq> None \<Longrightarrow> writeEnter env cookie t = t"
  by (cases "sendKexInitLocked env cookie t"; simp add: writeEnter_def sendKexInitLocked_keeps)+

lemma receive_keeps:
  assumes "receive env t = Some (t', r)"
  shows "ht_sentInitMsg t' = ht_sentInitMsg t" "ht_writeError t' = ht_writeError t" "ht_mu t' = ht_mu t"
  using assms by (auto simp: receive_def hbind_def hkex_def split: prod.splits res.splits)

lemma writeFinish_keeps:
  assumes "writeFinish env p t = (t', r)"
  shows "ht_sentInitMsg t' = ht_sentInitMsg t" "ht_writeError t' = ht_writeError t" "ht_mu t' \<Longrightarrow> ht_writeError t \<noteq> None \<or> panics r"
    "ht_writeError t = Some e \<Longrightarrow> ht_mu t' \<and> r = Err e"
  using assms by (auto simp: writeFinish_def Let_def split: option.splits if_splits prod.splits res.splits)

lemma readPacket_keeps:
  assumes "hs_readPacket t = Some (t', r)"
  shows "ht_sentInitMsg t' = ht_sentInitMsg t" "ht_writeError t' = ht_writeError t" "ht_mu t' = ht_mu t"
  using assms by (auto simp: hs_readPacket_def split: list.splits if_splits)

section \<open>The order of the packets\<close>

text \<open>
  RFC 4253, section 7.1: from our first packet of a key exchange to our \<^verbatim>\<open>SSH_MSG_NEWKEYS\<close> nothing else goes out, and there is no second first
  packet. As an automaton over the trace; \<open>None\<close> is a violation.
\<close>

datatype mode = MClosed | MOpen | MBroken

fun modeStep :: "mode option \<Rightarrow> hsEvent \<Rightarrow> mode option" where
  "modeStep (Some MClosed) EvInit = Some MOpen"
| "modeStep (Some MBroken) EvInit = Some MBroken"
| "modeStep (Some MOpen) EvKex = Some MOpen"
| "modeStep (Some MOpen) EvNewKeys = Some MClosed"
| "modeStep (Some MClosed) (EvUser p) = (if p \<noteq> [] \<and> p ! 0 \<noteq> msgKexInit \<and> p ! 0 \<noteq> msgNewKeys then Some MClosed else None)"
| "modeStep (Some m) EvBroken = Some MBroken"
| "modeStep _ _ = None"

definition traceMode :: "hsEvent list \<Rightarrow> mode option" where
  "traceMode es = foldl modeStep (Some MClosed) es"

lemma traceMode_append [simp]: "traceMode (es @ fs) = foldl modeStep (traceMode es) fs"
  by (simp add: traceMode_def)

fun readerOut :: "readerAt \<Rightarrow> bool" where
  "readerOut (RFail _) = True" | "readerOut RDone = True" | "readerOut _ = False"

fun exchanging :: "readerAt \<Rightarrow> bool" where
  "exchanging (RExchange _ _ _) = True" | "exchanging _ = False"

definition modeFits :: "mode \<Rightarrow> readerAt \<Rightarrow> handshakeTransport \<Rightarrow> bool" where
  "modeFits m rd t \<longleftrightarrow> (m = MBroken \<longleftrightarrow> ht_writeError t \<noteq> None) \<and> (m = MBroken \<longrightarrow> readerOut rd) \<and>
     (m \<noteq> MBroken \<longrightarrow> (if rd = REnd None then m = MClosed \<and> ht_sentInitMsg t \<noteq> None else (m = MOpen) = (ht_sentInitMsg t \<noteq> None))) \<and>
     (exchanging rd \<longrightarrow> ht_sentInitMsg t \<noteq> None)"

definition hs_inv :: "hsSys \<Rightarrow> bool" where
  "hs_inv s \<longleftrightarrow> (\<exists>m. traceMode (hy_trace s) = Some m \<and> (hy_crashed s \<or> modeFits m (hy_reader s) (hy_t s))) \<and>
     (ht_mu (hy_t s) \<longrightarrow> ht_writeError (hy_t s) \<noteq> None \<or> hy_crashed s)"

text \<open>Sending the first packet of an exchange, by whomever, follows the automaton.\<close>

lemma modeFits_send:
  assumes "sendKexInitLocked env cookie t = (t', r)" "traceMode es = Some m" "modeFits m rd t"
  shows "\<exists>m'. traceMode (es @ packetOut EvInit t t') = Some m' \<and> (panics r \<or> modeFits m' rd t')"
proof (cases "ht_sentInitMsg t")
  case None
  show ?thesis
  proof (cases "panics r")
    case True
    with assms None show ?thesis by (cases m) (auto simp: packetOut_def modeFits_def split: if_splits)
  next
    case False
    with assms None sendKexInitLocked_seq [OF assms(1) False] sendKexInitLocked_keeps(1) [OF assms(1)]
    show ?thesis by (cases m) (auto simp: packetOut_def modeFits_def split: if_splits)
  qed
next
  case (Some k)
  with sendKexInitLocked_keeps(3) [OF assms(1)] assms(2,3) show ?thesis by (auto simp: packetOut_def)
qed

lemma modeFits_user:
  assumes "traceMode es = Some m" "modeFits m rd t" "ht_sentInitMsg t = None" "writeFinish env p t = (t', r)"
  shows "\<exists>m'. traceMode (es @ packetOut (EvUser p) t t') = Some m' \<and> modeFits m' rd t'"
  using assms(1-3) writeFinish_keeps [OF assms(4)] writeFinish_seq [OF assms(4)]
  by (cases "sentSeq t' = sentSeq t"; cases m) (auto simp: packetOut_def modeFits_def split: if_splits)

lemma modeFits_move:
  "modeFits m rd t \<Longrightarrow> rd \<noteq> REnd None \<Longrightarrow> rd' \<noteq> REnd None \<Longrightarrow> (exchanging rd' \<longrightarrow> ht_sentInitMsg t \<noteq> None)
     \<Longrightarrow> (readerOut rd \<longrightarrow> readerOut rd') \<Longrightarrow> modeFits m rd' t"
  by (auto simp: modeFits_def)

text \<open>A reader step that ends in one of two places.\<close>

lemma hs_inv_readerTo:
  assumes "traceMode (hy_trace s @ es) = Some m" "panics r \<or> modeFits m (hy_reader s) t" "ht_mu t \<longrightarrow> ht_writeError t \<noteq> None" "hy_reader s \<noteq> REnd None"
    "\<And>x. r = Ok x \<Longrightarrow> ok x \<noteq> REnd None \<and> (exchanging (ok x) \<longrightarrow> ht_sentInitMsg t \<noteq> None) \<and> (readerOut (hy_reader s) \<longrightarrow> readerOut (ok x))"
    "\<And>e. fail e \<noteq> REnd None \<and> \<not> exchanging (fail e) \<and> (readerOut (hy_reader s) \<longrightarrow> readerOut (fail e))"
  shows "hs_inv (readerTo s t es ok fail r)"
proof (cases r)
  case (Ok x)
  with modeFits_move [OF _ assms(4), of m t "ok x"] assms(1,2,3,5) show ?thesis by (auto simp: readerTo_def hs_inv_def)
next
  case (Err e)
  with modeFits_move [OF _ assms(4), of m t "fail e"] assms(1,2,3,6) show ?thesis by (auto simp: readerTo_def hs_inv_def)
next
  case (Panic p)
  with assms(1-3) show ?thesis by (auto simp: readerTo_def hs_inv_def)
qed

lemma hs_invD:
  assumes "hs_inv s" "\<not> hy_crashed s"
  obtains m where "traceMode (hy_trace s) = Some m" "modeFits m (hy_reader s) (hy_t s)" "ht_mu (hy_t s) \<longrightarrow> ht_writeError (hy_t s) \<noteq> None"
  using assms by (auto simp: hs_inv_def)

lemma hs_inv_send:
  assumes "hs_inv s" "\<not> hy_crashed s" "hy_reader s \<noteq> REnd None" "\<not> readerOut (hy_reader s)" "sendKexInitLocked env cookie (hy_t s) = (t, r)"
    "\<And>x. ok x \<noteq> REnd None" "\<And>e. fail e \<noteq> REnd None \<and> \<not> exchanging (fail e)"
  shows "hs_inv (readerTo s t (packetOut EvInit (hy_t s) t) ok fail r)"
proof -
  obtain m where m: "traceMode (hy_trace s) = Some m" "modeFits m (hy_reader s) (hy_t s)"
    and mu: "ht_mu (hy_t s) \<longrightarrow> ht_writeError (hy_t s) \<noteq> None" by (rule hs_invD [OF assms(1,2)])
  note k = sendKexInitLocked_keeps [OF assms(5)]
  obtain m1 where m1: "traceMode (hy_trace s @ packetOut EvInit (hy_t s) t) = Some m1" "panics r \<or> modeFits m1 (hy_reader s) t"
    using modeFits_send [OF assms(5) m] by blast
  show ?thesis
  proof (rule hs_inv_readerTo [OF m1 _ assms(3)])
    show "ok x \<noteq> REnd None \<and> (exchanging (ok x) \<longrightarrow> ht_sentInitMsg t \<noteq> None) \<and> (readerOut (hy_reader s) \<longrightarrow> readerOut (ok x))" if "r = Ok x" for x
      using k(4) [OF that] assms(4,6) by simp
  qed (use mu k(1,2) assms(4,7) in simp_all)
qed

lemma hs_inv_receive:
  assumes "hs_inv s" "\<not> hy_crashed s" "hy_reader s = RRead" "receive env (hy_t s) = Some (t, r)"
  shows "hs_inv (readerTo s t [] afterReceive RFail q)"
proof -
  obtain m where m: "traceMode (hy_trace s) = Some m" "modeFits m (hy_reader s) (hy_t s)"
    and mu: "ht_mu (hy_t s) \<longrightarrow> ht_writeError (hy_t s) \<noteq> None" by (rule hs_invD [OF assms(1,2)])
  note k = receive_keeps [OF assms(4)]
  show ?thesis by (rule hs_inv_readerTo [of _ _ m]) (use m mu k assms(3) in \<open>auto simp: modeFits_def afterReceive_def\<close>)
qed

lemma hs_inv_exchange:
  assumes "hs_inv s" "\<not> hy_crashed s" "hy_reader s = RExchange mi pk p" "exchangeKeys env mi pk p (hy_t s) = Some (t, r)"
  shows "hs_inv (readerTo s t (packetOut EvKex (hy_t s) t @ (if r = Ok () then [EvNewKeys] else [])) (\<lambda>_. REnd None) (\<lambda>e. REnd (Some e)) r)"
proof -
  obtain m where m: "traceMode (hy_trace s) = Some m" "modeFits m (hy_reader s) (hy_t s)"
    and mu: "ht_mu (hy_t s) \<longrightarrow> ht_writeError (hy_t s) \<noteq> None" by (rule hs_invD [OF assms(1,2)])
  note k = exchangeKeys_keeps [OF assms(4)]
  have "m = MOpen" "ht_sentInitMsg t \<noteq> None" using m(2) assms(3) k by (cases m; auto simp: modeFits_def)+
  moreover from this m(1) have "traceMode (hy_trace s @ packetOut EvKex (hy_t s) t) = Some MOpen" by (simp add: packetOut_def)
  ultimately show ?thesis using m(2) mu k assms(3)
    by (cases r) (auto simp: readerTo_def hs_inv_def modeFits_def simp del: traceMode_append, simp_all)
qed

lemma hs_inv_reader:
  assumes inv: "hs_inv s" and run: "\<not> hy_crashed s" and step: "readerStep env cookie s (hy_reader s) = Some s'"
  shows "hs_inv s'"
proof -
  obtain m where m: "traceMode (hy_trace s) = Some m" "modeFits m (hy_reader s) (hy_t s)"
    and mu: "ht_mu (hy_t s) \<longrightarrow> ht_writeError (hy_t s) \<noteq> None" by (rule hs_invD [OF inv run])
  show ?thesis
  proof (cases "hy_reader s")
    case RTop
    with step m mu hs_inv_send [OF inv run, of env cookie _ _ "\<lambda>_. RRead" RFail] show ?thesis
      by (auto simp: Let_def hs_inv_def modeFits_def split: if_splits prod.splits)
  next
    case RRead
    with step hs_inv_receive [OF inv run RRead] show ?thesis by (auto simp: bind_eq_Some_conv)
  next
    case (REnter p)
    with step hs_inv_send [OF inv run, of env cookie _ _ "\<lambda>(m, pk). RExchange m pk p" "\<lambda>e. REnd (Some e)"] show ?thesis
      by (auto simp: Let_def split: if_splits prod.splits)
  next
    case (RExchange mi pk p)
    with step hs_inv_exchange [OF inv run RExchange] show ?thesis by (auto simp: bind_eq_Some_conv)
  next
    case (REnd err)
    with step m mu show ?thesis
      by (cases err) (auto simp: Let_def hs_inv_def modeFits_def endKeyExchange_def split: if_splits)
  next
    case (RGive p)
    with step m mu show ?thesis by (auto simp: Let_def hs_inv_def modeFits_def split: if_splits)
  next
    case (RFail e)
    with step m mu show ?thesis by (auto simp: hs_inv_def modeFits_def)
  next
    case RDone
    with step show ?thesis by simp
  qed
qed

lemma hs_inv_finish:
  assumes "hs_inv s" "\<not> hy_crashed s" "ht_sentInitMsg (hy_t s) = None"
  shows "hs_inv (writerFinish env i p s)"
proof -
  obtain m where m: "traceMode (hy_trace s) = Some m" "modeFits m (hy_reader s) (hy_t s)"
    and mu: "ht_mu (hy_t s) \<longrightarrow> ht_writeError (hy_t s) \<noteq> None" by (rule hs_invD [OF assms(1,2)])
  obtain t r where w: "writeFinish env p (hy_t s) = (t, r)" by (cases "writeFinish env p (hy_t s)")
  from modeFits_user [OF m assms(3) w] writeFinish_keeps [OF w] show ?thesis by (auto simp: writerFinish_def w hs_inv_def)
qed

lemma hs_inv_enter:
  assumes "hs_inv s" "\<not> hy_crashed s"
  shows "hs_inv (s\<lparr>hy_t := writeEnter env cookie (hy_t s), hy_trace := hy_trace s @ packetOut EvInit (hy_t s) (writeEnter env cookie (hy_t s)),
    hy_crashed := overThreshold (ht_writtenSinceKex (hy_t s)) (hy_t s) \<and> panics (snd (sendKexInitLocked env cookie (hy_t s)))\<rparr>)"
proof -
  obtain m where m: "traceMode (hy_trace s) = Some m" "modeFits m (hy_reader s) (hy_t s)"
    and mu: "ht_mu (hy_t s) \<longrightarrow> ht_writeError (hy_t s) \<noteq> None" by (rule hs_invD [OF assms])
  obtain t r where t: "sendKexInitLocked env cookie (hy_t s) = (t, r)" by (cases "sendKexInitLocked env cookie (hy_t s)")
  show ?thesis
    using modeFits_send [OF t m] m mu sendKexInitLocked_keeps [OF t]
    by (cases "overThreshold (ht_writtenSinceKex (hy_t s)) (hy_t s)") (auto simp: writeEnter_def t hs_inv_def packetOut_def)
qed

lemma hs_inv_writers: "hs_inv s \<Longrightarrow> hs_inv (s\<lparr>hy_writers := w\<rparr>)" "hs_inv s \<Longrightarrow> hs_inv (s\<lparr>hy_crashed := True\<rparr>)"
  by (auto simp: hs_inv_def)

lemma hs_inv_act:
  assumes inv: "hs_inv s" and run: "\<not> hy_crashed s" and act: "hsExec env s a = Some s'"
  shows "hs_inv s'"
proof (cases a)
  case (AReader cookie)
  with hs_inv_reader [OF inv run] act show ?thesis by simp
next
  case AConsume
  with act inv readPacket_keeps show ?thesis by (auto simp: bind_eq_Some_conv hs_inv_def modeFits_def)
next
  case (ARequest cookie)
  obtain m where m: "traceMode (hy_trace s) = Some m" "modeFits m (hy_reader s) (hy_t s)"
    and mu: "ht_mu (hy_t s) \<longrightarrow> ht_writeError (hy_t s) \<noteq> None" by (rule hs_invD [OF inv run])
  obtain t r where t: "sendKexInitLocked env cookie (hy_t s) = (t, r)" by (cases "sendKexInitLocked env cookie (hy_t s)")
  from act ARequest t modeFits_send [OF t m] mu sendKexInitLocked_keeps [OF t] show ?thesis
    by (auto simp: Let_def hs_inv_def split: if_splits)
next
  case (ACall i p cookie)
  let ?s = "s\<lparr>hy_t := writeEnter env cookie (hy_t s), hy_trace := hy_trace s @ packetOut EvInit (hy_t s) (writeEnter env cookie (hy_t s))\<rparr>"
  let ?X = "overThreshold (ht_writtenSinceKex (hy_t s)) (hy_t s) \<and> panics (snd (sendKexInitLocked env cookie (hy_t s)))"
  have e: "hs_inv (?s\<lparr>hy_crashed := ?X\<rparr>)" using hs_inv_enter [OF inv run, of env cookie] by simp
  have "?s\<lparr>hy_crashed := False\<rparr> = ?s" using run by (cases s) simp
  with e have ok: "\<not> ?X \<Longrightarrow> hs_inv ?s" by (simp only: HOL.simp_thms)
  have bad: "?X \<Longrightarrow> hs_inv (?s\<lparr>hy_crashed := True\<rparr>)" using e by (simp only: HOL.simp_thms)
  from act ACall have "?X \<and> s' = ?s\<lparr>hy_crashed := True\<rparr> \<or> \<not> ?X \<and> (s' = ?s\<lparr>hy_writers := (hy_writers s)(i := WWaiting p)\<rparr>
      \<or> ht_sentInitMsg (hy_t ?s) = None \<and> s' = writerFinish env i p ?s)"
    by (auto simp: Let_def split: if_splits)
  with ok bad hs_inv_writers(1) [OF ok] hs_inv_finish [OF ok] run show ?thesis by auto
next
  case (AWake i)
  with act hs_inv_finish [OF inv run] show ?thesis by (auto split: writerAt.splits if_splits)
qed

definition hs_fresh :: "hsSys \<Rightarrow> bool" where
  "hs_fresh s \<longleftrightarrow> (\<exists>t. s = hs_start t \<and> ht_sentInitMsg t = None \<and> ht_writeError t = None \<and> \<not> ht_mu t)"

interpretation hs: invariant_system hs_fresh "hs_step env" hs_inv for env
proof
  show "hs_inv s" if "hs_fresh s" for s
    using that by (auto simp: hs_fresh_def hs_start_def hs_inv_def traceMode_def modeFits_def)
  show "hs_inv s'" if "hs_step env s s'" "hs_inv s" for s s'
    using that by (auto elim!: hs_stepE intro: hs_inv_act)
qed

lemma fresh_server: "hs_fresh (hs_start (newServerTransport conn rand cv sv config keys))"
  by (auto simp: hs_fresh_def newServerTransport_def newHandshakeTransport_def)

text \<open>(C25) Packets of the application never mix with a key exchange: from the start of a server's transport, under every
  interleaving of the reading goroutine, of requests for a key change and of any number of writers, the packets that the steps
  send on the packet transport follow RFC 4253: after our first packet of an exchange comes no packet of a writer and no second first packet until the
  exchange is complete, writers never send the packets of the exchange themselves, and after a failed exchange nothing of
  theirs goes out. And unless the program has crashed the lock is free, or the transport has failed for good.\<close>

theorem key_exchange_not_interrupted:
  assumes "(hs_step env)\<^sup>*\<^sup>* (hs_start (newServerTransport conn rand cv sv config keys)) s"
  shows "traceMode (hy_trace s) \<noteq> None \<and> (\<not> hy_crashed s \<longrightarrow> ht_mu (hy_t s) \<longrightarrow> ht_writeError (hy_t s) \<noteq> None)"
  using hs.inv_reachable [OF fresh_server assms] by (auto simp: hs_inv_def)

section \<open>A failed exchange blocks the writers\<close>

lemma readerTo_t [simp]: "hy_t (readerTo s t es ok fail r) = t"
  by (simp add: readerTo_def split: res.split)

lemma lock_is_kept:
  assumes "hs_step env s s'" "ht_mu (hy_t s)"
  shows "ht_mu (hy_t s')"
  using assms(1)
proof (rule hs_stepE)
  fix a assume act: "hsExec env s a = Some s'"
  show ?thesis
  proof (cases a)
    case (AReader cookie)
    with act assms(2) show ?thesis
      by (cases "hy_reader s") (auto simp: Let_def bind_eq_Some_conv receive_keeps exchangeKeys_keeps split: if_splits option.splits)
  next
    case AConsume
    with act assms(2) show ?thesis by (auto simp: bind_eq_Some_conv readPacket_keeps)
  qed (use act assms(2) in \<open>auto simp: Let_def split: if_splits writerAt.splits\<close>)
qed

text \<open>(C28) A failed key exchange blocks the writers for good: after it, the first call of \<^verbatim>\<open>writePacket\<close> that gets to return the error of the
  exchange leaves the lock taken, and from then on, whatever happens, no call of \<^verbatim>\<open>writePacket\<close> and no request for a key change
  can go on.\<close>

theorem failed_exchange_blocks_writers:
  assumes "ht_writeError (hy_t s) = Some e" "hsExec env s (ACall i p cookie) = Some s1" "ht_sentInitMsg (hy_t s1) = None" "\<not> hy_crashed s1"
    "(hs_step env)\<^sup>*\<^sup>* s1 s2"
  shows "ht_mu (hy_t s2) \<and> hsExec env s2 (ACall j q cookie') = None \<and> hsExec env s2 (ARequest cookie') = None \<and> hsExec env s2 (AWake j) = None"
proof -
  obtain t r where w: "writeFinish env p (writeEnter env cookie (hy_t s)) = (t, r)" by (cases "writeFinish env p (writeEnter env cookie (hy_t s))")
  have "ht_mu t" using writeFinish_keeps(4) [OF w, of e] assms(1) writeEnter_keeps(1) [of env cookie "hy_t s"] by simp
  then have "ht_mu (hy_t s1)"
    using assms(2-4) w by (auto simp: Let_def writerFinish_def split: if_splits)
  with assms(5) have "ht_mu (hy_t s2)" by (induction rule: rtranclp_induct) (auto intro: lock_is_kept)
  then show ?thesis by (simp add: Let_def split: writerAt.split)
qed

definition demoCryptoEnv :: cryptoEnv where
  "demoCryptoEnv = \<lparr>he_cipher = demoLib, he_crypto = demoSums, he_sign = demoSignprims, he_kex = demoKexlib\<rparr>"

definition demoHsConfig :: Config where
  "demoHsConfig = SetDefaults [] \<lparr>cf_Rand = None, cf_RekeyThreshold = 0, cf_KeyExchanges = None, cf_Ciphers = None, cf_MACs = None\<rparr>"

text \<open>A server whose peer sends the first packet of an exchange and whose source of random bytes is exhausted.\<close>

definition demoServer :: hsSys where
  "demoServer = hs_start (newServerTransport
     (newTransport \<lparr>bi_data = [0, 0, 0, 8, 6, 20, 0, 0, 0, 0, 0, 0], bi_err = EOF\<rparr> \<lparr>bo_data = [], bo_fail = None\<rparr> \<lparr>bi_data = [], bi_err = EOF\<rparr> False)
     \<lparr>bi_data = [], bi_err = EOF\<rparr> [65] [66] demoHsConfig [demoSigner])"

lemma no_random_no_packet:
  assumes "cs_packetCipher (t_writer conn) = StreamPacketCipher s" "t_rand conn = \<lparr>bi_data = [], bi_err = e\<rparr>"
  shows "\<exists>conn' e. t_writePacket cl conn p = (conn', Err e)"
proof -
  have "0 < spc_paddingLength n" for n using padTo_bounds(1) [of "prefixLen + n"] by (simp add: spc_paddingLength_eq)
  then have "\<exists>r' e'. readFull \<lparr>bi_data = [], bi_err = e\<rparr> (spc_paddingLength n) = (r', Err e')" for n by (simp add: readFull_def)
  then obtain r' e' where "readFull \<lparr>bi_data = [], bi_err = e\<rparr> (spc_paddingLength (length p)) = (r', Err e')" by blast
  with assms show ?thesis by (auto simp: t_writePacket_def cs_writePacket_def spc_writePacket_def Let_def)
qed

lemma demo_receive:
  "\<exists>rd. t_readPacket demoLib (newTransport \<lparr>bi_data = [0, 0, 0, 8, 6, 20, 0, 0, 0, 0, 0, 0], bi_err = EOF\<rparr> w rand b) =
     ((newTransport \<lparr>bi_data = [0, 0, 0, 8, 6, 20, 0, 0, 0, 0, 0, 0], bi_err = EOF\<rparr> w rand b)\<lparr>t_reader := rd, t_bufReader := \<lparr>bi_data = [], bi_err = EOF\<rparr>\<rparr>, Ok [20])"
  by (simp add: t_readPacket_def newTransport_def cs_readPacket_def initialState_def spc_readPacket_def spc_open_def spc_macSize_def readFull_def prefixLen_def
      maxPacket_def XORKeyStream_def noneCipher_def get32_def be_val_def upt_rec_numeral isNewKeys_def Let_def)

lemma demo_kexInit: "is_ok (rbind (kexInitOf (hy_t demoServer) (replicate 16 0)) (\<lambda>msg. Marshal kexInitMsg_T (kexInitMsg_vals msg)))"
proof -
  obtain m where m: "kexInitOf (hy_t demoServer) (replicate 16 0) = Ok m" and wf: "wf_vals (st_fields kexInitMsg_T) (kexInitMsg_vals m)"
    by (simp add: kexInitOf_def demoServer_def hs_start_def newServerTransport_def newHandshakeTransport_def demoSigner_def demoHsConfig_def
        SetDefaults_def or_default_def orEmpty_def kexInitMsg_T_def kexInitMsg_vals_def wf_names_def supportedCiphers_def supportedKexAlgos_def
        supportedMACs_def supportedCompressions_def Let_def minRekeyThreshold_def bytes_of_def comma_def)
  with kexInitMsg.marshal_ok [OF wf] show ?thesis by simp
qed

lemma demo_failed_exchange:
  "\<exists>s e. (hs_step demoCryptoEnv)\<^sup>*\<^sup>* demoServer s \<and> ht_writeError (hy_t s) = Some e \<and> \<not> ht_mu (hy_t s) \<and> ht_sentInitMsg (hy_t s) = None
     \<and> \<not> overThreshold (ht_writtenSinceKex (hy_t s)) (hy_t s) \<and> \<not> hy_crashed s \<and> hy_writers s = (\<lambda>_. WIdle)"
proof -
  let ?t = "hy_t demoServer" and ?s0 = "demoServer\<lparr>hy_reader := RRead\<rparr>"
  have p: "ht_conn ?t = newTransport \<lparr>bi_data = [0, 0, 0, 8, 6, 20, 0, 0, 0, 0, 0, 0], bi_err = EOF\<rparr> \<lparr>bo_data = [], bo_fail = None\<rparr> \<lparr>bi_data = [], bi_err = EOF\<rparr> False"
    "ht_sentInitMsg ?t = None" "ht_mu ?t = False" "ht_readSinceKex ?t = 0" "ht_hostKeys ?t = [demoSigner]" "hy_reader demoServer = RTop" "\<not> hy_crashed demoServer"
    "hy_writers demoServer = (\<lambda>_. WIdle)" by (simp_all add: demoServer_def hs_start_def newServerTransport_def newHandshakeTransport_def)
  have s1: "hs_step demoCryptoEnv demoServer ?s0"
    by (rule act [of _ _ "AReader []"]) (simp_all add: p overThreshold_def Let_def)
  obtain rd where rd: "t_readPacket demoLib (ht_conn ?t) = ((ht_conn ?t)\<lparr>t_reader := rd, t_bufReader := \<lparr>bi_data = [], bi_err = EOF\<rparr>\<rparr>, Ok [20])"
    using demo_receive unfolding p(1) by blast
  define t1 where "t1 = ?t\<lparr>ht_conn := (ht_conn ?t)\<lparr>t_reader := rd, t_bufReader := \<lparr>bi_data = [], bi_err = EOF\<rparr>\<rparr>, ht_readSinceKex := 1\<rparr>"
  have "receive demoCryptoEnv ?t = Some (t1, Ok [20])"
    by (simp add: receive_def hbind_def hkex_def kRead_def demoCryptoEnv_def rd t1_def p(4))
  then have s2: "hs_step demoCryptoEnv ?s0 (demoServer\<lparr>hy_t := t1, hy_reader := REnter [20]\<rparr>)"
    by (intro act [of _ _ "AReader []"]) (simp_all add: p readerTo_def afterReceive_def index_def)
  obtain conn' e where w: "t_writePacket demoLib (ht_conn t1) pk = (conn' pk, Err (e pk))" for pk
    using no_random_no_packet [of "ht_conn t1" _ EOF demoLib] by (simp add: t1_def p newTransport_def initialState_def) metis
  have "\<exists>m pk. rbind (kexInitOf t1 (replicate 16 0)) (\<lambda>msg. rbind (Marshal kexInitMsg_T (kexInitMsg_vals msg)) (\<lambda>packet. Ok (msg, packet))) = Ok (m, pk)"
  proof -
    have "kexInitOf t1 (replicate 16 0) = kexInitOf ?t (replicate 16 0)" by (simp add: kexInitOf_def t1_def)
    with demo_kexInit show ?thesis by (auto simp: is_ok_iff)
  qed
  then obtain pk where send: "sendKexInitLocked demoCryptoEnv (replicate 16 0) t1 = (t1\<lparr>ht_conn := conn' pk\<rparr>, Err (e pk))"
    using w by (auto simp: sendKexInitLocked_def t1_def p(2) demoCryptoEnv_def)
  have seq: "cs_seqNum (t_writer (conn' pk)) = cs_seqNum (t_writer (ht_conn t1))"
    by (rule t_writePacket_seq(2) [OF w]) (rule refl)
  let ?t2 = "t1\<lparr>ht_conn := conn' pk\<rparr>"
  have s3: "hs_step demoCryptoEnv (demoServer\<lparr>hy_t := t1, hy_reader := REnter [20]\<rparr>) (demoServer\<lparr>hy_t := ?t2, hy_reader := REnd (Some (e pk))\<rparr>)"
    by (rule act [of _ _ "AReader (replicate 16 0)"]) (simp_all add: p(7) send readerTo_def packetOut_def seq, simp_all add: t1_def p)
  define s4 where "s4 = demoServer\<lparr>hy_t := endKeyExchange (Some (e pk)) ?t2, hy_reader := RFail (e pk), hy_trace := [EvBroken]\<rparr>"
  have "hs_step demoCryptoEnv (demoServer\<lparr>hy_t := ?t2, hy_reader := REnd (Some (e pk))\<rparr>) s4"
    by (rule act [of _ _ "AReader []"]) (simp_all add: p s4_def t1_def demoServer_def hs_start_def newServerTransport_def newHandshakeTransport_def Let_def)
  with s1 s2 s3 have "(hs_step demoCryptoEnv)\<^sup>*\<^sup>* demoServer s4" by (blast intro: converse_rtranclp_into_rtranclp r_into_rtranclp)
  moreover have "ht_writeError (hy_t s4) = Some (e pk) \<and> \<not> ht_mu (hy_t s4) \<and> ht_sentInitMsg (hy_t s4) = None
     \<and> \<not> overThreshold (ht_writtenSinceKex (hy_t s4)) (hy_t s4) \<and> \<not> hy_crashed s4 \<and> hy_writers s4 = (\<lambda>_. WIdle)"
    by (simp add: s4_def endKeyExchange_def overThreshold_def t1_def p)
  ultimately show ?thesis by blast
qed

theorem failed_exchange_blocks_writers_witness:
  "\<exists>s s1 e. (hs_step demoCryptoEnv)\<^sup>*\<^sup>* demoServer s \<and> hsExec demoCryptoEnv s (ACall 0 [5] []) = Some s1 \<and> ht_writeError (hy_t s) = Some e
     \<and> ht_mu (hy_t s1) \<and> hsExec demoCryptoEnv s1 (ACall 1 [6] []) = None"
proof -
  obtain s e where s: "(hs_step demoCryptoEnv)\<^sup>*\<^sup>* demoServer s" "ht_writeError (hy_t s) = Some e" "\<not> ht_mu (hy_t s)" "ht_sentInitMsg (hy_t s) = None"
    "\<not> overThreshold (ht_writtenSinceKex (hy_t s)) (hy_t s)" "\<not> hy_crashed s" "hy_writers s = (\<lambda>_. WIdle)" using demo_failed_exchange by blast
  then have call: "hsExec demoCryptoEnv s (ACall 0 [5] []) = Some (writerFinish demoCryptoEnv 0 [5] s)"
    by (simp add: Let_def writeEnter_def packetOut_def writerFinish_def)
  have after: "ht_sentInitMsg (hy_t (writerFinish demoCryptoEnv 0 [5] s)) = None" "\<not> hy_crashed (writerFinish demoCryptoEnv 0 [5] s)"
    using s by (simp_all add: writerFinish_def writeFinish_def)
  from failed_exchange_blocks_writers [OF s(2) call after rtranclp.rtrancl_refl] call s(1,2) show ?thesis by blast
qed

theorem key_exchange_not_interrupted_witness:
  "\<exists>s. (hs_step demoCryptoEnv)\<^sup>*\<^sup>* demoServer s \<and> traceMode (hy_trace s) \<noteq> None \<and> ht_writeError (hy_t s) \<noteq> None"
proof -
  obtain s e where s: "(hs_step demoCryptoEnv)\<^sup>*\<^sup>* demoServer s" "ht_writeError (hy_t s) = Some e" using demo_failed_exchange by blast
  from key_exchange_not_interrupted [OF s(1) [unfolded demoServer_def]] s show ?thesis by (auto simp: demoServer_def)
qed

end
