(* ===== verification/Server_Conn.thy ===== *)
theory Server_Conn
  imports Handshake
begin

text \<open>
  Setting up a connection on the server (\<^verbatim>\<open>NewServerConn\<close> and \<^verbatim>\<open>serverHandshake\<close> of \<^verbatim>\<open>server.go\<close>): the version lines, the first key
  exchange, the request for the authentication service, and authentication. The server sees the handshake transport
  through the interface \<^verbatim>\<open>rekeyingTransport\<close>: the packets that arrive, the outcome of a request for a key change, and the
  session identifier, for which the transport panics before the first key change.
\<close>

record rekeyingTransport =
  rk_io :: pktIO
  rk_requestKeyChange :: "unit res"
  rk_getSessionID :: "bytes res"

text \<open>The state of a connection that is being set up.\<close>

record 's serverSetup =
  ss_in :: byteIn
  ss_out :: byteOut
  ss_meta :: connMeta
  ss_transport :: rekeyingTransport
  ss_app :: 's

definition serverVersionLine :: "'s ServerConfig \<Rightarrow> bytes" where
  "serverVersionLine config = bytes_of (if sc_ServerVersion config \<noteq> [] then sc_ServerVersion config else packageVersion)"

text \<open>The request for the service that must precede authentication, and its answer.\<close>

definition acceptService :: "pktIO \<Rightarrow> pktIO \<times> unit res" where
  "acceptService io = (case readPkt io of
       (io, Err e) \<Rightarrow> (io, Err e)
     | (io, Panic p) \<Rightarrow> (io, Panic p)
     | (io, Ok packet) \<Rightarrow>
        (case rbind (Unmarshal packet serviceRequestMsg_T) serviceRequestMsg_of of
           Err e \<Rightarrow> (io, Err e)
         | Panic p \<Rightarrow> (io, Panic p)
         | Ok req \<Rightarrow>
            if serviceRequestMsg_Service req \<noteq> serviceUserAuth
            then (io, Err (ErrNew (''ssh: requested service '' @ [CHR 0x27] @ serviceRequestMsg_Service req @ [CHR 0x27] @ '' before authenticating'')))
            else writeMsg io (Marshal serviceAcceptMsg_T (serviceAcceptMsg_vals \<lparr>serviceAcceptMsg_Service = serviceUserAuth\<rparr>))))"

text \<open>The packet with which the transport reports the end of the first key exchange.\<close>

definition awaitNewKeys :: "pktIO \<Rightarrow> pktIO \<times> unit res" where
  "awaitNewKeys io = (case readPkt io of
       (io, Err e) \<Rightarrow> (io, Err e)
     | (io, Panic p) \<Rightarrow> (io, Panic p)
     | (io, Ok packet) \<Rightarrow> (io, rbind (index packet 0) (\<lambda>b. if b \<noteq> msgNewKeys then Err (unexpectedMessageError msgNewKeys b) else Ok ())))"

definition afterKeys :: "crypto \<Rightarrow> netlib \<Rightarrow> 's ServerConfig \<Rightarrow> 's serverSetup \<Rightarrow> 's serverSetup \<times> Permissions option res" where
  "afterKeys cr nl config s = (case awaitNewKeys (rk_io (ss_transport s)) of
       (io, Err e) \<Rightarrow> (s\<lparr>ss_transport := (ss_transport s)\<lparr>rk_io := io\<rparr>\<rparr>, Err e)
     | (io, Panic p) \<Rightarrow> (s\<lparr>ss_transport := (ss_transport s)\<lparr>rk_io := io\<rparr>\<rparr>, Panic p)
     | (io, Ok _) \<Rightarrow>
        (case rk_getSessionID (ss_transport s) of
           Err e \<Rightarrow> (s\<lparr>ss_transport := (ss_transport s)\<lparr>rk_io := io\<rparr>\<rparr>, Err e)
         | Panic p \<Rightarrow> (s\<lparr>ss_transport := (ss_transport s)\<lparr>rk_io := io\<rparr>\<rparr>, Panic p)
         | Ok sessionID \<Rightarrow>
            (let s = s\<lparr>ss_meta := (ss_meta s)\<lparr>cm_SessionID := sessionID\<rparr>\<rparr> in
             case acceptService io of
               (io, Err e) \<Rightarrow> (s\<lparr>ss_transport := (ss_transport s)\<lparr>rk_io := io\<rparr>\<rparr>, Err e)
             | (io, Panic p) \<Rightarrow> (s\<lparr>ss_transport := (ss_transport s)\<lparr>rk_io := io\<rparr>\<rparr>, Panic p)
             | (io, Ok _) \<Rightarrow>
                (case serverAuthenticate cr nl config (ss_meta s) (ss_app s) io of (st, r) \<Rightarrow>
                  (s\<lparr>ss_app := au_app st, ss_meta := (ss_meta s)\<lparr>cm_User := au_user st\<rparr>,
                     ss_transport := (ss_transport s)\<lparr>rk_io := au_io st\<rparr>\<rparr>, r)))))"

definition serverHandshake :: "crypto \<Rightarrow> netlib \<Rightarrow> 's ServerConfig \<Rightarrow> 's serverSetup \<Rightarrow> 's serverSetup \<times> Permissions option res" where
  "serverHandshake cr nl config s =
     (if sc_hostKeys config = [] then (s, Err (ErrNew ''ssh: server has no host keys''))
      else let s = s\<lparr>ss_meta := (ss_meta s)\<lparr>cm_ServerVersion := serverVersionLine config\<rparr>\<rparr> in
        case exchangeVersions (ss_in s) (ss_out s) (cm_ServerVersion (ss_meta s)) of
          (r, w, Err e) \<Rightarrow> (s\<lparr>ss_in := r, ss_out := w\<rparr>, Err e)
        | (r, w, Panic p) \<Rightarrow> (s\<lparr>ss_in := r, ss_out := w\<rparr>, Panic p)
        | (r, w, Ok clientVersion) \<Rightarrow>
           (let s = s\<lparr>ss_in := r, ss_out := w, ss_meta := (ss_meta s)\<lparr>cm_ClientVersion := clientVersion\<rparr>\<rparr> in
            case rk_requestKeyChange (ss_transport s) of
              Err e \<Rightarrow> (s, Err e)
            | Panic p \<Rightarrow> (s, Panic p)
            | Ok _ \<Rightarrow> afterKeys cr nl config s))"

text \<open>\<open>fullConf\<close> is a copy of the configuration; on an error the network connection is closed.\<close>

definition fullConf :: "bytes \<Rightarrow> 's ServerConfig \<Rightarrow> 's ServerConfig" where
  "fullConf rand config = config\<lparr>sc_Config := SetDefaults rand (sc_Config config)\<rparr>"

definition NewServerConn :: "crypto \<Rightarrow> netlib \<Rightarrow> bytes \<Rightarrow> 's ServerConfig \<Rightarrow> 's serverSetup \<Rightarrow> 's serverSetup \<times> bool \<times> Permissions option res" where
  "NewServerConn cr nl rand config s = (case serverHandshake cr nl (fullConf rand config) s of
       (s, Err e) \<Rightarrow> (s, True, Err e)
     | (s, r) \<Rightarrow> (s, False, r))"

section \<open>Only accepted clients get a connection\<close>

lemma readPkt_Ok: "readPkt io = (io', Ok p) \<Longrightarrow> io_in io = p # io_in io'"
  by (auto simp: readPkt_def split: list.splits)

lemma awaitNewKeys_Ok:
  assumes "awaitNewKeys io = (io', Ok u)"
  shows "\<exists>p. io_in io = p # io_in io' \<and> p \<noteq> [] \<and> p ! 0 = msgNewKeys"
proof -
  obtain io1 q where r: "readPkt io = (io1, q)" by (cases "readPkt io")
  with assms obtain p where q: "q = Ok p" by (cases q) (simp_all add: awaitNewKeys_def)
  with assms r readPkt_Ok [OF r [unfolded q]] show ?thesis by (auto simp: awaitNewKeys_def index_def split: if_splits)
qed

lemma acceptService_Ok:
  assumes "acceptService io = (io', Ok u)"
  shows "\<exists>p req. io_in io = p # io_in io' \<and> rbind (Unmarshal p serviceRequestMsg_T) serviceRequestMsg_of = Ok req \<and> serviceRequestMsg_Service req = serviceUserAuth"
proof -
  obtain io1 q where r: "readPkt io = (io1, q)" by (cases "readPkt io")
  with assms obtain p where q: "q = Ok p" by (cases q) (simp_all add: acceptService_def)
  obtain d where d: "rbind (Unmarshal p serviceRequestMsg_T) serviceRequestMsg_of = d" by blast
  with assms r q obtain req where req: "d = Ok req" by (cases d) (simp_all add: acceptService_def)
  from assms have "serviceRequestMsg_Service req = serviceUserAuth" "io_in io' = io_in io1"
    by (auto simp: acceptService_def r q d req dest: writeMsg_in split: if_splits)
  with readPkt_Ok [OF r [unfolded q]] d req show ?thesis by auto
qed

lemma afterKeys_Ok:
  assumes "afterKeys cr nl config s = (s', Ok perms)"
  obtains sid p1 p2 rest req packet areq where "rk_getSessionID (ss_transport s) = Ok sid" "cm_SessionID (ss_meta s') = sid"
    "io_in (rk_io (ss_transport s)) = p1 # p2 # rest" "p1 \<noteq> []" "p1 ! 0 = msgNewKeys"
    "rbind (Unmarshal p2 serviceRequestMsg_T) serviceRequestMsg_of = Ok req" "serviceRequestMsg_Service req = serviceUserAuth"
    "packet \<in> set rest" "rbind (Unmarshal packet userAuthRequestMsg_T) userAuthRequestMsg_of = Ok areq"
    "acceptedBy cr nl config ((ss_meta s)\<lparr>cm_SessionID := sid\<rparr>) areq perms"
proof -
  obtain io1 q1 where 1: "awaitNewKeys (rk_io (ss_transport s)) = (io1, q1)" by (cases "awaitNewKeys (rk_io (ss_transport s))")
  with assms obtain u1 where q1: "q1 = Ok u1" by (cases q1) (simp_all add: afterKeys_def)
  from assms 1 q1 obtain sid where sid: "rk_getSessionID (ss_transport s) = Ok sid" by (cases "rk_getSessionID (ss_transport s)") (simp_all add: afterKeys_def)
  obtain io2 q2 where 2: "acceptService io1 = (io2, q2)" by (cases "acceptService io1")
  with assms 1 q1 sid obtain u2 where q2: "q2 = Ok u2" by (cases q2) (simp_all add: afterKeys_def Let_def)
  let ?m = "(ss_meta s)\<lparr>cm_SessionID := sid\<rparr>"
  obtain st r where 3: "serverAuthenticate cr nl config ?m (ss_app s) io2 = (st, r)" by (cases "serverAuthenticate cr nl config ?m (ss_app s) io2")
  with assms 1 q1 sid 2 q2 have r: "r = Ok perms" and sid': "cm_SessionID (ss_meta s') = sid" by (auto simp: afterKeys_def Let_def)
  from awaitNewKeys_Ok [OF 1 [unfolded q1]] acceptService_Ok [OF 2 [unfolded q2]] serverAuthenticate_accepted [OF 3 [unfolded r]] sid sid'
  show thesis by (auto intro: that)
qed

text \<open>(C26) Setting up a connection succeeds only for an accepted client: when \<^verbatim>\<open>NewServerConn\<close> gives a connection, the server has host
  keys, the transport completed a key exchange before anything else (its first packet is the one for new keys), the
  client then asked for the authentication service, and later sent a request for the connection service that a
  configured method accepts, with signatures checked against the session identifier of that very key exchange; on any
  error the network connection is closed.\<close>

theorem server_connection_sound:
  assumes "NewServerConn cr nl rand config s = (s', closed, r)"
  shows "(\<forall>e. r = Err e \<longrightarrow> closed) \<and>
    (\<forall>perms. r = Ok perms \<longrightarrow> \<not> closed \<and> sc_hostKeys config \<noteq> [] \<and>
      (\<exists>sid p1 p2 rest req packet areq conn. rk_getSessionID (ss_transport s) = Ok sid \<and> cm_SessionID (ss_meta s') = sid \<and>
         io_in (rk_io (ss_transport s)) = p1 # p2 # rest \<and> p1 \<noteq> [] \<and> p1 ! 0 = msgNewKeys \<and>
         rbind (Unmarshal p2 serviceRequestMsg_T) serviceRequestMsg_of = Ok req \<and> serviceRequestMsg_Service req = serviceUserAuth \<and>
         packet \<in> set rest \<and> rbind (Unmarshal packet userAuthRequestMsg_T) userAuthRequestMsg_of = Ok areq \<and>
         cm_SessionID conn = sid \<and> acceptedBy cr nl (fullConf rand config) conn areq perms))"
proof (intro conjI allI impI)
  show "closed" if "r = Err e" for e using assms that by (auto simp: NewServerConn_def split: prod.splits res.splits)
next
  fix perms assume r: "r = Ok perms"
  with assms have nc: "\<not> closed" and h: "serverHandshake cr nl (fullConf rand config) s = (s', Ok perms)"
    by (auto simp: NewServerConn_def split: prod.splits res.splits)
  show "\<not> closed" by (rule nc)
  from h show "sc_hostKeys config \<noteq> []" by (auto simp: serverHandshake_def fullConf_def split: if_splits)
  from h obtain s0 where s0: "afterKeys cr nl (fullConf rand config) s0 = (s', Ok perms)" "ss_transport s0 = ss_transport s"
    by (auto simp: serverHandshake_def Let_def split: if_splits prod.splits res.splits)
  show "\<exists>sid p1 p2 rest req packet areq conn. rk_getSessionID (ss_transport s) = Ok sid \<and> cm_SessionID (ss_meta s') = sid \<and>
         io_in (rk_io (ss_transport s)) = p1 # p2 # rest \<and> p1 \<noteq> [] \<and> p1 ! 0 = msgNewKeys \<and>
         rbind (Unmarshal p2 serviceRequestMsg_T) serviceRequestMsg_of = Ok req \<and> serviceRequestMsg_Service req = serviceUserAuth \<and>
         packet \<in> set rest \<and> rbind (Unmarshal packet userAuthRequestMsg_T) userAuthRequestMsg_of = Ok areq \<and>
         cm_SessionID conn = sid \<and> acceptedBy cr nl (fullConf rand config) conn areq perms"
  proof (rule afterKeys_Ok [OF s0(1)], goal_cases)
    case (1 sid p1 p2 rest req packet areq)
    with s0(2) show ?case
      by (intro exI [of _ sid] exI [of _ p1] exI [of _ p2] exI [of _ rest] exI [of _ req] exI [of _ packet] exI [of _ areq]
          exI [of _ "(ss_meta s0)\<lparr>cm_SessionID := sid\<rparr>"]) simp
  qed
qed

definition demoOpenConfig :: "nat ServerConfig" where
  "demoOpenConfig = demoConfig\<lparr>sc_hostKeys := [demoSigner], sc_NoClientAuth := True\<rparr>"

definition demoSetup :: "nat serverSetup" where
  "demoSetup = \<lparr>ss_in = \<lparr>bi_data = [83, 83, 72, 13, 10], bi_err = EOF\<rparr>, ss_out = \<lparr>bo_data = [], bo_fail = None\<rparr>,
     ss_meta = \<lparr>cm_User = [], cm_SessionID = [], cm_ClientVersion = [], cm_ServerVersion = [], cm_RemoteAddr = NoAddr\<rparr>,
     ss_transport = \<lparr>rk_io = \<lparr>io_in = [[21], 5 # encString (bytes_of ''ssh-userauth''),
         50 # encString (bytes_of ''bob'') @ encString (bytes_of ''ssh-connection'') @ encString (bytes_of ''none'')],
         io_rerr = EOF, io_out = [], io_wres = []\<rparr>, rk_requestKeyChange = Ok (), rk_getSessionID = Ok [1, 2]\<rparr>, ss_app = 0\<rparr>"

lemma none_authenticates:
  assumes "rbind (Unmarshal p userAuthRequestMsg_T) userAuthRequestMsg_of = Ok req" "userAuthRequestMsg_Service req = serviceSSH" "userAuthRequestMsg_Method req = ''none''"
    "sc_NoClientAuth config" "sc_AuthLogCallback config = None" "io_in io = [p]" "io_wres io = []"
  shows "\<exists>st. serverAuthenticate cr nl config conn app io = (st, Ok None)"
proof -
  let ?st = "\<lparr>au_app = app, au_io = io, au_cache = [], au_user = cm_User conn\<rparr>"
  have "\<exists>st. authStep cr nl config conn ?st = (st, ADone None) \<and> io_wres (au_io st) = []"
    using assms(2-) by (simp add: authStep_def readPkt_def Let_def assms(1) handleAuthRequest_def authMethod_def noneMethod_def authTail_def)
  then show ?thesis
    by (auto simp: serverAuthenticate_def authLoop.simps [of cr nl config conn ?st] writePkt_def)
qed

lemma demo_connects: "is_ok (snd (snd (NewServerConn demoCrypto demoNet [] demoOpenConfig demoSetup)))"
proof -
  let ?p = "50 # encString (bytes_of ''bob'') @ encString (bytes_of ''ssh-connection'') @ encString (bytes_of ''none'')"
  have v: "snd (snd (exchangeVersions (ss_in demoSetup) (ss_out demoSetup) (bytes_of packageVersion))) = Ok [83, 83, 72]" by code_simp
  have u: "rbind (Unmarshal ?p userAuthRequestMsg_T) userAuthRequestMsg_of
      = Ok \<lparr>userAuthRequestMsg_User = ''bob'', userAuthRequestMsg_Service = ''ssh-connection'', userAuthRequestMsg_Method = ''none'', userAuthRequestMsg_Payload = []\<rparr>"
    by code_simp
  have io: "acceptService (fst (awaitNewKeys (rk_io (ss_transport demoSetup))))
      = (\<lparr>io_in = [?p], io_rerr = EOF, io_out = [6 # encString (bytes_of ''ssh-userauth'')], io_wres = []\<rparr>, Ok ())"
    "snd (awaitNewKeys (rk_io (ss_transport demoSetup))) = Ok ()" by code_simp+
  have a: "\<exists>st. serverAuthenticate demoCrypto demoNet (fullConf [] demoOpenConfig) conn n
      \<lparr>io_in = [?p], io_rerr = EOF, io_out = [6 # encString (bytes_of ''ssh-userauth'')], io_wres = []\<rparr> = (st, Ok None)" for conn n
    by (rule none_authenticates [OF u]) (simp_all add: fullConf_def demoOpenConfig_def demoConfig_def)
  obtain io1 where io1: "awaitNewKeys (rk_io (ss_transport demoSetup)) = (io1, Ok ())" using io(2) by (cases "awaitNewKeys (rk_io (ss_transport demoSetup))") simp
  obtain r w where vv: "exchangeVersions (ss_in demoSetup) (ss_out demoSetup) (bytes_of packageVersion) = (r, w, Ok [83, 83, 72])"
    using v by (metis prod.collapse)
  have "sc_hostKeys (fullConf [] demoOpenConfig) \<noteq> []" "serverVersionLine (fullConf [] demoOpenConfig) = bytes_of packageVersion"
    "rk_requestKeyChange (ss_transport demoSetup) = Ok ()" "rk_getSessionID (ss_transport demoSetup) = Ok [1, 2]"
    by (simp_all add: fullConf_def demoOpenConfig_def serverVersionLine_def demoConfig_def demoSetup_def)
  moreover obtain st where "serverAuthenticate demoCrypto demoNet (fullConf [] demoOpenConfig) ((ss_meta demoSetup)\<lparr>cm_ServerVersion := bytes_of packageVersion, cm_ClientVersion := [83, 83, 72], cm_SessionID := [1, 2]\<rparr>) (ss_app demoSetup)
      \<lparr>io_in = [?p], io_rerr = EOF, io_out = [6 # encString (bytes_of ''ssh-userauth'')], io_wres = []\<rparr> = (st, Ok None)"
    using a by blast
  ultimately show ?thesis using io(1) io1 vv by (simp add: NewServerConn_def serverHandshake_def afterKeys_def Let_def)
qed

theorem server_connection_sound_witness:
  "\<exists>s' perms conn areq. NewServerConn demoCrypto demoNet [] demoOpenConfig demoSetup = (s', False, Ok perms) \<and> cm_SessionID (ss_meta s') = [1, 2] \<and>
     cm_SessionID conn = [1, 2] \<and> acceptedBy demoCrypto demoNet (fullConf [] demoOpenConfig) conn areq perms"
proof -
  obtain s' closed r where n: "NewServerConn demoCrypto demoNet [] demoOpenConfig demoSetup = (s', closed, r)"
    by (cases "NewServerConn demoCrypto demoNet [] demoOpenConfig demoSetup")
  with demo_connects obtain perms where r: "r = Ok perms" by (auto simp: is_ok_iff)
  have "rk_getSessionID (ss_transport demoSetup) = Ok [1, 2]" by (simp add: demoSetup_def)
  with server_connection_sound [OF n] n r show ?thesis by fastforce
qed

end
