(* ===== verification/Client_Auth.thy ===== *)
theory Client_Auth
  imports Server_Conn
begin

text \<open>
  Authentication on the client (\<^verbatim>\<open>client_auth.go\<close>) and setting up a connection (\<^verbatim>\<open>clientHandshake\<close> and \<^verbatim>\<open>NewClientConn\<close> of
  \<^verbatim>\<open>client.go\<close>). The client uses the same transport record as the server, so that the two can be run against each other:
  what one sends is what the other reads. The callbacks of the client may change the state of the application, of type \<open>'s\<close>.
\<close>

section \<open>Messages of the client\<close>

definition passwordAuthMsg_T :: structType where
  "passwordAuthMsg_T = \<lparr>st_name = ''passwordAuthMsg'', st_tag = ''50'', st_fields =
      [(''User'', KString), (''Service'', KString), (''Method'', KString), (''Reply'', KBool), (''Password'', KString)]\<rparr>"

record publickeyAuthMsg =
  publickeyAuthMsg_User :: string
  publickeyAuthMsg_Service :: string
  publickeyAuthMsg_Method :: string
  publickeyAuthMsg_HasSig :: bool
  publickeyAuthMsg_Algoname :: string
  publickeyAuthMsg_PubKey :: bytes
  publickeyAuthMsg_Sig :: bytes

definition publickeyAuthMsg_T :: structType where
  "publickeyAuthMsg_T = \<lparr>st_name = ''publickeyAuthMsg'', st_tag = ''50'', st_fields =
      [(''User'', KString), (''Service'', KString), (''Method'', KString), (''HasSig'', KBool), (''Algoname'', KString),
       (''PubKey'', KBytes), (''Sig'', KRest)]\<rparr>"

definition publickeyAuthMsg_vals :: "publickeyAuthMsg \<Rightarrow> fval list" where
  "publickeyAuthMsg_vals m =
     [VString (publickeyAuthMsg_User m), VString (publickeyAuthMsg_Service m), VString (publickeyAuthMsg_Method m),
      VBool (publickeyAuthMsg_HasSig m), VString (publickeyAuthMsg_Algoname m), VBytes (publickeyAuthMsg_PubKey m),
      VBytes (publickeyAuthMsg_Sig m)]"

definition initiateMsg_T :: structType where
  "initiateMsg_T = \<lparr>st_name = ''initiateMsg'', st_tag = ''50'', st_fields =
      [(''User'', KString), (''Service'', KString), (''Method'', KString), (''Language'', KString), (''Submethods'', KString)]\<rparr>"

section \<open>Methods and answers\<close>

text \<open>
  The implementations of the interface \<^verbatim>\<open>AuthMethod\<close>. What \<^verbatim>\<open>auth\<close> returns besides an error is whether it succeeded and the
  methods that may continue, where \<open>None\<close> is the nil slice.
\<close>

datatype 's AuthMethod =
    NoneAuth
  | PasswordCallback "'s \<Rightarrow> 's \<times> string res"
  | PublicKeysCallback "'s \<Rightarrow> 's \<times> Signer list res"
  | KeyboardInteractive "'s \<Rightarrow> string \<Rightarrow> string \<Rightarrow> string list \<Rightarrow> bool list \<Rightarrow> 's \<times> string list res"

type_synonym authAnswer = "bool \<times> string list option"

primrec methodOf :: "'s AuthMethod \<Rightarrow> string" where
  "methodOf NoneAuth = ''none''"
| "methodOf (PasswordCallback cb) = ''password''"
| "methodOf (PublicKeysCallback cb) = ''publickey''"
| "methodOf (KeyboardInteractive cb) = ''keyboard-interactive''"

definition Password :: "string \<Rightarrow> 's AuthMethod" where
  "Password secret = PasswordCallback (\<lambda>s. (s, Ok secret))"

definition PublicKeys :: "Signer list \<Rightarrow> 's AuthMethod" where
  "PublicKeys signers = PublicKeysCallback (\<lambda>s. (s, Ok signers))"

text \<open>Reading a packet and looking at its first byte, which panics on an empty packet.\<close>

definition readTyped :: "pktIO \<Rightarrow> pktIO \<times> (byte \<times> bytes) res" where
  "readTyped io = (case readPkt io of (io, r) \<Rightarrow> (io, rbind r (\<lambda>packet. rbind (index packet 0) (\<lambda>t. Ok (t, packet)))))"

lemma readTyped_less: "readTyped io = (io', Ok x) \<Longrightarrow> length (io_in io') < length (io_in io)"
  by (auto simp: readTyped_def readPkt_def split: list.splits)

definition parseFailure :: "bytes \<Rightarrow> authAnswer res" where
  "parseFailure packet = rbind (rbind (Unmarshal packet userAuthFailureMsg_T) userAuthFailureMsg_of) (\<lambda>msg.
     Ok (False, Some (userAuthFailureMsg_Methods msg)))"

text \<open>Banners are skipped; every round of the loop takes a packet.\<close>

function handleAuthResponse :: "pktIO \<Rightarrow> pktIO \<times> authAnswer res" where
  "handleAuthResponse io = (case readTyped io of
       (io, Err e) \<Rightarrow> (io, Err e)
     | (io, Panic p) \<Rightarrow> (io, Panic p)
     | (io, Ok (t, packet)) \<Rightarrow>
         if t = msgUserAuthBanner then handleAuthResponse io
         else if t = msgUserAuthFailure then (io, parseFailure packet)
         else if t = msgUserAuthSuccess then (io, Ok (True, None))
         else if t = msgDisconnect then (io, Err EOF)
         else (io, Err (unexpectedMessageError msgUserAuthSuccess t)))"
  by pat_completeness auto
termination
  by (relation "measure (\<lambda>io. length (io_in io))") (auto dest: readTyped_less [OF sym])

declare handleAuthResponse.simps [simp del]

text \<open>Statements that use the transport, and calls of a callback.\<close>

type_synonym ('s, 'a) clientStep = "('s \<times> pktIO, 'a) goStep"

definition onIO :: "(pktIO \<Rightarrow> pktIO \<times> 'a res) \<Rightarrow> ('s, 'a) clientStep" where
  "onIO f = (\<lambda>(s, io). case f io of (io, r) \<Rightarrow> ((s, io), r))"

definition callback :: "('s \<Rightarrow> 's \<times> 'a res) \<Rightarrow> ('s, 'a) clientStep" where
  "callback f = (\<lambda>(s, io). case f s of (s, r) \<Rightarrow> ((s, io), r))"

definition sendMsg :: "bytes res \<Rightarrow> ('s, unit) clientStep" where
  "sendMsg m = onIO (\<lambda>io. writeMsg io m)"

section \<open>No authentication, and passwords\<close>

definition noneRequest :: "string \<Rightarrow> bytes res" where
  "noneRequest user = Marshal userAuthRequestMsg_T (userAuthRequestMsg_vals
     \<lparr>userAuthRequestMsg_User = user, userAuthRequestMsg_Service = serviceSSH, userAuthRequestMsg_Method = ''none'', userAuthRequestMsg_Payload = []\<rparr>)"

definition noneAuth_auth :: "string \<Rightarrow> ('s, authAnswer) clientStep" where
  "noneAuth_auth user = sbind (sendMsg (noneRequest user)) (\<lambda>_. onIO handleAuthResponse)"

definition passwordRequest :: "string \<Rightarrow> string \<Rightarrow> bytes res" where
  "passwordRequest user pw = Marshal passwordAuthMsg_T [VString user, VString serviceSSH, VString ''password'', VBool False, VString pw]"

definition passwordCallback_auth :: "('s \<Rightarrow> 's \<times> string res) \<Rightarrow> string \<Rightarrow> ('s, authAnswer) clientStep" where
  "passwordCallback_auth cb user =
     sbind (callback cb) (\<lambda>pw. sbind (sendMsg (passwordRequest user pw)) (\<lambda>_. onIO handleAuthResponse))"

section \<open>Public keys\<close>

function confirmAck :: "string \<Rightarrow> bytes \<Rightarrow> pktIO \<Rightarrow> pktIO \<times> bool res" where
  "confirmAck algoname pubKey io = (case readTyped io of
       (io, Err e) \<Rightarrow> (io, Err e)
     | (io, Panic p) \<Rightarrow> (io, Panic p)
     | (io, Ok (t, packet)) \<Rightarrow>
         if t = msgUserAuthBanner then confirmAck algoname pubKey io
         else if t = msgUserAuthPubKeyOk
         then (io, rbind (rbind (Unmarshal packet userAuthPubKeyOkMsg_T) userAuthPubKeyOkMsg_of) (\<lambda>msg.
             Ok (userAuthPubKeyOkMsg_Algo msg = algoname \<and> userAuthPubKeyOkMsg_PubKey msg = pubKey)))
         else if t = msgUserAuthFailure then (io, Ok False)
         else (io, Err (unexpectedMessageError msgUserAuthSuccess t)))"
  by pat_completeness auto
termination
  by (relation "measure (\<lambda>(_, _, io). length (io_in io))") (auto dest: readTyped_less [OF sym])

declare confirmAck.simps [simp del]

definition confirmKeyAck :: "PublicKey \<Rightarrow> ('s, bool) clientStep" where
  "confirmKeyAck key = sbind (sres (keyMarshal key)) (\<lambda>pubKey. sbind (sres (keyType key)) (\<lambda>algoname. onIO (confirmAck algoname pubKey)))"

definition keyQuery :: "PublicKey \<Rightarrow> string \<Rightarrow> bytes res" where
  "keyQuery key user = rbind (keyMarshal key) (\<lambda>pubKey. rbind (keyType key) (\<lambda>algoname.
     Marshal publickeyAuthMsg_T (publickeyAuthMsg_vals
       \<lparr>publickeyAuthMsg_User = user, publickeyAuthMsg_Service = serviceSSH, publickeyAuthMsg_Method = ''publickey'',
        publickeyAuthMsg_HasSig = False, publickeyAuthMsg_Algoname = algoname, publickeyAuthMsg_PubKey = pubKey, publickeyAuthMsg_Sig = []\<rparr>)))"

definition validateKey :: "PublicKey \<Rightarrow> string \<Rightarrow> ('s, bool) clientStep" where
  "validateKey key user = sbind (sendMsg (keyQuery key user)) (\<lambda>_. confirmKeyAck key)"

text \<open>The signers whose key the server accepts, in order; an error stops the enquiry.\<close>

fun validSigners :: "string \<Rightarrow> Signer list \<Rightarrow> ('s, Signer list) clientStep" where
  "validSigners user [] = sres (Ok [])"
| "validSigners user (signer # signers) =
     sbind (validateKey (signerPublicKey signer) user) (\<lambda>ok.
     sbind (validSigners user signers) (\<lambda>valid. sres (Ok (if ok then signer # valid else valid))))"

text \<open>The serialized signature is wrapped in a string.\<close>

definition wrapSignature :: "Signature \<Rightarrow> bytes res" where
  "wrapSignature sign = rbind (Marshal Signature_T (Signature_vals sign)) (\<lambda>s.
     rbind (marshalString (replicate (stringLength (length s)) 0) s) (\<lambda>(w, rest). Ok (w @ rest)))"

definition signedRequest :: "crypto \<Rightarrow> signprims \<Rightarrow> bytes \<Rightarrow> bytes \<Rightarrow> string \<Rightarrow> Signer \<Rightarrow> bytes res" where
  "signedRequest cr sp rand session user signer =
     rbind (keyMarshal (signerPublicKey signer)) (\<lambda>pubKey.
     rbind (keyType (signerPublicKey signer)) (\<lambda>algoname.
     rbind (buildDataSignedForAuth session
         \<lparr>userAuthRequestMsg_User = user, userAuthRequestMsg_Service = serviceSSH, userAuthRequestMsg_Method = ''publickey'', userAuthRequestMsg_Payload = []\<rparr>
         (bytes_of algoname) pubKey) (\<lambda>data.
     rbind (Sign cr sp signer rand data) (\<lambda>sign.
     rbind (wrapSignature sign) (\<lambda>sig.
     Marshal publickeyAuthMsg_T (publickeyAuthMsg_vals
       \<lparr>publickeyAuthMsg_User = user, publickeyAuthMsg_Service = serviceSSH, publickeyAuthMsg_Method = ''publickey'',
        publickeyAuthMsg_HasSig = True, publickeyAuthMsg_Algoname = algoname, publickeyAuthMsg_PubKey = pubKey, publickeyAuthMsg_Sig = sig\<rparr>))))))"

text \<open>\<open>rand i\<close> is what the random source gives for the \<open>i\<close>-th signature.\<close>

fun trySigners :: "crypto \<Rightarrow> signprims \<Rightarrow> (nat \<Rightarrow> bytes) \<Rightarrow> bytes \<Rightarrow> string \<Rightarrow> nat \<Rightarrow> string list option \<Rightarrow> Signer list
    \<Rightarrow> ('s, authAnswer) clientStep" where
  "trySigners cr sp rand session user i methods [] = sres (Ok (False, methods))"
| "trySigners cr sp rand session user i methods (signer # signers) =
     sbind (sendMsg (signedRequest cr sp (rand i) session user signer)) (\<lambda>_.
     sbind (onIO handleAuthResponse) (\<lambda>(success, methods).
       if success then sres (Ok (success, methods))
       else trySigners cr sp rand session user (Suc i) methods signers))"

definition publicKeyCallback_auth :: "crypto \<Rightarrow> signprims \<Rightarrow> (nat \<Rightarrow> bytes) \<Rightarrow> ('s \<Rightarrow> 's \<times> Signer list res) \<Rightarrow> bytes \<Rightarrow> string
    \<Rightarrow> ('s, authAnswer) clientStep" where
  "publicKeyCallback_auth cr sp rand cb session user =
     sbind (callback cb) (\<lambda>signers. sbind (validSigners user signers) (trySigners cr sp rand session user 0 None))"

section \<open>Questions and answers\<close>

fun parsePrompts :: "nat \<Rightarrow> bytes \<Rightarrow> (string list \<times> bool list \<times> bytes) res" where
  "parsePrompts 0 rest = Ok ([], [], rest)"
| "parsePrompts (Suc n) rest =
     rbind (or_err (parseString rest) (ErrNew ''ssh: prompt format error'')) (\<lambda>(prompt, r).
       if r = [] then Err (ErrNew ''ssh: prompt format error'')
       else rbind (parsePrompts n (tl r)) (\<lambda>(prompts, echos, rest). Ok (str_of prompt # prompts, (hd r \<noteq> 0) # echos, rest)))"

definition readQuestions :: "userAuthInfoRequestMsg \<Rightarrow> (string list \<times> bool list) res" where
  "readQuestions msg = rbind (parsePrompts (unat (userAuthInfoRequestMsg_NumPrompts msg)) (userAuthInfoRequestMsg_Prompts msg))
     (\<lambda>(prompts, echos, rest).
       if length rest \<noteq> 0 then Err (ErrNew ''ssh: extra data following keyboard-interactive pairs'') else Ok (prompts, echos))"

text \<open>The answers are written one after the other into a slice that is long enough for them.\<close>

fun marshalAnswers :: "bytes \<Rightarrow> string list \<Rightarrow> (bytes \<times> bytes) res" where
  "marshalAnswers p [] = Ok ([], p)"
| "marshalAnswers p (a # as) = rbind (marshalString p (bytes_of a)) (\<lambda>(w, p). rbind (marshalAnswers p as) (\<lambda>(w', p). Ok (w @ w', p)))"

definition serializeAnswers :: "string list \<Rightarrow> bytes res" where
  "serializeAnswers answers =
     (let responseLength = 1 + 4 + sum_list (map (\<lambda>a. stringLength (length a)) answers);
          p = drop 1 (replicate responseLength 0)
      in rbind (marshalUint32 p (of_nat (length answers))) (\<lambda>(w, p).
         rbind (marshalAnswers p answers) (\<lambda>(w', p). Ok (msgUserAuthInfoResponse # w @ w' @ p))))"

type_synonym 's challengeCallback = "'s \<Rightarrow> string \<Rightarrow> string \<Rightarrow> string list \<Rightarrow> bool list \<Rightarrow> 's \<times> string list res"

definition answerQuestions :: "'s challengeCallback \<Rightarrow> bytes \<Rightarrow> 's \<Rightarrow> 's \<times> bytes res" where
  "answerQuestions cb packet =
     sbind (sres (rbind (Unmarshal packet userAuthInfoRequestMsg_T) userAuthInfoRequestMsg_of)) (\<lambda>msg.
     sbind (sres (readQuestions msg)) (\<lambda>(prompts, echos).
     sbind (\<lambda>s. cb s (userAuthInfoRequestMsg_User msg) (userAuthInfoRequestMsg_Instruction msg) prompts echos) (\<lambda>answers.
     sres (if length answers \<noteq> length prompts then Err (ErrNew ''ssh: not enough answers from keyboard-interactive callback'')
           else serializeAnswers answers))))"

function interactiveLoop :: "'s challengeCallback \<Rightarrow> 's \<Rightarrow> pktIO \<Rightarrow> ('s \<times> pktIO) \<times> authAnswer res" where
  "interactiveLoop cb s io = (case readTyped io of
       (io, Err e) \<Rightarrow> ((s, io), Err e)
     | (io, Panic p) \<Rightarrow> ((s, io), Panic p)
     | (io, Ok (t, packet)) \<Rightarrow>
         if t = msgUserAuthBanner then interactiveLoop cb s io
         else if t = msgUserAuthInfoRequest
         then (case answerQuestions cb packet s of
             (s, Err e) \<Rightarrow> ((s, io), Err e)
           | (s, Panic p) \<Rightarrow> ((s, io), Panic p)
           | (s, Ok serialized) \<Rightarrow> (case writePkt io serialized of
               (io, Err e) \<Rightarrow> ((s, io), Err e)
             | (io, Panic p) \<Rightarrow> ((s, io), Panic p)
             | (io, Ok _) \<Rightarrow> interactiveLoop cb s io))
         else if t = msgUserAuthFailure then ((s, io), parseFailure packet)
         else if t = msgUserAuthSuccess then ((s, io), Ok (True, None))
         else ((s, io), Err (unexpectedMessageError msgUserAuthInfoRequest t)))"
  by pat_completeness auto
termination
proof (relation "measure (\<lambda>(_, _, io). length (io_in io))", goal_cases)
  case (3 cb s io io1 x t packet s1 serialized)
  then show ?case by (auto simp: writePkt_def dest!: readTyped_less [OF sym] split: list.splits option.splits)
qed (auto dest: readTyped_less [OF sym])

declare interactiveLoop.simps [simp del]

definition interactive_auth :: "'s challengeCallback \<Rightarrow> string \<Rightarrow> ('s, authAnswer) clientStep" where
  "interactive_auth cb user =
     sbind (sendMsg (Marshal initiateMsg_T [VString user, VString serviceSSH, VString ''keyboard-interactive'', VString '''', VString '''']))
       (\<lambda>_ (s, io). interactiveLoop cb s io)"

section \<open>The loop over the methods\<close>

record 's ClientConfig =
  cc_Config :: Config
  cc_User :: string
  cc_Auth :: "'s AuthMethod list"
  cc_HostKeyCallback :: "(string \<Rightarrow> netAddr \<Rightarrow> PublicKey \<Rightarrow> goerr option) option"
  cc_ClientVersion :: string

text \<open>The libraries that signing uses, and the random source.\<close>

record signEnv =
  se_crypto :: crypto
  se_prims :: signprims
  se_rand :: "nat \<Rightarrow> bytes"

fun auth :: "signEnv \<Rightarrow> bytes \<Rightarrow> string \<Rightarrow> 's AuthMethod \<Rightarrow> ('s, authAnswer) clientStep" where
  "auth env session user NoneAuth = noneAuth_auth user"
| "auth env session user (PasswordCallback cb) = passwordCallback_auth cb user"
| "auth env session user (PublicKeysCallback cb) = publicKeyCallback_auth (se_crypto env) (se_prims env) (se_rand env) cb session user"
| "auth env session user (KeyboardInteractive cb) = interactive_auth cb user"

definition findNext :: "'s AuthMethod list \<Rightarrow> string list \<Rightarrow> string list \<Rightarrow> 's AuthMethod option" where
  "findNext auths tried methods = find (\<lambda>a. methodOf a \<notin> set tried \<and> methodOf a \<in> set methods) auths"

text \<open>The names tried, in the order in which they were tried; the source prints the keys of a map.\<close>

definition noMethodsRemain :: "string list \<Rightarrow> goerr" where
  "noMethodsRemain tried = Errorf ''ssh: unable to authenticate, attempted methods %v, no supported methods remain'' (map AStr tried)"

lemma findNext_Some:
  "findNext auths tried methods = Some a \<Longrightarrow> a \<in> set auths \<and> methodOf a \<notin> set tried \<and> methodOf a \<in> set methods"
  by (auto simp: findNext_def find_Some_iff)

lemma length_filter_less_filter:
  assumes "\<And>x. P x \<Longrightarrow> Q x" "b \<in> set xs" "Q b" "\<not> P b"
  shows "length (filter P xs) < length (filter Q xs)"
proof -
  have "filter P xs = filter P (filter Q xs)" using assms(1) by (auto simp: filter_filter intro!: filter_cong)
  moreover have "length (filter P (filter Q xs)) < length (filter Q xs)" using assms(2-) by (intro length_filter_less [of b]) auto
  ultimately show ?thesis by simp
qed

text \<open>
  One round runs a method; the next one is the first method of the configuration that was not tried and that the server
  offers. Each round removes a method from those that can still be tried.
\<close>

function clientLoop :: "signEnv \<Rightarrow> bytes \<Rightarrow> 's ClientConfig \<Rightarrow> string list \<Rightarrow> string list option \<Rightarrow> 's AuthMethod
    \<Rightarrow> ('s, unit) clientStep" where
  "clientLoop env session config tried lastMethods a s = (case auth env session (cc_User config) a s of
       (s, Err e) \<Rightarrow> (s, Err e)
     | (s, Panic p) \<Rightarrow> (s, Panic p)
     | (s, Ok (ok, methods)) \<Rightarrow>
         if ok then (s, Ok ())
         else (let tried = (if methodOf a \<in> set tried then tried else tried @ [methodOf a]);
                   methods = (case methods of None \<Rightarrow> lastMethods | Some ms \<Rightarrow> Some ms)
               in case findNext (cc_Auth config) tried (orEmpty methods) of
                    None \<Rightarrow> (s, Err (noMethodsRemain tried))
                  | Some a \<Rightarrow> clientLoop env session config tried methods a s))"
  by pat_completeness auto
termination
proof (relation "measure (\<lambda>(_, _, config, tried, _, a, _). length (filter (\<lambda>b. methodOf b \<notin> insert (methodOf a) (set tried)) (cc_Auth config)))", goal_cases)
  case (2 env session config tried lastMethods a s x s1 z ok methods tried1 methods1 b)
  then have b: "b \<in> set (cc_Auth config)" "methodOf b \<notin> insert (methodOf a) (set tried)" and t: "set tried1 = insert (methodOf a) (set tried)"
    by (auto dest!: findNext_Some split: if_splits)
  have "length (filter (\<lambda>c. methodOf c \<notin> insert (methodOf b) (set tried1)) (cc_Auth config))
     < length (filter (\<lambda>c. methodOf c \<notin> insert (methodOf a) (set tried)) (cc_Auth config))"
    unfolding t by (rule length_filter_less_filter [OF _ b(1)]) (use b in auto)
  then show ?case by simp
qed simp

declare clientLoop.simps [simp del]

definition startUserAuth :: "pktIO \<Rightarrow> pktIO \<times> unit res" where
  "startUserAuth io = (case writeMsg io (Marshal serviceRequestMsg_T (serviceRequestMsg_vals \<lparr>serviceRequestMsg_Service = serviceUserAuth\<rparr>)) of
       (io, Err e) \<Rightarrow> (io, Err e)
     | (io, Panic p) \<Rightarrow> (io, Panic p)
     | (io, Ok _) \<Rightarrow> (case readPkt io of
           (io, r) \<Rightarrow> (io, rbind r (\<lambda>packet. rbind (rbind (Unmarshal packet serviceAcceptMsg_T) serviceAcceptMsg_of) (\<lambda>_. Ok ())))))"

definition clientAuthenticate :: "signEnv \<Rightarrow> bytes \<Rightarrow> 's ClientConfig \<Rightarrow> ('s, unit) clientStep" where
  "clientAuthenticate env session config = sbind (onIO startUserAuth) (\<lambda>_. clientLoop env session config [] None NoneAuth)"

section \<open>Setting up a connection\<close>

record 's clientSetup =
  ct_in :: byteIn
  ct_out :: byteOut
  ct_clientVersion :: bytes
  ct_serverVersion :: bytes
  ct_sessionID :: bytes
  ct_transport :: rekeyingTransport
  ct_app :: 's

definition clientVersionLine :: "'s ClientConfig \<Rightarrow> bytes" where
  "clientVersionLine config = bytes_of (if cc_ClientVersion config \<noteq> [] then cc_ClientVersion config else packageVersion)"

definition clientAfterKeys :: "signEnv \<Rightarrow> 's ClientConfig \<Rightarrow> ('s clientSetup, unit) goStep" where
  "clientAfterKeys env config s = (case awaitNewKeys (rk_io (ct_transport s)) of
       (io, Err e) \<Rightarrow> (s\<lparr>ct_transport := (ct_transport s)\<lparr>rk_io := io\<rparr>\<rparr>, Err e)
     | (io, Panic p) \<Rightarrow> (s\<lparr>ct_transport := (ct_transport s)\<lparr>rk_io := io\<rparr>\<rparr>, Panic p)
     | (io, Ok _) \<Rightarrow>
        (case rk_getSessionID (ct_transport s) of
           Err e \<Rightarrow> (s\<lparr>ct_transport := (ct_transport s)\<lparr>rk_io := io\<rparr>\<rparr>, Err e)
         | Panic p \<Rightarrow> (s\<lparr>ct_transport := (ct_transport s)\<lparr>rk_io := io\<rparr>\<rparr>, Panic p)
         | Ok sessionID \<Rightarrow>
            (case clientAuthenticate env sessionID config (ct_app s, io) of ((app, io), r) \<Rightarrow>
               (s\<lparr>ct_sessionID := sessionID, ct_app := app, ct_transport := (ct_transport s)\<lparr>rk_io := io\<rparr>\<rparr>, r))))"

definition clientHandshake :: "signEnv \<Rightarrow> 's ClientConfig \<Rightarrow> ('s clientSetup, unit) goStep" where
  "clientHandshake env config s =
     (let s = s\<lparr>ct_clientVersion := clientVersionLine config\<rparr> in
      case exchangeVersions (ct_in s) (ct_out s) (ct_clientVersion s) of
        (r, w, Err e) \<Rightarrow> (s\<lparr>ct_in := r, ct_out := w\<rparr>, Err e)
      | (r, w, Panic p) \<Rightarrow> (s\<lparr>ct_in := r, ct_out := w\<rparr>, Panic p)
      | (r, w, Ok serverVersion) \<Rightarrow>
         (let s = s\<lparr>ct_in := r, ct_out := w, ct_serverVersion := serverVersion\<rparr> in
          case rk_requestKeyChange (ct_transport s) of
            Err e \<Rightarrow> (s, Err e)
          | Panic p \<Rightarrow> (s, Panic p)
          | Ok _ \<Rightarrow> clientAfterKeys env config s))"

text \<open>The flag says whether the network connection was closed.\<close>

definition NewClientConn :: "signEnv \<Rightarrow> bytes \<Rightarrow> 's ClientConfig \<Rightarrow> 's clientSetup \<Rightarrow> 's clientSetup \<times> bool \<times> unit res" where
  "NewClientConn env rand config s =
     (case clientHandshake env (config\<lparr>cc_Config := SetDefaults rand (cc_Config config)\<rparr>) s of
        (s, Err e) \<Rightarrow> (s, True, Err (WrapErr ''ssh: handshake failed: %v'' (Some e)))
      | (s, r) \<Rightarrow> (s, False, r))"

section \<open>What the client sends\<close>

text \<open>Every request of the client has the form of the general request message.\<close>

definition requestOf :: "string \<Rightarrow> string \<Rightarrow> bytes \<Rightarrow> userAuthRequestMsg" where
  "requestOf user m payload = \<lparr>userAuthRequestMsg_User = user, userAuthRequestMsg_Service = serviceSSH,
     userAuthRequestMsg_Method = m, userAuthRequestMsg_Payload = payload\<rparr>"

definition reqBytes :: "string \<Rightarrow> string \<Rightarrow> bytes \<Rightarrow> bytes" where
  "reqBytes user m payload = encStruct userAuthRequestMsg_T (userAuthRequestMsg_vals (requestOf user m payload))"

lemma reqBytes_eq: "reqBytes user m payload = msgUserAuthRequest # encString (bytes_of user) @ encString (bytes_of serviceSSH) @ encString (bytes_of m) @ payload"
  by (simp add: reqBytes_def requestOf_def encStruct_def userAuthRequestMsg_T_def userAuthRequestMsg_vals_def typeTag_def Atoi_def)

lemma unmarshal_reqBytes:
  "length (reqBytes user m payload) < 2 ^ 32 \<Longrightarrow> rbind (Unmarshal (reqBytes user m payload) userAuthRequestMsg_T) userAuthRequestMsg_of = Ok (requestOf user m payload)"
  unfolding reqBytes_def
  by (rule userAuthRequestMsg.unmarshal_enc) (simp_all add: userAuthRequestMsg_T_def userAuthRequestMsg_vals_def encStruct_def typeTag_def Atoi_def)

lemma noneRequest_eq: "noneRequest user = Ok (reqBytes user ''none'' [])"
  unfolding noneRequest_def reqBytes_def requestOf_def [symmetric]
  by (rule userAuthRequestMsg.marshal_ok) (simp add: userAuthRequestMsg_T_def userAuthRequestMsg_vals_def)

lemma passwordRequest_eq: "passwordRequest user pw = Ok (reqBytes user ''password'' (0 # encString (bytes_of pw)))"
  unfolding passwordRequest_def reqBytes_eq
  by (subst Marshal_enc) (simp_all add: passwordAuthMsg_T_def encStruct_def typeTag_def Atoi_def)

definition initiateBytes :: "string \<Rightarrow> bytes" where
  "initiateBytes user = reqBytes user ''keyboard-interactive'' (encString [] @ encString [])"

lemma initiateMsg_eq:
  "Marshal initiateMsg_T [VString user, VString serviceSSH, VString ''keyboard-interactive'', VString '''', VString ''''] = Ok (initiateBytes user)"
  unfolding initiateBytes_def reqBytes_eq
  by (subst Marshal_enc) (simp_all add: initiateMsg_T_def encStruct_def typeTag_def Atoi_def)

definition keyPayload :: "bool \<Rightarrow> string \<Rightarrow> bytes \<Rightarrow> bytes \<Rightarrow> bytes" where
  "keyPayload hasSig algo key sig = (if hasSig then 1 else 0) # encString (bytes_of algo) @ encString key @ sig"

lemma publickeyAuthMsg_eq:
  "Marshal publickeyAuthMsg_T (publickeyAuthMsg_vals
       \<lparr>publickeyAuthMsg_User = user, publickeyAuthMsg_Service = serviceSSH, publickeyAuthMsg_Method = m,
        publickeyAuthMsg_HasSig = b, publickeyAuthMsg_Algoname = algo, publickeyAuthMsg_PubKey = key, publickeyAuthMsg_Sig = sig\<rparr>)
    = Ok (reqBytes user m (keyPayload b algo key sig))"
  unfolding reqBytes_eq keyPayload_def
  by (subst Marshal_enc) (simp_all add: publickeyAuthMsg_T_def publickeyAuthMsg_vals_def encStruct_def typeTag_def Atoi_def)

lemma keyQuery_eq: "keyMarshal key = Ok d \<Longrightarrow> keyType key = Ok t \<Longrightarrow> keyQuery key user = Ok (reqBytes user ''publickey'' (keyPayload False t d []))"
  by (simp add: keyQuery_def publickeyAuthMsg_eq)

lemma marshalString_fits: "length to = 4 + length s + k \<Longrightarrow> marshalString to s = Ok (encString s, drop (4 + length s) to)"
  by (simp add: marshalString_def encString_def)

lemma wrapSignature_eq: "wrapSignature sig = Ok (encString (encSig sig))"
  by (simp add: wrapSignature_def Signature_fields(1) stringLength_def marshalString_fits [where k = 0])

lemma signedRequest_eq:
  assumes "keyMarshal (signerPublicKey k) = Ok d" "keyType (signerPublicKey k) = Ok t"
    and "buildDataSignedForAuth session (requestOf user ''publickey'' []) (bytes_of t) d = Ok data" "Sign cr sp k rand data = Ok sig"
  shows "signedRequest cr sp rand session user k = Ok (reqBytes user ''publickey'' (keyPayload True t d (encString (encSig sig))))"
  using assms by (simp add: signedRequest_def publickeyAuthMsg_eq wrapSignature_eq requestOf_def)

lemma marshalAnswers_eq:
  "length p = sum_list (map (\<lambda>a. stringLength (length a)) as) \<Longrightarrow> marshalAnswers p as = Ok (encList as, [])"
proof (induction as arbitrary: p)
  case (Cons a as)
  then have "marshalString p (bytes_of a) = Ok (encString (bytes_of a), drop (4 + length a) p)"
    using marshalString_fits [of p "bytes_of a" "sum_list (map (\<lambda>a. stringLength (length a)) as)"] by (simp add: stringLength_def)
  moreover have "marshalAnswers (drop (4 + length a) p) as = Ok (encList as, [])"
    using Cons by (intro Cons.IH) (simp add: stringLength_def)
  ultimately show ?case by simp
qed simp

lemma serializeAnswers_eq: "serializeAnswers as = Ok (encAnswers as)"
  by (simp add: serializeAnswers_def Let_def marshalUint32_def marshalAnswers_eq encAnswers_def)

lemma readTyped_Cons: "io_in io = p # rest \<Longrightarrow> p \<noteq> [] \<Longrightarrow> readTyped io = (io\<lparr>io_in := rest\<rparr>, Ok (hd p, p))"
  by (simp add: readTyped_def readPkt_def hd_conv_nth)

lemma handleAuthResponse_success: "io_in io = [msgUserAuthSuccess] # rest \<Longrightarrow> handleAuthResponse io = (io\<lparr>io_in := rest\<rparr>, Ok (True, None))"
  by (subst handleAuthResponse.simps) (simp add: readTyped_Cons)

lemma sendMsg_Ok: "io_wres io = [] \<Longrightarrow> m = Ok p \<Longrightarrow> sendMsg m (s, io) = ((s, io\<lparr>io_out := io_out io @ [p]\<rparr>), Ok ())"
  by (simp add: sendMsg_def onIO_def writeMsg_def writePkt_def)

definition fresh :: "bytes list \<Rightarrow> bytes list \<Rightarrow> pktIO" where
  "fresh inp out = \<lparr>io_in = inp, io_rerr = EOF, io_out = out, io_wres = []\<rparr>"

definition serviceRequestBytes :: bytes where
  "serviceRequestBytes = 5 # encString (bytes_of ''ssh-userauth'')"

definition serviceAcceptBytes :: bytes where
  "serviceAcceptBytes = 6 # encString (bytes_of ''ssh-userauth'')"

lemma service_messages:
  "rbind (Unmarshal serviceRequestBytes serviceRequestMsg_T) serviceRequestMsg_of = Ok \<lparr>serviceRequestMsg_Service = serviceUserAuth\<rparr>"
  "Marshal serviceAcceptMsg_T (serviceAcceptMsg_vals \<lparr>serviceAcceptMsg_Service = serviceUserAuth\<rparr>) = Ok serviceAcceptBytes"
  "Marshal serviceRequestMsg_T (serviceRequestMsg_vals \<lparr>serviceRequestMsg_Service = serviceUserAuth\<rparr>) = Ok serviceRequestBytes"
  "rbind (Unmarshal serviceAcceptBytes serviceAcceptMsg_T) serviceAcceptMsg_of = Ok \<lparr>serviceAcceptMsg_Service = serviceUserAuth\<rparr>"
  by code_simp+

lemma service_exchange:
  "acceptService (fresh (serviceRequestBytes # inp) out) = (fresh inp (out @ [serviceAcceptBytes]), Ok ())"
  "startUserAuth (fresh (serviceAcceptBytes # inp) out) = (fresh inp (out @ [serviceRequestBytes]), Ok ())"
  by (simp_all add: acceptService_def startUserAuth_def readPkt_def fresh_def service_messages writeMsg_def writePkt_def del: rbind_eq_Ok)

section \<open>What the client discloses\<close>

text \<open>
  A step takes packets from the front of what arrives and appends packets that satisfy \<open>P\<close>; its result satisfies \<open>Q\<close>, which
  may refer to the packets that arrived.
\<close>

definition exchange :: "(bytes \<Rightarrow> bool) \<Rightarrow> pktIO \<Rightarrow> pktIO \<Rightarrow> bool" where
  "exchange P io io' \<longleftrightarrow> (\<exists>sent. io_out io' = io_out io @ sent \<and> (\<forall>p\<in>set sent. P p)) \<and> suffix (io_in io') (io_in io)"

definition contract :: "(bytes \<Rightarrow> bool) \<Rightarrow> ('s, 'a) clientStep \<Rightarrow> (bytes set \<Rightarrow> 'a \<Rightarrow> bool) \<Rightarrow> bool" where
  "contract P m Q \<longleftrightarrow> (\<forall>s io s' io' r. m (s, io) = ((s', io'), r) \<longrightarrow> exchange P io io' \<and> (\<forall>x. r = Ok x \<longrightarrow> Q (set (io_in io)) x))"

lemma exchange_refl [simp]: "exchange P io io"
  by (simp add: exchange_def)

lemma exchange_trans [trans]: "exchange P io io' \<Longrightarrow> exchange P io' io'' \<Longrightarrow> exchange P io io''"
  by (auto simp: exchange_def intro: suffix_order.trans)

lemma exchange_mono: "exchange P io io' \<Longrightarrow> (\<And>p. P p \<Longrightarrow> P' p) \<Longrightarrow> exchange P' io io'"
  by (auto simp: exchange_def)

lemma contractI: "(\<And>s io s' io' r. m (s, io) = ((s', io'), r) \<Longrightarrow> exchange P io io' \<and> (\<forall>x. r = Ok x \<longrightarrow> Q (set (io_in io)) x)) \<Longrightarrow> contract P m Q"
  by (simp add: contract_def)

lemma contractD:
  "contract P m Q \<Longrightarrow> m (s, io) = ((s', io'), r) \<Longrightarrow> exchange P io io'"
  "contract P m Q \<Longrightarrow> m (s, io) = ((s', io'), Ok x) \<Longrightarrow> Q (set (io_in io)) x"
  by (auto simp: contract_def)

lemma contract_sbind:
  assumes "contract P m Q" "\<And>x. contract P (f x) (R x)" "\<And>A B x y. Q A x \<Longrightarrow> R x B y \<Longrightarrow> B \<subseteq> A \<Longrightarrow> Q' A y"
  shows "contract P (sbind m f) Q'"
proof (rule contractI, goal_cases)
  case (1 s io s' io' r)
  then show ?case
  proof (cases rule: sbind_cases)
    case (ok s1 x)
    obtain s2 io1 where s1: "s1 = (s2, io1)" by (cases s1)
    have e: "exchange P io io1" and q: "Q (set (io_in io)) x" using contractD [OF assms(1)] ok(1) by (auto simp: s1)
    then have "set (io_in io1) \<subseteq> set (io_in io)" by (auto simp: exchange_def dest: set_mono_suffix)
    moreover have "exchange P io1 io'" "r = Ok y \<Longrightarrow> R x (set (io_in io1)) y" for y
      using contractD [OF assms(2) [of x]] ok(2) by (auto simp: s1)
    ultimately show ?thesis using exchange_trans [OF e] assms(3) [OF q] by blast
  qed (use contractD(1) [OF assms(1)] in auto)
qed

lemma contract_sres: "(\<And>A x. r = Ok x \<Longrightarrow> Q A x) \<Longrightarrow> contract P (sres r) Q"
  by (auto simp: contract_def sres_def)

lemma contract_callback: "contract P (callback f) (\<lambda>_ _. True)"
  by (auto simp: contract_def callback_def split: prod.splits)

lemma contract_sendMsg: "(\<And>p. m = Ok p \<Longrightarrow> P p) \<Longrightarrow> contract P (sendMsg m) (\<lambda>_ _. True)"
  by (auto simp: contract_def sendMsg_def onIO_def writeMsg_def writePkt_def exchange_def split: prod.splits res.splits list.splits option.splits)

text \<open>What the answers of a method say about the packets that arrived.\<close>

definition told :: "bytes set \<Rightarrow> string list \<Rightarrow> bool" where
  "told A ms \<longleftrightarrow> (\<exists>p\<in>A. parseFailure p = Ok (False, Some ms))"

definition succeeded :: "bytes set \<Rightarrow> bool" where
  "succeeded A \<longleftrightarrow> (\<exists>p\<in>A. p \<noteq> [] \<and> hd p = msgUserAuthSuccess)"

definition answered_by :: "bytes set \<Rightarrow> authAnswer \<Rightarrow> bool" where
  "answered_by A x \<longleftrightarrow> (fst x \<longrightarrow> succeeded A) \<and> (\<forall>ms. snd x = Some ms \<longrightarrow> told A ms)"

lemma answered_by_mono: "answered_by A x \<Longrightarrow> A \<subseteq> B \<Longrightarrow> answered_by B x"
  unfolding answered_by_def told_def succeeded_def by blast

lemma readTyped_Ok:
  assumes "readTyped io = (io', Ok (t, p))"
  shows "io_in io = p # io_in io'" "p \<noteq> []" "hd p = t" "io_out io' = io_out io"
  using assms by (auto simp: readTyped_def readPkt_def hd_conv_nth split: list.splits)

lemma readTyped_io: "readTyped io = (io', r) \<Longrightarrow> exchange P io io'"
  by (auto simp: readTyped_def readPkt_def exchange_def suffix_ConsI split: list.splits)

lemma parseFailure_answered: "p \<in> A \<Longrightarrow> parseFailure p = Ok x \<Longrightarrow> answered_by A x"
proof -
  assume p: "p \<in> A" "parseFailure p = Ok x"
  then obtain ms where "x = (False, Some ms)" by (auto simp: parseFailure_def)
  with p show ?thesis unfolding answered_by_def told_def by auto
qed

lemma exchange_step:
  assumes "exchange P io io1" "exchange P io1 io' \<and> (\<forall>x. r = Ok x \<longrightarrow> answered_by (set (io_in io1)) x)"
  shows "exchange P io io' \<and> (\<forall>x. r = Ok x \<longrightarrow> answered_by (set (io_in io)) x)"
proof -
  have "set (io_in io1) \<subseteq> set (io_in io)" using assms(1) by (auto simp: exchange_def dest: set_mono_suffix)
  with assms exchange_trans [OF assms(1)] answered_by_mono show ?thesis by blast
qed

lemma handleAuthResponse_contract: "contract P (onIO handleAuthResponse) answered_by"
proof -
  have "handleAuthResponse io = (io', r) \<Longrightarrow> exchange P io io' \<and> (\<forall>x. r = Ok x \<longrightarrow> answered_by (set (io_in io)) x)" for io io' r
  proof (induction io arbitrary: io' r rule: handleAuthResponse.induct)
    case (1 io)
    obtain io1 r1 where t: "readTyped io = (io1, r1)" by (cases "readTyped io")
    note e = readTyped_io [OF t, of P]
    show ?case
    proof (cases r1)
      case (Ok x)
      obtain ty p where x: "x = (ty, p)" by (cases x)
      note rt = readTyped_Ok [OF t [unfolded Ok x]]
      show ?thesis
      proof (cases "ty = msgUserAuthBanner")
        case True
        then have "handleAuthResponse io1 = (io', r)" using "1.prems" t Ok x by (simp add: handleAuthResponse.simps [of io])
        from "1.IH" [OF t [symmetric] _ _ _ this] Ok x True have "exchange P io1 io'" "\<forall>x. r = Ok x \<longrightarrow> answered_by (set (io_in io1)) x" by auto
        then show ?thesis by (intro exchange_step [OF e]) blast
      next
        case False
        with "1.prems" t Ok x have "io' = io1" and r: "r = (if ty = msgUserAuthFailure then parseFailure p else if ty = msgUserAuthSuccess then Ok (True, None)
            else if ty = msgDisconnect then Err EOF else Err (unexpectedMessageError msgUserAuthSuccess ty))"
          by (simp_all add: handleAuthResponse.simps [of io] split: if_splits)
        moreover have "answered_by (set (io_in io)) (True, None)" if "ty = msgUserAuthSuccess"
          using rt that by (auto simp: answered_by_def succeeded_def)
        ultimately show ?thesis using e parseFailure_answered [of p "set (io_in io)"] rt(1) by (auto split: if_splits)
      qed
    qed (use "1.prems" t e in \<open>auto simp: handleAuthResponse.simps [of io]\<close>)
  qed
  then show ?thesis by (auto simp: contract_def onIO_def split: prod.splits)
qed

lemma confirmAck_contract: "contract P (onIO (confirmAck algo d)) (\<lambda>_ _. True)"
proof -
  have "confirmAck algo d io = (io', r) \<Longrightarrow> exchange P io io'" for io io' r
  proof (induction algo d io arbitrary: io' r rule: confirmAck.induct)
    case (1 algo d io)
    obtain io1 r1 where t: "readTyped io = (io1, r1)" by (cases "readTyped io")
    note e = readTyped_io [OF t, of P]
    show ?case
    proof (cases r1)
      case (Ok x)
      obtain ty p where x: "x = (ty, p)" by (cases x)
      show ?thesis
      proof (cases "ty = msgUserAuthBanner")
        case True
        then have "confirmAck algo d io1 = (io', r)" using "1.prems" t Ok x by (simp add: confirmAck.simps [of algo d io])
        from "1.IH" [OF t [symmetric] _ _ _ this] Ok x True exchange_trans [OF e] show ?thesis by blast
      next
        case False
        with "1.prems" t Ok x e show ?thesis by (auto simp: confirmAck.simps [of algo d io] split: if_splits)
      qed
    qed (use "1.prems" t e in \<open>simp_all add: confirmAck.simps [of algo d io]\<close>)
  qed
  then show ?thesis by (auto simp: contract_def onIO_def split: prod.splits)
qed

text \<open>The packets of a method: requests for that user and that method, and answers to questions.\<close>

definition packetOf :: "string \<Rightarrow> string \<Rightarrow> bytes \<Rightarrow> bool" where
  "packetOf user m p \<longleftrightarrow> (\<exists>payload. p = reqBytes user m payload) \<or> m = ''keyboard-interactive'' \<and> (\<exists>as. p = encAnswers as)"

lemma packetOf_reqBytes [simp]: "packetOf user m (reqBytes user m payload)"
  by (auto simp: packetOf_def)

lemma keyQuery_form: "keyQuery key user = Ok p \<Longrightarrow> packetOf user ''publickey'' p"
  by (auto simp: keyQuery_def publickeyAuthMsg_eq)

lemma signedRequest_form: "signedRequest cr sp rand session user k = Ok p \<Longrightarrow> packetOf user ''publickey'' p"
  by (auto simp: signedRequest_def publickeyAuthMsg_eq wrapSignature_eq)

lemmas contract_steps = contract_callback contract_sendMsg handleAuthResponse_contract confirmAck_contract

lemma validSigners_contract: "contract (packetOf user ''publickey'') (validSigners user ks) (\<lambda>_ _. True)"
proof (induction ks)
  case (Cons k ks)
  have "contract (packetOf user ''publickey'') (validateKey (signerPublicKey k) user) (\<lambda>_ _. True)"
    unfolding validateKey_def confirmKeyAck_def
    by (intro contract_sbind [where Q = "\<lambda>_ _. True" and R = "\<lambda>_ _ _. True"] contract_steps contract_sres) (simp_all add: keyQuery_form)
  then show ?case unfolding validSigners.simps
    by (intro contract_sbind [where Q = "\<lambda>_ _. True" and R = "\<lambda>_ _ _. True"] Cons contract_sres) simp_all
qed (simp add: contract_sres)

lemma trySigners_contract:
  "contract (packetOf user ''publickey'') (trySigners cr sp rand session user i methods ks :: ('s, authAnswer) clientStep)
     (\<lambda>A x. (fst x \<longrightarrow> succeeded A) \<and> (\<forall>ms. snd x = Some ms \<longrightarrow> methods = Some ms \<or> told A ms))"
proof (induction ks arbitrary: i methods)
  case Nil
  then show ?case by (auto intro!: contract_sres)
next
  case (Cons k ks)
  let ?post = "\<lambda>methods A x. (fst x \<longrightarrow> succeeded A) \<and> (\<forall>ms. snd x = Some ms \<longrightarrow> methods = Some ms \<or> told A ms)"
  have "contract (packetOf user ''publickey'') (sbind (onIO handleAuthResponse :: ('s, authAnswer) clientStep) (\<lambda>(success, methods).
       if success then sres (Ok (success, methods)) else trySigners cr sp rand session user (Suc i) methods ks)) answered_by"
  proof (rule contract_sbind [OF handleAuthResponse_contract, where R = "\<lambda>x A y. (fst y \<longrightarrow> fst x \<or> succeeded A) \<and> (\<forall>ms. snd y = Some ms \<longrightarrow> snd x = Some ms \<or> told A ms)"], goal_cases)
    case (1 x)
    show ?case
    proof (cases "fst x")
      case True
      then show ?thesis by (cases x) (auto intro!: contract_sres)
    next
      case False
      with Cons [of "Suc i" "snd x"] show ?thesis by (cases x) simp
    qed
  next
    case (2 A B x y)
    then show ?case unfolding answered_by_def told_def succeeded_def by blast
  qed
  note inner = this
  show ?case unfolding trySigners.simps
  proof (rule contract_sbind [where Q = "\<lambda>_ _. True" and R = "\<lambda>_. answered_by"], goal_cases)
    case 1
    show ?case by (rule contract_sendMsg) (rule signedRequest_form)
  next
    case (3 A B x y)
    then show ?case unfolding answered_by_def told_def succeeded_def by blast
  qed (rule inner)
qed

lemma answerQuestions_form: "answerQuestions cb packet s = (s', Ok b) \<Longrightarrow> \<exists>as. b = encAnswers as"
  by (auto simp: answerQuestions_def sbind_def sres_def serializeAnswers_eq split: prod.splits res.splits if_splits)

lemma interactiveLoop_contract: "contract (packetOf user ''keyboard-interactive'') (\<lambda>(s, io). interactiveLoop cb s io) answered_by"
proof -
  let ?P = "packetOf user ''keyboard-interactive''"
  have "interactiveLoop cb s io = ((s', io'), r) \<Longrightarrow> exchange ?P io io' \<and> (\<forall>x. r = Ok x \<longrightarrow> answered_by (set (io_in io)) x)" for s io s' io' r
  proof (induction cb s io arbitrary: s' io' r rule: interactiveLoop.induct)
    case (1 cb s io)
    obtain io1 r1 where t: "readTyped io = (io1, r1)" by (cases "readTyped io")
    note e = readTyped_io [OF t, of ?P]
    show ?case
    proof (cases r1)
      case (Ok x)
      obtain ty p where x: "x = (ty, p)" by (cases x)
      note rt = readTyped_Ok [OF t [unfolded Ok x]]
      consider (banner) "ty = msgUserAuthBanner" | (ask) "ty = msgUserAuthInfoRequest" | (other) "ty \<noteq> msgUserAuthBanner" "ty \<noteq> msgUserAuthInfoRequest" by blast
      then show ?thesis
      proof cases
        case banner
        then have "interactiveLoop cb s io1 = ((s', io'), r)" using "1.prems" t Ok x by (simp add: interactiveLoop.simps [of cb s io])
        with "1.IH"(1) [OF t [symmetric] Ok x [symmetric]] x banner have "exchange ?P io1 io' \<and> (\<forall>x. r = Ok x \<longrightarrow> answered_by (set (io_in io1)) x)" by simp
        then show ?thesis by (rule exchange_step [OF e])
      next
        case ask
        obtain s1 q where a: "answerQuestions cb p s = (s1, q)" by (cases "answerQuestions cb p s")
        show ?thesis
        proof (cases q)
          case q: (Ok b)
          obtain as where b: "b = encAnswers as" using answerQuestions_form [OF a [unfolded q]] by blast
          obtain io2 w where w: "writePkt io1 b = (io2, w)" by (cases "writePkt io1 b")
          have "exchange ?P io1 io2"
            using w b by (auto simp: writePkt_def exchange_def packetOf_def split: list.splits option.splits)
          note e2 = exchange_trans [OF e this]
          show ?thesis
          proof (cases w)
            case u: (Ok u)
            have "interactiveLoop cb s1 io2 = ((s', io'), r)" using "1.prems" t Ok x ask a q w u by (simp add: interactiveLoop.simps [of cb s io])
            with "1.IH"(2) [OF t [symmetric] Ok x [symmetric]] x ask a q w u
            have "exchange ?P io2 io' \<and> (\<forall>x. r = Ok x \<longrightarrow> answered_by (set (io_in io2)) x)" by simp
            then show ?thesis by (rule exchange_step [OF e2])
          qed (use "1.prems" t Ok x ask a q w e2 in \<open>auto simp: interactiveLoop.simps [of cb s io]\<close>)
        qed (use "1.prems" t Ok x ask a e in \<open>auto simp: interactiveLoop.simps [of cb s io]\<close>)
      next
        case other
        with "1.prems" t Ok x have "io' = io1" and r: "r = (if ty = msgUserAuthFailure then parseFailure p else if ty = msgUserAuthSuccess then Ok (True, None)
            else Err (unexpectedMessageError msgUserAuthInfoRequest ty))"
          by (simp_all add: interactiveLoop.simps [of cb s io] split: if_splits)
        moreover have "answered_by (set (io_in io)) (True, None)" if "ty = msgUserAuthSuccess"
          using rt that by (auto simp: answered_by_def succeeded_def)
        ultimately show ?thesis using e parseFailure_answered [of p "set (io_in io)"] rt(1) by (auto split: if_splits)
      qed
    qed (use "1.prems" t e in \<open>auto simp: interactiveLoop.simps [of cb s io]\<close>)
  qed
  then show ?thesis by (auto simp: contract_def)
qed

lemma contract_send_then:
  assumes "\<And>p. m = Ok p \<Longrightarrow> P p" "contract P f answered_by"
  shows "contract P (sbind (sendMsg m) (\<lambda>_. f)) answered_by"
  by (rule contract_sbind [where Q = "\<lambda>_ _. True" and R = "\<lambda>_. answered_by"]) (auto intro: assms contract_sendMsg answered_by_mono)

lemma contract_callback_then: "(\<And>x. contract P (f x) answered_by) \<Longrightarrow> contract P (sbind (callback cb) f) answered_by"
  by (rule contract_sbind [OF contract_callback, where R = "\<lambda>_. answered_by"]) (auto intro: answered_by_mono)

lemma auth_contract: "contract (packetOf user (methodOf a)) (auth env session user a) answered_by"
proof (cases a)
  case NoneAuth
  then show ?thesis by (simp add: noneAuth_auth_def) (rule contract_send_then; auto simp: noneRequest_eq handleAuthResponse_contract)
next
  case (PasswordCallback cb)
  then show ?thesis
    by (simp add: passwordCallback_auth_def) (intro contract_callback_then contract_send_then; auto simp: passwordRequest_eq handleAuthResponse_contract)
next
  case (PublicKeysCallback cb)
  let ?P = "packetOf user ''publickey''"
  let ?sign = "trySigners (se_crypto env) (se_prims env) (se_rand env) session user 0 None"
  have "contract ?P (sbind (validSigners user ks) ?sign :: ('a, authAnswer) clientStep) answered_by" for ks
  proof (rule contract_sbind [OF validSigners_contract trySigners_contract], goal_cases)
    case (1 A B x y)
    then show ?case unfolding answered_by_def told_def succeeded_def by blast
  qed
  with PublicKeysCallback show ?thesis
    by (simp add: publicKeyCallback_auth_def) (rule contract_callback_then)
next
  case (KeyboardInteractive cb)
  then show ?thesis
    by (simp add: interactive_auth_def) (rule contract_send_then; auto simp: initiateMsg_eq initiateBytes_def interactiveLoop_contract)
qed

text \<open>A method that one of the packets offers.\<close>

definition offered :: "bytes set \<Rightarrow> string \<Rightarrow> bool" where
  "offered A m \<longleftrightarrow> (\<exists>ms. told A ms \<and> m \<in> set ms)"

definition discloses :: "'s ClientConfig \<Rightarrow> bytes set \<Rightarrow> bytes \<Rightarrow> bool" where
  "discloses config A p \<longleftrightarrow> packetOf (cc_User config) ''none'' p
     \<or> (\<exists>a\<in>set (cc_Auth config). offered A (methodOf a) \<and> packetOf (cc_User config) (methodOf a) p)"

lemma clientLoop_discloses:
  assumes "clientLoop env session config tried lastMethods a (s, io) = ((s', io'), r)" "set (io_in io) \<subseteq> A"
    and "a = NoneAuth \<or> a \<in> set (cc_Auth config) \<and> offered A (methodOf a)" "\<And>ms. lastMethods = Some ms \<Longrightarrow> told A ms"
  shows "exchange (discloses config A) io io' \<and> (r = Ok () \<longrightarrow> succeeded A)"
  using assms
proof (induction env session config tried lastMethods a "(s, io)" arbitrary: s io rule: clientLoop.induct)
  case (1 env session config tried lastMethods a)
  obtain s1 io1 r1 where a: "auth env session (cc_User config) a (s, io) = ((s1, io1), r1)"
    by (cases "auth env session (cc_User config) a (s, io)") auto
  have e: "exchange (discloses config A) io io1"
    by (rule exchange_mono [OF contractD(1) [OF auth_contract a]]) (use "1.prems"(3) in \<open>auto simp: discloses_def\<close>)
  then have sub: "set (io_in io1) \<subseteq> A" using "1.prems"(2) by (auto simp: exchange_def dest: set_mono_suffix)
  show ?case
  proof (cases r1)
    case (Ok x)
    obtain ok methods where x: "x = (ok, methods)" by (cases x)
    have ans: "answered_by A (ok, methods)"
      using contractD(2) [OF auth_contract a [unfolded Ok x]] "1.prems"(2) answered_by_mono by blast
    let ?tried = "if methodOf a \<in> set tried then tried else tried @ [methodOf a]"
    let ?methods = "case methods of None \<Rightarrow> lastMethods | Some ms \<Rightarrow> Some ms"
    have told: "?methods = Some ms \<Longrightarrow> told A ms" for ms
      using ans "1.prems"(4) by (auto simp: answered_by_def split: option.splits)
    show ?thesis
    proof (cases "\<not> ok \<and> findNext (cc_Auth config) ?tried (orEmpty ?methods) \<noteq> None")
      case True
      then obtain b where b: "findNext (cc_Auth config) ?tried (orEmpty ?methods) = Some b" by blast
      then have "b \<in> set (cc_Auth config)" "offered A (methodOf b)"
        using findNext_Some [OF b] told by (auto simp: offered_def orEmpty_def split: option.splits)
      moreover have "clientLoop env session config ?tried ?methods b (s1, io1) = ((s', io'), r)"
        using "1.prems"(1) a Ok x True b by (simp add: clientLoop.simps [of env session config tried lastMethods a] Let_def)
      ultimately have "exchange (discloses config A) io1 io' \<and> (r = Ok () \<longrightarrow> succeeded A)"
        using "1.hyps" [OF a [symmetric] Ok x [symmetric] _ refl refl b] True sub told by blast
      then show ?thesis using exchange_trans [OF e] by blast
    next
      case False
      with "1.prems"(1) a Ok x e ans show ?thesis
        by (auto simp: clientLoop.simps [of env session config tried lastMethods a] Let_def answered_by_def split: if_splits option.splits)
    qed
  qed (use "1.prems"(1) a e in \<open>auto simp: clientLoop.simps [of env session config tried lastMethods a]\<close>)
qed

text \<open>(C29) What the client discloses: whatever the server sends, every packet of the client is the request for the service, a request without
  credentials, or belongs to a configured method that a packet of the server offered, and names the configured user; a
  password, a signature or an answer never leaves the client before the server has asked for that method. The client
  reports success only if the server said so.\<close>

theorem client_discloses_only_what_is_offered:
  assumes "clientAuthenticate env session config (c, io) = ((c', io'), r)"
  shows "(\<exists>sent. io_out io' = io_out io @ sent \<and> (\<forall>p\<in>set sent. p = serviceRequestBytes \<or> discloses config (set (io_in io)) p)) \<and>
    (r = Ok () \<longrightarrow> succeeded (set (io_in io)))"
proof -
  let ?P = "\<lambda>p. p = serviceRequestBytes \<or> discloses config (set (io_in io)) p"
  obtain io1 r1 where s: "startUserAuth io = (io1, r1)" by (cases "startUserAuth io")
  have e: "exchange ?P io io1"
    using s by (auto simp: startUserAuth_def writeMsg_def service_messages writePkt_def readPkt_def exchange_def suffix_ConsI
        split: list.splits option.splits res.splits)
  have "exchange ?P io io' \<and> (r = Ok () \<longrightarrow> succeeded (set (io_in io)))"
  proof (cases r1)
    case (Ok u)
    with assms s have "clientLoop env session config [] None NoneAuth (c, io1) = ((c', io'), r)"
      by (simp add: clientAuthenticate_def sbind_def onIO_def)
    moreover have "set (io_in io1) \<subseteq> set (io_in io)" using e by (auto simp: exchange_def dest: set_mono_suffix)
    ultimately have "exchange (discloses config (set (io_in io))) io1 io' \<and> (r = Ok () \<longrightarrow> succeeded (set (io_in io)))"
      by (intro clientLoop_discloses) auto
    then show ?thesis using exchange_trans [OF e, of io'] exchange_mono [of "discloses config (set (io_in io))" io1 io' ?P] by blast
  qed (use assms s e in \<open>auto simp: clientAuthenticate_def sbind_def onIO_def\<close>)
  then show ?thesis by (auto simp: exchange_def)
qed

definition demoSignEnv :: signEnv where
  "demoSignEnv = \<lparr>se_crypto = demoCrypto, se_prims = demoPrims, se_rand = (\<lambda>_. [])\<rparr>"

definition demoClient :: "nat AuthMethod list \<Rightarrow> nat ClientConfig" where
  "demoClient auths = \<lparr>cc_Config = sc_Config demoConfig, cc_User = ''bob'', cc_Auth = auths, cc_HostKeyCallback = None, cc_ClientVersion = ''''\<rparr>"

theorem client_discloses_only_what_is_offered_witness:
  "\<exists>c' io'. clientAuthenticate demoSignEnv [1] (demoClient [Password ''pw'']) (0, fresh [serviceAcceptBytes, [msgUserAuthSuccess]] []) = ((c', io'), Ok ())
     \<and> succeeded {serviceAcceptBytes, [msgUserAuthSuccess]}"
proof -
  have "clientAuthenticate demoSignEnv [1] (demoClient [Password ''pw'']) (0, fresh [serviceAcceptBytes, [msgUserAuthSuccess]] [])
      = ((0, fresh [] [serviceRequestBytes, reqBytes ''bob'' ''none'' []]), Ok ())"
  proof -
    have "auth demoSignEnv [1] ''bob'' NoneAuth (0 :: nat, fresh [[msgUserAuthSuccess]] [serviceRequestBytes])
        = ((0, fresh [] [serviceRequestBytes, reqBytes ''bob'' ''none'' []]), Ok (True, None))"
      by (simp add: noneAuth_auth_def sbind_def onIO_def sendMsg_Ok noneRequest_eq handleAuthResponse_success fresh_def)
    then show ?thesis
      by (simp add: clientAuthenticate_def sbind_def onIO_def service_exchange clientLoop.simps demoClient_def)
  qed
  from client_discloses_only_what_is_offered [OF this] this show ?thesis by (simp add: fresh_def)
qed

end
