(* ===== verification/Client_Login.thy ===== *)
theory Client_Login
  imports Client_Auth
begin

text \<open>
  The client of \<^verbatim>\<open>client_auth.go\<close> against the server of \<^verbatim>\<open>server.go\<close>: the two ends run on each other's packets. Questions and answers of
  keyboard-interactive authentication arrive as they were asked and given, and a client with a key, a password or answers
  that the server accepts is let in.
\<close>

section \<open>Questions and answers arrive\<close>

definition encPrompts :: "string list \<Rightarrow> bool list \<Rightarrow> bytes" where
  "encPrompts qs es = concat (map2 (\<lambda>q e. encString (bytes_of q) @ [if e then 1 else 0]) qs es)"

lemma encPrompts_simps [simp]:
  "encPrompts [] es = []" "encPrompts (q # qs) (e # es) = encString (bytes_of q) @ (if e then 1 else 0) # encPrompts qs es"
  by (simp_all add: encPrompts_def)

lemma appendPrompts_eq: "length qs = length es \<Longrightarrow> appendPrompts p qs es = p @ encPrompts qs es"
  by (induction p qs es rule: appendPrompts.induct)
    (auto simp: encString_def appendString_def appendBool_def appendU32_def)

lemma parsePrompts_enc:
  "length qs = length es \<Longrightarrow> length (encPrompts qs es @ r) < 2 ^ 32 \<Longrightarrow> parsePrompts (length qs) (encPrompts qs es @ r) = Ok (qs, es, r)"
proof (induction qs es rule: list_induct2')
  case (4 q qs e es)
  let ?r = "(if e then 1 else 0) # encPrompts qs es @ r"
  have "parseString (encString (bytes_of q) @ ?r) = Parsed (bytes_of q) ?r"
    using 4 by (intro parseString_encString) simp
  moreover have "parsePrompts (length qs) (encPrompts qs es @ r) = Ok (qs, es, r)" using 4 by simp
  ultimately show ?case by (simp del: rbind_eq_Ok)
qed simp_all

definition infoRequest :: "string \<Rightarrow> string list \<Rightarrow> bool list \<Rightarrow> userAuthInfoRequestMsg" where
  "infoRequest instruction qs es = \<lparr>userAuthInfoRequestMsg_User = '''', userAuthInfoRequestMsg_Instruction = instruction,
     userAuthInfoRequestMsg_DeprecatedLanguage = '''', userAuthInfoRequestMsg_NumPrompts = of_nat (length qs),
     userAuthInfoRequestMsg_Prompts = appendPrompts [] qs es\<rparr>"

definition infoBytes :: "string \<Rightarrow> string list \<Rightarrow> bool list \<Rightarrow> bytes" where
  "infoBytes instruction qs es = encStruct userAuthInfoRequestMsg_T (userAuthInfoRequestMsg_vals (infoRequest instruction qs es))"

lemma infoBytes_props:
  "Marshal userAuthInfoRequestMsg_T (userAuthInfoRequestMsg_vals (infoRequest instr qs es)) = Ok (infoBytes instr qs es)"
  "infoBytes instr qs es \<noteq> []" "hd (infoBytes instr qs es) = msgUserAuthInfoRequest"
  "length qs = length es \<Longrightarrow> length (encPrompts qs es) \<le> length (infoBytes instr qs es)"
  "length (infoBytes instr qs es) < 2 ^ 32 \<Longrightarrow>
     rbind (Unmarshal (infoBytes instr qs es) userAuthInfoRequestMsg_T) userAuthInfoRequestMsg_of = Ok (infoRequest instr qs es)"
proof -
  have wf: "wf_vals (st_fields userAuthInfoRequestMsg_T) (userAuthInfoRequestMsg_vals (infoRequest instr qs es))"
    by (simp add: userAuthInfoRequestMsg_T_def userAuthInfoRequestMsg_vals_def)
  show "Marshal userAuthInfoRequestMsg_T (userAuthInfoRequestMsg_vals (infoRequest instr qs es)) = Ok (infoBytes instr qs es)"
    unfolding infoBytes_def by (rule userAuthInfoRequestMsg.marshal_ok [OF wf])
  show ne: "infoBytes instr qs es \<noteq> []" and "hd (infoBytes instr qs es) = msgUserAuthInfoRequest"
    "length qs = length es \<Longrightarrow> length (encPrompts qs es) \<le> length (infoBytes instr qs es)"
    by (simp_all add: infoBytes_def encStruct_def userAuthInfoRequestMsg_T_def userAuthInfoRequestMsg_vals_def typeTag_def Atoi_def
        infoRequest_def appendPrompts_eq)
  show "length (infoBytes instr qs es) < 2 ^ 32 \<Longrightarrow>
     rbind (Unmarshal (infoBytes instr qs es) userAuthInfoRequestMsg_T) userAuthInfoRequestMsg_of = Ok (infoRequest instr qs es)"
    using ne unfolding infoBytes_def by (intro userAuthInfoRequestMsg.unmarshal_enc [OF wf])
qed

lemma readQuestions_enc:
  assumes "length qs = length es" "length (infoBytes instr qs es) < 2 ^ 32" "length qs < 2 ^ 32"
  shows "readQuestions (infoRequest instr qs es) = Ok (qs, es)"
proof -
  have "unat (of_nat (length qs) :: uint32) = length qs" using assms(3) by (intro unat_of_nat_lt) simp
  moreover have "length (encPrompts qs es) < 2 ^ 32" using infoBytes_props(4) [OF assms(1)] assms(2) by (meson le_less_trans)
  then have "parsePrompts (length qs) (encPrompts qs es) = Ok (qs, es, [])" using parsePrompts_enc [OF assms(1), of "[]"] by simp
  ultimately show ?thesis using assms(1) by (simp add: readQuestions_def infoRequest_def appendPrompts_eq del: rbind_eq_Ok)
qed

lemma parseInfoResponse_enc:
  assumes "length (encAnswers as) < 2 ^ 32" "length as < 2 ^ 32"
  shows "parseInfoResponse n (encAnswers as) = (if length as = n then Ok as else Err (parseError msgUserAuthInfoResponse))"
proof -
  have i: "index (encAnswers as) 0 = Ok msgUserAuthInfoResponse"
    "drop (Suc 0) (encAnswers as) = be32 (of_nat (length as)) @ encList as" by (simp_all add: encAnswers_def)
  have u: "unat (of_nat (length as) :: uint32) = length as" using assms(2) by (intro unat_of_nat_lt) simp
  have "parseUint32 (be32 (of_nat (length as)) @ encList as) = Parsed (of_nat (length as)) (encList as)"
    using assms(1) by (intro u32.dec_enc) (simp_all add: encAnswers_def)
  moreover have "parseAnswers (length as) (encList as) = Ok (as, [])"
    using parseAnswers_enc [of as "[]"] assms(1) by (simp add: encAnswers_def)
  ultimately show ?thesis
    using u by (cases "length as = n") (auto simp: parseInfoResponse_def i simp del: rbind_eq_Ok)
qed

lemma Challenge_enc:
  assumes "length qs = length es" "io_wres io = []" "io_in io = encAnswers as # rest" "length (encAnswers as) < 2 ^ 32" "length as < 2 ^ 32"
  shows "Challenge io user instr qs es = (io\<lparr>io_in := rest, io_out := io_out io @ [infoBytes instr qs es]\<rparr>,
      if length as = length qs then Ok as else Err (parseError msgUserAuthInfoResponse))"
  using assms(1-3) infoBytes_props(1) [of instr qs es, unfolded infoRequest_def]
  by (cases io) (simp add: Challenge_def writeMsg_def writePkt_def readPkt_def parseInfoResponse_enc [OF assms(4,5)])

lemma interactive_round:
  assumes "length qs = length es" "length (infoBytes instr qs es) < 2 ^ 32" "length qs < 2 ^ 32"
    and "cb c '''' instr qs es = (c', Ok as)" "length as = length qs"
    and "io_in io = infoBytes instr qs es # rest" "io_wres io = []"
  shows "interactiveLoop cb c io = interactiveLoop cb c' (io\<lparr>io_in := rest, io_out := io_out io @ [encAnswers as]\<rparr>)"
proof -
  have "readTyped io = (io\<lparr>io_in := rest\<rparr>, Ok (msgUserAuthInfoRequest, infoBytes instr qs es))"
    using assms(6) infoBytes_props(2,3) [of instr qs es] by (simp add: readTyped_def readPkt_def hd_conv_nth)
  moreover have "answerQuestions cb (infoBytes instr qs es) c = (c', Ok (encAnswers as))"
    using assms(4,5) by (simp add: answerQuestions_def sbind_def sres_def infoBytes_props(5) [OF assms(2)] readQuestions_enc [OF assms(1-3)]
        ) (simp add: infoRequest_def serializeAnswers_eq)
  ultimately show ?thesis
    using assms(7) by (subst interactiveLoop.simps) (simp add: writePkt_def)
qed

text \<open>
  The interview that the server's callback means: its challenges are put to the client's callback directly. It has no result
  when a challenge is malformed, the client's callback fails, or a message would not fit its length field.
\<close>

primrec interview :: "'s kiProg \<Rightarrow> 'c challengeCallback \<Rightarrow> 'c \<Rightarrow> ('c \<times> 's \<times> verdict) option" where
  "interview (KIDone s v) cb c = Some (c, s, v)"
| "interview (KIAsk user instr qs es k) cb c =
     (if length qs = length es \<and> length qs < 2 ^ 32 \<and> length (infoBytes instr qs es) < 2 ^ 32
      then (case cb c '''' instr qs es of
          (c, Ok as) \<Rightarrow> if length as = length qs \<and> length (encAnswers as) < 2 ^ 32 then interview (k (Ok as)) cb c else None
        | _ \<Rightarrow> None)
      else None)"

lemma interview_wire:
  assumes "interview prog cb c = Some (c', app, v)"
  shows "\<exists>questions answers.
     (\<forall>io rest. io_wres io = [] \<longrightarrow> io_in io = answers @ rest \<longrightarrow>
        runKI prog io = (io\<lparr>io_in := rest, io_out := io_out io @ questions\<rparr>, Ok (app, v))) \<and>
     (\<forall>io rest. io_wres io = [] \<longrightarrow> io_in io = questions @ rest \<longrightarrow>
        interactiveLoop cb c io = interactiveLoop cb c' (io\<lparr>io_in := rest, io_out := io_out io @ answers\<rparr>))"
  using assms
proof (induction prog arbitrary: c)
  case (KIDone s v')
  then show ?case by (intro exI [of _ "[]"]) auto
next
  case (KIAsk user instr qs es k)
  from KIAsk.prems have ok: "length qs = length es" "length qs < 2 ^ 32" "length (infoBytes instr qs es) < 2 ^ 32" by (auto split: if_splits)
  obtain c1 r where cb: "cb c '''' instr qs es = (c1, r)" by (cases "cb c '''' instr qs es")
  with KIAsk.prems ok obtain as where as: "r = Ok as" "length as = length qs" "length (encAnswers as) < 2 ^ 32"
    and i: "interview (k (Ok as)) cb c1 = Some (c', app, v)" by (auto split: res.splits if_splits)
  from KIAsk.IH [OF _ i] obtain questions answers where
    s: "\<And>io rest. io_wres io = [] \<Longrightarrow> io_in io = answers @ rest \<Longrightarrow>
        runKI (k (Ok as)) io = (io\<lparr>io_in := rest, io_out := io_out io @ questions\<rparr>, Ok (app, v))"
    and t: "\<And>io rest. io_wres io = [] \<Longrightarrow> io_in io = questions @ rest \<Longrightarrow>
        interactiveLoop cb c1 io = interactiveLoop cb c' (io\<lparr>io_in := rest, io_out := io_out io @ answers\<rparr>)" by blast
  show ?case
  proof (rule exI [of _ "infoBytes instr qs es # questions"], rule exI [of _ "encAnswers as # answers"], intro conjI allI impI, goal_cases)
    case (1 io rest)
    then show ?case using as ok(2) by (simp add: Challenge_enc [OF ok(1) 1(1), of as "answers @ rest"] s)
  next
    case (2 io rest)
    then show ?case
      using interactive_round [where cb = cb and c = c and c' = c1 and io = io and rest = "questions @ rest", OF ok(1,3,2) _ as(2)] cb as(1)
      by (simp add: t)
  qed
qed

section \<open>A client that the server accepts gets in\<close>

subsection \<open>The answers of the server\<close>

definition failBytes :: "'s ServerConfig \<Rightarrow> bytes" where
  "failBytes config = encStruct userAuthFailureMsg_T (userAuthFailureMsg_vals
     \<lparr>userAuthFailureMsg_Methods = failureMethods config, userAuthFailureMsg_PartialSuccess = False\<rparr>)"

lemma names_no_comma: "comma \<notin> set (bytes_of ''password'')" "comma \<notin> set (bytes_of ''publickey'')" "comma \<notin> set (bytes_of ''keyboard-interactive'')"
  by code_simp+

lemma failBytes_props:
  "failureMethods config \<noteq> [] \<Longrightarrow> Marshal userAuthFailureMsg_T (userAuthFailureMsg_vals
     \<lparr>userAuthFailureMsg_Methods = failureMethods config, userAuthFailureMsg_PartialSuccess = False\<rparr>) = Ok (failBytes config)"
  "failureMethods config \<noteq> [] \<Longrightarrow> parseFailure (failBytes config) = Ok (False, Some (failureMethods config))"
  "failBytes config \<noteq> []" "hd (failBytes config) = msgUserAuthFailure"
proof -
  let ?m = "\<lparr>userAuthFailureMsg_Methods = failureMethods config, userAuthFailureMsg_PartialSuccess = False\<rparr>"
  show ne: "failBytes config \<noteq> []" and "hd (failBytes config) = msgUserAuthFailure"
    by (simp_all add: failBytes_def encStruct_def userAuthFailureMsg_T_def userAuthFailureMsg_vals_def typeTag_def Atoi_def)
  have wf: "wf_vals (st_fields userAuthFailureMsg_T) (userAuthFailureMsg_vals ?m)" if "failureMethods config \<noteq> []"
    using that by (auto simp: userAuthFailureMsg_T_def userAuthFailureMsg_vals_def failureMethods_def wf_names_def names_no_comma)
  then show "failureMethods config \<noteq> [] \<Longrightarrow> Marshal userAuthFailureMsg_T (userAuthFailureMsg_vals ?m) = Ok (failBytes config)"
    unfolding failBytes_def by (intro userAuthFailureMsg.marshal_ok)
  have "length (failBytes config) < 2 ^ 32"
    by (simp add: failBytes_def encStruct_def userAuthFailureMsg_T_def userAuthFailureMsg_vals_def failureMethods_def encString_def encNames_def
        typeTag_def Atoi_def)
  with wf ne show "parseFailure (failBytes config) = Ok (False, Some (failureMethods config))" if "failureMethods config \<noteq> []"
    using userAuthFailureMsg.unmarshal_enc [of ?m] that by (simp add: parseFailure_def failBytes_def del: rbind_eq_Ok)
qed

lemma authLoop_request:
  assumes "io_in (au_io st) = reqBytes user m payload # rest" "length (reqBytes user m payload) < 2 ^ 32"
    and "authMethod cr nl config conn (st\<lparr>au_io := (au_io st)\<lparr>io_in := rest\<rparr>, au_user := user\<rparr>) (requestOf user m payload) = (st1, r)"
  shows "authLoop cr nl config conn st = (case r of
       Verdict perms authErr \<Rightarrow> (case authTail config conn st1 m perms authErr of
           (st, AContinue) \<Rightarrow> authLoop cr nl config conn st | (st, ADone perms) \<Rightarrow> (st, Ok perms)
         | (st, AFail e) \<Rightarrow> (st, Err e) | (st, ACrash p) \<Rightarrow> (st, Panic p))
     | Resume \<Rightarrow> authLoop cr nl config conn st1 | Abort e \<Rightarrow> (st1, Err e) | Crash p \<Rightarrow> (st1, Panic p))"
proof -
  have "authStep cr nl config conn st = (case r of
       Verdict perms authErr \<Rightarrow> authTail config conn st1 m perms authErr
     | Resume \<Rightarrow> (st1, AContinue) | Abort e \<Rightarrow> (st1, AFail e) | Crash p \<Rightarrow> (st1, ACrash p))"
    using assms(1,3) by (simp add: authStep_def readPkt_def Let_def unmarshal_reqBytes [OF assms(2)] handleAuthRequest_def)
      (simp add: requestOf_def)
  then show ?thesis by (subst authLoop.simps) (simp split: methodRes.split prod.split)
qed

text \<open>The state of the application after the log callback.\<close>

definition loggedApp :: "'s ServerConfig \<Rightarrow> connMeta \<Rightarrow> 's authSt \<Rightarrow> string \<Rightarrow> goerr option \<Rightarrow> 's" where
  "loggedApp config conn st m e = (case sc_AuthLogCallback config of Some log \<Rightarrow> log (au_app st) (metaOf conn st) m e | None \<Rightarrow> au_app st)"

lemma authTail_refused:
  assumes "failureMethods config \<noteq> []" "io_wres (au_io st) = []"
  shows "authTail config conn st m perms (Some e)
     = (st\<lparr>au_app := loggedApp config conn st m (Some e), au_io := (au_io st)\<lparr>io_out := io_out (au_io st) @ [failBytes config]\<rparr>\<rparr>, AContinue)"
  using assms failBytes_props(1) [OF assms(1)]
  by (cases st) (auto simp: authTail_def Let_def writeMsg_def writePkt_def loggedApp_def split: option.split)

lemma authTail_accepted:
  "\<exists>app. authTail config conn st m perms None = (st\<lparr>au_app := app\<rparr>, ADone perms)"
  by (cases st) (auto simp: authTail_def Let_def split: option.split)

subsection \<open>Keys on the server\<close>

text \<open>
  A callback that decides about the keys of a user, whatever the state of the application: with what permissions, and
  whether it accepts; keys that it accepts are not restricted to other addresses.
\<close>

definition decides :: "netlib \<Rightarrow> connMeta \<Rightarrow> ('s \<Rightarrow> connMeta \<Rightarrow> PublicKey \<Rightarrow> 's \<times> verdict) \<Rightarrow> string
    \<Rightarrow> (PublicKey \<Rightarrow> Permissions option) \<Rightarrow> (PublicKey \<Rightarrow> goerr option) \<Rightarrow> bool" where
  "decides nl conn cb user perms refusal \<longleftrightarrow>
     (\<forall>app key. snd (cb app (conn\<lparr>cm_User := user\<rparr>) key) = (perms key, refusal key)) \<and>
     (\<forall>key. refusal key = None \<longrightarrow> sourceAddressOf (perms key) = '''' \<or>
        checkSourceAddress nl (cm_RemoteAddr conn) (sourceAddressOf (perms key)) = Ok ())"

definition cache_agrees :: "crypto \<Rightarrow> string \<Rightarrow> (PublicKey \<Rightarrow> Permissions option) \<Rightarrow> (PublicKey \<Rightarrow> goerr option) \<Rightarrow> pubKeyCache \<Rightarrow> bool" where
  "cache_agrees cr user perms refusal c \<longleftrightarrow> (\<forall>e\<in>set c. ck_user e = user \<longrightarrow>
     (\<exists>key. ParsePublicKey cr (ck_pubKeyData e) = Ok key \<and> ck_perms e = perms key \<and> ck_result e = refusal key))"

lemma lookupCandidate_decides:
  assumes "decides nl conn cb user perms refusal" "cache_agrees cr user perms refusal (au_cache st)" "au_user st = user"
    and "ParsePublicKey cr d = Ok key"
  shows "\<exists>st' c. lookupCandidate nl conn cb st d key = (st', Ok c) \<and> ck_perms c = perms key \<and> ck_result c = refusal key
     \<and> cache_agrees cr user perms refusal (au_cache st')"
proof (cases "cache_get (au_cache st) (au_user st) d")
  case (Some c)
  from cache_get_Some [OF Some] assms(2-4) have "ck_perms c = perms key" "ck_result c = refusal key"
    by (auto simp: cache_agrees_def)
  with Some assms(2) show ?thesis by (simp add: lookupCandidate_def)
next
  case None
  obtain app where cb: "cb (au_app st) (metaOf conn st) key = (app, perms key, refusal key)"
    using assms(1,3) that [of "fst (cb (au_app st) (metaOf conn st) key)"] by (simp add: decides_def metaOf_def prod_eq_iff)
  let ?c = "\<lparr>ck_user = user, ck_pubKeyData = d, ck_result = refusal key, ck_perms = perms key\<rparr>"
  have src: "checkSourceAddress nl (cm_RemoteAddr conn) (sourceAddressOf (perms key)) = Ok ()"
    if "refusal key = None" "sourceAddressOf (perms key) \<noteq> ''''" using assms(1) that by (auto simp: decides_def)
  have "lookupCandidate nl conn cb st d key = (st\<lparr>au_app := app, au_cache := cache_add (au_cache st) ?c\<rparr>, Ok ?c)"
    using None cb assms(3) src by (cases "refusal key = None \<and> sourceAddressOf (perms key) \<noteq> ''''") (auto simp: lookupCandidate_def Let_def)
  moreover have "cache_agrees cr user perms refusal (cache_add (au_cache st) ?c)"
    using assms(2,4) by (auto simp: cache_agrees_def cache_add_def)
  ultimately show ?thesis by (intro exI conjI) auto
qed

text \<open>A key that can be presented: it is well formed, of an acceptable type, and the request for it fits.\<close>

definition presentable :: "crypto \<Rightarrow> string \<Rightarrow> Signer \<Rightarrow> bool" where
  "presentable cr user k \<longleftrightarrow> wf_key cr (signerPublicKey k) \<and> (\<exists>t. keyType (signerPublicKey k) = Ok t \<and> isAcceptableAlgo t \<and>
     length (reqBytes user ''publickey'' (keyPayload False t (encKey (signerPublicKey k)) [])) < 2 ^ 32)"

definition typeOf :: "Signer \<Rightarrow> string" where
  "typeOf k = (case keyType (signerPublicKey k) of Ok t \<Rightarrow> t | _ \<Rightarrow> '''')"

definition queryBytes :: "string \<Rightarrow> Signer \<Rightarrow> bytes" where
  "queryBytes user k = reqBytes user ''publickey'' (keyPayload False (typeOf k) (encKey (signerPublicKey k)) [])"

definition keyOkBytes :: "Signer \<Rightarrow> bytes" where
  "keyOkBytes k = encStruct userAuthPubKeyOkMsg_T (userAuthPubKeyOkMsg_vals
     \<lparr>userAuthPubKeyOkMsg_Algo = typeOf k, userAuthPubKeyOkMsg_PubKey = encKey (signerPublicKey k)\<rparr>)"

lemma presentable_props:
  assumes "presentable cr user k"
  shows "keyType (signerPublicKey k) = Ok (typeOf k)" "keyMarshal (signerPublicKey k) = Ok (encKey (signerPublicKey k))"
    "isAcceptableAlgo (typeOf k)" "length (queryBytes user k) < 2 ^ 32"
    "ParsePublicKey cr (encKey (signerPublicKey k)) = Ok (signerPublicKey k)"
    "length (encString (bytes_of (typeOf k)) @ encString (encKey (signerPublicKey k)) ) < 2 ^ 32"
proof -
  show t: "keyType (signerPublicKey k) = Ok (typeOf k)" using assms by (auto simp: presentable_def typeOf_def)
  with assms show "isAcceptableAlgo (typeOf k)" and l: "length (queryBytes user k) < 2 ^ 32"
    by (auto simp: presentable_def queryBytes_def)
  then show "length (encString (bytes_of (typeOf k)) @ encString (encKey (signerPublicKey k)) ) < 2 ^ 32"
    by (simp add: queryBytes_def reqBytes_eq keyPayload_def)
  then have "length (encKey (signerPublicKey k)) < 2 ^ 32" by (simp add: encString_def)
  then show "keyMarshal (signerPublicKey k) = Ok (encKey (signerPublicKey k))"
    "ParsePublicKey cr (encKey (signerPublicKey k)) = Ok (signerPublicKey k)"
    using assms by (auto simp: presentable_def intro: keyMarshal_enc ParsePublicKey_enc)
qed

lemma pubkeyRequest_parts:
  assumes "presentable cr user k" "length (reqBytes user ''publickey'' (keyPayload b (typeOf k) (encKey (signerPublicKey k)) rest)) < 2 ^ 32"
  shows "parseString (encString (bytes_of (typeOf k)) @ encString (encKey (signerPublicKey k)) @ rest)
       = Parsed (bytes_of (typeOf k)) (encString (encKey (signerPublicKey k)) @ rest)"
    "parseString (encString (encKey (signerPublicKey k)) @ rest) = Parsed (encKey (signerPublicKey k)) rest"
  using assms(2) by (auto intro!: parseString_encString simp: reqBytes_eq keyPayload_def)

lemma publickeyMethod_presented:
  assumes "sc_PublicKeyCallback config = Some cb" "presentable cr user k"
    and "length (reqBytes user ''publickey'' (keyPayload b (typeOf k) (encKey (signerPublicKey k)) rest)) < 2 ^ 32"
    and "lookupCandidate nl conn cb st (encKey (signerPublicKey k)) (signerPublicKey k) = (st', Ok c)"
  shows "authMethod cr nl config conn st (requestOf user ''publickey'' (keyPayload b (typeOf k) (encKey (signerPublicKey k)) rest))
    = (if b then (st', verifyAttempt cr conn (requestOf user ''publickey'' (keyPayload b (typeOf k) (encKey (signerPublicKey k)) rest))
         (bytes_of (typeOf k)) (encKey (signerPublicKey k)) (signerPublicKey k) c rest)
       else answerQuery st' (typeOf k) (encKey (signerPublicKey k)) c rest)"
  using assms(1,4) presentable_props [OF assms(2)] pubkeyRequest_parts [OF assms(2,3)]
  by (simp add: authMethod_def publickeyMethod_def requestOf_def keyPayload_def Let_def)

lemma server_query:
  assumes "sc_PublicKeyCallback config = Some cb" "decides nl conn cb user perms refusal" "presentable cr user k"
    and "cache_agrees cr user perms refusal (au_cache st)" "io_wres (au_io st) = []" "io_in (au_io st) = queryBytes user k # rest"
  shows "\<exists>st'. authLoop cr nl config conn st = authLoop cr nl config conn st' \<and> cache_agrees cr user perms refusal (au_cache st') \<and>
     au_io st' = (au_io st)\<lparr>io_in := rest, io_out := io_out (au_io st)
        @ [if refusal (signerPublicKey k) = None then keyOkBytes k else failBytes config]\<rparr>"
proof -
  note p = presentable_props [OF assms(3)]
  let ?st = "st\<lparr>au_io := (au_io st)\<lparr>io_in := rest\<rparr>, au_user := user\<rparr>"
  obtain st1 c where l: "lookupCandidate nl conn cb ?st (encKey (signerPublicKey k)) (signerPublicKey k) = (st1, Ok c)"
    and c: "ck_result c = refusal (signerPublicKey k)" and a: "cache_agrees cr user perms refusal (au_cache st1)"
    using lookupCandidate_decides [OF assms(2), of cr ?st, OF _ _ p(5)] assms(4) by auto
  have io: "au_io st1 = (au_io st)\<lparr>io_in := rest\<rparr>" using lookupCandidate_frame [OF l] by simp
  have m: "authMethod cr nl config conn ?st (requestOf user ''publickey'' (keyPayload False (typeOf k) (encKey (signerPublicKey k)) []))
      = answerQuery st1 (typeOf k) (encKey (signerPublicKey k)) c []"
    using publickeyMethod_presented [OF assms(1,3) _ l, of False "[]"] p(4) by (simp add: queryBytes_def)
  have fm: "failureMethods config \<noteq> []" using assms(1) by (simp add: failureMethods_def)
  show ?thesis
  proof (cases "refusal (signerPublicKey k)")
    case None
    have "answerQuery st1 (typeOf k) (encKey (signerPublicKey k)) c []
       = (st1\<lparr>au_io := (au_io st1)\<lparr>io_out := io_out (au_io st1) @ [keyOkBytes k]\<rparr>\<rparr>, Resume)"
      using c None assms(5) userAuthPubKeyOkMsg.marshal_ok [of "\<lparr>userAuthPubKeyOkMsg_Algo = typeOf k, userAuthPubKeyOkMsg_PubKey = encKey (signerPublicKey k)\<rparr>"]
      by (simp add: answerQuery_def writeMsg_def writePkt_def io keyOkBytes_def userAuthPubKeyOkMsg_T_def userAuthPubKeyOkMsg_vals_def)
    with m have "authLoop cr nl config conn st = authLoop cr nl config conn (st1\<lparr>au_io := (au_io st1)\<lparr>io_out := io_out (au_io st1) @ [keyOkBytes k]\<rparr>\<rparr>)"
      using authLoop_request [OF assms(6) [unfolded queryBytes_def] p(4) [unfolded queryBytes_def]] by simp
    with a io None show ?thesis
      by (intro exI [of _ "st1\<lparr>au_io := (au_io st1)\<lparr>io_out := io_out (au_io st1) @ [keyOkBytes k]\<rparr>\<rparr>"]) simp
  next
    case (Some e)
    then have "answerQuery st1 (typeOf k) (encKey (signerPublicKey k)) c [] = (st1, Verdict None (Some e))" using c by (simp add: answerQuery_def)
    moreover obtain app where "authTail config conn st1 ''publickey'' None (Some e)
       = (st1\<lparr>au_app := app, au_io := (au_io st1)\<lparr>io_out := io_out (au_io st1) @ [failBytes config]\<rparr>\<rparr>, AContinue)"
      using authTail_refused [OF fm, of st1 conn "''publickey''" None e] io assms(5) by simp
    ultimately have "authLoop cr nl config conn st
        = authLoop cr nl config conn (st1\<lparr>au_app := app, au_io := (au_io st1)\<lparr>io_out := io_out (au_io st1) @ [failBytes config]\<rparr>\<rparr>)"
      using m authLoop_request [OF assms(6) [unfolded queryBytes_def] p(4) [unfolded queryBytes_def]] by simp
    with a io Some show ?thesis
      by (intro exI [of _ "st1\<lparr>au_app := app, au_io := (au_io st1)\<lparr>io_out := io_out (au_io st1) @ [failBytes config]\<rparr>\<rparr>"]) simp
  qed
qed

definition replyTo :: "'s ServerConfig \<Rightarrow> (PublicKey \<Rightarrow> goerr option) \<Rightarrow> Signer \<Rightarrow> bytes" where
  "replyTo config refusal k = (if refusal (signerPublicKey k) = None then keyOkBytes k else failBytes config)"

lemma server_queries:
  assumes "sc_PublicKeyCallback config = Some cb" "decides nl conn cb user perms refusal" "\<forall>k\<in>set ks. presentable cr user k"
    and "cache_agrees cr user perms refusal (au_cache st)" "io_wres (au_io st) = []" "io_in (au_io st) = map (queryBytes user) ks @ rest"
  shows "\<exists>st'. authLoop cr nl config conn st = authLoop cr nl config conn st' \<and> cache_agrees cr user perms refusal (au_cache st') \<and>
     au_io st' = (au_io st)\<lparr>io_in := rest, io_out := io_out (au_io st) @ map (replyTo config refusal) ks\<rparr>"
  using assms(3-6)
proof (induction ks arbitrary: st)
  case Nil
  then show ?case by (intro exI [of _ st]) auto
next
  case (Cons k ks)
  obtain st1 where 1: "authLoop cr nl config conn st = authLoop cr nl config conn st1" "cache_agrees cr user perms refusal (au_cache st1)"
     "au_io st1 = (au_io st)\<lparr>io_in := map (queryBytes user) ks @ rest, io_out := io_out (au_io st) @ [replyTo config refusal k]\<rparr>"
    using server_query [OF assms(1,2), of cr k st "map (queryBytes user) ks @ rest"] Cons.prems unfolding replyTo_def by auto
  with Cons.prems obtain st2 where 2: "authLoop cr nl config conn st1 = authLoop cr nl config conn st2" "cache_agrees cr user perms refusal (au_cache st2)"
     "au_io st2 = (au_io st1)\<lparr>io_in := rest, io_out := io_out (au_io st1) @ map (replyTo config refusal) ks\<rparr>"
    using Cons.IH [of st1] by auto
  with 1 show ?case by (intro exI [of _ st2]) simp
qed

lemma parseSignature_enc: "length (encString (encSig sig)) < 2 ^ 32 \<Longrightarrow> parseSignature (encString (encSig sig)) = Parsed sig []"
proof -
  assume l: "length (encString (encSig sig)) < 2 ^ 32"
  have "parseString (encString (encSig sig)) = Parsed (encSig sig) []"
    using parseString_encString [of "encSig sig" "[]"] l by simp
  moreover have "parseString (encSig sig) = Parsed (bytes_of (sig_Format sig)) (encString (sig_Blob sig))"
    "parseString (encString (sig_Blob sig)) = Parsed (sig_Blob sig) []"
    using l parseString_encString [of "bytes_of (sig_Format sig)" "encString (sig_Blob sig)"]
      parseString_encString [of "sig_Blob sig" "[]"] by (simp_all add: Signature_fields(2) encString_def)
  ultimately show ?thesis by (simp add: parseSignature_def parseSignatureBody_def)
qed

text \<open>The request that the client signs with a key.\<close>

definition signedBytes :: "string \<Rightarrow> Signer \<Rightarrow> Signature \<Rightarrow> bytes" where
  "signedBytes user k sig = reqBytes user ''publickey'' (keyPayload True (typeOf k) (encKey (signerPublicKey k)) (encString (encSig sig)))"

definition authDataFor :: "bytes \<Rightarrow> string \<Rightarrow> Signer \<Rightarrow> bytes" where
  "authDataFor session user k = encStruct authData_T (authData_vals session (requestOf user ''publickey'' []) (bytes_of (typeOf k)) (encKey (signerPublicKey k)))"

lemma server_signed:
  assumes "sc_PublicKeyCallback config = Some cb" "decides nl conn cb user perms refusal" "presentable cr user k"
    and "cache_agrees cr user perms refusal (au_cache st)" "io_in (au_io st) = signedBytes user k sig # rest"
    and "refusal (signerPublicKey k) = None" "length (signedBytes user k sig) < 2 ^ 32" "isAcceptableAlgo (sig_Format sig)"
    and "keyVerify cr (signerPublicKey k) (authDataFor (cm_SessionID conn) user k) sig = Ok ()"
  shows "\<exists>st'. authLoop cr nl config conn st = (st', Ok (perms (signerPublicKey k))) \<and> au_io st' = (au_io st)\<lparr>io_in := rest\<rparr>"
proof -
  note p = presentable_props [OF assms(3)]
  let ?st = "st\<lparr>au_io := (au_io st)\<lparr>io_in := rest\<rparr>, au_user := user\<rparr>"
  let ?req = "requestOf user ''publickey'' (keyPayload True (typeOf k) (encKey (signerPublicKey k)) (encString (encSig sig)))"
  obtain st1 c where l: "lookupCandidate nl conn cb ?st (encKey (signerPublicKey k)) (signerPublicKey k) = (st1, Ok c)"
    and c: "ck_perms c = perms (signerPublicKey k)" "ck_result c = None"
    using lookupCandidate_decides [OF assms(2), of cr ?st, OF _ _ p(5)] assms(4,6) by auto
  have io: "au_io st1 = (au_io st)\<lparr>io_in := rest\<rparr>" using lookupCandidate_frame [OF l] by simp
  have sig: "parseSignature (encString (encSig sig)) = Parsed sig []"
    using assms(7) by (intro parseSignature_enc) (simp add: signedBytes_def reqBytes_eq keyPayload_def)
  have "authData_vals (cm_SessionID conn) ?req = authData_vals (cm_SessionID conn) (requestOf user ''publickey'' [])"
    by (intro ext) (simp add: authData_vals_def requestOf_def)
  then have v: "verifyAttempt cr conn ?req (bytes_of (typeOf k)) (encKey (signerPublicKey k)) (signerPublicKey k) c (encString (encSig sig))
      = Verdict (perms (signerPublicKey k)) None"
    using assms(8,9) c by (simp add: verifyAttempt_def sig buildDataSignedForAuth_enc authDataFor_def)
  have "authMethod cr nl config conn ?st ?req = (st1, Verdict (perms (signerPublicKey k)) None)"
    using publickeyMethod_presented [OF assms(1,3) _ l, of True "encString (encSig sig)"] assms(7) v by (simp add: signedBytes_def)
  moreover obtain app where "authTail config conn st1 ''publickey'' (perms (signerPublicKey k)) None = (st1\<lparr>au_app := app\<rparr>, ADone (perms (signerPublicKey k)))"
    using authTail_accepted [of config conn st1 "''publickey''" "perms (signerPublicKey k)"] by auto
  ultimately show ?thesis
    using authLoop_request [OF assms(5) [unfolded signedBytes_def] assms(7) [unfolded signedBytes_def]] io by simp
qed

lemma server_none:
  assumes "\<not> sc_NoClientAuth config" "failureMethods config \<noteq> []" "io_wres (au_io st) = []"
    and "io_in (au_io st) = reqBytes user ''none'' [] # rest" "length (reqBytes user ''none'' []) < 2 ^ 32"
  shows "authLoop cr nl config conn st = authLoop cr nl config conn
     (st\<lparr>au_app := loggedApp config conn (st\<lparr>au_user := user\<rparr>) ''none'' (Some noAuthYet), au_user := user,
        au_io := (au_io st)\<lparr>io_in := rest, io_out := io_out (au_io st) @ [failBytes config]\<rparr>\<rparr>)"
proof -
  let ?st = "st\<lparr>au_io := (au_io st)\<lparr>io_in := rest\<rparr>, au_user := user\<rparr>"
  have "authMethod cr nl config conn ?st (requestOf user ''none'' []) = (?st, Verdict None (Some noAuthYet))"
    using assms(1) by (simp add: authMethod_def requestOf_def noneMethod_def Let_def)
  moreover have "authTail config conn ?st ''none'' None (Some noAuthYet)
       = (?st\<lparr>au_app := loggedApp config conn ?st ''none'' (Some noAuthYet), au_io := (au_io ?st)\<lparr>io_out := io_out (au_io ?st) @ [failBytes config]\<rparr>\<rparr>, AContinue)"
    using authTail_refused [OF assms(2), of ?st conn "''none''" None noAuthYet] assms(3) by simp
  moreover have "loggedApp config conn ?st = loggedApp config conn (st\<lparr>au_user := user\<rparr>)" by (intro ext) (simp add: loggedApp_def metaOf_def split: option.split)
  ultimately show ?thesis
    using authLoop_request [OF assms(4,5)] by (cases st) simp
qed

subsection \<open>The conversation on the client\<close>

lemma client_reads:
  "io_in io = failBytes config # rest \<Longrightarrow> failureMethods config \<noteq> [] \<Longrightarrow> handleAuthResponse io = (io\<lparr>io_in := rest\<rparr>, Ok (False, Some (failureMethods config)))"
  "io_in io = failBytes config # rest \<Longrightarrow> confirmAck algo d io = (io\<lparr>io_in := rest\<rparr>, Ok False)"
  by (subst handleAuthResponse.simps confirmAck.simps; simp add: readTyped_Cons failBytes_props)+

lemma client_confirms:
  assumes "presentable cr user k" "io_in io = keyOkBytes k # rest"
  shows "confirmAck (typeOf k) (encKey (signerPublicKey k)) io = (io\<lparr>io_in := rest\<rparr>, Ok True)"
proof -
  let ?m = "\<lparr>userAuthPubKeyOkMsg_Algo = typeOf k, userAuthPubKeyOkMsg_PubKey = encKey (signerPublicKey k)\<rparr>"
  have e: "keyOkBytes k = msgUserAuthPubKeyOk # encString (bytes_of (typeOf k)) @ encString (encKey (signerPublicKey k))"
    by (simp add: keyOkBytes_def encStruct_def userAuthPubKeyOkMsg_T_def userAuthPubKeyOkMsg_vals_def typeTag_def Atoi_def)
  have "length (keyOkBytes k) < 2 ^ 32"
    using presentable_props(4) [OF assms(1)] by (simp add: e queryBytes_def reqBytes_eq keyPayload_def)
  then have "rbind (Unmarshal (keyOkBytes k) userAuthPubKeyOkMsg_T) userAuthPubKeyOkMsg_of = Ok ?m"
    using e unfolding keyOkBytes_def
    by (intro userAuthPubKeyOkMsg.unmarshal_enc) (auto simp: userAuthPubKeyOkMsg_T_def userAuthPubKeyOkMsg_vals_def)
  then show ?thesis using assms(2) by (subst confirmAck.simps) (simp add: readTyped_Cons e del: rbind_eq_Ok)
qed

lemma client_query:
  assumes "presentable cr user k" "io_wres io = []" "io_in io = replyTo config refusal k # rest"
  shows "validateKey (signerPublicKey k) user (s, io)
     = ((s, io\<lparr>io_in := rest, io_out := io_out io @ [queryBytes user k]\<rparr>), Ok (refusal (signerPublicKey k) = None))"
  using assms presentable_props [OF assms(1)]
  by (simp add: validateKey_def sbind_def sendMsg_Ok keyQuery_eq queryBytes_def confirmKeyAck_def sres_def onIO_def
      replyTo_def client_reads client_confirms [OF assms(1)] split: if_splits)

lemma client_queries:
  assumes "\<forall>k\<in>set ks. presentable cr user k" "io_wres io = []" "io_in io = map (replyTo config refusal) ks @ rest"
  shows "validSigners user ks (s, io) = ((s, io\<lparr>io_in := rest, io_out := io_out io @ map (queryBytes user) ks\<rparr>),
     Ok (filter (\<lambda>k. refusal (signerPublicKey k) = None) ks))"
  using assms
proof (induction ks arbitrary: io)
  case (Cons k ks)
  then show ?case by (simp add: sbind_def sres_def client_query [where cr = cr and config = config and refusal = refusal and rest = "map (replyTo config refusal) ks @ rest"])
qed (simp add: sres_def)

subsection \<open>Both sides together\<close>

text \<open>
  The two ends of a connection agree on the packets in both directions: what the client sends is what the server reads and
  what the server sends is what the client reads, each reads everything, and both report success.
\<close>

definition letsIn :: "crypto \<Rightarrow> netlib \<Rightarrow> 's ServerConfig \<Rightarrow> connMeta \<Rightarrow> 's \<Rightarrow> signEnv \<Rightarrow> 'c ClientConfig \<Rightarrow> 'c \<Rightarrow> Permissions option \<Rightarrow> bool" where
  "letsIn cr nl config conn app env cconfig c perms \<longleftrightarrow> (\<exists>sent received io st c'.
     acceptService (fresh sent []) = (io, Ok ()) \<and> serverAuthenticate cr nl config conn app io = (st, Ok perms) \<and> au_io st = fresh [] received \<and>
     clientAuthenticate env (cm_SessionID conn) cconfig (c, fresh received []) = ((c', fresh [] sent), Ok ()))"

text \<open>The state of the application after the client's first attempt, without authentication, was logged.\<close>

definition afterNone :: "'s ServerConfig \<Rightarrow> connMeta \<Rightarrow> 'c ClientConfig \<Rightarrow> 's \<Rightarrow> 's" where
  "afterNone config conn cconfig app = (case sc_AuthLogCallback config of
     Some log \<Rightarrow> log app (conn\<lparr>cm_User := cc_User cconfig\<rparr>) ''none'' (Some noAuthYet) | None \<Rightarrow> app)"

lemma letsIn_by:
  assumes "\<not> sc_NoClientAuth config" "failureMethods config \<noteq> []" "length (reqBytes (cc_User cconfig) ''none'' []) < 2 ^ 32"
    and next_a: "findNext (cc_Auth cconfig) [''none''] (failureMethods config) = Some a"
    and server: "\<And>st. au_cache st = [] \<Longrightarrow> au_app st = afterNone config conn cconfig app \<Longrightarrow> io_wres (au_io st) = [] \<Longrightarrow> io_in (au_io st) = requests \<Longrightarrow>
       \<exists>st'. authLoop cr nl config conn st = (st', Ok perms) \<and> au_io st' = (au_io st)\<lparr>io_in := [], io_out := io_out (au_io st) @ replies\<rparr>"
    and client: "\<And>io. io_wres io = [] \<Longrightarrow> io_in io = replies @ [[msgUserAuthSuccess]] \<Longrightarrow>
       auth env (cm_SessionID conn) (cc_User cconfig) a (c, io) = ((c', io\<lparr>io_in := [], io_out := io_out io @ requests\<rparr>), Ok (True, None))"
  shows "letsIn cr nl config conn app env cconfig c perms"
proof -
  let ?none = "reqBytes (cc_User cconfig) ''none'' []"
  let ?sent = "serviceRequestBytes # ?none # requests"
  let ?received = "serviceAcceptBytes # failBytes config # replies @ [[msgUserAuthSuccess]]"
  let ?st = "\<lparr>au_app = app, au_io = fresh (?none # requests) [serviceAcceptBytes], au_cache = [], au_user = cm_User conn\<rparr>"
  let ?app1 = "afterNone config conn cconfig app"
  have n: "authLoop cr nl config conn ?st = authLoop cr nl config conn (?st\<lparr>au_app := ?app1, au_user := cc_User cconfig,
      au_io := fresh requests [serviceAcceptBytes, failBytes config]\<rparr>)"
    using server_none [OF assms(1,2) _ _ assms(3), of ?st requests cr nl conn]
    by (simp add: fresh_def afterNone_def loggedApp_def metaOf_def split: option.split)
  obtain st1 where "authLoop cr nl config conn (?st\<lparr>au_app := ?app1, au_user := cc_User cconfig, au_io := fresh requests [serviceAcceptBytes, failBytes config]\<rparr>)
      = (st1, Ok perms)" "au_io st1 = fresh [] ([serviceAcceptBytes, failBytes config] @ replies)"
    using server [of "?st\<lparr>au_app := ?app1, au_user := cc_User cconfig, au_io := fresh requests [serviceAcceptBytes, failBytes config]\<rparr>"]
    by (auto simp: fresh_def)
  with n have s: "\<exists>st. serverAuthenticate cr nl config conn app (fresh (?none # requests) [serviceAcceptBytes]) = (st, Ok perms) \<and> au_io st = fresh [] ?received"
    by (simp add: serverAuthenticate_def writePkt_def fresh_def)
  have "auth env (cm_SessionID conn) (cc_User cconfig) NoneAuth (c, fresh (failBytes config # replies @ [[msgUserAuthSuccess]]) [serviceRequestBytes])
      = ((c, fresh (replies @ [[msgUserAuthSuccess]]) [serviceRequestBytes, ?none]), Ok (False, Some (failureMethods config)))"
    by (simp add: noneAuth_auth_def sbind_def sendMsg_Ok noneRequest_eq onIO_def client_reads(1) [OF _ assms(2)] fresh_def)
  moreover have "auth env (cm_SessionID conn) (cc_User cconfig) a (c, fresh (replies @ [[msgUserAuthSuccess]]) [serviceRequestBytes, ?none])
      = ((c', fresh [] ?sent), Ok (True, None))"
    by (subst client) (simp_all add: fresh_def)
  ultimately have "clientLoop env (cm_SessionID conn) cconfig [] None NoneAuth (c, fresh (failBytes config # replies @ [[msgUserAuthSuccess]]) [serviceRequestBytes])
      = ((c', fresh [] ?sent), Ok ())"
    using next_a by (simp add: clientLoop.simps orEmpty_def)
  then have "clientAuthenticate env (cm_SessionID conn) cconfig (c, fresh ?received []) = ((c', fresh [] ?sent), Ok ())"
    by (simp add: clientAuthenticate_def sbind_def onIO_def service_exchange)
  with s service_exchange(1) [of "?none # requests" "[]"] show ?thesis unfolding letsIn_def by fastforce
qed

lemma findNext_first: "methodOf a \<noteq> ''none'' \<Longrightarrow> methodOf a \<in> set (failureMethods config) \<Longrightarrow> findNext (a # as) [''none''] (failureMethods config) = Some a"
  by (simp add: findNext_def)

lemma signed_verifies:
  assumes "sign_laws cr sp" "signer_ok k" "presentable cr user k"
    and "Sign cr sp k rand (authDataFor session user k) = Ok sig"
  shows "signedRequest cr sp rand session user k = Ok (signedBytes user k sig)"
    and "keyVerify cr (signerPublicKey k) (authDataFor session user k) sig = Ok ()"
proof -
  note p = presentable_props [OF assms(3)]
  have "buildDataSignedForAuth session (requestOf user ''publickey'' []) (bytes_of (typeOf k)) (encKey (signerPublicKey k)) = Ok (authDataFor session user k)"
    by (simp add: buildDataSignedForAuth_enc authDataFor_def)
  from signedRequest_eq [OF p(2,1) this assms(4)] show "signedRequest cr sp rand session user k = Ok (signedBytes user k sig)"
    by (simp add: signedBytes_def)
  show "keyVerify cr (signerPublicKey k) (authDataFor session user k) sig = Ok ()" using Sign_verifies [OF assms(1,4,2)] .
qed

text \<open>(C30) A client with a key that the server accepts gets in: the client has any number of keys, of which the server's callback
  refuses all before \<open>k\<close> and accepts \<open>k\<close>; under the laws of the signature primitives the enquiries, the answers, the signed
  request and its verification agree on both ends, the server lets the client in with the permissions of that key, and the
  client reports success.\<close>

theorem accepted_key_gets_in:
  assumes "sign_laws cr (se_prims env)" "se_crypto env = cr" "\<not> sc_NoClientAuth config" "sc_PublicKeyCallback config = Some cb"
    and "decides nl conn cb (cc_User cconfig) perms refusal"
    and "cc_Auth cconfig = PublicKeys (before @ k # after) # others" "\<forall>s\<in>set (before @ k # after). presentable cr (cc_User cconfig) s"
    and "\<forall>s\<in>set before. refusal (signerPublicKey s) \<noteq> None" "refusal (signerPublicKey k) = None"
    and "signer_ok k" "Sign cr (se_prims env) k (se_rand env 0) (authDataFor (cm_SessionID conn) (cc_User cconfig) k) = Ok sig"
    and "isAcceptableAlgo (sig_Format sig)" "length (signedBytes (cc_User cconfig) k sig) < 2 ^ 32"
  shows "letsIn cr nl config conn app env cconfig c (perms (signerPublicKey k))"
proof -
  let ?ks = "before @ k # after" and ?user = "cc_User cconfig" and ?sid = "cm_SessionID conn"
  let ?requests = "map (queryBytes ?user) ?ks @ [signedBytes ?user k sig]" and ?replies = "map (replyTo config refusal) ?ks"
  have pk: "presentable cr ?user k" using assms(7) by simp
  note sv = signed_verifies [OF assms(1,10) pk assms(11)]
  have fm: "failureMethods config \<noteq> []" "''publickey'' \<in> set (failureMethods config)" using assms(4) by (simp_all add: failureMethods_def)
  show ?thesis
  proof (rule letsIn_by [OF assms(3) fm(1), where requests = ?requests and replies = ?replies and c' = c])
    show "length (reqBytes ?user ''none'' []) < 2 ^ 32" using assms(13) by (simp add: signedBytes_def reqBytes_eq encString_def)
    show "findNext (cc_Auth cconfig) [''none''] (failureMethods config) = Some (PublicKeys ?ks)"
      unfolding assms(6) using fm(2) by (intro findNext_first) (simp_all add: PublicKeys_def)
  next
    fix st :: "'a authSt" assume st: "au_cache st = []" "io_wres (au_io st) = []" "io_in (au_io st) = ?requests"
    obtain st1 where 1: "authLoop cr nl config conn st = authLoop cr nl config conn st1" "cache_agrees cr ?user perms refusal (au_cache st1)"
      "au_io st1 = (au_io st)\<lparr>io_in := [signedBytes ?user k sig], io_out := io_out (au_io st) @ ?replies\<rparr>"
      using server_queries [OF assms(4,5,7) _ st(2,3)] st(1) by (auto simp: cache_agrees_def)
    from server_signed [OF assms(4,5) pk 1(2) _ assms(9,13,12) sv(2), of "[]"] 1
    show "\<exists>st'. authLoop cr nl config conn st = (st', Ok (perms (signerPublicKey k))) \<and>
        au_io st' = (au_io st)\<lparr>io_in := [], io_out := io_out (au_io st) @ ?replies\<rparr>" by auto
  next
    fix io :: pktIO assume io: "io_wres io = []" "io_in io = ?replies @ [[msgUserAuthSuccess]]"
    obtain valid where v: "filter (\<lambda>k. refusal (signerPublicKey k) = None) ?ks = k # valid"
      using assms(8,9) by (simp add: filter_empty_conv)
    then have vs: "validSigners ?user ?ks (c, io) = ((c, io\<lparr>io_in := [[msgUserAuthSuccess]], io_out := io_out io @ map (queryBytes ?user) ?ks\<rparr>), Ok (k # valid))"
      using client_queries [OF assms(7) io, of c] by simp
    show "auth env ?sid ?user (PublicKeys ?ks) (c, io) = ((c, io\<lparr>io_in := [], io_out := io_out io @ ?requests\<rparr>), Ok (True, None))"
      using io(1) sv(1) assms(2)
      by (simp add: PublicKeys_def publicKeyCallback_auth_def sbind_def callback_def vs [simplified] sendMsg_Ok onIO_def handleAuthResponse_success sres_def)
  qed
qed


lemma authLoop_accepted:
  assumes "io_in (au_io st) = reqBytes user m payload # rest" "length (reqBytes user m payload) < 2 ^ 32"
    and "authMethod cr nl config conn (st\<lparr>au_io := (au_io st)\<lparr>io_in := rest\<rparr>, au_user := user\<rparr>) (requestOf user m payload) = (st1, Verdict perms None)"
  shows "\<exists>st'. authLoop cr nl config conn st = (st', Ok perms) \<and> au_io st' = au_io st1"
  using authTail_accepted [of config conn st1 m perms] authLoop_request [OF assms] by auto

lemma accepted_password:
  assumes "\<not> sc_NoClientAuth config" "sc_PasswordCallback config = Some cb"
    and "cb (afterNone config conn cconfig app) (conn\<lparr>cm_User := cc_User cconfig\<rparr>) (bytes_of pw) = (app', perms, None)"
    and "cc_Auth cconfig = Password pw # others" "length (reqBytes (cc_User cconfig) ''password'' (0 # encString (bytes_of pw))) < 2 ^ 32"
  shows "letsIn cr nl config conn app env cconfig c perms"
proof -
  let ?req = "reqBytes (cc_User cconfig) ''password'' (0 # encString (bytes_of pw))"
  have fm: "failureMethods config \<noteq> []" "''password'' \<in> set (failureMethods config)" using assms(2) by (simp_all add: failureMethods_def)
  have pw: "parseString (encString (bytes_of pw)) = Parsed (bytes_of pw) []"
    using parseString_encString [of "bytes_of pw" "[]"] assms(5) by (simp add: reqBytes_eq)
  show ?thesis
  proof (rule letsIn_by [OF assms(1) fm(1), where requests = "[?req]" and replies = "[]" and c' = c])
    show "length (reqBytes (cc_User cconfig) ''none'' []) < 2 ^ 32" using assms(5) by (simp add: reqBytes_eq encString_def)
    show "findNext (cc_Auth cconfig) [''none''] (failureMethods config) = Some (Password pw)"
      unfolding assms(4) using fm(2) by (intro findNext_first) (simp_all add: Password_def)
  next
    fix st :: "'a authSt" assume st: "au_app st = afterNone config conn cconfig app" "io_in (au_io st) = [?req]"
    have "authMethod cr nl config conn (st\<lparr>au_io := (au_io st)\<lparr>io_in := []\<rparr>, au_user := cc_User cconfig\<rparr>) (requestOf (cc_User cconfig) ''password'' (0 # encString (bytes_of pw)))
        = (st\<lparr>au_io := (au_io st)\<lparr>io_in := []\<rparr>, au_user := cc_User cconfig, au_app := app'\<rparr>, Verdict perms None)"
      using assms(2,3) st(1) pw by (simp add: authMethod_def passwordMethod_def requestOf_def metaOf_def Let_def)
    from authLoop_accepted [OF st(2) assms(5) this]
    show "\<exists>st'. authLoop cr nl config conn st = (st', Ok perms) \<and> au_io st' = (au_io st)\<lparr>io_in := [], io_out := io_out (au_io st) @ []\<rparr>" by simp
  next
    fix io :: pktIO assume "io_wres io = []" "io_in io = [] @ [[msgUserAuthSuccess]]"
    then show "auth env (cm_SessionID conn) (cc_User cconfig) (Password pw) (c, io) = ((c, io\<lparr>io_in := [], io_out := io_out io @ [?req]\<rparr>), Ok (True, None))"
      by (simp add: Password_def passwordCallback_auth_def sbind_def callback_def sendMsg_Ok passwordRequest_eq onIO_def handleAuthResponse_success)
  qed
qed

text \<open>(C31) Keyboard-interactive authentication over the wire is the interview that the two callbacks hold: if the server's callback,
  put directly to the client's callback, ends by accepting the user, then the server that runs its callback against the
  client over a connection lets the client in with the same permissions, for any number of challenges and any number of
  questions in each.\<close>

theorem interview_refined:
  assumes "\<not> sc_NoClientAuth config" "sc_KeyboardInteractiveCallback config = Some kcb"
    and "interview (kcb (afterNone config conn cconfig app) (conn\<lparr>cm_User := cc_User cconfig\<rparr>)) cb c = Some (c', app', perms, None)"
    and "cc_Auth cconfig = KeyboardInteractive cb # others" "length (initiateBytes (cc_User cconfig)) < 2 ^ 32"
  shows "letsIn cr nl config conn app env cconfig c perms"
proof -
  let ?user = "cc_User cconfig" and ?prog = "kcb (afterNone config conn cconfig app) (conn\<lparr>cm_User := cc_User cconfig\<rparr>)"
  have fm: "failureMethods config \<noteq> []" "''keyboard-interactive'' \<in> set (failureMethods config)" using assms(2) by (simp_all add: failureMethods_def)
  from interview_wire [OF assms(3)] obtain questions answers where
    s: "\<And>io rest. io_wres io = [] \<Longrightarrow> io_in io = answers @ rest \<Longrightarrow>
        runKI ?prog io = (io\<lparr>io_in := rest, io_out := io_out io @ questions\<rparr>, Ok (app', perms, None))"
    and t: "\<And>io rest. io_wres io = [] \<Longrightarrow> io_in io = questions @ rest \<Longrightarrow>
        interactiveLoop cb c io = interactiveLoop cb c' (io\<lparr>io_in := rest, io_out := io_out io @ answers\<rparr>)" by blast
  show ?thesis
  proof (rule letsIn_by [OF assms(1) fm(1), where requests = "initiateBytes ?user # answers" and replies = questions and c' = c'])
    show "length (reqBytes ?user ''none'' []) < 2 ^ 32" using assms(5) by (simp add: initiateBytes_def reqBytes_eq encString_def)
    show "findNext (cc_Auth cconfig) [''none''] (failureMethods config) = Some (KeyboardInteractive cb)"
      unfolding assms(4) using fm(2) by (intro findNext_first) simp_all
  next
    fix st :: "'a authSt" assume st: "au_app st = afterNone config conn cconfig app" "io_wres (au_io st) = []" "io_in (au_io st) = initiateBytes ?user # answers"
    have "authMethod cr nl config conn (st\<lparr>au_io := (au_io st)\<lparr>io_in := answers\<rparr>, au_user := ?user\<rparr>) (requestOf ?user ''keyboard-interactive'' (encString [] @ encString []))
        = (st\<lparr>au_io := (au_io st)\<lparr>io_in := [], io_out := io_out (au_io st) @ questions\<rparr>, au_user := ?user, au_app := app'\<rparr>, Verdict perms None)"
      using assms(2) st(1,2) s [of "(au_io st)\<lparr>io_in := answers\<rparr>" "[]"]
      by (simp add: authMethod_def keyboardMethod_def requestOf_def metaOf_def Let_def)
    from authLoop_accepted [OF st(3) [unfolded initiateBytes_def] assms(5) [unfolded initiateBytes_def] this]
    show "\<exists>st'. authLoop cr nl config conn st = (st', Ok perms) \<and> au_io st' = (au_io st)\<lparr>io_in := [], io_out := io_out (au_io st) @ questions\<rparr>" by simp
  next
    fix io :: pktIO assume io: "io_wres io = []" "io_in io = questions @ [[msgUserAuthSuccess]]"
    have "interactiveLoop cb c' i = ((c', i\<lparr>io_in := []\<rparr>), Ok (True, None))" if "io_in i = [[msgUserAuthSuccess]]" for i
      using that by (subst interactiveLoop.simps) (simp add: readTyped_Cons)
    then show "auth env (cm_SessionID conn) ?user (KeyboardInteractive cb) (c, io)
        = ((c', io\<lparr>io_in := [], io_out := io_out io @ initiateBytes ?user # answers\<rparr>), Ok (True, None))"
      using io by (simp add: interactive_auth_def sbind_def sendMsg_Ok initiateMsg_eq t [where rest = "[[msgUserAuthSuccess]]"])
  qed
qed

lemma demo_presentable: "presentable demoCrypto ''bob'' demoDSA" "typeOf demoDSA = KeyAlgoDSA"
proof -
  have k: "keyType (signerPublicKey demoDSA) = Ok KeyAlgoDSA" "wf_key demoCrypto (signerPublicKey demoDSA)" by (simp_all add: demoDSA_def)
  then show "typeOf demoDSA = KeyAlgoDSA" by (simp add: typeOf_def)
  show "presentable demoCrypto ''bob'' demoDSA"
    using k by (auto simp: presentable_def isAcceptableAlgo_def reqBytes_eq keyPayload_def encString_def demo_lengths)
qed

lemma demo_signs: "\<exists>sig. Sign demoCrypto demoPrims demoDSA [] d = Ok sig \<and> sig_Format sig = KeyAlgoDSA \<and> length (sig_Blob sig) = 40"
proof -
  have b: "length (be_bytes 5) \<le> 20"
    "rbind (overlay (replicate 40 0) (20 - int (length (be_bytes 5))) (be_bytes 5)) (\<lambda>sig. overlay sig (40 - int (length (be_bytes 300))) (be_bytes 300))
      = Ok (be_fixed 20 5 @ be_fixed 20 300)"
    using dsa_blob [of 5 300] by (simp_all del: rbind_eq_Ok)
  from b(2) obtain w where "overlay (replicate 40 0) (20 - int (length (be_bytes 5))) (be_bytes 5) = Ok w"
    "overlay w (40 - int (length (be_bytes 300))) (be_bytes 300) = Ok (be_fixed 20 5 @ be_fixed 20 300)" by auto
  moreover have "length (be_fixed 20 5 @ be_fixed 20 300) = 40" by code_simp
  ultimately show ?thesis using b(1) by (simp add: demoDSA_def dsaSign_def demoPrims_def Let_def)
qed

theorem accepted_key_gets_in_witness:
  "letsIn demoCrypto demoNet demoConfig demoConn 0 demoSignEnv (demoClient [PublicKeys [demoDSA]]) 0 None"
proof -
  obtain sig where sig: "Sign demoCrypto demoPrims demoDSA [] (authDataFor [1, 2] ''bob'' demoDSA) = Ok sig" "sig_Format sig = KeyAlgoDSA" "length (sig_Blob sig) = 40"
    using demo_signs by blast
  show ?thesis
  proof (rule accepted_key_gets_in [where cb = "\<lambda>n conn k. (n + 1, None, if cm_User conn = ''bob'' then None else Some noAuthYet)" and k = demoDSA
        and perms = "\<lambda>_. None" and refusal = "\<lambda>_. None" and before = "[]" and after = "[]" and others = "[]" and sig = sig])
    show "sign_laws demoCrypto (se_prims demoSignEnv)" by (simp add: demo_sign_laws demoSignEnv_def)
    show "length (signedBytes (cc_User (demoClient [PublicKeys [demoDSA]])) demoDSA sig) < 2 ^ 32"
      using sig(2,3) by (simp add: signedBytes_def reqBytes_eq keyPayload_def demo_presentable demo_lengths encString_def Signature_fields(2) demoClient_def)
  qed (use sig demo_presentable in \<open>simp_all add: demoSignEnv_def demoClient_def demoConfig_def demoConn_def decides_def sourceAddressOf_def isAcceptableAlgo_def\<close>,
    simp add: demoDSA_def)
qed

text \<open>A server that asks for a colour, twice if the first answer is wrong.\<close>

definition demoAsk :: "nat \<Rightarrow> connMeta \<Rightarrow> nat kiProg" where
  "demoAsk n conn = KIAsk (cm_User conn) ''quiz'' [''colour?''] [True] (\<lambda>r. if r = Ok [''red''] then KIDone n (None, None)
     else KIAsk (cm_User conn) ''again'' [''colour?''] [True] (\<lambda>r. KIDone (n + 1) (None, if r = Ok [''red''] then None else Some noAuthYet)))"

definition demoAnswer :: "nat challengeCallback" where
  "demoAnswer n user instr qs es = (n + 1, Ok [if instr = ''again'' then ''red'' else ''blue''])"

theorem interview_refined_witness:
  "letsIn demoCrypto demoNet (demoConfig\<lparr>sc_KeyboardInteractiveCallback := Some demoAsk\<rparr>) demoConn 0 demoSignEnv (demoClient [KeyboardInteractive demoAnswer]) 0 None"
proof (rule interview_refined [where kcb = demoAsk and cb = demoAnswer and c' = 2 and app' = 1 and others = "[]"])
  have "length (infoBytes i [''colour?''] [True]) = 29 + length i" for i
    by (simp add: infoBytes_def infoRequest_def encStruct_def userAuthInfoRequestMsg_T_def userAuthInfoRequestMsg_vals_def typeTag_def Atoi_def
        appendString_def appendBool_def appendU32_def encString_def be32_def)
  then show "interview (demoAsk (afterNone (demoConfig\<lparr>sc_KeyboardInteractiveCallback := Some demoAsk\<rparr>) demoConn (demoClient [KeyboardInteractive demoAnswer]) 0)
      (demoConn\<lparr>cm_User := cc_User (demoClient [KeyboardInteractive demoAnswer])\<rparr>)) demoAnswer 0 = Some (2, 1, None, None)"
    by (simp add: demoAsk_def demoAnswer_def afterNone_def demoConfig_def encAnswers_def encString_def)
  show "length (initiateBytes (cc_User (demoClient [KeyboardInteractive demoAnswer]))) < 2 ^ 32"
    by (simp add: initiateBytes_def reqBytes_eq encString_def demoClient_def)
qed (simp_all add: demoConfig_def demoClient_def)

end
