(* ===== verification/Keyring.thy ===== *)
theory Keyring
  imports Signers
begin

text \<open>
  The agent that holds keys in memory (\<^verbatim>\<open>agent/keyring.go\<close>). Every operation runs under the lock of the keyring, so each is one
  step on its state. A public key that is passed to an operation is used only for its printed form, which is the argument
  here. \<open>Remove\<close> has a loop that may not end.
\<close>

section \<open>State and operations\<close>

record privKey =
  pv_signer :: Signer
  pv_comment :: string

record keyring =
  kg_keys :: "privKey list"
  kg_locked :: bool
  kg_passphrase :: bytes

text \<open>An identity as the agent lists it (\<^verbatim>\<open>Key\<close> of \<^verbatim>\<open>agent/client.go\<close>).\<close>

record agentKey =
  ak_Format :: string
  ak_Blob :: bytes
  ak_Comment :: string

definition errLocked :: goerr where
  "errLocked = ErrNew ''agent: locked''"

definition NewKeyring :: keyring where
  "NewKeyring = \<lparr>kg_keys = [], kg_locked = False, kg_passphrase = []\<rparr>"

definition keyring_RemoveAll :: "(keyring, unit) goStep" where
  "keyring_RemoveAll r = (if kg_locked r then (r, Err errLocked) else (r\<lparr>kg_keys := []\<rparr>, Ok ()))"

definition blobOf :: "privKey \<Rightarrow> bytes res" where
  "blobOf k = keyMarshal (signerPublicKey (pv_signer k))"

text \<open>
  The loop of \<open>Remove\<close>: a match is overwritten with the last key, and then \<^verbatim>\<open>r.keys[len(r.keys)-1:]\<close> is kept, the slice from
  the last key on.
\<close>

partial_function (option) removeLoop :: "bytes \<Rightarrow> nat \<Rightarrow> bool \<Rightarrow> privKey list \<Rightarrow> (privKey list \<times> bool res) option" where
  "removeLoop want i found keys =
     (if i < length keys
      then (case blobOf (keys ! i) of
          Ok b \<Rightarrow> if b = want then removeLoop want i True (drop (length keys - 1) (keys[i := keys ! (length keys - 1)]))
             else removeLoop want (i + 1) found keys
        | Err e \<Rightarrow> Some (keys, Err e)
        | Panic p \<Rightarrow> Some (keys, Panic p))
      else Some (keys, Ok found))"

definition keyring_Remove :: "bytes \<Rightarrow> (keyring, unit) goProc" where
  "keyring_Remove want r =
     (if kg_locked r then Some (r, Err errLocked)
      else Option.bind (removeLoop want 0 False (kg_keys r)) (\<lambda>(keys, found).
        Some (r\<lparr>kg_keys := keys\<rparr>, rbind found (\<lambda>f. if \<not> f then Err (ErrNew ''agent: key not found'') else Ok ()))))"

definition keyring_Lock :: "bytes \<Rightarrow> (keyring, unit) goStep" where
  "keyring_Lock passphrase r =
     (if kg_locked r then (r, Err errLocked) else (r\<lparr>kg_locked := True, kg_passphrase := passphrase\<rparr>, Ok ()))"

text \<open>The constant-time comparison is equality.\<close>

definition keyring_Unlock :: "bytes \<Rightarrow> (keyring, unit) goStep" where
  "keyring_Unlock passphrase r =
     (if \<not> kg_locked r then (r, Err (ErrNew ''agent: not locked''))
      else if length passphrase \<noteq> length (kg_passphrase r) \<or> passphrase \<noteq> kg_passphrase r
      then (r, Err (Errorf ''agent: incorrect passphrase'' []))
      else (r\<lparr>kg_locked := False, kg_passphrase := []\<rparr>, Ok ()))"

fun listKeys :: "privKey list \<Rightarrow> agentKey list res" where
  "listKeys [] = Ok []"
| "listKeys (k # ks) = rbind (keyType (signerPublicKey (pv_signer k))) (\<lambda>format. rbind (blobOf k) (\<lambda>blob.
     rbind (listKeys ks) (\<lambda>ids. Ok (\<lparr>ak_Format = format, ak_Blob = blob, ak_Comment = pv_comment k\<rparr> # ids))))"

definition keyring_List :: "(keyring, agentKey list) goStep" where
  "keyring_List r = (if kg_locked r then (r, Ok []) else (r, listKeys (kg_keys r)))"

definition keyring_Add :: "anyKey \<Rightarrow> Certificate option \<Rightarrow> string \<Rightarrow> (keyring, unit) goStep" where
  "keyring_Add priv cert comment r =
     (if kg_locked r then (r, Err errLocked)
      else case rbind (NewSignerFromKey priv) (\<lambda>signer. case cert of None \<Rightarrow> Ok signer | Some c \<Rightarrow> NewCertSigner c signer) of
          Ok signer \<Rightarrow> (r\<lparr>kg_keys := kg_keys r @ [\<lparr>pv_signer = signer, pv_comment = comment\<rparr>]\<rparr>, Ok ())
        | Err e \<Rightarrow> (r, Err e)
        | Panic p \<Rightarrow> (r, Panic p))"

fun signWith :: "crypto \<Rightarrow> signprims \<Rightarrow> bytes \<Rightarrow> bytes \<Rightarrow> bytes \<Rightarrow> privKey list \<Rightarrow> Signature res" where
  "signWith cr sp rand wanted data [] = Err (ErrNew ''not found'')"
| "signWith cr sp rand wanted data (k # ks) = rbind (blobOf k) (\<lambda>b.
     if b = wanted then Sign cr sp (pv_signer k) rand data else signWith cr sp rand wanted data ks)"

definition keyring_Sign :: "crypto \<Rightarrow> signprims \<Rightarrow> bytes \<Rightarrow> bytes \<Rightarrow> bytes \<Rightarrow> (keyring, Signature) goStep" where
  "keyring_Sign cr sp rand wanted data r = (if kg_locked r then (r, Err errLocked) else (r, signWith cr sp rand wanted data (kg_keys r)))"

definition keyring_Signers :: "(keyring, Signer list) goStep" where
  "keyring_Signers r = (if kg_locked r then (r, Err errLocked) else (r, Ok (map pv_signer (kg_keys r))))"

section \<open>What removing a key does\<close>

text \<open>A keyring whose keys can all be printed.\<close>

definition printable :: "privKey list \<Rightarrow> bool" where
  "printable ks \<longleftrightarrow> (\<forall>k\<in>set ks. is_ok (blobOf k))"

definition matches :: "bytes \<Rightarrow> privKey \<Rightarrow> bool" where
  "matches want k \<longleftrightarrow> blobOf k = Ok want"

lemma blobOf_printable: "printable ks \<Longrightarrow> i < length ks \<Longrightarrow> \<exists>b. blobOf (ks ! i) = Ok b"
  by (cases "blobOf (ks ! i)") (auto simp: printable_def dest!: bspec [of _ _ "ks ! i"])

lemma removeLoop_done: "length keys \<le> i \<Longrightarrow> removeLoop want i found keys = Some (keys, Ok found)"
  by (subst removeLoop.simps) simp

lemma removeLoop_skip:
  assumes "printable keys" "i < length keys" "\<not> matches want (keys ! i)"
  shows "removeLoop want i found keys = removeLoop want (i + 1) found keys"
  using assms blobOf_printable [OF assms(1,2)] by (subst removeLoop.simps) (auto simp: matches_def)

lemma removeLoop_hit:
  assumes "i < length keys" "matches want (keys ! i)"
  shows "removeLoop want i found keys = removeLoop want i True [last keys]"
proof -
  let ?n = "length keys - 1"
  have "drop ?n (keys[i := keys ! ?n]) = [keys ! ?n]"
    using assms(1) Cons_nth_drop_Suc [of ?n "keys[i := keys ! ?n]"] by (auto simp: nth_list_update)
  moreover have "keys ! ?n = last keys" using assms(1) by (cases "keys = []") (simp_all add: last_conv_nth)
  ultimately show ?thesis using assms by (subst removeLoop.simps) (simp add: matches_def)
qed

text \<open>On a single key that matches, the slice from the last key on is the whole slice, and the loop never ends.\<close>

lemma removeLoop_stuck: "matches want k \<Longrightarrow> removeLoop want 0 found [k] = None"
proof -
  assume k: "matches want k"
  have "w = want \<longrightarrow> i = 0 \<longrightarrow> ks = [k] \<longrightarrow> False" if "removeLoop w i f ks = Some y" for w i f ks y
  proof (rule removeLoop.raw_induct [where P = "\<lambda>w i f ks y. w = want \<longrightarrow> i = 0 \<longrightarrow> ks = [k] \<longrightarrow> False", OF _ that], goal_cases)
    case (1 loop w i f ks y)
    from 1(2) 1(1) [of want 0 True "[k]" y] k show ?case by (auto simp: matches_def)
  qed
  from this [of want 0 found "[k]"] show ?thesis by (cases "removeLoop want 0 found [k]") auto
qed
lemma removeLoop_scan:
  assumes "printable keys" "j \<le> length keys" "\<forall>k < j. i \<le> k \<longrightarrow> \<not> matches want (keys ! k)" "i \<le> j"
  shows "removeLoop want i found keys = removeLoop want j found keys"
  using assms(2-)
proof (induction "j - i" arbitrary: i)
  case (Suc n)
  then have "removeLoop want i found keys = removeLoop want (i + 1) found keys" by (intro removeLoop_skip [OF assms(1)]) auto
  also have "\<dots> = removeLoop want j found keys" using Suc by (intro Suc.hyps) auto
  finally show ?case .
qed simp

text \<open>(C32) What \<open>Remove\<close> does, against what its comment promises (\<^emph>\<open>removes all identities with the given public key\<close>): a key that is not
  there is reported and nothing changes; if the first and the last key of the ring match, the call never returns and the
  ring stays locked for every other goroutine; otherwise all keys are dropped except the last one, whichever key it is, even
  if it is the one to be removed.\<close>

theorem remove_keeps_the_last_key:
  assumes "printable (kg_keys r)" "\<not> kg_locked r"
  shows "keyring_Remove want r =
    (if \<forall>k\<in>set (kg_keys r). \<not> matches want k then Some (r, Err (ErrNew ''agent: key not found''))
     else if matches want (hd (kg_keys r)) \<and> matches want (last (kg_keys r)) then None
     else Some (r\<lparr>kg_keys := [last (kg_keys r)]\<rparr>, Ok ()))"
proof (cases "\<forall>k\<in>set (kg_keys r). \<not> matches want k")
  case True
  then have "removeLoop want 0 False (kg_keys r) = removeLoop want (length (kg_keys r)) False (kg_keys r)"
    by (intro removeLoop_scan [OF assms(1)]) auto
  then show ?thesis using True assms(2) by (simp add: keyring_Remove_def removeLoop_done)
next
  case False
  let ?ks = "kg_keys r"
  define i where "i = (LEAST i. i < length ?ks \<and> matches want (?ks ! i))"
  from False have "\<exists>i < length ?ks. matches want (?ks ! i)" by (auto simp: in_set_conv_nth)
  then have i: "i < length ?ks" "matches want (?ks ! i)" unfolding i_def by (metis (mono_tags, lifting) LeastI)+
  have "\<not> matches want (?ks ! k)" if "k < i" for k
    using that i(1) not_less_Least [of k "\<lambda>i. i < length ?ks \<and> matches want (?ks ! i)"] unfolding i_def by auto
  then have "removeLoop want 0 False ?ks = removeLoop want i False ?ks" using i(1) by (intro removeLoop_scan [OF assms(1)]) auto
  also have "\<dots> = removeLoop want i True [last ?ks]" by (rule removeLoop_hit [OF i])
  finally have *: "removeLoop want 0 False ?ks = removeLoop want i True [last ?ks]" .
  have ne: "?ks \<noteq> []" using i(1) by auto
  have pl: "printable [last ?ks]" using assms(1) ne by (simp add: printable_def)
  have zero: "i = 0 \<longleftrightarrow> matches want (hd ?ks)"
    using ne i \<open>\<And>k. k < i \<Longrightarrow> \<not> matches want (?ks ! k)\<close> [of 0] by (auto simp: hd_conv_nth)
  show ?thesis
  proof (cases "matches want (hd ?ks) \<and> matches want (last ?ks)")
    case True
    then have "removeLoop want i True [last ?ks] = None" using zero by (simp add: removeLoop_stuck)
    with True False assms(2) * show ?thesis by (auto simp: keyring_Remove_def)
  next
    case last: False
    have "removeLoop want i True [last ?ks] = Some ([last ?ks], Ok True)"
    proof (cases "i = 0")
      case True
      with last zero removeLoop_skip [OF pl, of 0 want True] show ?thesis by (simp add: removeLoop_done)
    next
      case False
      then show ?thesis by (intro removeLoop_done) simp
    qed
    with last False assms(2) * show ?thesis by (auto simp: keyring_Remove_def)
  qed
qed

definition demoRing :: keyring where
  "demoRing = \<lparr>kg_keys = [\<lparr>pv_signer = demoDSA, pv_comment = ''old''\<rparr>,
     \<lparr>pv_signer = RSASigner \<lparr>rsaPriv_PublicKey = \<lparr>rsa_E = 3, rsa_N = 33\<rparr>, rsaPriv_D = 7\<rparr>, pv_comment = ''new''\<rparr>],
     kg_locked = False, kg_passphrase = []\<rparr>"

text \<open>Removing the second of two keys removes the first.\<close>

theorem remove_keeps_the_last_key_witness:
  "keyring_Remove (encKey (RSAKey \<lparr>rsa_E = 3, rsa_N = 33\<rparr>)) demoRing = Some (demoRing\<lparr>kg_keys := [last (kg_keys demoRing)]\<rparr>, Ok ())
   \<and> matches (encKey (RSAKey \<lparr>rsa_E = 3, rsa_N = 33\<rparr>)) (last (kg_keys demoRing))"
proof -
  let ?want = "encKey (RSAKey \<lparr>rsa_E = 3, rsa_N = 33\<rparr>)"
  have 1: "is_ok (blobOf (kg_keys demoRing ! 0))" "\<not> matches ?want (kg_keys demoRing ! 0)" "matches ?want (kg_keys demoRing ! 1)"
    unfolding matches_def by code_simp+
  have ks: "set (kg_keys demoRing) = {kg_keys demoRing ! 0, kg_keys demoRing ! 1}" "hd (kg_keys demoRing) = kg_keys demoRing ! 0"
    "last (kg_keys demoRing) = kg_keys demoRing ! 1" "\<not> kg_locked demoRing" by (simp_all add: demoRing_def)
  have "printable (kg_keys demoRing)" using 1 unfolding printable_def ks by (auto simp: matches_def)
  from remove_keeps_the_last_key [OF this ks(4), of ?want] 1 show ?thesis by (simp add: ks)
qed

end
