(* ===== verification/Agent.thy ===== *)
theory Agent
  imports Keyring Cipher
begin

text \<open>
  The agent protocol: the server that answers requests with an agent (\<^verbatim>\<open>agent/server.go\<close>) and the client that speaks to it
  (\<^verbatim>\<open>agent/client.go\<close>). The server uses an agent through the interface \<^verbatim>\<open>Agent\<close>; the keyring is one.
\<close>

section \<open>The interface of an agent\<close>

record 's agentOps =
  ag_List :: "('s, agentKey list) goProc"
  ag_Sign :: "bytes \<Rightarrow> bytes \<Rightarrow> ('s, Signature) goProc"
  ag_Add :: "anyKey \<Rightarrow> Certificate option \<Rightarrow> string \<Rightarrow> ('s, unit) goProc"
  ag_Remove :: "bytes \<Rightarrow> ('s, unit) goProc"
  ag_RemoveAll :: "('s, unit) goProc"
  ag_Lock :: "bytes \<Rightarrow> ('s, unit) goProc"
  ag_Unlock :: "bytes \<Rightarrow> ('s, unit) goProc"

definition returns :: "('s, 'a) goStep \<Rightarrow> ('s, 'a) goProc" where
  "returns f = (\<lambda>s. Some (f s))"

definition keyringAgent :: "crypto \<Rightarrow> signprims \<Rightarrow> bytes \<Rightarrow> keyring agentOps" where
  "keyringAgent cr sp rand = \<lparr>ag_List = returns keyring_List, ag_Sign = (\<lambda>key data. returns (keyring_Sign cr sp rand key data)),
     ag_Add = (\<lambda>priv cert comment. returns (keyring_Add priv cert comment)), ag_Remove = keyring_Remove,
     ag_RemoveAll = returns keyring_RemoveAll, ag_Lock = (\<lambda>p. returns (keyring_Lock p)), ag_Unlock = (\<lambda>p. returns (keyring_Unlock p))\<rparr>"

section \<open>Messages\<close>

abbreviation agentRequestV1Identities :: byte where "agentRequestV1Identities \<equiv> 1"
abbreviation agentFailure :: byte where "agentFailure \<equiv> 5"
abbreviation agentSuccess :: byte where "agentSuccess \<equiv> 6"
abbreviation agentRequestIdentities :: byte where "agentRequestIdentities \<equiv> 11"
abbreviation agentIdentitiesAnswer :: byte where "agentIdentitiesAnswer \<equiv> 12"
abbreviation agentSignRequest :: byte where "agentSignRequest \<equiv> 13"
abbreviation agentSignResponse :: byte where "agentSignResponse \<equiv> 14"
abbreviation agentAddIdentity :: byte where "agentAddIdentity \<equiv> 17"
abbreviation agentRemoveIdentity :: byte where "agentRemoveIdentity \<equiv> 18"
abbreviation agentRemoveAllIdentities :: byte where "agentRemoveAllIdentities \<equiv> 19"
abbreviation agentLock :: byte where "agentLock \<equiv> 22"
abbreviation agentUnlock :: byte where "agentUnlock \<equiv> 23"

definition maxAgentResponseBytes :: nat where
  "maxAgentResponseBytes = 16 * 2 ^ 20"

definition identitiesAnswerAgentMsg_T :: structType where
  "identitiesAnswerAgentMsg_T = \<lparr>st_name = ''identitiesAnswerAgentMsg'', st_tag = ''12'', st_fields = [(''NumKeys'', KUint32), (''Keys'', KRest)]\<rparr>"

definition signRequestAgentMsg_T :: structType where
  "signRequestAgentMsg_T = \<lparr>st_name = ''signRequestAgentMsg'', st_tag = ''13'', st_fields =
     [(''KeyBlob'', KBytes), (''Data'', KBytes), (''Flags'', KUint32)]\<rparr>"

definition signResponseAgentMsg_T :: structType where
  "signResponseAgentMsg_T = \<lparr>st_name = ''signResponseAgentMsg'', st_tag = ''14'', st_fields = [(''SigBlob'', KBytes)]\<rparr>"

definition wireKey_T :: structType where
  "wireKey_T = \<lparr>st_name = ''wireKey'', st_tag = '''', st_fields = [(''Format'', KString), (''Rest'', KRest)]\<rparr>"

definition keyRecord_T :: structType where
  "keyRecord_T = \<lparr>st_name = '''', st_tag = '''', st_fields = [(''Blob'', KBytes), (''Comment'', KString)]\<rparr>"

definition parseKey_T :: structType where
  "parseKey_T = \<lparr>st_name = '''', st_tag = '''', st_fields = [(''Blob'', KBytes), (''Comment'', KString), (''Rest'', KRest)]\<rparr>"

definition agentV1IdentityMsg_T :: structType where
  "agentV1IdentityMsg_T = \<lparr>st_name = ''agentV1IdentityMsg'', st_tag = ''2'', st_fields = [(''Numkeys'', KUint32)]\<rparr>"

definition agentRemoveIdentityMsg_T :: structType where
  "agentRemoveIdentityMsg_T = \<lparr>st_name = ''agentRemoveIdentityMsg'', st_tag = ''18'', st_fields = [(''KeyBlob'', KBytes)]\<rparr>"

definition agentLockMsg_T :: structType where
  "agentLockMsg_T = \<lparr>st_name = ''agentLockMsg'', st_tag = ''22'', st_fields = [(''Passphrase'', KBytes)]\<rparr>"

definition agentUnlockMsg_T :: structType where
  "agentUnlockMsg_T = \<lparr>st_name = ''agentUnlockMsg'', st_tag = ''23'', st_fields = [(''Passphrase'', KBytes)]\<rparr>"

definition rsaKeyMsg_T :: structType where
  "rsaKeyMsg_T = \<lparr>st_name = ''rsaKeyMsg'', st_tag = ''17'', st_fields = [(''Type'', KString), (''N'', KBigInt), (''E'', KBigInt), (''D'', KBigInt),
     (''Iqmp'', KBigInt), (''P'', KBigInt), (''Q'', KBigInt), (''Comments'', KString)]\<rparr>"

definition dsaKeyMsg_T :: structType where
  "dsaKeyMsg_T = \<lparr>st_name = ''dsaKeyMsg'', st_tag = ''17'', st_fields = [(''Type'', KString), (''P'', KBigInt), (''Q'', KBigInt), (''G'', KBigInt),
     (''Y'', KBigInt), (''X'', KBigInt), (''Comments'', KString)]\<rparr>"

definition ecdsaKeyMsg_T :: structType where
  "ecdsaKeyMsg_T = \<lparr>st_name = ''ecdsaKeyMsg'', st_tag = ''17'', st_fields = [(''Type'', KString), (''Curve'', KString), (''KeyBytes'', KBytes),
     (''D'', KBigInt), (''Comments'', KString)]\<rparr>"

definition rsaCertMsg_T :: structType where
  "rsaCertMsg_T = \<lparr>st_name = ''rsaCertMsg'', st_tag = ''17'', st_fields = [(''Type'', KString), (''CertBytes'', KBytes), (''D'', KBigInt),
     (''Iqmp'', KBigInt), (''P'', KBigInt), (''Q'', KBigInt), (''Comments'', KString)]\<rparr>"

definition dsaCertMsg_T :: structType where
  "dsaCertMsg_T = \<lparr>st_name = ''dsaCertMsg'', st_tag = ''17'', st_fields = [(''Type'', KString), (''CertBytes'', KBytes), (''X'', KBigInt), (''Comments'', KString)]\<rparr>"

definition ecdsaCertMsg_T :: structType where
  "ecdsaCertMsg_T = \<lparr>st_name = ''ecdsaCertMsg'', st_tag = ''17'', st_fields = [(''Type'', KString), (''CertBytes'', KBytes), (''D'', KBigInt), (''Comments'', KString)]\<rparr>"

definition insertIdentity_T :: structType where
  "insertIdentity_T = \<lparr>st_name = '''', st_tag = ''17'', st_fields = [(''Type'', KString), (''Rest'', KRest)]\<rparr>"

lemmas agent_T_defs = identitiesAnswerAgentMsg_T_def signRequestAgentMsg_T_def signResponseAgentMsg_T_def wireKey_T_def keyRecord_T_def parseKey_T_def
  agentV1IdentityMsg_T_def agentRemoveIdentityMsg_T_def agentLockMsg_T_def agentUnlockMsg_T_def rsaKeyMsg_T_def insertIdentity_T_def

text \<open>The field of a struct that \<open>Unmarshal\<close> filled in.\<close>

definition fieldBytes :: "fval list \<Rightarrow> nat \<Rightarrow> bytes res" where
  "fieldBytes vs i = rbind (index vs i) rBytes"

definition fieldString :: "fval list \<Rightarrow> nat \<Rightarrow> string res" where
  "fieldString vs i = rbind (index vs i) rString"

definition fieldInt :: "fval list \<Rightarrow> nat \<Rightarrow> int res" where
  "fieldInt vs i = rbind (index vs i) rInt"

lemmas field_defs = fieldBytes_def fieldString_def fieldInt_def

section \<open>The server\<close>

text \<open>
  What the server uses of \<^verbatim>\<open>crypto/rsa\<close>: \<^verbatim>\<open>Precompute\<close> on a key with these primes, which gives the inverse of the second prime
  modulo the first and may panic on numbers that are no primes.
\<close>

record agentlib =
  al_Precompute :: "rsaPrivateKey \<Rightarrow> int list \<Rightarrow> int res"

text \<open>The low 64 bits of a big integer as \<^verbatim>\<open>Int64\<close> returns them, as an \<^verbatim>\<open>int\<close>.\<close>

definition Int64 :: "int \<Rightarrow> int" where
  "Int64 n = sint (word_of_int n :: 64 word)"

definition insertIdentity :: "agentlib \<Rightarrow> 's agentOps \<Rightarrow> bytes \<Rightarrow> ('s, unit) goProc" where
  "insertIdentity lib ops req =
     hbind (hres (rbind (Unmarshal req insertIdentity_T) (\<lambda>vs. fieldString vs 0))) (\<lambda>type.
       if type = KeyAlgoRSA
       then hbind (hres (rbind (Unmarshal req rsaKeyMsg_T) (\<lambda>vs.
              rbind (fieldInt vs 1) (\<lambda>n. rbind (fieldInt vs 2) (\<lambda>e. rbind (fieldInt vs 3) (\<lambda>d. rbind (fieldInt vs 5) (\<lambda>p.
              rbind (fieldInt vs 6) (\<lambda>q. rbind (fieldString vs 7) (\<lambda>comments.
              let priv = \<lparr>rsaPriv_PublicKey = \<lparr>rsa_E = Int64 e, rsa_N = n\<rparr>, rsaPriv_D = d\<rparr>
              in rbind (al_Precompute lib priv [p, q]) (\<lambda>_. Ok (priv, comments))))))))))) (\<lambda>(priv, comments).
            ag_Add ops (PrivRSA priv) None comments)
       else hres (Err (Errorf ''not implemented: %s'' [AStr type])))"

text \<open>The replies of \<open>processRequest\<close>; nil is \<open>RepNil\<close>.\<close>

datatype agentRep = RepNil | RepV1Identity uint32 | RepSignResponse bytes | RepIdentities uint32 bytes

definition formatOf :: "bytes \<Rightarrow> string res" where
  "formatOf blob = rbind (Unmarshal blob wireKey_T) (\<lambda>vs. fieldString vs 0)"

definition marshalKey :: "agentKey \<Rightarrow> bytes res" where
  "marshalKey k = Marshal keyRecord_T [VBytes (ak_Blob k), VString (ak_Comment k)]"

fun marshalKeys :: "agentKey list \<Rightarrow> bytes res" where
  "marshalKeys [] = Ok []"
| "marshalKeys (k # ks) = rbind (marshalKey k) (\<lambda>b. rbind (marshalKeys ks) (\<lambda>bs. Ok (b @ bs)))"

definition processRequest :: "agentlib \<Rightarrow> 's agentOps \<Rightarrow> bytes \<Rightarrow> ('s, agentRep) goProc" where
  "processRequest lib ops data = hbind (hres (index data 0)) (\<lambda>t.
     if t = agentRequestV1Identities then hres (Ok (RepV1Identity 0))
     else if t = agentRemoveIdentity then
       hbind (hres (rbind (Unmarshal data agentRemoveIdentityMsg_T) (\<lambda>vs. fieldBytes vs 0))) (\<lambda>blob.
       hbind (hres (formatOf blob)) (\<lambda>_. hbind (ag_Remove ops blob) (\<lambda>_. hres (Ok RepNil))))
     else if t = agentRemoveAllIdentities then hbind (ag_RemoveAll ops) (\<lambda>_. hres (Ok RepNil))
     else if t = agentLock then
       hbind (hres (rbind (Unmarshal data agentLockMsg_T) (\<lambda>vs. fieldBytes vs 0))) (\<lambda>passphrase.
       hbind (ag_Lock ops passphrase) (\<lambda>_. hres (Ok RepNil)))
     else if t = agentUnlock then
       hbind (hres (rbind (Unmarshal data agentLockMsg_T) (\<lambda>vs. fieldBytes vs 0))) (\<lambda>passphrase.
       hbind (ag_Unlock ops passphrase) (\<lambda>_. hres (Ok RepNil)))
     else if t = agentSignRequest then
       hbind (hres (rbind (Unmarshal data signRequestAgentMsg_T) (\<lambda>vs. rbind (fieldBytes vs 0) (\<lambda>blob. rbind (fieldBytes vs 1) (\<lambda>d. Ok (blob, d)))))) (\<lambda>(blob, d).
       hbind (hres (formatOf blob)) (\<lambda>_. hbind (ag_Sign ops blob d) (\<lambda>sig.
       hres (rbind (Marshal Signature_T (Signature_vals sig)) (\<lambda>s. Ok (RepSignResponse s))))))
     else if t = agentRequestIdentities then
       hbind (ag_List ops) (\<lambda>keys. hres (rbind (marshalKeys keys) (\<lambda>b. Ok (RepIdentities (of_nat (length keys)) b))))
     else if t = agentAddIdentity then hbind (insertIdentity lib ops data) (\<lambda>_. hres (Ok RepNil))
     else hres (Err (Errorf ''unknown opcode %d'' [AInt (uint t)])))"

primrec marshalRep :: "agentRep \<Rightarrow> bytes res" where
  "marshalRep RepNil = Ok [agentSuccess]"
| "marshalRep (RepV1Identity n) = Marshal agentV1IdentityMsg_T [VUint32 n]"
| "marshalRep (RepSignResponse s) = Marshal signResponseAgentMsg_T [VBytes s]"
| "marshalRep (RepIdentities n keys) = Marshal identitiesAnswerAgentMsg_T [VUint32 n, VBytes keys]"

text \<open>Errors are logged, except that the agent is locked, and answered with a failure.\<close>

definition processRequestBytes :: "agentlib \<Rightarrow> 's agentOps \<Rightarrow> bytes \<Rightarrow> ('s, bytes) goProc" where
  "processRequestBytes lib ops reqData s = Option.bind (processRequest lib ops reqData s) (\<lambda>(s, r). case r of
       Err e \<Rightarrow> Some (s, Ok [agentFailure])
     | Panic p \<Rightarrow> Some (s, Panic p)
     | Ok rep \<Rightarrow> Some (s, marshalRep rep))"

text \<open>Answering one request, and one round of \<open>ServeAgent\<close>.\<close>

definition answerRequest :: "agentlib \<Rightarrow> 's agentOps \<Rightarrow> bytes \<Rightarrow> ('s \<times> byteOut, unit) goProc" where
  "answerRequest lib ops req = (\<lambda>(s, w). Option.bind (processRequestBytes lib ops req s) (\<lambda>(s, r). case r of
       Err e \<Rightarrow> Some ((s, w), Err e)
     | Panic p \<Rightarrow> Some ((s, w), Panic p)
     | Ok repData \<Rightarrow>
        if length repData > maxAgentResponseBytes
        then Some ((s, w), Err (Errorf ''agent: reply too large: %d bytes'' [AInt (int (length repData))]))
        else case writes w [be32 (of_nat (length repData)), repData] of (w, r) \<Rightarrow> Some ((s, w), r)))"

definition serveOne :: "agentlib \<Rightarrow> 's agentOps \<Rightarrow> ('s \<times> byteIn \<times> byteOut, unit) goProc" where
  "serveOne lib ops = (\<lambda>(s, c, w). case readFull c 4 of
       (c, Err e) \<Rightarrow> Some ((s, c, w), Err e)
     | (c, Panic p) \<Rightarrow> Some ((s, c, w), Panic p)
     | (c, Ok lenb) \<Rightarrow>
        (let l = get32 lenb in
         if unat l > maxAgentResponseBytes then Some ((s, c, w), Err (Errorf ''agent: request too large: %d'' [AInt (uint l)]))
         else case readFull c (unat l) of
            (c, Err e) \<Rightarrow> Some ((s, c, w), Err e)
          | (c, Panic p) \<Rightarrow> Some ((s, c, w), Panic p)
          | (c, Ok req) \<Rightarrow> Option.bind (answerRequest lib ops req (s, w)) (\<lambda>((s, w), r). Some ((s, c, w), r))))"

lemma serveOne_less: "serveOne lib ops (s, c, w) = Some ((s', c', w'), Ok u) \<Longrightarrow> length (bi_data c') < length (bi_data c)"
  by (auto simp: serveOne_def Let_def bind_eq_Some_conv split: prod.splits res.splits if_splits dest!: readFull_Ok)

lemma serveOne_split:
  "(\<exists>c' r. serveOne lib ops (s, c, w) = Some ((s, c', w), r))
   \<or> (\<exists>c' req. serveOne lib ops (s, c, w) = Option.bind (answerRequest lib ops req (s, w)) (\<lambda>((s, w), r). Some ((s, c', w), r)))"
proof -
  obtain c1 q1 where 1: "readFull c 4 = (c1, q1)" by (cases "readFull c 4")
  show ?thesis
  proof (cases q1)
    case (Ok lenb)
    obtain c2 q2 where 2: "readFull c1 (unat (get32 lenb)) = (c2, q2)" by (cases "readFull c1 (unat (get32 lenb))")
    show ?thesis
    proof (cases "maxAgentResponseBytes < unat (get32 lenb)")
      case False
      then show ?thesis using 1 2 Ok by (cases q2) (auto simp: serveOne_def Let_def)
    qed (use 1 Ok in \<open>auto simp: serveOne_def Let_def\<close>)
  qed (use 1 in \<open>auto simp: serveOne_def\<close>)
qed

text \<open>The loop; every round takes at least the four bytes of a length.\<close>

function ServeAgent :: "agentlib \<Rightarrow> 's agentOps \<Rightarrow> ('s \<times> byteIn \<times> byteOut, unit) goProc" where
  "ServeAgent lib ops st = (case serveOne lib ops st of
       None \<Rightarrow> None
     | Some (st, Ok _) \<Rightarrow> ServeAgent lib ops st
     | Some (st, Err e) \<Rightarrow> Some (st, Err e)
     | Some (st, Panic p) \<Rightarrow> Some (st, Panic p))"
  by pat_completeness auto
termination
  by (relation "measure (\<lambda>(_, _, _, c, _). length (bi_data c))") (auto dest!: serveOne_less)

declare ServeAgent.simps [simp del]

section \<open>The client\<close>

text \<open>The connection to the agent: the bytes that will arrive and those written.\<close>

record agentConn =
  ac_in :: byteIn
  ac_out :: byteOut

definition clientErr :: "goerr option \<Rightarrow> goerr" where
  "clientErr err = WrapErr ''agent: client error: %v'' err"

text \<open>The dynamic type of what \<^verbatim>\<open>unmarshal\<close> returns.\<close>

datatype agentReply = FailureMsg | SuccessMsg | IdentitiesAnswer uint32 bytes | SignResponse bytes

definition agent_unmarshal :: "bytes \<Rightarrow> agentReply res" where
  "agent_unmarshal packet =
     (if length packet < 1 then Err (ErrNew ''agent: empty packet'')
      else let t = hd packet in
        if t = agentFailure then Ok FailureMsg
        else if t = agentSuccess then Ok SuccessMsg
        else if t = agentIdentitiesAnswer then rbind (Unmarshal packet identitiesAnswerAgentMsg_T) (\<lambda>vs.
          rbind (rbind (index vs 0) rUint32) (\<lambda>n. rbind (fieldBytes vs 1) (\<lambda>keys. Ok (IdentitiesAnswer n keys))))
        else if t = agentSignResponse then rbind (Unmarshal packet signResponseAgentMsg_T) (\<lambda>vs. rbind (fieldBytes vs 0) (\<lambda>s. Ok (SignResponse s)))
        else Err (Errorf ''agent: unknown type tag %d'' [AInt (uint t)]))"

definition toClientErr :: "'a res \<Rightarrow> 'a res" where
  "toClientErr r = (case r of Err e \<Rightarrow> Err (clientErr (Some e)) | r \<Rightarrow> r)"

definition acWrite :: "bytes \<Rightarrow> (agentConn, unit) goStep" where
  "acWrite b c = (case writeBytes (ac_out c) b of (w, r) \<Rightarrow> (c\<lparr>ac_out := w\<rparr>, toClientErr r))"

definition acReadFull :: "nat \<Rightarrow> (agentConn, bytes) goStep" where
  "acReadFull n c = (case readFull (ac_in c) n of (i, r) \<Rightarrow> (c\<lparr>ac_in := i\<rparr>, toClientErr r))"

definition agent_call :: "bytes \<Rightarrow> (agentConn, agentReply) goStep" where
  "agent_call req =
     sbind (acWrite (be32 (of_nat (length req)) @ req)) (\<lambda>_.
     sbind (acReadFull 4) (\<lambda>respSizeBuf.
       if unat (get32 respSizeBuf) > maxAgentResponseBytes then sres (Err (clientErr None))
       else sbind (acReadFull (unat (get32 respSizeBuf))) (\<lambda>buf. sres (toClientErr (agent_unmarshal buf)))))"

definition simpleCall :: "bytes res \<Rightarrow> (agentConn, unit) goStep" where
  "simpleCall req = sbind (sres req) (\<lambda>req. sbind (agent_call req) (\<lambda>resp.
     sres (if resp = SuccessMsg then Ok () else Err (ErrNew ''agent: failure''))))"

definition client_RemoveAll :: "(agentConn, unit) goStep" where
  "client_RemoveAll = simpleCall (Ok [agentRemoveAllIdentities])"

definition client_Remove :: "bytes \<Rightarrow> (agentConn, unit) goStep" where
  "client_Remove key = simpleCall (Marshal agentRemoveIdentityMsg_T [VBytes key])"

definition client_Lock :: "bytes \<Rightarrow> (agentConn, unit) goStep" where
  "client_Lock passphrase = simpleCall (Marshal agentLockMsg_T [VBytes passphrase])"

definition client_Unlock :: "bytes \<Rightarrow> (agentConn, unit) goStep" where
  "client_Unlock passphrase = simpleCall (Marshal agentUnlockMsg_T [VBytes passphrase])"

definition parseKey :: "bytes \<Rightarrow> (agentKey \<times> bytes) res" where
  "parseKey inp = rbind (Unmarshal inp parseKey_T) (\<lambda>vs. rbind (fieldBytes vs 0) (\<lambda>blob. rbind (fieldString vs 1) (\<lambda>comment.
     rbind (fieldBytes vs 2) (\<lambda>rest. rbind (formatOf blob) (\<lambda>format.
       Ok (\<lparr>ak_Format = format, ak_Blob = blob, ak_Comment = comment\<rparr>, rest))))))"

fun parseKeys :: "nat \<Rightarrow> bytes \<Rightarrow> agentKey list res" where
  "parseKeys 0 data = Ok []"
| "parseKeys (Suc n) data = rbind (parseKey data) (\<lambda>(key, data). rbind (parseKeys n data) (\<lambda>keys. Ok (key # keys)))"

definition client_List :: "(agentConn, agentKey list) goStep" where
  "client_List = sbind (agent_call [agentRequestIdentities]) (\<lambda>msg. sres (case msg of
       IdentitiesAnswer n keys \<Rightarrow>
         if unat n > maxAgentResponseBytes div 8 then Err (ErrNew ''agent: too many keys in agent reply'') else parseKeys (unat n) keys
     | FailureMsg \<Rightarrow> Err (ErrNew ''agent: failed to list keys'')
     | _ \<Rightarrow> Panic ''unreachable''))"

definition unmarshalSignature :: "bytes \<Rightarrow> Signature res" where
  "unmarshalSignature b = rbind (Unmarshal b Signature_T) (\<lambda>vs. rbind (fieldString vs 0) (\<lambda>f. rbind (fieldBytes vs 1) (\<lambda>blob.
     Ok \<lparr>sig_Format = f, sig_Blob = blob\<rparr>)))"

definition client_Sign :: "bytes \<Rightarrow> bytes \<Rightarrow> (agentConn, Signature) goStep" where
  "client_Sign key data = sbind (sres (Marshal signRequestAgentMsg_T [VBytes key, VBytes data, VUint32 0])) (\<lambda>req.
     sbind (agent_call req) (\<lambda>msg. sres (case msg of
       SignResponse s \<Rightarrow> unmarshalSignature s
     | FailureMsg \<Rightarrow> Err (ErrNew ''agent: failed to sign challenge'')
     | _ \<Rightarrow> Panic ''unreachable'')))"

text \<open>The private keys that the client can send; an RSA key carries its primes.\<close>

datatype clientKey = ClientRSA rsaPrivateKey "int list" | ClientDSA dsaPrivateKey | ClientECDSA ecdsaPrivateKey | ClientOther string

primrec anyKeyOf :: "clientKey \<Rightarrow> anyKey" where
  "anyKeyOf (ClientRSA k primes) = PrivRSA k"
| "anyKeyOf (ClientDSA k) = PrivDSA k"
| "anyKeyOf (ClientECDSA k) = PrivECDSA k"
| "anyKeyOf (ClientOther t) = OtherType t"

definition nistName :: "ecurve \<Rightarrow> string" where
  "nistName curve = ''nistp'' @ showNat (BitSize curve)"

fun keyRequest :: "agentlib \<Rightarrow> clientKey \<Rightarrow> string \<Rightarrow> bytes res" where
  "keyRequest lib (ClientRSA k primes) comment = (case primes of
       [p, q] \<Rightarrow> rbind (al_Precompute lib k [p, q]) (\<lambda>qinv. Marshal rsaKeyMsg_T
         [VString KeyAlgoRSA, VInt (rsa_N (rsaPriv_PublicKey k)), VInt (rsa_E (rsaPriv_PublicKey k)), VInt (rsaPriv_D k), VInt qinv, VInt p, VInt q, VString comment])
     | _ \<Rightarrow> Err (Errorf ''agent: unsupported RSA key with %d primes'' [AInt (int (length primes))]))"
| "keyRequest lib (ClientDSA k) comment = Marshal dsaKeyMsg_T
     [VString KeyAlgoDSA, VInt (dsa_P (dsaPriv_PublicKey k)), VInt (dsa_Q (dsaPriv_PublicKey k)), VInt (dsa_G (dsaPriv_PublicKey k)),
      VInt (dsa_Y (dsaPriv_PublicKey k)), VInt (dsaPriv_X k), VString comment]"
| "keyRequest lib (ClientECDSA k) comment = (let pub = ecPriv_PublicKey k; name = nistName (ec_Curve pub) in
     rbind (ec_Marshal (ec_Curve pub) (ec_X pub) (ec_Y pub)) (\<lambda>b. Marshal ecdsaKeyMsg_T
       [VString (''ecdsa-sha2-'' @ name), VString name, VBytes b, VInt (ecPriv_D k), VString comment]))"
| "keyRequest lib (ClientOther t) comment = Err (Errorf ''agent: unsupported key type %T'' [AStr t])"

definition insertKey :: "agentlib \<Rightarrow> clientKey \<Rightarrow> string \<Rightarrow> (agentConn, unit) goStep" where
  "insertKey lib s comment = simpleCall (keyRequest lib s comment)"

fun certRequest :: "agentlib \<Rightarrow> clientKey \<Rightarrow> Certificate \<Rightarrow> string \<Rightarrow> bytes res" where
  "certRequest lib (ClientRSA k primes) cert comment = (case primes of
       [p, q] \<Rightarrow> rbind (al_Precompute lib k [p, q]) (\<lambda>qinv. rbind (keyType (CertKey cert)) (\<lambda>t. rbind (keyMarshal (CertKey cert)) (\<lambda>b.
         Marshal rsaCertMsg_T [VString t, VBytes b, VInt (rsaPriv_D k), VInt qinv, VInt p, VInt q, VString comment])))
     | _ \<Rightarrow> Err (Errorf ''agent: unsupported RSA key with %d primes'' [AInt (int (length primes))]))"
| "certRequest lib (ClientDSA k) cert comment = rbind (keyType (CertKey cert)) (\<lambda>t. rbind (keyMarshal (CertKey cert)) (\<lambda>b.
     Marshal dsaCertMsg_T [VString t, VBytes b, VInt (dsaPriv_X k), VString comment]))"
| "certRequest lib (ClientECDSA k) cert comment = rbind (keyType (CertKey cert)) (\<lambda>t. rbind (keyMarshal (CertKey cert)) (\<lambda>b.
     Marshal ecdsaCertMsg_T [VString t, VBytes b, VInt (ecPriv_D k), VString comment]))"
| "certRequest lib (ClientOther t) cert comment = Err (Errorf ''agent: unsupported key type %T'' [AStr t])"

definition insertCert :: "agentlib \<Rightarrow> clientKey \<Rightarrow> Certificate \<Rightarrow> string \<Rightarrow> (agentConn, unit) goStep" where
  "insertCert lib s cert comment = simpleCall (rbind (certRequest lib s cert comment) (\<lambda>req.
     rbind (NewSignerFromKey (anyKeyOf s)) (\<lambda>signer. rbind (keyMarshal (Key cert)) (\<lambda>a. rbind (keyMarshal (signerPublicKey signer)) (\<lambda>b.
       if a \<noteq> b then Err (ErrNew ''agent: signer and cert have different public key'') else Ok req)))))"

text \<open>The request of \<^verbatim>\<open>Add\<close>, when one is sent at all.\<close>

definition addRequest :: "agentlib \<Rightarrow> clientKey \<Rightarrow> Certificate option \<Rightarrow> string \<Rightarrow> bytes res" where
  "addRequest lib s cert comment = (case cert of
       None \<Rightarrow> keyRequest lib s comment
     | Some cert \<Rightarrow> rbind (certRequest lib s cert comment) (\<lambda>req.
         rbind (NewSignerFromKey (anyKeyOf s)) (\<lambda>signer. rbind (keyMarshal (Key cert)) (\<lambda>a. rbind (keyMarshal (signerPublicKey signer)) (\<lambda>b.
           if a \<noteq> b then Err (ErrNew ''agent: signer and cert have different public key'') else Ok req)))))"

definition client_Add :: "agentlib \<Rightarrow> clientKey \<Rightarrow> Certificate option \<Rightarrow> string \<Rightarrow> (agentConn, unit) goStep" where
  "client_Add lib s cert comment = (case cert of None \<Rightarrow> insertKey lib s comment | Some c \<Rightarrow> insertCert lib s c comment)"

text \<open>A signer of the client is a key of the agent, and signs by asking it; its random source is not used.\<close>

definition client_Signers :: "(agentConn, agentKey list) goStep" where
  "client_Signers = client_List"

definition agentKeyringSigner_Sign :: "agentKey \<Rightarrow> bytes \<Rightarrow> (agentConn, Signature) goStep" where
  "agentKeyringSigner_Sign k data = client_Sign (ak_Blob k) data"

section \<open>A locked agent stays locked\<close>

definition frame :: "bytes \<Rightarrow> bytes" where
  "frame b = be32 (of_nat (length b)) @ b"

text \<open>The replies that say nothing: a failure, no keys of the first version of the protocol, an empty list of keys.\<close>

definition quietReplies :: "bytes set" where
  "quietReplies = {[agentFailure], [2, 0, 0, 0, 0], [agentIdentitiesAnswer, 0, 0, 0, 0]}"

lemma quiet_marshals: "marshalRep (RepV1Identity 0) = Ok [2, 0, 0, 0, 0]" "marshalRep (RepIdentities 0 []) = Ok [agentIdentitiesAnswer, 0, 0, 0, 0]"
  by code_simp+

text \<open>A step that returns and leaves the state \<open>s\<close> as it is, and whose result, if any, satisfies \<open>Q\<close>.\<close>

definition quiet_at :: "'s \<Rightarrow> ('a \<Rightarrow> bool) \<Rightarrow> ('s, 'a) goProc \<Rightarrow> bool" where
  "quiet_at s Q m \<longleftrightarrow> (\<exists>r. m s = Some (s, r) \<and> (\<forall>x. r = Ok x \<longrightarrow> Q x))"

lemma quiet_hres: "(\<And>x. r = Ok x \<Longrightarrow> Q x) \<Longrightarrow> quiet_at s Q (hres r)"
  by (auto simp: quiet_at_def hres_def)

lemma quiet_err: "m s = Some (s, Err e) \<Longrightarrow> quiet_at s Q m"
  by (simp add: quiet_at_def)

lemma quiet_hbind:
  assumes "quiet_at s Q m" "\<And>x. Q x \<Longrightarrow> quiet_at s R (f x)"
  shows "quiet_at s R (hbind m f)"
proof -
  from assms(1) obtain q where m: "m s = Some (s, q)" "\<And>x. q = Ok x \<Longrightarrow> Q x" by (auto simp: quiet_at_def)
  show ?thesis
  proof (cases q)
    case (Ok x)
    with assms(2) [OF m(2) [OF Ok]] m(1) show ?thesis by (auto simp: quiet_at_def hbind_def)
  qed (use m(1) in \<open>auto simp: quiet_at_def hbind_def\<close>)
qed

text \<open>
  What the server relies on: a locked agent changes nothing and gives nothing away, whatever it is asked, until it is
  unlocked.
\<close>

locale lockable =
  fixes ops :: "'s agentOps" and locked :: "'s \<Rightarrow> bool"
  assumes locked_List: "locked s \<Longrightarrow> ag_List ops s = Some (s, Ok [])"
    and locked_Sign: "locked s \<Longrightarrow> ag_Sign ops key data s = Some (s, Err errLocked)"
    and locked_Add: "locked s \<Longrightarrow> ag_Add ops priv cert comment s = Some (s, Err errLocked)"
    and locked_Remove: "locked s \<Longrightarrow> ag_Remove ops key s = Some (s, Err errLocked)"
    and locked_RemoveAll: "locked s \<Longrightarrow> ag_RemoveAll ops s = Some (s, Err errLocked)"
    and locked_Lock: "locked s \<Longrightarrow> ag_Lock ops p s = Some (s, Err errLocked)"
begin

lemmas locked_ops = locked_List locked_Sign locked_Add locked_Remove locked_RemoveAll locked_Lock

text \<open>
  A request to unlock is read as a request to lock, whose message has another type, so it never reaches the agent.
\<close>

lemma processRequest_locked:
  assumes "locked s"
  shows "quiet_at s (\<lambda>rep. rep = RepV1Identity 0 \<or> rep = RepIdentities 0 []) (processRequest lib ops req)"
proof -
  let ?R = "\<lambda>rep. rep = RepV1Identity 0 \<or> rep = RepIdentities 0 []"
  have unlock: "Unmarshal req agentLockMsg_T = Err (unexpectedMessageError agentLock agentUnlock)" if "index req 0 = Ok agentUnlock"
    using that by (auto simp: Unmarshal_def agentLockMsg_T_def typeTag_def Atoi_def hd_conv_nth)
  have list: "quiet_at s (\<lambda>keys. keys = []) (ag_List ops)" using locked_List [OF assms] by (simp add: quiet_at_def)
  have never: "quiet_at s (\<lambda>_. False) m" if "m s = Some (s, Err errLocked)" for m :: "('s, 'x) goProc" using that by (rule quiet_err)
  have never_add: "quiet_at s (\<lambda>_. False) (ag_Add ops priv cert comment)" for priv cert comment by (rule never) (rule locked_Add [OF assms])
  have add: "quiet_at s (\<lambda>_. False) (insertIdentity lib ops req)"
    unfolding insertIdentity_def
  proof (rule quiet_hbind [OF quiet_hres [where Q = "\<lambda>_. True"]], goal_cases)
    case (2 type)
    show ?case
      by (cases "type = KeyAlgoRSA")
        (auto intro!: quiet_hbind [OF quiet_hres [where Q = "\<lambda>_. True"]] quiet_hres never_add split: prod.splits)
  qed simp
  have nevers: "quiet_at s (\<lambda>_. False) (ag_Remove ops key)" "quiet_at s (\<lambda>_. False) (ag_RemoveAll ops)"
    "quiet_at s (\<lambda>_. False) (ag_Lock ops key)" "quiet_at s (\<lambda>_. False) (ag_Sign ops key data)" for key data
    by (rule never, simp add: locked_ops [OF assms])+
  show ?thesis
    unfolding processRequest_def
  proof (rule quiet_hbind [OF quiet_hres [where Q = "\<lambda>t. index req 0 = Ok t"]], goal_cases)
    case (2 t)
    have u: "quiet_at s ?R (hbind (hres (rbind (Unmarshal req agentLockMsg_T) (\<lambda>vs. fieldBytes vs 0))) f)" if "t = agentUnlock" for f
      using unlock 2 that by (intro quiet_err) (simp add: hbind_def hres_def)
    show ?case
      by (auto simp: u intro!: quiet_hbind [OF list] quiet_hbind [OF add] quiet_hbind [OF quiet_hres [where Q = "\<lambda>_. True"]]
          quiet_hbind [OF nevers(1)] quiet_hbind [OF nevers(2)] quiet_hbind [OF nevers(3)] quiet_hbind [OF nevers(4)] quiet_hres split: prod.splits)
  qed simp
qed

lemma answerRequest_locked:
  assumes "locked s" "bo_fail w = None"
  shows "\<exists>w' r reps. answerRequest lib ops req (s, w) = Some ((s, w'), r) \<and> bo_fail w' = None
    \<and> set reps \<subseteq> quietReplies \<and> bo_data w' = bo_data w @ concat (map frame reps)"
proof -
  from processRequest_locked [OF assms(1), of lib req] obtain q where p: "processRequest lib ops req s = Some (s, q)"
    and q: "\<And>rep. q = Ok rep \<Longrightarrow> rep = RepV1Identity 0 \<or> rep = RepIdentities 0 []" by (auto simp: quiet_at_def)
  consider (reply) rep where "processRequestBytes lib ops req s = Some (s, Ok rep)" "rep \<in> quietReplies"
    | (panic) m where "processRequestBytes lib ops req s = Some (s, Panic m)"
    using p q by (cases q) (auto simp: processRequestBytes_def quietReplies_def quiet_marshals simp del: marshalRep.simps)
  then show ?thesis
  proof cases
    case reply
    then have "length rep \<le> maxAgentResponseBytes" by (auto simp: quietReplies_def maxAgentResponseBytes_def)
    then have "answerRequest lib ops req (s, w) = Some ((s, w\<lparr>bo_data := bo_data w @ frame rep\<rparr>), Ok ())" using assms(2) reply(1)
      by (auto simp: answerRequest_def writes_no_fault frame_def)
    with reply(2) assms(2) show ?thesis
      by (intro exI [of _ "w\<lparr>bo_data := bo_data w @ frame rep\<rparr>"] exI [of _ "Ok ()"] exI [of _ "[rep]"]) auto
  next
    case panic
    with assms(2) show ?thesis by (intro exI [of _ w] exI [of _ "Panic m"] exI [of _ "[]"]) (auto simp: answerRequest_def)
  qed
qed

lemma serveOne_locked:
  assumes "locked s" "bo_fail w = None"
  shows "\<exists>c' w' r reps. serveOne lib ops (s, c, w) = Some ((s, c', w'), r) \<and> bo_fail w' = None
    \<and> set reps \<subseteq> quietReplies \<and> bo_data w' = bo_data w @ concat (map frame reps)"
proof -
  from serveOne_split [of lib ops s c w] consider (same) c' r where "serveOne lib ops (s, c, w) = Some ((s, c', w), r)"
    | (answer) c' req where "serveOne lib ops (s, c, w) = Option.bind (answerRequest lib ops req (s, w)) (\<lambda>((s, w), r). Some ((s, c', w), r))"
    by blast
  then show ?thesis
  proof cases
    case same
    with assms(2) show ?thesis by (intro exI [of _ c'] exI [of _ w] exI [of _ r] exI [of _ "[]"]) auto
  next
    case answer
    with answerRequest_locked [OF assms, of lib req] show ?thesis by fastforce
  qed
qed

lemma ServeAgent_locked:
  assumes "locked s" "bo_fail w = None"
  shows "\<exists>c' w' res reps. ServeAgent lib ops (s, c, w) = Some ((s, c', w'), res)
    \<and> set reps \<subseteq> quietReplies \<and> bo_data w' = bo_data w @ concat (map frame reps)"
  using assms(2)
proof (induction "length (bi_data c)" arbitrary: c w rule: less_induct)
  case less
  from serveOne_locked [OF assms(1) less.prems, of lib c] obtain c1 w1 q reps where
    1: "serveOne lib ops (s, c, w) = Some ((s, c1, w1), q)" "bo_fail w1 = None" "set reps \<subseteq> quietReplies"
    "bo_data w1 = bo_data w @ concat (map frame reps)" by blast
  note step = ServeAgent.simps [of lib ops "(s, c, w)"]
  show ?case
  proof (cases q)
    case (Ok u)
    from less.hyps [OF serveOne_less [OF 1(1) [unfolded Ok]] 1(2)] obtain c' w' res reps' where
      "ServeAgent lib ops (s, c1, w1) = Some ((s, c', w'), res)" "set reps' \<subseteq> quietReplies"
      "bo_data w' = bo_data w1 @ concat (map frame reps')" by blast
    with 1 Ok show ?thesis by (intro exI [of _ c'] exI [of _ w'] exI [of _ res] exI [of _ "reps @ reps'"]) (simp add: step)
  qed (use 1 in \<open>(intro exI [of _ c1] exI [of _ w1] exI exI [of _ reps]; simp add: step)+\<close>)
qed

end

interpretation kg: lockable "keyringAgent cr sp rand" kg_locked for cr sp rand
  by unfold_locales (auto simp: keyringAgent_def returns_def keyring_List_def keyring_Sign_def keyring_Add_def keyring_Remove_def
      keyring_RemoveAll_def keyring_Lock_def)

text \<open>(C33) Serving a locked keyring ends with its input and leaves it as it is, whatever requests arrive, also requests to unlock it
  with the right passphrase: the server reads them as requests to lock and refuses them. While it is locked the
  server answers only with failures and empty lists of keys, so no key and no signature leaves it.\<close>

theorem locked_agent_stays_locked:
  assumes "kg_locked r" "bo_fail w = None"
  shows "\<exists>c' w' res reps. ServeAgent lib (keyringAgent cr sp rand) (r, c, w) = Some ((r, c', w'), res)
    \<and> set reps \<subseteq> quietReplies \<and> bo_data w' = bo_data w @ concat (map frame reps)"
  by (rule kg.ServeAgent_locked [OF assms])

section \<open>The client and the server together\<close>

definition acOf :: "bytes \<Rightarrow> bytes \<Rightarrow> agentConn" where
  "acOf inp out = \<lparr>ac_in = \<lparr>bi_data = inp, bi_err = EOF\<rparr>, ac_out = \<lparr>bo_data = out, bo_fail = None\<rparr>\<rparr>"

text \<open>
  An operation of the client over a connection to a server: what the client writes the server reads, what the server
  writes the client reads, and the agent of the server has gone from \<open>s\<close> to \<open>s'\<close>.
\<close>

definition overWire :: "agentlib \<Rightarrow> 's agentOps \<Rightarrow> (agentConn, 'a) goStep \<Rightarrow> 's \<Rightarrow> 's \<Rightarrow> 'a res \<Rightarrow> bool" where
  "overWire lib ops m s s' r \<longleftrightarrow> (\<exists>sent received. m (acOf received []) = (acOf [] sent, r) \<and>
     (\<forall>rest out. ServeAgent lib ops (s, \<lparr>bi_data = sent @ rest, bi_err = EOF\<rparr>, \<lparr>bo_data = out, bo_fail = None\<rparr>)
        = ServeAgent lib ops (s', \<lparr>bi_data = rest, bi_err = EOF\<rparr>, \<lparr>bo_data = out @ received, bo_fail = None\<rparr>)))"

lemma frame_length: "length b \<le> maxAgentResponseBytes \<Longrightarrow> unat (get32 (be32 (of_nat (length b)))) = length b"
  using get32_be32 [of "of_nat (length b)" "[]"] unat_of_nat_lt [of "length b", where 'a = 32] by (simp add: maxAgentResponseBytes_def)

lemma serve_frame:
  assumes "processRequestBytes lib ops req s = Some (s', Ok rep)" "length req \<le> maxAgentResponseBytes" "length rep \<le> maxAgentResponseBytes"
  shows "ServeAgent lib ops (s, \<lparr>bi_data = frame req @ rest, bi_err = EOF\<rparr>, \<lparr>bo_data = out, bo_fail = None\<rparr>)
    = ServeAgent lib ops (s', \<lparr>bi_data = rest, bi_err = EOF\<rparr>, \<lparr>bo_data = out @ frame rep, bo_fail = None\<rparr>)"
proof -
  have "serveOne lib ops (s, \<lparr>bi_data = frame req @ rest, bi_err = EOF\<rparr>, \<lparr>bo_data = out, bo_fail = None\<rparr>)
      = Some ((s', \<lparr>bi_data = rest, bi_err = EOF\<rparr>, \<lparr>bo_data = out @ frame rep, bo_fail = None\<rparr>), Ok ())"
    using assms by (simp add: serveOne_def frame_def Let_def frame_length answerRequest_def writes_no_fault)
  then show ?thesis by (simp add: ServeAgent.simps [of lib ops "(s, _, _)"])
qed

lemma call_frame:
  assumes "length rep \<le> maxAgentResponseBytes"
  shows "agent_call req (acOf (frame rep) []) = (acOf [] (frame req), toClientErr (agent_unmarshal rep))"
  using assms readFull_append [of rep "length rep" "[]" EOF]
  by (simp add: agent_call_def sbind_def acWrite_def acReadFull_def acOf_def writeBytes_def frame_def frame_length toClientErr_def sres_def)

lemma call_overWire:
  assumes "processRequestBytes lib ops req s = Some (s', Ok rep)" "length req \<le> maxAgentResponseBytes" "length rep \<le> maxAgentResponseBytes"
    and "\<And>c. m c = sbind (agent_call req) (\<lambda>msg. sres (f msg)) c"
  shows "overWire lib ops m s s' (rbind (toClientErr (agent_unmarshal rep)) f)"
proof -
  have "m (acOf (frame rep) []) = (acOf [] (frame req), rbind (toClientErr (agent_unmarshal rep)) f)"
    unfolding assms(4) sbind_def call_frame [OF assms(3)] by (cases "toClientErr (agent_unmarshal rep)") (simp_all add: sres_def)
  with serve_frame [OF assms(1-3)] show ?thesis unfolding overWire_def by blast
qed

lemma simple_overWire:
  assumes "length req \<le> maxAgentResponseBytes"
  shows "processRequest lib ops req s = Some (s', Ok RepNil) \<Longrightarrow> overWire lib ops (simpleCall (Ok req)) s s' (Ok ())"
    and "processRequest lib ops req s = Some (s', Err e) \<Longrightarrow> overWire lib ops (simpleCall (Ok req)) s s' (Err (ErrNew ''agent: failure''))"
proof -
  have m: "simpleCall (Ok req) c = sbind (agent_call req) (\<lambda>msg. sres (if msg = SuccessMsg then Ok () else Err (ErrNew ''agent: failure''))) c" for c
    by (simp add: simpleCall_def sbind_def sres_def)
  have u: "toClientErr (agent_unmarshal [agentSuccess]) = Ok SuccessMsg" "toClientErr (agent_unmarshal [agentFailure]) = Ok FailureMsg"
    by (simp_all add: agent_unmarshal_def toClientErr_def)
  show "overWire lib ops (simpleCall (Ok req)) s s' (Ok ())" if "processRequest lib ops req s = Some (s', Ok RepNil)"
    using call_overWire [OF _ assms _ m, of lib ops s s' "[agentSuccess]"] that u
    by (simp add: processRequestBytes_def maxAgentResponseBytes_def)
  show "overWire lib ops (simpleCall (Ok req)) s s' (Err (ErrNew ''agent: failure''))" if "processRequest lib ops req s = Some (s', Err e)"
    using call_overWire [OF _ assms _ m, of lib ops s s' "[agentFailure]"] that u
    by (simp add: processRequestBytes_def maxAgentResponseBytes_def)
qed

lemma agent_messages:
  "Marshal agentLockMsg_T [VBytes p] = Ok (agentLock # encString p)"
  "Marshal agentUnlockMsg_T [VBytes p] = Ok (agentUnlock # encString p)"
  "Marshal agentRemoveIdentityMsg_T [VBytes p] = Ok (agentRemoveIdentity # encString p)"
  "Marshal signRequestAgentMsg_T [VBytes key, VBytes data, VUint32 n] = Ok (agentSignRequest # encString key @ encString data @ be32 n)"
  "Marshal signResponseAgentMsg_T [VBytes p] = Ok (agentSignResponse # encString p)"
  "Marshal identitiesAnswerAgentMsg_T [VUint32 n, VBytes p] = Ok (agentIdentitiesAnswer # be32 n @ p)"
  "Marshal keyRecord_T [VBytes p, VString c] = Ok (encString p @ encString (bytes_of c))"
  "Marshal rsaKeyMsg_T [VString t, VInt n', VInt e, VInt d, VInt i, VInt p', VInt q, VString c]
     = Ok (agentAddIdentity # encString (bytes_of t) @ encInt n' @ encInt e @ encInt d @ encInt i @ encInt p' @ encInt q @ encString (bytes_of c))"
  by (subst Marshal_enc; simp add: agent_T_defs encStruct_def typeTag_def Atoi_def)+

lemma be32_not_Nil [simp]: "be32 n \<noteq> []"
  by (simp add: be32_def)

lemma agent_unmarshals:
  "length (agentLock # encString p) < 2 ^ 32 \<Longrightarrow> Unmarshal (agentLock # encString p) agentLockMsg_T = Ok [VBytes p]"
  "length (agentSignRequest # encString key @ encString data @ be32 n) < 2 ^ 32 \<Longrightarrow>
     Unmarshal (agentSignRequest # encString key @ encString data @ be32 n) signRequestAgentMsg_T = Ok [VBytes key, VBytes data, VUint32 n]"
  "length (agentSignResponse # encString p) < 2 ^ 32 \<Longrightarrow> Unmarshal (agentSignResponse # encString p) signResponseAgentMsg_T = Ok [VBytes p]"
  "length (agentIdentitiesAnswer # be32 m @ p) < 2 ^ 32 \<Longrightarrow> Unmarshal (agentIdentitiesAnswer # be32 m @ p) identitiesAnswerAgentMsg_T = Ok [VUint32 m, VBytes p]"
  "length (encString p @ encString (bytes_of c) @ rest) < 2 ^ 32 \<Longrightarrow>
     Unmarshal (encString p @ encString (bytes_of c) @ rest) parseKey_T = Ok [VBytes p, VString c, VBytes rest]"
  "length (encString (bytes_of f) @ rest) < 2 ^ 32 \<Longrightarrow> Unmarshal (encString (bytes_of f) @ rest) wireKey_T = Ok [VString f, VBytes rest]"
  using Unmarshal_enc [of agentLockMsg_T "[VBytes p]"] Unmarshal_enc [of signRequestAgentMsg_T "[VBytes key, VBytes data, VUint32 n]"]
    Unmarshal_enc [of signResponseAgentMsg_T "[VBytes p]"] Unmarshal_enc [of identitiesAnswerAgentMsg_T "[VUint32 m, VBytes p]"]
    Unmarshal_enc [of parseKey_T "[VBytes p, VString c, VBytes rest]"] Unmarshal_enc [of wireKey_T "[VString f, VBytes rest]"]
  by (simp_all add: agent_T_defs encStruct_def typeTag_def Atoi_def encString_def)

text \<open>The list of keys in an answer.\<close>

definition encIds :: "agentKey list \<Rightarrow> bytes" where
  "encIds ids = concat (map (\<lambda>k. encString (ak_Blob k) @ encString (bytes_of (ak_Comment k))) ids)"

lemma encIds_simps [simp]:
  "encIds [] = []" "encIds (k # ks) = encString (ak_Blob k) @ encString (bytes_of (ak_Comment k)) @ encIds ks"
  by (simp_all add: encIds_def)

lemma marshalKeys_eq: "marshalKeys ids = Ok (encIds ids)"
  by (induction ids) (simp_all add: marshalKey_def agent_messages)

lemma length_encIds: "8 * length ids \<le> length (encIds ids)"
  by (induction ids) (simp_all add: encString_def)

lemma parseKeys_enc:
  "\<forall>k\<in>set ids. formatOf (ak_Blob k) = Ok (ak_Format k) \<Longrightarrow> length (encIds ids) < 2 ^ 32 \<Longrightarrow> parseKeys (length ids) (encIds ids) = Ok ids"
proof (induction ids)
  case (Cons k ks)
  then have "Unmarshal (encIds (k # ks)) parseKey_T = Ok [VBytes (ak_Blob k), VString (ak_Comment k), VBytes (encIds ks)]"
    using agent_unmarshals(5) [of "ak_Blob k" "ak_Comment k" "encIds ks"] by simp
  then have "parseKey (encIds (k # ks)) = Ok (k, encIds ks)"
    using Cons.prems(1) by (simp add: parseKey_def field_defs index_def reflect_defs)
  moreover have "parseKeys (length ks) (encIds ks) = Ok ks" using Cons by simp
  ultimately show ?case by (simp del: encIds_simps)
qed simp

lemma formatOf_enc:
  assumes "wf_key cr k" "length (encKey k) < 2 ^ 32"
  shows "formatOf (encKey k) = keyType k"
proof -
  obtain f rest where e: "encKey k = encString (bytes_of f) @ rest" and t: "keyType k = Ok f"
  proof (cases k)
    case (CertKey c)
    show thesis
    proof (cases c)
      case (Certificate nonce key serial ctype kid princ va vb perm resv skey sig)
      with assms(1) CertKey have "wf_plain cr key" by simp
      with CertKey Certificate certName_props(1) [of cr key] that [of "certName key"] show thesis by (simp add: keyType_plain)
    qed
  qed (use assms(1) that keyType_plain [of cr k] in \<open>auto simp: encPlain_def\<close>)
  with agent_unmarshals(6) [of f rest] assms(2) show ?thesis by (simp add: formatOf_def field_defs index_def reflect_defs)
qed

text \<open>The errors of the agent are not told to the client; it reports its own.\<close>

definition coarsely :: "string \<Rightarrow> 'a res \<Rightarrow> 'a res" where
  "coarsely msg r = (case r of Ok x \<Rightarrow> Ok x | Err e \<Rightarrow> Err (ErrNew msg) | Panic p \<Rightarrow> Panic p)"

lemma removeAll_overWire:
  "overWire lib (keyringAgent cr sp rand) client_RemoveAll r (fst (keyring_RemoveAll r)) (coarsely ''agent: failure'' (snd (keyring_RemoveAll r)))"
proof -
  have "processRequest lib (keyringAgent cr sp rand) [agentRemoveAllIdentities] r
     = (if kg_locked r then Some (r, Err errLocked) else Some (r\<lparr>kg_keys := []\<rparr>, Ok RepNil))"
    by (simp add: processRequest_def hbind_def hres_def index_def keyringAgent_def returns_def keyring_RemoveAll_def)
  then show ?thesis
    using simple_overWire [of "[agentRemoveAllIdentities]" lib "keyringAgent cr sp rand" r]
    by (cases "kg_locked r") (simp_all add: client_RemoveAll_def keyring_RemoveAll_def coarsely_def maxAgentResponseBytes_def)
qed

lemma fits_2_32: "length b \<le> maxAgentResponseBytes \<Longrightarrow> length b < 2 ^ 32"
  by (simp add: maxAgentResponseBytes_def)

lemma lock_overWire:
  assumes "length (agentLock # encString p) \<le> maxAgentResponseBytes"
  shows "overWire lib (keyringAgent cr sp rand) (client_Lock p) r (fst (keyring_Lock p r)) (coarsely ''agent: failure'' (snd (keyring_Lock p r)))"
proof -
  have "processRequest lib (keyringAgent cr sp rand) (agentLock # encString p) r
     = (if kg_locked r then Some (r, Err errLocked) else Some (r\<lparr>kg_locked := True, kg_passphrase := p\<rparr>, Ok RepNil))"
    using agent_unmarshals(1) [OF fits_2_32 [OF assms]]
    by (simp add: processRequest_def hbind_def hres_def index_def keyringAgent_def returns_def keyring_Lock_def field_defs reflect_defs)
  then show ?thesis
    using simple_overWire [OF assms, of lib "keyringAgent cr sp rand" r]
    by (cases "kg_locked r") (simp_all add: client_Lock_def agent_messages keyring_Lock_def coarsely_def)
qed

lemma unlock_overWire:
  assumes "length (agentUnlock # encString p) \<le> maxAgentResponseBytes"
  shows "overWire lib ops (client_Unlock p) s s (Err (ErrNew ''agent: failure''))"
proof -
  have "Unmarshal (agentUnlock # encString p) agentLockMsg_T = Err (unexpectedMessageError agentLock agentUnlock)"
    by (simp add: Unmarshal_def agentLockMsg_T_def typeTag_def Atoi_def)
  then have "processRequest lib ops (agentUnlock # encString p) s = Some (s, Err (unexpectedMessageError agentLock agentUnlock))"
    by (simp add: processRequest_def hbind_def hres_def index_def)
  then show ?thesis using simple_overWire(2) [OF assms] by (simp add: client_Unlock_def agent_messages)
qed

lemma list_overWire:
  assumes "keyring_List r = (r, Ok ids)" "\<forall>k\<in>set ids. formatOf (ak_Blob k) = Ok (ak_Format k)" "5 + length (encIds ids) \<le> maxAgentResponseBytes"
  shows "overWire lib (keyringAgent cr sp rand) client_List r r (Ok ids)"
proof -
  let ?n = "of_nat (length ids) :: uint32" and ?f = "\<lambda>msg. case msg of
       IdentitiesAnswer n keys \<Rightarrow> if unat n > maxAgentResponseBytes div 8 then Err (ErrNew ''agent: too many keys in agent reply'') else parseKeys (unat n) keys
     | FailureMsg \<Rightarrow> Err (ErrNew ''agent: failed to list keys'') | _ \<Rightarrow> Panic ''unreachable''"
  let ?rep = "agentIdentitiesAnswer # be32 ?n @ encIds ids"
  have small: "length ?rep \<le> maxAgentResponseBytes" using assms(3) by simp
  have n: "unat ?n = length ids" "length ids \<le> maxAgentResponseBytes div 8"
    using length_encIds [of ids] assms(3) by (auto simp: maxAgentResponseBytes_def intro!: unat_of_nat_lt)
  have "processRequestBytes lib (keyringAgent cr sp rand) [agentRequestIdentities] r = Some (r, Ok ?rep)"
    using assms(1) by (simp add: processRequestBytes_def processRequest_def hbind_def hres_def index_def keyringAgent_def returns_def marshalKeys_eq agent_messages)
  moreover have "length [agentRequestIdentities] \<le> maxAgentResponseBytes" by (simp add: maxAgentResponseBytes_def)
  ultimately have w: "overWire lib (keyringAgent cr sp rand) client_List r r (rbind (toClientErr (agent_unmarshal ?rep)) ?f)"
    using small by (rule call_overWire) (simp add: client_List_def)
  have "agent_unmarshal ?rep = Ok (IdentitiesAnswer ?n (encIds ids))"
    using agent_unmarshals(4) [OF fits_2_32 [OF small]] by (simp add: agent_unmarshal_def Let_def field_defs index_def reflect_defs)
  moreover have "parseKeys (length ids) (encIds ids) = Ok ids"
    using assms(2) fits_2_32 [OF small] by (intro parseKeys_enc) simp_all
  ultimately show ?thesis using w n by (simp add: toClientErr_def)
qed

lemma unmarshalSignature_enc: "length (encSig sig) < 2 ^ 32 \<Longrightarrow> unmarshalSignature (encSig sig) = Ok sig"
  using Unmarshal_enc [of Signature_T "Signature_vals sig"]
  by (simp add: unmarshalSignature_def encSig_def field_defs index_def reflect_defs Signature_T_def Signature_vals_def encStruct_def encString_def)

lemma sign_overWire:
  assumes "keyring_Sign cr sp rand key data r = (r, q)" "\<not> panics q" "formatOf key = Ok f"
    and "length (agentSignRequest # encString key @ encString data @ be32 0) \<le> maxAgentResponseBytes"
    and "\<And>sig. q = Ok sig \<Longrightarrow> 5 + length (encSig sig) \<le> maxAgentResponseBytes"
  shows "overWire lib (keyringAgent cr sp rand) (client_Sign key data) r r (coarsely ''agent: failed to sign challenge'' q)"
proof -
  let ?req = "agentSignRequest # encString key @ encString data @ be32 0"
  let ?f = "\<lambda>msg. case msg of SignResponse s \<Rightarrow> unmarshalSignature s
     | FailureMsg \<Rightarrow> Err (ErrNew ''agent: failed to sign challenge'') | _ \<Rightarrow> Panic ''unreachable''"
  have m: "client_Sign key data c = sbind (agent_call ?req) (\<lambda>msg. sres (?f msg)) c" for c
    by (simp add: client_Sign_def agent_messages) (simp add: sbind_def sres_def)
  have p: "processRequest lib (keyringAgent cr sp rand) ?req r = hbind (returns (\<lambda>_. (r, q))) (\<lambda>sig.
       hres (rbind (Marshal Signature_T (Signature_vals sig)) (\<lambda>s. Ok (RepSignResponse s)))) r"
    using assms(1,3) agent_unmarshals(2) [OF fits_2_32 [OF assms(4)]]
    by (simp add: processRequest_def hbind_def hres_def index_def keyringAgent_def returns_def field_defs reflect_defs)
  show ?thesis
  proof (cases q)
    case (Ok sig)
    let ?rep = "agentSignResponse # encString (encSig sig)"
    have small: "length ?rep \<le> maxAgentResponseBytes" using assms(5) [OF Ok] by (simp add: encString_def)
    have "processRequestBytes lib (keyringAgent cr sp rand) ?req r = Some (r, Ok ?rep)"
      by (simp add: processRequestBytes_def p) (simp add: hbind_def hres_def returns_def Ok Signature_fields(1) agent_messages)
    note w = call_overWire [OF this assms(4) small m]
    have "agent_unmarshal ?rep = Ok (SignResponse (encSig sig))"
      using agent_unmarshals(3) [OF fits_2_32 [OF small]] by (simp add: agent_unmarshal_def Let_def field_defs index_def reflect_defs)
    moreover have "unmarshalSignature (encSig sig) = Ok sig"
      using fits_2_32 [OF small] by (intro unmarshalSignature_enc) (simp add: encString_def)
    ultimately show ?thesis using w Ok by (simp add: toClientErr_def coarsely_def)
  next
    case (Err e)
    have "processRequestBytes lib (keyringAgent cr sp rand) ?req r = Some (r, Ok [agentFailure])"
      by (simp add: processRequestBytes_def p) (simp add: hbind_def hres_def returns_def Err)
    from call_overWire [OF this assms(4) _ m] Err show ?thesis
      by (simp add: maxAgentResponseBytes_def agent_unmarshal_def toClientErr_def coarsely_def)
  qed (use assms(2) in simp)
qed

lemma rsaKeyMsg_unmarshal:
  assumes "length (agentAddIdentity # encString (bytes_of t) @ encInt n @ encInt e @ encInt d @ encInt i @ encInt p @ encInt q @ encString (bytes_of c)) < 2 ^ 32"
  shows "Unmarshal (agentAddIdentity # encString (bytes_of t) @ encInt n @ encInt e @ encInt d @ encInt i @ encInt p @ encInt q @ encString (bytes_of c)) rsaKeyMsg_T
      = Ok [VString t, VInt n, VInt e, VInt d, VInt i, VInt p, VInt q, VString c]"
  using assms Unmarshal_enc [of rsaKeyMsg_T "[VString t, VInt n, VInt e, VInt d, VInt i, VInt p, VInt q, VString c]"]
  by (simp add: agent_T_defs encStruct_def typeTag_def Atoi_def)

lemma insertIdentity_unmarshal:
  assumes "length (agentAddIdentity # encString (bytes_of t) @ rest) < 2 ^ 32"
  shows "Unmarshal (agentAddIdentity # encString (bytes_of t) @ rest) insertIdentity_T = Ok [VString t, VBytes rest]"
  using assms Unmarshal_enc [of insertIdentity_T "[VString t, VBytes rest]"]
  by (simp add: agent_T_defs encStruct_def typeTag_def Atoi_def)

text \<open>An RSA key with two primes is added over the wire as it is added to the keyring; its exponent is an \<^verbatim>\<open>int\<close>.\<close>

lemma add_overWire:
  assumes "keyRequest lib (ClientRSA k [p, q]) comment = Ok req" "length req \<le> maxAgentResponseBytes" "Int64 (rsa_E (rsaPriv_PublicKey k)) = rsa_E (rsaPriv_PublicKey k)"
  shows "overWire lib (keyringAgent cr sp rand) (client_Add lib (ClientRSA k [p, q]) None comment) r
     (fst (keyring_Add (PrivRSA k) None comment r)) (coarsely ''agent: failure'' (snd (keyring_Add (PrivRSA k) None comment r)))"
proof -
  obtain i where pre: "al_Precompute lib k [p, q] = Ok i" and req: "req = agentAddIdentity # encString (bytes_of KeyAlgoRSA)
      @ encInt (rsa_N (rsaPriv_PublicKey k)) @ encInt (rsa_E (rsaPriv_PublicKey k)) @ encInt (rsaPriv_D k) @ encInt i @ encInt p @ encInt q @ encString (bytes_of comment)"
    using assms(1) by (auto simp: agent_messages)
  have k: "\<lparr>rsaPriv_PublicKey = \<lparr>rsa_E = rsa_E (rsaPriv_PublicKey k), rsa_N = rsa_N (rsaPriv_PublicKey k)\<rparr>, rsaPriv_D = rsaPriv_D k\<rparr> = k" by simp
  note small = fits_2_32 [OF assms(2), unfolded req]
  have "insertIdentity lib (keyringAgent cr sp rand) req r = Some (keyring_Add (PrivRSA k) None comment r)"
    using pre assms(3) rsaKeyMsg_unmarshal [OF small] insertIdentity_unmarshal [OF small]
    by (simp add: insertIdentity_def req hbind_def hres_def field_defs index_def reflect_defs Let_def keyringAgent_def returns_def k)
  moreover have i: "index req 0 = Ok agentAddIdentity" by (simp add: req)
  have "hbind (hres (Ok x)) f = f x" for x :: byte and f :: "byte \<Rightarrow> (keyring, agentRep) goProc" by (simp add: hbind_def hres_def)
  then have "processRequest lib (keyringAgent cr sp rand) req = hbind (insertIdentity lib (keyringAgent cr sp rand) req) (\<lambda>_. hres (Ok RepNil))"
    unfolding processRequest_def i by simp
  ultimately have p: "processRequest lib (keyringAgent cr sp rand) req r = hbind (returns (keyring_Add (PrivRSA k) None comment)) (\<lambda>_. hres (Ok RepNil)) r"
    by (simp add: hbind_def returns_def)
  have "client_Add lib (ClientRSA k [p, q]) None comment = simpleCall (Ok req)" using assms(1) by (simp add: client_Add_def insertKey_def del: keyRequest.simps)
  with simple_overWire [OF assms(2), of lib "keyringAgent cr sp rand" r] p show ?thesis
    by (cases "kg_locked r") (simp_all add: hbind_def hres_def returns_def keyring_Add_def NewSignerFromKey_def coarsely_def)
qed

text \<open>Removing a key, when the keyring returns from it and when it does not.\<close>

lemma serve_hangs:
  assumes "processRequestBytes lib ops req s = None" "length req \<le> maxAgentResponseBytes"
  shows "ServeAgent lib ops (s, \<lparr>bi_data = frame req @ rest, bi_err = EOF\<rparr>, w) = None"
proof -
  have "serveOne lib ops (s, \<lparr>bi_data = frame req @ rest, bi_err = EOF\<rparr>, w) = None"
    using assms by (simp add: serveOne_def frame_def Let_def frame_length answerRequest_def)
  then show ?thesis by (simp add: ServeAgent.simps [of lib ops "(s, _, w)"])
qed

lemma removeMsg_unmarshal:
  assumes "length (agentRemoveIdentity # encString p) < 2 ^ 32"
  shows "Unmarshal (agentRemoveIdentity # encString p) agentRemoveIdentityMsg_T = Ok [VBytes p]"
  using assms Unmarshal_enc [of agentRemoveIdentityMsg_T "[VBytes p]"]
  by (simp add: agent_T_defs encStruct_def typeTag_def Atoi_def encString_def)

lemma remove_request:
  assumes "formatOf key = Ok f" "length (agentRemoveIdentity # encString key) \<le> maxAgentResponseBytes"
  shows "processRequest lib (keyringAgent cr sp rand) (agentRemoveIdentity # encString key) r
    = hbind (keyring_Remove key) (\<lambda>_. hres (Ok RepNil)) r"
  using assms(1) removeMsg_unmarshal [OF fits_2_32 [OF assms(2)]]
  by (simp add: processRequest_def hbind_def hres_def index_def keyringAgent_def field_defs reflect_defs)

lemma remove_overWire:
  assumes "formatOf key = Ok f" "length (agentRemoveIdentity # encString key) \<le> maxAgentResponseBytes"
    "keyring_Remove key r = Some (r', q)" "\<not> panics q"
  shows "overWire lib (keyringAgent cr sp rand) (client_Remove key) r r' (coarsely ''agent: failure'' q)"
  using simple_overWire [OF assms(2), of lib "keyringAgent cr sp rand" r r'] remove_request [OF assms(1,2), of lib cr sp rand r] assms(3,4)
  by (cases q) (simp_all add: hbind_def hres_def client_Remove_def agent_messages coarsely_def)

lemma remove_hangs:
  assumes "formatOf key = Ok f" "length (agentRemoveIdentity # encString key) \<le> maxAgentResponseBytes" "keyring_Remove key r = None"
  shows "ServeAgent lib (keyringAgent cr sp rand) (r, \<lparr>bi_data = frame (agentRemoveIdentity # encString key) @ rest, bi_err = EOF\<rparr>, w) = None"
proof -
  have "processRequestBytes lib (keyringAgent cr sp rand) (agentRemoveIdentity # encString key) r = None"
    using remove_request [OF assms(1,2), of lib cr sp rand r] assms(3) by (simp add: processRequestBytes_def hbind_def)
  from serve_hangs [OF this assms(2)] show ?thesis .
qed

text \<open>A key or a certificate of any other kind is refused by the server as not implemented.\<close>

lemma client_Add_request: "client_Add lib s cert comment = simpleCall (addRequest lib s cert comment)"
  by (cases cert) (simp_all add: client_Add_def addRequest_def insertKey_def insertCert_def)

lemmas otherKey_T_defs = dsaKeyMsg_T_def ecdsaKeyMsg_T_def rsaCertMsg_T_def dsaCertMsg_T_def ecdsaCertMsg_T_def

lemma otherKey_messages:
  "Marshal dsaKeyMsg_T [VString t, VInt p, VInt q, VInt g, VInt y, VInt x, VString c]
     = Ok (agentAddIdentity # encString (bytes_of t) @ encInt p @ encInt q @ encInt g @ encInt y @ encInt x @ encString (bytes_of c))"
  "Marshal ecdsaKeyMsg_T [VString t, VString n, VBytes b, VInt d, VString c]
     = Ok (agentAddIdentity # encString (bytes_of t) @ encString (bytes_of n) @ encString b @ encInt d @ encString (bytes_of c))"
  "Marshal rsaCertMsg_T [VString t, VBytes b, VInt d, VInt i, VInt p, VInt q, VString c]
     = Ok (agentAddIdentity # encString (bytes_of t) @ encString b @ encInt d @ encInt i @ encInt p @ encInt q @ encString (bytes_of c))"
  "Marshal dsaCertMsg_T [VString t, VBytes b, VInt d, VString c]
     = Ok (agentAddIdentity # encString (bytes_of t) @ encString b @ encInt d @ encString (bytes_of c))"
  "Marshal ecdsaCertMsg_T [VString t, VBytes b, VInt d, VString c]
     = Ok (agentAddIdentity # encString (bytes_of t) @ encString b @ encInt d @ encString (bytes_of c))"
  by (subst Marshal_enc; simp add: otherKey_T_defs encStruct_def typeTag_def Atoi_def)+

lemma cert_not_rsa: "keyType (CertKey c) = Ok t \<Longrightarrow> t \<noteq> KeyAlgoRSA"
  by (cases c) (auto simp: certAlgoNames_def split: option.splits if_splits)

definition plainRSA :: "clientKey \<Rightarrow> Certificate option \<Rightarrow> bool" where
  "plainRSA s cert = (case s of ClientRSA _ _ \<Rightarrow> cert = None | _ \<Rightarrow> False)"

lemma addRequest_other:
  assumes "addRequest lib s cert comment = Ok req" "\<not> plainRSA s cert"
  shows "\<exists>t rest. req = agentAddIdentity # encString (bytes_of t) @ rest \<and> t \<noteq> KeyAlgoRSA"
proof (cases cert)
  case None
  with assms show ?thesis
    by (cases s) (auto simp: addRequest_def plainRSA_def otherKey_messages Let_def)
next
  case (Some c)
  then have "certRequest lib s c comment = Ok req" using assms(1) by (auto simp: addRequest_def split: if_splits)
  then show ?thesis
    by (cases s) (auto simp: otherKey_messages simp del: keyType.simps dest!: cert_not_rsa split: list.splits)
qed

lemma add_refused:
  assumes "addRequest lib s cert comment = Ok req" "\<not> plainRSA s cert" "length req \<le> maxAgentResponseBytes"
  shows "overWire lib ops (client_Add lib s cert comment) r r (Err (ErrNew ''agent: failure''))"
proof -
  obtain t rest where req: "req = agentAddIdentity # encString (bytes_of t) @ rest" and t: "t \<noteq> KeyAlgoRSA"
    using addRequest_other [OF assms(1,2)] by blast
  have i: "insertIdentity lib ops req r = Some (r, Err (Errorf ''not implemented: %s'' [AStr t]))"
    using insertIdentity_unmarshal [OF fits_2_32 [OF assms(3), unfolded req]] t
    by (simp add: insertIdentity_def req hbind_def hres_def field_defs index_def reflect_defs)
  have x: "index req 0 = Ok agentAddIdentity" by (simp add: req)
  have h: "hbind (hres (Ok x)) f = f x" for x :: byte and f :: "byte \<Rightarrow> ('a, agentRep) goProc" by (simp add: hbind_def hres_def)
  have "processRequest lib ops req = hbind (insertIdentity lib ops req) (\<lambda>_. hres (Ok RepNil))"
    unfolding processRequest_def x h by simp
  then have "processRequest lib ops req r = Some (r, Err (Errorf ''not implemented: %s'' [AStr t]))" using i by (simp add: hbind_def)
  from simple_overWire(2) [OF assms(3) this] show ?thesis unfolding client_Add_request assms(1) .
qed


text \<open>Messages that bring a program down: a request without any bytes makes the server panic, and a reply that says \<^emph>\<open>success\<close> to a
  client that listed keys or asked for a signature makes the client panic where its source says \<^emph>\<open>unreachable\<close>.\<close>

theorem agent_messages_that_panic:
  "processRequestBytes lib ops [] s = Some (s, Panic ''index out of range'')
   \<and> client_List (acOf (frame [agentSuccess]) []) = (acOf [] (frame [agentRequestIdentities]), Panic ''unreachable'')
   \<and> (\<exists>sent. client_Sign key data (acOf (frame [agentSuccess]) []) = (acOf [] sent, Panic ''unreachable''))"
proof (intro conjI)
  show "processRequestBytes lib ops [] s = Some (s, Panic ''index out of range'')"
    by (simp add: processRequestBytes_def processRequest_def hbind_def hres_def index_def)
  have c: "agent_call req (acOf (frame [agentSuccess]) []) = (acOf [] (frame req), Ok SuccessMsg)" for req
    by (subst call_frame) (simp_all add: maxAgentResponseBytes_def agent_unmarshal_def toClientErr_def)
  then show "client_List (acOf (frame [agentSuccess]) []) = (acOf [] (frame [agentRequestIdentities]), Panic ''unreachable'')"
    by (simp add: client_List_def sbind_def sres_def)
  from c show "\<exists>sent. client_Sign key data (acOf (frame [agentSuccess]) []) = (acOf [] sent, Panic ''unreachable'')"
    by (auto simp: client_Sign_def agent_messages sbind_def sres_def)
qed

section \<open>Witnesses\<close>

definition demoAgentlib :: agentlib where
  "demoAgentlib = \<lparr>al_Precompute = (\<lambda>k primes. Ok 2)\<rparr>"

theorem locked_agent_stays_locked_witness:
  "\<exists>c' w' res reps. ServeAgent demoAgentlib (keyringAgent demoCrypto demoPrims []) (demoRing\<lparr>kg_locked := True, kg_passphrase := [7]\<rparr>,
       \<lparr>bi_data = frame (agentUnlock # encString [7]), bi_err = EOF\<rparr>, \<lparr>bo_data = [], bo_fail = None\<rparr>)
     = Some ((demoRing\<lparr>kg_locked := True, kg_passphrase := [7]\<rparr>, c', w'), res)
     \<and> set reps \<subseteq> quietReplies \<and> bo_data w' = concat (map frame reps)"
  using locked_agent_stays_locked [of "demoRing\<lparr>kg_locked := True, kg_passphrase := [7]\<rparr>" "\<lparr>bo_data = [], bo_fail = None\<rparr>"]
  by simp


end
