(* ===== verification/Utf8.thy ===== *)
theory Utf8
  imports Go_Prelude
begin

text \<open>
  What the terminal uses of \<^verbatim>\<open>unicode/utf8\<close> and of the conversions between strings and slices of runes. A rune is an integer; a
  string of the source that holds text is its bytes. \<open>DecodeRune\<close> returns the error rune with width 1 for an invalid encoding, and \<open>FullRune\<close>
  says whether the bytes begin with a full encoding, where an invalid one counts as full.
\<close>

section \<open>Encoding and decoding\<close>

type_synonym rune = int

definition RuneError :: rune where
  "RuneError = 0xFFFD"

definition validRune :: "rune \<Rightarrow> bool" where
  "validRune r \<longleftrightarrow> 0 \<le> r \<and> r \<le> 0x10FFFF \<and> \<not> (0xD800 \<le> r \<and> r \<le> 0xDFFF)"

text \<open>The byte \<open>base + n\<close>, and a continuation byte with the six bits of \<open>r\<close> from bit \<open>6 * k\<close> on.\<close>

definition encByte :: "int \<Rightarrow> int \<Rightarrow> byte" where
  "encByte base n = word_of_int (base + n)"

definition contByte :: "rune \<Rightarrow> nat \<Rightarrow> byte" where
  "contByte r k = encByte 0x80 (r div 64 ^ k mod 64)"

definition encodeValid :: "rune \<Rightarrow> bytes" where
  "encodeValid r =
     (if r < 0x80 then [encByte 0 r]
      else if r < 0x800 then [encByte 0xC0 (r div 64), contByte r 0]
      else if r < 0x10000 then [encByte 0xE0 (r div 4096), contByte r 1, contByte r 0]
      else [encByte 0xF0 (r div 262144), contByte r 2, contByte r 1, contByte r 0])"

definition encodeRune :: "rune \<Rightarrow> bytes" where
  "encodeRune r = encodeValid (if validRune r then r else RuneError)"

text \<open>\<^verbatim>\<open>string(runes)\<close>.\<close>

definition encodeRunes :: "rune list \<Rightarrow> bytes" where
  "encodeRunes rs = concat (map encodeRune rs)"

text \<open>The length that a first byte announces and the range of the second byte; \<open>None\<close> for a byte that begins no encoding.\<close>

definition leadByte :: "byte \<Rightarrow> (nat \<times> int \<times> int) option" where
  "leadByte b = (let c = uint b in
     if c < 0x80 then Some (1, 0, 0)
     else if c < 0xC2 then None
     else if c < 0xE0 then Some (2, 0x80, 0xBF)
     else if c < 0xF0 then Some (3, if c = 0xE0 then 0xA0 else 0x80, if c = 0xED then 0x9F else 0xBF)
     else if c < 0xF5 then Some (4, if c = 0xF0 then 0x90 else 0x80, if c = 0xF4 then 0x8F else 0xBF)
     else None)"

definition isCont :: "byte \<Rightarrow> bool" where
  "isCont b \<longleftrightarrow> 0x80 \<le> uint b \<and> uint b \<le> 0xBF"

definition FullRune :: "bytes \<Rightarrow> bool" where
  "FullRune p = (case p of
       [] \<Rightarrow> False
     | b0 # q \<Rightarrow> (case leadByte b0 of
         None \<Rightarrow> True
       | Some (n, lo, hi) \<Rightarrow> n \<le> length p \<or> (q \<noteq> [] \<and> (uint (q ! 0) < lo \<or> hi < uint (q ! 0))) \<or> (1 < length q \<and> \<not> isCont (q ! 1))))"

definition DecodeRune :: "bytes \<Rightarrow> rune \<times> nat" where
  "DecodeRune p = (case p of
       [] \<Rightarrow> (RuneError, 0)
     | b0 # q \<Rightarrow> (case leadByte b0 of
         None \<Rightarrow> (RuneError, 1)
       | Some (n, lo, hi) \<Rightarrow>
          if n = 1 then (uint b0, 1)
          else if length p < n \<or> uint (q ! 0) < lo \<or> hi < uint (q ! 0) then (RuneError, 1)
          else if n = 2 then (uint b0 mod 32 * 64 + uint (q ! 0) mod 64, 2)
          else if \<not> isCont (q ! 1) then (RuneError, 1)
          else if n = 3 then (uint b0 mod 16 * 4096 + uint (q ! 0) mod 64 * 64 + uint (q ! 1) mod 64, 3)
          else if \<not> isCont (q ! 2) then (RuneError, 1)
          else (uint b0 mod 8 * 262144 + uint (q ! 0) mod 64 * 4096 + uint (q ! 1) mod 64 * 64 + uint (q ! 2) mod 64, 4)))"

lemma DecodeRune_width: "p \<noteq> [] \<Longrightarrow> 0 < snd (DecodeRune p)"
  by (auto simp: DecodeRune_def Let_def split: list.split option.split)

text \<open>\<^verbatim>\<open>[]rune(s)\<close>, and \<^verbatim>\<open>utf8.RuneCount\<close>.\<close>

function decodeRunes :: "bytes \<Rightarrow> rune list" where
  "decodeRunes p = (if p = [] then [] else case DecodeRune p of (r, n) \<Rightarrow> r # decodeRunes (drop n p))"
  by pat_completeness auto
termination
proof (relation "measure length", goal_cases)
  case (2 p r n)
  moreover from this have "0 < n" using DecodeRune_width [of p] by (metis snd_conv)
  ultimately show ?case by (cases p) auto
qed simp

declare decodeRunes.simps [simp del]

definition RuneCount :: "bytes \<Rightarrow> nat" where
  "RuneCount p = length (decodeRunes p)"

section \<open>Decoding undoes encoding\<close>

lemma uint_encByte: "0 \<le> base + n \<Longrightarrow> base + n < 256 \<Longrightarrow> uint (encByte base n) = base + n"
  unfolding encByte_def uint_word_of_int by simp

lemma uint_contByte: "uint (contByte r k) = 0x80 + r div 64 ^ k mod 64"
  unfolding contByte_def
proof (rule uint_encByte)
  have "0 \<le> r div 64 ^ k mod 64" "r div 64 ^ k mod 64 < 64" by simp_all
  then show "0 \<le> 128 + r div 64 ^ k mod 64" "128 + r div 64 ^ k mod 64 < 256" by linarith+
qed

lemma isCont_contByte: "isCont (contByte r k)"
proof -
  have "0 \<le> r div 64 ^ k mod 64" "r div 64 ^ k mod 64 < 64" by simp_all
  then show ?thesis unfolding isCont_def uint_contByte by linarith
qed

lemma contByte_bits: "uint (contByte r k) mod 64 = r div 64 ^ k mod 64"
proof -
  have "(0x80 + x) mod 64 = x mod 64" for x :: int using mod_mult_self1 [of x 2 64] by (simp add: add.commute)
  then show ?thesis unfolding uint_contByte by simp
qed

lemma div_mod_64: "r div 64 mod 64 = r div 64 - r div 4096 * (64 :: int)" "r div 4096 mod 64 = r div 4096 - r div 262144 * 64"
  by (simp_all add: minus_div_mult_eq_mod [symmetric] zdiv_zmult2_eq [symmetric])

text \<open>The bits that a mask keeps of a first byte.\<close>

lemma lead_bits:
  "0 \<le> x \<Longrightarrow> x < 32 \<Longrightarrow> (0xC0 + x) mod 32 = (x :: int)" "0 \<le> x \<Longrightarrow> x < 16 \<Longrightarrow> (0xE0 + x) mod 16 = x"
  "0 \<le> x \<Longrightarrow> x < 8 \<Longrightarrow> (0xF0 + x) mod 8 = x"
  using mod_mult_self1 [of x 6 32] mod_mult_self1 [of x 14 16] mod_mult_self1 [of x 30 8] by (simp_all add: add.commute)

lemma DecodeRune_3:
  assumes "leadByte b0 = Some (3, lo, hi)" "lo \<le> uint b1 \<and> uint b1 \<le> hi" "isCont b2"
  shows "DecodeRune (b0 # b1 # b2 # rest) = (uint b0 mod 16 * 4096 + uint b1 mod 64 * 64 + uint b2 mod 64, 3)"
  using assms by (simp add: DecodeRune_def)

lemma DecodeRune_4:
  assumes "leadByte b0 = Some (4, lo, hi)" "lo \<le> uint b1 \<and> uint b1 \<le> hi" "isCont b2" "isCont b3"
  shows "DecodeRune (b0 # b1 # b2 # b3 # rest) = (uint b0 mod 8 * 262144 + uint b1 mod 64 * 4096 + uint b2 mod 64 * 64 + uint b3 mod 64, 4)"
  using assms by (simp add: DecodeRune_def)

text \<open>The shape of the encoding of a valid rune: a first byte that announces its length, and continuation bytes.\<close>

lemma encodeValid_shape:
  assumes "validRune r"
  obtains b0 q n lo hi where "encodeValid r = b0 # q" "leadByte b0 = Some (n, lo, hi)" "n = Suc (length q)" "n \<le> 4"
    "q \<noteq> [] \<Longrightarrow> lo \<le> uint (q ! 0) \<and> uint (q ! 0) \<le> hi" "\<forall>b\<in>set q. isCont b"
    "\<And>rest. DecodeRune (encodeValid r @ rest) = (r, n)"
proof -
  consider (one) "r < 0x80" | (two) "0x80 \<le> r" "r < 0x800" | (three) "0x800 \<le> r" "r < 0x10000" | (four) "0x10000 \<le> r"
    by linarith
  then show ?thesis
  proof cases
    case one
    with assms have u: "uint (encByte 0 r) = r" by (intro trans [OF uint_encByte]) (auto simp: validRune_def)
    show ?thesis
      by (rule that [of "encByte 0 r" "[]" 1 0 0]) (use one u in \<open>simp_all add: encodeValid_def leadByte_def DecodeRune_def Let_def\<close>)
  next
    case two
    from two have d: "2 \<le> r div 64" "r div 64 < 32" by linarith+
    then have u: "uint (encByte 0xC0 (r div 64)) = 0xC0 + r div 64" by (intro uint_encByte) auto
    then have l: "leadByte (encByte 0xC0 (r div 64)) = Some (2, 0x80, 0xBF)" using d by (simp add: leadByte_def Let_def)
    have m: "(0xC0 + r div 64) mod 32 = r div 64" using d by (intro lead_bits) auto
    have rg: "0x80 \<le> uint (contByte r 0) \<and> uint (contByte r 0) \<le> 0xBF" using isCont_contByte by (simp add: isCont_def)
    show ?thesis
      by (rule that [of "encByte 0xC0 (r div 64)" "[contByte r 0]" 2 "0x80" "0xBF"])
        (use two l u m rg isCont_contByte [of r 0] in \<open>auto simp: encodeValid_def DecodeRune_def contByte_bits\<close>)
  next
    case three
    from three have d: "0 \<le> r div 4096" "r div 4096 < 16" by linarith+
    then have u: "uint (encByte 0xE0 (r div 4096)) = 0xE0 + r div 4096" by (intro uint_encByte) auto
    let ?lo = "if r div 4096 = 0 then 0xA0 else 0x80 :: int" and ?hi = "if r div 4096 = 13 then 0x9F else 0xBF :: int"
    have l: "leadByte (encByte 0xE0 (r div 4096)) = Some (3, ?lo, ?hi)" using d by (simp add: leadByte_def Let_def u)
    have m: "(0xE0 + r div 4096) mod 16 = r div 4096" using d by (intro lead_bits) auto
    have e: "r div 64 mod 64 = r div 64 - r div 4096 * 64" by (rule div_mod_64)
    from three have q: "0x20 \<le> r div 64" by linarith
    have s: "r div 4096 = 13 \<Longrightarrow> r div 64 < 0x360"
    proof -
      assume "r div 4096 = 13"
      then have "r < 0xE000" by linarith
      with assms have "r < 0xD800" by (auto simp: validRune_def)
      then show ?thesis by linarith
    qed
    have "0 \<le> r div 64 mod 64" "r div 64 mod 64 < 64" by simp_all
    moreover have "r div 4096 = 0 \<Longrightarrow> 0x20 \<le> r div 64 mod 64" unfolding e using q by simp
    moreover have "r div 4096 = 13 \<Longrightarrow> r div 64 mod 64 \<le> 0x1F" unfolding e using s by simp
    ultimately have rg: "?lo \<le> uint (contByte r 1) \<and> uint (contByte r 1) \<le> ?hi" by (auto simp: uint_contByte)
    have v: "r div 4096 * 4096 + r div 64 mod 64 * 64 + r mod 64 = r" unfolding e using div_mult_mod_eq [of r 64] by simp
    have enc: "encodeValid r = [encByte 0xE0 (r div 4096), contByte r 1, contByte r 0]" using three by (simp add: encodeValid_def)
    have dec: "DecodeRune (encodeValid r @ rest) = (r, 3)" for rest
      unfolding enc append_Cons DecodeRune_3 [OF l rg isCont_contByte] u m contByte_bits power_one_right power_0 div_by_1 v by (rule refl)
    show ?thesis
      by (rule that [OF enc l _ _ _ _ dec]) (use rg in \<open>simp_all add: isCont_contByte\<close>)
  next
    case four
    from four assms have d: "0 \<le> r div 262144" "r div 262144 < 5" unfolding validRune_def by linarith+
    then have u: "uint (encByte 0xF0 (r div 262144)) = 0xF0 + r div 262144" by (intro uint_encByte) auto
    let ?lo = "if r div 262144 = 0 then 0x90 else 0x80 :: int" and ?hi = "if r div 262144 = 4 then 0x8F else 0xBF :: int"
    have l: "leadByte (encByte 0xF0 (r div 262144)) = Some (4, ?lo, ?hi)" using d by (simp add: leadByte_def Let_def u)
    have m: "(0xF0 + r div 262144) mod 8 = r div 262144" using d by (intro lead_bits) auto
    have e: "r div 4096 mod 64 = r div 4096 - r div 262144 * 64" "r div 64 mod 64 = r div 64 - r div 4096 * 64"
      by (rule div_mod_64)+
    from four have q: "0x10 \<le> r div 4096" by linarith
    from assms have "r \<le> 0x10FFFF" by (simp add: validRune_def)
    then have s: "r div 4096 < 0x110" by linarith
    have "0 \<le> r div 4096 mod 64" "r div 4096 mod 64 < 64" by simp_all
    moreover have "r div 262144 = 0 \<Longrightarrow> 0x10 \<le> r div 4096 mod 64" unfolding e(1) using q by simp
    moreover have "r div 262144 = 4 \<Longrightarrow> r div 4096 mod 64 \<le> 0xF" unfolding e(1) using s by simp
    ultimately have rg: "?lo \<le> uint (contByte r 2) \<and> uint (contByte r 2) \<le> ?hi" by (auto simp: uint_contByte)
    have v: "r div 262144 * 262144 + r div 4096 mod 64 * 4096 + r div 64 mod 64 * 64 + r mod 64 = r" unfolding e using div_mult_mod_eq [of r 64] by simp
    have enc: "encodeValid r = [encByte 0xF0 (r div 262144), contByte r 2, contByte r 1, contByte r 0]" using four by (simp add: encodeValid_def)
    have square: "(64 :: int) ^ 2 = 4096" by simp
    have dec: "DecodeRune (encodeValid r @ rest) = (r, 4)" for rest
      unfolding enc append_Cons DecodeRune_4 [OF l rg isCont_contByte isCont_contByte] u m contByte_bits square power_one_right power_0 div_by_1 v
      by (rule refl)
    show ?thesis
      by (rule that [OF enc l _ _ _ _ dec]) (use rg in \<open>simp_all add: isCont_contByte\<close>)
  qed
qed

lemma validRune_RuneError [simp]: "validRune RuneError"
  by (simp add: validRune_def RuneError_def)

lemma encodeRune_shape:
  obtains b0 q n lo hi where "encodeRune r = b0 # q" "leadByte b0 = Some (n, lo, hi)" "n = Suc (length q)" "n \<le> 4"
    "q \<noteq> [] \<Longrightarrow> lo \<le> uint (q ! 0) \<and> uint (q ! 0) \<le> hi" "\<forall>b\<in>set q. isCont b"
    "\<And>rest. DecodeRune (encodeRune r @ rest) = (if validRune r then r else RuneError, n)"
  unfolding encodeRune_def by (rule encodeValid_shape [of "if validRune r then r else RuneError"]) (auto intro: that)

lemma encodeRune_nonempty [simp]: "encodeRune r \<noteq> []" "0 < length (encodeRune r)"
  by (rule encodeRune_shape [of r], simp)+

lemma encodeRune_le_4: "length (encodeRune r) \<le> 4"
  by (rule encodeRune_shape [of r]) simp

lemma DecodeRune_encode: "validRune r \<Longrightarrow> DecodeRune (encodeRune r @ rest) = (r, length (encodeRune r))"
  by (rule encodeRune_shape [of r]) auto

lemma FullRune_encode: "FullRune (encodeRune r @ rest)"
  by (rule encodeRune_shape [of r]) (simp add: FullRune_def)

text \<open>A proper prefix of an encoding is not full.\<close>

lemma FullRune_prefix:
  assumes "encodeRune r = p @ q" "q \<noteq> []"
  shows "\<not> FullRune p"
proof (rule encodeRune_shape [of r])
  fix b0 s n lo hi
  assume e: "encodeRune r = b0 # s" "leadByte b0 = Some (n, lo, hi)" "n = Suc (length s)"
    "s \<noteq> [] \<Longrightarrow> lo \<le> uint (s ! 0) \<and> uint (s ! 0) \<le> hi" "\<forall>b\<in>set s. isCont b"
  show ?thesis
  proof (cases p)
    case (Cons b p')
    with e assms have s: "b = b0" "s = p' @ q" by simp_all
    then have "p' \<noteq> [] \<Longrightarrow> s ! 0 = p' ! 0" "1 < length p' \<Longrightarrow> s ! 1 = p' ! 1" by (simp_all add: nth_append)
    moreover have "1 < length p' \<Longrightarrow> isCont (p' ! 1)" using e(5) s(2) by simp
    ultimately show ?thesis using e Cons s assms(2) by (auto simp: FullRune_def not_less)
  qed (simp add: FullRune_def)
qed

text \<open>An encoding begins with an ASCII character only if it is that character.\<close>

lemma encodeRune_ascii: "0 \<le> r \<Longrightarrow> r < 0x80 \<Longrightarrow> encodeRune r = [word_of_int r]"
  by (simp add: encodeRune_def encodeValid_def validRune_def encByte_def)

lemma hd_encodeRune:
  assumes "0x80 \<le> r"
  shows "0x80 \<le> uint (hd (encodeRune r))"
proof (rule encodeRune_shape [of r])
  fix b0 s n lo hi
  assume e: "encodeRune r = b0 # s" "leadByte b0 = Some (n, lo, hi)" "n = Suc (length s)"
  moreover have "1 < length (encodeRune r)" using assms by (simp add: encodeRune_def encodeValid_def RuneError_def)
  ultimately show ?thesis by (auto simp: leadByte_def Let_def split: if_splits)
qed

lemma encodeRunes_simps [simp]: "encodeRunes [] = []" "encodeRunes (r # rs) = encodeRune r @ encodeRunes rs"
  "encodeRunes (rs @ rs') = encodeRunes rs @ encodeRunes rs'"
  by (simp_all add: encodeRunes_def)

lemma decodeRunes_Nil [simp]: "decodeRunes [] = []"
  by (simp add: decodeRunes.simps)

lemma decodeRunes_encodeRune: "validRune r \<Longrightarrow> decodeRunes (encodeRune r @ rest) = r # decodeRunes rest"
  by (simp add: decodeRunes.simps [of "encodeRune r @ rest"] DecodeRune_encode)

lemma decodeRunes_encodeRunes: "\<forall>r\<in>set rs. validRune r \<Longrightarrow> decodeRunes (encodeRunes rs @ rest) = rs @ decodeRunes rest"
  by (induction rs) (simp_all add: decodeRunes_encodeRune)

end
