(* ===== verification/Terminal.thy ===== *)
theory Terminal
  imports Utf8 Cipher
begin

text \<open>
  The line editor of \<^verbatim>\<open>terminal/terminal.go\<close>: the history, the parser of key sequences, the operations on the line and on the screen,
  the loop that reads a line. Every operation runs under the lock of the terminal, which is free while the loop waits
  for input; what other goroutines do in the meantime are events between the pieces of input. Widths and positions are
  natural numbers: a size is not negative.
\<close>

section \<open>The history\<close>

record stRingBuffer =
  rb_entries :: "bytes list"
  rb_max :: nat
  rb_head :: nat
  rb_size :: nat

definition ring_Add :: "bytes \<Rightarrow> stRingBuffer \<Rightarrow> (stRingBuffer \<times> unit res)" where
  "ring_Add a s =
     (let s = (if rb_entries s = [] then s\<lparr>rb_entries := replicate 100 [], rb_max := 100\<rparr> else s) in
      if rb_max s = 0 then (s, Panic ''integer divide by zero'')
      else let s = s\<lparr>rb_head := (rb_head s + 1) mod rb_max s\<rparr> in
        if length (rb_entries s) \<le> rb_head s then (s, Panic ''index out of range'')
        else let s = s\<lparr>rb_entries := (rb_entries s)[rb_head s := a]\<rparr> in
          (if rb_size s < rb_max s then s\<lparr>rb_size := rb_size s + 1\<rparr> else s, Ok ()))"

text \<open>\<open>None\<close> is \<^verbatim>\<open>ok == false\<close>.\<close>

definition NthPreviousEntry :: "int \<Rightarrow> stRingBuffer \<Rightarrow> bytes option res" where
  "NthPreviousEntry n s =
     (if n \<ge> int (rb_size s) then Ok None
      else let i = int (rb_head s) - n; i = (if i < 0 then i + int (rb_max s) else i) in
        if i < 0 \<or> int (length (rb_entries s)) \<le> i then Panic ''index out of range'' else Ok (Some (rb_entries s ! nat i)))"

section \<open>Keys\<close>

abbreviation keyCtrlD :: rune where "keyCtrlD \<equiv> 4"
abbreviation keyCtrlU :: rune where "keyCtrlU \<equiv> 21"
abbreviation keyEnter :: rune where "keyEnter \<equiv> 13"
abbreviation keyEscape :: rune where "keyEscape \<equiv> 27"
abbreviation keyBackspace :: rune where "keyBackspace \<equiv> 127"
abbreviation keyUnknown :: rune where "keyUnknown \<equiv> 0xd805"
abbreviation keyUp :: rune where "keyUp \<equiv> 0xd806"
abbreviation keyDown :: rune where "keyDown \<equiv> 0xd807"
abbreviation keyLeft :: rune where "keyLeft \<equiv> 0xd808"
abbreviation keyRight :: rune where "keyRight \<equiv> 0xd809"
abbreviation keyAltLeft :: rune where "keyAltLeft \<equiv> 0xd80a"
abbreviation keyAltRight :: rune where "keyAltRight \<equiv> 0xd80b"
abbreviation keyHome :: rune where "keyHome \<equiv> 0xd80c"
abbreviation keyEnd :: rune where "keyEnd \<equiv> 0xd80d"
abbreviation keyDeleteWord :: rune where "keyDeleteWord \<equiv> 0xd80e"
abbreviation keyDeleteLine :: rune where "keyDeleteLine \<equiv> 0xd80f"
abbreviation keyClearScreen :: rune where "keyClearScreen \<equiv> 0xd810"
abbreviation keyPasteStart :: rune where "keyPasteStart \<equiv> 0xd811"
abbreviation keyPasteEnd :: rune where "keyPasteEnd \<equiv> 0xd812"

definition pasteStart :: bytes where "pasteStart = 27 # bytes_of ''[200~''"
definition pasteEnd :: bytes where "pasteEnd = 27 # bytes_of ''[201~''"

text \<open>The cases of the three switches on bytes.\<close>

definition controlKey :: "byte \<Rightarrow> rune option" where
  "controlKey b = map_of [(1, keyHome), (5, keyEnd), (8, keyBackspace), (11, keyDeleteLine), (12, keyClearScreen), (23, keyDeleteWord)] b"

definition arrowKey :: "byte \<Rightarrow> rune option" where
  "arrowKey b = map_of [(0x41, keyUp), (0x42, keyDown), (0x43, keyRight), (0x44, keyLeft), (0x48, keyHome), (0x46, keyEnd)] b"

definition altKey :: "byte \<Rightarrow> rune option" where
  "altKey b = map_of [(0x43, keyAltRight), (0x44, keyAltLeft)] b"

definition endsSequence :: "byte \<Rightarrow> bool" where
  "endsSequence c \<longleftrightarrow> c \<ge> 0x61 \<and> c \<le> 0x7a \<or> c \<ge> 0x41 \<and> c \<le> 0x5a \<or> c = 0x7e"

text \<open>The loop for a sequence that is not known.\<close>

definition unknownKey :: "bytes \<Rightarrow> rune \<times> bytes" where
  "unknownKey b = (case dropWhile (\<lambda>c. \<not> endsSequence c) b of [] \<Rightarrow> (RuneError, b) | _ # rest \<Rightarrow> (keyUnknown, rest))"

definition escapeKey :: "bytes \<Rightarrow> bool \<Rightarrow> rune \<times> bytes" where
  "escapeKey b pasteActive =
     (if \<not> pasteActive \<and> length b \<ge> 3 \<and> b ! 1 = 0x5b \<and> arrowKey (b ! 2) \<noteq> None then (the (arrowKey (b ! 2)), drop 3 b)
      else if \<not> pasteActive \<and> length b \<ge> 6 \<and> b ! 1 = 0x5b \<and> b ! 2 = 0x31 \<and> b ! 3 = 0x3b \<and> b ! 4 = 0x33 \<and> altKey (b ! 5) \<noteq> None
      then (the (altKey (b ! 5)), drop 6 b)
      else if \<not> pasteActive \<and> length b \<ge> 6 \<and> take 6 b = pasteStart then (keyPasteStart, drop 6 b)
      else if pasteActive \<and> length b \<ge> 6 \<and> take 6 b = pasteEnd then (keyPasteEnd, drop 6 b)
      else unknownKey b)"

definition bytesToKey :: "bytes \<Rightarrow> bool \<Rightarrow> rune \<times> bytes" where
  "bytesToKey b pasteActive = (case b of
       [] \<Rightarrow> (RuneError, [])
     | b0 # b' \<Rightarrow>
        if \<not> pasteActive \<and> controlKey b0 \<noteq> None then (the (controlKey b0), b')
        else if b0 \<noteq> 27 then if \<not> FullRune b then (RuneError, b) else case DecodeRune b of (r, l) \<Rightarrow> (r, drop l b)
        else escapeKey b pasteActive)"

section \<open>The terminal\<close>

text \<open>
  What happens while the loop waits for input: bytes arrive, a read fails (whatever bytes it returns with the error), or
  another goroutine writes to the terminal, resizes it or sets the prompt. If nothing more happens the read never returns.
\<close>

datatype termEvent = Arrives bytes | Fails bytes goerr | OtherWrite bytes | OtherSize nat nat | OtherPrompt bytes

text \<open>The escape codes for colours.\<close>

record EscapeCodes =
  ec_Black :: bytes
  ec_Red :: bytes
  ec_Green :: bytes
  ec_Yellow :: bytes
  ec_Blue :: bytes
  ec_Magenta :: bytes
  ec_Cyan :: bytes
  ec_White :: bytes
  ec_Reset :: bytes

definition colourCode :: "string \<Rightarrow> bytes" where
  "colourCode n = 27 # bytes_of ''['' @ bytes_of n @ bytes_of ''m''"

definition vt100EscapeCodes :: EscapeCodes where
  "vt100EscapeCodes = \<lparr>ec_Black = colourCode ''30'', ec_Red = colourCode ''31'', ec_Green = colourCode ''32'', ec_Yellow = colourCode ''33'',
     ec_Blue = colourCode ''34'', ec_Magenta = colourCode ''35'', ec_Cyan = colourCode ''36'', ec_White = colourCode ''37'', ec_Reset = colourCode ''0''\<rparr>"

text \<open>The callback is a function of its arguments; nothing else happens to the terminal while it runs.\<close>

type_synonym completer = "bytes \<Rightarrow> nat \<Rightarrow> rune \<Rightarrow> bytes \<times> int \<times> bool"

record Terminal =
  tm_AutoCompleteCallback :: "completer option"
  tm_Escape :: EscapeCodes
  tm_in :: "termEvent list"
  tm_out :: byteOut
  tm_prompt :: "rune list"
  tm_line :: "rune list"
  tm_pos :: nat
  tm_echo :: bool
  tm_pasteActive :: bool
  tm_cursorX :: nat
  tm_cursorY :: nat
  tm_maxLine :: nat
  tm_termWidth :: nat
  tm_termHeight :: nat
  tm_outBuf :: bytes
  tm_remainder :: bytes
  tm_history :: stRingBuffer
  tm_historyIndex :: int
  tm_historyPending :: bytes

definition NewTerminal :: "termEvent list \<Rightarrow> byteOut \<Rightarrow> bytes \<Rightarrow> Terminal" where
  "NewTerminal c w prompt = \<lparr>tm_AutoCompleteCallback = None, tm_Escape = vt100EscapeCodes, tm_in = c, tm_out = w, tm_prompt = decodeRunes prompt, tm_line = [], tm_pos = 0,
     tm_echo = True, tm_pasteActive = False, tm_cursorX = 0, tm_cursorY = 0, tm_maxLine = 0, tm_termWidth = 80, tm_termHeight = 24,
     tm_outBuf = [], tm_remainder = [], tm_history = \<lparr>rb_entries = [], rb_max = 0, rb_head = 0, rb_size = 0\<rparr>, tm_historyIndex = -1,
     tm_historyPending = []\<rparr>"

text \<open>A statement that only changes the state.\<close>

definition supd :: "('s \<Rightarrow> 's) \<Rightarrow> ('s, unit) goStep" where
  "supd f = (\<lambda>s. (f s, Ok ()))"

definition sdone :: "('s, unit) goStep" where
  "sdone = (\<lambda>s. (s, Ok ()))"

section \<open>The screen\<close>

definition queue :: "rune list \<Rightarrow> (Terminal, unit) goStep" where
  "queue data = supd (\<lambda>t. t\<lparr>tm_outBuf := tm_outBuf t @ encodeRunes data\<rparr>)"

definition space :: "rune list" where
  "space = [32]"

definition isPrintable :: "rune \<Rightarrow> bool" where
  "isPrintable key \<longleftrightarrow> key \<ge> 32 \<and> \<not> (key \<ge> 0xd800 \<and> key \<le> 0xdbff)"

definition arrow :: "rune \<Rightarrow> rune list" where
  "arrow c = [keyEscape, 0x5b, c]"

definition movement :: "nat \<Rightarrow> nat \<Rightarrow> nat \<Rightarrow> nat \<Rightarrow> rune list" where
  "movement up down left right = concat (replicate up (arrow 0x41) @ replicate down (arrow 0x42) @ replicate left (arrow 0x44) @ replicate right (arrow 0x43))"

definition move :: "nat \<Rightarrow> nat \<Rightarrow> nat \<Rightarrow> nat \<Rightarrow> (Terminal, unit) goStep" where
  "move up down left right = queue (movement up down left right)"

fun visualFrom :: "bool \<Rightarrow> rune list \<Rightarrow> nat" where
  "visualFrom inEscapeSeq [] = 0"
| "visualFrom inEscapeSeq (r # rs) =
     (if inEscapeSeq then visualFrom (\<not> (r \<ge> 0x61 \<and> r \<le> 0x7a \<or> r \<ge> 0x41 \<and> r \<le> 0x5a)) rs
      else if r = 27 then visualFrom True rs
      else Suc (visualFrom False rs))"

definition visualLength :: "rune list \<Rightarrow> nat" where
  "visualLength runes = visualFrom False runes"

text \<open>A difference of natural numbers is what the source computes with its two comparisons.\<close>

definition moveCursorToPos :: "nat \<Rightarrow> (Terminal, unit) goStep" where
  "moveCursorToPos pos t =
     (if \<not> tm_echo t then (t, Ok ())
      else if tm_termWidth t = 0 then (t, Panic ''integer divide by zero'')
      else let x = visualLength (tm_prompt t) + pos; y = x div tm_termWidth t; x = x mod tm_termWidth t
        in move (tm_cursorY t - y) (y - tm_cursorY t) (tm_cursorX t - x) (x - tm_cursorX t) (t\<lparr>tm_cursorX := x, tm_cursorY := y\<rparr>))"

definition clearLineToRight :: "(Terminal, unit) goStep" where
  "clearLineToRight = queue (arrow 0x4b)"

definition maxLineLength :: nat where
  "maxLineLength = 4096"

definition advanceCursor :: "nat \<Rightarrow> (Terminal, unit) goStep" where
  "advanceCursor places t =
     (let x = tm_cursorX t + places in
      if tm_termWidth t = 0 then (t\<lparr>tm_cursorX := x\<rparr>, Panic ''integer divide by zero'')
      else let y = tm_cursorY t + x div tm_termWidth t; x = x mod tm_termWidth t;
          t = t\<lparr>tm_cursorX := x, tm_cursorY := y, tm_maxLine := (if y > tm_maxLine t then y else tm_maxLine t)\<rparr>
        in (if places > 0 \<and> x = 0 then t\<lparr>tm_outBuf := tm_outBuf t @ [10]\<rparr> else t, Ok ()))"

lemma advanceCursor_Ok:
  "advanceCursor n t = (t', Ok u) \<Longrightarrow> 0 < tm_termWidth t \<and> tm_cursorX t' < tm_termWidth t' \<and> tm_termWidth t' = tm_termWidth t"
  by (auto simp: advanceCursor_def Let_def split: if_splits)

text \<open>
  The loop of \<open>writeLine\<close>. A cursor right of the edge makes the slice expression panic; a cursor on the edge takes one round
  that writes nothing and only wraps the cursor.
\<close>

function writeLine :: "rune list \<Rightarrow> (Terminal, unit) goStep" where
  "writeLine line t =
     (if line = [] then (t, Ok ())
      else if tm_cursorX t > tm_termWidth t then (t, Panic ''slice bounds out of range'')
      else let todo = min (length line) (tm_termWidth t - tm_cursorX t) in
        case sbind (queue (take todo line)) (\<lambda>_. advanceCursor (visualLength (take todo line))) t of
          (t, Ok _) \<Rightarrow> writeLine (drop todo line) t
        | (t, Err e) \<Rightarrow> (t, Err e)
        | (t, Panic p) \<Rightarrow> (t, Panic p))"
  by pat_completeness auto

termination
proof (relation "measures [\<lambda>(line, _). length line, \<lambda>(_, t). if tm_cursorX t < tm_termWidth t then 0 else 1]", goal_cases)
  case (2 line t todo t' x u)
  then have a: "advanceCursor (visualLength (take todo line)) (t\<lparr>tm_outBuf := tm_outBuf t @ encodeRunes (take todo line)\<rparr>) = (t', Ok u)"
    by (simp add: sbind_def queue_def supd_def)
  from advanceCursor_Ok [OF this] 2 show ?case by (auto simp: Let_def)
qed simp

declare writeLine.simps [simp del]

fun writeSpaces :: "nat \<Rightarrow> (Terminal, unit) goStep" where
  "writeSpaces 0 = sdone"
| "writeSpaces (Suc n) = sbind (writeLine space) (\<lambda>_. writeSpaces n)"

definition setLine :: "rune list \<Rightarrow> nat \<Rightarrow> (Terminal, unit) goStep" where
  "setLine newLine newPos t =
     sbind (if tm_echo t
       then sbind (moveCursorToPos 0) (\<lambda>_. sbind (writeLine newLine) (\<lambda>_.
            sbind (writeSpaces (length (tm_line t) - length newLine)) (\<lambda>_. moveCursorToPos newPos)))
       else sdone) (\<lambda>_. supd (\<lambda>t. t\<lparr>tm_line := newLine, tm_pos := newPos\<rparr>)) t"

definition queueSpaces :: "nat \<Rightarrow> (Terminal, unit) goStep" where
  "queueSpaces n = queue (concat (replicate n space))"

definition eraseNPreviousChars :: "nat \<Rightarrow> (Terminal, unit) goStep" where
  "eraseNPreviousChars n t =
     (if n = 0 then (t, Ok ())
      else let n = (if tm_pos t < n then tm_pos t else n); pos = tm_pos t - n in
        sbind (supd (\<lambda>t. t\<lparr>tm_pos := pos\<rparr>)) (\<lambda>_.
        sbind (moveCursorToPos pos) (\<lambda>_.
        sbind (sres (if n + pos \<le> length (tm_line t) then Ok () else Panic ''slice bounds out of range'')) (\<lambda>_.
        sbind (supd (\<lambda>t. t\<lparr>tm_line := take pos (tm_line t) @ drop (n + pos) (tm_line t)\<rparr>)) (\<lambda>_.
        if tm_echo t
        then sbind (\<lambda>t. writeLine (drop pos (tm_line t)) t) (\<lambda>_. sbind (queueSpaces n) (\<lambda>_. sbind (advanceCursor n) (\<lambda>_. moveCursorToPos pos)))
        else sdone)))) t)"

text \<open>The two loops of each count; the index expressions are evaluated while the position is positive.\<close>

fun skipSpacesLeft :: "rune list \<Rightarrow> nat \<Rightarrow> nat res" where
  "skipSpacesLeft line 0 = Ok 0"
| "skipSpacesLeft line (Suc p) = rbind (index line (Suc p)) (\<lambda>c. if c \<noteq> 32 then Ok (Suc p) else skipSpacesLeft line p)"

fun skipWordLeft :: "rune list \<Rightarrow> nat \<Rightarrow> nat res" where
  "skipWordLeft line 0 = Ok 0"
| "skipWordLeft line (Suc p) = rbind (index line (Suc p)) (\<lambda>c. if c = 32 then Ok (Suc (Suc p)) else skipWordLeft line p)"

definition countToLeftWord :: "Terminal \<Rightarrow> nat res" where
  "countToLeftWord t =
     (if tm_pos t = 0 then Ok 0
      else rbind (skipSpacesLeft (tm_line t) (tm_pos t - 1)) (\<lambda>p. rbind (skipWordLeft (tm_line t) p) (\<lambda>p. Ok (tm_pos t - p))))"

function skipRight :: "(rune \<Rightarrow> bool) \<Rightarrow> rune list \<Rightarrow> nat \<Rightarrow> nat" where
  "skipRight stop line p = (if p < length line then if stop (line ! p) then p else skipRight stop line (p + 1) else p)"
  by pat_completeness auto
termination
  by (relation "measure (\<lambda>(_, line, p). length line - p)") auto

declare skipRight.simps [simp del]

definition countToRightWord :: "Terminal \<Rightarrow> nat" where
  "countToRightWord t = skipRight (\<lambda>c. c \<noteq> 32) (tm_line t) (skipRight (\<lambda>c. c = 32) (tm_line t) (tm_pos t)) - tm_pos t"

section \<open>Handling a key\<close>

definition addKeyToLine :: "rune \<Rightarrow> (Terminal, unit) goStep" where
  "addKeyToLine key t =
     (if length (tm_line t) < tm_pos t then (t, Panic ''slice bounds out of range'')
      else sbind (supd (\<lambda>t. t\<lparr>tm_line := take (tm_pos t) (tm_line t) @ key # drop (tm_pos t) (tm_line t)\<rparr>)) (\<lambda>_.
        sbind (if tm_echo t then (\<lambda>t. writeLine (drop (tm_pos t) (tm_line t)) t) else sdone) (\<lambda>_.
        sbind (supd (\<lambda>t. t\<lparr>tm_pos := tm_pos t + 1\<rparr>)) (\<lambda>_. moveCursorToPos (tm_pos t + 1)))) t)"

definition moveTo :: "nat \<Rightarrow> (Terminal, unit) goStep" where
  "moveTo pos = sbind (supd (\<lambda>t. t\<lparr>tm_pos := pos\<rparr>)) (\<lambda>_. moveCursorToPos pos)"

definition handleUp :: "(Terminal, unit) goStep" where
  "handleUp t = sbind (sres (NthPreviousEntry (tm_historyIndex t + 1) (tm_history t))) (\<lambda>entry. case entry of
       None \<Rightarrow> sdone
     | Some entry \<Rightarrow>
        sbind (supd (\<lambda>t. if tm_historyIndex t = -1 then t\<lparr>tm_historyPending := encodeRunes (tm_line t)\<rparr> else t)) (\<lambda>_.
        sbind (supd (\<lambda>t. t\<lparr>tm_historyIndex := tm_historyIndex t + 1\<rparr>)) (\<lambda>_.
          setLine (decodeRunes entry) (length (decodeRunes entry))))) t"

definition handleDown :: "(Terminal, unit) goStep" where
  "handleDown t =
     (if tm_historyIndex t = -1 then (t, Ok ())
      else if tm_historyIndex t = 0
      then sbind (setLine (decodeRunes (tm_historyPending t)) (length (decodeRunes (tm_historyPending t))))
             (\<lambda>_. supd (\<lambda>t. t\<lparr>tm_historyIndex := tm_historyIndex t - 1\<rparr>)) t
      else sbind (sres (NthPreviousEntry (tm_historyIndex t - 1) (tm_history t))) (\<lambda>entry. case entry of
          None \<Rightarrow> sdone
        | Some entry \<Rightarrow> sbind (supd (\<lambda>t. t\<lparr>tm_historyIndex := tm_historyIndex t - 1\<rparr>)) (\<lambda>_.
            setLine (decodeRunes entry) (length (decodeRunes entry)))) t)"

definition handleEnter :: "(Terminal, bytes option) goStep" where
  "handleEnter t = sbind (moveCursorToPos (length (tm_line t))) (\<lambda>_. sbind (queue [13, 10]) (\<lambda>_.
     \<lambda>t'. (t'\<lparr>tm_line := [], tm_pos := 0, tm_cursorX := 0, tm_cursorY := 0, tm_maxLine := 0\<rparr>, Ok (Some (encodeRunes (tm_line t)))))) t"

fun blankOut :: "nat \<Rightarrow> (Terminal, unit) goStep" where
  "blankOut 0 = sdone"
| "blankOut (Suc n) = sbind (queue space) (\<lambda>_. sbind (advanceCursor 1) (\<lambda>_. blankOut n))"

definition handleDeleteLine :: "(Terminal, unit) goStep" where
  "handleDeleteLine t = sbind (blankOut (length (tm_line t) - tm_pos t)) (\<lambda>_.
     sbind (sres (if tm_pos t \<le> length (tm_line t) then Ok () else Panic ''slice bounds out of range'')) (\<lambda>_.
     sbind (supd (\<lambda>t. t\<lparr>tm_line := take (tm_pos t) (tm_line t)\<rparr>)) (\<lambda>_. moveCursorToPos (tm_pos t)))) t"

definition clearScreenCodes :: "rune list" where
  "clearScreenCodes = [keyEscape, 0x5b, 0x32, 0x4a, keyEscape, 0x5b, 0x48]"

definition handleClearScreen :: "(Terminal, unit) goStep" where
  "handleClearScreen t = sbind (queue clearScreenCodes) (\<lambda>_. sbind (queue (tm_prompt t)) (\<lambda>_.
     sbind (supd (\<lambda>t. t\<lparr>tm_cursorX := 0, tm_cursorY := 0\<rparr>)) (\<lambda>_. sbind (advanceCursor (visualLength (tm_prompt t))) (\<lambda>_.
       setLine (tm_line t) (tm_pos t))))) t"

text \<open>
  The default case: the callback may replace the line; its position must lie in the line that it returns. A slice expression
  may reach beyond the length up to the capacity of the slice, which the model does not know: where the length alone
  does not decide, here and in the case of \<^verbatim>\<open>keyDeleteLine\<close>, the model takes the panic.
\<close>

definition insertPrintable :: "rune \<Rightarrow> (Terminal, unit) goStep" where
  "insertPrintable key t =
     (if \<not> isPrintable key then (t, Ok ()) else if length (tm_line t) = maxLineLength then (t, Ok ()) else addKeyToLine key t)"

definition handleOther :: "rune \<Rightarrow> (Terminal, unit) goStep" where
  "handleOther key t = (case tm_AutoCompleteCallback t of
       None \<Rightarrow> insertPrintable key t
     | Some cb \<Rightarrow>
        if length (tm_line t) < tm_pos t then (t, Panic ''slice bounds out of range'')
        else let prefix = encodeRunes (take (tm_pos t) (tm_line t)); suffix = encodeRunes (drop (tm_pos t) (tm_line t)) in
          case cb (prefix @ suffix) (length prefix) key of (newLine, newPos, completeOk) \<Rightarrow>
            if completeOk
            then if newPos < 0 \<or> int (length newLine) < newPos then (t, Panic ''slice bounds out of range'')
              else setLine (decodeRunes newLine) (RuneCount (take (nat newPos) newLine)) t
            else insertPrintable key t)"

definition noLine :: "(Terminal, unit) goStep \<Rightarrow> (Terminal, bytes option) goStep" where
  "noLine m = sbind m (\<lambda>_. sres (Ok None))"

definition handleKey :: "rune \<Rightarrow> (Terminal, bytes option) goStep" where
  "handleKey key t =
     (if tm_pasteActive t \<and> key \<noteq> keyEnter then noLine (addKeyToLine key) t
      else if key = keyBackspace then noLine (if tm_pos t = 0 then sdone else eraseNPreviousChars 1) t
      else if key = keyAltLeft then noLine (sbind (sres (countToLeftWord t)) (\<lambda>n. moveTo (tm_pos t - n))) t
      else if key = keyAltRight then noLine (moveTo (tm_pos t + countToRightWord t)) t
      else if key = keyLeft then noLine (if tm_pos t = 0 then sdone else moveTo (tm_pos t - 1)) t
      else if key = keyRight then noLine (if tm_pos t = length (tm_line t) then sdone else moveTo (tm_pos t + 1)) t
      else if key = keyHome then noLine (if tm_pos t = 0 then sdone else moveTo 0) t
      else if key = keyEnd then noLine (if tm_pos t = length (tm_line t) then sdone else moveTo (length (tm_line t))) t
      else if key = keyUp then noLine handleUp t
      else if key = keyDown then noLine handleDown t
      else if key = keyEnter then handleEnter t
      else if key = keyDeleteWord then noLine (sbind (sres (countToLeftWord t)) eraseNPreviousChars) t
      else if key = keyDeleteLine then noLine handleDeleteLine t
      else if key = keyCtrlD
      then noLine (if tm_pos t < length (tm_line t) then sbind (supd (\<lambda>t. t\<lparr>tm_pos := tm_pos t + 1\<rparr>)) (\<lambda>_. eraseNPreviousChars 1) else sdone) t
      else if key = keyCtrlU then noLine (eraseNPreviousChars (tm_pos t)) t
      else if key = keyClearScreen then noLine handleClearScreen t
      else noLine (handleOther key) t)"

section \<open>Writing, prompts and sizes\<close>

definition rawWrite :: "bytes \<Rightarrow> (Terminal, unit) goStep" where
  "rawWrite b t = (case writeBytes (tm_out t) b of (w, r) \<Rightarrow> (t\<lparr>tm_out := w\<rparr>, r))"

definition flushOut :: "(Terminal, unit) goStep" where
  "flushOut t = sbind (rawWrite (tm_outBuf t)) (\<lambda>_. supd (\<lambda>t. t\<lparr>tm_outBuf := []\<rparr>)) t"

fun clearUp :: "nat \<Rightarrow> (Terminal, unit) goStep" where
  "clearUp 0 = sdone"
| "clearUp (Suc n) = sbind (move 1 0 0 0) (\<lambda>_. sbind (supd (\<lambda>t. t\<lparr>tm_cursorY := n\<rparr>)) (\<lambda>_. sbind clearLineToRight (\<lambda>_. clearUp n)))"

definition Terminal_Write :: "bytes \<Rightarrow> (Terminal, unit) goStep" where
  "Terminal_Write buf t =
     (if tm_cursorX t = 0 \<and> tm_cursorY t = 0 then rawWrite buf t
      else sbind (move 0 0 (tm_cursorX t) 0) (\<lambda>_. sbind (supd (\<lambda>t. t\<lparr>tm_cursorX := 0\<rparr>)) (\<lambda>_. sbind clearLineToRight (\<lambda>_.
        sbind (clearUp (tm_cursorY t)) (\<lambda>_. sbind flushOut (\<lambda>_. sbind (rawWrite buf) (\<lambda>_. sbind (writeLine (tm_prompt t)) (\<lambda>_.
        sbind (if tm_echo t then writeLine (tm_line t) else sdone) (\<lambda>_. sbind (moveCursorToPos (tm_pos t)) (\<lambda>_. flushOut))))))))) t)"

definition SetPrompt :: "bytes \<Rightarrow> Terminal \<Rightarrow> Terminal" where
  "SetPrompt prompt t = t\<lparr>tm_prompt := decodeRunes prompt\<rparr>"

fun clearDown :: "nat \<Rightarrow> (Terminal, unit) goStep" where
  "clearDown 0 = sdone"
| "clearDown (Suc n) = sbind (move 0 1 0 0) (\<lambda>_. sbind (supd (\<lambda>t. t\<lparr>tm_cursorY := tm_cursorY t + 1\<rparr>)) (\<lambda>_. sbind clearLineToRight (\<lambda>_. clearDown n)))"

definition clearAndRepaintLinePlusNPrevious :: "nat \<Rightarrow> (Terminal, unit) goStep" where
  "clearAndRepaintLinePlusNPrevious numPrevLines t =
     sbind (move (tm_cursorY t) 0 (tm_cursorX t) 0) (\<lambda>_. sbind (supd (\<lambda>t. t\<lparr>tm_cursorX := 0, tm_cursorY := 0\<rparr>)) (\<lambda>_. sbind clearLineToRight (\<lambda>_.
     sbind (clearDown numPrevLines) (\<lambda>_. sbind (\<lambda>t. move (tm_cursorY t) 0 0 0 t) (\<lambda>_. sbind (supd (\<lambda>t. t\<lparr>tm_cursorX := 0, tm_cursorY := 0\<rparr>)) (\<lambda>_.
     sbind (queue (tm_prompt t)) (\<lambda>_. sbind (advanceCursor (visualLength (tm_prompt t))) (\<lambda>_. sbind (writeLine (tm_line t)) (\<lambda>_.
     moveCursorToPos (tm_pos t)))))))))) t"

definition SetSize :: "nat \<Rightarrow> nat \<Rightarrow> (Terminal, unit) goStep" where
  "SetSize width height t =
     (let width = (if width = 0 then 1 else width); oldWidth = tm_termWidth t; t = t\<lparr>tm_termWidth := width, tm_termHeight := height\<rparr>;
        finish = (\<lambda>_. \<lambda>t. case rawWrite (tm_outBuf t) t of (t, r) \<Rightarrow> (t\<lparr>tm_outBuf := []\<rparr>, r))
      in if width = oldWidth then (t, Ok ())
         else if tm_line t = [] \<and> tm_cursorX t = 0 \<and> tm_cursorY t = 0 then (t, Ok ())
         else if width < oldWidth
         then sbind (supd (\<lambda>t. t\<lparr>tm_cursorX := (if tm_cursorX t \<ge> tm_termWidth t then tm_termWidth t - 1 else tm_cursorX t), tm_cursorY := tm_cursorY t * 2\<rparr>)) (\<lambda>_.
              sbind (\<lambda>t. clearAndRepaintLinePlusNPrevious (tm_maxLine t * 2) t) finish) t
         else sbind (clearAndRepaintLinePlusNPrevious (tm_maxLine t)) finish t)"

definition SetBracketedPasteMode :: "bool \<Rightarrow> Terminal \<Rightarrow> Terminal" where
  "SetBracketedPasteMode on t = fst (rawWrite (27 # bytes_of (if on then ''[?2004h'' else ''[?2004l'')) t)"

section \<open>Reading a line\<close>

text \<open>A read into a buffer with so much room; the lock is free while it waits.\<close>

fun awaitEvents :: "termEvent list \<Rightarrow> nat \<Rightarrow> (Terminal, bytes) goProc" where
  "awaitEvents [] room t = None"
| "awaitEvents (Arrives b # es) room t = Some (t\<lparr>tm_in := (if length b \<le> room then es else Arrives (drop room b) # es)\<rparr>, Ok (take room b))"
| "awaitEvents (Fails b e # es) room t = Some (t\<lparr>tm_in := es\<rparr>, Err e)"
| "awaitEvents (OtherWrite buf # es) room t = (case Terminal_Write buf t of (t, Panic p) \<Rightarrow> Some (t, Panic p) | (t, _) \<Rightarrow> awaitEvents es room t)"
| "awaitEvents (OtherSize w h # es) room t = (case SetSize w h t of (t, Panic p) \<Rightarrow> Some (t, Panic p) | (t, _) \<Rightarrow> awaitEvents es room t)"
| "awaitEvents (OtherPrompt prompt # es) room t = awaitEvents es room (SetPrompt prompt t)"

text \<open>How the inner loop ends: at the end of the keys, with a line, or at the end of the input.\<close>

datatype keysEnd = NeedMore | GotLine bytes | AtEOF

lemma unknownKey_less: "unknownKey b = (key, rest) \<Longrightarrow> key \<noteq> RuneError \<Longrightarrow> length rest < length b"
proof (cases "dropWhile (\<lambda>c. \<not> endsSequence c) b")
  case (Cons c cs)
  moreover have "length (dropWhile (\<lambda>c. \<not> endsSequence c) b) \<le> length b" by (rule length_dropWhile_le)
  moreover assume "unknownKey b = (key, rest)"
  ultimately show ?thesis by (simp add: unknownKey_def)
qed (simp add: unknownKey_def)

lemma escapeKey_less: "escapeKey b paste = (key, rest) \<Longrightarrow> key \<noteq> RuneError \<Longrightarrow> length rest < length b"
  by (auto simp: escapeKey_def intro: unknownKey_less split: if_splits)

lemma bytesToKey_less:
  assumes "bytesToKey b paste = (key, rest)" "key \<noteq> RuneError"
  shows "length rest < length b"
proof (cases b)
  case (Cons b0 b')
  with assms DecodeRune_width [of b] show ?thesis
    by (auto simp: bytesToKey_def dest: escapeKey_less split: if_splits prod.splits)
qed (use assms in \<open>simp add: bytesToKey_def\<close>)

function keyLoop :: "bytes \<Rightarrow> bool \<Rightarrow> (Terminal, bytes \<times> bool \<times> keysEnd) goStep" where
  "keyLoop rest lineIsPasted t = (case bytesToKey rest (tm_pasteActive t) of (key, rest) \<Rightarrow>
     if key = RuneError then (t, Ok (rest, lineIsPasted, NeedMore))
     else if \<not> tm_pasteActive t \<and> key = keyCtrlD \<and> tm_line t = [] then (t, Ok (rest, lineIsPasted, AtEOF))
     else if \<not> tm_pasteActive t \<and> key = keyPasteStart then keyLoop rest (tm_line t = [] \<or> lineIsPasted) (t\<lparr>tm_pasteActive := True\<rparr>)
     else if tm_pasteActive t \<and> key = keyPasteEnd then keyLoop rest lineIsPasted (t\<lparr>tm_pasteActive := False\<rparr>)
     else let lineIsPasted = (tm_pasteActive t \<and> lineIsPasted) in
       case handleKey key t of
         (t, Ok None) \<Rightarrow> keyLoop rest lineIsPasted t
       | (t, Ok (Some line)) \<Rightarrow> (t, Ok (rest, lineIsPasted, GotLine line))
       | (t, Err e) \<Rightarrow> (t, Err e)
       | (t, Panic p) \<Rightarrow> (t, Panic p))"
  by pat_completeness auto
termination
  by (relation "measure (\<lambda>(rest, _, _). length rest)") (auto dest: bytesToKey_less [OF sym])

declare keyLoop.simps [simp del]

text \<open>What follows the inner loop: the rest of the input is kept, and the output is sent whether or not this succeeds.\<close>

definition inBufSize :: nat where
  "inBufSize = 256"

definition keepRest :: "bytes \<Rightarrow> Terminal \<Rightarrow> Terminal" where
  "keepRest rest t = t\<lparr>tm_remainder := take inBufSize rest, tm_out := fst (writeBytes (tm_out t) (tm_outBuf t)), tm_outBuf := []\<rparr>"

definition finishLine :: "bytes \<Rightarrow> bool \<Rightarrow> (Terminal, bytes \<times> bool) goStep" where
  "finishLine line lineIsPasted t =
     (if tm_echo t
      then case ring_Add line (tm_history t) of (h, r) \<Rightarrow>
        (t\<lparr>tm_historyIndex := -1, tm_history := h\<rparr>, rbind r (\<lambda>_. Ok (line, lineIsPasted)))
      else (t, Ok (line, lineIsPasted)))"

text \<open>The flag in the result says that the error \<^verbatim>\<open>ErrPasteIndicator\<close> is returned with the line.\<close>

partial_function (option) lineLoop :: "bool \<Rightarrow> Terminal \<Rightarrow> (Terminal \<times> (bytes \<times> bool) res) option" where
  "lineLoop lineIsPasted t = (case keyLoop (tm_remainder t) lineIsPasted t of
       (t, Err e) \<Rightarrow> Some (t, Err e)
     | (t, Panic p) \<Rightarrow> Some (t, Panic p)
     | (t, Ok (rest, lineIsPasted, ending)) \<Rightarrow> (case ending of
           AtEOF \<Rightarrow> Some (t, Err EOF)
         | GotLine line \<Rightarrow> Some (finishLine line lineIsPasted (keepRest rest t))
         | NeedMore \<Rightarrow> (case awaitEvents (tm_in t) (inBufSize - length (tm_remainder (keepRest rest t))) (keepRest rest t) of
               None \<Rightarrow> None
             | Some (t, r) \<Rightarrow> (case r of
                 Err e \<Rightarrow> Some (t, Err e)
               | Panic p \<Rightarrow> Some (t, Panic p)
               | Ok b \<Rightarrow> lineLoop lineIsPasted (t\<lparr>tm_remainder := tm_remainder t @ b\<rparr>)))))"

declare lineLoop.simps [code]

definition drawPrompt :: "(Terminal, unit) goStep" where
  "drawPrompt t =
     (if tm_cursorX t = 0 \<and> tm_cursorY t = 0
      then sbind (writeLine (tm_prompt t)) (\<lambda>_. supd (\<lambda>t. t\<lparr>tm_out := fst (writeBytes (tm_out t) (tm_outBuf t)), tm_outBuf := []\<rparr>)) t
      else (t, Ok ()))"

definition readLine :: "(Terminal, bytes \<times> bool) goProc" where
  "readLine t = (case drawPrompt t of
       (t, Ok _) \<Rightarrow> lineLoop (tm_pasteActive t) t
     | (t, Err e) \<Rightarrow> Some (t, Err e)
     | (t, Panic p) \<Rightarrow> Some (t, Panic p))"

definition ReadLine :: "(Terminal, bytes \<times> bool) goProc" where
  "ReadLine = readLine"

text \<open>A panic leaves the prompt and the echo as they were set for the password.\<close>

definition ReadPassword :: "bytes \<Rightarrow> (Terminal, bytes \<times> bool) goProc" where
  "ReadPassword prompt t = Option.bind (readLine (t\<lparr>tm_prompt := decodeRunes prompt, tm_echo := False\<rparr>)) (\<lambda>(t', r).
     Some (if panics r then t' else t'\<lparr>tm_prompt := tm_prompt t, tm_echo := True\<rparr>, r))"

end
