(* ===== verification/Terminal_Edit.thy ===== *)
theory Terminal_Edit
  imports Terminal
begin

text \<open>
  What the keys do to the line. The history is a contract on recent entries, which the ring buffer satisfies; drawing on
  the screen leaves the line alone; every key then has its effect on an abstract editor, text before and after a cursor.
  No operation of a well-formed terminal panics, and it stays well-formed.
\<close>

section \<open>Recent entries\<close>

locale recent_entries =
  fixes add :: "'a \<Rightarrow> 's \<Rightarrow> 's \<times> unit res" and nth_previous :: "int \<Rightarrow> 's \<Rightarrow> 'a option res"
    and inv :: "'s \<Rightarrow> bool" and items :: "'s \<Rightarrow> 'a list" and bound :: nat
  assumes add: "inv s \<Longrightarrow> inv (fst (add a s)) \<and> snd (add a s) = Ok () \<and> items (fst (add a s)) = take bound (a # items s)"
    and nth_previous: "inv s \<Longrightarrow> 0 \<le> n \<Longrightarrow> nth_previous n s = Ok (if nat n < length (items s) then Some (items s ! nat n) else None)"
begin

definition add_all :: "'a list \<Rightarrow> 's \<Rightarrow> 's" where
  "add_all as s = fold (\<lambda>a s. fst (add a s)) as s"

lemma items_add_all: "inv s \<Longrightarrow> length (items s) \<le> bound \<Longrightarrow> inv (add_all as s) \<and> items (add_all as s) = take bound (rev as @ items s)"
proof (induction as arbitrary: s)
  case (Cons a as)
  from add [OF Cons.prems(1), of a] have "inv (fst (add a s))" "items (fst (add a s)) = take bound (a # items s)" by simp_all
  with Cons.IH [of "fst (add a s)"] show ?case by (cases bound) (auto simp: add_all_def take_Cons' min_def)
qed (simp add: add_all_def)

end

definition ring_ok :: "stRingBuffer \<Rightarrow> bool" where
  "ring_ok s \<longleftrightarrow> rb_entries s = [] \<and> rb_size s = 0
     \<or> rb_max s = 100 \<and> length (rb_entries s) = 100 \<and> rb_head s < 100 \<and> rb_size s \<le> 100"

definition ringPos :: "stRingBuffer \<Rightarrow> nat \<Rightarrow> nat" where
  "ringPos s n = (if n \<le> rb_head s then rb_head s - n else rb_head s + 100 - n)"

text \<open>The entries, the newest first.\<close>

definition recent :: "stRingBuffer \<Rightarrow> bytes list" where
  "recent s = map (\<lambda>n. rb_entries s ! ringPos s n) [0..<rb_size s]"

lemma length_recent [simp]: "length (recent s) = rb_size s"
  by (simp add: recent_def)

lemma ring_Add_recent:
  assumes "ring_ok s"
  shows "ring_ok (fst (ring_Add a s)) \<and> snd (ring_Add a s) = Ok () \<and> recent (fst (ring_Add a s)) = take 100 (a # recent s)"
proof -
  define s1 where "s1 = (if rb_entries s = [] then s\<lparr>rb_entries := replicate 100 [], rb_max := 100\<rparr> else s)"
  define h where "h = (rb_head s1 + 1) mod 100"
  have s1: "rb_max s1 = 100" "length (rb_entries s1) = 100" "rb_size s1 = rb_size s" "rb_size s \<le> 100" "rb_entries s \<noteq> [] \<Longrightarrow> rb_head s1 < 100"
    using assms by (auto simp: s1_def ring_ok_def)
  have h: "h < 100" by (simp add: h_def)
  let ?s' = "s1\<lparr>rb_head := h, rb_entries := (rb_entries s1)[h := a], rb_size := (if rb_size s < 100 then rb_size s + 1 else rb_size s)\<rparr>"
  have e: "ring_Add a s = (?s', Ok ())"
    using s1 h by (auto simp: ring_Add_def Let_def s1_def [symmetric] h_def)
  have "recent ?s' = take 100 (a # recent s)"
  proof (rule nth_equalityI)
    show l: "length (recent ?s') = length (take 100 (a # recent s))" using s1(4) by (simp add: min_def)
    fix n assume "n < length (recent ?s')"
    then have n: "n < rb_size ?s'" by simp
    show "recent ?s' ! n = take 100 (a # recent s) ! n"
    proof (cases n)
      case 0
      with n s1 h show ?thesis by (auto simp: recent_def ringPos_def nth_append)
    next
      case (Suc k)
      from n Suc s1(4) have k: "k < rb_size s" "k < 99" by (auto split: if_splits)
      with assms have ne: "rb_entries s \<noteq> []" by (auto simp: ring_ok_def)
      then have s: "s1 = s" "rb_head s < 100" using s1 by (auto simp: s1_def)
      have p: "ringPos ?s' n = ringPos s k" "ringPos s k \<noteq> h" "ringPos s k < 100"
        using s(2) k Suc by (auto simp: ringPos_def h_def s(1) mod_Suc)
      from n k p s(1) Suc s1 show ?thesis by (simp add: recent_def)
    qed
  qed
  with e s1 h show ?thesis by (simp add: ring_ok_def)
qed

lemma NthPreviousEntry_recent:
  assumes "ring_ok s" "0 \<le> n"
  shows "NthPreviousEntry n s = Ok (if nat n < length (recent s) then Some (recent s ! nat n) else None)"
proof (cases "nat n < rb_size s")
  case True
  with assms have r: "rb_max s = 100" "length (rb_entries s) = 100" "rb_head s < 100" "rb_size s \<le> 100" by (auto simp: ring_ok_def)
  with True assms(2) show ?thesis by (auto simp: NthPreviousEntry_def recent_def ringPos_def Let_def nat_diff_distrib' nat_add_distrib not_le
        intro!: arg_cong [of _ _ "(!) (rb_entries s)"])
next
  case False
  with assms(2) have "int (rb_size s) \<le> n" by linarith
  with False show ?thesis by (simp add: NthPreviousEntry_def)
qed

interpretation ring: recent_entries ring_Add NthPreviousEntry ring_ok recent 100
  by unfold_locales (rule ring_Add_recent, assumption, rule NthPreviousEntry_recent, assumption+)

section \<open>Drawing leaves the line alone\<close>

text \<open>
  The state after drawing: the cursor is at the cell \<open>p\<close>, counted from the first cell of the prompt over rows of the width of
  the terminal, and \<open>rs\<close> was sent.
\<close>

definition screenAt :: "Terminal \<Rightarrow> nat \<Rightarrow> nat \<Rightarrow> rune list \<Rightarrow> Terminal" where
  "screenAt t p m rs = t\<lparr>tm_cursorX := p mod tm_termWidth t, tm_cursorY := p div tm_termWidth t, tm_maxLine := m,
     tm_outBuf := tm_outBuf t @ encodeRunes rs\<rparr>"

definition cursor_ok :: "Terminal \<Rightarrow> bool" where
  "cursor_ok t \<longleftrightarrow> tm_cursorX t < tm_termWidth t"

definition cell :: "Terminal \<Rightarrow> nat" where
  "cell t = tm_cursorY t * tm_termWidth t + tm_cursorX t"

lemma screenAt_fields [simp]:
  "tm_line (screenAt t p m rs) = tm_line t" "tm_pos (screenAt t p m rs) = tm_pos t" "tm_prompt (screenAt t p m rs) = tm_prompt t"
  "tm_echo (screenAt t p m rs) = tm_echo t" "tm_termWidth (screenAt t p m rs) = tm_termWidth t" "tm_history (screenAt t p m rs) = tm_history t"
  "tm_historyIndex (screenAt t p m rs) = tm_historyIndex t" "tm_historyPending (screenAt t p m rs) = tm_historyPending t"
  "tm_pasteActive (screenAt t p m rs) = tm_pasteActive t" "tm_remainder (screenAt t p m rs) = tm_remainder t" "tm_in (screenAt t p m rs) = tm_in t"
  "tm_out (screenAt t p m rs) = tm_out t" "tm_AutoCompleteCallback (screenAt t p m rs) = tm_AutoCompleteCallback t"
  "tm_outBuf (screenAt t p m rs) = tm_outBuf t @ encodeRunes rs" "tm_cursorX (screenAt t p m rs) = p mod tm_termWidth t"
  "tm_cursorY (screenAt t p m rs) = p div tm_termWidth t" "tm_maxLine (screenAt t p m rs) = m"
  by (simp_all add: screenAt_def)

lemma screenAt_screenAt [simp]: "screenAt (screenAt t p m rs) p' m' rs' = screenAt t p' m' (rs @ rs')"
  by (simp add: screenAt_def)

lemma cursor_ok_screenAt [simp]: "cursor_ok t \<Longrightarrow> cursor_ok (screenAt t p m rs)"
  by (auto simp: cursor_ok_def)

lemma cell_screenAt [simp]: "cell (screenAt t p m rs) = p"
  by (simp add: cell_def)

lemma screenAt_same: "cursor_ok t \<Longrightarrow> t\<lparr>tm_outBuf := tm_outBuf t @ encodeRunes rs\<rparr> = screenAt t (cell t) (tm_maxLine t) rs"
  by (simp add: screenAt_def cursor_ok_def cell_def)

lemma queue_at: "cursor_ok t \<Longrightarrow> queue rs t = (screenAt t (cell t) (tm_maxLine t) rs, Ok ())"
  by (simp add: queue_def supd_def screenAt_same)

lemma advanceCursor_at:
  assumes "cursor_ok t"
  shows "\<exists>m. advanceCursor n t = (screenAt t (cell t + n) m (if 0 < n \<and> (cell t + n) mod tm_termWidth t = 0 then [10] else []), Ok ())"
proof -
  let ?w = "tm_termWidth t"
  have w: "0 < ?w" using assms by (auto simp: cursor_ok_def)
  have "cell t + n = (tm_cursorX t + n) + tm_cursorY t * ?w" by (simp add: cell_def)
  then have c: "(cell t + n) mod ?w = (tm_cursorX t + n) mod ?w" "(cell t + n) div ?w = tm_cursorY t + (tm_cursorX t + n) div ?w"
    using w by (simp_all only: mod_mult_self1 div_mult_self1)
  have lf: "encodeRune 10 = [10]" by (simp add: encodeRune_ascii)
  let ?y = "tm_cursorY t + (tm_cursorX t + n) div ?w"
  show ?thesis using w
    by (intro exI [of _ "if ?y > tm_maxLine t then ?y else tm_maxLine t"]) (simp add: advanceCursor_def Let_def screenAt_def c lf)
qed

lemma moveCursorToPos_at:
  assumes "cursor_ok t"
  shows "moveCursorToPos pos t =
    (if tm_echo t then (let p = visualLength (tm_prompt t) + pos; y = p div tm_termWidth t; x = p mod tm_termWidth t in
         (screenAt t p (tm_maxLine t) (movement (tm_cursorY t - y) (y - tm_cursorY t) (tm_cursorX t - x) (x - tm_cursorX t)), Ok ()))
     else (screenAt t (cell t) (tm_maxLine t) [], Ok ()))"
proof (cases "tm_echo t")
  case False
  then show ?thesis using screenAt_same [OF assms, of "[]"] by (simp add: moveCursorToPos_def)
next
  case True
  with assms show ?thesis by (simp add: moveCursorToPos_def Let_def move_def queue_def supd_def screenAt_def cursor_ok_def)
qed

text \<open>A statement that only draws.\<close>

definition draws :: "(Terminal, unit) goStep \<Rightarrow> bool" where
  "draws f \<longleftrightarrow> (\<forall>t. cursor_ok t \<longrightarrow> (\<exists>p m rs. f t = (screenAt t p m rs, Ok ())))"

named_theorems drawing "statements that only draw"

lemma drawsD: "draws f \<Longrightarrow> cursor_ok t \<Longrightarrow> \<exists>p m rs. f t = (screenAt t p m rs, Ok ())"
  by (simp add: draws_def)

lemma sbind_assoc: "sbind (sbind f g) h = sbind f (\<lambda>x. sbind (g x) h)"
  by (rule ext) (simp add: sbind_def split: prod.splits res.splits)

lemma draws_sbind [drawing]: "draws f \<Longrightarrow> draws g \<Longrightarrow> draws (sbind f (\<lambda>_. g))"
  unfolding draws_def sbind_def
proof (intro allI impI)
  fix t assume f: "\<forall>t. cursor_ok t \<longrightarrow> (\<exists>p m rs. f t = (screenAt t p m rs, Ok ()))" and g: "\<forall>t. cursor_ok t \<longrightarrow> (\<exists>p m rs. g t = (screenAt t p m rs, Ok ()))" and t: "cursor_ok t"
  from f t obtain p m rs where 1: "f t = (screenAt t p m rs, Ok ())" by blast
  from g t obtain p' m' rs' where "g (screenAt t p m rs) = (screenAt (screenAt t p m rs) p' m' rs', Ok ())" by (meson cursor_ok_screenAt)
  with 1 show "\<exists>p m rs. (case f t of (s, Ok x) \<Rightarrow> g s | (s, Err e) \<Rightarrow> (s, Err e) | (s, Panic p) \<Rightarrow> (s, Panic p)) = (screenAt t p m rs, Ok ())" by auto
qed

lemma draws_dep: "(\<And>t. f t = g t t) \<Longrightarrow> (\<And>t. draws (g t)) \<Longrightarrow> draws f"
  by (simp add: draws_def)

lemma draws_if [drawing]: "draws f \<Longrightarrow> draws g \<Longrightarrow> draws (if b then f else g)"
  by simp

lemma draws_done [drawing]: "draws sdone"
  using screenAt_same [of _ "[]"] by (auto simp: draws_def sdone_def)

lemma draws_queue [drawing]: "draws (queue rs)"
  by (auto simp: draws_def queue_at)

lemma draws_move [drawing]: "draws (move up down left right)"
  unfolding move_def by (rule draws_queue)

lemma draws_clearLine [drawing]: "draws clearLineToRight"
  unfolding clearLineToRight_def by (rule draws_queue)

lemma draws_advance [drawing]: "draws (advanceCursor n)"
  using advanceCursor_at by (fastforce simp: draws_def)

lemma draws_moveCursorToPos [drawing]: "draws (moveCursorToPos pos)"
  unfolding draws_def by (auto simp: moveCursorToPos_at Let_def)

text \<open>One round of \<open>writeLine\<close> on a cursor inside the row.\<close>

lemma writeLine_round:
  assumes "cursor_ok t" "line \<noteq> []"
  shows "writeLine line t = (let todo = min (length line) (tm_termWidth t - tm_cursorX t) in
    sbind (sbind (queue (take todo line)) (\<lambda>_. advanceCursor (visualLength (take todo line)))) (\<lambda>_. writeLine (drop todo line)) t)"
  using assms by (subst writeLine.simps) (auto simp: cursor_ok_def Let_def sbind_def split: res.splits prod.splits)

lemma draws_writeLine [drawing]: "draws (writeLine line)"
proof (induction "length line" arbitrary: line rule: less_induct)
  case less
  show ?case
  proof (cases "line = []")
    case True
    then have "writeLine line = sdone" by (auto simp: writeLine.simps sdone_def)
    then show ?thesis by (simp add: draws_done)
  next
    case False
    show ?thesis
      unfolding draws_def
    proof (intro allI impI)
      fix t assume t: "cursor_ok t"
      let ?todo = "min (length line) (tm_termWidth t - tm_cursorX t)"
      have "draws (writeLine (drop ?todo line))" using False t by (intro less) (auto simp: cursor_ok_def)
      then have "draws (sbind (sbind (queue (take ?todo line)) (\<lambda>_. advanceCursor (visualLength (take ?todo line)))) (\<lambda>_. writeLine (drop ?todo line)))"
        by (intro drawing)
      from drawsD [OF this t] show "\<exists>p m rs. writeLine line t = (screenAt t p m rs, Ok ())"
        unfolding writeLine_round [OF t False] Let_def .
    qed
  qed
qed

lemma draws_writeSpaces [drawing]: "draws (writeSpaces n)"
  by (induction n) (simp only: writeSpaces.simps, intro drawing, assumption?)+

lemma draws_queueSpaces [drawing]: "draws (queueSpaces n)"
  unfolding queueSpaces_def by (rule draws_queue)

lemma draws_blankOut [drawing]: "draws (blankOut n)"
  by (induction n) (simp only: blankOut.simps, intro drawing, assumption?)+

text \<open>A change of the cursor also counts as drawing.\<close>

lemma draws_cursor [drawing]:
  "draws (supd (\<lambda>t. t\<lparr>tm_cursorX := 0\<rparr>))" "draws (supd (\<lambda>t. t\<lparr>tm_cursorY := y\<rparr>))" "draws (supd (\<lambda>t. t\<lparr>tm_cursorX := 0, tm_cursorY := y\<rparr>))"
  "draws (supd (\<lambda>t. t\<lparr>tm_cursorY := tm_cursorY t + 1\<rparr>))"
proof -
  have s: "\<exists>p m rs. t\<lparr>tm_cursorX := x, tm_cursorY := y\<rparr> = screenAt t p m rs" if "x < tm_termWidth t" for t x y
    using that by (intro exI [of _ "y * tm_termWidth t + x"] exI [of _ "tm_maxLine t"] exI [of _ "[]"]) (simp add: screenAt_def)
  have z: "\<exists>p m rs. t\<lparr>tm_cursorX := 0\<rparr> = screenAt t p m rs" "\<exists>p m rs. t\<lparr>tm_cursorY := y\<rparr> = screenAt t p m rs" if "cursor_ok t" for t y
    using s [of 0 t "tm_cursorY t"] s [of "tm_cursorX t" t y] that by (simp_all add: cursor_ok_def)
  show "draws (supd (\<lambda>t. t\<lparr>tm_cursorX := 0\<rparr>))" "draws (supd (\<lambda>t. t\<lparr>tm_cursorY := y\<rparr>))" "draws (supd (\<lambda>t. t\<lparr>tm_cursorX := 0, tm_cursorY := y\<rparr>))"
    "draws (supd (\<lambda>t. t\<lparr>tm_cursorY := tm_cursorY t + 1\<rparr>))"
    using s z by (auto simp: draws_def supd_def cursor_ok_def)
qed

lemma draws_clearUp [drawing]: "draws (clearUp n)"
  by (induction n) (simp only: clearUp.simps, intro drawing, assumption?)+

lemma draws_clearDown [drawing]: "draws (clearDown n)"
  by (induction n) (simp only: clearDown.simps, intro drawing, assumption?)+

lemma draws_move_dep [drawing]: "draws (\<lambda>t. move (tm_cursorY t) 0 0 0 t)"
  by (rule draws_dep [OF refl]) (rule draws_move)

lemma draws_repaint [drawing]: "draws (clearAndRepaintLinePlusNPrevious n)"
  by (rule draws_dep [OF clearAndRepaintLinePlusNPrevious_def]) (intro drawing)

section \<open>Editing the line\<close>

text \<open>A statement that leaves the terminal as \<open>t'\<close>, but for what it drew.\<close>

definition lands :: "(Terminal, unit) goStep \<Rightarrow> Terminal \<Rightarrow> Terminal \<Rightarrow> bool" where
  "lands f t t' \<longleftrightarrow> (\<exists>p m rs. f t = (screenAt t' p m rs, Ok ()))"

text \<open>A change of the state that has nothing to do with the screen.\<close>

definition editing :: "(Terminal \<Rightarrow> Terminal) \<Rightarrow> bool" where
  "editing u \<longleftrightarrow> (\<forall>t p m rs. u (screenAt t p m rs) = screenAt (u t) p m rs) \<and> (\<forall>t. cursor_ok t \<longrightarrow> cursor_ok (u t))"

lemma editing_updates [simp]:
  "editing (\<lambda>t. t\<lparr>tm_pos := pos\<rparr>)" "editing (\<lambda>t. t\<lparr>tm_line := line\<rparr>)" "editing (\<lambda>t. t\<lparr>tm_line := line, tm_pos := pos\<rparr>)"
  "editing (\<lambda>t. t\<lparr>tm_historyIndex := i\<rparr>)" "editing (\<lambda>t. t\<lparr>tm_historyPending := b\<rparr>)" "editing (\<lambda>t. t\<lparr>tm_pos := Suc (tm_pos t)\<rparr>)"
  "editing (\<lambda>t. t\<lparr>tm_line := take (tm_pos t) (tm_line t)\<rparr>)" "editing (\<lambda>t. t\<lparr>tm_line := take pos (tm_line t) @ drop n (tm_line t)\<rparr>)"
  "editing (\<lambda>t. t\<lparr>tm_line := take (tm_pos t) (tm_line t) @ key # drop (tm_pos t) (tm_line t)\<rparr>)"
  "editing (\<lambda>t. t\<lparr>tm_historyIndex := tm_historyIndex t - 1\<rparr>)" "editing (\<lambda>t. t\<lparr>tm_historyIndex := tm_historyIndex t + 1\<rparr>)"
  "editing (\<lambda>t. if tm_historyIndex t = -1 then t\<lparr>tm_historyPending := encodeRunes (tm_line t)\<rparr> else t)"
  by (simp_all add: editing_def screenAt_def cursor_ok_def)

lemma lands_draws: "draws f \<Longrightarrow> cursor_ok t \<Longrightarrow> lands f t t"
  by (simp add: lands_def draws_def)

lemma lands_supd: "editing u \<Longrightarrow> cursor_ok t \<Longrightarrow> lands (supd u) t (u t)"
  using screenAt_same [of "u t" "[]"] by (auto simp: lands_def supd_def editing_def intro!: exI [of _ "[]"])

lemma lands_screenAt: "lands f (screenAt t p m rs) (screenAt t' p' m' rs') \<Longrightarrow> lands f (screenAt t p m rs) t'"
  by (auto simp: lands_def)

lemma lands_sbind:
  assumes "lands f t t1" "\<And>p m rs. lands (g ()) (screenAt t1 p m rs) t2"
  shows "lands (sbind f g) t t2"
proof -
  from assms(1) obtain p m rs where f: "f t = (screenAt t1 p m rs, Ok ())" by (auto simp: lands_def)
  with assms(2) [of p m rs] show ?thesis by (simp add: lands_def sbind_def)
qed

lemma lands_draw_first: "draws f \<Longrightarrow> cursor_ok t \<Longrightarrow> (\<And>p m rs. lands (g ()) (screenAt t p m rs) t2) \<Longrightarrow> lands (sbind f g) t t2"
  by (rule lands_sbind [OF lands_draws])

lemma lands_edit_first:
  assumes "editing u" "cursor_ok t" "\<And>p m rs. lands (g ()) (screenAt (u t) p m rs) t2"
  shows "lands (sbind (supd u) g) t t2"
  using assms by (intro lands_sbind [where f = "supd u" and ?t1.0 = "u t"] lands_supd)

lemma lands_draw_last: "draws f \<Longrightarrow> cursor_ok t \<Longrightarrow> lands f (screenAt t p m rs) t"
  using drawsD [of f "screenAt t p m rs"] by (auto simp: lands_def)

lemma lands_edit_last: "editing u \<Longrightarrow> cursor_ok t \<Longrightarrow> lands (supd u) (screenAt t p m rs) (u t)"
  using lands_supd [of u "screenAt t p m rs"] by (auto simp: editing_def lands_def)

lemma cursor_ok_edit: "editing u \<Longrightarrow> cursor_ok t \<Longrightarrow> cursor_ok (u t)"
  by (simp add: editing_def)

definition withLine :: "rune list \<Rightarrow> nat \<Rightarrow> Terminal \<Rightarrow> Terminal" where
  "withLine line pos t = t\<lparr>tm_line := line, tm_pos := pos\<rparr>"

lemma withLine_fields [simp]: "tm_line (withLine l p t) = l" "tm_pos (withLine l p t) = p" "cursor_ok (withLine l p t) = cursor_ok t"
  "tm_historyIndex (withLine l p t) = tm_historyIndex t" "tm_historyPending (withLine l p t) = tm_historyPending t" "tm_history (withLine l p t) = tm_history t"
  "tm_pasteActive (withLine l p t) = tm_pasteActive t" "tm_remainder (withLine l p t) = tm_remainder t" "tm_echo (withLine l p t) = tm_echo t"
  "tm_AutoCompleteCallback (withLine l p t) = tm_AutoCompleteCallback t" "tm_termWidth (withLine l p t) = tm_termWidth t"
  "tm_prompt (withLine l p t) = tm_prompt t" "tm_outBuf (withLine l p t) = tm_outBuf t" "cell (withLine l p t) = cell t" "tm_in (withLine l p t) = tm_in t"
  "tm_out (withLine l p t) = tm_out t"
  by (simp_all add: withLine_def cursor_ok_def cell_def)

lemma screenAt_withLine: "screenAt (withLine l p t) q m rs = withLine l p (screenAt t q m rs)"
  by (simp add: withLine_def screenAt_def)

lemma withLine_same: "withLine (tm_line t) (tm_pos t) t = t"
  by (simp add: withLine_def)

lemma cursor_ok_updates [simp]: "cursor_ok (t\<lparr>tm_pos := pos\<rparr>) = cursor_ok t" "cursor_ok (t\<lparr>tm_line := line\<rparr>) = cursor_ok t"
  "cursor_ok (t\<lparr>tm_historyIndex := i\<rparr>) = cursor_ok t" "cursor_ok (t\<lparr>tm_historyPending := b\<rparr>) = cursor_ok t"
  by (simp_all add: cursor_ok_def)

lemma moveTo_lands: "cursor_ok t \<Longrightarrow> lands (moveTo q) t (withLine (tm_line t) q t)"
  unfolding moveTo_def
  by (rule lands_edit_first; simp add: withLine_def) (rule lands_draw_last; simp add: drawing)

lemma setLine_lands:
  assumes "cursor_ok t"
  shows "lands (setLine line q) t (withLine line q t)"
proof -
  let ?draw = "if tm_echo t then sbind (moveCursorToPos 0) (\<lambda>_. sbind (writeLine line) (\<lambda>_.
      sbind (writeSpaces (length (tm_line t) - length line)) (\<lambda>_. moveCursorToPos q))) else sdone"
  have "draws ?draw" by (intro drawing)
  then have "lands (sbind ?draw (\<lambda>_. supd (\<lambda>t. t\<lparr>tm_line := line, tm_pos := q\<rparr>))) t (withLine line q t)"
    unfolding withLine_def using assms by (rule lands_draw_first) (rule lands_edit_last; simp add: assms)
  then show ?thesis by (simp add: lands_def setLine_def)
qed

lemma lands_eq: "f t = g t \<Longrightarrow> lands g t t' \<Longrightarrow> lands f t t'"
  by (simp add: lands_def)

lemma lands_check: "lands (g ()) t t' \<Longrightarrow> lands (sbind (sres (Ok ())) g) t t'"
  by (simp add: lands_def sbind_def sres_def)

lemma screenAt_updates: "screenAt (t\<lparr>tm_pos := q\<rparr>) p m rs = (screenAt t p m rs)\<lparr>tm_pos := q\<rparr>"
  "screenAt (t\<lparr>tm_line := l\<rparr>) p m rs = (screenAt t p m rs)\<lparr>tm_line := l\<rparr>"
  by (simp_all add: screenAt_def)

lemma draws_rest [drawing]: "draws (\<lambda>t. writeLine (drop q (tm_line t)) t)" "draws (\<lambda>t. writeLine (drop (tm_pos t) (tm_line t)) t)"
  by (rule draws_dep [OF refl], rule draws_writeLine)+

lemma eraseNPreviousChars_lands:
  assumes "cursor_ok t" "tm_pos t \<le> length (tm_line t)"
  shows "lands (eraseNPreviousChars n) t (withLine (take (tm_pos t - n) (tm_line t) @ drop (tm_pos t) (tm_line t)) (tm_pos t - n) t)"
proof (cases "n = 0")
  case True
  then have "eraseNPreviousChars n t = sdone t" by (simp add: eraseNPreviousChars_def sdone_def)
  with lands_draws [OF draws_done assms(1)] True show ?thesis by (simp add: lands_def withLine_same)
next
  case False
  define k where "k = (if tm_pos t < n then tm_pos t else n)"
  define q where "q = tm_pos t - k"
  have q: "tm_pos t - n = q" "k + q = tm_pos t" by (auto simp: q_def k_def)
  let ?u = "\<lambda>t. t\<lparr>tm_line := take q (tm_line t) @ drop (tm_pos (t\<lparr>tm_pos := k + q\<rparr>)) (tm_line t)\<rparr>"
  let ?draw = "if tm_echo t then sbind (\<lambda>t. writeLine (drop q (tm_line t)) t) (\<lambda>_. sbind (queueSpaces k) (\<lambda>_. sbind (advanceCursor k) (\<lambda>_. moveCursorToPos q))) else sdone"
  have "draws ?draw" by (intro drawing)
  then have last: "lands ?draw (screenAt (t\<lparr>tm_pos := q, tm_line := take q (tm_line t) @ drop (k + q) (tm_line t)\<rparr>) p m rs)
      (t\<lparr>tm_pos := q, tm_line := take q (tm_line t) @ drop (k + q) (tm_line t)\<rparr>)" for p m rs
    by (rule lands_draw_last) (simp add: assms(1) cursor_ok_def [of "_\<lparr>tm_pos := _, tm_line := _\<rparr>"] cursor_ok_def [of t, symmetric])
  have mid: "lands (sbind (supd (\<lambda>t. t\<lparr>tm_line := take q (tm_line t) @ drop (k + q) (tm_line t)\<rparr>)) (\<lambda>_. ?draw)) (screenAt (t\<lparr>tm_pos := q\<rparr>) p m rs)
      (t\<lparr>tm_pos := q, tm_line := take q (tm_line t) @ drop (k + q) (tm_line t)\<rparr>)" for p m rs
    using last by (intro lands_edit_first) (simp_all add: assms(1) screenAt_updates)
  have "lands (sbind (supd (\<lambda>t. t\<lparr>tm_pos := q\<rparr>)) (\<lambda>_. sbind (moveCursorToPos q) (\<lambda>_. sbind (sres (Ok ())) (\<lambda>_.
      sbind (supd (\<lambda>t. t\<lparr>tm_line := take q (tm_line t) @ drop (k + q) (tm_line t)\<rparr>)) (\<lambda>_. ?draw))))) t
      (t\<lparr>tm_pos := q, tm_line := take q (tm_line t) @ drop (k + q) (tm_line t)\<rparr>)"
  proof (rule lands_edit_first, simp_all only: editing_updates assms(1))
    fix p m rs
    show "lands (sbind (moveCursorToPos q) (\<lambda>_. sbind (sres (Ok ())) (\<lambda>_. sbind (supd (\<lambda>t. t\<lparr>tm_line := take q (tm_line t) @ drop (k + q) (tm_line t)\<rparr>)) (\<lambda>_. ?draw))))
      (screenAt (t\<lparr>tm_pos := q\<rparr>) p m rs) (t\<lparr>tm_pos := q, tm_line := take q (tm_line t) @ drop (k + q) (tm_line t)\<rparr>)"
      by (rule lands_draw_first [OF draws_moveCursorToPos]) (simp_all add: assms(1) lands_check mid)
  qed
  then have "lands (eraseNPreviousChars n) t (t\<lparr>tm_pos := q, tm_line := take q (tm_line t) @ drop (k + q) (tm_line t)\<rparr>)"
    by (rule lands_eq [rotated]) (use False assms(2) q in \<open>simp add: eraseNPreviousChars_def Let_def k_def [symmetric] q_def [symmetric]\<close>)
  moreover have "t\<lparr>tm_pos := q, tm_line := take q (tm_line t) @ drop (k + q) (tm_line t)\<rparr> = withLine (take q (tm_line t) @ drop (k + q) (tm_line t)) q t"
    by (simp add: withLine_def)
  ultimately show ?thesis by (simp only: q)
qed

lemma addKeyToLine_lands:
  assumes "cursor_ok t" "tm_pos t \<le> length (tm_line t)"
  shows "lands (addKeyToLine key) t (withLine (take (tm_pos t) (tm_line t) @ key # drop (tm_pos t) (tm_line t)) (tm_pos t + 1) t)"
proof -
  let ?line = "take (tm_pos t) (tm_line t) @ key # drop (tm_pos t) (tm_line t)"
  let ?draw = "if tm_echo t then (\<lambda>t. writeLine (drop (tm_pos t) (tm_line t)) t) else sdone"
  have d: "draws ?draw" by (intro drawing)
  have "lands (sbind (supd (\<lambda>t. t\<lparr>tm_line := take (tm_pos t) (tm_line t) @ key # drop (tm_pos t) (tm_line t)\<rparr>)) (\<lambda>_. sbind ?draw (\<lambda>_.
      sbind (supd (\<lambda>t. t\<lparr>tm_pos := tm_pos t + 1\<rparr>)) (\<lambda>_. moveCursorToPos (tm_pos t + 1))))) t (t\<lparr>tm_line := ?line, tm_pos := tm_pos t + 1\<rparr>)"
  proof (rule lands_edit_first, simp_all only: editing_updates assms(1))
    fix p m rs
    have "lands (sbind (supd (\<lambda>t. t\<lparr>tm_pos := tm_pos t + 1\<rparr>)) (\<lambda>_. moveCursorToPos (tm_pos t + 1))) (screenAt (t\<lparr>tm_line := ?line\<rparr>) p m rs)
      (t\<lparr>tm_line := ?line, tm_pos := tm_pos t + 1\<rparr>)" for p m rs
      using assms(1) lands_draw_last [OF draws_moveCursorToPos, of "t\<lparr>tm_line := ?line, tm_pos := tm_pos t + 1\<rparr>"]
      by (intro lands_edit_first) (simp_all add: screenAt_updates cursor_ok_def)
    then show "lands (sbind ?draw (\<lambda>_. sbind (supd (\<lambda>t. t\<lparr>tm_pos := tm_pos t + 1\<rparr>)) (\<lambda>_. moveCursorToPos (tm_pos t + 1))))
      (screenAt (t\<lparr>tm_line := ?line\<rparr>) p m rs) (t\<lparr>tm_line := ?line, tm_pos := tm_pos t + 1\<rparr>)"
      by (intro lands_draw_first [OF d]) (simp_all add: assms(1))
  qed
  then have "lands (addKeyToLine key) t (t\<lparr>tm_line := ?line, tm_pos := tm_pos t + 1\<rparr>)"
    by (rule lands_eq [rotated]) (use assms(2) in \<open>simp add: addKeyToLine_def\<close>)
  then show ?thesis by (simp add: withLine_def)
qed

lemma draws_lands: "draws f \<Longrightarrow> cursor_ok t \<Longrightarrow> lands f t t"
  by (rule lands_draws)

lemma handleDeleteLine_lands:
  assumes "cursor_ok t" "tm_pos t \<le> length (tm_line t)"
  shows "lands handleDeleteLine t (withLine (take (tm_pos t) (tm_line t)) (tm_pos t) t)"
proof -
  let ?t' = "t\<lparr>tm_line := take (tm_pos t) (tm_line t)\<rparr>"
  have last: "lands (moveCursorToPos (tm_pos t)) (screenAt ?t' p m rs) ?t'" for p m rs
    by (rule lands_draw_last) (simp_all add: drawing assms(1))
  have "lands (sbind (blankOut (length (tm_line t) - tm_pos t)) (\<lambda>_. sbind (sres (Ok ())) (\<lambda>_.
      sbind (supd (\<lambda>t. t\<lparr>tm_line := take (tm_pos t) (tm_line t)\<rparr>)) (\<lambda>_. moveCursorToPos (tm_pos t))))) t ?t'"
    by (rule lands_draw_first [OF draws_blankOut assms(1)], rule lands_check, rule lands_edit_first)
      (use last in \<open>simp_all add: assms(1) screenAt_updates\<close>)
  then have "lands handleDeleteLine t ?t'" by (rule lands_eq [rotated]) (use assms(2) in \<open>simp add: handleDeleteLine_def\<close>)
  then show ?thesis by (simp add: withLine_def)
qed

lemma setLine_lands_last: "cursor_ok t \<Longrightarrow> lands (setLine line q) (screenAt t p m rs) (withLine line q t)"
  using setLine_lands [of "screenAt t p m rs" line q] by (auto simp: lands_def screenAt_withLine [symmetric])

lemma handleClearScreen_lands:
  assumes "cursor_ok t"
  shows "lands handleClearScreen t t"
proof -
  have "lands (sbind (queue clearScreenCodes) (\<lambda>_. sbind (queue (tm_prompt t)) (\<lambda>_. sbind (supd (\<lambda>t. t\<lparr>tm_cursorX := 0, tm_cursorY := 0\<rparr>)) (\<lambda>_.
      sbind (advanceCursor (visualLength (tm_prompt t))) (\<lambda>_. setLine (tm_line t) (tm_pos t)))))) t (withLine (tm_line t) (tm_pos t) t)"
  proof -
    let ?f = "sbind (queue clearScreenCodes) (\<lambda>_. sbind (queue (tm_prompt t)) (\<lambda>_. sbind (supd (\<lambda>t. t\<lparr>tm_cursorX := 0, tm_cursorY := 0\<rparr>)) (\<lambda>_.
      advanceCursor (visualLength (tm_prompt t)))))"
    have "draws ?f" by (intro drawing)
    then have "lands (sbind ?f (\<lambda>_. setLine (tm_line t) (tm_pos t))) t (withLine (tm_line t) (tm_pos t) t)"
      using assms by (rule lands_draw_first) (rule setLine_lands_last [OF assms])
    then show ?thesis by (rule lands_eq [rotated]) (simp add: sbind_def split: res.splits prod.splits)
  qed
  then show ?thesis by (simp add: withLine_same lands_def handleClearScreen_def)
qed

section \<open>The abstract editor\<close>

text \<open>
  The text before and after the cursor, the entry of the history that is shown (0 for the line of the user, then from the
  newest entry on), and the line of the user while an entry is shown.
\<close>

record editor =
  ed_before :: "rune list"
  ed_after :: "rune list"
  ed_index :: nat
  ed_pending :: bytes

definition editorOf :: "Terminal \<Rightarrow> editor" where
  "editorOf t = \<lparr>ed_before = take (tm_pos t) (tm_line t), ed_after = drop (tm_pos t) (tm_line t), ed_index = nat (tm_historyIndex t + 1),
     ed_pending = tm_historyPending t\<rparr>"

definition withEditor :: "editor \<Rightarrow> Terminal \<Rightarrow> Terminal" where
  "withEditor e t = t\<lparr>tm_line := ed_before e @ ed_after e, tm_pos := length (ed_before e), tm_historyIndex := int (ed_index e) - 1,
     tm_historyPending := ed_pending e\<rparr>"

text \<open>
  What is left of the text before the cursor when the word on its left is removed, with the blanks behind it. A single
  blank at the beginning of the line goes too.
\<close>

definition dropBack :: "(rune \<Rightarrow> bool) \<Rightarrow> rune list \<Rightarrow> rune list" where
  "dropBack P xs = rev (dropWhile P (rev xs))"

definition beforeWord :: "rune list \<Rightarrow> rune list" where
  "beforeWord xs = (let k = dropBack (\<lambda>c. c \<noteq> 32) (dropBack (\<lambda>c. c = 32) xs) in if length k = 1 then [] else k)"

text \<open>The word on the right of the cursor with the blanks behind it.\<close>

definition wordLength :: "rune list \<Rightarrow> nat" where
  "wordLength xs = length (takeWhile (\<lambda>c. c \<noteq> 32) xs) + length (takeWhile (\<lambda>c. c = 32) (dropWhile (\<lambda>c. c \<noteq> 32) xs))"

lemma wordLength_le: "wordLength xs \<le> length xs"
proof -
  have "length xs = length (takeWhile (\<lambda>c. c \<noteq> 32) xs) + length (dropWhile (\<lambda>c. c \<noteq> 32) xs)"
    by (metis length_append takeWhile_dropWhile_id)
  with length_takeWhile_le [of "\<lambda>c. c = 32" "dropWhile (\<lambda>c. c \<noteq> 32) xs"] show ?thesis by (simp add: wordLength_def)
qed

definition showEntry :: "bytes \<Rightarrow> editor \<Rightarrow> editor" where
  "showEntry entry e = e\<lparr>ed_before := decodeRunes entry, ed_after := []\<rparr>"

definition typeRune :: "rune \<Rightarrow> editor \<Rightarrow> editor" where
  "typeRune key e = (if isPrintable key \<and> length (ed_before e @ ed_after e) \<noteq> maxLineLength then e\<lparr>ed_before := ed_before e @ [key]\<rparr> else e)"

definition complete :: "completer option \<Rightarrow> rune \<Rightarrow> editor \<Rightarrow> editor" where
  "complete cb key e = (case cb of None \<Rightarrow> typeRune key e
     | Some cb \<Rightarrow> (case cb (encodeRunes (ed_before e @ ed_after e)) (length (encodeRunes (ed_before e))) key of (line, pos, ok) \<Rightarrow>
         if ok then let n = RuneCount (take (nat pos) line) in e\<lparr>ed_before := take n (decodeRunes line), ed_after := drop n (decodeRunes line)\<rparr>
         else typeRune key e))"

definition showOlder :: "bytes list \<Rightarrow> editor \<Rightarrow> editor" where
  "showOlder hist e =
     (if ed_index e < length hist
      then showEntry (hist ! ed_index e)
        (e\<lparr>ed_index := ed_index e + 1, ed_pending := (if ed_index e = 0 then encodeRunes (ed_before e @ ed_after e) else ed_pending e)\<rparr>)
      else e)"

definition showNewer :: "bytes list \<Rightarrow> editor \<Rightarrow> editor" where
  "showNewer hist e =
     (if ed_index e = 0 then e
      else showEntry (if ed_index e = 1 then ed_pending e else hist ! (ed_index e - 2)) (e\<lparr>ed_index := ed_index e - 1\<rparr>))"

definition editKey :: "bool \<Rightarrow> completer option \<Rightarrow> bytes list \<Rightarrow> rune \<Rightarrow> editor \<Rightarrow> editor" where
  "editKey pasting cb hist key e = (let before = ed_before e; after = ed_after e in
     if pasting then e\<lparr>ed_before := before @ [key]\<rparr>
     else if key = keyBackspace then e\<lparr>ed_before := butlast before\<rparr>
     else if key = keyLeft then (if before = [] then e else e\<lparr>ed_before := butlast before, ed_after := last before # after\<rparr>)
     else if key = keyRight then (if after = [] then e else e\<lparr>ed_before := before @ [hd after], ed_after := tl after\<rparr>)
     else if key = keyHome then e\<lparr>ed_before := [], ed_after := before @ after\<rparr>
     else if key = keyEnd then e\<lparr>ed_before := before @ after, ed_after := []\<rparr>
     else if key = keyAltLeft then e\<lparr>ed_before := beforeWord before, ed_after := drop (length (beforeWord before)) before @ after\<rparr>
     else if key = keyAltRight
     then e\<lparr>ed_before := before @ take (wordLength after) after, ed_after := drop (wordLength after) after\<rparr>
     else if key = keyDeleteWord then e\<lparr>ed_before := beforeWord before\<rparr>
     else if key = keyDeleteLine then e\<lparr>ed_after := []\<rparr>
     else if key = keyCtrlD then e\<lparr>ed_after := tl after\<rparr>
     else if key = keyCtrlU then e\<lparr>ed_before := []\<rparr>
     else if key = keyUp then showOlder hist e
     else if key = keyDown then showNewer hist e
     else if key = keyClearScreen then e
     else complete cb key e)"

definition completer_ok :: "completer \<Rightarrow> bool" where
  "completer_ok cb \<longleftrightarrow> (\<forall>line pos key. case cb line pos key of (line', pos', ok) \<Rightarrow>
     ok \<longrightarrow> 0 \<le> pos' \<and> pos' \<le> int (length line') \<and> RuneCount (take (nat pos') line') \<le> length (decodeRunes line'))"

definition terminal_ok :: "Terminal \<Rightarrow> bool" where
  "terminal_ok t \<longleftrightarrow> cursor_ok t \<and> tm_pos t \<le> length (tm_line t) \<and> ring_ok (tm_history t) \<and> -1 \<le> tm_historyIndex t
     \<and> tm_historyIndex t < int (rb_size (tm_history t)) \<and> length (tm_remainder t) \<le> inBufSize
     \<and> (\<forall>cb. tm_AutoCompleteCallback t = Some cb \<longrightarrow> completer_ok cb)"

section \<open>The terminal refines the abstract editor\<close>

lemma withEditor_line:
  assumes "-1 \<le> tm_historyIndex t"
  shows "withEditor ((editorOf t)\<lparr>ed_before := b, ed_after := a\<rparr>) t = withLine (b @ a) (length b) t"
  using assms by (simp add: withEditor_def editorOf_def withLine_def)

lemma withEditor_before:
  assumes "-1 \<le> tm_historyIndex t"
  shows "withEditor ((editorOf t)\<lparr>ed_before := b\<rparr>) t = withLine (b @ drop (tm_pos t) (tm_line t)) (length b) t"
  using assms by (simp add: withEditor_def editorOf_def withLine_def)

lemma withEditor_after:
  assumes "-1 \<le> tm_historyIndex t" "tm_pos t \<le> length (tm_line t)"
  shows "withEditor ((editorOf t)\<lparr>ed_after := a\<rparr>) t = withLine (take (tm_pos t) (tm_line t) @ a) (tm_pos t) t"
  using assms by (simp add: withEditor_def editorOf_def withLine_def)

lemma withEditor_same:
  assumes "-1 \<le> tm_historyIndex t" "tm_pos t \<le> length (tm_line t)"
  shows "withEditor (editorOf t) t = t"
  using assms by (simp add: withEditor_def editorOf_def)

lemma editorOf_withEditor [simp]: "editorOf (withEditor e t) = e"
  by (simp add: editorOf_def withEditor_def)

lemma editorOf_fields [simp]: "ed_before (editorOf t) = take (tm_pos t) (tm_line t)" "ed_after (editorOf t) = drop (tm_pos t) (tm_line t)"
  "ed_index (editorOf t) = nat (tm_historyIndex t + 1)" "ed_pending (editorOf t) = tm_historyPending t"
  by (simp_all add: editorOf_def)

lemma editorOf_screenAt [simp]: "editorOf (screenAt t p m rs) = editorOf t"
  by (simp add: editorOf_def)

text \<open>The counts of the source and the words of the abstract editor.\<close>

lemma dropBack_snoc: "dropBack P (xs @ [x]) = (if P x then dropBack P xs else xs @ [x])"
  by (simp add: dropBack_def)

lemma dropBack_Nil [simp]: "dropBack P [] = []"
  by (simp add: dropBack_def)

lemma dropBack_prefix: "\<exists>ys. xs = dropBack P xs @ ys"
  by (metis append_take_drop_id dropBack_def dropWhile_eq_drop rev_drop rev_rev_ident)

lemma length_dropBack_1: "length (dropBack P (take 1 xs)) \<le> 1"
  by (cases xs) (simp_all add: dropBack_def)

lemma skipSpacesLeft_spec:
  "p < length line \<Longrightarrow> skipSpacesLeft line p = Ok (length (dropBack (\<lambda>c. c = 32) (take (Suc p) line)) - 1)"
proof (induction p)
  case 0
  with length_dropBack_1 [of "\<lambda>c. c = 32" line] show ?case by simp
next
  case (Suc p)
  then show ?case by (simp add: index_def take_Suc_conv_app_nth [of "Suc p"] dropBack_snoc)
qed

lemma skipWordLeft_spec:
  "p < length line \<Longrightarrow> skipWordLeft line p = Ok (let k = length (dropBack (\<lambda>c. c \<noteq> 32) (take (Suc p) line)) in if k \<le> 1 then 0 else k)"
proof (induction p)
  case 0
  with length_dropBack_1 [of "\<lambda>c. c \<noteq> 32" line] show ?case by simp
next
  case (Suc p)
  then show ?case by (simp add: index_def take_Suc_conv_app_nth [of "Suc p"] dropBack_snoc)
qed

lemma countToLeftWord_spec:
  assumes "tm_pos t \<le> length (tm_line t)"
  shows "countToLeftWord t = Ok (tm_pos t - length (beforeWord (take (tm_pos t) (tm_line t))))"
proof (cases "tm_pos t")
  case 0
  then show ?thesis by (simp add: countToLeftWord_def beforeWord_def)
next
  case (Suc n)
  let ?d = "dropBack (\<lambda>c. c = 32) (take (tm_pos t) (tm_line t))"
  have n: "n < length (tm_line t)" using assms Suc by simp
  obtain ys where ys: "take (tm_pos t) (tm_line t) = ?d @ ys" using dropBack_prefix by blast
  from arg_cong [OF ys, of length] have l: "length ?d \<le> tm_pos t" using assms by simp
  from arg_cong [OF ys, of "take (length ?d)"] have d: "take (length ?d) (tm_line t) = ?d" using l by (simp add: min_absorb1)
  have k: "take (Suc (length ?d - 1)) (tm_line t) = ?d \<or> ?d = []" using d by (cases "length ?d") auto
  have "length ?d - 1 < length (tm_line t)" using l n Suc by linarith
  from skipWordLeft_spec [OF this] k have "skipWordLeft (tm_line t) (length ?d - 1) = Ok (length (beforeWord (take (tm_pos t) (tm_line t))))"
    using length_dropBack_1 [of "\<lambda>c. c \<noteq> 32" "tm_line t"] by (auto simp: beforeWord_def Let_def le_Suc_eq)
  then show ?thesis using skipSpacesLeft_spec [OF n] Suc by (simp add: countToLeftWord_def)
qed

lemma skipRight_spec: "p \<le> length line \<Longrightarrow> skipRight stop line p = p + length (takeWhile (\<lambda>c. \<not> stop c) (drop p line))"
proof (induction stop line p rule: skipRight.induct)
  case (1 stop line p)
  show ?case
  proof (cases "p < length line")
    case True
    with 1 show ?thesis by (subst skipRight.simps) (simp add: Cons_nth_drop_Suc [symmetric])
  qed (use 1 in \<open>simp add: skipRight.simps [of stop line "length line"]\<close>)
qed

lemma countToRightWord_spec:
  assumes "tm_pos t \<le> length (tm_line t)"
  shows "countToRightWord t = wordLength (drop (tm_pos t) (tm_line t))"
proof -
  let ?after = "drop (tm_pos t) (tm_line t)" and ?n = "length (takeWhile (\<lambda>c. c \<noteq> 32) (drop (tm_pos t) (tm_line t)))"
  have n: "tm_pos t + ?n \<le> length (tm_line t)" using length_takeWhile_le [of "\<lambda>c. c \<noteq> 32" ?after] assms by simp
  moreover have "drop (tm_pos t + ?n) (tm_line t) = dropWhile (\<lambda>c. c \<noteq> 32) ?after"
    by (simp add: dropWhile_eq_drop add.commute)
  ultimately show ?thesis using assms by (simp add: countToRightWord_def skipRight_spec wordLength_def)
qed

lemma noLine_lands:
  assumes "lands f t t'"
  shows "\<exists>p m rs. noLine f t = (screenAt t' p m rs, Ok None)"
proof -
  from assms obtain p m rs where "f t = (screenAt t' p m rs, Ok ())" by (auto simp: lands_def)
  then have "noLine f t = (screenAt t' p m rs, Ok None)" by (simp add: noLine_def sbind_def sres_def)
  then show ?thesis by blast
qed

lemma completer_okD:
  assumes "completer_ok cb" "cb line pos key = (line', pos', True)"
  shows "0 \<le> pos'" "pos' \<le> int (length line')" "RuneCount (take (nat pos') line') \<le> length (decodeRunes line')"
  using assms(1) [unfolded completer_ok_def, rule_format, of line pos key] assms(2) by simp_all

lemma lands_noop: "cursor_ok t \<Longrightarrow> lands sdone t t"
  by (rule lands_draws [OF draws_done])

lemma terminal_okD:
  assumes "terminal_ok t"
  shows "cursor_ok t" "tm_pos t \<le> length (tm_line t)" "-1 \<le> tm_historyIndex t" "ring_ok (tm_history t)"
    "tm_historyIndex t < int (rb_size (tm_history t))" "length (tm_remainder t) \<le> inBufSize"
    "tm_AutoCompleteCallback t = Some cb \<Longrightarrow> completer_ok cb"
  using assms by (simp_all add: terminal_ok_def)

lemma handleUp_lands:
  assumes "terminal_ok t"
  shows "lands handleUp t (withEditor (showOlder (recent (tm_history t)) (editorOf t)) t)"
proof -
  note ok = terminal_okD [OF assms]
  have nth: "NthPreviousEntry (tm_historyIndex t + 1) (tm_history t)
    = Ok (if nat (tm_historyIndex t + 1) < length (recent (tm_history t)) then Some (recent (tm_history t) ! nat (tm_historyIndex t + 1)) else None)"
    using ok(3) by (intro NthPreviousEntry_recent ok(4)) simp
  show ?thesis
  proof (cases "nat (tm_historyIndex t + 1) < length (recent (tm_history t))")
    case False
    then have "lands handleUp t t" using lands_noop [OF ok(1)] nth by (simp add: lands_def handleUp_def sbind_def sres_def)
    with False ok(2,3) show ?thesis by (simp add: showOlder_def withEditor_same)
  next
    case True
    let ?rs = "decodeRunes (recent (tm_history t) ! nat (tm_historyIndex t + 1))"
    let ?u1 = "\<lambda>t. if tm_historyIndex t = -1 then t\<lparr>tm_historyPending := encodeRunes (tm_line t)\<rparr> else t"
    let ?u2 = "\<lambda>t. t\<lparr>tm_historyIndex := tm_historyIndex t + 1\<rparr>"
    have c: "cursor_ok (?u1 t)" "cursor_ok (?u2 (?u1 t))" using ok(1) by simp_all
    have e: "screenAt (?u2 (?u1 t)) p m rs = ?u2 (screenAt (?u1 t) p m rs)" for p m rs by (simp add: screenAt_def)
    have "lands (sbind (supd ?u2) (\<lambda>_. setLine ?rs (length ?rs))) (screenAt (?u1 t) p m rs) (withLine ?rs (length ?rs) (?u2 (?u1 t)))" for p m rs
    proof (rule lands_edit_first)
      show "cursor_ok (screenAt (?u1 t) p m rs)" using c(1) by simp
      show "lands (setLine ?rs (length ?rs)) (screenAt (?u2 (screenAt (?u1 t) p m rs)) p' m' rs') (withLine ?rs (length ?rs) (?u2 (?u1 t)))" for p' m' rs'
        unfolding e [symmetric] screenAt_screenAt by (rule setLine_lands_last [OF c(2)])
    qed simp
    then have "lands (sbind (supd ?u1) (\<lambda>_. sbind (supd ?u2) (\<lambda>_. setLine ?rs (length ?rs)))) t (withLine ?rs (length ?rs) (?u2 (?u1 t)))"
      by (rule lands_edit_first [OF editing_updates(12) ok(1)])
    then have "lands handleUp t (withLine ?rs (length ?rs) (?u2 (?u1 t)))"
      by (rule lands_eq [rotated]) (use nth True in \<open>simp add: handleUp_def sbind_def sres_def\<close>)
    moreover have "withLine ?rs (length ?rs) (?u2 (?u1 t)) = withEditor (showOlder (recent (tm_history t)) (editorOf t)) t"
      using True ok(3) by (auto simp: showOlder_def showEntry_def withEditor_def withLine_def)
    ultimately show ?thesis by simp
  qed
qed

lemma handleDown_lands:
  assumes "terminal_ok t"
  shows "lands handleDown t (withEditor (showNewer (recent (tm_history t)) (editorOf t)) t)"
proof -
  note ok = terminal_okD [OF assms]
  let ?u = "\<lambda>t. t\<lparr>tm_historyIndex := tm_historyIndex t - 1\<rparr>"
  have c: "cursor_ok (?u t)" using ok(1) by simp
  consider (own) "tm_historyIndex t = -1" | (newest) "tm_historyIndex t = 0" | (older) "0 < tm_historyIndex t" using ok(3) by linarith
  then show ?thesis
  proof cases
    case own
    then have "lands handleDown t t" using lands_noop [OF ok(1)] by (simp add: lands_def handleDown_def sdone_def)
    with own ok(2,3) show ?thesis by (simp add: showNewer_def withEditor_same)
  next
    case newest
    let ?rs = "decodeRunes (tm_historyPending t)"
    have "lands (sbind (setLine ?rs (length ?rs)) (\<lambda>_. supd ?u)) t (?u (withLine ?rs (length ?rs) t))"
      by (rule lands_sbind [OF setLine_lands [OF ok(1)] lands_edit_last]) (simp_all add: ok(1))
    then have "lands handleDown t (?u (withLine ?rs (length ?rs) t))" by (rule lands_eq [rotated]) (simp add: handleDown_def newest)
    moreover have "?u (withLine ?rs (length ?rs) t) = withEditor (showNewer (recent (tm_history t)) (editorOf t)) t"
      using newest by (simp add: showNewer_def showEntry_def withEditor_def withLine_def)
    ultimately show ?thesis by simp
  next
    case older
    let ?i = "nat (tm_historyIndex t - 1)"
    let ?rs = "decodeRunes (recent (tm_history t) ! ?i)"
    have nth: "NthPreviousEntry (tm_historyIndex t - 1) (tm_history t) = Ok (Some (recent (tm_history t) ! ?i))"
      using older ok(5) by (subst NthPreviousEntry_recent [OF ok(4)]) auto
    have "lands (sbind (supd ?u) (\<lambda>_. setLine ?rs (length ?rs))) t (withLine ?rs (length ?rs) (?u t))"
      by (rule lands_edit_first) (simp_all add: ok(1) setLine_lands_last [OF c])
    then have "lands handleDown t (withLine ?rs (length ?rs) (?u t))"
      by (rule lands_eq [rotated]) (use nth older in \<open>simp add: handleDown_def sbind_def sres_def\<close>)
    moreover have i: "nat (tm_historyIndex t + 1) - 2 = ?i" "nat (tm_historyIndex t + 1) \<noteq> 1" "nat (tm_historyIndex t + 1) \<noteq> 0"
      and n: "int (nat (tm_historyIndex t + 1) - 1) - 1 = tm_historyIndex t - 1" using older by auto
    have "showNewer (recent (tm_history t)) (editorOf t)
        = \<lparr>ed_before = ?rs, ed_after = [], ed_index = nat (tm_historyIndex t + 1) - 1, ed_pending = tm_historyPending t\<rparr>"
      unfolding showNewer_def showEntry_def editorOf_def by (simp only: editor.simps i if_False)
    then have "withLine ?rs (length ?rs) (?u t) = withEditor (showNewer (recent (tm_history t)) (editorOf t)) t"
      by (simp only: withEditor_def editor.simps n) (simp add: withLine_def)
    ultimately show ?thesis by simp
  qed
qed

lemma insertPrintable_lands:
  assumes "terminal_ok t"
  shows "lands (insertPrintable key) t (withEditor (typeRune key (editorOf t)) t)"
proof (cases "isPrintable key \<and> length (tm_line t) \<noteq> maxLineLength")
  case True
  note ok = terminal_okD [OF assms]
  from addKeyToLine_lands [OF ok(1,2)] True have "lands (insertPrintable key) t (withLine (take (tm_pos t) (tm_line t) @ key # drop (tm_pos t) (tm_line t)) (tm_pos t + 1) t)"
    by (simp add: lands_def insertPrintable_def)
  with True ok(2,3) show ?thesis by (simp add: typeRune_def withEditor_before)
next
  case False
  note ok = terminal_okD [OF assms]
  from False have "lands (insertPrintable key) t t" using lands_noop [OF ok(1)] by (auto simp: lands_def insertPrintable_def sdone_def)
  moreover have "typeRune key (editorOf t) = editorOf t" using False by (simp add: typeRune_def)
  ultimately show ?thesis using ok(2,3) by (simp add: withEditor_same)
qed

lemma handleOther_lands:
  assumes "terminal_ok t"
  shows "lands (handleOther key) t (withEditor (complete (tm_AutoCompleteCallback t) key (editorOf t)) t)"
proof (cases "tm_AutoCompleteCallback t")
  case None
  with insertPrintable_lands [OF assms, of key] show ?thesis by (simp add: lands_def handleOther_def complete_def)
next
  case (Some cb)
  note ok = terminal_okD [OF assms]
  let ?text = "encodeRunes (take (tm_pos t) (tm_line t)) @ encodeRunes (drop (tm_pos t) (tm_line t))"
  obtain line pos good where c: "cb ?text (length (encodeRunes (take (tm_pos t) (tm_line t)))) key = (line, pos, good)" by (rule prod_cases3)
  have e: "complete (Some cb) key (editorOf t) = (if good then let n = RuneCount (take (nat pos) line) in
      (editorOf t)\<lparr>ed_before := take n (decodeRunes line), ed_after := drop n (decodeRunes line)\<rparr> else typeRune key (editorOf t))"
    using c by (simp add: complete_def flip: encodeRunes_simps(3))
  show ?thesis
  proof (cases good)
    case False
    with insertPrintable_lands [OF assms, of key] c e Some ok(2) show ?thesis by (simp add: lands_def handleOther_def Let_def)
  next
    case True
    note g = completer_okD [OF ok(7) [OF Some] c [unfolded eqTrueI [OF True]]]
    from setLine_lands [OF ok(1), of "decodeRunes line" "RuneCount (take (nat pos) line)"] g(1,2) c True Some ok(2)
    have "lands (handleOther key) t (withLine (decodeRunes line) (RuneCount (take (nat pos) line)) t)" by (simp add: lands_def handleOther_def Let_def)
    with e True g(3) ok(3) show ?thesis by (simp add: Let_def withEditor_line Some)
  qed
qed

lemma beforeWord_prefix: "\<exists>us. xs = beforeWord xs @ us"
proof -
  obtain ys zs where "xs = dropBack (\<lambda>c. c = 32) xs @ ys" "dropBack (\<lambda>c. c = 32) xs = dropBack (\<lambda>c. c \<noteq> 32) (dropBack (\<lambda>c. c = 32) xs) @ zs"
    using dropBack_prefix by blast
  then have "xs = dropBack (\<lambda>c. c \<noteq> 32) (dropBack (\<lambda>c. c = 32) xs) @ zs @ ys" by (metis append_assoc)
  moreover have "xs = k @ us \<Longrightarrow> \<exists>us. xs = (if length k = 1 then [] else k) @ us" for k us by auto
  ultimately show ?thesis unfolding beforeWord_def Let_def by blast
qed

lemma take_beforeWord: "take (length (beforeWord xs)) xs = beforeWord xs"
  using beforeWord_prefix [of xs] by (metis append_eq_conv_conj)

lemma beforeWord_take:
  assumes "pos \<le> length line"
  shows "length (beforeWord (take pos line)) \<le> pos" "take (length (beforeWord (take pos line))) line = beforeWord (take pos line)"
    "beforeWord (take pos line) @ drop (length (beforeWord (take pos line))) (take pos line) = take pos line"
proof -
  note t = take_beforeWord [of "take pos line"]
  have "length (beforeWord (take pos line)) \<le> length (take pos line)" using beforeWord_prefix [of "take pos line"] by (metis le_add1 length_append)
  then show l: "length (beforeWord (take pos line)) \<le> pos" by simp
  from t l show "take (length (beforeWord (take pos line))) line = beforeWord (take pos line)" by (metis min.absorb1 take_take)
  from append_take_drop_id [of "length (beforeWord (take pos line))" "take pos line"]
  show "beforeWord (take pos line) @ drop (length (beforeWord (take pos line))) (take pos line) = take pos line" unfolding t .
qed

text \<open>The handler of a key runs a statement that has the effect of the key on the abstract editor.\<close>

definition refinesKey :: "rune \<Rightarrow> Terminal \<Rightarrow> bool" where
  "refinesKey key t \<longleftrightarrow> (\<exists>f. handleKey key t = noLine f t
     \<and> lands f t (withEditor (editKey (tm_pasteActive t) (tm_AutoCompleteCallback t) (recent (tm_history t)) key (editorOf t)) t))"

lemma refinesKeyI:
  "handleKey key t = noLine f t \<and> lands f t (withEditor (editKey (tm_pasteActive t) (tm_AutoCompleteCallback t) (recent (tm_history t)) key (editorOf t)) t)
   \<Longrightarrow> refinesKey key t"
  unfolding refinesKey_def by blast

lemma refine_motions:
  assumes "terminal_ok t" "\<not> tm_pasteActive t" "key \<in> {keyAltLeft, keyAltRight, keyLeft, keyRight, keyHome, keyEnd}"
  shows "refinesKey key t"
proof -
  note ok = terminal_okD [OF assms(1)]
  note we = withEditor_line [OF ok(3)] withEditor_before [OF ok(3)] withEditor_after [OF ok(3) ok(2)] withEditor_same [OF ok(3) ok(2)]
  let ?line = "tm_line t" and ?pos = "tm_pos t"
  note noop = lands_noop [OF ok(1)] and to = moveTo_lands [OF ok(1)] and start = beforeWord_take [OF ok(2)]
  have same: "?pos = 0 \<Longrightarrow> withLine ?line 0 t = t" "?pos = length ?line \<Longrightarrow> withLine ?line (length ?line) t = t" using withLine_same [of t] by simp_all
  from assms(3) consider (al) "key = keyAltLeft" | (ar) "key = keyAltRight" | (left) "key = keyLeft" | (right) "key = keyRight"
    | (home) "key = keyHome" | (atEnd) "key = keyEnd" by blast
  then show ?thesis
  proof cases
    case al
    have "lands (sbind (sres (countToLeftWord t)) (\<lambda>n. moveTo (?pos - n))) t (withLine ?line (length (beforeWord (take ?pos ?line))) t)"
      using to [of "length (beforeWord (take ?pos ?line))"] start(1) by (simp add: lands_def countToLeftWord_spec [OF ok(2)] sbind_def sres_def)
    then show ?thesis using assms(2) al start(3)
      by (intro refinesKeyI [where f = "sbind (sres (countToLeftWord t)) (\<lambda>n. moveTo (?pos - n))"]) (simp add: handleKey_def editKey_def Let_def we flip: append_assoc)
  next
    case ar
    let ?after = "drop ?pos ?line"
    have "withEditor ((editorOf t)\<lparr>ed_before := take ?pos ?line @ take (wordLength ?after) ?after, ed_after := drop (wordLength ?after) ?after\<rparr>) t
        = withLine ?line (?pos + wordLength ?after) t"
      using wordLength_le [of ?after] ok(2) unfolding we append_assoc append_take_drop_id by simp
    with assms(2) to [of "?pos + wordLength ?after"] ar show ?thesis
      by (intro refinesKeyI [where f = "moveTo (?pos + countToRightWord t)"])
        (simp add: handleKey_def editKey_def Let_def countToRightWord_spec [OF ok(2)] del: drop_drop)
  next
    case left
    have "0 < ?pos \<Longrightarrow> take (?pos - 1) ?line @ last (take ?pos ?line) # drop ?pos ?line = ?line"
    proof -
      assume p: "0 < ?pos"
      then have "last (take ?pos ?line) = ?line ! (?pos - 1)" using ok(2) by (subst last_conv_nth) (auto simp: min_absorb2)
      with p ok(2) id_take_nth_drop [of "?pos - 1" ?line, symmetric] show ?thesis by simp
    qed
    note left = left this
    with assms(2) to [of "?pos - 1"] noop ok(2) show ?thesis
      by (intro refinesKeyI [where f = "if ?pos = 0 then sdone else moveTo (?pos - 1)"]) (auto simp: handleKey_def editKey_def Let_def we butlast_take)
  next
    case right
    with assms(2) to [of "?pos + 1"] noop ok(2) show ?thesis
      by (intro refinesKeyI [where f = "if ?pos = length ?line then sdone else moveTo (?pos + 1)"]) (auto simp: handleKey_def editKey_def Let_def we)
  next
    case home
    with assms(2) same(1) to [of 0] noop ok(2) show ?thesis
      by (intro refinesKeyI [where f = "if ?pos = 0 then sdone else moveTo 0"]) (auto simp: handleKey_def editKey_def Let_def we)
  next
    case atEnd
    with assms(2) same(2) to [of "length ?line"] noop ok(2) show ?thesis
      by (intro refinesKeyI [where f = "if ?pos = length ?line then sdone else moveTo (length ?line)"]) (auto simp: handleKey_def editKey_def Let_def we)
  qed
qed

lemma refine_deletions:
  assumes "terminal_ok t" "\<not> tm_pasteActive t" "key \<in> {keyBackspace, keyDeleteWord, keyDeleteLine, keyCtrlD, keyCtrlU}"
  shows "refinesKey key t"
proof -
  note ok = terminal_okD [OF assms(1)]
  note we = withEditor_line [OF ok(3)] withEditor_before [OF ok(3)] withEditor_after [OF ok(3) ok(2)] withEditor_same [OF ok(3) ok(2)]
  let ?line = "tm_line t" and ?pos = "tm_pos t"
  note noop = lands_noop [OF ok(1)] and erase = eraseNPreviousChars_lands [OF ok(1,2)] and start = beforeWord_take [OF ok(2)]
  from assms(3) consider (bs) "key = keyBackspace" | (dw) "key = keyDeleteWord" | (dl) "key = keyDeleteLine" | (d) "key = keyCtrlD" | (u) "key = keyCtrlU" by blast
  then show ?thesis
  proof cases
    case bs
    have "?pos = 0 \<Longrightarrow> withLine ?line 0 t = t" using withLine_same [of t] by simp
    with assms(2) erase [of 1] noop ok(2) bs show ?thesis
      by (intro refinesKeyI [where f = "if ?pos = 0 then sdone else eraseNPreviousChars 1"]) (auto simp: handleKey_def editKey_def we butlast_take)
  next
    case dw
    have "lands (sbind (sres (countToLeftWord t)) eraseNPreviousChars) t (withLine (beforeWord (take ?pos ?line) @ drop ?pos ?line) (length (beforeWord (take ?pos ?line))) t)"
      using erase [of "?pos - length (beforeWord (take ?pos ?line))"] start by (simp add: lands_def countToLeftWord_spec [OF ok(2)] sbind_def sres_def)
    with assms(2) dw show ?thesis
      by (intro refinesKeyI [where f = "sbind (sres (countToLeftWord t)) eraseNPreviousChars"]) (simp add: handleKey_def editKey_def Let_def we)
  next
    case dl
    with assms(2) handleDeleteLine_lands [OF ok(1,2)] show ?thesis by (intro refinesKeyI [where f = handleDeleteLine]) (simp add: handleKey_def editKey_def Let_def we)
  next
    case d
    have "?pos = length ?line \<Longrightarrow> withLine ?line (length ?line) t = t" using withLine_same [of t] by simp
    have "lands (sbind (supd (\<lambda>t. t\<lparr>tm_pos := tm_pos t + 1\<rparr>)) (\<lambda>_. eraseNPreviousChars 1)) t (withLine (take ?pos ?line @ drop (?pos + 1) ?line) ?pos t)"
      if "?pos < length ?line"
    proof (rule lands_edit_first)
      fix p m rs
      let ?t = "screenAt (t\<lparr>tm_pos := tm_pos t + 1\<rparr>) p m rs"
      have "lands (eraseNPreviousChars 1) ?t (withLine (take ?pos ?line @ drop (?pos + 1) ?line) ?pos ?t)"
        using eraseNPreviousChars_lands [of ?t 1] that ok(1) by simp
      moreover have "withLine (take ?pos ?line @ drop (?pos + 1) ?line) ?pos ?t = screenAt (withLine (take ?pos ?line @ drop (?pos + 1) ?line) ?pos t) p m rs"
        by (simp add: withLine_def screenAt_def)
      ultimately show "lands (eraseNPreviousChars 1) ?t (withLine (take ?pos ?line @ drop (?pos + 1) ?line) ?pos t)" by (auto simp: lands_def)
    qed (simp_all add: ok(1))
    with assms(2) \<open>?pos = length ?line \<Longrightarrow> withLine ?line (length ?line) t = t\<close> d noop ok(2) show ?thesis
      by (intro refinesKeyI [where f = "if ?pos < length ?line then sbind (supd (\<lambda>t. t\<lparr>tm_pos := tm_pos t + 1\<rparr>)) (\<lambda>_. eraseNPreviousChars 1) else sdone"])
        (auto simp: handleKey_def editKey_def Let_def we drop_Suc tl_drop withLine_same)
  next
    case u
    with assms(2) erase [of ?pos] show ?thesis by (intro refinesKeyI [where f = "eraseNPreviousChars ?pos"]) (simp add: handleKey_def editKey_def Let_def we)
  qed
qed

lemma refine_others:
  assumes "terminal_ok t" "\<not> tm_pasteActive t" "key \<notin> {keyAltLeft, keyAltRight, keyLeft, keyRight, keyHome, keyEnd}"
    "key \<notin> {keyBackspace, keyDeleteWord, keyDeleteLine, keyCtrlD, keyCtrlU, keyEnter}"
  shows "refinesKey key t"
proof -
  note ok = terminal_okD [OF assms(1)]
  note we = withEditor_line [OF ok(3)] withEditor_before [OF ok(3)] withEditor_after [OF ok(3) ok(2)] withEditor_same [OF ok(3) ok(2)]
  let ?line = "tm_line t" and ?pos = "tm_pos t"
  consider (up) "key = keyUp" | (down) "key = keyDown" | (cs) "key = keyClearScreen" | (other) "key \<notin> {keyUp, keyDown, keyClearScreen}" by blast
  then show ?thesis
  proof cases
    case up
    with assms(2) handleUp_lands [OF assms(1)] show ?thesis by (intro refinesKeyI [where f = handleUp]) (simp add: handleKey_def editKey_def Let_def)
  next
    case down
    with assms(2) handleDown_lands [OF assms(1)] show ?thesis by (intro refinesKeyI [where f = handleDown]) (simp add: handleKey_def editKey_def Let_def)
  next
    case cs
    with assms(2) handleClearScreen_lands [OF ok(1)] show ?thesis by (intro refinesKeyI [where f = handleClearScreen]) (simp add: handleKey_def editKey_def Let_def we)
  next
    case other
    with assms handleOther_lands [OF assms(1), of key] show ?thesis by (intro refinesKeyI [where f = "handleOther key"]) (simp add: handleKey_def editKey_def Let_def)
  qed
qed

lemma handleKey_edits:
  assumes "terminal_ok t" "key \<noteq> keyEnter"
  shows "\<exists>p m rs. handleKey key t
    = (screenAt (withEditor (editKey (tm_pasteActive t) (tm_AutoCompleteCallback t) (recent (tm_history t)) key (editorOf t)) t) p m rs, Ok None)"
proof -
  note ok = terminal_okD [OF assms(1)]
  have "refinesKey key t"
  proof (cases "tm_pasteActive t")
    case True
    with assms(2) addKeyToLine_lands [OF ok(1,2), of key] ok(2) show ?thesis
      by (auto simp: refinesKey_def handleKey_def editKey_def withEditor_before [OF ok(3)] intro!: exI [of _ "addKeyToLine key"])
  next
    case False
    with assms refine_motions refine_deletions refine_others show ?thesis by blast
  qed
  then obtain f where "handleKey key t = noLine f t"
    "lands f t (withEditor (editKey (tm_pasteActive t) (tm_AutoCompleteCallback t) (recent (tm_history t)) key (editorOf t)) t)"
    by (auto simp: refinesKey_def)
  with noLine_lands [of f t] show ?thesis by simp
qed

lemma ed_index_editKey: "ed_index e \<le> length hist \<Longrightarrow> ed_index (editKey pasting cb hist key e) \<le> length hist"
  by (auto simp: editKey_def Let_def showOlder_def showNewer_def showEntry_def complete_def typeRune_def split: option.splits prod.splits)

lemma terminal_ok_screenAt: "terminal_ok t \<Longrightarrow> terminal_ok (screenAt t p m rs)"
  by (simp add: terminal_ok_def)

lemma terminal_ok_withEditor:
  assumes "terminal_ok t" "ed_index e \<le> length (recent (tm_history t))"
  shows "terminal_ok (withEditor e t)"
  using assms by (auto simp: terminal_ok_def withEditor_def cursor_ok_def)

lemma handleEnter_at:
  assumes "cursor_ok t"
  shows "\<exists>p m rs. handleEnter t = ((screenAt t p m rs)\<lparr>tm_line := [], tm_pos := 0, tm_cursorX := 0, tm_cursorY := 0, tm_maxLine := 0\<rparr>,
    Ok (Some (encodeRunes (tm_line t))))"
proof -
  obtain p m rs where "moveCursorToPos (length (tm_line t)) t = (screenAt t p m rs, Ok ())" using drawsD [OF draws_moveCursorToPos assms] by blast
  then have "handleEnter t = ((screenAt t p m (rs @ [13, 10]))\<lparr>tm_line := [], tm_pos := 0, tm_cursorX := 0, tm_cursorY := 0, tm_maxLine := 0\<rparr>,
      Ok (Some (encodeRunes (tm_line t))))"
    using assms by (simp add: handleEnter_def sbind_def queue_at)
  then show ?thesis by blast
qed

text \<open>What a key leaves alone.\<close>

definition sameSetting :: "Terminal \<Rightarrow> Terminal \<Rightarrow> bool" where
  "sameSetting t t' \<longleftrightarrow> tm_history t' = tm_history t \<and> tm_prompt t' = tm_prompt t \<and> tm_echo t' = tm_echo t \<and> tm_pasteActive t' = tm_pasteActive t
     \<and> tm_termWidth t' = tm_termWidth t \<and> tm_in t' = tm_in t \<and> tm_out t' = tm_out t \<and> tm_remainder t' = tm_remainder t
     \<and> tm_AutoCompleteCallback t' = tm_AutoCompleteCallback t"

lemma handleKey_refined:
  assumes "terminal_ok t"
  shows "\<exists>t'. handleKey key t = (t', Ok (if key = keyEnter then Some (encodeRunes (tm_line t)) else None)) \<and> terminal_ok t' \<and> sameSetting t t'
    \<and> editorOf t' = (if key = keyEnter then (editorOf t)\<lparr>ed_before := [], ed_after := []\<rparr>
        else editKey (tm_pasteActive t) (tm_AutoCompleteCallback t) (recent (tm_history t)) key (editorOf t))"
proof (cases "key = keyEnter")
  case True
  obtain p m rs where "handleEnter t = ((screenAt t p m rs)\<lparr>tm_line := [], tm_pos := 0, tm_cursorX := 0, tm_cursorY := 0, tm_maxLine := 0\<rparr>,
      Ok (Some (encodeRunes (tm_line t))))" using handleEnter_at [OF terminal_okD(1) [OF assms]] by blast
  moreover have "handleKey key t = handleEnter t" using True by (simp add: handleKey_def)
  ultimately show ?thesis using True assms by (auto simp: terminal_ok_def cursor_ok_def sameSetting_def editorOf_def)
next
  case False
  let ?e = "editKey (tm_pasteActive t) (tm_AutoCompleteCallback t) (recent (tm_history t)) key (editorOf t)"
  obtain p m rs where h: "handleKey key t = (screenAt (withEditor ?e t) p m rs, Ok None)" using handleKey_edits [OF assms False] by blast
  have "ed_index (editorOf t) \<le> length (recent (tm_history t))" using terminal_okD [OF assms] by simp
  from terminal_ok_withEditor [OF assms ed_index_editKey [OF this]] have "terminal_ok (screenAt (withEditor ?e t) p m rs)" by (rule terminal_ok_screenAt)
  with h False show ?thesis by (simp add: sameSetting_def withEditor_def editorOf_def)
qed

section \<open>No operation breaks the terminal\<close>

text \<open>What is there besides the screen and the prompt.\<close>

definition undisturbed :: "Terminal \<Rightarrow> Terminal \<Rightarrow> bool" where
  "undisturbed t t' \<longleftrightarrow> tm_line t' = tm_line t \<and> tm_pos t' = tm_pos t \<and> tm_history t' = tm_history t \<and> tm_historyIndex t' = tm_historyIndex t
     \<and> tm_historyPending t' = tm_historyPending t \<and> tm_echo t' = tm_echo t \<and> tm_pasteActive t' = tm_pasteActive t
     \<and> tm_AutoCompleteCallback t' = tm_AutoCompleteCallback t \<and> tm_remainder t' = tm_remainder t"

lemma undisturbed_trans: "undisturbed t t' \<Longrightarrow> undisturbed t' t'' \<Longrightarrow> undisturbed t t''"
  by (simp add: undisturbed_def)

lemma undisturbed_updates [simp]: "undisturbed t t" "undisturbed t (screenAt t p m rs)" "undisturbed t (t\<lparr>tm_out := w\<rparr>)"
  "undisturbed t (t'\<lparr>tm_outBuf := b\<rparr>) = undisturbed t t'" "undisturbed t (t\<lparr>tm_in := es\<rparr>)" "undisturbed t (SetPrompt prompt t)"
  by (simp_all add: undisturbed_def SetPrompt_def)

definition safe :: "(Terminal, 'a) goStep \<Rightarrow> bool" where
  "safe f \<longleftrightarrow> (\<forall>t. terminal_ok t \<longrightarrow> terminal_ok (fst (f t)) \<and> \<not> panics (snd (f t)) \<and> undisturbed t (fst (f t)))"

named_theorems safety "operations that keep a terminal well-formed, do not panic and leave the line alone"

lemma safeD: "safe f \<Longrightarrow> terminal_ok t \<Longrightarrow> f t = (t', r) \<Longrightarrow> terminal_ok t' \<and> \<not> panics r \<and> undisturbed t t'"
  by (force simp: safe_def)

lemma safe_sbind [safety]: "safe f \<Longrightarrow> (\<And>x. safe (g x)) \<Longrightarrow> safe (sbind f g)"
  unfolding safe_def
proof (intro allI impI)
  fix t assume f: "\<forall>t. terminal_ok t \<longrightarrow> terminal_ok (fst (f t)) \<and> \<not> panics (snd (f t)) \<and> undisturbed t (fst (f t))"
    and g: "\<And>x. \<forall>t. terminal_ok t \<longrightarrow> terminal_ok (fst (g x t)) \<and> \<not> panics (snd (g x t)) \<and> undisturbed t (fst (g x t))" and t: "terminal_ok t"
  obtain t1 r where e: "f t = (t1, r)" by (cases "f t")
  with f t have 1: "terminal_ok t1" "\<not> panics r" "undisturbed t t1" by force+
  show "terminal_ok (fst (sbind f g t)) \<and> \<not> panics (snd (sbind f g t)) \<and> undisturbed t (fst (sbind f g t))"
  proof (cases r)
    case (Ok x)
    with e have "sbind f g t = g x t1" by (simp add: sbind_def)
    with g [of x] 1 undisturbed_trans [OF 1(3)] show ?thesis by auto
  qed (use e 1 in \<open>simp_all add: sbind_def\<close>)
qed

lemma safe_draws: "draws f \<Longrightarrow> safe f"
  unfolding safe_def draws_def by (metis fst_conv panics.simps(1) snd_conv undisturbed_updates(2) terminal_okD(1) terminal_ok_screenAt)

lemma safe_dep: "(\<And>t. f t = g t t) \<Longrightarrow> (\<And>t. safe (g t)) \<Longrightarrow> safe f"
  by (simp add: safe_def)

lemma writeBytes_no_panic: "\<not> panics (snd (writeBytes w b))"
  by (auto simp: writeBytes_def split: option.splits prod.splits)

lemma terminal_ok_out [simp]: "terminal_ok (t\<lparr>tm_out := w\<rparr>) = terminal_ok t" "terminal_ok (t\<lparr>tm_outBuf := b\<rparr>) = terminal_ok t"
  "terminal_ok (t\<lparr>tm_in := es\<rparr>) = terminal_ok t" "terminal_ok (t\<lparr>tm_pasteActive := on\<rparr>) = terminal_ok t" "terminal_ok (t\<lparr>tm_prompt := rs\<rparr>) = terminal_ok t"
  "terminal_ok (t\<lparr>tm_echo := on\<rparr>) = terminal_ok t"
  by (simp_all add: terminal_ok_def cursor_ok_def)

lemma safe_rawWrite [safety]: "safe (rawWrite b)"
proof -
  have "\<not> panics r" if "writeBytes w b = (w', r)" for w w' r using writeBytes_no_panic [of w b] that by simp
  then show ?thesis by (auto simp: safe_def rawWrite_def split: prod.splits)
qed

lemma safe_flushOut [safety]: "safe flushOut"
proof (rule safe_dep [where g = "\<lambda>t. sbind (rawWrite (tm_outBuf t)) (\<lambda>_. supd (\<lambda>t. t\<lparr>tm_outBuf := []\<rparr>))", OF flushOut_def])
  show "safe (sbind (rawWrite (tm_outBuf t)) (\<lambda>_. supd (\<lambda>t. t\<lparr>tm_outBuf := []\<rparr>)))" for t
    by (intro safety) (simp add: safe_def supd_def)
qed

lemma safe_if [safety]: "safe f \<Longrightarrow> safe g \<Longrightarrow> safe (if b then f else g)"
  by simp

lemma safe_Terminal_Write: "safe (Terminal_Write buf)"
proof (rule safe_dep [where g = "\<lambda>t. if tm_cursorX t = 0 \<and> tm_cursorY t = 0 then rawWrite buf
      else sbind (move 0 0 (tm_cursorX t) 0) (\<lambda>_. sbind (supd (\<lambda>t. t\<lparr>tm_cursorX := 0\<rparr>)) (\<lambda>_. sbind clearLineToRight (\<lambda>_.
        sbind (clearUp (tm_cursorY t)) (\<lambda>_. sbind flushOut (\<lambda>_. sbind (rawWrite buf) (\<lambda>_. sbind (writeLine (tm_prompt t)) (\<lambda>_.
        sbind (if tm_echo t then writeLine (tm_line t) else sdone) (\<lambda>_. sbind (moveCursorToPos (tm_pos t)) (\<lambda>_. flushOut)))))))))"])
  show "Terminal_Write buf t = (if tm_cursorX t = 0 \<and> tm_cursorY t = 0 then rawWrite buf
      else sbind (move 0 0 (tm_cursorX t) 0) (\<lambda>_. sbind (supd (\<lambda>t. t\<lparr>tm_cursorX := 0\<rparr>)) (\<lambda>_. sbind clearLineToRight (\<lambda>_.
        sbind (clearUp (tm_cursorY t)) (\<lambda>_. sbind flushOut (\<lambda>_. sbind (rawWrite buf) (\<lambda>_. sbind (writeLine (tm_prompt t)) (\<lambda>_.
        sbind (if tm_echo t then writeLine (tm_line t) else sdone) (\<lambda>_. sbind (moveCursorToPos (tm_pos t)) (\<lambda>_. flushOut)))))))))) t" for t
    by (simp add: Terminal_Write_def)
qed (rule safe_if safe_sbind safe_flushOut safe_rawWrite safe_draws drawing)+

lemma safe_SetSize: "safe (SetSize width height)"
  unfolding safe_def
proof (intro allI impI)
  fix t assume t: "terminal_ok t"
  let ?w = "if width = 0 then 1 else width"
  let ?t = "t\<lparr>tm_termWidth := ?w, tm_termHeight := height\<rparr>"
  let ?finish = "\<lambda>_ :: unit. \<lambda>t. case rawWrite (tm_outBuf t) t of (t, r) \<Rightarrow> (t\<lparr>tm_outBuf := []\<rparr>, r)"
  let ?shrink = "\<lambda>t. t\<lparr>tm_cursorX := (if tm_cursorX t \<ge> tm_termWidth t then tm_termWidth t - 1 else tm_cursorX t), tm_cursorY := tm_cursorY t * 2\<rparr>"
  have finish: "safe (?finish x)" for x
    by (rule safe_dep [where g = "\<lambda>t t'. case rawWrite (tm_outBuf t) t' of (t, r) \<Rightarrow> (t\<lparr>tm_outBuf := []\<rparr>, r)"], simp)
      (unfold safe_def, auto dest: safeD [OF safe_rawWrite] split: prod.splits)
  have repaint: "safe (sbind (clearAndRepaintLinePlusNPrevious n) ?finish)" for n
    by (rule safe_sbind [OF safe_draws [OF draws_repaint] finish])
  have dep: "safe (sbind (\<lambda>t. clearAndRepaintLinePlusNPrevious (tm_maxLine t * 2) t) ?finish)"
    by (rule safe_sbind [OF safe_draws [OF draws_dep [OF refl draws_repaint]] finish])
  have w: "0 < ?w" by simp
  consider (same) "?w = tm_termWidth t" | (empty) "tm_line t = [] \<and> tm_cursorX t = 0 \<and> tm_cursorY t = 0"
    | (less) "?w < tm_termWidth t" "?w \<noteq> tm_termWidth t" "\<not> (tm_line t = [] \<and> tm_cursorX t = 0 \<and> tm_cursorY t = 0)"
    | (more) "?w > tm_termWidth t" "?w \<noteq> tm_termWidth t" "\<not> (tm_line t = [] \<and> tm_cursorX t = 0 \<and> tm_cursorY t = 0)" by linarith
  then show "terminal_ok (fst (SetSize width height t)) \<and> \<not> panics (snd (SetSize width height t)) \<and> undisturbed t (fst (SetSize width height t))"
  proof cases
    case same
    then have "SetSize width height t = (?t, Ok ())" by (simp add: SetSize_def Let_def)
    moreover have "terminal_ok ?t" using t same by (simp add: terminal_ok_def cursor_ok_def)
    ultimately show ?thesis by (simp add: undisturbed_def)
  next
    case empty
    then have "SetSize width height t = (?t, Ok ())" by (simp add: SetSize_def Let_def)
    moreover have "terminal_ok ?t" using t empty w by (simp add: terminal_ok_def cursor_ok_def)
    ultimately show ?thesis by (simp add: undisturbed_def)
  next
    case less
    have "terminal_ok (?shrink ?t)" using t w by (simp add: terminal_ok_def cursor_ok_def)
    moreover have "SetSize width height t = sbind (\<lambda>t. clearAndRepaintLinePlusNPrevious (tm_maxLine t * 2) t) ?finish (?shrink ?t)"
      using less by (auto simp: SetSize_def Let_def sbind_def supd_def)
    ultimately show ?thesis using dep by (auto simp: safe_def undisturbed_def)
  next
    case more
    have "terminal_ok ?t" using t more by (simp add: terminal_ok_def cursor_ok_def)
    moreover have "SetSize width height t = sbind (clearAndRepaintLinePlusNPrevious (tm_maxLine ?t)) ?finish ?t"
      using more by (auto simp: SetSize_def Let_def)
    ultimately show ?thesis using repaint by (auto simp: safe_def undisturbed_def)
  qed
qed

lemma terminal_ok_SetPrompt: "terminal_ok t \<Longrightarrow> terminal_ok (SetPrompt prompt t)"
  by (simp add: SetPrompt_def)

lemma awaitEvents_safe:
  "awaitEvents es room t = Some (t', r) \<Longrightarrow> terminal_ok t \<Longrightarrow>
    terminal_ok t' \<and> \<not> panics r \<and> undisturbed t t' \<and> (\<forall>b. r = Ok b \<longrightarrow> length b \<le> room)"
proof (induction es room t arbitrary: t' r rule: awaitEvents.induct)
  case (4 buf es room t)
  obtain t1 r1 where w: "Terminal_Write buf t = (t1, r1)" by (cases "Terminal_Write buf t")
  note s = safeD [OF safe_Terminal_Write 4(4) w]
  show ?case
  proof (cases r1)
    case (Ok u)
    from 4(3) w Ok have "awaitEvents es room t1 = Some (t', r)" by simp
    with 4(1) [OF w [symmetric] Ok this] s show ?thesis by (blast intro: undisturbed_trans)
  next
    case (Err e)
    from 4(3) w Err have "awaitEvents es room t1 = Some (t', r)" by simp
    with 4(2) [OF w [symmetric] Err this] s show ?thesis by (blast intro: undisturbed_trans)
  qed (use s in simp)
next
  case (5 width height es room t)
  obtain t1 r1 where w: "SetSize width height t = (t1, r1)" by (cases "SetSize width height t")
  note s = safeD [OF safe_SetSize 5(4) w]
  show ?case
  proof (cases r1)
    case (Ok u)
    from 5(3) w Ok have "awaitEvents es room t1 = Some (t', r)" by simp
    with 5(1) [OF w [symmetric] Ok this] s show ?thesis by (blast intro: undisturbed_trans)
  next
    case (Err e)
    from 5(3) w Err have "awaitEvents es room t1 = Some (t', r)" by simp
    with 5(2) [OF w [symmetric] Err this] s show ?thesis by (blast intro: undisturbed_trans)
  qed (use s in simp)
next
  case (6 prompt es room t)
  from 6(1) [of t' r] 6(2) terminal_ok_SetPrompt [OF 6(3)] show ?case by (simp add: undisturbed_def SetPrompt_def)
qed auto

lemma keyLoop_safe:
  "keyLoop rest pasted t = (t', r) \<Longrightarrow> terminal_ok t \<Longrightarrow> terminal_ok t' \<and> is_ok r \<and> tm_remainder t' = tm_remainder t"
proof (induction rest pasted t arbitrary: t' r rule: keyLoop.induct)
  case (1 rest pasted t)
  obtain key rest' where k: "bytesToKey rest (tm_pasteActive t) = (key, rest')" by (cases "bytesToKey rest (tm_pasteActive t)")
  note step = 1(4) [unfolded keyLoop.simps [of rest pasted t] k]
  consider (stop) "key = RuneError \<or> \<not> tm_pasteActive t \<and> key = keyCtrlD \<and> tm_line t = []"
    | (start) "key \<noteq> RuneError" "\<not> tm_pasteActive t" "key = keyPasteStart"
    | (finish) "key \<noteq> RuneError" "tm_pasteActive t" "key = keyPasteEnd"
    | (key) "key \<noteq> RuneError" "\<not> (\<not> tm_pasteActive t \<and> key = keyCtrlD \<and> tm_line t = [])" "\<not> (\<not> tm_pasteActive t \<and> key = keyPasteStart)"
      "\<not> (tm_pasteActive t \<and> key = keyPasteEnd)" by blast
  then show ?case
  proof cases
    case stop
    with step 1(5) show ?thesis by (auto split: if_splits)
  next
    case start
    with step 1(1) [OF k [symmetric]] 1(5) show ?thesis by simp
  next
    case finish
    with step 1(2) [OF k [symmetric]] 1(5) show ?thesis by simp
  next
    case key
    from handleKey_refined [OF 1(5), of key] obtain t1 where
      h: "handleKey key t = (t1, Ok (if key = keyEnter then Some (encodeRunes (tm_line t)) else None))" "terminal_ok t1" "tm_remainder t1 = tm_remainder t"
      by (auto simp: sameSetting_def)
    show ?thesis
    proof (cases "key = keyEnter")
      case True
      with step key h show ?thesis by (auto simp: Let_def)
    next
      case False
      with step key h have "keyLoop rest' (tm_pasteActive t \<and> pasted) t1 = (t', r)" by (simp add: Let_def split: if_splits)
      from h(1) False have h1: "(t1, Ok None) = handleKey key t" by simp
      from 1(3) [OF k [symmetric] key refl h1 refl refl \<open>keyLoop rest' (tm_pasteActive t \<and> pasted) t1 = (t', r)\<close> h(2)] h(3) show ?thesis by simp
    qed
  qed
qed

lemma terminal_ok_remainder: "terminal_ok t \<Longrightarrow> length b \<le> inBufSize \<Longrightarrow> terminal_ok (t\<lparr>tm_remainder := b\<rparr>)"
  by (simp add: terminal_ok_def cursor_ok_def)

lemma terminal_ok_keepRest: "terminal_ok t \<Longrightarrow> terminal_ok (keepRest rest t)"
  using terminal_ok_remainder [of t "take inBufSize rest"] by (simp add: keepRest_def terminal_ok_def cursor_ok_def)

lemma finishLine_safe:
  assumes "terminal_ok t"
  shows "terminal_ok (fst (finishLine line pasted t)) \<and> snd (finishLine line pasted t) = Ok (line, pasted)"
proof -
  obtain h r where a: "ring_Add line (tm_history t) = (h, r)" by (cases "ring_Add line (tm_history t)")
  with ring.add [OF terminal_okD(4) [OF assms], of line] have h: "ring_ok h" "r = Ok ()" "recent h = take 100 (line # recent (tm_history t))" by simp_all
  from arg_cong [OF h(3), of length] have "0 < rb_size h" by simp
  with a h assms show ?thesis by (auto simp: finishLine_def terminal_ok_def cursor_ok_def)
qed

lemma lineLoop_safe:
  assumes "lineLoop pasted t = Some y" "terminal_ok t"
  shows "terminal_ok (fst y) \<and> \<not> panics (snd y)"
proof -
  have "terminal_ok t \<longrightarrow> terminal_ok (fst y) \<and> \<not> panics (snd y)"
  proof (rule lineLoop.raw_induct [where P = "\<lambda>pasted t y. terminal_ok t \<longrightarrow> terminal_ok (fst y) \<and> \<not> panics (snd y)", OF _ assms(1)], intro impI, goal_cases)
    case (1 rec pasted t y)
    obtain t1 r1 where l: "keyLoop (tm_remainder t) pasted t = (t1, r1)" by (cases "keyLoop (tm_remainder t) pasted t")
    from keyLoop_safe [OF this 1(3)] have ok: "terminal_ok t1" and "is_ok r1" by simp_all
    then obtain rest pasted' ending where r1: "r1 = Ok (rest, pasted', ending)" by (cases r1) auto
    let ?t2 = "keepRest rest t1"
    have ok2: "terminal_ok ?t2" by (rule terminal_ok_keepRest [OF ok])
    show ?case
    proof (cases ending)
      case NeedMore
      let ?room = "inBufSize - length (tm_remainder ?t2)"
      from 1(2) l r1 NeedMore obtain t3 r3 where a: "awaitEvents (tm_in t1) ?room ?t2 = Some (t3, r3)" by (auto split: option.splits)
      note s = awaitEvents_safe [OF a ok2]
      show ?thesis
      proof (cases r3)
        case (Ok b)
        with s have b: "length b \<le> ?room" and e: "tm_remainder t3 = tm_remainder ?t2" by (simp_all add: undisturbed_def)
        from b terminal_okD(6) [OF ok2] have "length (tm_remainder t3 @ b) \<le> inBufSize" unfolding length_append e by linarith
        from terminal_ok_remainder [OF _ this] s have "terminal_ok (t3\<lparr>tm_remainder := tm_remainder t3 @ b\<rparr>)" by blast
        moreover from 1(2) l r1 NeedMore a Ok have "rec pasted' (t3\<lparr>tm_remainder := tm_remainder t3 @ b\<rparr>) = Some y" by simp
        ultimately show ?thesis using 1(1) by blast
      qed (use 1(2) l r1 NeedMore a s in auto)
    next
      case (GotLine line)
      with 1(2) l r1 have "y = finishLine line pasted' ?t2" by simp
      with finishLine_safe [OF ok2, of line pasted'] show ?thesis by simp
    qed (use 1(2) l r1 ok in auto)
  qed
  with assms(2) show ?thesis by blast
qed

lemma readLine_safe:
  assumes "readLine t = Some (t', r)" "terminal_ok t"
  shows "terminal_ok t' \<and> \<not> panics r"
proof -
  have d: "safe (if tm_cursorX t = 0 \<and> tm_cursorY t = 0
      then sbind (writeLine (tm_prompt t)) (\<lambda>_. supd (\<lambda>t. t\<lparr>tm_out := fst (writeBytes (tm_out t) (tm_outBuf t)), tm_outBuf := []\<rparr>))
      else sdone)"
    by (intro safe_if safe_sbind safe_draws [OF draws_writeLine] safe_draws [OF draws_done]) (simp add: safe_def supd_def)
  obtain t1 r1 where e: "drawPrompt t = (t1, r1)" by (cases "drawPrompt t")
  then have "(if tm_cursorX t = 0 \<and> tm_cursorY t = 0
      then sbind (writeLine (tm_prompt t)) (\<lambda>_. supd (\<lambda>t. t\<lparr>tm_out := fst (writeBytes (tm_out t) (tm_outBuf t)), tm_outBuf := []\<rparr>))
      else sdone) t = (t1, r1)" by (auto simp: drawPrompt_def sdone_def split: if_splits)
  from safeD [OF d assms(2) this] have s: "terminal_ok t1" "\<not> panics r1" by simp_all
  show ?thesis
  proof (cases r1)
    case (Ok u)
    with assms(1) e have "lineLoop (tm_pasteActive t1) t1 = Some (t', r)" by (simp add: readLine_def)
    from lineLoop_safe [OF this s(1)] show ?thesis by simp
  qed (use assms(1) e s in \<open>auto simp: readLine_def\<close>)
qed

lemma ReadPassword_safe:
  assumes "ReadPassword prompt t = Some (t', r)" "terminal_ok t"
  shows "terminal_ok t' \<and> \<not> panics r"
proof -
  from assms(1) obtain t1 where l: "readLine (t\<lparr>tm_prompt := decodeRunes prompt, tm_echo := False\<rparr>) = Some (t1, r)"
    and t': "t' = (if panics r then t1 else t1\<lparr>tm_prompt := tm_prompt t, tm_echo := True\<rparr>)" by (auto simp: ReadPassword_def bind_eq_Some_conv)
  have "terminal_ok (t\<lparr>tm_prompt := decodeRunes prompt, tm_echo := False\<rparr>)" using assms(2) by (simp add: terminal_ok_def cursor_ok_def)
  from readLine_safe [OF l this] t' show ?thesis by (simp add: terminal_ok_def cursor_ok_def)
qed

section \<open>What holds for every terminal\<close>

lemma terminal_ok_NewTerminal: "terminal_ok (NewTerminal c w prompt)"
  by (simp add: NewTerminal_def terminal_ok_def cursor_ok_def ring_ok_def)

text \<open>(C36) A terminal that is well-formed stays so and never panics, whatever happens to it: the cursor lies on the screen, the position in
  the line, the shown entry in the history and the rest of the input in its buffer, through every key, every write,
  resize and prompt, and through every line and password that is read while other goroutines do these things. A completion
  callback must return a position that lies between two characters of its line.\<close>

theorem terminal_never_panics:
  assumes "terminal_ok t"
  shows "(\<forall>key. \<exists>t' line. handleKey key t = (t', Ok line) \<and> terminal_ok t')
    \<and> (\<forall>buf. terminal_ok (fst (Terminal_Write buf t)) \<and> \<not> panics (snd (Terminal_Write buf t)))
    \<and> (\<forall>width height. terminal_ok (fst (SetSize width height t)) \<and> \<not> panics (snd (SetSize width height t)))
    \<and> (\<forall>prompt. terminal_ok (SetPrompt prompt t))
    \<and> (\<forall>t' r. ReadLine t = Some (t', r) \<longrightarrow> terminal_ok t' \<and> \<not> panics r)
    \<and> (\<forall>prompt t' r. ReadPassword prompt t = Some (t', r) \<longrightarrow> terminal_ok t' \<and> \<not> panics r)"
proof (intro conjI allI impI)
  fix key show "\<exists>t' line. handleKey key t = (t', Ok line) \<and> terminal_ok t'" using handleKey_refined [OF assms, of key] by blast
qed (use assms safe_Terminal_Write safe_SetSize terminal_ok_SetPrompt readLine_safe ReadPassword_safe in \<open>auto simp: safe_def ReadLine_def\<close>)

text \<open>(C35) Editing: whatever is on the screen, a key has the effect on the line, the cursor and the history that the abstract editor
  describes, and nothing else changes but the screen. The key Enter returns the line.\<close>

theorem editing_refined:
  assumes "terminal_ok t"
  shows "\<exists>t'. handleKey key t = (t', Ok (if key = keyEnter then Some (encodeRunes (tm_line t)) else None)) \<and> terminal_ok t' \<and> sameSetting t t'
    \<and> editorOf t' = (if key = keyEnter then (editorOf t)\<lparr>ed_before := [], ed_after := []\<rparr>
        else editKey (tm_pasteActive t) (tm_AutoCompleteCallback t) (recent (tm_history t)) key (editorOf t))"
  by (rule handleKey_refined [OF assms])

definition demoOut :: byteOut where
  "demoOut = \<lparr>bo_data = [], bo_fail = None\<rparr>"

definition demoTerminal :: Terminal where
  "demoTerminal = (NewTerminal [Arrives (bytes_of ''ls'' @ [13])] demoOut (bytes_of ''> ''))\<lparr>tm_line := [0x61, 32, 0x62], tm_pos := 3\<rparr>"

lemma terminal_ok_demo: "terminal_ok demoTerminal"
  by (simp add: demoTerminal_def NewTerminal_def terminal_ok_def cursor_ok_def ring_ok_def)

theorem terminal_never_panics_witness:
  "\<exists>t' line. handleKey keyUp demoTerminal = (t', Ok line) \<and> terminal_ok t'"
  using terminal_never_panics [OF terminal_ok_demo] by blast

theorem editing_refined_witness:
  "\<exists>t'. handleKey keyDeleteWord demoTerminal = (t', Ok None) \<and> editorOf t' = \<lparr>ed_before = [0x61, 32], ed_after = [], ed_index = 0, ed_pending = []\<rparr>"
proof -
  have "editKey False None (recent (tm_history demoTerminal)) keyDeleteWord (editorOf demoTerminal)
      = \<lparr>ed_before = [0x61, 32], ed_after = [], ed_index = 0, ed_pending = []\<rparr>" by code_simp
  moreover have "tm_pasteActive demoTerminal = False" "tm_AutoCompleteCallback demoTerminal = None" by (simp_all add: demoTerminal_def NewTerminal_def)
  ultimately show ?thesis using editing_refined [OF terminal_ok_demo, of keyDeleteWord] by auto
qed

end
