(* ===== verification/Terminal_Read.thy ===== *)
theory Terminal_Read
  imports Terminal_Edit
begin

text \<open>
  What a user types is what the terminal returns. Bytes arrive in pieces of any size, cut inside a character or behind the
  end of a line, while other goroutines write to the terminal; the contract \<open>line_input\<close> holds what the loop relies on of
  a state of typing, and it is given twice: for lines with the editor of the terminal, and for passwords with what was sent.
\<close>

section \<open>Typed characters\<close>

definition typedRune :: "rune \<Rightarrow> bool" where
  "typedRune r \<longleftrightarrow> validRune r \<and> 32 \<le> r \<and> r \<noteq> 127 \<and> r \<noteq> RuneError"

text \<open>The bytes that arrive up to the first failure.\<close>

fun arrivals :: "termEvent list \<Rightarrow> bytes" where
  "arrivals [] = []"
| "arrivals (Arrives b # es) = b @ arrivals es"
| "arrivals (Fails b e # es) = []"
| "arrivals (e # es) = arrivals es"

lemma typedRune_hd:
  assumes "typedRune r"
  shows "32 \<le> uint (hd (encodeRune r))"
proof (cases "r < 0x80")
  case True
  with assms have "encodeRune r = [word_of_int r]" by (intro encodeRune_ascii) (simp_all add: typedRune_def)
  moreover have "uint (word_of_int r :: byte) = r" using True assms by (simp add: uint_word_of_int typedRune_def)
  ultimately show ?thesis using assms by (simp add: typedRune_def)
next
  case False
  with hd_encodeRune [of r] show ?thesis by simp
qed

lemma not_special_byte:
  assumes "32 \<le> uint (b :: byte)"
  shows "controlKey b = None" "b \<noteq> 27"
proof -
  have "b \<noteq> c" if "uint c < 32" for c using assms that by auto
  from this [of 1] this [of 5] this [of 8] this [of 11] this [of 12] this [of 23] this [of 27]
  show "controlKey b = None" "b \<noteq> 27" by (simp_all add: controlKey_def)
qed

lemma bytesToKey_typed:
  assumes "typedRune r"
  shows "bytesToKey (encodeRune r @ b) False = (r, b)"
proof -
  obtain c cs where e: "encodeRune r = c # cs" by (cases "encodeRune r") (use encodeRune_nonempty [of r] in auto)
  from typedRune_hd [OF assms] not_special_byte [of c] e have c: "controlKey c = None" "c \<noteq> 27" by simp_all
  from assms DecodeRune_encode [of r b] FullRune_encode [of r b] show ?thesis by (simp add: bytesToKey_def typedRune_def e c)
qed

lemma bytesToKey_partial:
  assumes "typedRune r" "encodeRune r = p @ q" "q \<noteq> []"
  shows "bytesToKey p False = (RuneError, p)"
proof (cases p)
  case (Cons c cs)
  with typedRune_hd [OF assms(1)] not_special_byte [of c] assms(2) have "controlKey c = None" "c \<noteq> 27" by simp_all
  with FullRune_prefix [OF assms(2,3)] Cons show ?thesis by (simp add: bytesToKey_def)
qed (simp add: bytesToKey_def)

lemma bytesToKey_enter: "bytesToKey (13 # b) False = (keyEnter, b)"
proof -
  have "DecodeRune (encodeRune 13 @ b) = (13, length (encodeRune 13))" by (rule DecodeRune_encode) (simp add: validRune_def)
  moreover have "FullRune (encodeRune 13 @ b)" by (rule FullRune_encode)
  moreover have "encodeRune 13 = [13]" by (simp add: encodeRune_ascii)
  ultimately show ?thesis by (simp add: bytesToKey_def controlKey_def)
qed

lemma typedRune_no_key:
  assumes "typedRune r"
  shows "r \<noteq> keyEnter" "r \<noteq> keyBackspace" "r \<noteq> keyCtrlD" "r \<noteq> keyCtrlU" "r \<noteq> RuneError" "isPrintable r"
    "\<not> (0xd800 \<le> r \<and> r \<le> 0xdfff)" "r \<noteq> keyPasteStart"
  using assms by (auto simp: typedRune_def isPrintable_def validRune_def)

section \<open>What the loop relies on\<close>

text \<open>
  \<open>typing t0 ds t\<close>: since the state \<open>t0\<close> the characters \<open>ds\<close> were typed. \<open>entered\<close>: then Enter. \<open>calm\<close> events are the ones that may
  happen meanwhile.
\<close>

locale line_input =
  fixes typing entered :: "Terminal \<Rightarrow> rune list \<Rightarrow> Terminal \<Rightarrow> bool" and calm :: "termEvent \<Rightarrow> bool"
  assumes unpasted: "typing t0 ds t \<Longrightarrow> \<not> tm_pasteActive t"
    and typed: "typing t0 ds t \<Longrightarrow> typedRune r \<Longrightarrow> length ds < maxLineLength \<Longrightarrow>
      \<exists>t'. handleKey r t = (t', Ok None) \<and> typing t0 (ds @ [r]) t' \<and> tm_in t' = tm_in t"
    and enter: "typing t0 ds t \<Longrightarrow> \<exists>t'. handleKey keyEnter t = (t', Ok (Some (encodeRunes ds))) \<and> entered t0 ds t' \<and> tm_in t' = tm_in t"
    and kept: "typing t0 ds t \<Longrightarrow> typing t0 ds (keepRest rest t)"
    and resumed: "typing t0 ds t \<Longrightarrow> length b \<le> inBufSize \<Longrightarrow> typing t0 ds (t\<lparr>tm_remainder := b\<rparr>)"
    and input: "typing t0 ds t \<Longrightarrow> typing t0 ds (t\<lparr>tm_in := es\<rparr>)"
    and arrives: "calm (Arrives b)"
    and fails: "\<not> calm (Fails b e)"
    and written: "typing t0 ds t \<Longrightarrow> calm (OtherWrite buf) \<Longrightarrow>
      \<exists>t' r. Terminal_Write buf t = (t', r) \<and> \<not> panics r \<and> typing t0 ds t' \<and> tm_remainder t' = tm_remainder t"
    and resized: "typing t0 ds t \<Longrightarrow> calm (OtherSize width height) \<Longrightarrow>
      \<exists>t' r. SetSize width height t = (t', r) \<and> \<not> panics r \<and> typing t0 ds t' \<and> tm_remainder t' = tm_remainder t"
    and prompted: "typing t0 ds t \<Longrightarrow> calm (OtherPrompt prompt) \<Longrightarrow> typing t0 ds (SetPrompt prompt t)"
begin

lemma keyLoop_typed:
  assumes "typing t0 ds t" "b @ inp = encodeRunes todo @ 13 # later" "\<forall>r\<in>set todo. typedRune r" "length (ds @ todo) \<le> maxLineLength"
  shows "(\<exists>t' rest ds' todo' pasted'. keyLoop b pasted t = (t', Ok (rest, pasted', NeedMore)) \<and> typing t0 ds' t' \<and> tm_in t' = tm_in t
        \<and> ds' @ todo' = ds @ todo \<and> rest @ inp = encodeRunes todo' @ 13 # later \<and> length rest < 4 \<and> inp \<noteq> [] \<and> set todo' \<subseteq> set todo)
    \<or> (\<exists>t' rest. keyLoop b pasted t = (t', Ok (rest, False, GotLine (encodeRunes (ds @ todo)))) \<and> entered t0 (ds @ todo) t'
        \<and> tm_in t' = tm_in t \<and> rest @ inp = later \<and> length rest \<le> length b)" (is "?more ds t b todo pasted \<or> ?line ds t b todo pasted")
  using assms
proof (induction todo arbitrary: ds t b pasted)
  case Nil
  note paste = unpasted [OF Nil.prems(1)]
  show ?case
  proof (cases b)
    case Nil': Nil
    then have "keyLoop b pasted t = (t, Ok ([], pasted, NeedMore))" by (simp add: keyLoop.simps [of "[]"] bytesToKey_def)
    with Nil.prems Nil' show ?thesis by auto
  next
    case (Cons c cs)
    with Nil.prems(2) have b: "b = 13 # cs" "cs @ inp = later" by simp_all
    obtain t' where h: "handleKey keyEnter t = (t', Ok (Some (encodeRunes ds)))" "entered t0 ds t'" "tm_in t' = tm_in t" using enter [OF Nil.prems(1)] by blast
    then have "keyLoop b pasted t = (t', Ok (cs, False, GotLine (encodeRunes ds)))"
      using paste by (simp add: keyLoop.simps [of "13 # cs"] b(1) bytesToKey_enter RuneError_def)
    with h b show ?thesis by auto
  qed
next
  case (Cons r rs)
  note paste = unpasted [OF Cons.prems(1)]
  from Cons.prems(3) have r: "typedRune r" by simp
  note nk = typedRune_no_key [OF r]
  from Cons.prems(2) have "b @ inp = encodeRune r @ (encodeRunes rs @ 13 # later)" by simp
  from append_eq_append_conv2 [THEN iffD1, OF this] consider (all) b' where "b = encodeRune r @ b'" "b' @ inp = encodeRunes rs @ 13 # later"
    | (part) q where "encodeRune r = b @ q" "inp = q @ (encodeRunes rs @ 13 # later)" "q \<noteq> []"
  proof (elim exE disjE conjE, goal_cases)
    case (1 us)
    then show ?thesis by (intro 1(1) [of us]) simp_all
  next
    case (2 us)
    show ?thesis
    proof (cases us)
      case Nil
      with 2 show ?thesis by (intro 2(1) [of "[]"]) simp_all
    next
      case Cons
      with 2 show ?thesis by (intro 2(2) [of us]) simp_all
    qed
  qed
  then show ?case
  proof cases
    case all
    from Cons.prems(4) have "length ds < maxLineLength" by simp
    then obtain t1 where h: "handleKey r t = (t1, Ok None)" "typing t0 (ds @ [r]) t1" "tm_in t1 = tm_in t" using typed [OF Cons.prems(1) r] by blast
    have step: "keyLoop b pasted t = keyLoop b' False t1"
      using paste h(1) nk by (simp add: keyLoop.simps [of "encodeRune r @ b'"] all(1) bytesToKey_typed [OF r])
    have le: "length b' \<le> length b" using all(1) by simp
    have len: "length ((ds @ [r]) @ rs) \<le> maxLineLength" using Cons.prems(4) by simp
    from Cons.prems(3) have "\<forall>r\<in>set rs. typedRune r" by simp
    from Cons.IH [OF h(2) all(2) this len, of False] h(3) le show ?thesis unfolding step by fastforce
  next
    case part
    have "keyLoop b pasted t = (t, Ok (b, pasted, NeedMore))"
      by (simp add: keyLoop.simps [of b] paste bytesToKey_partial [OF r part(1,3)])
    moreover have "length b < 4" using arg_cong [OF part(1), of length] part(3) encodeRune_le_4 [of r] by (cases q) auto
    ultimately have "?more ds t b (r # rs) pasted" using Cons.prems(1,2) part(2,3)
      by (intro exI [of _ t] exI [of _ b] exI [of _ ds] exI [of _ "r # rs"] exI [of _ pasted]) simp
    then show ?thesis by blast
  qed
qed

lemma awaitEvents_typed:
  assumes "typing t0 ds t" "\<forall>e\<in>set es. calm e" "arrivals es \<noteq> []" "0 < room"
  shows "\<exists>t' b. awaitEvents es room t = Some (t', Ok b) \<and> typing t0 ds t' \<and> tm_remainder t' = tm_remainder t \<and> length b \<le> room
    \<and> b @ arrivals (tm_in t') = arrivals es \<and> (\<forall>e\<in>set (tm_in t'). calm e)
    \<and> length (tm_in t') + length (arrivals (tm_in t')) < length es + length (arrivals es)"
  using assms
proof (induction es arbitrary: t)
  case (Cons e es)
  show ?case
  proof (cases e)
    case (Arrives b)
    show ?thesis
    proof (cases "length b \<le> room")
      case True
      with Arrives Cons.prems input [OF Cons.prems(1), of es] show ?thesis by simp
    next
      case False
      have "take room b @ drop room b @ arrivals es = b @ arrivals es" by (metis append_assoc append_take_drop_id)
      with False Arrives Cons.prems input [OF Cons.prems(1), of "Arrives (drop room b) # es"] show ?thesis by (auto simp: arrives)
    qed
  next
    case (OtherWrite buf)
    with Cons.prems obtain t1 r where w: "Terminal_Write buf t = (t1, r)" "\<not> panics r" "typing t0 ds t1" "tm_remainder t1 = tm_remainder t"
      using written [of t0 ds t buf] by auto
    then have "awaitEvents (e # es) room t = awaitEvents es room t1" using OtherWrite by (cases r) simp_all
    with Cons.IH [OF w(3)] Cons.prems OtherWrite w(4) show ?thesis by fastforce
  next
    case (OtherSize width height)
    with Cons.prems obtain t1 r where w: "SetSize width height t = (t1, r)" "\<not> panics r" "typing t0 ds t1" "tm_remainder t1 = tm_remainder t"
      using resized [of t0 ds t width height] by auto
    then have "awaitEvents (e # es) room t = awaitEvents es room t1" using OtherSize by (cases r) simp_all
    with Cons.IH [OF w(3)] Cons.prems OtherSize w(4) show ?thesis by fastforce
  next
    case (OtherPrompt prompt)
    with Cons.prems have w: "typing t0 ds (SetPrompt prompt t)" using prompted by simp
    have "awaitEvents (e # es) room t = awaitEvents es room (SetPrompt prompt t)" using OtherPrompt by simp
    moreover have "tm_remainder (SetPrompt prompt t) = tm_remainder t" by (simp add: SetPrompt_def)
    ultimately show ?thesis using Cons.IH [OF w] Cons.prems OtherPrompt by fastforce
  qed (use Cons.prems fails in auto)
qed simp

lemma lineLoop_typed:
  assumes "typing t0 ds t" "tm_remainder t @ arrivals (tm_in t) = encodeRunes todo @ 13 # later" "length (tm_remainder t) \<le> inBufSize"
    and "\<forall>r\<in>set todo. typedRune r" "length (ds @ todo) \<le> maxLineLength" "\<forall>e\<in>set (tm_in t). calm e"
  shows "\<exists>t' rest. lineLoop pasted t = Some (finishLine (encodeRunes (ds @ todo)) False (keepRest rest t')) \<and> entered t0 (ds @ todo) t'
    \<and> rest @ arrivals (tm_in t') = later \<and> length rest \<le> inBufSize \<and> (\<forall>e\<in>set (tm_in t'). calm e)"
  using assms
proof (induction "length (tm_in t) + length (arrivals (tm_in t))" arbitrary: ds t todo pasted rule: less_induct)
  case less
  from keyLoop_typed [OF less.prems(1,2,4,5), of pasted] consider
    (wait) t1 rest ds' todo' pasted' where "keyLoop (tm_remainder t) pasted t = (t1, Ok (rest, pasted', NeedMore))" "typing t0 ds' t1" "tm_in t1 = tm_in t"
      "ds' @ todo' = ds @ todo" "rest @ arrivals (tm_in t) = encodeRunes todo' @ 13 # later" "length rest < 4" "arrivals (tm_in t) \<noteq> []" "set todo' \<subseteq> set todo"
    | (line) t1 rest where "keyLoop (tm_remainder t) pasted t = (t1, Ok (rest, False, GotLine (encodeRunes (ds @ todo))))" "entered t0 (ds @ todo) t1"
      "tm_in t1 = tm_in t" "rest @ arrivals (tm_in t) = later" "length rest \<le> length (tm_remainder t)" by blast
  then show ?case
  proof cases
    case wait
    let ?t2 = "keepRest rest t1"
    have rem: "tm_remainder ?t2 = rest" using wait(6) by (simp add: keepRest_def inBufSize_def)
    let ?room = "inBufSize - length (tm_remainder ?t2)"
    have room: "0 < ?room" using wait(6) by (simp add: rem inBufSize_def)
    obtain t3 b where a: "awaitEvents (tm_in t) ?room ?t2 = Some (t3, Ok b)" "typing t0 ds' t3" "tm_remainder t3 = rest" "length b \<le> ?room"
      "b @ arrivals (tm_in t3) = arrivals (tm_in t)" "\<forall>e\<in>set (tm_in t3). calm e"
      "length (tm_in t3) + length (arrivals (tm_in t3)) < length (tm_in t) + length (arrivals (tm_in t))"
      using awaitEvents_typed [OF kept [OF wait(2), of rest] less.prems(6) wait(7) room] rem by auto
    let ?t4 = "t3\<lparr>tm_remainder := rest @ b\<rparr>"
    have small: "length (rest @ b) \<le> inBufSize" using a(4) wait(6) by (simp add: rem inBufSize_def)
    have "lineLoop pasted t = lineLoop pasted' ?t4"
      using wait(1) a(1) by (subst lineLoop.simps) (simp add: wait(3) a(3) keepRest_def)
    moreover have "typing t0 ds' ?t4" by (rule resumed [OF a(2) small])
    moreover have "tm_remainder ?t4 @ arrivals (tm_in ?t4) = encodeRunes todo' @ 13 # later" using a(5) wait(5) by simp
    moreover have "\<forall>r\<in>set todo'. typedRune r" using wait(8) less.prems(4) by blast
    ultimately show ?thesis using less.hyps [of ?t4 ds' todo' pasted'] a(6,7) small wait(4) less.prems(5) by simp
  next
    case line
    have "lineLoop pasted t = Some (finishLine (encodeRunes (ds @ todo)) False (keepRest rest t1))"
      using line(1) by (subst lineLoop.simps) simp
    with line less.prems(3,6) show ?thesis by (intro exI [of _ t1] exI [of _ rest]) simp
  qed
qed

end

section \<open>Typing a line\<close>

definition typingLine :: "Terminal \<Rightarrow> rune list \<Rightarrow> Terminal \<Rightarrow> bool" where
  "typingLine t0 ds t \<longleftrightarrow> terminal_ok t \<and> tm_line t = ds \<and> tm_pos t = length ds \<and> \<not> tm_pasteActive t \<and> tm_AutoCompleteCallback t = None
     \<and> tm_echo t = tm_echo t0 \<and> tm_history t = tm_history t0"

definition enteredLine :: "Terminal \<Rightarrow> rune list \<Rightarrow> Terminal \<Rightarrow> bool" where
  "enteredLine t0 ds t \<longleftrightarrow> typingLine t0 [] t"

definition noFailure :: "termEvent \<Rightarrow> bool" where
  "noFailure e \<longleftrightarrow> (\<forall>b er. e \<noteq> Fails b er)"

lemma editorOf_at_end:
  "tm_pos t \<le> length (tm_line t) \<Longrightarrow> (ed_before (editorOf t) = ds \<and> ed_after (editorOf t) = []) = (tm_line t = ds \<and> tm_pos t = length ds)"
  by (auto simp: editorOf_def)

lemma editKey_typed:
  assumes "typedRune r" "length (ed_before e @ ed_after e) < maxLineLength"
  shows "editKey False None hist r e = e\<lparr>ed_before := ed_before e @ [r]\<rparr>"
proof -
  note nk = typedRune_no_key [OF assms(1)]
  from assms(2) have "length (ed_before e @ ed_after e) \<noteq> maxLineLength" by (rule less_imp_neq)
  moreover have "r \<noteq> k" if "0xd800 \<le> k" "k \<le> 0xdfff" for k using nk(7) that by blast
  ultimately show ?thesis using nk(2-4,6) by (simp add: editKey_def Let_def complete_def typeRune_def del: length_append)
qed

lemma undisturbed_typing: "typingLine t0 ds t \<Longrightarrow> terminal_ok t' \<Longrightarrow> undisturbed t t' \<Longrightarrow> typingLine t0 ds t'"
  by (simp add: typingLine_def undisturbed_def)

interpretation line: line_input typingLine enteredLine noFailure
proof (unfold_locales, goal_cases)
  case (2 t0 ds t r)
  then have t: "terminal_ok t" "tm_pos t \<le> length (tm_line t)" "\<not> tm_pasteActive t" "tm_AutoCompleteCallback t = None" "tm_line t = ds" "tm_pos t = length ds"
    by (simp_all add: typingLine_def)
  note nk = typedRune_no_key [OF 2(2)]
  obtain t' where h: "handleKey r t = (t', Ok None)" "terminal_ok t'" "sameSetting t t'" "editorOf t' = editKey False None (recent (tm_history t)) r (editorOf t)"
    using handleKey_refined [OF t(1), of r] nk(1) t(3,4) by auto
  have "editorOf t' = (editorOf t)\<lparr>ed_before := ds @ [r]\<rparr>"
    using h(4) 2(2,3) t(5,6) by (subst (asm) editKey_typed) (simp_all add: editorOf_def)
  then have "ed_before (editorOf t') = ds @ [r] \<and> ed_after (editorOf t') = []" using t(5,6) by (simp add: editorOf_def)
  then have "tm_line t' = ds @ [r] \<and> tm_pos t' = length (ds @ [r])" using editorOf_at_end [OF terminal_okD(2) [OF h(2)]] by blast
  with h 2(1) show ?case by (auto simp: typingLine_def sameSetting_def)
next
  case (3 t0 ds t)
  then have t: "terminal_ok t" "tm_line t = ds" by (simp_all add: typingLine_def)
  obtain t' where h: "handleKey keyEnter t = (t', Ok (Some (encodeRunes ds)))" "terminal_ok t'" "sameSetting t t'"
      "editorOf t' = (editorOf t)\<lparr>ed_before := [], ed_after := []\<rparr>"
    using handleKey_refined [OF t(1), of keyEnter] t(2) by auto
  then have "tm_line t' = [] \<and> tm_pos t' = length []" using editorOf_at_end [OF terminal_okD(2) [OF h(2)], of "[]"] by simp
  with h 3 show ?case by (auto simp: enteredLine_def typingLine_def sameSetting_def)
next
  case (9 t0 ds t buf)
  then have t: "terminal_ok t" by (simp add: typingLine_def)
  obtain t' r where w: "Terminal_Write buf t = (t', r)" by (cases "Terminal_Write buf t")
  from safeD [OF safe_Terminal_Write t w] undisturbed_typing [OF 9(1)] w show ?case by (auto simp: undisturbed_def)
next
  case (10 t0 ds t width height)
  then have t: "terminal_ok t" by (simp add: typingLine_def)
  obtain t' r where w: "SetSize width height t = (t', r)" by (cases "SetSize width height t")
  from safeD [OF safe_SetSize t w] undisturbed_typing [OF 10(1)] w show ?case by (auto simp: undisturbed_def)
next
  case (11 t0 ds t prompt)
  then show ?case using undisturbed_typing [OF 11(1) terminal_ok_SetPrompt [of t prompt]] by (simp add: typingLine_def)
next
  case (4 t0 ds t rest)
  then show ?case using terminal_ok_keepRest [of t rest] by (simp add: typingLine_def keepRest_def)
next
  case (5 t0 ds t b)
  then show ?case using terminal_ok_remainder [of t b] by (simp add: typingLine_def)
qed (simp_all add: typingLine_def noFailure_def)

section \<open>Lines that were typed are read\<close>

lemma drawPrompt_at:
  assumes "cursor_ok t"
  shows "\<exists>p m rs w b. drawPrompt t = ((screenAt t p m rs)\<lparr>tm_out := w, tm_outBuf := b\<rparr>, Ok ())
    \<and> (bo_fail (tm_out t) = None \<longrightarrow> bo_fail w = None \<and> bo_data w @ b = bo_data (tm_out t) @ tm_outBuf t @ encodeRunes rs)"
proof (cases "tm_cursorX t = 0 \<and> tm_cursorY t = 0")
  case True
  obtain p m rs where "writeLine (tm_prompt t) t = (screenAt t p m rs, Ok ())" using drawsD [OF draws_writeLine assms] by blast
  with True have "drawPrompt t = ((screenAt t p m rs)\<lparr>tm_out := fst (writeBytes (tm_out t) (tm_outBuf t @ encodeRunes rs)), tm_outBuf := []\<rparr>, Ok ())"
    by (simp add: drawPrompt_def sbind_def supd_def)
  moreover have "bo_fail (tm_out t) = None \<Longrightarrow> bo_fail (fst (writeBytes (tm_out t) (tm_outBuf t @ encodeRunes rs))) = None
      \<and> bo_data (fst (writeBytes (tm_out t) (tm_outBuf t @ encodeRunes rs))) = bo_data (tm_out t) @ tm_outBuf t @ encodeRunes rs"
    by (simp add: writeBytes_def)
  ultimately show ?thesis by (intro exI [of _ p] exI [of _ m] exI [of _ rs] exI [of _ "fst (writeBytes (tm_out t) (tm_outBuf t @ encodeRunes rs))"] exI [of _ "[]"]) simp
next
  case False
  have "screenAt t (cell t) (tm_maxLine t) [] = t" using screenAt_same [OF assms, of "[]"] by simp
  moreover have "drawPrompt t = (t, Ok ())" using False by (auto simp: drawPrompt_def)
  ultimately have "drawPrompt t = ((screenAt t (cell t) (tm_maxLine t) [])\<lparr>tm_out := tm_out t, tm_outBuf := tm_outBuf t\<rparr>, Ok ())" by simp
  then show ?thesis by (metis append_Nil2 encodeRunes_simps(1))
qed

text \<open>A terminal that waits for a line, with input that does not fail before the line is complete.\<close>

definition awaits :: "Terminal \<Rightarrow> bytes \<Rightarrow> bool" where
  "awaits t b \<longleftrightarrow> typingLine t (tm_line t) t \<and> tm_remainder t @ arrivals (tm_in t) = b \<and> (\<forall>e\<in>set (tm_in t). noFailure e)"

lemma ReadLine_typed:
  assumes "awaits t (encodeRunes rs @ 13 # later)" "\<forall>r\<in>set rs. typedRune r" "length (tm_line t @ rs) \<le> maxLineLength"
  shows "\<exists>t'. ReadLine t = Some (t', Ok (encodeRunes (tm_line t @ rs), False)) \<and> awaits t' later \<and> tm_line t' = [] \<and> tm_echo t' = tm_echo t
    \<and> recent (tm_history t') = (if tm_echo t then take 100 (encodeRunes (tm_line t @ rs) # recent (tm_history t)) else recent (tm_history t))"
proof -
  from assms(1) have t: "typingLine t (tm_line t) t" "terminal_ok t" by (simp_all add: awaits_def typingLine_def)
  obtain p m us w b where d: "drawPrompt t = ((screenAt t p m us)\<lparr>tm_out := w, tm_outBuf := b\<rparr>, Ok ())" using drawPrompt_at [OF terminal_okD(1) [OF t(2)]] by blast
  let ?t1 = "(screenAt t p m us)\<lparr>tm_out := w, tm_outBuf := b\<rparr>"
  have ok: "terminal_ok ?t1" using terminal_ok_screenAt [OF t(2)] by simp
  have "typingLine t (tm_line t) ?t1" by (rule undisturbed_typing [OF t(1) ok]) (simp add: undisturbed_def)
  moreover have "tm_remainder ?t1 @ arrivals (tm_in ?t1) = encodeRunes rs @ 13 # later" "\<forall>e\<in>set (tm_in ?t1). noFailure e" using assms(1) by (simp_all add: awaits_def)
  moreover have "length (tm_remainder ?t1) \<le> inBufSize" by (rule terminal_okD(6) [OF ok])
  ultimately obtain t2 rest where l: "lineLoop False ?t1 = Some (finishLine (encodeRunes (tm_line t @ rs)) False (keepRest rest t2))"
    "enteredLine t (tm_line t @ rs) t2" "rest @ arrivals (tm_in t2) = later" "length rest \<le> inBufSize" "\<forall>e\<in>set (tm_in t2). noFailure e"
    using line.lineLoop_typed [of t "tm_line t" ?t1 rs later False] assms(2,3) by blast
  let ?t3 = "keepRest rest t2"
  have ty: "typingLine t [] ?t3" using line.kept l(2) by (simp add: enteredLine_def)
  then have ok3: "terminal_ok ?t3" "tm_history ?t3 = tm_history t" "tm_echo ?t3 = tm_echo t" by (simp_all add: typingLine_def)
  obtain h where a: "ring_Add (encodeRunes (tm_line t @ rs)) (tm_history t) = (h, Ok ())" "recent h = take 100 (encodeRunes (tm_line t @ rs) # recent (tm_history t))"
    using ring.add [OF terminal_okD(4) [OF t(2)], of "encodeRunes (tm_line t @ rs)"] by (metis prod.collapse)
  let ?t4 = "if tm_echo t then ?t3\<lparr>tm_historyIndex := -1, tm_history := h\<rparr> else ?t3"
  have f: "finishLine (encodeRunes (tm_line t @ rs)) False ?t3 = (?t4, Ok (encodeRunes (tm_line t @ rs), False))"
    using a ok3 by (simp add: finishLine_def)
  have "ReadLine t = Some (?t4, Ok (encodeRunes (tm_line t @ rs), False))"
    using d l(1) t(1) f by (simp add: ReadLine_def readLine_def typingLine_def)
  moreover have "terminal_ok ?t4" using finishLine_safe [OF ok3(1), of "encodeRunes (tm_line t @ rs)" False] f by simp
  moreover have "tm_line ?t4 = []" "tm_pos ?t4 = 0" "\<not> tm_pasteActive ?t4" "tm_AutoCompleteCallback ?t4 = None" "tm_echo ?t4 = tm_echo t"
    using ty by (simp_all add: typingLine_def)
  moreover have "tm_remainder ?t4 @ arrivals (tm_in ?t4) = later" "\<forall>e\<in>set (tm_in ?t4). noFailure e" using l(3-5) by (simp_all add: keepRest_def)
  moreover have "recent (tm_history ?t4) = (if tm_echo t then take 100 (encodeRunes (tm_line t @ rs) # recent (tm_history t)) else recent (tm_history t))"
    using a(2) ok3(2) by simp
  ultimately show ?thesis by (intro exI [of _ ?t4]) (simp add: awaits_def typingLine_def)
qed

text \<open>So many calls of \<open>ReadLine\<close>, all of which return a line.\<close>

fun readLines :: "nat \<Rightarrow> Terminal \<Rightarrow> (Terminal \<times> (bytes \<times> bool) list) option" where
  "readLines 0 t = Some (t, [])"
| "readLines (Suc n) t = (case ReadLine t of
       Some (t, Ok l) \<Rightarrow> map_option (\<lambda>(t, ls). (t, l # ls)) (readLines n t)
     | _ \<Rightarrow> None)"

text \<open>(C37) Whatever lines the user types, as many calls of \<open>ReadLine\<close> return these lines in order, and what is typed later is kept: however
  the bytes of the characters are cut into pieces, and whatever other goroutines write meanwhile, with any sizes and
  prompts. The lines are the newest entries of the history.\<close>

theorem typed_lines_are_read:
  assumes "awaits t (concat (map (\<lambda>l. encodeRunes l @ [13]) ls) @ later)" "tm_line t = []"
    and "\<forall>l\<in>set ls. length l \<le> maxLineLength \<and> (\<forall>r\<in>set l. typedRune r)"
  shows "\<exists>t'. readLines (length ls) t = Some (t', map (\<lambda>l. (encodeRunes l, False)) ls) \<and> awaits t' later \<and> tm_line t' = []
    \<and> recent (tm_history t') = (if tm_echo t then take 100 (rev (map encodeRunes ls) @ recent (tm_history t)) else recent (tm_history t))"
  using assms
proof (induction ls arbitrary: t)
  case Nil
  then have "length (recent (tm_history t)) \<le> 100" using terminal_okD(4) [of t] by (auto simp: awaits_def typingLine_def ring_ok_def)
  with Nil show ?case by simp
next
  case (Cons l ls)
  then obtain t1 where t1: "ReadLine t = Some (t1, Ok (encodeRunes l, False))" "awaits t1 (concat (map (\<lambda>l. encodeRunes l @ [13]) ls) @ later)" "tm_line t1 = []"
      "tm_echo t1 = tm_echo t" "recent (tm_history t1) = (if tm_echo t then take 100 (encodeRunes l # recent (tm_history t)) else recent (tm_history t))"
    using ReadLine_typed [of t l "concat (map (\<lambda>l. encodeRunes l @ [13]) ls) @ later"] by auto
  obtain t' where t': "readLines (length ls) t1 = Some (t', map (\<lambda>l. (encodeRunes l, False)) ls)" "awaits t' later" "tm_line t' = []"
      "recent (tm_history t') = (if tm_echo t then take 100 (rev (map encodeRunes ls) @ recent (tm_history t1)) else recent (tm_history t1))"
    using Cons.IH [OF t1(2,3)] Cons.prems(3) t1(4) by auto
  have "take n (xs @ take n zs) = take n (xs @ zs)" for n and xs zs :: "bytes list" by simp
  from this [of 100 "rev (map encodeRunes ls)" "encodeRunes l # recent (tm_history t)"] show ?case using t1 t' by (simp del: take_append)
qed

section \<open>Passwords that were typed are not shown\<close>

definition silently :: "Terminal \<Rightarrow> bytes \<Rightarrow> rune list \<Rightarrow> Terminal \<Rightarrow> bool" where
  "silently t0 b ds t \<longleftrightarrow> terminal_ok t \<and> tm_line t = ds \<and> tm_pos t = length ds \<and> \<not> tm_echo t \<and> \<not> tm_pasteActive t \<and> tm_AutoCompleteCallback t = None
     \<and> tm_history t = tm_history t0 \<and> tm_historyIndex t = tm_historyIndex t0 \<and> tm_historyPending t = tm_historyPending t0
     \<and> bo_fail (tm_out t) = None \<and> bo_data (tm_out t) @ tm_outBuf t = bo_data (tm_out t0) @ tm_outBuf t0 @ b"

definition typingPassword :: "Terminal \<Rightarrow> rune list \<Rightarrow> Terminal \<Rightarrow> bool" where
  "typingPassword t0 ds t \<longleftrightarrow> silently t0 [] ds t"

definition enteredPassword :: "Terminal \<Rightarrow> rune list \<Rightarrow> Terminal \<Rightarrow> bool" where
  "enteredPassword t0 ds t \<longleftrightarrow> silently t0 [13, 10] [] t"

definition onlyInput :: "termEvent \<Rightarrow> bool" where
  "onlyInput e \<longleftrightarrow> (\<exists>b. e = Arrives b)"

lemma handleKey_silent:
  assumes "typedRune r" "\<not> tm_echo t" "\<not> tm_pasteActive t" "tm_AutoCompleteCallback t = None" "tm_pos t = length (tm_line t)" "length (tm_line t) < maxLineLength"
  shows "handleKey r t = (t\<lparr>tm_line := tm_line t @ [r], tm_pos := tm_pos t + 1\<rparr>, Ok None)"
proof -
  note nk = typedRune_no_key [OF assms(1)]
  have "r \<noteq> k" if "0xd800 \<le> k" "k \<le> 0xdfff" for k using nk(7) that by blast
  then have "handleKey r t = noLine (handleOther r) t" using nk(1-4) assms(3) by (simp add: handleKey_def)
  also have "\<dots> = noLine (addKeyToLine r) t" using assms(4,6) nk(6) by (simp add: noLine_def sbind_def handleOther_def insertPrintable_def)
  also have "\<dots> = (t\<lparr>tm_line := tm_line t @ [r], tm_pos := tm_pos t + 1\<rparr>, Ok None)"
    using assms(2,5) by (simp add: noLine_def addKeyToLine_def sbind_def supd_def sdone_def sres_def moveCursorToPos_def)
  finally show ?thesis .
qed

lemma handleEnter_silent:
  assumes "\<not> tm_echo t"
  shows "handleKey keyEnter t = (t\<lparr>tm_outBuf := tm_outBuf t @ [13, 10], tm_line := [], tm_pos := 0, tm_cursorX := 0, tm_cursorY := 0, tm_maxLine := 0\<rparr>,
    Ok (Some (encodeRunes (tm_line t))))"
proof -
  have "encodeRunes [13, 10] = [13, 10]" by (simp add: encodeRune_ascii)
  with assms show ?thesis by (simp add: handleKey_def handleEnter_def sbind_def moveCursorToPos_def queue_def supd_def del: encodeRunes_simps)
qed

lemma silently_keepRest: "silently t0 b ds t \<Longrightarrow> silently t0 b ds (keepRest rest t)"
  using terminal_ok_keepRest [of t rest] by (simp add: silently_def keepRest_def writeBytes_def)

interpretation password: line_input typingPassword enteredPassword onlyInput
proof (unfold_locales, goal_cases)
  case (2 t0 ds t r)
  then have t: "terminal_ok t" "\<not> tm_echo t" "\<not> tm_pasteActive t" "tm_AutoCompleteCallback t = None" "tm_pos t = length (tm_line t)" "length (tm_line t) < maxLineLength"
    by (simp_all add: typingPassword_def silently_def)
  have h: "handleKey r t = (t\<lparr>tm_line := tm_line t @ [r], tm_pos := tm_pos t + 1\<rparr>, Ok None)" by (rule handleKey_silent [OF 2(2) t(2-6)])
  obtain t' where "handleKey r t = (t', Ok (if r = keyEnter then Some (encodeRunes (tm_line t)) else None))" "terminal_ok t'"
    using handleKey_refined [OF t(1), of r] by blast
  with h have "terminal_ok (t\<lparr>tm_line := tm_line t @ [r], tm_pos := tm_pos t + 1\<rparr>)" by simp
  with h 2(1) show ?case by (simp add: typingPassword_def silently_def)
next
  case (3 t0 ds t)
  then have t: "terminal_ok t" "\<not> tm_echo t" "tm_line t = ds" by (simp_all add: typingPassword_def silently_def)
  note h = handleEnter_silent [OF t(2)]
  obtain t' where "handleKey keyEnter t = (t', Ok (Some (encodeRunes (tm_line t))))" "terminal_ok t'"
    using handleKey_refined [OF t(1), of keyEnter] by auto
  with h have ok: "terminal_ok (fst (handleKey keyEnter t))" by simp
  have "enteredPassword t0 ds (fst (handleKey keyEnter t))" using 3 ok by (simp add: enteredPassword_def typingPassword_def silently_def h)
  with h t(3) show ?case by simp
next
  case (4 t0 ds t rest)
  then show ?case by (simp add: typingPassword_def silently_keepRest)
next
  case (5 t0 ds t b)
  then show ?case using terminal_ok_remainder [of t b] by (simp add: typingPassword_def silently_def)
qed (simp_all add: typingPassword_def silently_def onlyInput_def)

text \<open>(C38) A password that is typed without editing is returned, and what is sent does not depend on it: the prompt, if the cursor is
  at the beginning, and the end of the line. It is not in the history, and the terminal echoes again with its old prompt.\<close>

theorem typed_password_is_not_shown:
  assumes "awaits t (encodeRunes rs @ 13 # later)" "tm_line t = []" "\<forall>e\<in>set (tm_in t). \<exists>b. e = Arrives b"
    and "\<forall>r\<in>set rs. typedRune r" "length rs \<le> maxLineLength" "bo_fail (tm_out t) = None"
  shows "\<exists>t'. ReadPassword prompt t = Some (t', Ok (encodeRunes rs, False))
    \<and> (let shown = fst (drawPrompt (t\<lparr>tm_prompt := decodeRunes prompt, tm_echo := False\<rparr>))
       in bo_data (tm_out t') = bo_data (tm_out shown) @ tm_outBuf shown @ [13, 10])
    \<and> tm_outBuf t' = [] \<and> tm_line t' = [] \<and> tm_history t' = tm_history t \<and> tm_historyIndex t' = tm_historyIndex t \<and> tm_historyPending t' = tm_historyPending t
    \<and> tm_prompt t' = tm_prompt t \<and> tm_echo t' \<and> awaits t' later"
proof -
  let ?t = "t\<lparr>tm_prompt := decodeRunes prompt, tm_echo := False\<rparr>"
  from assms(1) have "terminal_ok t" by (simp add: awaits_def typingLine_def)
  then have ok: "terminal_ok ?t" by simp
  obtain p m us w b where d: "drawPrompt ?t = ((screenAt ?t p m us)\<lparr>tm_out := w, tm_outBuf := b\<rparr>, Ok ())" "bo_fail w = None"
    using drawPrompt_at [OF terminal_okD(1) [OF ok]] assms(6) by auto
  let ?t1 = "(screenAt ?t p m us)\<lparr>tm_out := w, tm_outBuf := b\<rparr>"
  have ok1: "terminal_ok ?t1" using terminal_ok_screenAt [OF ok] by simp
  have "typingPassword ?t1 [] ?t1" using ok1 d(2) assms(1,2) by (simp add: typingPassword_def silently_def awaits_def typingLine_def)
  moreover have "tm_remainder ?t1 @ arrivals (tm_in ?t1) = encodeRunes rs @ 13 # later" "\<forall>e\<in>set (tm_in ?t1). onlyInput e"
    using assms(1,3) by (simp_all add: awaits_def onlyInput_def)
  moreover have "length (tm_remainder ?t1) \<le> inBufSize" by (rule terminal_okD(6) [OF ok1])
  ultimately obtain t2 rest where l: "lineLoop False ?t1 = Some (finishLine (encodeRunes rs) False (keepRest rest t2))"
    "enteredPassword ?t1 rs t2" "rest @ arrivals (tm_in t2) = later" "length rest \<le> inBufSize" "\<forall>e\<in>set (tm_in t2). onlyInput e"
    using password.lineLoop_typed [of ?t1 "[]" ?t1 rs later False] assms(4,5) by auto
  let ?t3 = "keepRest rest t2"
  have s: "silently ?t1 [13, 10] [] ?t3" using silently_keepRest l(2) by (simp add: enteredPassword_def)
  then have "\<not> tm_echo ?t3" by (simp add: silently_def)
  then have f: "finishLine (encodeRunes rs) False ?t3 = (?t3, Ok (encodeRunes rs, False))" by (simp add: finishLine_def)
  have "\<not> tm_pasteActive t" using assms(1) by (simp add: awaits_def typingLine_def)
  then have "readLine ?t = Some (?t3, Ok (encodeRunes rs, False))" using d l(1) f by (simp add: readLine_def)
  then have r: "ReadPassword prompt t = Some (?t3\<lparr>tm_prompt := tm_prompt t, tm_echo := True\<rparr>, Ok (encodeRunes rs, False))" by (simp add: ReadPassword_def)
  have k: "tm_outBuf ?t3 = []" "tm_remainder ?t3 @ arrivals (tm_in ?t3) = later" "\<forall>e\<in>set (tm_in ?t3). noFailure e"
    using l(3-5) by (auto simp: keepRest_def onlyInput_def noFailure_def)
  from s have ok3: "terminal_ok (?t3\<lparr>tm_prompt := tm_prompt t, tm_echo := True\<rparr>)" by (simp add: silently_def)
  from s k ok3 d show ?thesis unfolding r by (simp add: silently_def awaits_def typingLine_def)
qed

section \<open>Instances\<close>

definition demoTyping :: Terminal where
  "demoTyping = NewTerminal [Arrives [0x6c], OtherWrite [0x68, 0x69], Arrives [0x73, 13, 0xc3], OtherSize 20 10, Arrives [0xa9, 13, 0x78]] demoOut [0x24, 32]"

lemma awaits_demoTyping: "awaits demoTyping ([0x6c, 0x73, 13] @ [0xc3, 0xa9, 13] @ [0x78])"
  using terminal_ok_NewTerminal by (simp add: awaits_def typingLine_def demoTyping_def) (simp add: NewTerminal_def noFailure_def)

lemma encodeRunes_demo: "encodeRunes [0x6c, 0x73] = [0x6c, 0x73]" "encodeRunes [0xe9] = [0xc3, 0xa9]"
  by code_simp+

theorem typed_lines_are_read_witness:
  "\<exists>t'. readLines 2 demoTyping = Some (t', [([0x6c, 0x73], False), ([0xc3, 0xa9], False)]) \<and> recent (tm_history t') = [[0xc3, 0xa9], [0x6c, 0x73]]"
proof -
  have t: "tm_line demoTyping = []" "tm_echo demoTyping" "recent (tm_history demoTyping) = []" by (simp_all add: demoTyping_def NewTerminal_def recent_def)
  have "awaits demoTyping (concat (map (\<lambda>l. encodeRunes l @ [13]) [[0x6c, 0x73], [0xe9]]) @ [0x78])"
    using awaits_demoTyping encodeRunes_demo by (simp del: encodeRunes_simps)
  moreover have "\<forall>l\<in>set [[0x6c, 0x73], [0xe9]]. length l \<le> maxLineLength \<and> (\<forall>r\<in>set l. typedRune r)"
    by (simp add: maxLineLength_def typedRune_def validRune_def RuneError_def)
  ultimately show ?thesis using typed_lines_are_read [of demoTyping "[[0x6c, 0x73], [0xe9]]" "[0x78]"] t encodeRunes_demo
    by (auto simp: numeral_2_eq_2 simp del: encodeRunes_simps readLines.simps)
qed

definition demoPassword :: Terminal where
  "demoPassword = NewTerminal [Arrives [0x6c, 0x73, 13]] demoOut [0x24, 32]"

theorem typed_password_is_not_shown_witness:
  "\<exists>t'. ReadPassword [0x3a] demoPassword = Some (t', Ok ([0x6c, 0x73], False)) \<and> bo_data (tm_out t') = [0x3a, 13, 10]"
proof -
  have shown: "bo_data (tm_out (fst (drawPrompt (demoPassword\<lparr>tm_prompt := decodeRunes [0x3a], tm_echo := False\<rparr>)))) = [0x3a]"
    "tm_outBuf (fst (drawPrompt (demoPassword\<lparr>tm_prompt := decodeRunes [0x3a], tm_echo := False\<rparr>))) = []" by code_simp+
  have "awaits demoPassword (encodeRunes [0x6c, 0x73] @ 13 # [])"
    using terminal_ok_NewTerminal unfolding encodeRunes_demo by (simp add: awaits_def typingLine_def demoPassword_def) (simp add: NewTerminal_def noFailure_def)
  moreover have "tm_line demoPassword = []" "\<forall>e\<in>set (tm_in demoPassword). \<exists>b. e = Arrives b" "bo_fail (tm_out demoPassword) = None"
    by (simp_all add: demoPassword_def NewTerminal_def demoOut_def)
  moreover have "\<forall>r\<in>set [0x6c, 0x73]. typedRune r" "length [0x6c, 0x73 :: rune] \<le> maxLineLength"
    by (simp_all add: maxLineLength_def typedRune_def validRune_def RuneError_def)
  ultimately show ?thesis using typed_password_is_not_shown [of demoPassword "[0x6c, 0x73]" "[]" "[0x3a]"] shown encodeRunes_demo
    by (auto simp: Let_def simp del: encodeRunes_simps)
qed

end
