(* ===== verification/Terminal_Faults.thy ===== *)
theory Terminal_Faults
  imports Terminal_Read
begin

text \<open>
  What goes wrong. A password that is being read is not echoed, but some keys and a change of the size do not look at the
  echo, and the history remembers the line that is left for an entry. Some input stops the loop that reads a line.
\<close>

section \<open>What becomes known of a password\<close>

lemma writeLine_fits:
  assumes "cursor_ok t" "line \<noteq> []" "tm_cursorX t + length line \<le> tm_termWidth t"
  shows "\<exists>p m rs. writeLine line t = (screenAt t p m (line @ rs), Ok ())"
proof -
  have todo: "min (length line) (tm_termWidth t - tm_cursorX t) = length line" using assms(3) by simp
  let ?t1 = "screenAt t (cell t) (tm_maxLine t) line"
  obtain p m rs where a: "advanceCursor (visualLength line) ?t1 = (screenAt ?t1 p m rs, Ok ())"
    using drawsD [OF draws_advance cursor_ok_screenAt [OF assms(1)]] by blast
  show ?thesis unfolding writeLine_round [OF assms(1,2)] Let_def todo
    by (intro exI [of _ p] exI [of _ m] exI [of _ rs]) (use a in \<open>simp add: sbind_def queue_at [OF assms(1)] writeLine.simps\<close>)
qed

lemma repaint_fits:
  assumes "cursor_ok t" "tm_line t \<noteq> []" "visualLength (tm_prompt t) + length (tm_line t) \<le> tm_termWidth t"
  shows "\<exists>p m us vs. clearAndRepaintLinePlusNPrevious n t = (screenAt t p m (us @ tm_line t @ vs), Ok ())"
proof -
  let ?v = "visualLength (tm_prompt t)"
  let ?A = "sbind (move (tm_cursorY t) 0 (tm_cursorX t) 0) (\<lambda>_. sbind (supd (\<lambda>t. t\<lparr>tm_cursorX := 0, tm_cursorY := 0\<rparr>)) (\<lambda>_. sbind clearLineToRight (\<lambda>_.
     sbind (clearDown n) (\<lambda>_. (\<lambda>t. move (tm_cursorY t) 0 0 0 t)))))"
  let ?B = "\<lambda>_. sbind (supd (\<lambda>t. t\<lparr>tm_cursorX := 0, tm_cursorY := 0\<rparr>)) (\<lambda>_.
     sbind (queue (tm_prompt t)) (\<lambda>_. sbind (advanceCursor ?v) (\<lambda>_. sbind (writeLine (tm_line t)) (\<lambda>_. moveCursorToPos (tm_pos t)))))"
  have fields: "sbind ?A ?B t = clearAndRepaintLinePlusNPrevious n t"
    by (simp add: clearAndRepaintLinePlusNPrevious_def sbind_assoc)
  have "draws ?A" by (intro drawing)
  from drawsD [OF this assms(1)] obtain p1 m1 r1 where 1: "?A t = (screenAt t p1 m1 r1, Ok ())" by blast
  have z: "(screenAt t p1 m1 r1)\<lparr>tm_cursorX := 0, tm_cursorY := 0\<rparr> = screenAt t 0 m1 r1" by (simp add: screenAt_def)
  have c: "cursor_ok (screenAt t q m rs)" for q m rs using assms(1) by simp
  obtain m2 r2 where 2: "advanceCursor ?v (screenAt t 0 m1 (r1 @ tm_prompt t)) = (screenAt t ?v m2 ((r1 @ tm_prompt t) @ r2), Ok ())"
    using advanceCursor_at [OF c, of ?v 0 m1 "r1 @ tm_prompt t"] unfolding cell_screenAt screenAt_screenAt add_0 by blast
  have "?v < tm_termWidth t" using assms(2,3) by (cases "tm_line t") simp_all
  then have "tm_cursorX (screenAt t ?v m2 ((r1 @ tm_prompt t) @ r2)) + length (tm_line t) \<le> tm_termWidth (screenAt t ?v m2 ((r1 @ tm_prompt t) @ r2))" using assms(3) by simp
  from writeLine_fits [OF c assms(2) this] obtain p3 m3 r3 where 3: "writeLine (tm_line t) (screenAt t ?v m2 ((r1 @ tm_prompt t) @ r2))
      = (screenAt t p3 m3 ((r1 @ tm_prompt t @ r2) @ tm_line t @ r3), Ok ())" by auto
  obtain p4 m4 r4 where 4: "moveCursorToPos (tm_pos t) (screenAt t p3 m3 ((r1 @ tm_prompt t @ r2) @ tm_line t @ r3))
      = (screenAt t p4 m4 ((r1 @ tm_prompt t @ r2) @ tm_line t @ (r3 @ r4)), Ok ())"
    using drawsD [OF draws_moveCursorToPos c, of "tm_pos t" p3 m3 "(r1 @ tm_prompt t @ r2) @ tm_line t @ r3"] by auto
  have q: "queue (tm_prompt t) (screenAt t 0 m1 r1) = (screenAt t 0 m1 (r1 @ tm_prompt t), Ok ())" by (simp add: queue_at [OF c])
  have "sbind ?A ?B t = (screenAt t p4 m4 ((r1 @ tm_prompt t @ r2) @ tm_line t @ (r3 @ r4)), Ok ())"
  proof -
    have "sbind ?A ?B t = ?B () (screenAt t p1 m1 r1)" by (simp only: sbind_def [of ?A] 1 prod.case res.case)
    then show ?thesis using 2 3 4 by (simp add: sbind_def supd_def z q)
  qed
  then show ?thesis unfolding fields by blast
qed

lemma SetSize_wider:
  assumes "cursor_ok t" "tm_line t \<noteq> []" "tm_termWidth t < width" "visualLength (tm_prompt t) + length (tm_line t) \<le> width" "bo_fail (tm_out t) = None"
  shows "\<exists>pre post. bo_data (tm_out (fst (SetSize width height t))) = bo_data (tm_out t) @ pre @ encodeRunes (tm_line t) @ post"
proof -
  let ?t = "t\<lparr>tm_termWidth := width, tm_termHeight := height\<rparr>"
  have "cursor_ok ?t" using assms(1,3) by (simp add: cursor_ok_def)
  then obtain p m us vs where r: "clearAndRepaintLinePlusNPrevious (tm_maxLine t) ?t = (screenAt ?t p m (us @ tm_line t @ vs), Ok ())"
    using repaint_fits [of ?t "tm_maxLine t"] assms(2,4) by fastforce
  have "fst (SetSize width height t) = (screenAt ?t p m (us @ tm_line t @ vs))
      \<lparr>tm_out := (tm_out t)\<lparr>bo_data := bo_data (tm_out t) @ tm_outBuf t @ encodeRunes (us @ tm_line t @ vs)\<rparr>, tm_outBuf := []\<rparr>"
    using assms(2,3,5) r by (simp add: SetSize_def Let_def sbind_def rawWrite_def writeBytes_def)
  then show ?thesis by (intro exI [of _ "tm_outBuf t @ encodeRunes us"] exI [of _ "encodeRunes vs"]) simp
qed

lemma blankOut_fits:
  "cursor_ok t \<Longrightarrow> tm_cursorX t + n < tm_termWidth t \<Longrightarrow>
    \<exists>p m. blankOut n t = (screenAt t p m (replicate n 32), Ok ()) \<and> p = cell t + n"
proof (induction n arbitrary: t)
  case 0
  then show ?case using screenAt_same [of t "[]"] by (intro exI [of _ "cell t"] exI [of _ "tm_maxLine t"]) (simp add: sdone_def)
next
  case (Suc n)
  let ?t1 = "screenAt t (cell t) (tm_maxLine t) [32]"
  have x: "(cell t + 1) mod tm_termWidth t = tm_cursorX t + 1"
  proof -
    have "cell t + 1 = (tm_cursorX t + 1) + tm_cursorY t * tm_termWidth t" by (simp add: cell_def)
    then show ?thesis using Suc.prems(2) by (simp only: mod_mult_self1) simp
  qed
  obtain m where a: "advanceCursor 1 ?t1 = (screenAt t (cell t + 1) m [32], Ok ())"
    using advanceCursor_at [OF cursor_ok_screenAt [OF Suc.prems(1)], of 1 "cell t" "tm_maxLine t" "[32]"] x by auto
  let ?t2 = "screenAt t (cell t + 1) m [32]"
  have "cursor_ok ?t2" "tm_cursorX ?t2 + n < tm_termWidth ?t2" using Suc.prems x by simp_all
  from Suc.IH [OF this] obtain p m' where "blankOut n ?t2 = (screenAt t (cell t + Suc n) m' (32 # replicate n 32), Ok ())" by auto
  with a show ?case using queue_at [OF Suc.prems(1), of "[32]"] by (auto simp: space_def sbind_def)
qed

lemma deleteLine_fits:
  assumes "terminal_ok t" "\<not> tm_echo t" "tm_cursorX t + (length (tm_line t) - tm_pos t) < tm_termWidth t"
  shows "tm_outBuf (fst (handleDeleteLine t)) = tm_outBuf t @ replicate (length (tm_line t) - tm_pos t) 32"
proof -
  obtain p m where "blankOut (length (tm_line t) - tm_pos t) t = (screenAt t p m (replicate (length (tm_line t) - tm_pos t) 32), Ok ())"
    using blankOut_fits [OF terminal_okD(1) [OF assms(1)] assms(3)] by blast
  moreover have "encodeRunes (replicate n 32) = replicate n 32" for n by (induction n) (simp_all add: encodeRune_ascii)
  ultimately show ?thesis using assms(2) terminal_okD(2) [OF assms(1)]
    by (simp add: handleDeleteLine_def sbind_def sres_def supd_def moveCursorToPos_def)
qed

lemma editorOf_line: "tm_pos t \<le> length (tm_line t) \<Longrightarrow> tm_line t = ed_before (editorOf t) @ ed_after (editorOf t)"
  by simp

text \<open>The line that is left for an entry of the history outlives Enter.\<close>

lemma pending_survives:
  assumes "terminal_ok t" "\<not> tm_pasteActive t" "tm_historyIndex t = -1" "0 < rb_size (tm_history t)" "\<forall>r\<in>set (tm_line t). validRune r"
  shows "tm_line (fst (handleKey keyDown ((fst (handleKey keyEnter (fst (handleKey keyUp t))))\<lparr>tm_prompt := prompt, tm_echo := True\<rparr>))) = tm_line t"
proof -
  let ?h = "recent (tm_history t)"
  have index: "ed_index (editorOf t) = 0" using assms(3) by simp
  have line: "ed_before (editorOf t) @ ed_after (editorOf t) = tm_line t" by simp
  obtain t1 where 1: "handleKey keyUp t = (t1, Ok None)" "terminal_ok t1" "sameSetting t t1"
      "editorOf t1 = editKey False (tm_AutoCompleteCallback t) ?h keyUp (editorOf t)"
    using handleKey_refined [OF assms(1), of keyUp] assms(2) by auto
  have e1: "ed_index (editorOf t1) = 1" "ed_pending (editorOf t1) = encodeRunes (tm_line t)"
    using 1(4) assms(4) index line by (simp_all add: editKey_def Let_def showOlder_def showEntry_def)
  obtain t2 where 2: "handleKey keyEnter t1 = (t2, Ok (Some (encodeRunes (tm_line t1))))" "terminal_ok t2" "sameSetting t1 t2"
      "editorOf t2 = (editorOf t1)\<lparr>ed_before := [], ed_after := []\<rparr>"
    using handleKey_refined [OF 1(2), of keyEnter] by auto
  let ?t2 = "t2\<lparr>tm_prompt := prompt, tm_echo := True\<rparr>"
  have ok: "terminal_ok ?t2" using 2(2) by simp
  have e2: "editorOf ?t2 = (editorOf t1)\<lparr>ed_before := [], ed_after := []\<rparr>"
  proof -
    have "editorOf ?t2 = editorOf t2" by (simp add: editorOf_def)
    with 2(4) show ?thesis by (simp only:)
  qed
  have "\<not> tm_pasteActive ?t2" using 1(3) 2(3) assms(2) by (simp add: sameSetting_def)
  then obtain t3 where 3: "handleKey keyDown ?t2 = (t3, Ok None)" "terminal_ok t3"
      "editorOf t3 = editKey False (tm_AutoCompleteCallback ?t2) (recent (tm_history ?t2)) keyDown (editorOf ?t2)"
    using handleKey_refined [OF ok, of keyDown] by auto
  have "ed_before (editorOf t3) = decodeRunes (encodeRunes (tm_line t))" "ed_after (editorOf t3) = []"
    using 3(3) e1 by (simp_all add: e2 editKey_def Let_def showNewer_def showEntry_def del: editorOf_fields)
  with decodeRunes_encodeRunes [OF assms(5), of "[]"] editorOf_line [OF terminal_okD(2) [OF 3(2)]] have "tm_line t3 = tm_line t" by (simp del: editorOf_fields)
  with 1(1) 2(1) 3(1) show ?thesis by simp
qed

text \<open>(C39) While a password is read: a change to a wider screen sends what was typed so far, if it fits on a row; deleting to the end of the
  line sends a blank for every character after the cursor; and a password that is left for an entry of the history is
  kept, so that the next line that is read with echo shows it after the key Down.\<close>

theorem password_discloses:
  assumes "terminal_ok t" "\<not> tm_echo t" "\<not> tm_pasteActive t"
  shows "(\<forall>width height. tm_line t \<noteq> [] \<and> tm_termWidth t < width \<and> visualLength (tm_prompt t) + length (tm_line t) \<le> width \<and> bo_fail (tm_out t) = None \<longrightarrow>
        (\<exists>pre post. bo_data (tm_out (fst (SetSize width height t))) = bo_data (tm_out t) @ pre @ encodeRunes (tm_line t) @ post))
    \<and> (tm_cursorX t + (length (tm_line t) - tm_pos t) < tm_termWidth t \<longrightarrow>
        tm_outBuf (fst (handleKey keyDeleteLine t)) = tm_outBuf t @ replicate (length (tm_line t) - tm_pos t) 32)
    \<and> (tm_historyIndex t = -1 \<and> 0 < rb_size (tm_history t) \<and> (\<forall>r\<in>set (tm_line t). validRune r) \<longrightarrow>
        tm_line (fst (handleKey keyDown ((fst (handleKey keyEnter (fst (handleKey keyUp t))))\<lparr>tm_prompt := prompt, tm_echo := True\<rparr>))) = tm_line t)"
proof (intro conjI allI impI)
  show "\<exists>pre post. bo_data (tm_out (fst (SetSize width height t))) = bo_data (tm_out t) @ pre @ encodeRunes (tm_line t) @ post"
    if "tm_line t \<noteq> [] \<and> tm_termWidth t < width \<and> visualLength (tm_prompt t) + length (tm_line t) \<le> width \<and> bo_fail (tm_out t) = None" for width height
    using SetSize_wider [OF terminal_okD(1) [OF assms(1)]] that by blast
  show "tm_outBuf (fst (handleKey keyDeleteLine t)) = tm_outBuf t @ replicate (length (tm_line t) - tm_pos t) 32"
    if "tm_cursorX t + (length (tm_line t) - tm_pos t) < tm_termWidth t"
  proof -
    have "fst (handleKey keyDeleteLine t) = fst (handleDeleteLine t)"
      using assms(3) by (simp add: handleKey_def noLine_def sbind_def sres_def split: prod.splits res.splits)
    with deleteLine_fits [OF assms(1,2) that] show ?thesis by simp
  qed
qed (use pending_survives [OF assms(1,3)] in blast)

section \<open>Input that stops the loop\<close>

text \<open>A full buffer that holds the beginning of an unknown sequence.\<close>

definition clogged :: "Terminal \<Rightarrow> bool" where
  "clogged t \<longleftrightarrow> length (tm_remainder t) = inBufSize \<and> hd (tm_remainder t) = 27 \<and> (\<forall>c\<in>set (tm_remainder t). \<not> endsSequence c)
     \<and> (\<exists>c b es. tm_in t = Arrives (c # b) # es)"

lemma unended_sequence:
  assumes "hd b = 27" "b \<noteq> []" "\<forall>c\<in>set b. \<not> endsSequence c"
  shows "bytesToKey b pasting = (RuneError, b)"
proof -
  have no: "b ! i \<noteq> c" if "i < length b" "endsSequence c" for i c using assms(3) that nth_mem by blast
  have letters: "endsSequence 0x41" "endsSequence 0x42" "endsSequence 0x43" "endsSequence 0x44" "endsSequence 0x48" "endsSequence 0x46" "endsSequence 0x7e"
    by (simp_all add: endsSequence_def)
  have a: "arrowKey (b ! 2) = None" if "3 \<le> length b" using no [of 2] letters that by (simp add: arrowKey_def)
  have k: "altKey (b ! 5) = None" if "6 \<le> length b" using no [of 5] letters that by (simp add: altKey_def)
  have five: "pasteStart ! 5 = 0x7e" "pasteEnd ! 5 = 0x7e" by code_simp+
  have p: "take 6 b \<noteq> pasteStart" "take 6 b \<noteq> pasteEnd" if "6 \<le> length b"
    using no [of 5] letters(7) that five by (metis Suc_le_lessD eval_nat_numeral(2,3) lessI nth_take semiring_norm(26,27,28))+
  have u: "unknownKey b = (RuneError, b)" using assms(3) by (simp add: unknownKey_def dropWhile_eq_Nil_conv [THEN iffD2])
  have "escapeKey b pasting = (RuneError, b)" using a k p u by (auto simp: escapeKey_def)
  moreover have "controlKey 27 = None" by (simp add: controlKey_def)
  ultimately show ?thesis using assms(1,2) by (cases b) (simp_all add: bytesToKey_def)
qed

lemma clogged_spins: "clogged t \<Longrightarrow> lineLoop pasted t = None"
proof (rule ccontr)
  assume c: "clogged t" and "lineLoop pasted t \<noteq> None"
  then obtain y where y: "lineLoop pasted t = Some y" by blast
  have "\<not> clogged t"
  proof (rule lineLoop.raw_induct [where P = "\<lambda>pasted t y. \<not> clogged t", OF _ y], intro notI, goal_cases)
    case (1 rec pasted t y)
    from 1(3) obtain c b es where i: "tm_in t = Arrives (c # b) # es" by (auto simp: clogged_def)
    let ?r = "tm_remainder t"
    from 1(3) have "bytesToKey ?r (tm_pasteActive t) = (RuneError, ?r)" by (intro unended_sequence) (auto simp: clogged_def inBufSize_def)
    then have k: "keyLoop ?r pasted t = (t, Ok (?r, pasted, NeedMore))" by (simp add: keyLoop.simps [of ?r])
    have r: "tm_remainder (keepRest ?r t) = ?r" using 1(3) by (simp add: keepRest_def clogged_def)
    have "awaitEvents (tm_in t) (inBufSize - length (tm_remainder (keepRest ?r t))) (keepRest ?r t) = Some ((keepRest ?r t)\<lparr>tm_in := tm_in t\<rparr>, Ok [])"
      using 1(3) unfolding r by (simp add: i clogged_def)
    with 1(2) k have "rec pasted ((keepRest ?r t)\<lparr>tm_in := tm_in t, tm_remainder := ?r\<rparr>) = Some y" by (simp add: r)
    from 1(1) [OF this] 1(3) show False by (simp add: clogged_def)
  qed
  with c show False by simp
qed

lemma readLine_after_prompt:
  assumes "terminal_ok t"
  shows "\<exists>t'. readLine t = lineLoop (tm_pasteActive t) t' \<and> terminal_ok t' \<and> undisturbed t t' \<and> tm_in t' = tm_in t"
proof -
  obtain p m us w b where d: "drawPrompt t = ((screenAt t p m us)\<lparr>tm_out := w, tm_outBuf := b\<rparr>, Ok ())" using drawPrompt_at [OF terminal_okD(1) [OF assms]] by blast
  then have "readLine t = lineLoop (tm_pasteActive t) ((screenAt t p m us)\<lparr>tm_out := w, tm_outBuf := b\<rparr>)" by (simp add: readLine_def)
  moreover have "terminal_ok ((screenAt t p m us)\<lparr>tm_out := w, tm_outBuf := b\<rparr>)" using terminal_ok_screenAt [OF assms] by simp
  ultimately show ?thesis by (intro exI [of _ "(screenAt t p m us)\<lparr>tm_out := w, tm_outBuf := b\<rparr>"]) (simp add: undisturbed_def)
qed

text \<open>(C40) Input that stops the loop: once \<^verbatim>\<open>^D\<close> on an empty line has ended the input, it stays in front of what was typed after it, and every
  later call returns \<^verbatim>\<open>io.EOF\<close> again. A byte that begins no character is dropped with the wait for more input, so
  that a complete line behind it is not returned until something else is typed. A buffer full of an escape sequence
  without an end leaves no room to read: the loop does not return, whatever arrives.\<close>

theorem input_that_stops_the_loop:
  assumes "terminal_ok t" "\<not> tm_pasteActive t"
  shows "(tm_line t = [] \<and> tm_remainder t = 4 # later \<longrightarrow> (\<exists>t'. ReadLine t = Some (t', Err EOF) \<and> tm_line t' = [] \<and> tm_remainder t' = 4 # later))
    \<and> (tm_remainder t = 0xff # later \<and> tm_in t = [] \<longrightarrow> ReadLine t = None)
    \<and> (clogged t \<longrightarrow> ReadLine t = None)"
proof -
  obtain t1 where 1: "readLine t = lineLoop False t1" "terminal_ok t1" "undisturbed t t1" "tm_in t1 = tm_in t" "\<not> tm_pasteActive t1"
    using readLine_after_prompt [OF assms(1)] assms(2) by (auto simp: undisturbed_def)
  have eof: "\<exists>t'. ReadLine t = Some (t', Err EOF) \<and> tm_line t' = [] \<and> tm_remainder t' = 4 # later" if "tm_line t = []" "tm_remainder t = 4 # later"
  proof -
    have f: "FullRune (encodeRune 4 @ later)" by (rule FullRune_encode)
    have d: "DecodeRune (encodeRune 4 @ later) = (4, length (encodeRune 4))" by (rule DecodeRune_encode) (simp add: validRune_def)
    have e: "encodeRune 4 = [4]" by (simp add: encodeRune_ascii)
    have "bytesToKey (4 # later) False = (keyCtrlD, later)" using f d by (simp add: e bytesToKey_def controlKey_def)
    moreover have "tm_remainder t1 = 4 # later" "tm_line t1 = []" using 1(3) that by (simp_all add: undisturbed_def)
    ultimately have "keyLoop (tm_remainder t1) False t1 = (t1, Ok (later, False, AtEOF))"
      using 1(5) by (simp add: keyLoop.simps [of "4 # later"] RuneError_def)
    then have "lineLoop False t1 = Some (t1, Err EOF)" by (subst lineLoop.simps) simp
    with 1(1) \<open>tm_remainder t1 = 4 # later\<close> \<open>tm_line t1 = []\<close> show ?thesis by (simp add: ReadLine_def)
  qed
  have bad: "ReadLine t = None" if "tm_remainder t = 0xff # later" "tm_in t = []"
  proof -
    have "bytesToKey (0xff # later) False = (RuneError, later)"
      by (simp add: bytesToKey_def controlKey_def FullRune_def DecodeRune_def leadByte_def RuneError_def)
    moreover have "tm_remainder t1 = 0xff # later" using 1(3) that by (simp add: undisturbed_def)
    ultimately have "keyLoop (tm_remainder t1) False t1 = (t1, Ok (later, False, NeedMore))"
      using 1(5) by (simp add: keyLoop.simps [of "0xff # later"])
    then show ?thesis using 1(1,4) that(2) by (simp add: ReadLine_def lineLoop.simps [of _ t1])
  qed
  have "ReadLine t = None" if "clogged t"
    using clogged_spins [of t1 False] 1(1,3,4) that by (simp add: ReadLine_def clogged_def undisturbed_def)
  with eof bad show ?thesis by blast
qed

section \<open>Instances\<close>

text \<open>A password half typed, on a terminal that has read a line before.\<close>

definition demoSecret :: Terminal where
  "demoSecret = (NewTerminal [] demoOut [0x3a])\<lparr>tm_echo := False, tm_line := [0x6c, 0x73], tm_pos := 0, tm_cursorX := 1,
     tm_history := fst (ring_Add [0x77] \<lparr>rb_entries = [], rb_max = 0, rb_head = 0, rb_size = 0\<rparr>)\<rparr>"

lemma terminal_ok_demoSecret: "terminal_ok demoSecret"
proof -
  have "ring_ok (fst (ring_Add [0x77] \<lparr>rb_entries = [], rb_max = 0, rb_head = 0, rb_size = 0\<rparr>))"
    using ring.add [of "\<lparr>rb_entries = [], rb_max = 0, rb_head = 0, rb_size = 0\<rparr>" "[0x77]"] by (simp add: ring_ok_def)
  moreover have "rb_size (fst (ring_Add [0x77] \<lparr>rb_entries = [], rb_max = 0, rb_head = 0, rb_size = 0\<rparr>)) = 1" by (simp add: ring_Add_def Let_def)
  ultimately show ?thesis by (simp add: demoSecret_def NewTerminal_def terminal_ok_def cursor_ok_def)
qed

theorem password_discloses_witness:
  "(\<exists>pre post. bo_data (tm_out (fst (SetSize 100 24 demoSecret))) = pre @ [0x6c, 0x73] @ post)
    \<and> tm_outBuf (fst (handleKey keyDeleteLine demoSecret)) = [32, 32]
    \<and> tm_line (fst (handleKey keyDown ((fst (handleKey keyEnter (fst (handleKey keyUp demoSecret))))\<lparr>tm_prompt := [0x24], tm_echo := True\<rparr>))) = [0x6c, 0x73]"
proof -
  have f: "\<not> tm_echo demoSecret" "\<not> tm_pasteActive demoSecret" "tm_line demoSecret = [0x6c, 0x73]" "tm_pos demoSecret = 0" "tm_termWidth demoSecret = 80"
    "tm_cursorX demoSecret = 1" "tm_historyIndex demoSecret = -1" "rb_size (tm_history demoSecret) = 1" "tm_outBuf demoSecret = []"
    "bo_fail (tm_out demoSecret) = None" "bo_data (tm_out demoSecret) = []"
    by (simp_all add: demoSecret_def NewTerminal_def demoOut_def ring_Add_def Let_def)
  have v: "visualLength (tm_prompt demoSecret) = 1" by code_simp
  have "\<forall>r\<in>set (tm_line demoSecret). validRune r" by (simp add: f validRune_def)
  with password_discloses [OF terminal_ok_demoSecret f(1,2), of "[0x24]"] show ?thesis
    unfolding f v encodeRunes_demo(1) by (auto simp: numeral_2_eq_2 dest: spec [of _ 100])
qed

definition demoClogged :: Terminal where
  "demoClogged = (NewTerminal [Arrives [13]] demoOut [0x24])\<lparr>tm_remainder := 27 # replicate 255 0x30\<rparr>"

theorem input_that_stops_the_loop_witness:
  "ReadLine demoClogged = None"
proof -
  have "terminal_ok demoClogged" using terminal_ok_remainder [OF terminal_ok_NewTerminal, of "27 # replicate 255 0x30"]
    by (simp add: demoClogged_def inBufSize_def)
  moreover have "\<not> tm_pasteActive demoClogged" by (simp add: demoClogged_def NewTerminal_def)
  moreover have "clogged demoClogged" by (simp add: clogged_def demoClogged_def NewTerminal_def inBufSize_def endsSequence_def)
  ultimately show ?thesis using input_that_stops_the_loop [of demoClogged] by blast
qed

end
