(* ===== verification/Spec2Isabelle.thy ===== *)
theory Spec2Isabelle
  imports App Mux Client_Login Agent Terminal_Faults
begin

text \<open>
  A verification development of the SSH key checker: a server that lets every client in that presents public keys, tells it
  on a terminal which of its keys are weak or known to be compromised, and closes the connection. The program is
  \<^verbatim>\<open>src/main.go\<close>, \<^verbatim>\<open>src/server.go\<close>, \<^verbatim>\<open>src/key.go\<close> and \<^verbatim>\<open>src/blacklist.go\<close>; the SSH protocol is the copy of \<^verbatim>\<open>golang.org/x/crypto/ssh\<close> that the
  repository carries under \<^verbatim>\<open>src/Godeps/_workspace/src\<close>, named \<^verbatim>\<open>ssh/\<close> below.

  \<^bold>\<open>The parts and how they interact.\<close> \<^verbatim>\<open>main\<close> loads the blacklist and the host key and accepts connections; each connection runs in its
  own goroutine (\<^verbatim>\<open>serve\<close>). A connection is set up by \<^verbatim>\<open>ssh.NewServerConn\<close>: version lines, a first key exchange, user authentication.
  Authentication calls back into the program, which records every key that is presented in a map shared by all connections,
  under the identifier of the session. Then the program serves the channels that the client opens: it marks the
  blacklisted keys, waits for the requests of the client or a timer, writes the report and closes the channel. Below this are
  the multiplexer with its channels and flow control, the handshake transport, the packet transport with its ciphers,
  and the wire format.

  \<^bold>\<open>The theories\<close>, from the bottom:

  \<^item> \<open>Go_Prelude\<close>: bytes, strings, errors and panics as values, slices, big-endian integers.
  \<^item> \<open>Wire\<close>, \<open>Messages\<close>, \<open>Message_Types\<close> (\<^verbatim>\<open>ssh/messages.go\<close>): the parsers and printers of the wire format, with the contract \<open>wire_codec\<close> that
    each pair satisfies; \<open>Marshal\<close> and \<open>Unmarshal\<close> over struct types as data, with the contract \<open>wire_message\<close>; the 24 messages and \<open>decode\<close>.
  \<^item> \<open>Keys\<close>, \<open>Key_Codec\<close>, \<open>Authorized_Keys\<close>, \<open>Signers\<close> (\<^verbatim>\<open>ssh/keys.go\<close>, \<^verbatim>\<open>ssh/certs.go\<close>): public keys and certificates, their printed forms and
    parsers, lines of \<^verbatim>\<open>authorized_keys\<close>, private keys, signing and checking of certificates. Shown: parsing undoes printing for every
    well-formed key, what was parsed prints back, signatures verify, \<open>CheckCert\<close> accepts exactly the valid certificates.
  \<^item> \<open>Key_Check\<close> (\<^verbatim>\<open>src/key.go\<close>, \<^verbatim>\<open>src/blacklist.go\<close>): bit lengths, fingerprints, loading of the blacklist files and marking of keys.
  \<^item> \<open>Negotiation\<close> (\<^verbatim>\<open>ssh/common.go\<close>): the choice of algorithms, the configuration, the data signed for authentication, flow-control windows.
  \<^item> \<open>Cipher\<close>, \<open>Transport\<close> (\<^verbatim>\<open>ssh/cipher.go\<close>, \<^verbatim>\<open>ssh/mac.go\<close>, \<^verbatim>\<open>ssh/transport.go\<close>): packets under a stream cipher with a MAC and under AES-GCM, one direction of a
    connection with its sequence number and pending cipher, derivation of keys, version lines. The contract \<open>packet_cipher\<close> says that
    what is written is what is read, by a reader in the same state; both ciphers, their sum and a direction of the
    transport satisfy it. Shown: delivery over key changes, authenticity of accepted packets, distinct nonces, key
    derivation as in RFC 4253.
  \<^item> \<open>Kex\<close> (\<^verbatim>\<open>ssh/kex.go\<close>): Diffie-Hellman over groups and curves, client and server. Shown: both sides compute the same result.
  \<^item> \<open>Handshake\<close> (\<^verbatim>\<open>ssh/handshake.go\<close>): the key exchange as a function on the state of the transport; the reading goroutine, writers, the lock
    and the condition variable as steps. Shown: no packet of a writer within an exchange, and what a failed exchange does.
  \<^item> \<open>Server_Auth\<close>, \<open>Server_Conn\<close> (\<^verbatim>\<open>ssh/server.go\<close>): user authentication with its methods, the cache of keys and interactive challenges; setting up
    a connection. Shown: a client is let in only by a request that a configured method accepts.
  \<^item> \<open>Client_Auth\<close>, \<open>Client_Login\<close> (\<^verbatim>\<open>ssh/client_auth.go\<close>, \<^verbatim>\<open>ssh/client.go\<close>): the client side of the same dialogue, and the client run against the server.
    Shown: the client sends credentials only for a method that the server offered; a key that the server accepts gets the
    client in; an interactive dialogue over the wire is the interview that the two callbacks hold.
  \<^item> \<open>Keyring\<close>, \<open>Agent\<close> (\<^verbatim>\<open>ssh/agent/\<close>): the keyring in memory, the server of the agent protocol and its client. The contract \<open>lockable\<close> is what the
    server relies on of a locked agent. Shown: the operations of the client over the server are those of the keyring, a
    locked agent stays locked, what \<open>Remove\<close> really does, and which messages make the programs panic.
  \<^item> \<open>Buffer\<close>, \<open>Channel\<close>, \<open>Mux\<close> (\<^verbatim>\<open>ssh/buffer.go\<close>, \<^verbatim>\<open>ssh/channel.go\<close>, \<^verbatim>\<open>ssh/mux.go\<close>): the linked-list buffer as a refinement of the contract \<open>byte_queue\<close>,
    channels with their windows, the table of channels and the loop over packets. Shown: bounds on what is sent and on
    what waits to be read, identifiers name one channel, the loop shuts everything down.
  \<^item> \<open>Sessions\<close>, \<open>Report\<close>, \<open>Serve\<close>, \<open>App\<close> (\<^verbatim>\<open>src/server.go\<close>, \<^verbatim>\<open>src/main.go\<close>): the callbacks and the shared map, the texts of the report, the goroutines of a
    session channel as a step relation, the program start, and all connections interleaved. Shown: exactly the presented
    keys are recorded and reported, sessions do not disturb each other, every channel is closed in the end.
  \<^item> \<open>Utf8\<close>: characters and their encoding, as \<^verbatim>\<open>unicode/utf8\<close> has them.
  \<^item> \<open>Terminal\<close> (\<^verbatim>\<open>ssh/terminal/terminal.go\<close>): the line editor, with its history, keys, screen and the loop that reads a line; what other
    goroutines do while it waits are events between the pieces of input.
  \<^item> \<open>Terminal_Edit\<close>, \<open>Terminal_Read\<close>, \<open>Terminal_Faults\<close>: the history satisfies the contract \<open>recent_entries\<close>; every key refines an abstract editor, and no
    operation panics; lines and passwords that are typed are read, by the contract \<open>line_input\<close> that holds for both; what
    becomes known of a password, and which input stops the loop.
  \<^item> \<open>Transition\<close>: the contracts \<open>invariant_system\<close> and \<open>terminating_system\<close> of step relations, interpreted for the goroutines of a channel, the
    interleaved connections, the multiplexer and the handshake transport.

  \<^bold>\<open>State and operations.\<close> A Go struct is a \<^verbatim>\<open>record\<close> with the fields of the source (a prefix keeps the names apart), an interface with its
  implementations a \<^verbatim>\<open>datatype\<close>, a nil pointer or slice that the code tests for is \<open>None\<close>. An operation is a function that returns the new state
  and a result \<open>Ok\<close>, \<open>Err\<close> or \<open>Panic\<close>: index and slice expressions, nil pointers and explicit panics of the source are branches of it. Machine
  integers are words of their width. Goroutines that share state are steps of a relation whose granularity is what a
  lock or a channel operation makes atomic.

  \<^bold>\<open>Bounds and fuel.\<close> No definition takes fuel. Loops are recursions with a measure; the ones that may not end for some argument
  (\<open>writeLoop\<close>, \<open>materialLoop\<close>, \<open>removeLoop\<close>, \<open>lineLoop\<close>) are partial functions whose theorems say when they return. Where a theorem bounds a length, the
  bound is that of the source (32-bit lengths, the maximal packet size of 256 kilobytes less the padding).

  \<^bold>\<open>Parameters.\<close> The arithmetic of the cryptographic primitives (records \<open>crypto\<close>, \<open>signprims\<close>, \<open>cipherlib\<close>, \<open>kexlib\<close>, \<open>agentlib\<close>), the parsing of PEM and DER
  (\<open>derlib\<close>) and of network addresses (\<open>netlib\<close>), files and the network are arguments. What theorems need of them are named hypotheses
  (\<open>sign_laws\<close>, \<open>aead_laws\<close>, \<open>lib_laws\<close>, \<open>lib_accepts\<close>, \<open>nonempty_sums\<close>, \<open>ecdh_laws\<close>), each with an instance in the witnesses.

  \<^bold>\<open>Not modelled.\<close> Logging, which formats lines for the operator. The sessions and the TCP forwarding of the client (\<^verbatim>\<open>ssh/session.go\<close>, \<^verbatim>\<open>ssh/tcpip.go\<close>,
  the type \<^verbatim>\<open>Client\<close>), the forwarding of agent connections, which the server does not use, and the system calls that put a terminal into raw mode. Memory reuse inside a packet (the scratch slices of the ciphers, the packet
  pool), since every result is copied before it is used again. How much randomness a signature consumes.
\<close>

end
